(* ===== verification/RG_Prelude.thy ===== *)
theory RG_Prelude
  imports Main "HOL-Library.Word" "HOL-Library.Sublist"
begin

text \<open>
  Shared vocabulary of the development: Rust's integer types as words, its checked and
  saturating arithmetic, \<open>Result\<close> as a sum, little-endian byte encodings, and the decimal
  rendering used by the detail strings. Nothing here is about one component; the component
  theories rest on the lemma collections declared below.

  Conventions used everywhere: \<open>u8\<close> to \<open>u128\<close> are words of that width, \<open>usize\<close> lengths and
  counts are \<open>nat\<close>, a byte slice or a fixed-size byte array is a list of bytes, a Rust
  \<open>String\<close> is its list of UTF-8 bytes as a HOL \<open>string\<close>, and \<open>Result<T, E>\<close> is \<open>'e + 't\<close>
  with \<open>Err\<close> on the left.
\<close>

unbundle bit_operations_syntax

section \<open>Types\<close>

type_synonym u8 = "8 word"
type_synonym u16 = "16 word"
type_synonym u32 = "32 word"
type_synonym u64 = "64 word"
type_synonym u128 = "128 word"
type_synonym bytes = "u8 list"
type_synonym hash32 = "u8 list"

abbreviation Ok :: "'a \<Rightarrow> 'e + 'a" where
  "Ok \<equiv> Inr"

abbreviation Err :: "'e \<Rightarrow> 'e + 'a" where
  "Err \<equiv> Inl"

named_theorems rust_arith \<open>values of the saturating and checked operations\<close>
named_theorems byte_simps \<open>lengths and values of byte encodings\<close>

definition ok_or :: "'e \<Rightarrow> 'a option \<Rightarrow> 'e + 'a" where
  "ok_or e x = (case x of None \<Rightarrow> Err e | Some a \<Rightarrow> Ok a)"

fun and_then :: "'e + 'a \<Rightarrow> ('a \<Rightarrow> 'e + 'b) \<Rightarrow> 'e + 'b" where
  "and_then (Inl e) f = Inl e"
| "and_then (Inr a) f = f a"

definition first :: "'a list \<Rightarrow> 'a option" where
  "first xs = (case xs of [] \<Rightarrow> None | x # _ \<Rightarrow> Some x)"

lemma first_simps [simp]: "first [] = None" "first (x # xs) = Some x"
  by (simp_all add: first_def)

lemma first_Some_iff: "first xs = Some x \<longleftrightarrow> (\<exists>ys. xs = x # ys)"
  by (cases xs) auto

lemma first_None_iff [simp]: "first xs = None \<longleftrightarrow> xs = []"
  by (cases xs) auto

lemma ok_or_simps [simp]: "ok_or e None = Err e" "ok_or e (Some x) = Ok x"
  by (simp_all add: ok_or_def)

lemma ok_or_Ok_iff: "ok_or e x = Ok y \<longleftrightarrow> x = Some y"
  by (cases x) auto

lemma and_then_Ok_iff: "and_then r f = Ok y \<longleftrightarrow> (\<exists>x. r = Ok x \<and> f x = Ok y)"
  by (cases r) auto

lemma and_then_Err_iff: "and_then r f = Err e \<longleftrightarrow> r = Err e \<or> (\<exists>x. r = Ok x \<and> f x = Err e)"
  by (cases r) auto

section \<open>Machine arithmetic\<close>

definition sat_add :: "'a::len word \<Rightarrow> 'a word \<Rightarrow> 'a word" where
  "sat_add a b = (if unat a + unat b < 2 ^ LENGTH('a) then a + b else - 1)"

definition sat_sub :: "'a::len word \<Rightarrow> 'a word \<Rightarrow> 'a word" where
  "sat_sub a b = (if a < b then 0 else a - b)"

definition sat_mul :: "'a::len word \<Rightarrow> 'a word \<Rightarrow> 'a word" where
  "sat_mul a b = (if unat a * unat b < 2 ^ LENGTH('a) then a * b else - 1)"

definition checked_add :: "'a::len word \<Rightarrow> 'a word \<Rightarrow> 'a word option" where
  "checked_add a b = (if unat a + unat b < 2 ^ LENGTH('a) then Some (a + b) else None)"

text \<open>\<open>uN::try_from(n).unwrap_or(uN::MAX)\<close>\<close>

definition clamp_nat :: "nat \<Rightarrow> 'a::len word" where
  "clamp_nat n = (if n < 2 ^ LENGTH('a) then of_nat n else - 1)"

lemma unat_max_word: "unat (- 1 :: 'a::len word) = 2 ^ LENGTH('a) - 1"
  by (simp add: unsigned_minus_1_eq_mask mask_eq_exp_minus_1)

lemma unat_add_if_fits:
  fixes a b :: "'a::len word"
  assumes "unat a + unat b < 2 ^ LENGTH('a)"
  shows "unat (a + b) = unat a + unat b"
  using assms by (simp add: unat_word_ariths)

lemma unat_sat_add [rust_arith]:
  fixes a b :: "'a::len word"
  shows "unat (sat_add a b) = min (unat a + unat b) (2 ^ LENGTH('a) - 1)"
  by (auto simp: sat_add_def unat_add_if_fits unat_max_word)

lemma unat_sat_sub [rust_arith]: "unat (sat_sub a b) = unat a - unat b"
  by (simp add: sat_sub_def unat_sub word_le_nat_alt word_less_nat_alt)

lemma unat_sat_mul [rust_arith]:
  fixes a b :: "'a::len word"
  shows "unat (sat_mul a b) = min (unat a * unat b) (2 ^ LENGTH('a) - 1)"
  by (auto simp: sat_mul_def unat_max_word unat_word_ariths)

lemma unat_clamp_nat [rust_arith]:
  "unat (clamp_nat n :: 'a::len word) = min n (2 ^ LENGTH('a) - 1)"
  by (auto simp: clamp_nat_def unat_max_word unat_of_nat)

lemma checked_add_Some_iff:
  fixes a b :: "'a::len word"
  shows "checked_add a b = Some c \<longleftrightarrow> unat c = unat a + unat b"
proof
  assume "checked_add a b = Some c"
  then show "unat c = unat a + unat b"
    by (auto simp: checked_add_def unat_add_if_fits split: if_splits)
next
  assume c: "unat c = unat a + unat b"
  then have fits: "unat a + unat b < 2 ^ LENGTH('a)"
    by (metis unsigned_less)
  then have "unat (a + b) = unat c"
    using c by (simp add: unat_add_if_fits)
  then show "checked_add a b = Some c"
    using fits by (simp add: checked_add_def word_unat_eq_iff)
qed

lemma checked_add_None_iff:
  fixes a b :: "'a::len word"
  shows "checked_add a b = None \<longleftrightarrow> 2 ^ LENGTH('a) \<le> unat a + unat b"
  by (auto simp: checked_add_def)

lemma unat_ucast_up:
  fixes w :: "'a::len word"
  assumes "LENGTH('a) \<le> LENGTH('b::len)"
  shows "unat (ucast w :: 'b word) = unat w"
proof -
  have "unat w < 2 ^ LENGTH('a)" by (rule unsigned_less)
  also have "\<dots> \<le> 2 ^ LENGTH('b)" using assms by simp
  finally show ?thesis by (simp add: unsigned_ucast_eq take_bit_nat_eq_self)
qed

lemma or_disjoint_nat:
  fixes m n :: nat
  assumes "2 ^ s dvd m" and "n < 2 ^ s"
  shows "m OR n = m + n"
proof -
  obtain k where k: "m = push_bit s k" using assms(1) by (auto simp: dvd_def push_bit_eq_mult mult.commute)
  have n: "n = take_bit s n" using assms(2) by (simp add: take_bit_nat_eq_self)
  have "m AND n = 0"
    by (subst n, subst k) (auto intro!: bit_eqI simp: bit_and_iff bit_push_bit_iff bit_take_bit_iff)
  then show ?thesis by (simp add: disjunctive_add_eq_or)
qed

lemma unat_or_disjoint:
  fixes a b :: "'a::len word"
  assumes "2 ^ s dvd unat a" and "unat b < 2 ^ s"
  shows "unat (a OR b) = unat a + unat b"
  using or_disjoint_nat [OF assms] by (simp add: unsigned_or_eq)

lemma unat_push_bit: "unat (push_bit s (w :: 'a::len word)) = (unat w * 2 ^ s) mod 2 ^ LENGTH('a)"
  unfolding unsigned_push_bit_eq by (simp add: push_bit_eq_mult take_bit_eq_mod)

lemma unat_drop_bit: "unat (drop_bit s (w :: 'a::len word)) = unat w div 2 ^ s"
  using unsigned_less [of w] unfolding unsigned_drop_bit_eq
  by (simp add: drop_bit_eq_div take_bit_nat_eq_self div_less_dividend less_mult_imp_div_less
      le_less_trans [OF div_le_dividend])

section \<open>Folding checked and saturating sums\<close>

text \<open>\<open>iter.try_fold(0, |acc, x| acc.checked_add(x))\<close>\<close>

fun checked_sum :: "'a::len word \<Rightarrow> 'a word list \<Rightarrow> 'a word option" where
  "checked_sum acc [] = Some acc"
| "checked_sum acc (x # xs) =
     (case checked_add acc x of None \<Rightarrow> None | Some acc' \<Rightarrow> checked_sum acc' xs)"

lemma checked_sum_correct:
  fixes acc :: "'a::len word"
  shows "checked_sum acc xs =
    (if unat acc + sum_list (map unat xs) < 2 ^ LENGTH('a)
     then Some (of_nat (unat acc + sum_list (map unat xs))) else None)"
proof (induction xs arbitrary: acc)
  case Nil
  then show ?case by simp
next
  case (Cons x xs)
  show ?case
  proof (cases "unat acc + unat x < 2 ^ LENGTH('a)")
    case True
    then show ?thesis
      using Cons.IH [of "acc + x"]
      by (simp add: checked_add_def unat_add_if_fits add.assoc)
  next
    case False
    then show ?thesis by (simp add: checked_add_def)
  qed
qed

definition sat_sum :: "'a::len word \<Rightarrow> 'a word list \<Rightarrow> 'a word" where
  "sat_sum acc xs = foldl sat_add acc xs"

lemma min_absorb_partial: "min (min p m + s) m = min (p + s) (m::nat)"
  by (auto simp: min_def)

lemma unat_sat_sum [rust_arith]:
  fixes acc :: "'a::len word"
  shows "unat (sat_sum acc xs) = min (unat acc + sum_list (map unat xs)) (2 ^ LENGTH('a) - 1)"
proof (induction xs arbitrary: acc)
  case Nil
  have "unat acc < 2 ^ LENGTH('a)" by (rule unsigned_less)
  then have "unat acc \<le> 2 ^ LENGTH('a) - 1" by linarith
  then show ?case by (simp add: sat_sum_def)
next
  case (Cons x xs)
  show ?case
    using Cons.IH [of "sat_add acc x"]
    by (simp add: sat_sum_def unat_sat_add min_absorb_partial add.assoc)
qed

section \<open>Bytes\<close>

fun le_val :: "bytes \<Rightarrow> nat" where
  "le_val [] = 0"
| "le_val (b # bs) = unat b + 256 * le_val bs"

fun to_le :: "nat \<Rightarrow> nat \<Rightarrow> bytes" where
  "to_le 0 v = []"
| "to_le (Suc n) v = of_nat (v mod 256) # to_le n (v div 256)"

definition u16_to_le_bytes :: "u16 \<Rightarrow> bytes" where
  "u16_to_le_bytes w = to_le 2 (unat w)"

definition u32_to_le_bytes :: "u32 \<Rightarrow> bytes" where
  "u32_to_le_bytes w = to_le 4 (unat w)"

definition u128_to_le_bytes :: "u128 \<Rightarrow> bytes" where
  "u128_to_le_bytes w = to_le 16 (unat w)"

definition u128_from_le_bytes :: "bytes \<Rightarrow> u128" where
  "u128_from_le_bytes bs = of_nat (le_val bs)"

lemma length_to_le [byte_simps, simp]: "length (to_le n v) = n"
  by (induction n arbitrary: v) auto

lemma unat_byte_less: "unat (b :: u8) < 256"
  using unsigned_less [of b] by simp

lemma le_val_bound: "le_val bs < 256 ^ length bs"
proof (induction bs)
  case Nil
  then show ?case by simp
next
  case (Cons b bs)
  then have "le_val bs + 1 \<le> 256 ^ length bs" by simp
  then have "256 * (le_val bs + 1) \<le> 256 * 256 ^ length bs"
    by (rule mult_le_mono2)
  then show ?case
    using unat_byte_less [of b] by simp
qed

lemma le_val_to_le [byte_simps]: "le_val (to_le n v) = v mod 256 ^ n"
proof (induction n arbitrary: v)
  case 0
  then show ?case by simp
next
  case (Suc n)
  have "unat (of_nat (v mod 256) :: u8) = v mod 256"
    by (simp add: unat_of_nat)
  then show ?case
    using Suc by (simp add: mod_mult2_eq)
qed

lemma to_le_le_val [byte_simps]: "to_le (length bs) (le_val bs) = bs"
proof (induction bs)
  case Nil
  then show ?case by simp
next
  case (Cons b bs)
  have b: "unat b < 256" by (rule unat_byte_less)
  then have "(unat b + 256 * le_val bs) mod 256 = unat b"
    and "(unat b + 256 * le_val bs) div 256 = le_val bs"
    by auto
  with Cons show ?case by simp
qed

lemma le_val_append: "le_val (xs @ ys) = le_val xs + 256 ^ length xs * le_val ys"
  by (induction xs) (auto simp: algebra_simps)

lemma le_val_replicate: "255 * le_val (replicate n b) = unat b * (256 ^ n - 1)"
proof (induction n)
  case (Suc n)
  have "255 * le_val (replicate (Suc n) b) = 255 * unat b + 256 * (255 * le_val (replicate n b))"
    by simp
  also have "\<dots> = unat b * (255 + 256 * (256 ^ n - 1))"
    unfolding Suc.IH by (simp add: algebra_simps)
  also have "255 + 256 * (256 ^ n - 1) = (256 ^ Suc n - 1 :: nat)"
    by (simp add: right_diff_distrib')
  finally show ?case .
qed simp

lemma le_val_inject:
  "length xs = length ys \<Longrightarrow> le_val xs = le_val ys \<longleftrightarrow> xs = ys"
  by (metis to_le_le_val)

lemma to_le_inject:
  assumes "v < 256 ^ n" and "w < 256 ^ n"
  shows "to_le n v = to_le n w \<longleftrightarrow> v = w"
  using assms by (metis le_val_to_le mod_less)

lemma length_word_le_bytes [byte_simps, simp]:
  "length (u16_to_le_bytes a) = 2" "length (u32_to_le_bytes b) = 4"
  "length (u128_to_le_bytes c) = 16"
  by (simp_all add: u16_to_le_bytes_def u32_to_le_bytes_def u128_to_le_bytes_def)

lemma u32_to_le_bytes_inject: "u32_to_le_bytes a = u32_to_le_bytes b \<longleftrightarrow> a = b"
proof -
  have "unat a < 256 ^ 4" "unat b < 256 ^ 4"
    using unsigned_less [of a] unsigned_less [of b] by simp_all
  then show ?thesis
    by (simp add: u32_to_le_bytes_def to_le_inject word_unat_eq_iff)
qed

section \<open>Bit lengths\<close>

text \<open>Number of significant bits; \<open>leading_zeros\<close> is the width less this number.\<close>

fun nat_bits :: "nat \<Rightarrow> nat" where
  "nat_bits n = (if n = 0 then 0 else Suc (nat_bits (n div 2)))"

declare nat_bits.simps [simp del]

definition leading_zeros :: "'a::len word \<Rightarrow> nat" where
  "leading_zeros w = LENGTH('a) - nat_bits (unat w)"

lemma nat_bits_0 [simp]: "nat_bits 0 = 0"
  by (simp add: nat_bits.simps)

lemma nat_bits_upper: "n < 2 ^ nat_bits n"
proof (induction n rule: nat_bits.induct)
  case (1 n)
  show ?case
  proof (cases "n = 0")
    case False
    then have "n div 2 < 2 ^ nat_bits (n div 2)" using 1 by simp
    then have "n < 2 * 2 ^ nat_bits (n div 2)" by linarith
    then show ?thesis using False by (simp add: nat_bits.simps [of n])
  qed simp
qed

lemma nat_bits_lower: "0 < n \<Longrightarrow> 2 ^ (nat_bits n - 1) \<le> n"
proof (induction n rule: nat_bits.induct)
  case (1 n)
  show ?case
  proof (cases "n div 2 = 0")
    case True
    then have "n = 1" using "1.prems" by linarith
    then show ?thesis by (simp add: nat_bits.simps)
  next
    case False
    then have IH: "2 ^ (nat_bits (n div 2) - 1) \<le> n div 2" using 1 by simp
    have pos: "0 < nat_bits (n div 2)" using False by (simp add: nat_bits.simps)
    then have "(2::nat) ^ nat_bits (n div 2) = 2 * 2 ^ (nat_bits (n div 2) - 1)"
      by (metis power_eq_if neq0_conv)
    with IH have "2 ^ nat_bits (n div 2) \<le> n" by linarith
    then show ?thesis using "1.prems" by (simp add: nat_bits.simps [of n])
  qed
qed

lemma nat_bits_pos: "0 < n \<Longrightarrow> 0 < nat_bits n"
  by (simp add: nat_bits.simps)

lemma nat_bits_less_iff: "nat_bits n \<le> k \<longleftrightarrow> n < 2 ^ k"
proof
  assume "nat_bits n \<le> k"
  then have "(2::nat) ^ nat_bits n \<le> 2 ^ k" by simp
  then show "n < 2 ^ k" using nat_bits_upper [of n] by linarith
next
  assume n: "n < 2 ^ k"
  show "nat_bits n \<le> k"
  proof (rule ccontr)
    assume "\<not> nat_bits n \<le> k"
    then have k: "k \<le> nat_bits n - 1" and "0 < n" by (auto intro: gr0I)
    then have "(2::nat) ^ k \<le> 2 ^ (nat_bits n - 1)" by simp
    then show False using nat_bits_lower [OF \<open>0 < n\<close>] n by linarith
  qed
qed

section \<open>Rendering\<close>

definition digit_char :: "nat \<Rightarrow> char" where
  "digit_char d = char_of (48 + d)"

fun show_nat :: "nat \<Rightarrow> string" where
  "show_nat n = (if n < 10 then [digit_char n] else show_nat (n div 10) @ [digit_char (n mod 10)])"

declare show_nat.simps [simp del]

lemma length_show_nat: "n < 10 ^ Suc k \<Longrightarrow> length (show_nat n) \<le> Suc k"
proof (induction n arbitrary: k rule: show_nat.induct)
  case (1 n)
  show ?case
  proof (cases "n < 10")
    case False
    then obtain j where k: "k = Suc j" using "1.prems" by (cases k) auto
    have "n div 10 < 10 ^ Suc j" using "1.prems" k by (simp add: div_less_iff_less_mult mult.commute)
    then show ?thesis using "1.IH" [OF False] False k by (simp add: show_nat.simps [of n])
  qed (simp add: show_nat.simps)
qed

definition show_word :: "'a::len word \<Rightarrow> string" where
  "show_word w = show_nat (unat w)"

fun join_with :: "string \<Rightarrow> string list \<Rightarrow> string" where
  "join_with sep [] = []"
| "join_with sep [x] = x"
| "join_with sep (x # y # ys) = x @ sep @ join_with sep (y # ys)"

lemma length_join_with:
  "(\<And>x. x \<in> set xs \<Longrightarrow> length x \<le> m) \<Longrightarrow> length (join_with sep xs) \<le> length xs * (m + length sep)"
proof (induction sep xs rule: join_with.induct)
  case (3 sep x y ys)
  then have "length x \<le> m" "length (join_with sep (y # ys)) \<le> length (y # ys) * (m + length sep)" by auto
  then show ?case by simp
qed auto

section \<open>The hex crate\<close>

text \<open>
  The third-party \<open>hex\<close> crate as a parameter: \<open>hex_decode\<close> yields the rendered error on the
  left. \<open>hex_crate_ok\<close> is what the crate documents: two characters per byte, and decoding
  inverts encoding.
\<close>

record hex_crate =
  hex_encode :: "bytes \<Rightarrow> string"
  hex_decode :: "string \<Rightarrow> string + bytes"

definition hex_crate_ok :: "hex_crate \<Rightarrow> bool" where
  "hex_crate_ok X \<longleftrightarrow>
     (\<forall>bs. hex_decode X (hex_encode X bs) = Ok bs \<and> length (hex_encode X bs) = 2 * length bs)"

text \<open>Lower-case hexadecimal, a concrete instance of the contract.\<close>

definition hex_digit :: "nat \<Rightarrow> char" where
  "hex_digit n = char_of (if n < 10 then 48 + n else 87 + n)"

definition hex_value :: "char \<Rightarrow> nat option" where
  "hex_value c =
     (let n = of_char c :: nat in
      if 48 \<le> n \<and> n \<le> 57 then Some (n - 48)
      else if 97 \<le> n \<and> n \<le> 102 then Some (n - 87)
      else if 65 \<le> n \<and> n \<le> 70 then Some (n - 55) else None)"

fun hex_pairs :: "string \<Rightarrow> string + bytes" where
  "hex_pairs [] = Ok []"
| "hex_pairs [c] = Err ''Odd number of digits''"
| "hex_pairs (c # d # s) =
     (case (hex_value c, hex_value d) of
        (Some a, Some b) \<Rightarrow> and_then (hex_pairs s) (\<lambda>bs. Ok (of_nat (16 * a + b) # bs))
      | _ \<Rightarrow> Err ''Invalid character'')"

definition lower_hex :: hex_crate where
  "lower_hex =
     \<lparr>hex_encode = (\<lambda>bs. concat (map (\<lambda>b. [hex_digit (unat b div 16), hex_digit (unat b mod 16)]) bs)),
      hex_decode = hex_pairs\<rparr>"

lemma hex_value_digit [simp]: "n < 16 \<Longrightarrow> hex_value (hex_digit n) = Some n"
  by (auto simp: hex_value_def hex_digit_def Let_def)

lemma hex_pairs_encode: "hex_pairs (hex_encode lower_hex bs) = Ok bs"
proof (induction bs)
  case (Cons b bs)
  have "unat b div 16 < 16" using unat_byte_less [of b] by simp
  moreover have "(of_nat (unat b) :: u8) = b" by simp
  ultimately show ?case using Cons by (simp add: lower_hex_def del: of_nat_unat)
qed (simp add: lower_hex_def)

lemma lower_hex_ok: "hex_crate_ok lower_hex"
proof -
  have "length (hex_encode lower_hex bs) = 2 * length bs" for bs
    by (induction bs) (simp_all add: lower_hex_def)
  then show ?thesis
    using hex_pairs_encode by (simp add: hex_crate_ok_def lower_hex_def)
qed

section \<open>Bounded histories\<close>

text \<open>The last \<open>n\<close> entries of a history, oldest first: what a capped log or window holds.\<close>

definition newest :: "nat \<Rightarrow> 'a list \<Rightarrow> 'a list" where
  "newest n xs = drop (length xs - n) xs"

lemma length_newest: "length (newest n xs) = min n (length xs)"
  by (simp add: newest_def)

lemma newest_short [simp]: "length xs \<le> n \<Longrightarrow> newest n xs = xs"
  by (simp add: newest_def)

lemma newest_snoc: "0 < n \<Longrightarrow> newest n (xs @ [x]) = newest (n - 1) xs @ [x]"
  by (simp add: newest_def)

lemma newest_newest:
  assumes "m \<le> n"
  shows "newest m (newest n xs) = newest m xs"
proof -
  have "length xs - (length xs - n + m) + (length xs - n) = length xs - m" using assms by arith
  then show ?thesis by (simp add: newest_def)
qed

lemma newest_snoc_newest: "newest n (newest n xs @ [x]) = newest n (xs @ [x])"
proof (cases n)
  case 0
  then show ?thesis by (simp add: newest_def)
next
  case (Suc k)
  then show ?thesis by (simp add: newest_snoc newest_newest)
qed

section \<open>Trimming\<close>

text \<open>
  \<open>str::trim\<close> removes Unicode \<open>White_Space\<close> at both ends; the UTF-8 encodings of those
  characters are listed, so trimming is stripping encodings.
\<close>

definition WHITE_SPACE :: "nat list list" where
  "WHITE_SPACE =
     [[9], [10], [11], [12], [13], [32], [0xC2, 0x85], [0xC2, 0xA0], [0xE1, 0x9A, 0x80],
      [0xE2, 0x80, 0x80], [0xE2, 0x80, 0x81], [0xE2, 0x80, 0x82], [0xE2, 0x80, 0x83],
      [0xE2, 0x80, 0x84], [0xE2, 0x80, 0x85], [0xE2, 0x80, 0x86], [0xE2, 0x80, 0x87],
      [0xE2, 0x80, 0x88], [0xE2, 0x80, 0x89], [0xE2, 0x80, 0x8A], [0xE2, 0x80, 0xA8],
      [0xE2, 0x80, 0xA9], [0xE2, 0x80, 0xAF], [0xE2, 0x81, 0x9F], [0xE3, 0x80, 0x80]]"

function strip_encodings :: "string list \<Rightarrow> string \<Rightarrow> string" where
  "strip_encodings encs s =
     (case find (\<lambda>e. e \<noteq> [] \<and> prefix e s) encs of
        None \<Rightarrow> s
      | Some e \<Rightarrow> strip_encodings encs (drop (length e) s))"
  by pat_completeness auto
termination
proof (relation "measure (\<lambda>(encs, s). length s)", goal_cases)
  case 1
  show ?case by simp
next
  case (2 encs s e)
  then have "e \<noteq> []" "prefix e s" by (auto simp: find_Some_iff)
  then show ?case by (cases s) (auto simp: prefix_def)
qed

declare strip_encodings.simps [simp del]

definition trim :: "string \<Rightarrow> string" where
  "trim s =
     (let encs = map (map char_of) WHITE_SPACE
      in rev (strip_encodings (map rev encs) (rev (strip_encodings encs s))))"

lemma strip_encodings_Nil [simp]: "strip_encodings encs [] = []"
proof -
  have "find (\<lambda>e. e \<noteq> [] \<and> prefix e []) encs = None" by (auto simp: find_None_iff)
  then show ?thesis by (simp add: strip_encodings.simps [of encs "[]"])
qed

lemma trim_Nil [simp]: "trim [] = []"
  by (simp add: trim_def Let_def)

end
