(* ===== verification/RG_Float64.thy ===== *)
theory RG_Float64
  imports RG_Prelude Complex_Main
begin

text \<open>
  Rust's \<open>f64\<close>: IEEE 754 binary64 with round-to-nearest, ties-to-even. A finite value is the
  rational it denotes; every arithmetic result is the exact result rounded by \<open>f64_round\<close>.
  The two zeros are one value here (no modelled code observes the sign of a zero), and all
  NaNs are one value. What the components need from rounding is that it is monotone and
  exact on the integers below \<open>2 ^ 53\<close>; both are proved here.
\<close>

section \<open>Values and rounding\<close>

datatype f64 = F64_NaN | F64_Inf bool | F64 rat

definition pow2 :: "int \<Rightarrow> rat" where
  "pow2 e = (if 0 \<le> e then 2 ^ nat e else 1 / 2 ^ nat (- e))"

text \<open>The binary exponent of a positive rational, from the bit lengths of its two parts.\<close>

definition f64_exp :: "rat \<Rightarrow> int" where
  "f64_exp a =
     (let (n, d) = quotient_of a;
          e = int (nat_bits (nat n)) - int (nat_bits (nat d))
      in if a < pow2 e then e - 1 else e)"

definition quantum_exp :: "rat \<Rightarrow> int" where
  "quantum_exp a = max (f64_exp a - 52) (- 1074)"

definition round_half_even :: "rat \<Rightarrow> int" where
  "round_half_even x =
     (let f = \<lfloor>x\<rfloor>; r = x - of_int f
      in if r < 1 / 2 then f else if 1 / 2 < r then f + 1 else if even f then f else f + 1)"

definition rnd :: "rat \<Rightarrow> rat" where
  "rnd a = (if a = 0 then 0
     else of_int (round_half_even (a / pow2 (quantum_exp a))) * pow2 (quantum_exp a))"

definition f64_round :: "rat \<Rightarrow> f64" where
  "f64_round x =
     (let m = rnd \<bar>x\<bar> in if 2 ^ 1024 \<le> m then F64_Inf (x < 0) else F64 (if x < 0 then - m else m))"

section \<open>Operations\<close>

definition f64_of_nat :: "nat \<Rightarrow> f64" where
  "f64_of_nat n = f64_round (of_nat n)"

fun f64_neg_sign :: "f64 \<Rightarrow> bool" where
  "f64_neg_sign (F64 a) = (a < 0)"
| "f64_neg_sign (F64_Inf s) = s"
| "f64_neg_sign F64_NaN = False"

fun f64_div :: "f64 \<Rightarrow> f64 \<Rightarrow> f64" where
  "f64_div (F64 a) (F64 b) =
     (if b = 0 then (if a = 0 then F64_NaN else F64_Inf (a < 0)) else f64_round (a / b))"
| "f64_div (F64 a) (F64_Inf s) = F64 0"
| "f64_div (F64_Inf s) (F64 b) = F64_Inf (s \<noteq> (b < 0))"
| "f64_div a b = F64_NaN"

fun f64_mul :: "f64 \<Rightarrow> f64 \<Rightarrow> f64" where
  "f64_mul (F64 a) (F64 b) = f64_round (a * b)"
| "f64_mul (F64_Inf s) (F64 b) = (if b = 0 then F64_NaN else F64_Inf (s \<noteq> (b < 0)))"
| "f64_mul (F64 a) (F64_Inf s) = (if a = 0 then F64_NaN else F64_Inf (s \<noteq> (a < 0)))"
| "f64_mul (F64_Inf s) (F64_Inf t) = F64_Inf (s \<noteq> t)"
| "f64_mul a b = F64_NaN"

text \<open>\<open>a < b\<close>, false as soon as one side is NaN.\<close>

fun f64_lt :: "f64 \<Rightarrow> f64 \<Rightarrow> bool" where
  "f64_lt (F64 a) (F64 b) = (a < b)"
| "f64_lt (F64 a) (F64_Inf s) = (\<not> s)"
| "f64_lt (F64_Inf s) (F64 b) = s"
| "f64_lt (F64_Inf s) (F64_Inf t) = (s \<and> \<not> t)"
| "f64_lt a b = False"

definition f64_gt :: "f64 \<Rightarrow> f64 \<Rightarrow> bool" where
  "f64_gt a b = f64_lt b a"

fun f64_is_finite :: "f64 \<Rightarrow> bool" where
  "f64_is_finite (F64 a) = True"
| "f64_is_finite a = False"

fun f64_le :: "f64 \<Rightarrow> f64 \<Rightarrow> bool" where
  "f64_le (F64 a) (F64 b) = (a \<le> b)"
| "f64_le (F64 a) (F64_Inf s) = (\<not> s)"
| "f64_le (F64_Inf s) (F64 b) = s"
| "f64_le (F64_Inf s) (F64_Inf t) = (s \<or> \<not> t)"
| "f64_le a b = False"

fun f64_uminus :: "f64 \<Rightarrow> f64" where
  "f64_uminus (F64 a) = F64 (- a)"
| "f64_uminus (F64_Inf s) = F64_Inf (\<not> s)"
| "f64_uminus F64_NaN = F64_NaN"

fun f64_add :: "f64 \<Rightarrow> f64 \<Rightarrow> f64" where
  "f64_add (F64 a) (F64 b) = f64_round (a + b)"
| "f64_add (F64 a) (F64_Inf s) = F64_Inf s"
| "f64_add (F64_Inf s) (F64 b) = F64_Inf s"
| "f64_add (F64_Inf s) (F64_Inf t) = (if s = t then F64_Inf s else F64_NaN)"
| "f64_add a b = F64_NaN"

definition f64_sub :: "f64 \<Rightarrow> f64 \<Rightarrow> f64" where
  "f64_sub a b = f64_add a (f64_uminus b)"

fun f64_abs :: "f64 \<Rightarrow> f64" where
  "f64_abs (F64 a) = F64 \<bar>a\<bar>"
| "f64_abs (F64_Inf s) = F64_Inf False"
| "f64_abs F64_NaN = F64_NaN"

text \<open>\<open>f64::min\<close> and \<open>f64::max\<close> return the other argument when one is NaN.\<close>

definition f64_min :: "f64 \<Rightarrow> f64 \<Rightarrow> f64" where
  "f64_min a b = (if a = F64_NaN then b else if b = F64_NaN then a else if f64_lt b a then b else a)"

definition f64_max :: "f64 \<Rightarrow> f64 \<Rightarrow> f64" where
  "f64_max a b = (if a = F64_NaN then b else if b = F64_NaN then a else if f64_lt a b then b else a)"

text \<open>\<open>x as u64\<close>: truncation towards zero, saturating, NaN to zero.\<close>

fun f64_to_u64 :: "f64 \<Rightarrow> u64" where
  "f64_to_u64 (F64 a) = (if a < 0 then 0 else clamp_nat (nat \<lfloor>a\<rfloor>))"
| "f64_to_u64 (F64_Inf s) = (if s then 0 else - 1)"
| "f64_to_u64 F64_NaN = 0"

text \<open>\<open>Duration::as_secs_f64\<close> of a duration of \<open>n\<close> nanoseconds.\<close>

definition as_secs_f64 :: "nat \<Rightarrow> f64" where
  "as_secs_f64 n = f64_add (f64_of_nat (n div 1000000000)) (f64_div (f64_of_nat (n mod 1000000000)) (F64 1000000000))"

text \<open>\<open>format!("{:.4}", x)\<close>: the exact value rounded half to even at the fourth decimal.\<close>

definition pad4 :: "nat \<Rightarrow> string" where
  "pad4 n = [digit_char (n div 1000 mod 10), digit_char (n div 100 mod 10),
             digit_char (n div 10 mod 10), digit_char (n mod 10)]"

fun show_f64_4 :: "f64 \<Rightarrow> string" where
  "show_f64_4 F64_NaN = ''NaN''"
| "show_f64_4 (F64_Inf s) = (if s then ''-inf'' else ''inf'')"
| "show_f64_4 (F64 a) =
     (let n = nat (round_half_even (\<bar>a\<bar> * 10000))
      in (if a < 0 then ''-'' else []) @ show_nat (n div 10000) @ ''.'' @ pad4 (n mod 10000))"

section \<open>Powers of two and exponents\<close>

lemma pow2_pos [simp]: "0 < pow2 e"
  by (simp add: pow2_def)

lemma pow2_nonzero [simp]: "pow2 e \<noteq> 0"
  using pow2_pos [of e] by linarith

lemma pow2_add: "pow2 (a + b) = pow2 a * pow2 b"
proof -
  have eq: "pow2 e = 2 powi e" for e
    by (auto simp: pow2_def power_int_def field_simps)
  show ?thesis unfolding eq by (rule power_int_add) simp
qed

lemma pow2_nat: "pow2 (int n) = 2 ^ n"
  by (simp add: pow2_def)

lemma pow2_of_nonneg: "0 \<le> e \<Longrightarrow> pow2 e = 2 ^ nat e"
  by (simp add: pow2_def)

lemma pow2_mono: "a \<le> b \<Longrightarrow> pow2 a \<le> pow2 b"
proof -
  assume "a \<le> b"
  then have "pow2 b = pow2 a * pow2 (b - a)" and "1 \<le> pow2 (b - a)"
    by (simp add: pow2_add [symmetric]) (use \<open>a \<le> b\<close> in \<open>simp add: pow2_of_nonneg\<close>)
  then show ?thesis
    using mult_left_mono [of 1 "pow2 (b - a)" "pow2 a"] pow2_pos [of a] by simp
qed

lemma pow2_minus_nat: "pow2 (e - int n) = pow2 e / 2 ^ n"
  using pow2_add [of "e - int n" "int n"] by (simp add: pow2_nat field_simps)

lemma pow2_less_iff: "pow2 a < pow2 b \<longleftrightarrow> a < b"
proof
  show "pow2 a < pow2 b \<Longrightarrow> a < b"
    using pow2_mono [of b a] by (meson leD leI)
  assume "a < b"
  then have "pow2 (a + 1) \<le> pow2 b" by (intro pow2_mono) simp
  moreover have "pow2 (a + 1) = 2 * pow2 a" by (simp add: pow2_add) (simp add: pow2_def)
  ultimately show "pow2 a < pow2 b" using pow2_pos [of a] by linarith
qed

lemma nat_bits_pow2:
  assumes "0 < n"
  shows "pow2 (int (nat_bits (nat n)) - 1) \<le> of_int n" and "of_int n < pow2 (int (nat_bits (nat n)))"
proof -
  let ?b = "nat_bits (nat n)"
  have "int (2 ^ (?b - 1)) \<le> n" and "n < int (2 ^ ?b)"
    using nat_bits_lower [of "nat n"] nat_bits_upper [of "nat n"] assms by linarith+
  then have lo: "of_int (int (2 ^ (?b - 1))) \<le> (of_int n :: rat)"
    and hi: "(of_int n :: rat) < of_int (int (2 ^ ?b))"
    by (simp_all only: of_int_le_iff of_int_less_iff)
  have "int ?b - 1 = int (?b - 1)" using nat_bits_pos [of "nat n"] assms by simp
  then have "pow2 (int ?b - 1) = 2 ^ (?b - 1)" by (simp only: pow2_nat)
  then show "pow2 (int ?b - 1) \<le> of_int n" using lo by simp
  show "of_int n < pow2 (int ?b)" using hi by (simp add: pow2_nat)
qed

lemma f64_exp_bounds:
  assumes "0 < a"
  shows "pow2 (f64_exp a) \<le> a" and "a < pow2 (f64_exp a + 1)"
proof -
  obtain n d where q: "quotient_of a = (n, d)" by fastforce
  have a: "a = of_int n / of_int d" and d: "0 < d"
    using q by (simp_all add: quotient_of_div quotient_of_denom_pos)
  have n: "0 < n" using assms a d by (simp add: zero_less_divide_iff)
  let ?bn = "int (nat_bits (nat n))" and ?bd = "int (nat_bits (nat d))"
  have "pow2 (?bn - 1) / pow2 ?bd \<le> a"
    unfolding a using nat_bits_pow2 [OF n] nat_bits_pow2 [OF d] d n
    by (intro frac_le) auto
  moreover have "pow2 (?bn - ?bd - 1) * pow2 ?bd = pow2 (?bn - 1)"
    by (simp flip: pow2_add)
  ultimately have lo: "pow2 (?bn - ?bd - 1) \<le> a"
    by (metis nonzero_mult_div_cancel_right pow2_nonzero)
  have "a < pow2 ?bn / pow2 (?bd - 1)"
    unfolding a using nat_bits_pow2 [OF n] nat_bits_pow2 [OF d] d n
    by (intro frac_less) auto
  moreover have "pow2 (?bn - ?bd + 1) * pow2 (?bd - 1) = pow2 ?bn"
    by (simp flip: pow2_add)
  ultimately have hi: "a < pow2 (?bn - ?bd + 1)"
    by (metis nonzero_mult_div_cancel_right pow2_nonzero)
  show "pow2 (f64_exp a) \<le> a" "a < pow2 (f64_exp a + 1)"
    using lo hi by (auto simp: f64_exp_def q Let_def)
qed

lemma f64_exp_mono:
  assumes "0 < a" and "a \<le> b"
  shows "f64_exp a \<le> f64_exp b"
proof -
  have "pow2 (f64_exp a) < pow2 (f64_exp b + 1)"
    using f64_exp_bounds(1) [of a] f64_exp_bounds(2) [of b] assms by linarith
  then show ?thesis by (simp add: pow2_less_iff)
qed

section \<open>Rounding is monotone and fixes the representable values\<close>

lemma round_half_even_mono: "x \<le> y \<Longrightarrow> round_half_even x \<le> round_half_even y"
proof -
  assume xy: "x \<le> y"
  have lo: "\<lfloor>z\<rfloor> \<le> round_half_even z" and hi: "round_half_even z \<le> \<lfloor>z\<rfloor> + 1" for z
    by (auto simp: round_half_even_def Let_def)
  from xy have fl: "\<lfloor>x\<rfloor> \<le> \<lfloor>y\<rfloor>" by (rule floor_mono)
  show ?thesis
  proof (cases "\<lfloor>x\<rfloor> = \<lfloor>y\<rfloor>")
    case True
    then show ?thesis using xy by (auto simp: round_half_even_def Let_def)
  next
    case False
    then have "\<lfloor>x\<rfloor> + 1 \<le> \<lfloor>y\<rfloor>" using fl by simp
    then show ?thesis using lo [of y] hi [of x] by linarith
  qed
qed

lemma round_half_even_int [simp]: "round_half_even (of_int z) = z"
  by (simp add: round_half_even_def Let_def)

lemma pow2_multiple: "q \<le> k \<Longrightarrow> pow2 k = of_int (2 ^ nat (k - q)) * pow2 q"
  using pow2_add [of "k - q" q] by (simp add: pow2_of_nonneg)

lemma rnd_le_pow2:
  assumes "0 < a" and "a \<le> pow2 k" and "quantum_exp a \<le> k"
  shows "rnd a \<le> pow2 k"
proof -
  let ?q = "quantum_exp a"
  have "a / pow2 ?q \<le> of_int (2 ^ nat (k - ?q))"
    using assms(2) pow2_multiple [OF assms(3)] by (simp add: pos_divide_le_eq)
  then have "round_half_even (a / pow2 ?q) \<le> 2 ^ nat (k - ?q)"
    using round_half_even_mono round_half_even_int by metis
  then have "of_int (round_half_even (a / pow2 ?q)) * pow2 ?q \<le> of_int (2 ^ nat (k - ?q)) * pow2 ?q"
    by (intro mult_right_mono) (simp_all only: of_int_le_iff less_imp_le [OF pow2_pos])
  then show ?thesis using assms(1) pow2_multiple [OF assms(3)] by (simp add: rnd_def)
qed

lemma rnd_ge_pow2:
  assumes "pow2 k \<le> a" and "quantum_exp a \<le> k"
  shows "pow2 k \<le> rnd a"
proof -
  let ?q = "quantum_exp a"
  have a: "0 < a" using assms(1) pow2_pos [of k] by linarith
  have "of_int (2 ^ nat (k - ?q)) \<le> a / pow2 ?q"
    using assms(1) pow2_multiple [OF assms(2)] by (simp add: pos_le_divide_eq)
  then have "2 ^ nat (k - ?q) \<le> round_half_even (a / pow2 ?q)"
    using round_half_even_mono round_half_even_int by metis
  then have "of_int (2 ^ nat (k - ?q)) * pow2 ?q \<le> of_int (round_half_even (a / pow2 ?q)) * pow2 ?q"
    by (intro mult_right_mono) (simp_all only: of_int_le_iff less_imp_le [OF pow2_pos])
  then show ?thesis using a pow2_multiple [OF assms(2)] by (simp add: rnd_def)
qed

lemma rnd_nonneg: "0 \<le> a \<Longrightarrow> 0 \<le> rnd a"
proof -
  assume "0 \<le> a"
  then have "0 \<le> a / pow2 (quantum_exp a)" using pow2_pos by (simp add: zero_le_divide_iff less_imp_le)
  then have "0 \<le> round_half_even (a / pow2 (quantum_exp a))"
    using round_half_even_mono [of 0] round_half_even_int [of 0] by simp
  then show ?thesis using less_imp_le [OF pow2_pos, of "quantum_exp a"] by (simp add: rnd_def)
qed

lemma rnd_mono:
  assumes "0 \<le> a" and "a \<le> b"
  shows "rnd a \<le> rnd b"
proof (cases "a = 0")
  case True
  then show ?thesis using assms rnd_nonneg [of b] by (simp add: rnd_def)
next
  case False
  then have a: "0 < a" and b: "0 < b" using assms by auto
  have e: "f64_exp a \<le> f64_exp b" using a assms(2) by (rule f64_exp_mono)
  show ?thesis
  proof (cases "quantum_exp a = quantum_exp b")
    case True
    have "a / pow2 (quantum_exp b) \<le> b / pow2 (quantum_exp b)"
      using assms(2) pow2_pos by (simp add: divide_right_mono less_imp_le)
    then have "round_half_even (a / pow2 (quantum_exp b)) \<le> round_half_even (b / pow2 (quantum_exp b))"
      by (rule round_half_even_mono)
    then show ?thesis using a b True pow2_pos [of "quantum_exp b"]
      by (simp add: rnd_def mult_right_mono less_imp_le)
  next
    case False
    let ?k = "max (f64_exp a + 1) (- 1074)"
    have k: "?k \<le> f64_exp b" using False e by (auto simp: quantum_exp_def)
    have "a \<le> pow2 ?k"
      using f64_exp_bounds(2) [OF a] pow2_mono [of "f64_exp a + 1" ?k] by linarith
    then have "rnd a \<le> pow2 ?k" using a by (intro rnd_le_pow2) (auto simp: quantum_exp_def)
    also have "\<dots> \<le> pow2 (f64_exp b)" using k by (rule pow2_mono)
    also have "\<dots> \<le> rnd b"
      using f64_exp_bounds(1) [OF b] False e by (intro rnd_ge_pow2) (auto simp: quantum_exp_def)
    finally show ?thesis .
  qed
qed

lemma rnd_below_pow2: "0 \<le> a \<Longrightarrow> a \<le> pow2 (int k) \<Longrightarrow> rnd a \<le> pow2 (int k)"
proof -
  assume a: "0 \<le> a" "a \<le> pow2 (int k)"
  have "f64_exp (pow2 (int k)) \<le> int k"
    using f64_exp_bounds(1) [of "pow2 (int k)"] by (meson leD leI pow2_less_iff pow2_pos)
  then have "rnd (pow2 (int k)) \<le> pow2 (int k)"
    by (intro rnd_le_pow2) (auto simp: quantum_exp_def)
  then show ?thesis using rnd_mono [OF a] by linarith
qed

text \<open>A multiple of a power of two at or above the quantum is exact.\<close>

lemma rnd_exact_multiple:
  assumes "0 < x" and "x = of_int k * pow2 e" and "quantum_exp x \<le> e"
  shows "rnd x = x"
proof -
  let ?q = "quantum_exp x"
  let ?m = "k * 2 ^ nat (e - ?q)"
  have m: "of_int ?m * pow2 ?q = x"
    using assms(2) pow2_multiple [OF assms(3)] by simp
  then have "x / pow2 ?q = of_int ?m"
    by (metis nonzero_mult_div_cancel_right pow2_nonzero)
  then have "round_half_even (x / pow2 ?q) = ?m" by (simp only: round_half_even_int)
  then show ?thesis using assms(1) m by (simp only: rnd_def) simp
qed

lemma quantum_exp_le:
  assumes "0 < x" and "x < pow2 (k + 1)" and "- 1022 \<le> k"
  shows "quantum_exp x \<le> k - 52"
proof -
  have "pow2 (f64_exp x) < pow2 (k + 1)"
    using f64_exp_bounds(1) [OF assms(1)] assms(2) by (rule le_less_trans)
  then have "f64_exp x < k + 1" by (simp only: pow2_less_iff)
  then show ?thesis using assms(3) by (simp add: quantum_exp_def)
qed

lemma rnd_exact_nat:
  assumes "n < 2 ^ 53"
  shows "rnd (of_nat n) = of_nat n"
proof (cases "n = 0")
  case True
  then show ?thesis by (simp add: rnd_def)
next
  case False
  let ?a = "of_nat n :: rat"
  have "?a < pow2 (int 53)" using assms unfolding pow2_nat by (metis of_nat_less_iff of_nat_numeral of_nat_power)
  then have "quantum_exp ?a \<le> 0" using False quantum_exp_le [of ?a 52] by simp
  then show ?thesis
    using False by (intro rnd_exact_multiple [of _ "int n" 0]) (simp_all add: pow2_def)
qed

section \<open>Finite results\<close>

lemma f64_round_finite:
  assumes "0 \<le> x" and "x \<le> 2 ^ 1023"
  shows "f64_round x = F64 (rnd x)"
proof -
  have "rnd x \<le> pow2 (int 1023)"
    using assms by (intro rnd_below_pow2) (simp_all only: pow2_nat)
  then have "rnd x \<le> 2 ^ 1023" by (simp only: pow2_nat)
  moreover have "(2::rat) ^ 1023 < 2 ^ 1024" by (rule power_strict_increasing) auto
  ultimately have "\<not> 2 ^ 1024 \<le> rnd x" by linarith
  then show ?thesis using assms(1) by (simp add: f64_round_def Let_def)
qed

lemma f64_of_nat_exact: "n < 2 ^ 53 \<Longrightarrow> f64_of_nat n = F64 (of_nat n)"
proof -
  assume n: "n < 2 ^ 53"
  have "of_nat n \<le> (2 ^ 1023 :: rat)"
  proof -
    have "(of_nat n :: rat) < 2 ^ 53" using n by (metis of_nat_less_iff of_nat_numeral of_nat_power)
    moreover have "(2::rat) ^ 53 \<le> 2 ^ 1023" by (rule power_increasing) auto
    ultimately show ?thesis by linarith
  qed
  then show ?thesis using n by (simp add: f64_of_nat_def f64_round_finite rnd_exact_nat)
qed

lemma f64_gt_mono: "f64_le a b \<Longrightarrow> f64_gt a t \<Longrightarrow> f64_gt b t"
  by (cases a; cases b; cases t) (auto simp: f64_gt_def)

lemma f64_le_refl: "a \<noteq> F64_NaN \<Longrightarrow> f64_le a a"
  by (cases a) auto

text \<open>\<open>n as f64\<close> for a 64-bit integer: always finite, possibly rounded.\<close>

lemma f64_of_nat_u64:
  assumes "n < 2 ^ 64"
  shows "f64_of_nat n = F64 (rnd (of_nat n))" and "rnd (of_nat n) \<le> 2 ^ 64"
proof -
  have n: "(of_nat n :: rat) \<le> 2 ^ 64"
    using assms by (metis less_imp_le of_nat_less_iff of_nat_numeral of_nat_power)
  have "(2::rat) ^ 64 \<le> 2 ^ 1023" by (rule power_increasing) auto
  then show "f64_of_nat n = F64 (rnd (of_nat n))"
    unfolding f64_of_nat_def using n by (intro f64_round_finite) linarith+
  show "rnd (of_nat n) \<le> 2 ^ 64"
    using rnd_below_pow2 [of "of_nat n" 64] n by (simp add: pow2_nat [of 64, simplified])
qed

text \<open>A 64-bit integer over a positive exact divisor.\<close>

lemma f64_ratio_u64:
  assumes "n < 2 ^ 64" and "0 < m" and "m < 2 ^ 53"
  shows "f64_div (f64_of_nat n) (f64_of_nat m) = F64 (rnd (rnd (of_nat n) / of_nat m))"
proof -
  have m: "(1::rat) \<le> of_nat m" using assms(2) by (metis One_nat_def Suc_leI of_nat_1 of_nat_le_iff)
  have r: "0 \<le> rnd (of_nat n)" by (simp add: rnd_nonneg)
  then have pos: "0 \<le> rnd (of_nat n) / of_nat m" using m by (simp add: zero_le_divide_iff)
  have "rnd (of_nat n) / of_nat m \<le> rnd (of_nat n)" using r m by (simp add: divide_le_eq mult_left_mono [of 1 "of_nat m", simplified])
  also have "\<dots> \<le> 2 ^ 64" using f64_of_nat_u64(2) [OF assms(1)] .
  also have "(2::rat) ^ 64 \<le> 2 ^ 1023" by (rule power_increasing) auto
  finally show ?thesis
    using f64_round_finite [OF pos] assms(2) by (simp add: f64_of_nat_u64(1) [OF assms(1)] f64_of_nat_exact [OF assms(3)])
qed

lemma f64_ratio_mono:
  assumes "n \<le> n'"
  shows "rnd (rnd (of_nat n) / of_nat m) \<le> rnd (rnd (of_nat n') / of_nat m)"
proof (rule rnd_mono)
  have "rnd (of_nat n) \<le> rnd (of_nat n')" using assms by (intro rnd_mono) auto
  then show "rnd (of_nat n) / of_nat m \<le> rnd (of_nat n') / of_nat m" by (intro divide_right_mono) auto
  show "0 \<le> rnd (of_nat n) / of_nat m" by (simp add: rnd_nonneg)
qed

section \<open>Durations and clamping\<close>

lemma f64_min_finite [simp]: "f64_min (F64 a) (F64 b) = F64 (min a b)"
  by (simp add: f64_min_def min_def)

lemma f64_max_finite [simp]: "f64_max (F64 a) (F64 b) = F64 (max a b)"
  by (simp add: f64_max_def max_def)

lemma rnd_zero [simp]: "rnd 0 = 0"
  using rnd_exact_nat [of 0] by simp

lemma f64_add_finite:
  assumes "0 \<le> a" "0 \<le> b" "a + b \<le> 2 ^ 1023"
  shows "f64_add (F64 a) (F64 b) = F64 (rnd (a + b))"
  using assms by (simp add: f64_round_finite)

lemma rnd_le_nat: "0 \<le> a \<Longrightarrow> a \<le> of_nat n \<Longrightarrow> n < 2 ^ 53 \<Longrightarrow> rnd a \<le> of_nat n"
  using rnd_mono [of a "of_nat n"] rnd_exact_nat [of n] by simp

lemma rnd_ge_nat: "of_nat n \<le> a \<Longrightarrow> n < 2 ^ 53 \<Longrightarrow> of_nat n \<le> rnd a"
  using rnd_mono [of "of_nat n" a] rnd_exact_nat [of n] by simp

text \<open>A duration below \<open>2 ^ 64\<close> seconds is a finite number of seconds, zero exactly when it is
  zero, and at least one when it lasts a second.\<close>

lemma as_secs_f64_finite:
  assumes "n < 2 ^ 64 * 1000000000"
  shows "\<exists>x. as_secs_f64 n = F64 x \<and> 0 \<le> x \<and> x \<le> 2 ^ 65 \<and> (1000000000 \<le> n \<longrightarrow> 1 \<le> x)"
proof -
  let ?s = "n div 1000000000" and ?r = "n mod 1000000000"
  have s: "?s < 2 ^ 64" using assms by (simp add: less_mult_imp_div_less)
  have r: "?r < 1000000000" by simp
  then have r53: "?r < 2 ^ 53" by (rule less_trans) simp
  have sec: "f64_of_nat ?s = F64 (rnd (of_nat ?s))" "rnd (of_nat ?s) \<le> 2 ^ 64"
    using f64_of_nat_u64 [OF s] by auto
  have snn: "0 \<le> rnd (of_nat ?s :: rat)" by (rule rnd_nonneg) simp
  have frac: "(of_nat ?r :: rat) / 1000000000 \<le> of_nat 1" "0 \<le> (of_nat ?r :: rat) / 1000000000"
    using r by (simp_all add: divide_le_eq)
  let ?f = "rnd (of_nat ?r / 1000000000)"
  have div: "f64_div (f64_of_nat ?r) (F64 1000000000) = F64 ?f"
    using frac by (simp add: f64_of_nat_exact [OF r53] f64_round_finite order_trans [OF frac(1)])
  have f: "0 \<le> ?f" "?f \<le> 1" using rnd_nonneg [OF frac(2)] rnd_le_nat [OF frac(2,1)] by simp_all
  let ?x = "rnd (rnd (of_nat ?s) + ?f)"
  have sum65: "rnd (of_nat ?s) + ?f \<le> 2 ^ 65" using sec(2) f(2) by simp
  then have sum: "rnd (of_nat ?s) + ?f \<le> pow2 (int 65)" by (simp only: pow2_nat)
  have big: "rnd (of_nat ?s) + ?f \<le> 2 ^ 1023"
    by (rule order_trans [OF sum65]) (rule power_increasing, simp_all)
  have "as_secs_f64 n = F64 ?x"
    unfolding as_secs_f64_def sec(1) div
    by (rule f64_add_finite [OF snn f(1) big])
  moreover have "?x \<le> 2 ^ 65" using rnd_below_pow2 [OF _ sum] snn f by (simp only: pow2_nat)
  moreover have "0 \<le> ?x" using snn f by (intro rnd_nonneg) simp
  moreover have "1 \<le> ?x" if "1000000000 \<le> n"
  proof -
    have "1 \<le> ?s" using that by (simp add: less_eq_div_iff_mult_less_eq)
    then have "of_nat 1 \<le> (of_nat ?s :: rat)" by (simp only: of_nat_le_iff)
    then have "of_nat 1 \<le> rnd (of_nat ?s)" by (rule rnd_ge_nat) simp
    then have "of_nat 1 \<le> rnd (of_nat ?s) + ?f" using f by simp
    then have "of_nat 1 \<le> ?x" by (rule rnd_ge_nat) simp
    then show ?thesis by simp
  qed
  ultimately show ?thesis by blast
qed

lemma as_secs_f64_zero [simp]: "as_secs_f64 0 = F64 0"
  using f64_of_nat_exact [of 0] by (simp add: as_secs_f64_def f64_round_finite)

end
