(* ===== verification/RG_Protocol.thy ===== *)
theory RG_Protocol
  imports RG_Float64
begin

text \<open>
  The shared wire types of \<open>services/rg-protocol\<close>: the template proposal and verdict
  messages, the canonical verdict reason codes, the gateway modes and the constants both
  sides of the gateway-to-verifier stream use. The interface locale \<open>reason_codes\<close> states
  what every consumer of a reason-code enumeration relies on (complete enumeration, one
  distinct string per reason, so that a string identifies its reason); it is interpreted
  on \<open>VerdictReason\<close> here.
\<close>

section \<open>Messages (lib.rs)\<close>

definition PROTOCOL_VERSION :: u16 where
  "PROTOCOL_VERSION = 2"

record TemplatePropose =
  tp_version :: u16
  tp_id :: u64
  tp_block_height :: u32
  tp_prev_hash :: string
  tp_coinbase_value :: u64
  tp_tx_count :: u32
  tp_total_fees :: u64
  tp_observed_weight :: "u64 option"
  tp_created_at_unix_ms :: "u64 option"
  tp_total_sigops :: "u32 option"
  tp_coinbase_sigops :: "u32 option"
  tp_template_weight :: "u64 option"
  tp_gateway_instance_id :: "string option"
  tp_raw_block_hex :: "string option"


datatype VerdictReason =
    ProtocolVersionMismatch
  | InvalidPrevHash
  | PrevHashLenMismatch
  | CoinbaseValueZeroRejected
  | EmptyTemplateRejected
  | TxCountExceeded
  | TotalFeesBelowMinimum
  | AvgFeeBelowMinimum
  | PolicyLoadError
  | MempoolBackendUnavailable
  | InternalError
  | WeightRatioExceeded
  | TemplateStale
  | SigopsBudgetWarning
  | CoinbaseSigopsAbnormal
  | V2InvariantCoinbaseValueMismatch
  | V2InvariantTemplateWeightMismatch
  | V2InvariantMerkleRootMismatch
  | V2InvariantWitnessCommitmentMissing
  | V2InvariantWitnessCommitmentMismatch
  | V2InvariantSigopsMismatch
  | V2InvariantCoinbaseSigopsMismatch
  | V2InvariantTxCountMismatch
  | V2InvariantCoinbaseScriptLength
  | V2InvariantCoinbaseOutputCount
  | V2InvariantCoinbaseBip34Missing
  | V2InvariantCoinbaseHeightMismatch
  | V2InvariantWeightExceedsMax
  | V2InvariantSigopsExceedMax
  | V2InvariantCoinbaseValueExceedsMax
  | V2InvariantNontcbNullPrevout
  | V2InvariantCoinbasePrevoutNotNull
  | V2InvariantHeaderVersionLow
  | V2InvariantDuplicateTx
  | V2InvariantDecodeFailed
  | V2InvariantMempoolTxUnknown
  | V2InvariantMempoolToleranceExceeded
  | V2InvariantMempoolUnavailable
  | V2InvariantMempoolViewStale

fun as_str :: "VerdictReason \<Rightarrow> string" where
  "as_str ProtocolVersionMismatch = ''protocol_version_mismatch''"
| "as_str InvalidPrevHash = ''invalid_prev_hash''"
| "as_str PrevHashLenMismatch = ''prev_hash_len_mismatch''"
| "as_str CoinbaseValueZeroRejected = ''coinbase_value_zero_rejected''"
| "as_str EmptyTemplateRejected = ''empty_template_rejected''"
| "as_str TxCountExceeded = ''tx_count_exceeded''"
| "as_str TotalFeesBelowMinimum = ''total_fees_below_minimum''"
| "as_str AvgFeeBelowMinimum = ''avg_fee_below_minimum''"
| "as_str PolicyLoadError = ''policy_load_error''"
| "as_str MempoolBackendUnavailable = ''mempool_backend_unavailable''"
| "as_str InternalError = ''internal_error''"
| "as_str WeightRatioExceeded = ''weight_ratio_exceeded''"
| "as_str TemplateStale = ''template_stale''"
| "as_str SigopsBudgetWarning = ''sigops_budget_warning''"
| "as_str CoinbaseSigopsAbnormal = ''coinbase_sigops_abnormal''"
| "as_str V2InvariantCoinbaseValueMismatch = ''v2_invariant_coinbase_value_mismatch''"
| "as_str V2InvariantTemplateWeightMismatch = ''v2_invariant_template_weight_mismatch''"
| "as_str V2InvariantMerkleRootMismatch = ''v2_invariant_merkle_root_mismatch''"
| "as_str V2InvariantWitnessCommitmentMissing = ''v2_invariant_witness_commitment_missing''"
| "as_str V2InvariantWitnessCommitmentMismatch = ''v2_invariant_witness_commitment_mismatch''"
| "as_str V2InvariantSigopsMismatch = ''v2_invariant_sigops_mismatch''"
| "as_str V2InvariantCoinbaseSigopsMismatch = ''v2_invariant_coinbase_sigops_mismatch''"
| "as_str V2InvariantTxCountMismatch = ''v2_invariant_tx_count_mismatch''"
| "as_str V2InvariantCoinbaseScriptLength = ''v2_invariant_coinbase_script_length''"
| "as_str V2InvariantCoinbaseOutputCount = ''v2_invariant_coinbase_output_count''"
| "as_str V2InvariantCoinbaseBip34Missing = ''v2_invariant_coinbase_bip34_missing''"
| "as_str V2InvariantCoinbaseHeightMismatch = ''v2_invariant_coinbase_height_mismatch''"
| "as_str V2InvariantWeightExceedsMax = ''v2_invariant_weight_exceeds_max''"
| "as_str V2InvariantSigopsExceedMax = ''v2_invariant_sigops_exceed_max''"
| "as_str V2InvariantCoinbaseValueExceedsMax = ''v2_invariant_coinbase_value_exceeds_max''"
| "as_str V2InvariantNontcbNullPrevout = ''v2_invariant_nontcb_null_prevout''"
| "as_str V2InvariantCoinbasePrevoutNotNull = ''v2_invariant_coinbase_prevout_not_null''"
| "as_str V2InvariantHeaderVersionLow = ''v2_invariant_header_version_low''"
| "as_str V2InvariantDuplicateTx = ''v2_invariant_duplicate_tx''"
| "as_str V2InvariantDecodeFailed = ''v2_invariant_decode_failed''"
| "as_str V2InvariantMempoolTxUnknown = ''v2_invariant_mempool_tx_unknown''"
| "as_str V2InvariantMempoolToleranceExceeded = ''v2_invariant_mempool_tolerance_exceeded''"
| "as_str V2InvariantMempoolUnavailable = ''v2_invariant_mempool_unavailable''"
| "as_str V2InvariantMempoolViewStale = ''v2_invariant_mempool_view_stale''"

definition ALL_REASONS :: "VerdictReason list" where
  "ALL_REASONS =
    [ProtocolVersionMismatch,
     InvalidPrevHash,
     PrevHashLenMismatch,
     CoinbaseValueZeroRejected,
     EmptyTemplateRejected,
     TxCountExceeded,
     TotalFeesBelowMinimum,
     AvgFeeBelowMinimum,
     PolicyLoadError,
     MempoolBackendUnavailable,
     InternalError,
     WeightRatioExceeded,
     TemplateStale,
     SigopsBudgetWarning,
     CoinbaseSigopsAbnormal,
     V2InvariantCoinbaseValueMismatch,
     V2InvariantTemplateWeightMismatch,
     V2InvariantMerkleRootMismatch,
     V2InvariantWitnessCommitmentMissing,
     V2InvariantWitnessCommitmentMismatch,
     V2InvariantSigopsMismatch,
     V2InvariantCoinbaseSigopsMismatch,
     V2InvariantTxCountMismatch,
     V2InvariantCoinbaseScriptLength,
     V2InvariantCoinbaseOutputCount,
     V2InvariantCoinbaseBip34Missing,
     V2InvariantCoinbaseHeightMismatch,
     V2InvariantWeightExceedsMax,
     V2InvariantSigopsExceedMax,
     V2InvariantCoinbaseValueExceedsMax,
     V2InvariantNontcbNullPrevout,
     V2InvariantCoinbasePrevoutNotNull,
     V2InvariantHeaderVersionLow,
     V2InvariantDuplicateTx,
     V2InvariantDecodeFailed,
     V2InvariantMempoolTxUnknown,
     V2InvariantMempoolToleranceExceeded,
     V2InvariantMempoolUnavailable,
     V2InvariantMempoolViewStale]"

definition ALL_CODES :: "string list" where
  "ALL_CODES =
    [''protocol_version_mismatch'',
     ''invalid_prev_hash'',
     ''prev_hash_len_mismatch'',
     ''coinbase_value_zero_rejected'',
     ''empty_template_rejected'',
     ''tx_count_exceeded'',
     ''total_fees_below_minimum'',
     ''avg_fee_below_minimum'',
     ''policy_load_error'',
     ''mempool_backend_unavailable'',
     ''internal_error'',
     ''weight_ratio_exceeded'',
     ''template_stale'',
     ''sigops_budget_warning'',
     ''coinbase_sigops_abnormal'',
     ''v2_invariant_coinbase_value_mismatch'',
     ''v2_invariant_template_weight_mismatch'',
     ''v2_invariant_merkle_root_mismatch'',
     ''v2_invariant_witness_commitment_missing'',
     ''v2_invariant_witness_commitment_mismatch'',
     ''v2_invariant_sigops_mismatch'',
     ''v2_invariant_coinbase_sigops_mismatch'',
     ''v2_invariant_tx_count_mismatch'',
     ''v2_invariant_coinbase_script_length'',
     ''v2_invariant_coinbase_output_count'',
     ''v2_invariant_coinbase_bip34_missing'',
     ''v2_invariant_coinbase_height_mismatch'',
     ''v2_invariant_weight_exceeds_max'',
     ''v2_invariant_sigops_exceed_max'',
     ''v2_invariant_coinbase_value_exceeds_max'',
     ''v2_invariant_nontcb_null_prevout'',
     ''v2_invariant_coinbase_prevout_not_null'',
     ''v2_invariant_header_version_low'',
     ''v2_invariant_duplicate_tx'',
     ''v2_invariant_decode_failed'',
     ''v2_invariant_mempool_tx_unknown'',
     ''v2_invariant_mempool_tolerance_exceeded'',
     ''v2_invariant_mempool_unavailable'',
     ''v2_invariant_mempool_view_stale'']"

record PolicyContext =
  pc_fee_tier :: "string option"
  pc_min_avg_fee_used :: "u64 option"
  pc_min_total_fees_used :: "u64 option"
  pc_reject_coinbase_zero :: "bool option"
  pc_unknown_mempool_as_high :: "bool option"
  pc_max_weight_ratio :: "f64 option"
  pc_max_template_age_ms :: "u64 option"

record TemplateVerdict =
  tv_version :: u16
  tv_id :: u64
  tv_accepted :: bool
  tv_reason_code :: "VerdictReason option"
  tv_reason_detail :: "string option"
  tv_policy_context :: "PolicyContext option"

section \<open>Gateway types and constants (gateway.rs)\<close>

datatype GatewayMode = Inline | Observe | Shadow

fun gateway_mode_as_str :: "GatewayMode \<Rightarrow> string" where
  "gateway_mode_as_str Inline = ''inline''"
| "gateway_mode_as_str Observe = ''observe''"
| "gateway_mode_as_str Shadow = ''shadow''"

fun accepts_miners :: "GatewayMode \<Rightarrow> bool" where
  "accepts_miners Inline = True"
| "accepts_miners Observe = True"
| "accepts_miners Shadow = False"

fun enforces_verdicts :: "GatewayMode \<Rightarrow> bool" where
  "enforces_verdicts Inline = True"
| "enforces_verdicts Observe = False"
| "enforces_verdicts Shadow = False"

fun detects_replay :: "GatewayMode \<Rightarrow> bool" where
  "detects_replay Inline = True"
| "detects_replay Observe = False"
| "detects_replay Shadow = False"

definition BIP320_GP_MASK :: u32 where
  "BIP320_GP_MASK = 0x1fffe000"

definition BIP320_SIGNALING_MASK :: u32 where
  "BIP320_SIGNALING_MASK = NOT BIP320_GP_MASK"

definition MAX_FUTURE_BLOCK_TIME_SECONDS :: u32 where
  "MAX_FUTURE_BLOCK_TIME_SECONDS = 7200"

definition DIFF1_TARGET_BE :: bytes where
  "DIFF1_TARGET_BE =
    [0x00, 0x00, 0x00, 0x00, 0xFF, 0xFF, 0x00, 0x00, 0x00, 0x00, 0x00, 0x00, 0x00, 0x00, 0x00, 0x00,
     0x00, 0x00, 0x00, 0x00, 0x00, 0x00, 0x00, 0x00, 0x00, 0x00, 0x00, 0x00, 0x00, 0x00, 0x00, 0x00]"

definition MAX_INTERNAL_LINE_BYTES :: nat where
  "MAX_INTERNAL_LINE_BYTES = 20 * 1024 * 1024"

datatype ValidationLevel = Full | Sv2

fun validation_level_as_str :: "ValidationLevel \<Rightarrow> string" where
  "validation_level_as_str Full = ''full''"
| "validation_level_as_str Sv2 = ''sv2''"

section \<open>The contract of a reason-code enumeration\<close>

locale reason_codes =
  fixes code :: "'r \<Rightarrow> string"
    and all :: "'r list"
    and codes :: "string list"
  assumes all_complete: "r \<in> set all"
    and codes_are_all: "map code all = codes"
    and codes_distinct: "distinct codes"
begin

lemma code_inject: "code r = code s \<longleftrightarrow> r = s"
proof -
  have "inj_on code (set all)"
    using codes_distinct by (simp add: codes_are_all [symmetric] distinct_map)
  then show ?thesis using all_complete by (auto dest: inj_onD)
qed

lemma all_distinct: "distinct all"
  using codes_distinct by (simp add: codes_are_all [symmetric] distinct_map)

text \<open>Reading a code back by searching the enumeration finds the reason it names.\<close>

lemma find_code: "find (\<lambda>s. code s = code r) all = Some r"
  using all_complete [of r] by (auto simp: find_Some_iff in_set_conv_nth code_inject)
    (metis all_distinct nat_neq_iff nth_eq_iff_index_eq order.strict_trans)

lemma find_unknown: "c \<notin> set codes \<longleftrightarrow> find (\<lambda>s. code s = c) all = None"
  by (auto simp: find_None_iff codes_are_all [symmetric])

end

lemma VerdictReason_all_complete: "r \<in> set ALL_REASONS"
  by (cases r) (simp_all add: ALL_REASONS_def)

lemma VerdictReason_codes: "map as_str ALL_REASONS = ALL_CODES"
  by (simp add: ALL_REASONS_def ALL_CODES_def)

lemma VerdictReason_codes_distinct: "distinct ALL_CODES"
  by code_simp

interpretation verdict_codes: reason_codes as_str ALL_REASONS ALL_CODES
  by unfold_locales (rule VerdictReason_all_complete, rule VerdictReason_codes,
      rule VerdictReason_codes_distinct)

end
