(* ===== verification/RG_Consensus.thy ===== *)
theory RG_Consensus
  imports RG_Protocol
begin

text \<open>
  The consensus re-derivation facade, \<open>services/rg-consensus/src/lib.rs\<close>: the violation
  type, the re-derivations from raw block bytes, the Class S and Tier 3 checks over a
  parsed block, and template block assembly. The \<open>bitcoin\<close> crate is not part of the
  repository: its data types appear here with the fields the facade reads, and its
  functions are the fields of a \<open>bitcoin_api\<close> record that every definition takes as an
  argument.
\<close>

section \<open>The bitcoin crate as a parameter\<close>

record OutPoint =
  op_txid :: hash32
  op_vout :: u32

record TxIn =
  ti_previous_output :: OutPoint
  ti_script_sig :: bytes
  ti_sequence :: u32
  ti_witness :: "bytes list"

record TxOut =
  to_value :: u64
  to_script_pubkey :: bytes

record Transaction =
  tx_version :: u32
  tx_lock_time :: u32
  tx_input :: "TxIn list"
  tx_output :: "TxOut list"

text \<open>The header version is an \<open>i32\<close>: a 32-bit word read with \<open>sint\<close>.\<close>

record Header =
  hd_version :: u32
  hd_prev_blockhash :: hash32
  hd_merkle_root :: hash32
  hd_time :: u32
  hd_bits :: u32
  hd_nonce :: u32

record Block =
  bk_header :: Header
  bk_txdata :: "Transaction list"

record bitcoin_api =
  deserialize_block :: "bytes \<Rightarrow> Block option"
  deserialize_tx :: "bytes \<Rightarrow> Transaction option"
  serialize_block :: "Block \<Rightarrow> bytes"
  block_weight :: "Block \<Rightarrow> u64"
  tx_weight :: "Transaction \<Rightarrow> u64"
  block_merkle_root :: "Block \<Rightarrow> hash32 option"
  block_witness_root :: "Block \<Rightarrow> hash32 option"
  compute_txid :: "Transaction \<Rightarrow> hash32"
  count_sigops_legacy :: "bytes \<Rightarrow> u64"
  outpoint_is_null :: "OutPoint \<Rightarrow> bool"
  sha256d_hash :: "bytes \<Rightarrow> hash32"

section \<open>Violations and their reason codes\<close>

datatype ConsensusViolation =
    DecodeFailed string
  | CoinbaseValueMismatch u64 u64
  | TemplateWeightMismatch u64 u64
  | MerkleRootMismatch hash32 hash32
  | WitnessCommitmentMissing
  | WitnessCommitmentMismatch hash32 hash32
  | SigopsMismatch u32 u32
  | CoinbaseSigopsMismatch u32 u32
  | TxCountMismatch u32 u32
  | CoinbaseScriptLength
  | CoinbaseOutputCount
  | CoinbaseBip34Missing
  | CoinbaseHeightMismatch u32 u32
  | WeightExceedsMax
  | SigopsExceedMax
  | CoinbaseValueExceedsMax
  | NonCoinbaseNullPrevout
  | CoinbasePrevoutNotNull
  | HeaderVersionLow
  | DuplicateTx
  | MempoolTxUnknown hash32
  | MempoolToleranceExceeded u32 u32
  | MempoolUnavailable
  | MempoolViewStale u64
  | NotImplemented

definition zero32 :: hash32 where
  "zero32 = replicate 32 0"

definition ALL_VIOLATIONS :: "ConsensusViolation list" where
  "ALL_VIOLATIONS =
    [DecodeFailed ''enumeration_placeholder'', CoinbaseValueMismatch 0 0, TemplateWeightMismatch 0 0,
     MerkleRootMismatch zero32 zero32, WitnessCommitmentMissing,
     WitnessCommitmentMismatch zero32 zero32, SigopsMismatch 0 0, CoinbaseSigopsMismatch 0 0,
     TxCountMismatch 0 0, CoinbaseScriptLength, CoinbaseOutputCount, CoinbaseBip34Missing,
     CoinbaseHeightMismatch 0 0, WeightExceedsMax, SigopsExceedMax, CoinbaseValueExceedsMax,
     NonCoinbaseNullPrevout, CoinbasePrevoutNotNull, HeaderVersionLow, DuplicateTx,
     MempoolTxUnknown zero32, MempoolToleranceExceeded 0 0, MempoolUnavailable,
     MempoolViewStale 0, NotImplemented]"

definition VIOLATION_CODES :: "string list" where
  "VIOLATION_CODES =
    [''v2_invariant_decode_failed'',
     ''v2_invariant_coinbase_value_mismatch'',
     ''v2_invariant_template_weight_mismatch'',
     ''v2_invariant_merkle_root_mismatch'',
     ''v2_invariant_witness_commitment_missing'',
     ''v2_invariant_witness_commitment_mismatch'',
     ''v2_invariant_sigops_mismatch'',
     ''v2_invariant_coinbase_sigops_mismatch'',
     ''v2_invariant_tx_count_mismatch'',
     ''v2_invariant_coinbase_script_length'',
     ''v2_invariant_coinbase_output_count'',
     ''v2_invariant_coinbase_bip34_missing'',
     ''v2_invariant_coinbase_height_mismatch'',
     ''v2_invariant_weight_exceeds_max'',
     ''v2_invariant_sigops_exceed_max'',
     ''v2_invariant_coinbase_value_exceeds_max'',
     ''v2_invariant_nontcb_null_prevout'',
     ''v2_invariant_coinbase_prevout_not_null'',
     ''v2_invariant_header_version_low'',
     ''v2_invariant_duplicate_tx'',
     ''v2_invariant_mempool_tx_unknown'',
     ''v2_invariant_mempool_tolerance_exceeded'',
     ''v2_invariant_mempool_unavailable'',
     ''v2_invariant_mempool_view_stale'']"

definition NOT_IMPLEMENTED_CODE :: string where
  "NOT_IMPLEMENTED_CODE = ''v2_invariant_not_implemented''"

fun as_reason_code :: "ConsensusViolation \<Rightarrow> string" where
  "as_reason_code (DecodeFailed d) = ''v2_invariant_decode_failed''"
| "as_reason_code (CoinbaseValueMismatch d r) = ''v2_invariant_coinbase_value_mismatch''"
| "as_reason_code (TemplateWeightMismatch d r) = ''v2_invariant_template_weight_mismatch''"
| "as_reason_code (MerkleRootMismatch d r) = ''v2_invariant_merkle_root_mismatch''"
| "as_reason_code WitnessCommitmentMissing = ''v2_invariant_witness_commitment_missing''"
| "as_reason_code (WitnessCommitmentMismatch d r) = ''v2_invariant_witness_commitment_mismatch''"
| "as_reason_code (SigopsMismatch d r) = ''v2_invariant_sigops_mismatch''"
| "as_reason_code (CoinbaseSigopsMismatch d r) = ''v2_invariant_coinbase_sigops_mismatch''"
| "as_reason_code (TxCountMismatch d r) = ''v2_invariant_tx_count_mismatch''"
| "as_reason_code CoinbaseScriptLength = ''v2_invariant_coinbase_script_length''"
| "as_reason_code CoinbaseOutputCount = ''v2_invariant_coinbase_output_count''"
| "as_reason_code CoinbaseBip34Missing = ''v2_invariant_coinbase_bip34_missing''"
| "as_reason_code (CoinbaseHeightMismatch d r) = ''v2_invariant_coinbase_height_mismatch''"
| "as_reason_code WeightExceedsMax = ''v2_invariant_weight_exceeds_max''"
| "as_reason_code SigopsExceedMax = ''v2_invariant_sigops_exceed_max''"
| "as_reason_code CoinbaseValueExceedsMax = ''v2_invariant_coinbase_value_exceeds_max''"
| "as_reason_code NonCoinbaseNullPrevout = ''v2_invariant_nontcb_null_prevout''"
| "as_reason_code CoinbasePrevoutNotNull = ''v2_invariant_coinbase_prevout_not_null''"
| "as_reason_code HeaderVersionLow = ''v2_invariant_header_version_low''"
| "as_reason_code DuplicateTx = ''v2_invariant_duplicate_tx''"
| "as_reason_code (MempoolTxUnknown t) = ''v2_invariant_mempool_tx_unknown''"
| "as_reason_code (MempoolToleranceExceeded u t) = ''v2_invariant_mempool_tolerance_exceeded''"
| "as_reason_code MempoolUnavailable = ''v2_invariant_mempool_unavailable''"
| "as_reason_code (MempoolViewStale a) = ''v2_invariant_mempool_view_stale''"
| "as_reason_code NotImplemented = NOT_IMPLEMENTED_CODE"

section \<open>Re-derivations from raw bytes\<close>

definition tx_has_witness :: "Transaction \<Rightarrow> bool" where
  "tx_has_witness tx = list_ex (\<lambda>i. ti_witness i \<noteq> []) (tx_input tx)"

definition has_witness :: "Block \<Rightarrow> bool" where
  "has_witness b = list_ex tx_has_witness (bk_txdata b)"

text \<open>The BIP-141 reserved value, 32 zero bytes when missing or malformed.\<close>

definition witness_reserved :: "Transaction \<Rightarrow> hash32" where
  "witness_reserved coinbase =
     (case tx_input coinbase of
        [] \<Rightarrow> zero32
      | i # _ \<Rightarrow> (case ti_witness i of
            [] \<Rightarrow> zero32
          | w # _ \<Rightarrow> if length w = 32 then w else zero32))"

definition re_derive_coinbase_value :: "bitcoin_api \<Rightarrow> bytes \<Rightarrow> ConsensusViolation + u64" where
  "re_derive_coinbase_value B raw_block =
     (case deserialize_block B raw_block of
        None \<Rightarrow> Err (DecodeFailed ''block_deserialize'')
      | Some block \<Rightarrow>
          (case first (bk_txdata block) of
             None \<Rightarrow> Err (DecodeFailed ''block_has_no_coinbase'')
           | Some coinbase \<Rightarrow>
               ok_or CoinbaseValueExceedsMax (checked_sum 0 (map to_value (tx_output coinbase)))))"

definition re_derive_template_weight :: "bitcoin_api \<Rightarrow> bytes \<Rightarrow> ConsensusViolation + u64" where
  "re_derive_template_weight B raw_block =
     (case deserialize_block B raw_block of
        None \<Rightarrow> Err (DecodeFailed ''block_deserialize'')
      | Some block \<Rightarrow> Ok (block_weight B block))"

definition re_derive_merkle_root :: "bitcoin_api \<Rightarrow> bytes \<Rightarrow> ConsensusViolation + hash32" where
  "re_derive_merkle_root B raw_block =
     (case deserialize_block B raw_block of
        None \<Rightarrow> Err (DecodeFailed ''block_deserialize'')
      | Some block \<Rightarrow>
          ok_or (DecodeFailed ''merkle_root_empty_block'') (block_merkle_root B block))"

definition re_derive_witness_commitment ::
    "bitcoin_api \<Rightarrow> bytes \<Rightarrow> ConsensusViolation + hash32 option" where
  "re_derive_witness_commitment B raw_block =
     (case deserialize_block B raw_block of
        None \<Rightarrow> Err (DecodeFailed ''block_deserialize'')
      | Some block \<Rightarrow>
          if \<not> has_witness block then Ok None
          else (case block_witness_root B block of
                  None \<Rightarrow> Err (DecodeFailed ''witness_root_empty_block'')
                | Some witness_root \<Rightarrow>
                    (case first (bk_txdata block) of
                       None \<Rightarrow> Err (DecodeFailed ''block_has_no_coinbase'')
                     | Some coinbase \<Rightarrow>
                         Ok (Some (sha256d_hash B (witness_root @ witness_reserved coinbase))))))"

text \<open>The two inner loops over one transaction's inputs and outputs.\<close>

definition tx_sigops_loop :: "bitcoin_api \<Rightarrow> u64 \<Rightarrow> Transaction \<Rightarrow> u64" where
  "tx_sigops_loop B acc tx =
     foldl (\<lambda>t out. sat_add t (count_sigops_legacy B (to_script_pubkey out)))
       (foldl (\<lambda>t i. sat_add t (count_sigops_legacy B (ti_script_sig i))) acc (tx_input tx))
       (tx_output tx)"

definition sum_legacy_sigops :: "bitcoin_api \<Rightarrow> Transaction list \<Rightarrow> u32" where
  "sum_legacy_sigops B txs = clamp_nat (unat (foldl (tx_sigops_loop B) 0 txs))"

definition count_sigops :: "bitcoin_api \<Rightarrow> bytes \<Rightarrow> ConsensusViolation + u32" where
  "count_sigops B raw_block =
     (case deserialize_block B raw_block of
        None \<Rightarrow> Err (DecodeFailed ''block_deserialize'')
      | Some block \<Rightarrow> Ok (clamp_nat (unat (foldl (tx_sigops_loop B) 0 (bk_txdata block)))))"

section \<open>Helpers over the coinbase\<close>

definition OP_RETURN :: u8 where
  "OP_RETURN = 0x6a"

definition OP_PUSHBYTES_36 :: u8 where
  "OP_PUSHBYTES_36 = 0x24"

definition MAGIC :: bytes where
  "MAGIC = [0xaa, 0x21, 0xa9, 0xed]"

definition is_commitment_script :: "bytes \<Rightarrow> bool" where
  "is_commitment_script bs \<longleftrightarrow>
     38 \<le> length bs \<and> bs ! 0 = OP_RETURN \<and> bs ! 1 = OP_PUSHBYTES_36 \<and> take 4 (drop 2 bs) = MAGIC"

fun find_commitment :: "TxOut list \<Rightarrow> hash32 option" where
  "find_commitment [] = None"
| "find_commitment (out # outs) =
     (if is_commitment_script (to_script_pubkey out)
      then Some (take 32 (drop 6 (to_script_pubkey out))) else find_commitment outs)"

definition extract_witness_commitment_from_coinbase :: "Transaction \<Rightarrow> hash32 option" where
  "extract_witness_commitment_from_coinbase coinbase = find_commitment (rev (tx_output coinbase))"

text \<open>The \<open>value |= (b & mask) << (i * 8)\<close> loop over the payload of a push of length \<open>len\<close>.\<close>

fun bip34_value :: "nat \<Rightarrow> nat \<Rightarrow> u64 \<Rightarrow> bytes \<Rightarrow> u64" where
  "bip34_value len i value [] = value"
| "bip34_value len i value (b # bs) =
     (let mask = (if i = len - 1 then 0x7f else 0xff)
      in bip34_value len (Suc i) (value OR push_bit (i * 8) (ucast b AND mask)) bs)"

definition decode_bip34_height :: "bytes \<Rightarrow> u32 option" where
  "decode_bip34_height script =
     (case script of
        [] \<Rightarrow> None
      | len_byte # rest \<Rightarrow>
          if \<not> (0x01 \<le> len_byte \<and> len_byte \<le> 0x04) then None
          else let len = unat len_byte in
            if length script < 1 + len then None
            else let payload = take len rest; final = last payload in
              if final AND 0x80 \<noteq> 0 then None
              else if 1 < len \<and> final = 0 \<and> payload ! (len - 2) AND 0x80 = 0 then None
              else let value = bip34_value len 0 0 payload in
                if unat value < 2 ^ 32 then Some (ucast value) else None)"

section \<open>Parsed blocks: Class S checks\<close>

definition parse_block :: "bitcoin_api \<Rightarrow> bytes \<Rightarrow> ConsensusViolation + Block" where
  "parse_block B raw = ok_or (DecodeFailed ''block_deserialize'') (deserialize_block B raw)"

definition check_merkle_root_internal :: "bitcoin_api \<Rightarrow> Block \<Rightarrow> ConsensusViolation + unit" where
  "check_merkle_root_internal B block =
     (case block_merkle_root B block of
        None \<Rightarrow> Err (DecodeFailed ''merkle_root_empty_block'')
      | Some computed \<Rightarrow>
          let declared = hd_merkle_root (bk_header block) in
          if declared \<noteq> computed then Err (MerkleRootMismatch declared computed) else Ok ())"

definition check_witness_commitment_internal ::
    "bitcoin_api \<Rightarrow> Block \<Rightarrow> ConsensusViolation + unit" where
  "check_witness_commitment_internal B block =
     (case first (bk_txdata block) of
        None \<Rightarrow> Err (DecodeFailed ''block_has_no_coinbase'')
      | Some coinbase \<Rightarrow>
          (case (has_witness block, extract_witness_commitment_from_coinbase coinbase) of
             (False, _) \<Rightarrow> Ok ()
           | (True, None) \<Rightarrow> Err WitnessCommitmentMissing
           | (True, Some decl) \<Rightarrow>
               (case block_witness_root B block of
                  None \<Rightarrow> Err (DecodeFailed ''witness_root_empty_block'')
                | Some witness_root \<Rightarrow>
                    let computed = sha256d_hash B (witness_root @ witness_reserved coinbase) in
                    if decl = computed then Ok () else Err (WitnessCommitmentMismatch decl computed))))"

definition bip34_height :: "Block \<Rightarrow> ConsensusViolation + u32" where
  "bip34_height block =
     (case first (bk_txdata block) of
        None \<Rightarrow> Err (DecodeFailed ''block_has_no_coinbase'')
      | Some coinbase \<Rightarrow>
          (case first (tx_input coinbase) of
             None \<Rightarrow> Err (DecodeFailed ''coinbase_has_no_input'')
           | Some input \<Rightarrow>
               ok_or CoinbaseBip34Missing (decode_bip34_height (ti_script_sig input))))"

definition check_coinbase_bip34_present :: "Block \<Rightarrow> ConsensusViolation + unit" where
  "check_coinbase_bip34_present block = and_then (bip34_height block) (\<lambda>_. Ok ())"

section \<open>Class D accessors\<close>

definition tx_count :: "Block \<Rightarrow> u32" where
  "tx_count block = clamp_nat (length (bk_txdata block))"

definition total_sigops :: "bitcoin_api \<Rightarrow> Block \<Rightarrow> u32" where
  "total_sigops B block = sum_legacy_sigops B (bk_txdata block)"

text \<open>\<open>.sum()\<close> on \<open>u64\<close>: the release build wraps, which word addition does.\<close>

definition non_coinbase_tx_weight :: "bitcoin_api \<Rightarrow> Block \<Rightarrow> u64" where
  "non_coinbase_tx_weight B block = sum_list (map (tx_weight B) (drop 1 (bk_txdata block)))"

definition non_coinbase_sigops :: "bitcoin_api \<Rightarrow> Block \<Rightarrow> u32" where
  "non_coinbase_sigops B block = sum_legacy_sigops B (drop 1 (bk_txdata block))"

definition coinbase_sigops :: "bitcoin_api \<Rightarrow> Block \<Rightarrow> u32" where
  "coinbase_sigops B block = sum_legacy_sigops B (take 1 (bk_txdata block))"

section \<open>Tier 3 checks\<close>

definition MAX_BLOCK_WEIGHT_WU :: u64 where
  "MAX_BLOCK_WEIGHT_WU = 4000000"

definition MAX_BLOCK_SIGOPS_COST :: u64 where
  "MAX_BLOCK_SIGOPS_COST = 80000"

definition MAX_MONEY_SATS :: u64 where
  "MAX_MONEY_SATS = 21000000 * 100000000"

definition WITNESS_SCALE_FACTOR :: u64 where
  "WITNESS_SCALE_FACTOR = 4"

definition MIN_COINBASE_SCRIPT_LEN :: nat where
  "MIN_COINBASE_SCRIPT_LEN = 2"

definition MAX_COINBASE_SCRIPT_LEN :: nat where
  "MAX_COINBASE_SCRIPT_LEN = 100"

definition HEADER_VERSION_FLOOR :: int where
  "HEADER_VERSION_FLOOR = 4"

definition check_coinbase_script_length :: "Block \<Rightarrow> ConsensusViolation + unit" where
  "check_coinbase_script_length block =
     (case first (bk_txdata block) of
        None \<Rightarrow> Err (DecodeFailed ''block_has_no_coinbase'')
      | Some coinbase \<Rightarrow>
          (case first (tx_input coinbase) of
             None \<Rightarrow> Err (DecodeFailed ''coinbase_has_no_input'')
           | Some input \<Rightarrow>
               let len = length (ti_script_sig input) in
               if \<not> (MIN_COINBASE_SCRIPT_LEN \<le> len \<and> len \<le> MAX_COINBASE_SCRIPT_LEN)
               then Err CoinbaseScriptLength else Ok ()))"

definition check_coinbase_output_count :: "Block \<Rightarrow> ConsensusViolation + unit" where
  "check_coinbase_output_count block =
     (case first (bk_txdata block) of
        None \<Rightarrow> Err (DecodeFailed ''block_has_no_coinbase'')
      | Some coinbase \<Rightarrow> if tx_output coinbase = [] then Err CoinbaseOutputCount else Ok ())"

definition check_weight_max :: "bitcoin_api \<Rightarrow> Block \<Rightarrow> ConsensusViolation + unit" where
  "check_weight_max B block =
     (if MAX_BLOCK_WEIGHT_WU < block_weight B block then Err WeightExceedsMax else Ok ())"

definition check_sigops_max :: "bitcoin_api \<Rightarrow> Block \<Rightarrow> ConsensusViolation + unit" where
  "check_sigops_max B block =
     (let scaled = sat_mul (ucast (total_sigops B block)) WITNESS_SCALE_FACTOR in
      if MAX_BLOCK_SIGOPS_COST < scaled then Err SigopsExceedMax else Ok ())"

fun coinbase_value_loop :: "u64 \<Rightarrow> TxOut list \<Rightarrow> ConsensusViolation + u64" where
  "coinbase_value_loop acc [] = Ok acc"
| "coinbase_value_loop acc (out # outs) =
     (if MAX_MONEY_SATS < to_value out then Err CoinbaseValueExceedsMax
      else (case checked_add acc (to_value out) of
              None \<Rightarrow> Err CoinbaseValueExceedsMax
            | Some acc' \<Rightarrow> coinbase_value_loop acc' outs))"

definition check_coinbase_value_max :: "Block \<Rightarrow> ConsensusViolation + unit" where
  "check_coinbase_value_max block =
     (case first (bk_txdata block) of
        None \<Rightarrow> Err (DecodeFailed ''block_has_no_coinbase'')
      | Some coinbase \<Rightarrow>
          and_then (coinbase_value_loop 0 (tx_output coinbase))
            (\<lambda>acc. if MAX_MONEY_SATS < acc then Err CoinbaseValueExceedsMax else Ok ()))"

definition check_non_coinbase_null_prevout :: "bitcoin_api \<Rightarrow> Block \<Rightarrow> ConsensusViolation + unit" where
  "check_non_coinbase_null_prevout B block =
     (if list_ex (\<lambda>tx. list_ex (\<lambda>i. outpoint_is_null B (ti_previous_output i)) (tx_input tx))
           (drop 1 (bk_txdata block))
      then Err NonCoinbaseNullPrevout else Ok ())"

definition check_coinbase_null_prevout :: "bitcoin_api \<Rightarrow> Block \<Rightarrow> ConsensusViolation + unit" where
  "check_coinbase_null_prevout B block =
     (case first (bk_txdata block) of
        None \<Rightarrow> Err CoinbasePrevoutNotNull
      | Some coinbase \<Rightarrow>
          (case tx_input coinbase of
             [input] \<Rightarrow>
               if \<not> outpoint_is_null B (ti_previous_output input)
               then Err CoinbasePrevoutNotNull else Ok ()
           | _ \<Rightarrow> Err CoinbasePrevoutNotNull))"

definition check_header_version :: "Block \<Rightarrow> ConsensusViolation + unit" where
  "check_header_version block =
     (if sint (hd_version (bk_header block)) < HEADER_VERSION_FLOOR
      then Err HeaderVersionLow else Ok ())"

fun duplicate_loop :: "bitcoin_api \<Rightarrow> hash32 list \<Rightarrow> Transaction list \<Rightarrow> ConsensusViolation + unit" where
  "duplicate_loop B seen [] = Ok ()"
| "duplicate_loop B seen (tx # txs) =
     (if compute_txid B tx \<in> set seen then Err DuplicateTx
      else duplicate_loop B (compute_txid B tx # seen) txs)"

definition check_duplicate_tx :: "bitcoin_api \<Rightarrow> Block \<Rightarrow> ConsensusViolation + unit" where
  "check_duplicate_tx B block = duplicate_loop B [] (bk_txdata block)"

section \<open>Template block assembly and the Class M accessor\<close>

record TemplateBlockParts =
  pt_version :: u32
  pt_prev_hash :: hash32
  pt_time :: u32
  pt_bits :: u32
  pt_coinbase_legacy :: bytes
  pt_txs_raw :: "bytes list"

fun deserialize_txs ::
    "bitcoin_api \<Rightarrow> bool \<Rightarrow> bytes list \<Rightarrow> ConsensusViolation + bool \<times> Transaction list" where
  "deserialize_txs B any_witness [] = Ok (any_witness, [])"
| "deserialize_txs B any_witness (raw # raws) =
     (case deserialize_tx B raw of
        None \<Rightarrow> Err (DecodeFailed ''template_tx_deserialize'')
      | Some tx \<Rightarrow>
          and_then (deserialize_txs B (any_witness \<or> tx_has_witness tx) raws)
            (\<lambda>(any, txs). Ok (any, tx # txs)))"

text \<open>\<open>first_mut().ok_or(..)?\<close> followed by the assignment of the reserved witness.\<close>

definition attach_reserved_witness :: "Transaction \<Rightarrow> ConsensusViolation + Transaction" where
  "attach_reserved_witness coinbase =
     (case tx_input coinbase of
        [] \<Rightarrow> Err (DecodeFailed ''coinbase_has_no_input'')
      | i # is \<Rightarrow> Ok (coinbase\<lparr>tx_input := i\<lparr>ti_witness := [zero32]\<rparr> # is\<rparr>))"

definition template_block :: "TemplateBlockParts \<Rightarrow> Transaction list \<Rightarrow> Block" where
  "template_block parts txs =
     \<lparr>bk_header = \<lparr>hd_version = pt_version parts, hd_prev_blockhash = pt_prev_hash parts,
                   hd_merkle_root = zero32, hd_time = pt_time parts, hd_bits = pt_bits parts,
                   hd_nonce = 0\<rparr>,
      bk_txdata = txs\<rparr>"

definition assemble_template_block :: "bitcoin_api \<Rightarrow> TemplateBlockParts \<Rightarrow> ConsensusViolation + bytes" where
  "assemble_template_block B parts =
     (case deserialize_tx B (pt_coinbase_legacy parts) of
        None \<Rightarrow> Err (DecodeFailed ''coinbase_deserialize'')
      | Some coinbase \<Rightarrow>
          and_then (deserialize_txs B False (pt_txs_raw parts)) (\<lambda>(any_witness, txdata).
            let has_commitment = (extract_witness_commitment_from_coinbase coinbase \<noteq> None) in
            if any_witness \<and> \<not> has_commitment then Err WitnessCommitmentMissing
            else and_then (if has_commitment then attach_reserved_witness coinbase else Ok coinbase)
              (\<lambda>coinbase'.
                 let block = template_block parts (coinbase' # txdata) in
                 case block_merkle_root B block of
                   None \<Rightarrow> Err (DecodeFailed ''merkle_root_empty_block'')
                 | Some merkle \<Rightarrow>
                     Ok (serialize_block B
                       (block\<lparr>bk_header := (bk_header block)\<lparr>hd_merkle_root := merkle\<rparr>\<rparr>)))))"

definition template_txids :: "bitcoin_api \<Rightarrow> Block \<Rightarrow> hash32 list" where
  "template_txids B block = map (compute_txid B) (drop 1 (bk_txdata block))"

section \<open>Reference notions the theorems speak of\<close>

text \<open>The true coinbase total and sigop counts, as natural numbers.\<close>

definition coinbase_total :: "Transaction \<Rightarrow> nat" where
  "coinbase_total cb = sum_list (map (\<lambda>out. unat (to_value out)) (tx_output cb))"

definition tx_sigops :: "bitcoin_api \<Rightarrow> Transaction \<Rightarrow> nat" where
  "tx_sigops B tx =
     sum_list (map (\<lambda>i. unat (count_sigops_legacy B (ti_script_sig i))) (tx_input tx)) +
     sum_list (map (\<lambda>out. unat (count_sigops_legacy B (to_script_pubkey out))) (tx_output tx))"

definition tx_null_inputs :: "bitcoin_api \<Rightarrow> Transaction \<Rightarrow> bool" where
  "tx_null_inputs B tx \<longleftrightarrow> (\<exists>i \<in> set (tx_input tx). outpoint_is_null B (ti_previous_output i))"

text \<open>The reference encoder: minimal little-endian bytes, padded when the sign bit is set.\<close>

fun le_min :: "nat \<Rightarrow> bytes" where
  "le_min n = (if n = 0 then [] else of_nat (n mod 256) # le_min (n div 256))"

declare le_min.simps [simp del]

definition script_num :: "nat \<Rightarrow> bytes" where
  "script_num n = (let p = le_min n in if p \<noteq> [] \<and> last p AND 0x80 \<noteq> 0 then p @ [0] else p)"

definition height_push :: "nat \<Rightarrow> bytes" where
  "height_push n = of_nat (length (script_num n)) # script_num n"

section \<open>Coinbase value\<close>

lemma re_derive_coinbase_value_eq:
  assumes "deserialize_block B raw = Some block" and "bk_txdata block = cb # txs"
  shows "re_derive_coinbase_value B raw =
    (if coinbase_total cb < 2 ^ 64 then Ok (of_nat (coinbase_total cb)) else Err CoinbaseValueExceedsMax)"
  using assms by (simp add: re_derive_coinbase_value_def checked_sum_correct coinbase_total_def comp_def)

lemma coinbase_value_loop_Ok:
  "coinbase_value_loop acc outs = Ok t \<longleftrightarrow>
    (\<forall>out \<in> set outs. to_value out \<le> MAX_MONEY_SATS) \<and>
    unat t = unat acc + sum_list (map (\<lambda>out. unat (to_value out)) outs)"
proof (induction outs arbitrary: acc)
  case Nil
  then show ?case by (auto simp: word_unat_eq_iff)
next
  case (Cons out outs)
  show ?case
  proof (cases "checked_add acc (to_value out)")
    case None
    then have "2 ^ 64 \<le> unat acc + unat (to_value out)" by (simp add: checked_add_None_iff)
    moreover have "unat t < 2 ^ 64" using unsigned_less [of t] by simp
    ultimately show ?thesis using None by auto
  next
    case (Some s)
    then have "unat s = unat acc + unat (to_value out)" by (simp add: checked_add_Some_iff)
    then show ?thesis using Some Cons.IH [of s] by (auto simp: not_less add.assoc)
  qed
qed

lemma unat_MAX_MONEY: "unat MAX_MONEY_SATS = 2100000000000000"
  by (simp add: MAX_MONEY_SATS_def)

lemma check_coinbase_value_max_Ok:
  "check_coinbase_value_max block = Ok () \<longleftrightarrow>
    (\<exists>cb txs. bk_txdata block = cb # txs \<and> coinbase_total cb \<le> 2100000000000000)"
proof (cases "bk_txdata block")
  case Nil
  then show ?thesis by (simp add: check_coinbase_value_max_def)
next
  case (Cons cb txs)
  have each: "unat (to_value out) \<le> coinbase_total cb" if "out \<in> set (tx_output cb)" for out
    using that unfolding coinbase_total_def by (intro member_le_sum_list) auto
  have "(\<exists>t. coinbase_value_loop 0 (tx_output cb) = Ok t \<and> \<not> MAX_MONEY_SATS < t)
        \<longleftrightarrow> coinbase_total cb \<le> 2100000000000000" (is "?L \<longleftrightarrow> ?R")
  proof
    assume ?L
    then show ?R
      by (auto simp: coinbase_value_loop_Ok coinbase_total_def not_less word_le_nat_alt unat_MAX_MONEY)
  next
    assume R: ?R
    then have "unat (of_nat (coinbase_total cb) :: u64) = coinbase_total cb"
      by (simp add: unat_of_nat)
    then have "coinbase_value_loop 0 (tx_output cb) = Ok (of_nat (coinbase_total cb))"
      using R each
      by (auto simp: coinbase_value_loop_Ok word_le_nat_alt unat_MAX_MONEY coinbase_total_def [symmetric]
          intro: order_trans)
    moreover have "\<not> MAX_MONEY_SATS < of_nat (coinbase_total cb)"
      using R \<open>unat (of_nat (coinbase_total cb) :: u64) = coinbase_total cb\<close>
      by (simp add: not_less word_le_nat_alt unat_MAX_MONEY)
    ultimately show ?L by blast
  qed
  then show ?thesis
    using Cons by (auto simp: check_coinbase_value_max_def and_then_Ok_iff split: if_splits)
qed

section \<open>Sigops\<close>

lemma unat_foldl_sat_add:
  fixes acc :: "'a::len word"
  shows "unat (foldl (\<lambda>t x. sat_add t (f x)) acc xs) =
     min (unat acc + sum_list (map (\<lambda>x. unat (f x)) xs)) (2 ^ LENGTH('a) - 1)"
proof -
  have "foldl (\<lambda>t x. sat_add t (f x)) acc xs = sat_sum acc (map f xs)"
    by (simp add: sat_sum_def foldl_map)
  then show ?thesis by (simp add: unat_sat_sum comp_def)
qed

lemma unat_tx_sigops_loop:
  "unat (tx_sigops_loop B acc tx) = min (unat acc + tx_sigops B tx) (2 ^ 64 - 1)"
  by (simp add: tx_sigops_loop_def tx_sigops_def unat_foldl_sat_add min_absorb_partial add.assoc)

lemma unat_foldl_tx_sigops:
  "unat (foldl (tx_sigops_loop B) acc txs) =
     min (unat acc + sum_list (map (tx_sigops B) txs)) (2 ^ 64 - 1)"
proof (induction txs arbitrary: acc)
  case Nil
  have "unat acc < 2 ^ 64" using unsigned_less [of acc] by simp
  then show ?case by simp
next
  case (Cons tx txs)
  then show ?case
    by (simp add: unat_tx_sigops_loop min_absorb_partial add.assoc)
qed

lemma unat_sum_legacy_sigops:
  "unat (sum_legacy_sigops B txs) = min (sum_list (map (tx_sigops B) txs)) (2 ^ 32 - 1)"
  by (simp add: sum_legacy_sigops_def unat_clamp_nat unat_foldl_tx_sigops)

lemma sigops_partition:
  assumes "sum_list (map (tx_sigops B) (bk_txdata block)) < 2 ^ 32"
  shows "unat (total_sigops B block) = unat (coinbase_sigops B block) + unat (non_coinbase_sigops B block)"
proof (cases "bk_txdata block")
  case Nil
  then show ?thesis by (simp add: total_sigops_def coinbase_sigops_def non_coinbase_sigops_def unat_sum_legacy_sigops)
next
  case (Cons cb txs)
  then show ?thesis using assms
    by (simp add: total_sigops_def coinbase_sigops_def non_coinbase_sigops_def unat_sum_legacy_sigops)
qed

lemma check_sigops_max_Ok:
  "check_sigops_max B block = Ok () \<longleftrightarrow> 4 * sum_list (map (tx_sigops B) (bk_txdata block)) \<le> 80000"
proof -
  have u: "unat (ucast w :: u64) = unat w" for w :: u32
    by (simp add: unat_ucast_up)
  show ?thesis
    by (auto simp: check_sigops_max_def Let_def word_less_nat_alt unat_sat_mul u total_sigops_def
        unat_sum_legacy_sigops MAX_BLOCK_SIGOPS_COST_def WITNESS_SCALE_FACTOR_def min_def split: if_splits)
qed

section \<open>Duplicates and prevouts\<close>

lemma duplicate_loop_Ok:
  "duplicate_loop B seen txs = Ok () \<longleftrightarrow>
     distinct (map (compute_txid B) txs) \<and> set (map (compute_txid B) txs) \<inter> set seen = {}"
  by (induction txs arbitrary: seen) auto

lemma check_duplicate_tx_Ok:
  "check_duplicate_tx B block = Ok () \<longleftrightarrow> distinct (map (compute_txid B) (bk_txdata block))"
  by (simp add: check_duplicate_tx_def duplicate_loop_Ok)

lemma check_coinbase_null_prevout_Ok:
  "check_coinbase_null_prevout B block = Ok () \<longleftrightarrow>
    (\<exists>cb txs i. bk_txdata block = cb # txs \<and> tx_input cb = [i] \<and> outpoint_is_null B (ti_previous_output i))"
  by (cases "bk_txdata block") (auto simp: check_coinbase_null_prevout_def split: list.splits if_splits)

lemma check_non_coinbase_null_prevout_Ok:
  "check_non_coinbase_null_prevout B block = Ok () \<longleftrightarrow>
    (\<forall>tx \<in> set (drop 1 (bk_txdata block)). \<not> tx_null_inputs B tx)"
  by (auto simp: check_non_coinbase_null_prevout_def tx_null_inputs_def list_ex_iff)

lemma only_the_coinbase_has_null_prevout:
  assumes "check_coinbase_null_prevout B block = Ok ()"
    and "check_non_coinbase_null_prevout B block = Ok ()"
    and "k < length (bk_txdata block)"
  shows "tx_null_inputs B (bk_txdata block ! k) \<longleftrightarrow> k = 0"
proof -
  obtain cb txs i where b: "bk_txdata block = cb # txs" "tx_input cb = [i]"
      "outpoint_is_null B (ti_previous_output i)"
    using assms(1) by (auto simp: check_coinbase_null_prevout_Ok)
  show ?thesis
  proof (cases k)
    case 0
    then show ?thesis using b by (simp add: tx_null_inputs_def)
  next
    case (Suc j)
    then have "txs ! j \<in> set txs" using b assms(3) by simp
    then show ?thesis using assms(2) b Suc by (simp add: check_non_coinbase_null_prevout_Ok)
  qed
qed


section \<open>BIP-34 heights\<close>

lemma le_val_le_min: "le_val (le_min n) = n"
proof (induction n rule: le_min.induct)
  case (1 n)
  show ?case
  proof (cases "n = 0")
    case False
    have "unat (of_nat (n mod 256) :: u8) = n mod 256" by (simp add: unat_of_nat)
    then show ?thesis using 1 False by (simp add: le_min.simps [of n])
  qed (simp add: le_min.simps)
qed

lemma le_min_le_val: "q = [] \<or> last q \<noteq> 0 \<Longrightarrow> le_min (le_val q) = q"
proof (induction q)
  case Nil
  then show ?case by (simp add: le_min.simps)
next
  case (Cons b q)
  have b: "unat b < 256" by (rule unat_byte_less)
  have nz: "le_val (b # q) \<noteq> 0"
  proof (cases "q = []")
    case True
    then show ?thesis using Cons.prems by (simp add: unat_eq_0)
  next
    case False
    then have "le_min (le_val q) = q" using Cons by simp
    then have "le_val q \<noteq> 0" using False by (metis le_min.simps)
    then show ?thesis by simp
  qed
  have "(unat b + 256 * le_val q) mod 256 = unat b" "(unat b + 256 * le_val q) div 256 = le_val q"
    using b by auto
  moreover have "le_min (le_val q) = q" using Cons by (cases "q = []") auto
  ultimately show ?case using nz by (simp add: le_min.simps [of "unat b + 256 * le_val q"])
qed

lemma le_min_last: "le_min n \<noteq> [] \<Longrightarrow> last (le_min n) \<noteq> 0"
proof (induction n rule: le_min.induct)
  case (1 n)
  show ?case
  proof (cases "n = 0")
    case True
    then show ?thesis using "1.prems" by (simp add: le_min.simps)
  next
    case False
    show ?thesis
    proof (cases "n div 256 = 0")
      case True
      then have "n < 256" by auto
      then show ?thesis using False
        by (simp add: le_min.simps [of n] le_min.simps [of 0] word_of_nat_eq_0_iff take_bit_nat_eq_self)
          (auto simp: dvd_def)
    next
      case nz: False
      then have "le_min (n div 256) \<noteq> []" by (simp add: le_min.simps [of "n div 256"])
      then show ?thesis using 1 False by (simp add: le_min.simps [of n])
    qed
  qed
qed

lemma length_le_min: "n < 256 ^ k \<Longrightarrow> length (le_min n) \<le> k"
proof (induction k arbitrary: n)
  case 0
  then show ?case by (simp add: le_min.simps)
next
  case (Suc k)
  then have "n div 256 < 256 ^ k" by (simp add: less_mult_imp_div_less mult.commute)
  then show ?case using Suc.IH by (simp add: le_min.simps [of n])
qed

lemma sign_bit_iff: "(b :: u8) AND 0x80 = 0 \<longleftrightarrow> unat b < 128"
proof -
  have "b AND 0x80 = 0 \<longleftrightarrow> \<not> bit b 7"
  proof -
    have "(0x80 :: u8) = 2 ^ 7" by simp
    then show ?thesis by (simp only: and_exp_eq_0_iff_not_bit)
  qed
  also have "\<dots> \<longleftrightarrow> unat b < 128"
  proof -
    have "bit b 7 \<longleftrightarrow> bit (unat b) 7" by (simp add: bit_unsigned_iff)
    also have "\<dots> \<longleftrightarrow> odd (unat b div 128)" by (simp add: bit_iff_odd)
    also have "\<dots> \<longleftrightarrow> \<not> unat b < 128"
    proof -
      have "unat b div 128 < 2" using unat_byte_less [of b] by simp
      then show ?thesis by (auto simp: odd_iff_mod_2_eq_one)
    qed
    finally show ?thesis by simp
  qed
  finally show ?thesis .
qed


lemma or_push_bit_add:
  assumes "unat (v :: u64) < 2 ^ (8 * i)" and "unat x < 256" and "8 * i + 8 \<le> 64"
  shows "unat (v OR push_bit (i * 8) x) = unat v + 2 ^ (8 * i) * unat x"
proof -
  have disj: "v AND push_bit (i * 8) x = 0"
  proof (rule bit_eqI)
    fix n assume "possible_bit TYPE(u64) n"
    show "bit (v AND push_bit (i * 8) x) n = bit 0 n"
    proof (cases "n < 8 * i")
      case True
      then show ?thesis by (simp add: bit_and_iff bit_push_bit_iff)
    next
      case False
      then have "\<not> bit (unat v) n"
        using assms(1) by (metis bit_take_bit_iff not_less take_bit_nat_eq_self_iff)
      then have "\<not> bit v n" by (simp add: bit_unsigned_iff)
      then show ?thesis by (simp add: bit_and_iff)
    qed
  qed
  have px: "unat (push_bit (i * 8) x) = 2 ^ (8 * i) * unat x"
  proof -
    have "2 ^ (8 * i) * unat x < 2 ^ (8 * i) * 256" using assms(2) by simp
    also have "\<dots> = 2 ^ (8 * i + 8)" by (simp add: power_add)
    also have "\<dots> \<le> 2 ^ 64" using assms(3) by (rule power_increasing) simp
    finally have "2 ^ (8 * i) * unat x < 2 ^ 64" .
    then show ?thesis
      unfolding unsigned_push_bit_eq by (simp add: push_bit_eq_mult take_bit_nat_eq_self mult.commute)
  qed
  have "v OR push_bit (i * 8) x = v + push_bit (i * 8) x"
    using disj by (simp add: disjunctive_add_eq_or)
  moreover have "unat v + unat (push_bit (i * 8) x) < 2 ^ 64"
  proof -
    have "unat v + 2 ^ (8 * i) * unat x < 2 ^ (8 * i) * (unat x + 1)" using assms(1) by simp
    also have "\<dots> \<le> 2 ^ (8 * i) * 256" using assms(2) by simp
    also have "\<dots> = 2 ^ (8 * i + 8)" by (simp add: power_add)
    also have "\<dots> \<le> 2 ^ 64" using assms(3) by (rule power_increasing) simp
    finally show ?thesis by (simp only: px)
  qed
  ultimately show ?thesis using px by (simp add: unat_add_if_fits)
qed

lemma bip34_value_eq:
  assumes "unat acc < 2 ^ (8 * i)" and "i + length bs \<le> len" and "len \<le> 4"
    and "bs \<noteq> [] \<longrightarrow> i + length bs = len \<longrightarrow> unat (last bs) < 128"
  shows "unat (bip34_value len i acc bs) = unat acc + 2 ^ (8 * i) * le_val bs"
  using assms
proof (induction bs arbitrary: i acc)
  case Nil
  then show ?case by simp
next
  case (Cons b bs)
  let ?mask = "if i = len - 1 then 0x7f else 0xff :: u64"
  have x: "unat (ucast b AND ?mask) = unat b"
  proof (cases "i = len - 1")
    case True
    have "Suc i + length bs \<le> len" using Cons.prems(2) by simp
    then have "length bs = 0" and "i + 1 = len" using True by linarith+
    then have "unat b < 128" using Cons.prems(4) by simp
    have "ucast b AND (0x7f :: u64) = take_bit 7 (ucast b)"
      by (simp add: take_bit_eq_mask mask_eq_exp_minus_1)
    then show ?thesis using True \<open>unat b < 128\<close>
      by (simp add: unsigned_take_bit_eq unat_ucast_up take_bit_nat_eq_self)
  next
    case False
    have "ucast b AND (0xff :: u64) = take_bit 8 (ucast b)"
      by (simp add: take_bit_eq_mask mask_eq_exp_minus_1)
    then show ?thesis using False unat_byte_less [of b]
      by (simp add: unsigned_take_bit_eq unat_ucast_up take_bit_nat_eq_self)
  qed
  let ?v = "acc OR push_bit (i * 8) (ucast b AND ?mask)"
  have v: "unat ?v = unat acc + 2 ^ (8 * i) * unat b"
    using or_push_bit_add [of acc i "ucast b AND ?mask"] Cons.prems x unat_byte_less [of b] by simp
  have "unat ?v < 2 ^ (8 * Suc i)"
  proof -
    have "unat acc + 2 ^ (8 * i) * unat b < 2 ^ (8 * i) * (unat b + 1)" using Cons.prems(1) by simp
    also have "\<dots> \<le> 2 ^ (8 * i) * 256" using unat_byte_less [of b] by simp
    finally show ?thesis using v by (simp add: power_add)
  qed
  then have "unat (bip34_value len (Suc i) ?v bs) = unat ?v + 2 ^ (8 * Suc i) * le_val bs"
    using Cons.prems by (intro Cons.IH) (auto split: if_splits)
  then show ?case using v by (simp add: Let_def algebra_simps power_add)
qed


text \<open>Every payload the decoder accepts is the canonical encoding of the height it returns.\<close>

lemma script_num_canonical:
  assumes "p \<noteq> []" and "unat (last p) < 128"
    and "last p = 0 \<Longrightarrow> 1 < length p \<and> 128 \<le> unat (p ! (length p - 2))"
  shows "script_num (le_val p) = p"
proof (cases "last p = 0")
  case False
  then have "le_min (le_val p) = p" by (simp add: le_min_le_val)
  then show ?thesis using assms(2) by (simp add: script_num_def sign_bit_iff)
next
  case True
  define q where "q = butlast p"
  have p: "p = q @ [0]" using True assms(1) by (metis append_butlast_last_id q_def)
  have q: "q \<noteq> []" using assms(3) [OF True] p by auto
  have lq: "128 \<le> unat (last q)"
    using assms(3) [OF True] q by (auto simp: p nth_append last_conv_nth)
  then have "last q \<noteq> 0" by auto
  then have "le_min (le_val q) = q" by (simp add: le_min_le_val)
  then have "le_min (le_val p) = q" by (simp add: p le_val_append)
  then show ?thesis using q lq by (auto simp: script_num_def sign_bit_iff p)
qed

lemma script_num_props:
  assumes "0 < n"
  shows "script_num n \<noteq> []" and "unat (last (script_num n)) < 128"
    and "le_val (script_num n) = n"
    and "last (script_num n) = 0 \<Longrightarrow>
      1 < length (script_num n) \<and> 128 \<le> unat (script_num n ! (length (script_num n) - 2))"
proof -
  have ne: "le_min n \<noteq> []" using assms by (simp add: le_min.simps)
  then have nz: "last (le_min n) \<noteq> 0" by (rule le_min_last)
  show "script_num n \<noteq> []" "unat (last (script_num n)) < 128"
    using ne by (auto simp: script_num_def Let_def sign_bit_iff)
  show "le_val (script_num n) = n"
    by (simp add: script_num_def Let_def le_val_append le_val_le_min)
  show "1 < length (script_num n) \<and> 128 \<le> unat (script_num n ! (length (script_num n) - 2))"
    if "last (script_num n) = 0"
  proof -
    have top: "last (le_min n) AND 0x80 \<noteq> 0"
      using that nz by (auto simp: script_num_def Let_def split: if_splits)
    then have "script_num n = le_min n @ [0]" using ne by (simp add: script_num_def)
    then show ?thesis using top ne by (auto simp: sign_bit_iff nth_append last_conv_nth)
  qed
qed

lemma length_script_num:
  assumes "0 < n" and "n < 2 ^ 31"
  shows "1 \<le> length (script_num n)" and "length (script_num n) \<le> 4"
proof -
  show "1 \<le> length (script_num n)" using script_num_props(1) [OF assms(1)] by (simp add: Suc_leI)
  have l: "length (le_min n) \<le> 4" using assms(2) by (intro length_le_min) simp
  show "length (script_num n) \<le> 4"
  proof (cases "length (le_min n) = 4")
    case False
    then show ?thesis using l by (simp add: script_num_def Let_def)
  next
    case True
    have ne: "le_min n \<noteq> []" using True by auto
    then have sp: "le_min n = butlast (le_min n) @ [last (le_min n)]" by simp
    have "le_val (le_min n) = le_val (butlast (le_min n)) + 256 ^ 3 * unat (last (le_min n))"
      by (subst sp) (simp add: le_val_append True)
    then have "256 ^ 3 * unat (last (le_min n)) < 2 ^ 31" using assms(2) by (simp add: le_val_le_min)
    then have "unat (last (le_min n)) < 128" by simp
    then show ?thesis using True by (simp add: script_num_def Let_def sign_bit_iff)
  qed
qed

lemma decode_bip34_height_eq:
  assumes "1 \<le> unat lb" and "unat lb \<le> 4" and "length payload = unat lb"
  shows "decode_bip34_height (lb # payload @ rest) =
    (if 128 \<le> unat (last payload) \<or>
        1 < length payload \<and> last payload = 0 \<and> unat (payload ! (length payload - 2)) < 128
     then None else Some (of_nat (le_val payload)))"
proof -
  have ne: "payload \<noteq> []" using assms by auto
  have lb: "1 \<le> lb" "lb \<le> 4" using assms(1,2) by (simp_all add: word_le_nat_alt)
  have "unat (bip34_value (unat lb) 0 0 payload) = le_val payload" if "unat (last payload) < 128"
    using bip34_value_eq [of 0 0 payload "unat lb"] that assms by simp
  moreover have "le_val payload < 2 ^ 32"
  proof -
    have "le_val payload < 256 ^ length payload" by (rule le_val_bound)
    also have "\<dots> \<le> (256::nat) ^ 4" using assms by (intro power_increasing) auto
    finally show ?thesis by simp
  qed
  ultimately have val: "unat (bip34_value (unat lb) 0 0 payload) < 2 ^ 32 \<and>
      (ucast (bip34_value (unat lb) 0 0 payload) :: u32) = of_nat (le_val payload)"
    if "unat (last payload) < 128"
    using that by (metis of_nat_unat)
  show ?thesis
    using lb assms ne val
    by (auto simp: decode_bip34_height_def Let_def sign_bit_iff not_less)
qed

lemma decode_height_push:
  assumes "0 < n" and "n < 2 ^ 31"
  shows "decode_bip34_height (height_push n @ rest) = Some (of_nat n)"
proof -
  let ?p = "script_num n"
  have l: "unat (of_nat (length ?p) :: u8) = length ?p"
    using length_script_num [OF assms] by (simp add: unat_of_nat)
  have "decode_bip34_height (of_nat (length ?p) # ?p @ rest) = Some (of_nat (le_val ?p))"
    using decode_bip34_height_eq [of "of_nat (length ?p)" ?p rest] length_script_num [OF assms]
      script_num_props [OF assms(1)] by (auto simp: l)
  then show ?thesis by (simp add: height_push_def script_num_props(3) [OF assms(1)])
qed

lemma decode_height_canonical:
  assumes "decode_bip34_height script = Some h" and "h \<noteq> 0"
  shows "\<exists>rest. script = height_push (unat h) @ rest"
proof -
  obtain lb rest where s: "script = lb # rest"
    using assms(1) by (cases script) (auto simp: decode_bip34_height_def)
  have lb: "1 \<le> unat lb" "unat lb \<le> 4" "unat lb \<le> length rest"
    using assms(1) s by (auto simp: decode_bip34_height_def Let_def word_le_nat_alt split: if_splits)
  define p where "p = take (unat lb) rest"
  have pl: "length p = unat lb" and ne: "p \<noteq> []" using lb by (auto simp: p_def)
  have rest: "rest = p @ drop (unat lb) rest" by (simp add: p_def)
  have dec: "decode_bip34_height (lb # p @ drop (unat lb) rest) = Some h"
    using assms(1) s rest by simp
  have ok: "unat (last p) < 128" "\<not> (1 < length p \<and> last p = 0 \<and> unat (p ! (length p - 2)) < 128)"
      "h = of_nat (le_val p)"
    using dec decode_bip34_height_eq [OF lb(1,2) pl, of "drop (unat lb) rest"]
    by (auto simp: not_le split: if_splits)
  have "le_val p < 256 ^ length p" by (rule le_val_bound)
  also have "\<dots> \<le> (256::nat) ^ 4" using lb pl by (intro power_increasing) auto
  finally have h: "unat h = le_val p" using ok(3) by (simp add: unat_of_nat)
  have "1 < length p" if "last p = 0"
  proof (rule ccontr)
    assume "\<not> 1 < length p"
    then have "p = [0]" using ne that by (cases p) auto
    then show False using h assms(2) by (simp add: unat_eq_0)
  qed
  then have "script_num (le_val p) = p" using ne ok(1,2) by (intro script_num_canonical) auto
  then have "height_push (unat h) = lb # p" using h pl by (simp add: height_push_def)
  then show ?thesis using s rest by auto
qed


section \<open>Witness commitment\<close>

lemma find_commitment_append:
  "find_commitment (xs @ ys) =
    (case find_commitment xs of None \<Rightarrow> find_commitment ys | Some c \<Rightarrow> Some c)"
  by (induction xs) auto

lemma find_commitment_None:
  "find_commitment outs = None \<longleftrightarrow> (\<forall>out \<in> set outs. \<not> is_commitment_script (to_script_pubkey out))"
  by (induction outs) auto

lemma find_commitment_Some:
  "find_commitment outs = Some c \<longleftrightarrow>
    (\<exists>pre out post. outs = pre @ out # post \<and> is_commitment_script (to_script_pubkey out) \<and>
       (\<forall>o' \<in> set pre. \<not> is_commitment_script (to_script_pubkey o')) \<and>
       c = take 32 (drop 6 (to_script_pubkey out)))" (is "_ \<longleftrightarrow> ?R outs")
proof
  show "find_commitment outs = Some c \<Longrightarrow> ?R outs"
  proof (induction outs)
    case (Cons out outs)
    show ?case
    proof (cases "is_commitment_script (to_script_pubkey out)")
      case True
      then show ?thesis using Cons.prems by (intro exI [of _ "[]"]) auto
    next
      case False
      then obtain pre o' post where "outs = pre @ o' # post" "is_commitment_script (to_script_pubkey o')"
          "\<forall>x \<in> set pre. \<not> is_commitment_script (to_script_pubkey x)"
          "c = take 32 (drop 6 (to_script_pubkey o'))"
        using Cons by auto
      then show ?thesis using False by (intro exI [of _ "out # pre"]) auto
    qed
  qed simp
  show "?R outs \<Longrightarrow> find_commitment outs = Some c"
  proof (elim exE conjE)
    fix pre out post
    assume "outs = pre @ out # post" "is_commitment_script (to_script_pubkey out)"
      "\<forall>o' \<in> set pre. \<not> is_commitment_script (to_script_pubkey o')"
      "c = take 32 (drop 6 (to_script_pubkey out))"
    then show "find_commitment outs = Some c"
      using find_commitment_None [of pre] by (simp add: find_commitment_append)
  qed
qed

lemma extract_witness_commitment_Some:
  "extract_witness_commitment_from_coinbase cb = Some c \<longleftrightarrow>
    (\<exists>pre out post. tx_output cb = pre @ out # post \<and> is_commitment_script (to_script_pubkey out) \<and>
       (\<forall>o' \<in> set post. \<not> is_commitment_script (to_script_pubkey o')) \<and>
       c = take 32 (drop 6 (to_script_pubkey out)))" (is "_ \<longleftrightarrow> ?R")
proof -
  have rev_iff: "rev xs = pre @ x # post \<longleftrightarrow> xs = rev post @ x # rev pre"
    for xs pre post :: "TxOut list" and x
    by (metis append_Cons append_Nil append_assoc rev.simps(2) rev_append rev_rev_ident)
  show ?thesis
    unfolding extract_witness_commitment_from_coinbase_def find_commitment_Some rev_iff
    by (metis rev_rev_ident set_rev)
qed

lemma extract_witness_commitment_length:
  "extract_witness_commitment_from_coinbase cb = Some c \<Longrightarrow> length c = 32"
  by (auto simp: extract_witness_commitment_Some is_commitment_script_def)

lemma check_merkle_root_internal_Ok:
  "check_merkle_root_internal B block = Ok () \<longleftrightarrow>
    block_merkle_root B block = Some (hd_merkle_root (bk_header block))"
  by (auto simp: check_merkle_root_internal_def Let_def split: option.splits)

lemma check_witness_commitment_internal_Ok:
  "check_witness_commitment_internal B block = Ok () \<longleftrightarrow>
    (\<exists>cb txs. bk_txdata block = cb # txs \<and>
      (has_witness block \<longrightarrow>
        (\<exists>root. block_witness_root B block = Some root \<and>
           extract_witness_commitment_from_coinbase cb =
             Some (sha256d_hash B (root @ witness_reserved cb)))))"
  by (cases "bk_txdata block")
    (auto simp: check_witness_commitment_internal_def Let_def split: option.splits bool.splits if_splits)

lemma check_coinbase_bip34_present_Ok:
  "check_coinbase_bip34_present block = Ok () \<longleftrightarrow> (\<exists>h. bip34_height block = Ok h)"
  by (auto simp: check_coinbase_bip34_present_def and_then_Ok_iff)

lemma bip34_height_Ok:
  "bip34_height block = Ok h \<longleftrightarrow>
    (\<exists>cb txs i is. bk_txdata block = cb # txs \<and> tx_input cb = i # is \<and>
       decode_bip34_height (ti_script_sig i) = Some h)"
proof (cases "bk_txdata block")
  case (Cons cb txs)
  then show ?thesis by (cases "tx_input cb") (auto simp: bip34_height_def ok_or_Ok_iff)
qed (simp add: bip34_height_def)

lemma check_coinbase_script_length_Ok:
  "check_coinbase_script_length block = Ok () \<longleftrightarrow>
    (\<exists>cb txs i is. bk_txdata block = cb # txs \<and> tx_input cb = i # is \<and>
       2 \<le> length (ti_script_sig i) \<and> length (ti_script_sig i) \<le> 100)"
proof (cases "bk_txdata block")
  case (Cons cb txs)
  then show ?thesis
    by (cases "tx_input cb")
      (auto simp: check_coinbase_script_length_def Let_def MIN_COINBASE_SCRIPT_LEN_def
        MAX_COINBASE_SCRIPT_LEN_def split: if_splits)
qed (simp add: check_coinbase_script_length_def)

lemma check_coinbase_output_count_Ok:
  "check_coinbase_output_count block = Ok () \<longleftrightarrow>
    (\<exists>cb txs. bk_txdata block = cb # txs \<and> tx_output cb \<noteq> [])"
  by (cases "bk_txdata block") (auto simp: check_coinbase_output_count_def)

lemma check_weight_max_Ok:
  "check_weight_max B block = Ok () \<longleftrightarrow> unat (block_weight B block) \<le> 4000000"
  by (auto simp: check_weight_max_def MAX_BLOCK_WEIGHT_WU_def word_less_nat_alt)

lemma check_header_version_Ok:
  "check_header_version block = Ok () \<longleftrightarrow> 4 \<le> sint (hd_version (bk_header block))"
  by (auto simp: check_header_version_def HEADER_VERSION_FLOOR_def)

section \<open>Assembly\<close>

lemma deserialize_txs_Ok:
  "deserialize_txs B any raws = Ok (any', txs) \<Longrightarrow>
    length txs = length raws \<and> any' = (any \<or> list_ex tx_has_witness txs)"
proof (induction raws arbitrary: any txs)
  case (Cons raw raws)
  then obtain tx txs' where "deserialize_tx B raw = Some tx" "txs = tx # txs'"
      and rec: "deserialize_txs B (any \<or> tx_has_witness tx) raws = Ok (any', txs')"
    by (auto simp: and_then_Ok_iff split: option.splits)
  then show ?case using Cons.IH [OF rec] by auto
qed simp

lemma attach_reserved_witness_output:
  "attach_reserved_witness cb = Ok cb' \<Longrightarrow> tx_output cb' = tx_output cb"
  by (auto simp: attach_reserved_witness_def split: list.splits)

lemma extract_cong_output:
  "tx_output cb' = tx_output cb \<Longrightarrow>
    extract_witness_commitment_from_coinbase cb' = extract_witness_commitment_from_coinbase cb"
  by (simp add: extract_witness_commitment_from_coinbase_def)

lemma assemble_template_block_Ok:
  assumes "assemble_template_block B parts = Ok raw"
  obtains cb cb' txs merkle where
    "deserialize_tx B (pt_coinbase_legacy parts) = Some cb"
    "length txs = length (pt_txs_raw parts)"
    "list_ex tx_has_witness txs \<longrightarrow> extract_witness_commitment_from_coinbase cb \<noteq> None"
    "tx_output cb' = tx_output cb"
    "extract_witness_commitment_from_coinbase cb = None \<longrightarrow> cb' = cb"
    "block_merkle_root B (template_block parts (cb' # txs)) = Some merkle"
    "raw = serialize_block B ((template_block parts (cb' # txs))
       \<lparr>bk_header := (bk_header (template_block parts (cb' # txs)))\<lparr>hd_merkle_root := merkle\<rparr>\<rparr>)"
proof -
  obtain cb where cb: "deserialize_tx B (pt_coinbase_legacy parts) = Some cb"
    using assms by (auto simp: assemble_template_block_def split: option.splits)
  obtain any txs where d: "deserialize_txs B False (pt_txs_raw parts) = Ok (any, txs)"
    using assms cb by (auto simp: assemble_template_block_def and_then_Ok_iff)
  let ?hc = "extract_witness_commitment_from_coinbase cb \<noteq> None"
  have any: "\<not> (any \<and> \<not> ?hc)"
    using assms cb d by (auto simp: assemble_template_block_def Let_def split: if_splits)
  obtain cb' where cb': "(if ?hc then attach_reserved_witness cb else Ok cb) = Ok cb'"
    using assms cb d any
    by (auto simp: assemble_template_block_def Let_def and_then_Ok_iff split: if_splits)
  obtain merkle where m: "block_merkle_root B (template_block parts (cb' # txs)) = Some merkle"
      "raw = serialize_block B ((template_block parts (cb' # txs))
       \<lparr>bk_header := (bk_header (template_block parts (cb' # txs)))\<lparr>hd_merkle_root := merkle\<rparr>\<rparr>)"
    using assms cb d any cb'
    by (auto simp: assemble_template_block_def Let_def and_then_Ok_iff split: if_splits option.splits)
  show thesis
  proof (rule that [OF cb _ _ _ _ m])
    show "length txs = length (pt_txs_raw parts)" using deserialize_txs_Ok [OF d] by simp
    show "list_ex tx_has_witness txs \<longrightarrow> ?hc" using deserialize_txs_Ok [OF d] any by simp
    show "tx_output cb' = tx_output cb"
      using cb' by (auto dest: attach_reserved_witness_output split: if_splits)
    show "extract_witness_commitment_from_coinbase cb = None \<longrightarrow> cb' = cb" using cb' by auto
  qed
qed

lemma template_block_simps [simp]:
  "bk_txdata (template_block parts txs) = txs"
  "hd_version (bk_header (template_block parts txs)) = pt_version parts"
  "hd_prev_blockhash (bk_header (template_block parts txs)) = pt_prev_hash parts"
  by (simp_all add: template_block_def)


lemma assembled_block_checks:
  assumes body: "\<And>b b'. bk_txdata b = bk_txdata b' \<Longrightarrow> block_merkle_root B b = block_merkle_root B b'"
    and legacy: "\<And>cb. deserialize_tx B (pt_coinbase_legacy parts) = Some cb \<Longrightarrow> \<not> tx_has_witness cb"
    and ok: "assemble_template_block B parts = Ok raw"
  shows "\<exists>block. raw = serialize_block B block \<and>
    length (bk_txdata block) = Suc (length (pt_txs_raw parts)) \<and>
    hd_version (bk_header block) = pt_version parts \<and>
    hd_prev_blockhash (bk_header block) = pt_prev_hash parts \<and>
    check_merkle_root_internal B block = Ok () \<and>
    check_witness_commitment_internal B block \<noteq> Err WitnessCommitmentMissing"
proof -
  obtain cb cb' txs merkle where
    cb: "deserialize_tx B (pt_coinbase_legacy parts) = Some cb" and
    len: "length txs = length (pt_txs_raw parts)" and
    wit: "list_ex tx_has_witness txs \<longrightarrow> extract_witness_commitment_from_coinbase cb \<noteq> None" and
    out: "tx_output cb' = tx_output cb" and
    same: "extract_witness_commitment_from_coinbase cb = None \<longrightarrow> cb' = cb" and
    mr: "block_merkle_root B (template_block parts (cb' # txs)) = Some merkle" and
    raw: "raw = serialize_block B ((template_block parts (cb' # txs))
       \<lparr>bk_header := (bk_header (template_block parts (cb' # txs)))\<lparr>hd_merkle_root := merkle\<rparr>\<rparr>)"
    by (rule assemble_template_block_Ok [OF ok])
  define blk where "blk = (template_block parts (cb' # txs))
     \<lparr>bk_header := (bk_header (template_block parts (cb' # txs)))\<lparr>hd_merkle_root := merkle\<rparr>\<rparr>"
  have txd: "bk_txdata blk = cb' # txs" by (simp add: blk_def)
  have "raw = serialize_block B blk" using raw by (simp add: blk_def)
  moreover have "check_merkle_root_internal B blk = Ok ()"
    using body [of blk "template_block parts (cb' # txs)"] mr
    by (simp add: check_merkle_root_internal_Ok txd) (simp add: blk_def)
  moreover have "check_witness_commitment_internal B blk \<noteq> Err WitnessCommitmentMissing"
  proof (cases "has_witness blk")
    case False
    then show ?thesis by (simp add: check_witness_commitment_internal_def txd)
  next
    case True
    have "extract_witness_commitment_from_coinbase cb \<noteq> None"
    proof
      assume none: "extract_witness_commitment_from_coinbase cb = None"
      then have "\<not> list_ex tx_has_witness txs" "\<not> tx_has_witness cb'"
        using wit same legacy [OF cb] by auto
      then show False using True by (simp add: has_witness_def txd)
    qed
    then show ?thesis
      using True extract_cong_output [OF out]
      by (auto simp: check_witness_commitment_internal_def Let_def txd split: option.splits if_splits)
  qed
  ultimately show ?thesis using len
    by (intro exI [of _ blk]) (simp add: txd, simp add: blk_def)
qed

lemma height_push_bound:
  assumes "decode_bip34_height (height_push n @ rest) = Some h" and "0 < n" and "n < 2 ^ 32"
  shows "n < 2 ^ 31"
proof (rule ccontr)
  assume "\<not> n < 2 ^ 31"
  then have n: "2 ^ 31 \<le> n" by simp
  let ?p = "script_num n"
  have props: "?p \<noteq> []" "unat (last ?p) < 128" "le_val ?p = n" using script_num_props [OF assms(2)] by auto
  have "length ?p \<le> 5"
    using length_le_min [of n 4] assms(3) by (auto simp: script_num_def Let_def)
  moreover have "\<not> length ?p \<le> 4"
  proof
    assume "length ?p \<le> 4"
    have p: "?p = butlast ?p @ [last ?p]" using props(1) by simp
    have "le_val (butlast ?p) < 256 ^ length (butlast ?p)" by (rule le_val_bound)
    moreover have "n = le_val (butlast ?p) + 256 ^ length (butlast ?p) * unat (last ?p)"
      using props(3) p le_val_append [of "butlast ?p" "[last ?p]"] by simp
    moreover have "256 ^ length (butlast ?p) * unat (last ?p) \<le> 256 ^ length (butlast ?p) * 127"
      using props(2) by (intro mult_le_mono2) simp
    moreover have "(256::nat) ^ length (butlast ?p) \<le> 256 ^ 3"
      using \<open>length ?p \<le> 4\<close> by (intro power_increasing) auto
    ultimately have "n < 128 * 256 ^ 3" by linarith
    then show False using n by simp
  qed
  ultimately have "length ?p = 5" by simp
  then show False using assms(1) by (simp add: height_push_def decode_bip34_height_def)
qed

lemma find_commitment_first:
  "find_commitment outs =
    map_option (\<lambda>s. take 32 (drop 6 s)) (first (filter is_commitment_script (map to_script_pubkey outs)))"
  by (induction outs) auto

section \<open>Properties\<close>

text \<open>A template the assembler serializes is consistent: the bytes are those of a block with
  the coinbase followed by exactly the given transactions, whose header commits to that body,
  and which never lacks the witness commitment its transactions call for. The merkle root is
  a function of the body alone, and a coinbase in legacy form carries no witness.\<close>

theorem assembled_template_consistent:
  assumes "\<And>b b'. bk_txdata b = bk_txdata b' \<Longrightarrow> block_merkle_root B b = block_merkle_root B b'"
    and "\<And>cb. deserialize_tx B (pt_coinbase_legacy parts) = Some cb \<Longrightarrow> \<not> tx_has_witness cb"
    and "assemble_template_block B parts = Ok raw"
  shows "\<exists>block. raw = serialize_block B block \<and>
    length (bk_txdata block) = Suc (length (pt_txs_raw parts)) \<and>
    hd_version (bk_header block) = pt_version parts \<and>
    hd_prev_blockhash (bk_header block) = pt_prev_hash parts \<and>
    check_merkle_root_internal B block = Ok () \<and>
    check_witness_commitment_internal B block \<noteq> Err WitnessCommitmentMissing"
  by (rule assembled_block_checks [OF assms])

definition ex_tx :: Transaction where
  "ex_tx = \<lparr>tx_version = 1, tx_lock_time = 0,
     tx_input = [\<lparr>ti_previous_output = \<lparr>op_txid = zero32, op_vout = - 1\<rparr>, ti_script_sig = [1, 5],
                  ti_sequence = 0, ti_witness = []\<rparr>],
     tx_output = [\<lparr>to_value = 50, to_script_pubkey = []\<rparr>]\<rparr>"

definition ex_api :: bitcoin_api where
  "ex_api = \<lparr>deserialize_block = (\<lambda>_. None), deserialize_tx = (\<lambda>raw. if raw = [] then None else Some ex_tx),
     serialize_block = (\<lambda>b. [of_nat (length (bk_txdata b))]), block_weight = (\<lambda>_. 4),
     tx_weight = (\<lambda>_. 1), block_merkle_root = (\<lambda>b. if bk_txdata b = [] then None else Some zero32),
     block_witness_root = (\<lambda>_. Some zero32), compute_txid = (\<lambda>_. zero32),
     count_sigops_legacy = (\<lambda>_. 1), outpoint_is_null = (\<lambda>p. op_vout p = - 1),
     sha256d_hash = (\<lambda>_. zero32)\<rparr>"

definition ex_parts :: TemplateBlockParts where
  "ex_parts = \<lparr>pt_version = 4, pt_prev_hash = zero32, pt_time = 1, pt_bits = 2,
     pt_coinbase_legacy = [1], pt_txs_raw = [[1], [2]]\<rparr>"

theorem assembled_template_consistent_witness:
  "\<exists>block. [3] = serialize_block ex_api block \<and> length (bk_txdata block) = 3 \<and>
     hd_version (bk_header block) = 4 \<and> check_merkle_root_internal ex_api block = Ok ()"
proof -
  have "assemble_template_block ex_api ex_parts = Ok [3]"
    by (simp add: assemble_template_block_def ex_api_def ex_parts_def ex_tx_def tx_has_witness_def
        extract_witness_commitment_from_coinbase_def is_commitment_script_def template_block_def)
  from assembled_template_consistent [OF _ _ this]
  show ?thesis by (auto simp: ex_api_def ex_parts_def ex_tx_def tx_has_witness_def numeral_eq_Suc)
qed

text \<open>The re-derived coinbase value is the exact sum of the coinbase outputs, in every case:
  undecodable bytes, a block without transactions and a sum beyond 64 bits are the three
  errors, and nothing wraps.\<close>

theorem coinbase_value_rederived:
  "re_derive_coinbase_value B raw =
    (case deserialize_block B raw of
       None \<Rightarrow> Err (DecodeFailed ''block_deserialize'')
     | Some block \<Rightarrow>
         (case bk_txdata block of
            [] \<Rightarrow> Err (DecodeFailed ''block_has_no_coinbase'')
          | cb # txs \<Rightarrow>
              if coinbase_total cb < 2 ^ 64 then Ok (of_nat (coinbase_total cb))
              else Err CoinbaseValueExceedsMax))"
proof (cases "deserialize_block B raw")
  case (Some block)
  then show ?thesis
    using re_derive_coinbase_value_eq [OF Some] by (cases "bk_txdata block") (simp_all add: re_derive_coinbase_value_def)
qed (simp add: re_derive_coinbase_value_def)

text \<open>Height decoding inverts the canonical height push and accepts nothing else: a script
  decodes to a nonzero height exactly when it starts with the minimal script-number push of
  that height, and the height is below \<open>2 ^ 31\<close>.\<close>

theorem bip34_height_exact:
  "decode_bip34_height script = Some h \<and> h \<noteq> 0 \<longleftrightarrow>
    0 < unat h \<and> unat h < 2 ^ 31 \<and> (\<exists>rest. script = height_push (unat h) @ rest)"
proof
  assume dec: "decode_bip34_height script = Some h \<and> h \<noteq> 0"
  then obtain rest where s: "script = height_push (unat h) @ rest"
    using decode_height_canonical by blast
  have "0 < unat h" using dec by (simp add: unat_gt_0)
  moreover have "unat h < 2 ^ LENGTH(32)" by (rule unsigned_less)
  ultimately show "0 < unat h \<and> unat h < 2 ^ 31 \<and> (\<exists>rest. script = height_push (unat h) @ rest)"
    using height_push_bound [of "unat h" rest h] dec s by auto
next
  assume "0 < unat h \<and> unat h < 2 ^ 31 \<and> (\<exists>rest. script = height_push (unat h) @ rest)"
  then show "decode_bip34_height script = Some h \<and> h \<noteq> 0"
    using decode_height_push [of "unat h"] by (auto simp: unat_gt_0)
qed

text \<open>The witness commitment is taken from the last matching output: among the coinbase's
  output scripts of the BIP-141 form, bytes 6 to 38 of the last one, and none when no output
  matches.\<close>

theorem commitment_is_last_match:
  "extract_witness_commitment_from_coinbase cb =
    (let scripts = filter is_commitment_script (map to_script_pubkey (tx_output cb)) in
     if scripts = [] then None else Some (take 32 (drop 6 (last scripts))))"
proof -
  have "first (rev xs) = (if xs = [] then None else Some (last xs))" for xs :: "bytes list"
    by (cases xs rule: rev_cases) simp_all
  moreover have "filter is_commitment_script (map to_script_pubkey (rev (tx_output cb))) =
      rev (filter is_commitment_script (map to_script_pubkey (tx_output cb)))"
    by (simp add: rev_map rev_filter)
  ultimately show ?thesis
    by (simp add: extract_witness_commitment_from_coinbase_def find_commitment_first Let_def)
qed

text \<open>Once both prevout checks pass, the transactions spending the null outpoint are exactly
  the coinbase: position 0 and no other.\<close>

theorem null_prevout_only_in_coinbase:
  assumes "check_coinbase_null_prevout B block = Ok ()"
    and "check_non_coinbase_null_prevout B block = Ok ()"
    and "k < length (bk_txdata block)"
  shows "tx_null_inputs B (bk_txdata block ! k) \<longleftrightarrow> k = 0"
  by (rule only_the_coinbase_has_null_prevout [OF assms])

theorem null_prevout_only_in_coinbase_witness:
  "tx_null_inputs ex_api ([ex_tx, ex_tx\<lparr>tx_input := []\<rparr>] ! 0)"
  using null_prevout_only_in_coinbase
    [of ex_api "\<lparr>bk_header = undefined, bk_txdata = [ex_tx, ex_tx\<lparr>tx_input := []\<rparr>]\<rparr>" 0]
  by (simp add: check_coinbase_null_prevout_def check_non_coinbase_null_prevout_def ex_api_def ex_tx_def)

text \<open>The coinbase value cap is exact: the check passes exactly for a block with a coinbase
  whose outputs total at most 21 million bitcoin, whatever the individual outputs are.\<close>

theorem coinbase_value_cap_exact:
  "check_coinbase_value_max block = Ok () \<longleftrightarrow>
    (\<exists>cb txs. bk_txdata block = cb # txs \<and> coinbase_total cb \<le> 21000000 * 100000000)"
  using check_coinbase_value_max_Ok [of block] by simp

text \<open>The sigop counts are the true legacy counts, saturating at 32 bits, of the whole block,
  its coinbase and the rest; and the limit check passes exactly when four times the true
  count is within the 80,000 budget.\<close>

theorem sigop_counts_exact:
  "unat (total_sigops B block) = min (sum_list (map (tx_sigops B) (bk_txdata block))) (2 ^ 32 - 1) \<and>
   unat (coinbase_sigops B block) = min (sum_list (map (tx_sigops B) (take 1 (bk_txdata block)))) (2 ^ 32 - 1) \<and>
   unat (non_coinbase_sigops B block) = min (sum_list (map (tx_sigops B) (drop 1 (bk_txdata block)))) (2 ^ 32 - 1) \<and>
   (check_sigops_max B block = Ok () \<longleftrightarrow> 4 * sum_list (map (tx_sigops B) (bk_txdata block)) \<le> 80000)"
  unfolding total_sigops_def coinbase_sigops_def non_coinbase_sigops_def
  by (intro conjI unat_sum_legacy_sigops check_sigops_max_Ok)

end
