(* ===== verification/RG_Mempool.thy ===== *)
theory RG_Mempool
  imports RG_Protocol
begin

text \<open>
  The verifier's mempool view, \<open>services/pool-verifier/src/mempool_view.rs\<close>, with the
  tolerance rule of \<open>second_chance.rs\<close> that both the first Class M pass and the
  second-chance recompute call. The view is a record, its refresh loop an \<open>inductive\<close> step
  relation over polling results; the clock reading is an argument. The interface locale
  \<open>tolerance_rule\<close> states what the two clients rely on.
\<close>

section \<open>The tolerance rule (second\_chance.rs)\<close>

definition exceeds_tolerance :: "u32 \<Rightarrow> u32 \<Rightarrow> f64 \<Rightarrow> bool" where
  "exceeds_tolerance unknown_count tot tolerance_pct =
     (if tot = 0 then False
      else let ratio_pct = f64_mul (f64_div (f64_of_nat (unat unknown_count)) (f64_of_nat (unat tot))) (F64 100)
           in f64_gt ratio_pct tolerance_pct)"

section \<open>The view\<close>

datatype MempoolState = View_Fresh | View_Stale | View_Degraded | View_Unprimed

definition MIN_INSTALLABLE_MEMPOOL_SIZE :: nat where
  "MIN_INSTALLABLE_MEMPOOL_SIZE = 1"

record MempoolSnapshot =
  sn_state :: MempoolState
  sn_txids :: "hash32 set"
  sn_age_secs :: u64
  sn_size :: nat

record MempoolView =
  mv_txids :: "hash32 set"
  mv_last_refresh_unix_ms :: "u64 option"
  mv_max_stale_secs :: u64
  mv_primed :: bool
  mv_empty_responses :: u64

definition mempool_view_new :: "u64 \<Rightarrow> MempoolView" where
  "mempool_view_new max_stale =
     \<lparr>mv_txids = {}, mv_last_refresh_unix_ms = None, mv_max_stale_secs = max_stale,
      mv_primed = False, mv_empty_responses = 0\<rparr>"

definition snapshot :: "MempoolView \<Rightarrow> u64 \<Rightarrow> MempoolSnapshot" where
  "snapshot v now_ms =
     (let (state, age) =
        (case mv_last_refresh_unix_ms v of
           Some refreshed \<Rightarrow>
             if mv_primed v then
               (let age_secs = sat_sub now_ms refreshed div 1000 in
                if sat_mul (mv_max_stale_secs v) 2 < age_secs then (View_Degraded, age_secs)
                else if mv_max_stale_secs v < age_secs then (View_Stale, age_secs)
                else (View_Fresh, age_secs))
             else (View_Unprimed, 0)
         | None \<Rightarrow> (View_Unprimed, 0))
      in \<lparr>sn_state = state, sn_txids = mv_txids v, sn_age_secs = age, sn_size = card (mv_txids v)\<rparr>)"

definition install_at :: "MempoolView \<Rightarrow> hash32 set \<Rightarrow> u64 \<Rightarrow> bool \<times> MempoolView" where
  "install_at v txids now_ms =
     (if card txids < MIN_INSTALLABLE_MEMPOOL_SIZE
      then (False, v\<lparr>mv_empty_responses := mv_empty_responses v + 1\<rparr>)
      else (True, v\<lparr>mv_txids := txids, mv_last_refresh_unix_ms := Some now_ms, mv_primed := True\<rparr>))"

text \<open>One turn of the polling loop: a \<open>getrawmempool\<close> answer, or an error that changes nothing.\<close>

definition poll_once :: "MempoolView \<Rightarrow> string + hash32 list \<Rightarrow> u64 \<Rightarrow> MempoolView" where
  "poll_once v answer now_ms =
     (case answer of
        Inr txids \<Rightarrow> snd (install_at v (set txids) now_ms)
      | Inl e \<Rightarrow> v)"

inductive view_reachable :: "u64 \<Rightarrow> MempoolView \<Rightarrow> bool" for max_stale where
  boot: "view_reachable max_stale (mempool_view_new max_stale)"
| poll: "view_reachable max_stale v \<Longrightarrow> view_reachable max_stale (poll_once v answer now_ms)"

section \<open>The Class M check\<close>

datatype MempoolCheckOutcome =
    Check_Agreed u32 u32
  | Check_ToleranceExceeded "hash32 list" u32
  | Check_Stale u64
  | Check_Skipped

definition SAMPLE_UNKNOWN_CAP :: nat where
  "SAMPLE_UNKNOWN_CAP = 10"

fun collect_unknown :: "hash32 set \<Rightarrow> hash32 list \<Rightarrow> hash32 list" where
  "collect_unknown known [] = []"
| "collect_unknown known (t # ts) =
     (if t \<notin> known then t # collect_unknown known ts else collect_unknown known ts)"

definition mempool_evaluate :: "MempoolSnapshot \<Rightarrow> hash32 list \<Rightarrow> f64 \<Rightarrow> MempoolCheckOutcome" where
  "mempool_evaluate snap template_txids tolerance_pct =
     (if sn_state snap = View_Degraded \<or> sn_state snap = View_Unprimed then Check_Skipped
      else let tot = clamp_nat (length template_txids) in
        if tot = 0 then
          (if sn_state snap = View_Stale then Check_Stale (sn_age_secs snap) else Check_Agreed 0 0)
        else let unknown = collect_unknown (sn_txids snap) template_txids;
                 unknown_count = clamp_nat (length unknown) in
          if exceeds_tolerance unknown_count tot tolerance_pct
          then Check_ToleranceExceeded unknown tot
          else if sn_state snap = View_Stale then Check_Stale (sn_age_secs snap)
          else Check_Agreed unknown_count tot)"

section \<open>What the two clients of the tolerance rule rely on\<close>

locale tolerance_rule =
  fixes exceeds :: "u32 \<Rightarrow> u32 \<Rightarrow> f64 \<Rightarrow> bool"
  assumes none_of_none: "\<not> exceeds u 0 t"
    and more_unknown: "u \<le> v \<Longrightarrow> exceeds u n t \<Longrightarrow> exceeds v n t"
begin

text \<open>
  A count that only shrinks can withdraw a rejection and never create one: if every
  transaction still counted by a second pass was counted by the first, exceeding after the
  second pass means having exceeded in the first.
\<close>

lemma recount_never_creates:
  assumes "\<And>x. x \<in> set xs \<Longrightarrow> P x \<Longrightarrow> Q x"
    and "exceeds (clamp_nat (length (filter P xs))) n t"
  shows "exceeds (clamp_nat (length (filter Q xs))) n t"
proof (rule more_unknown [OF _ assms(2)])
  have "length (filter P xs) \<le> length (filter Q xs)"
    using assms(1) by (induction xs) (auto simp: le_SucI)
  then show "(clamp_nat (length (filter P xs)) :: u32) \<le> clamp_nat (length (filter Q xs))"
    by (simp add: word_le_nat_alt unat_clamp_nat)
qed

end

lemma ratio_pct_finite:
  assumes n: "n < 2 ^ 32" and m: "0 < m" "m < 2 ^ 32"
  shows "f64_mul (f64_div (f64_of_nat n) (f64_of_nat m)) (F64 100)
      = F64 (rnd (rnd (of_nat n / of_nat m) * 100))"
proof -
  let ?x = "of_nat n / of_nat m :: rat"
  have "n \<le> n * m" using m(1) by simp
  then have "(of_nat n :: rat) \<le> of_nat n * of_nat m" by (metis of_nat_le_iff of_nat_mult)
  then have "?x \<le> of_nat n" using m(1) by (simp add: divide_le_eq)
  moreover have "(of_nat n :: rat) \<le> 2 ^ 32"
    using n by (metis less_imp_le of_nat_less_iff of_nat_numeral of_nat_power)
  ultimately have x: "0 \<le> ?x" "?x \<le> 2 ^ 32" by (simp, linarith)
  have r: "0 \<le> rnd ?x" "rnd ?x \<le> 2 ^ 32"
    using rnd_nonneg [OF x(1)] rnd_below_pow2 [of ?x 32] x by (simp_all add: pow2_nat [of 32, simplified])
  have big: "(2::rat) ^ 32 * 100 \<le> 2 ^ 1023"
  proof -
    have "(2::rat) ^ 32 * 100 \<le> 2 ^ 40" by simp
    also have "\<dots> \<le> 2 ^ 1023" by (rule power_increasing) auto
    finally show ?thesis .
  qed
  have fx: "f64_round ?x = F64 (rnd ?x)"
    using x big by (intro f64_round_finite) linarith+
  have "rnd ?x * 100 \<le> 2 ^ 32 * 100" using r(2) by (rule mult_right_mono) simp
  then have fr: "f64_round (rnd ?x * 100) = F64 (rnd (rnd ?x * 100))"
    using r(1) big by (intro f64_round_finite) linarith+
  have ex: "f64_of_nat n = F64 (of_nat n)" "f64_of_nat m = F64 (of_nat m)"
    using n m by (simp_all add: f64_of_nat_exact)
  show ?thesis using m(1) fx fr by (simp add: ex)
qed

lemma exceeds_tolerance_iff:
  "exceeds_tolerance u tot t \<longleftrightarrow>
    0 < unat tot \<and> f64_gt (F64 (rnd (rnd (of_nat (unat u) / of_nat (unat tot)) * 100))) t"
proof -
  have "unat u < 2 ^ 32" "unat tot < 2 ^ 32"
    using unsigned_less [of u] unsigned_less [of tot] by simp_all
  then show ?thesis
    by (cases "tot = 0") (simp_all only: exceeds_tolerance_def ratio_pct_finite Let_def if_True if_False
        unat_gt_0 simp_thms unat_0 not_less_zero)
qed

lemma exceeds_tolerance_mono:
  assumes "u \<le> v" and "exceeds_tolerance u tot t"
  shows "exceeds_tolerance v tot t"
proof -
  have uv: "unat u \<le> unat v" using assms(1) by (simp add: word_le_nat_alt)
  have mono: "rnd (rnd (of_nat a / of_nat m) * 100) \<le> rnd (rnd (of_nat b / of_nat m) * 100)"
    if "a \<le> b" for a b m :: nat
  proof (rule rnd_mono)
    show "0 \<le> rnd (of_nat a / of_nat m) * 100" by (simp add: rnd_nonneg)
    have "(of_nat a / of_nat m :: rat) \<le> of_nat b / of_nat m"
      using that by (intro divide_right_mono) auto
    then show "rnd (of_nat a / of_nat m) * 100 \<le> rnd (of_nat b / of_nat m) * 100"
      by (intro mult_right_mono rnd_mono) auto
  qed
  show ?thesis
    using assms(2) mono [OF uv, of "unat tot"]
    unfolding exceeds_tolerance_iff by (meson f64_gt_mono f64_le.simps(1))
qed

interpretation class_m: tolerance_rule exceeds_tolerance
  by unfold_locales (simp add: exceeds_tolerance_def, rule exceeds_tolerance_mono)

section \<open>Reachable views\<close>

definition view_inv :: "u64 \<Rightarrow> MempoolView \<Rightarrow> bool" where
  "view_inv max_stale v \<longleftrightarrow>
     mv_max_stale_secs v = max_stale \<and>
     (mv_primed v \<longleftrightarrow> mv_last_refresh_unix_ms v \<noteq> None) \<and>
     (mv_primed v \<longleftrightarrow> mv_txids v \<noteq> {}) \<and> finite (mv_txids v)"

lemma install_at_refused:
  "card txids = 0 \<Longrightarrow> install_at v txids now = (False, v\<lparr>mv_empty_responses := mv_empty_responses v + 1\<rparr>)"
  by (simp add: install_at_def MIN_INSTALLABLE_MEMPOOL_SIZE_def)

lemma install_at_installed:
  "card txids \<noteq> 0 \<Longrightarrow> install_at v txids now =
     (True, v\<lparr>mv_txids := txids, mv_last_refresh_unix_ms := Some now, mv_primed := True\<rparr>)"
  by (simp add: install_at_def MIN_INSTALLABLE_MEMPOOL_SIZE_def)

lemma poll_once_inv: "view_inv m v \<Longrightarrow> view_inv m (poll_once v answer now)"
  by (cases answer)
    (auto simp: poll_once_def view_inv_def install_at_def MIN_INSTALLABLE_MEMPOOL_SIZE_def)

lemma view_reachable_inv: "view_reachable m v \<Longrightarrow> view_inv m v"
proof (induction rule: view_reachable.induct)
  case boot
  show ?case by (simp add: view_inv_def mempool_view_new_def)
next
  case (poll v answer now_ms)
  then show ?case by (simp add: poll_once_inv)
qed

lemma snapshot_txids [simp]: "sn_txids (snapshot v now) = mv_txids v"
  by (simp add: snapshot_def Let_def split: prod.splits)

lemma snapshot_state_served:
  assumes "view_reachable m v"
  shows "sn_state (snapshot v now) \<noteq> View_Unprimed \<longleftrightarrow> mv_txids v \<noteq> {}"
  using view_reachable_inv [OF assms]
  by (auto simp: snapshot_def view_inv_def Let_def split: option.splits if_splits)

lemma snapshot_age_bands:
  assumes "mv_primed v" and "mv_last_refresh_unix_ms v = Some refreshed"
    and "2 * unat (mv_max_stale_secs v) < 2 ^ 64"
  shows "sn_state (snapshot v now) =
    (let age = (unat now - unat refreshed) div 1000 in
     if 2 * unat (mv_max_stale_secs v) < age then View_Degraded
     else if unat (mv_max_stale_secs v) < age then View_Stale else View_Fresh)"
proof -
  have "unat (sat_sub now refreshed div 1000) = (unat now - unat refreshed) div 1000"
    by (simp add: unat_div unat_sat_sub)
  moreover have "unat (sat_mul (mv_max_stale_secs v) 2) = 2 * unat (mv_max_stale_secs v)"
    using assms(3) by (simp add: unat_sat_mul)
  ultimately show ?thesis
    using assms(1,2) by (auto simp: snapshot_def Let_def word_less_nat_alt)
qed

section \<open>The check\<close>

lemma collect_unknown_filter: "collect_unknown known ts = filter (\<lambda>t. t \<notin> known) ts"
  by (induction ts) auto

lemma mempool_evaluate_ToleranceExceeded:
  assumes "mempool_evaluate snap ts tol = Check_ToleranceExceeded unknown tot"
  shows "sn_state snap = View_Fresh \<or> sn_state snap = View_Stale"
    and "unknown = filter (\<lambda>t. t \<notin> sn_txids snap) ts"
    and "tot = clamp_nat (length ts)"
    and "exceeds_tolerance (clamp_nat (length unknown)) tot tol"
  using assms
  by (cases "sn_state snap"; auto simp: mempool_evaluate_def Let_def collect_unknown_filter split: if_splits)+

lemma mempool_evaluate_Skipped_iff:
  "mempool_evaluate snap ts tol = Check_Skipped \<longleftrightarrow>
    sn_state snap = View_Degraded \<or> sn_state snap = View_Unprimed"
  by (auto simp: mempool_evaluate_def Let_def)

lemma exceeds_tolerance_zero: "0 \<le> t \<Longrightarrow> \<not> exceeds_tolerance 0 tot (F64 t)"
  by (simp add: exceeds_tolerance_iff rnd_def f64_gt_def)

lemma mempool_evaluate_all_known:
  assumes "set ts \<subseteq> sn_txids snap" and "0 \<le> t"
  shows "mempool_evaluate snap ts (F64 t) \<noteq> Check_ToleranceExceeded unknown tot"
proof
  assume r: "mempool_evaluate snap ts (F64 t) = Check_ToleranceExceeded unknown tot"
  have "unknown = []" using mempool_evaluate_ToleranceExceeded(2) [OF r] assms(1) by (auto simp: filter_empty_conv)
  then show False
    using mempool_evaluate_ToleranceExceeded(4) [OF r] exceeds_tolerance_zero [OF assms(2)]
    by (simp add: clamp_nat_def)
qed

lemma exceeds_one_of_one: "t < 100 \<Longrightarrow> exceeds_tolerance 1 1 (F64 t)"
  using rnd_exact_nat [of 1] rnd_exact_nat [of 100] by (simp add: exceeds_tolerance_iff f64_gt_def)

section \<open>Properties\<close>


text \<open>Through any sequence of polls, answered, failed or empty, a view is served (fresh, stale
  or degraded) exactly when it holds transactions: an empty mempool answer never replaces a
  view and never primes one.\<close>

theorem served_view_nonempty:
  "view_reachable max_stale v \<Longrightarrow>
    sn_state (snapshot v now) \<noteq> View_Unprimed \<longleftrightarrow> sn_txids (snapshot v now) \<noteq> {}"
  by (simp add: snapshot_state_served)

theorem served_view_nonempty_witness:
  "sn_state (snapshot (poll_once (poll_once (mempool_view_new 30) (Inr [[1]]) 5000) (Inr []) 9000) 10000)
     \<noteq> View_Unprimed"
proof -
  have "view_reachable 30 (poll_once (poll_once (mempool_view_new 30) (Inr [[1]]) 5000) (Inr []) 9000)"
    by (intro view_reachable.intros)
  from served_view_nonempty [OF this, of 10000] show ?thesis
    by (simp add: poll_once_def install_at_def MIN_INSTALLABLE_MEMPOOL_SIZE_def mempool_view_new_def)
qed

text \<open>The bands of a primed view's age: fresh up to the limit, stale up to twice the limit,
  degraded after, in whole seconds and without wrapping, a clock that runs backwards counting
  as age zero.\<close>

theorem view_age_bands:
  assumes "mv_primed v" and "mv_last_refresh_unix_ms v = Some refreshed"
    and "2 * unat (mv_max_stale_secs v) < 2 ^ 64"
  shows "sn_state (snapshot v now) =
    (let age = (unat now - unat refreshed) div 1000 in
     if 2 * unat (mv_max_stale_secs v) < age then View_Degraded
     else if unat (mv_max_stale_secs v) < age then View_Stale else View_Fresh)"
  by (rule snapshot_age_bands [OF assms])

theorem view_age_bands_witness:
  "sn_state (snapshot (poll_once (mempool_view_new 30) (Inr [[1]]) 5000) 45000) = View_Stale"
  using view_age_bands [of "poll_once (mempool_view_new 30) (Inr [[1]]) 5000" 5000 45000]
  by (simp add: poll_once_def install_at_def MIN_INSTALLABLE_MEMPOOL_SIZE_def mempool_view_new_def)

end
