(* ===== verification/RG_Policy.thy ===== *)
theory RG_Policy
  imports RG_Consensus RG_Mempool "HOL-Library.Sublist"
begin

text \<open>
  The policy engine and the Invariant Shield, \<open>services/pool-verifier/src/policy.rs\<close>: the
  policy records with their defaults and validation, the credential gate, the three policy
  stages, the twenty invariants of the shield with the Class M section, and
  \<open>evaluate_dynamic_inner\<close> that composes them. An early return of the shield is an error of
  the sum type, so the order of the checks is the order of the \<open>and_then\<close> chain.
\<close>

section \<open>Policy data\<close>

definition MAX_BLOCK_WEIGHT :: u64 where
  "MAX_BLOCK_WEIGHT = 4000000"

definition MAX_BLOCK_SIGOPS :: u32 where
  "MAX_BLOCK_SIGOPS = 80000"

datatype FeeTier = Tier_Low | Tier_Mid | Tier_High

fun fee_tier_as_str :: "FeeTier \<Rightarrow> string" where
  "fee_tier_as_str Tier_Low = ''low''"
| "fee_tier_as_str Tier_Mid = ''mid''"
| "fee_tier_as_str Tier_High = ''high''"

record SafetyWarning =
  sw_reason :: VerdictReason
  sw_detail :: string

datatype ShieldOutcome = SO_Skipped | SO_Agreed | SO_Rejected VerdictReason string

datatype Phase2Attribution =
    P2_NotRun
  | P2_Agreed
  | P2_Stale
  | P2_SkippedDegraded
  | P2_SkippedUnprimed
  | P2_Rejected (p2_unknown: "hash32 list") (p2_total: u32)

record EvalResult =
  er_reason :: "VerdictReason option"
  er_detail :: "string option"
  er_fee_tier :: FeeTier
  er_min_avg_fee_used :: u64
  er_warnings :: "SafetyWarning list"
  er_shield_skipped :: bool
  er_phase2 :: Phase2Attribution

definition default_max_weight_ratio :: f64 where
  "default_max_weight_ratio = f64_round (999 / 1000)"

definition default_warn_sigops_ratio :: f64 where
  "default_warn_sigops_ratio = f64_round (95 / 100)"

definition default_warn_coinbase_sigops_max :: u32 where
  "default_warn_coinbase_sigops_max = 400"

record PolicySafety =
  ps_max_weight_ratio :: f64
  ps_enforce_weight_ratio :: bool
  ps_max_template_age_ms :: "u64 option"
  ps_enforce_template_age :: bool
  ps_warn_sigops_ratio :: f64
  ps_warn_coinbase_sigops_max :: u32

definition policy_safety_default :: PolicySafety where
  "policy_safety_default =
     \<lparr>ps_max_weight_ratio = default_max_weight_ratio, ps_enforce_weight_ratio = False,
      ps_max_template_age_ms = None, ps_enforce_template_age = False,
      ps_warn_sigops_ratio = default_warn_sigops_ratio,
      ps_warn_coinbase_sigops_max = default_warn_coinbase_sigops_max\<rparr>"

definition default_mempool_tolerance_pct :: f64 where
  "default_mempool_tolerance_pct = F64 4"

definition default_mempool_poll_interval_secs :: u64 where
  "default_mempool_poll_interval_secs = 10"

definition default_mempool_max_stale_secs :: u64 where
  "default_mempool_max_stale_secs = 60"

record PolicyMempool =
  pm_enforce :: bool
  pm_tolerance_pct :: f64
  pm_poll_interval_secs :: u64
  pm_max_stale_secs :: u64
  pm_per_tx_detail :: bool
  pm_rpc_url :: string
  pm_rpc_user :: string
  pm_rpc_pass :: string

definition policy_mempool_default :: PolicyMempool where
  "policy_mempool_default =
     \<lparr>pm_enforce = False, pm_tolerance_pct = default_mempool_tolerance_pct,
      pm_poll_interval_secs = default_mempool_poll_interval_secs,
      pm_max_stale_secs = default_mempool_max_stale_secs,
      pm_per_tx_detail = False, pm_rpc_url = [], pm_rpc_user = [], pm_rpc_pass = []\<rparr>"

record PolicyConfig =
  cfg_protocol_version :: u16
  cfg_required_prevhash_len :: nat
  cfg_min_total_fees :: u64
  cfg_max_tx_count :: u32
  cfg_low_mempool_tx :: u64
  cfg_high_mempool_tx :: u64
  cfg_min_avg_fee_lo :: u64
  cfg_min_avg_fee_mid :: u64
  cfg_min_avg_fee_hi :: u64
  cfg_reject_empty_templates :: bool
  cfg_reject_coinbase_zero :: bool
  cfg_unknown_mempool_as_high :: bool
  cfg_safety :: PolicySafety
  cfg_mempool :: PolicyMempool

definition default_with_protocol :: "u16 \<Rightarrow> PolicyConfig" where
  "default_with_protocol protocol_version =
     \<lparr>cfg_protocol_version = protocol_version, cfg_required_prevhash_len = 64,
      cfg_min_total_fees = 0, cfg_max_tx_count = 10000,
      cfg_low_mempool_tx = 50, cfg_high_mempool_tx = 500,
      cfg_min_avg_fee_lo = 0, cfg_min_avg_fee_mid = 500, cfg_min_avg_fee_hi = 2000,
      cfg_reject_empty_templates = True, cfg_reject_coinbase_zero = False,
      cfg_unknown_mempool_as_high = True,
      cfg_safety = policy_safety_default, cfg_mempool = policy_mempool_default\<rparr>"

section \<open>The credential gate\<close>

definition PLACEHOLDER_MARKERS :: "string list" where
  "PLACEHOLDER_MARKERS =
     [''TODO'', ''CHANGEME'', ''CHANGE_ME'', ''REPLACE_ME'', ''REPLACEME'', ''PLACEHOLDER'', ''FIXME'']"

definition ascii_upper :: "char \<Rightarrow> char" where
  "ascii_upper c = (let n = of_char c :: nat in if 97 \<le> n \<and> n \<le> 122 then char_of (n - 32) else c)"

definition to_ascii_uppercase :: "string \<Rightarrow> string" where
  "to_ascii_uppercase s = map ascii_upper s"

definition is_placeholder_value :: "string \<Rightarrow> bool" where
  "is_placeholder_value s =
     (let trimmed = trim s in
      if trimmed = [] then True
      else if prefix ''<'' trimmed then True
      else list_ex (\<lambda>marker. sublist marker (to_ascii_uppercase trimmed)) PLACEHOLDER_MARKERS)"

datatype CredentialError =
    Cred_UrlPlaceholder string
  | Cred_UrlNotHttp string
  | Cred_UserPlaceholder string
  | Cred_PassEmpty

definition require_usable_credentials :: "PolicyMempool \<Rightarrow> string \<Rightarrow> CredentialError + unit" where
  "require_usable_credentials pm resolved_rpc_pass =
     (if is_placeholder_value (pm_rpc_url pm) then Err (Cred_UrlPlaceholder (pm_rpc_url pm))
      else if \<not> (prefix ''http://'' (pm_rpc_url pm) \<or> prefix ''https://'' (pm_rpc_url pm))
        then Err (Cred_UrlNotHttp (pm_rpc_url pm))
      else if is_placeholder_value (pm_rpc_user pm) then Err (Cred_UserPlaceholder (pm_rpc_user pm))
      else if trim resolved_rpc_pass = [] then Err Cred_PassEmpty
      else Ok ())"

section \<open>Validation\<close>

datatype PolicyError =
    Pol_ProtocolVersion u16 u16
  | Pol_PrevhashLen
  | Pol_MaxTxCount
  | Pol_MempoolTiers u64 u64
  | Pol_FeeLoMid u64 u64
  | Pol_FeeMidHi u64 u64
  | Pol_MaxWeightRatio f64
  | Pol_WarnSigopsRatio f64

definition unit_ratio :: "f64 \<Rightarrow> bool" where
  "unit_ratio x \<longleftrightarrow> f64_is_finite x \<and> f64_gt x (F64 0) \<and> f64_le x (F64 1)"

definition validate :: "PolicyConfig \<Rightarrow> PolicyError + unit" where
  "validate cfg =
     (if cfg_protocol_version cfg \<noteq> PROTOCOL_VERSION
        then Err (Pol_ProtocolVersion (cfg_protocol_version cfg) PROTOCOL_VERSION)
      else if cfg_required_prevhash_len cfg = 0 then Err Pol_PrevhashLen
      else if cfg_max_tx_count cfg = 0 then Err Pol_MaxTxCount
      else if cfg_high_mempool_tx cfg < cfg_low_mempool_tx cfg
        then Err (Pol_MempoolTiers (cfg_low_mempool_tx cfg) (cfg_high_mempool_tx cfg))
      else if cfg_min_avg_fee_mid cfg < cfg_min_avg_fee_lo cfg
        then Err (Pol_FeeLoMid (cfg_min_avg_fee_lo cfg) (cfg_min_avg_fee_mid cfg))
      else if cfg_min_avg_fee_hi cfg < cfg_min_avg_fee_mid cfg
        then Err (Pol_FeeMidHi (cfg_min_avg_fee_mid cfg) (cfg_min_avg_fee_hi cfg))
      else if \<not> unit_ratio (ps_max_weight_ratio (cfg_safety cfg))
        then Err (Pol_MaxWeightRatio (ps_max_weight_ratio (cfg_safety cfg)))
      else if \<not> unit_ratio (ps_warn_sigops_ratio (cfg_safety cfg))
        then Err (Pol_WarnSigopsRatio (ps_warn_sigops_ratio (cfg_safety cfg)))
      else Ok ())"

definition effective_min_avg_fee_dynamic :: "PolicyConfig \<Rightarrow> u64 option \<Rightarrow> u64 \<times> FeeTier" where
  "effective_min_avg_fee_dynamic cfg mempool_tx =
     (case mempool_tx of
        Some tx \<Rightarrow>
          if tx < cfg_low_mempool_tx cfg then (cfg_min_avg_fee_lo cfg, Tier_Low)
          else if tx < cfg_high_mempool_tx cfg then (cfg_min_avg_fee_mid cfg, Tier_Mid)
          else (cfg_min_avg_fee_hi cfg, Tier_High)
      | None \<Rightarrow>
          if cfg_unknown_mempool_as_high cfg then (cfg_min_avg_fee_hi cfg, Tier_High)
          else (cfg_min_avg_fee_mid cfg, Tier_Mid))"

section \<open>The policy stages\<close>

text \<open>The \<open>EvalResult\<close> literal every early rejection builds.\<close>

definition early_reject ::
    "VerdictReason \<Rightarrow> string \<Rightarrow> FeeTier \<Rightarrow> u64 \<Rightarrow> SafetyWarning list \<Rightarrow> EvalResult" where
  "early_reject reason detail fee_tier min_avg_fee_used warnings =
     \<lparr>er_reason = Some reason, er_detail = Some detail, er_fee_tier = fee_tier,
      er_min_avg_fee_used = min_avg_fee_used, er_warnings = warnings,
      er_shield_skipped = False, er_phase2 = P2_NotRun\<rparr>"

definition is_hex_digit :: "char \<Rightarrow> bool" where
  "is_hex_digit c =
     (let n = of_char c :: nat
      in (48 \<le> n \<and> n \<le> 57) \<or> (97 \<le> n \<and> n \<le> 102) \<or> (65 \<le> n \<and> n \<le> 70))"

definition is_hex :: "string \<Rightarrow> bool" where
  "is_hex s = list_all is_hex_digit s"

definition check_basic_validity ::
    "TemplatePropose \<Rightarrow> PolicyConfig \<Rightarrow> FeeTier \<Rightarrow> u64 \<Rightarrow> EvalResult option" where
  "check_basic_validity t cfg fee_tier min_avg_fee_used =
     (if tp_version t \<noteq> cfg_protocol_version cfg then
        Some (early_reject ProtocolVersionMismatch
          (''protocol_version got='' @ show_word (tp_version t) @ '' expected='' @
             show_word (cfg_protocol_version cfg)) fee_tier min_avg_fee_used [])
      else if length (tp_prev_hash t) \<noteq> cfg_required_prevhash_len cfg then
        Some (early_reject PrevHashLenMismatch
          (''prev_hash len='' @ show_nat (length (tp_prev_hash t)) @ '' expected='' @
             show_nat (cfg_required_prevhash_len cfg)) fee_tier min_avg_fee_used [])
      else if \<not> is_hex (tp_prev_hash t) then
        Some (early_reject InvalidPrevHash ''prev_hash contains non-hex characters''
          fee_tier min_avg_fee_used [])
      else None)"

definition check_template_constraints ::
    "TemplatePropose \<Rightarrow> PolicyConfig \<Rightarrow> FeeTier \<Rightarrow> u64 \<Rightarrow> EvalResult option" where
  "check_template_constraints t cfg fee_tier min_avg_fee_used =
     (if cfg_reject_empty_templates cfg \<and> tp_tx_count t = 0 then
        Some (early_reject EmptyTemplateRejected ''empty template rejected by policy''
          fee_tier min_avg_fee_used [])
      else if cfg_reject_coinbase_zero cfg \<and> tp_coinbase_value t = 0 \<and> 0 < tp_tx_count t then
        Some (early_reject CoinbaseValueZeroRejected ''coinbase_value=0 rejected by policy''
          fee_tier min_avg_fee_used [])
      else if cfg_max_tx_count cfg < tp_tx_count t then
        Some (early_reject TxCountExceeded
          (''tx_count='' @ show_word (tp_tx_count t) @ '' > max_tx_count='' @
             show_word (cfg_max_tx_count cfg)) fee_tier min_avg_fee_used [])
      else if tp_total_fees t < cfg_min_total_fees cfg then
        Some (early_reject TotalFeesBelowMinimum
          (''total_fees='' @ show_word (tp_total_fees t) @ '' < min_total_fees='' @
             show_word (cfg_min_total_fees cfg)) fee_tier min_avg_fee_used [])
      else if 0 < min_avg_fee_used \<and> 0 < tp_tx_count t then
        (let avg = tp_total_fees t div ucast (tp_tx_count t) in
         if avg < min_avg_fee_used then
           Some (early_reject AvgFeeBelowMinimum
             (''avg_fee='' @ show_word avg @ '' < min_avg_fee_used='' @ show_word min_avg_fee_used)
             fee_tier min_avg_fee_used [])
         else None)
      else None)"

text \<open>
  The four safety checks in turn. Each takes the warnings so far and either returns early or
  goes on with the warnings it leaves; \<open>warnings: &mut Vec\<close> is the second component.
\<close>

definition effective_weight :: "TemplatePropose \<Rightarrow> u64 option" where
  "effective_weight t =
     (case tp_template_weight t of Some w \<Rightarrow> Some w | None \<Rightarrow> tp_observed_weight t)"

definition weight_ratio :: "u64 \<Rightarrow> f64" where
  "weight_ratio w = f64_div (f64_of_nat (unat w)) (f64_of_nat (unat MAX_BLOCK_WEIGHT))"

definition sigops_ratio :: "u32 \<Rightarrow> f64" where
  "sigops_ratio s = f64_div (f64_of_nat (unat s)) (f64_of_nat (unat MAX_BLOCK_SIGOPS))"

definition check_weight_ratio ::
    "TemplatePropose \<Rightarrow> PolicyConfig \<Rightarrow> FeeTier \<Rightarrow> u64 \<Rightarrow> SafetyWarning list
      \<Rightarrow> EvalResult + SafetyWarning list" where
  "check_weight_ratio t cfg fee_tier min_avg_fee_used warnings =
     (case effective_weight t of
        None \<Rightarrow> Ok warnings
      | Some weight \<Rightarrow>
          let ratio = weight_ratio weight; limit = ps_max_weight_ratio (cfg_safety cfg) in
          if f64_gt ratio limit then
            (let detail = ''weight_ratio='' @ show_f64_4 ratio @ '' > max_weight_ratio='' @
                   show_f64_4 limit @ '' (weight='' @ show_word weight @ '' max='' @
                   show_word MAX_BLOCK_WEIGHT @ '')'' in
             if ps_enforce_weight_ratio (cfg_safety cfg)
             then Err (early_reject WeightRatioExceeded detail fee_tier min_avg_fee_used warnings)
             else Ok (warnings @ [\<lparr>sw_reason = WeightRatioExceeded, sw_detail = detail\<rparr>]))
          else Ok warnings)"

definition check_template_age ::
    "TemplatePropose \<Rightarrow> PolicyConfig \<Rightarrow> u64 \<Rightarrow> FeeTier \<Rightarrow> u64 \<Rightarrow> SafetyWarning list
      \<Rightarrow> EvalResult + SafetyWarning list" where
  "check_template_age t cfg now_ms fee_tier min_avg_fee_used warnings =
     (case (tp_created_at_unix_ms t, ps_max_template_age_ms (cfg_safety cfg)) of
        (Some created, Some max_age) \<Rightarrow>
          let age_ms = sat_sub now_ms created in
          if max_age < age_ms then
            (let detail = ''template_age_ms='' @ show_word age_ms @ '' > max_template_age_ms='' @
                   show_word max_age in
             if ps_enforce_template_age (cfg_safety cfg)
             then Err (early_reject TemplateStale detail fee_tier min_avg_fee_used warnings)
             else Ok (warnings @ [\<lparr>sw_reason = TemplateStale, sw_detail = detail\<rparr>]))
          else Ok warnings
      | _ \<Rightarrow> Ok warnings)"

definition sigops_warning :: "TemplatePropose \<Rightarrow> PolicyConfig \<Rightarrow> SafetyWarning list" where
  "sigops_warning t cfg =
     (case tp_total_sigops t of
        None \<Rightarrow> []
      | Some sigops \<Rightarrow>
          let ratio = sigops_ratio sigops; limit = ps_warn_sigops_ratio (cfg_safety cfg) in
          if f64_gt ratio limit then
            [\<lparr>sw_reason = SigopsBudgetWarning,
              sw_detail = ''sigops_ratio='' @ show_f64_4 ratio @ '' > warn_sigops_ratio='' @
                show_f64_4 limit @ '' (sigops='' @ show_word sigops @ '' max='' @
                show_word MAX_BLOCK_SIGOPS @ '')''\<rparr>]
          else [])"

definition coinbase_sigops_warning :: "TemplatePropose \<Rightarrow> PolicyConfig \<Rightarrow> SafetyWarning list" where
  "coinbase_sigops_warning t cfg =
     (case tp_coinbase_sigops t of
        None \<Rightarrow> []
      | Some cb_sigops \<Rightarrow>
          if ps_warn_coinbase_sigops_max (cfg_safety cfg) < cb_sigops then
            [\<lparr>sw_reason = CoinbaseSigopsAbnormal,
              sw_detail = ''coinbase_sigops='' @ show_word cb_sigops @
                '' > warn_coinbase_sigops_max='' @
                show_word (ps_warn_coinbase_sigops_max (cfg_safety cfg))\<rparr>]
          else [])"

definition check_safety_constraints ::
    "TemplatePropose \<Rightarrow> PolicyConfig \<Rightarrow> u64 \<Rightarrow> SafetyWarning list \<Rightarrow> FeeTier \<Rightarrow> u64
      \<Rightarrow> EvalResult + SafetyWarning list" where
  "check_safety_constraints t cfg now_ms warnings fee_tier min_avg_fee_used =
     and_then (check_weight_ratio t cfg fee_tier min_avg_fee_used warnings) (\<lambda>ws.
     and_then (check_template_age t cfg now_ms fee_tier min_avg_fee_used ws) (\<lambda>ws'.
       Ok (ws' @ sigops_warning t cfg @ coinbase_sigops_warning t cfg)))"

section \<open>The Invariant Shield\<close>

fun consensus_violation_to_verdict_reason :: "ConsensusViolation \<Rightarrow> VerdictReason" where
  "consensus_violation_to_verdict_reason (DecodeFailed d) = V2InvariantDecodeFailed"
| "consensus_violation_to_verdict_reason (CoinbaseValueMismatch a b) = V2InvariantCoinbaseValueMismatch"
| "consensus_violation_to_verdict_reason (TemplateWeightMismatch a b) = V2InvariantTemplateWeightMismatch"
| "consensus_violation_to_verdict_reason (MerkleRootMismatch a b) = V2InvariantMerkleRootMismatch"
| "consensus_violation_to_verdict_reason WitnessCommitmentMissing = V2InvariantWitnessCommitmentMissing"
| "consensus_violation_to_verdict_reason (WitnessCommitmentMismatch a b) = V2InvariantWitnessCommitmentMismatch"
| "consensus_violation_to_verdict_reason (SigopsMismatch a b) = V2InvariantSigopsMismatch"
| "consensus_violation_to_verdict_reason (CoinbaseSigopsMismatch a b) = V2InvariantCoinbaseSigopsMismatch"
| "consensus_violation_to_verdict_reason (TxCountMismatch a b) = V2InvariantTxCountMismatch"
| "consensus_violation_to_verdict_reason CoinbaseScriptLength = V2InvariantCoinbaseScriptLength"
| "consensus_violation_to_verdict_reason CoinbaseOutputCount = V2InvariantCoinbaseOutputCount"
| "consensus_violation_to_verdict_reason CoinbaseBip34Missing = V2InvariantCoinbaseBip34Missing"
| "consensus_violation_to_verdict_reason (CoinbaseHeightMismatch a b) = V2InvariantCoinbaseHeightMismatch"
| "consensus_violation_to_verdict_reason WeightExceedsMax = V2InvariantWeightExceedsMax"
| "consensus_violation_to_verdict_reason SigopsExceedMax = V2InvariantSigopsExceedMax"
| "consensus_violation_to_verdict_reason CoinbaseValueExceedsMax = V2InvariantCoinbaseValueExceedsMax"
| "consensus_violation_to_verdict_reason NonCoinbaseNullPrevout = V2InvariantNontcbNullPrevout"
| "consensus_violation_to_verdict_reason CoinbasePrevoutNotNull = V2InvariantCoinbasePrevoutNotNull"
| "consensus_violation_to_verdict_reason HeaderVersionLow = V2InvariantHeaderVersionLow"
| "consensus_violation_to_verdict_reason DuplicateTx = V2InvariantDuplicateTx"
| "consensus_violation_to_verdict_reason (MempoolTxUnknown t) = V2InvariantMempoolTxUnknown"
| "consensus_violation_to_verdict_reason (MempoolToleranceExceeded a b) = V2InvariantMempoolToleranceExceeded"
| "consensus_violation_to_verdict_reason MempoolUnavailable = V2InvariantMempoolUnavailable"
| "consensus_violation_to_verdict_reason (MempoolViewStale a) = V2InvariantMempoolViewStale"
| "consensus_violation_to_verdict_reason NotImplemented = InternalError"

text \<open>\<open>if let Err(v) = check { return Rejected \{ reason, detail: v.to_string() \} }\<close>, and the
  comparison of a re-derived value with the declared one.\<close>

fun violation_or :: "ConsensusViolation + 'a \<Rightarrow> (VerdictReason \<times> string) + 'a" where
  "violation_or (Inl v) = Err (consensus_violation_to_verdict_reason v, as_reason_code v)"
| "violation_or (Inr a) = Ok a"

definition require_that :: "bool \<Rightarrow> VerdictReason \<Rightarrow> string \<Rightarrow> (VerdictReason \<times> string) + unit" where
  "require_that ok reason detail = (if ok then Ok () else Err (reason, detail))"

definition if_declared ::
    "'a option \<Rightarrow> ('a \<Rightarrow> (VerdictReason \<times> string) + unit) \<Rightarrow> (VerdictReason \<times> string) + unit" where
  "if_declared declared check = (case declared of None \<Rightarrow> Ok () | Some d \<Rightarrow> check d)"

definition shield_coinbase_value ::
    "bitcoin_api \<Rightarrow> TemplatePropose \<Rightarrow> bytes \<Rightarrow> (VerdictReason \<times> string) + unit" where
  "shield_coinbase_value B t raw_block =
     and_then (violation_or (re_derive_coinbase_value B raw_block)) (\<lambda>re_derived.
       require_that (re_derived = tp_coinbase_value t) V2InvariantCoinbaseValueMismatch
         (''coinbase_value declared='' @ show_word (tp_coinbase_value t) @
          '' re_derived='' @ show_word re_derived))"

definition shield_template_weight ::
    "bitcoin_api \<Rightarrow> TemplatePropose \<Rightarrow> Block \<Rightarrow> (VerdictReason \<times> string) + unit" where
  "shield_template_weight B t parsed =
     if_declared (tp_template_weight t) (\<lambda>declared.
       let re_derived = non_coinbase_tx_weight B parsed in
       require_that (re_derived = declared) V2InvariantTemplateWeightMismatch
         (''template_weight declared='' @ show_word declared @ '' re_derived='' @ show_word re_derived))"

definition shield_tx_count ::
    "TemplatePropose \<Rightarrow> Block \<Rightarrow> (VerdictReason \<times> string) + unit" where
  "shield_tx_count t parsed =
     (let re_derived = sat_sub (tx_count parsed) 1 in
      require_that (re_derived = tp_tx_count t) V2InvariantTxCountMismatch
        (''tx_count declared='' @ show_word (tp_tx_count t) @ '' re_derived='' @ show_word re_derived))"

text \<open>The provable floor: four times the legacy count, in the \<open>u64\<close> arithmetic of the code.\<close>

definition sigops_floor :: "u32 \<Rightarrow> u64" where
  "sigops_floor legacy = sat_mul (ucast legacy) 4"

definition shield_sigops ::
    "bitcoin_api \<Rightarrow> TemplatePropose \<Rightarrow> Block \<Rightarrow> (VerdictReason \<times> string) + unit" where
  "shield_sigops B t parsed =
     if_declared (tp_total_sigops t) (\<lambda>declared.
       let legacy = non_coinbase_sigops B parsed in
       require_that (\<not> ucast declared < sigops_floor legacy) V2InvariantSigopsMismatch
         (''total_sigops declared_cost='' @ show_word declared @ '' below provable floor='' @
          show_word (sigops_floor legacy) @ '' (legacy count '' @ show_word legacy @ '' x4)''))"

definition shield_coinbase_sigops ::
    "bitcoin_api \<Rightarrow> TemplatePropose \<Rightarrow> Block \<Rightarrow> (VerdictReason \<times> string) + unit" where
  "shield_coinbase_sigops B t parsed =
     if_declared (tp_coinbase_sigops t) (\<lambda>declared.
       let legacy = coinbase_sigops B parsed in
       require_that (\<not> ucast declared < sigops_floor legacy) V2InvariantCoinbaseSigopsMismatch
         (''coinbase_sigops declared_cost='' @ show_word declared @ '' below provable floor='' @
          show_word (sigops_floor legacy) @ '' (legacy count '' @ show_word legacy @ '' x4)''))"

definition shield_height ::
    "TemplatePropose \<Rightarrow> Block \<Rightarrow> (VerdictReason \<times> string) + unit" where
  "shield_height t parsed =
     and_then (violation_or (bip34_height parsed)) (\<lambda>re_derived.
       require_that (re_derived = tp_block_height t) V2InvariantCoinbaseHeightMismatch
         (''block_height declared='' @ show_word (tp_block_height t) @
          '' re_derived='' @ show_word re_derived))"

definition tier3_checks :: "bitcoin_api \<Rightarrow> (Block \<Rightarrow> ConsensusViolation + unit) list" where
  "tier3_checks B =
     [check_coinbase_script_length, check_coinbase_output_count, check_weight_max B,
      check_sigops_max B, check_coinbase_value_max, check_non_coinbase_null_prevout B,
      check_coinbase_null_prevout B, check_header_version, check_duplicate_tx B]"

fun run_checks ::
    "(Block \<Rightarrow> ConsensusViolation + unit) list \<Rightarrow> Block \<Rightarrow> (VerdictReason \<times> string) + unit" where
  "run_checks [] parsed = Ok ()"
| "run_checks (check # checks) parsed =
     and_then (violation_or (check parsed)) (\<lambda>_. run_checks checks parsed)"

text \<open>Every step of the shield up to Class M; the parsed block on success.\<close>

definition shield_phase1 ::
    "hex_crate \<Rightarrow> bitcoin_api \<Rightarrow> TemplatePropose \<Rightarrow> string \<Rightarrow> (VerdictReason \<times> string) + Block" where
  "shield_phase1 X B t hex_str =
     (case hex_decode X hex_str of
        Inl e \<Rightarrow> Err (V2InvariantDecodeFailed, ''raw_block_hex decode failed: '' @ e)
      | Inr raw_block \<Rightarrow>
          and_then (violation_or (parse_block B raw_block)) (\<lambda>parsed.
          and_then (shield_coinbase_value B t raw_block) (\<lambda>_.
          and_then (shield_template_weight B t parsed) (\<lambda>_.
          and_then (violation_or (check_merkle_root_internal B parsed)) (\<lambda>_.
          and_then (violation_or (check_witness_commitment_internal B parsed)) (\<lambda>_.
          and_then (violation_or (check_coinbase_bip34_present parsed)) (\<lambda>_.
          and_then (shield_tx_count t parsed) (\<lambda>_.
          and_then (shield_sigops B t parsed) (\<lambda>_.
          and_then (shield_coinbase_sigops B t parsed) (\<lambda>_.
          and_then (shield_height t parsed) (\<lambda>_.
          and_then (run_checks (tier3_checks B) parsed) (\<lambda>_.
            Ok parsed))))))))))))"

definition PER_TX_DETAIL_EMIT_CAP :: nat where
  "PER_TX_DETAIL_EMIT_CAP = 10000"

definition format_mempool_tolerance_detail ::
    "hex_crate \<Rightarrow> u32 \<Rightarrow> u32 \<Rightarrow> hash32 list \<Rightarrow> string" where
  "format_mempool_tolerance_detail X unknown_count tot txids_to_emit =
     (let detail = ''mempool tolerance exceeded: '' @ show_word unknown_count @ ''/'' @
            show_word tot @ '' txs unknown to verifier view'' in
      if txids_to_emit \<noteq> [] then
        detail @ '' sample=['' @ join_with '','' (map (\<lambda>t. hex_encode X (rev t)) txids_to_emit) @ '']''
      else detail)"

definition format_mempool_tolerance_detail_bounded ::
    "hex_crate \<Rightarrow> u32 \<Rightarrow> u32 \<Rightarrow> hash32 list \<Rightarrow> string" where
  "format_mempool_tolerance_detail_bounded X unknown_count tot txids_to_emit =
     (if length txids_to_emit \<le> PER_TX_DETAIL_EMIT_CAP
      then format_mempool_tolerance_detail X unknown_count tot txids_to_emit
      else format_mempool_tolerance_detail X unknown_count tot
             (take PER_TX_DETAIL_EMIT_CAP txids_to_emit) @
           '' (truncated '' @ show_nat PER_TX_DETAIL_EMIT_CAP @ '' of '' @
           show_nat (length txids_to_emit) @ '')'')"

definition shield_class_m ::
    "hex_crate \<Rightarrow> bitcoin_api \<Rightarrow> Block \<Rightarrow> (MempoolSnapshot \<times> f64 \<times> bool) option
      \<Rightarrow> ShieldOutcome \<times> Phase2Attribution" where
  "shield_class_m X B parsed mempool =
     (case mempool of
        None \<Rightarrow> (SO_Agreed, P2_NotRun)
      | Some (snap, tolerance_pct, per_tx_detail) \<Rightarrow>
          (case mempool_evaluate snap (template_txids B parsed) tolerance_pct of
             Check_Agreed u n \<Rightarrow> (SO_Agreed, P2_Agreed)
           | Check_Stale age \<Rightarrow> (SO_Agreed, P2_Stale)
           | Check_Skipped \<Rightarrow>
               (SO_Agreed, if sn_state snap = View_Degraded then P2_SkippedDegraded else P2_SkippedUnprimed)
           | Check_ToleranceExceeded unknown tot \<Rightarrow>
               let unknown_count = clamp_nat (length unknown);
                   emit_len = (if per_tx_detail then length unknown
                               else min (length unknown) SAMPLE_UNKNOWN_CAP) in
               (SO_Rejected V2InvariantMempoolToleranceExceeded
                  (format_mempool_tolerance_detail_bounded X unknown_count tot (take emit_len unknown)),
                P2_Rejected unknown tot)))"

definition check_invariant_shield_inner ::
    "hex_crate \<Rightarrow> bitcoin_api \<Rightarrow> TemplatePropose \<Rightarrow> (MempoolSnapshot \<times> f64 \<times> bool) option
      \<Rightarrow> ShieldOutcome \<times> Phase2Attribution" where
  "check_invariant_shield_inner X B t mempool =
     (case tp_raw_block_hex t of
        None \<Rightarrow> (SO_Skipped, P2_NotRun)
      | Some hex_str \<Rightarrow>
          (case shield_phase1 X B t hex_str of
             Inl (reason, detail) \<Rightarrow> (SO_Rejected reason detail, P2_NotRun)
           | Inr parsed \<Rightarrow> shield_class_m X B parsed mempool))"

definition check_invariant_shield :: "hex_crate \<Rightarrow> bitcoin_api \<Rightarrow> TemplatePropose \<Rightarrow> ShieldOutcome" where
  "check_invariant_shield X B t = fst (check_invariant_shield_inner X B t None)"

definition check_invariant_shield_with_mempool ::
    "hex_crate \<Rightarrow> bitcoin_api \<Rightarrow> TemplatePropose \<Rightarrow> MempoolSnapshot \<Rightarrow> f64 \<Rightarrow> bool \<Rightarrow> ShieldOutcome" where
  "check_invariant_shield_with_mempool X B t mempool tolerance_pct per_tx_detail =
     fst (check_invariant_shield_inner X B t (Some (mempool, tolerance_pct, per_tx_detail)))"

section \<open>Evaluation\<close>

definition evaluate_dynamic_inner ::
    "hex_crate \<Rightarrow> bitcoin_api \<Rightarrow> TemplatePropose \<Rightarrow> PolicyConfig \<Rightarrow> MempoolSnapshot option
      \<Rightarrow> u64 option \<Rightarrow> u64 \<Rightarrow> EvalResult" where
  "evaluate_dynamic_inner X B t cfg mempool_snapshot mempool_tx now_ms =
     (let (min_avg_fee_used, fee_tier) = effective_min_avg_fee_dynamic cfg mempool_tx in
      case check_basic_validity t cfg fee_tier min_avg_fee_used of
        Some result \<Rightarrow> result
      | None \<Rightarrow>
      (case check_template_constraints t cfg fee_tier min_avg_fee_used of
        Some result \<Rightarrow> result
      | None \<Rightarrow>
      (case check_safety_constraints t cfg now_ms [] fee_tier min_avg_fee_used of
        Inl result \<Rightarrow> result
      | Inr warnings \<Rightarrow>
          let (shield_outcome, phase2) = check_invariant_shield_inner X B t
            (map_option (\<lambda>snap. (snap, pm_tolerance_pct (cfg_mempool cfg), pm_per_tx_detail (cfg_mempool cfg)))
              mempool_snapshot) in
          (case shield_outcome of
             SO_Rejected reason detail \<Rightarrow>
               \<lparr>er_reason = Some reason, er_detail = Some detail, er_fee_tier = fee_tier,
                er_min_avg_fee_used = min_avg_fee_used, er_warnings = warnings,
                er_shield_skipped = False, er_phase2 = phase2\<rparr>
           | _ \<Rightarrow>
               \<lparr>er_reason = None, er_detail = None, er_fee_tier = fee_tier,
                er_min_avg_fee_used = min_avg_fee_used, er_warnings = warnings,
                er_shield_skipped = (shield_outcome = SO_Skipped), er_phase2 = phase2\<rparr>))))"

definition evaluate_dynamic_phase2 ::
    "hex_crate \<Rightarrow> bitcoin_api \<Rightarrow> TemplatePropose \<Rightarrow> PolicyConfig \<Rightarrow> MempoolSnapshot option
      \<Rightarrow> u64 option \<Rightarrow> u64 \<Rightarrow> EvalResult" where
  "evaluate_dynamic_phase2 = evaluate_dynamic_inner"

definition evaluate_dynamic ::
    "hex_crate \<Rightarrow> bitcoin_api \<Rightarrow> TemplatePropose \<Rightarrow> PolicyConfig \<Rightarrow> u64 option \<Rightarrow> u64 \<Rightarrow> EvalResult" where
  "evaluate_dynamic X B t cfg mempool_tx now_ms =
     evaluate_dynamic_inner X B t cfg None mempool_tx now_ms"

section \<open>What the shield promises\<close>

text \<open>
  The standalone rules on a block and the agreement of the declared fields with it, stated
  over the block itself with natural-number totals.
\<close>

definition consensus_valid :: "bitcoin_api \<Rightarrow> Block \<Rightarrow> bool" where
  "consensus_valid B block \<longleftrightarrow>
     (\<exists>cb txs i. bk_txdata block = cb # txs \<and> tx_input cb = [i] \<and>
        outpoint_is_null B (ti_previous_output i) \<and>
        (\<forall>tx \<in> set txs. \<not> tx_null_inputs B tx) \<and>
        2 \<le> length (ti_script_sig i) \<and> length (ti_script_sig i) \<le> 100 \<and>
        tx_output cb \<noteq> [] \<and>
        coinbase_total cb \<le> 2100000000000000 \<and>
        (has_witness block \<longrightarrow>
          (\<exists>root. block_witness_root B block = Some root \<and>
             extract_witness_commitment_from_coinbase cb =
               Some (sha256d_hash B (root @ witness_reserved cb))))) \<and>
     block_merkle_root B block = Some (hd_merkle_root (bk_header block)) \<and>
     unat (block_weight B block) \<le> 4000000 \<and>
     4 * sum_list (map (tx_sigops B) (bk_txdata block)) \<le> 80000 \<and>
     4 \<le> sint (hd_version (bk_header block)) \<and>
     distinct (map (compute_txid B) (bk_txdata block))"

definition declarations_match :: "bitcoin_api \<Rightarrow> TemplatePropose \<Rightarrow> Block \<Rightarrow> bool" where
  "declarations_match B t block \<longleftrightarrow>
     (\<exists>cb txs i is. bk_txdata block = cb # txs \<and> tx_input cb = i # is \<and>
        coinbase_total cb = unat (tp_coinbase_value t) \<and>
        min (length txs) (2 ^ 32 - 2) = unat (tp_tx_count t) \<and>
        (\<forall>d. tp_total_sigops t = Some d \<longrightarrow> 4 * sum_list (map (tx_sigops B) txs) \<le> unat d) \<and>
        (\<forall>d. tp_coinbase_sigops t = Some d \<longrightarrow> 4 * tx_sigops B cb \<le> unat d) \<and>
        decode_bip34_height (ti_script_sig i) = Some (tp_block_height t)) \<and>
     (\<forall>w. tp_template_weight t = Some w \<longrightarrow> non_coinbase_tx_weight B block = w)"

lemma violation_or_Ok: "violation_or r = Ok a \<longleftrightarrow> r = Ok a"
  by (cases r) auto

lemma require_that_Ok: "require_that ok r d = Ok () \<longleftrightarrow> ok"
  by (simp add: require_that_def)

lemma if_declared_Ok: "if_declared d f = Ok () \<longleftrightarrow> (\<forall>x. d = Some x \<longrightarrow> f x = Ok ())"
  by (cases d) (auto simp: if_declared_def)

lemmas shield_Ok = and_then_Ok_iff violation_or_Ok require_that_Ok if_declared_Ok

lemma run_checks_Ok: "run_checks cs b = Ok () \<longleftrightarrow> (\<forall>c \<in> set cs. c b = Ok ())"
  by (induction cs) (auto simp: shield_Ok)

lemma shield_coinbase_value_Ok:
  assumes "deserialize_block B raw = Some block" and "bk_txdata block = cb # txs"
  shows "shield_coinbase_value B t raw = Ok () \<longleftrightarrow> coinbase_total cb = unat (tp_coinbase_value t)"
proof -
  have "unat (tp_coinbase_value t) < 2 ^ LENGTH(64)" by (rule unsigned_less)
  then show ?thesis
    unfolding shield_coinbase_value_def re_derive_coinbase_value_eq [OF assms]
    by (auto simp: shield_Ok word_unat_eq_iff unat_of_nat)
qed

lemma sigops_floor_le:
  assumes "unat legacy = min n (2 ^ 32 - 1)"
  shows "\<not> ucast (d :: u32) < sigops_floor legacy \<longleftrightarrow> 4 * n \<le> unat d"
proof -
  have d: "unat d < 2 ^ LENGTH(32)" by (rule unsigned_less)
  have "unat (sigops_floor legacy) = min (4 * min n (2 ^ 32 - 1)) (2 ^ 64 - 1)"
    using assms by (simp add: sigops_floor_def unat_sat_mul unat_ucast_up mult.commute)
  then have "ucast d < sigops_floor legacy \<longleftrightarrow> unat d < min (4 * min n (2 ^ 32 - 1)) (2 ^ 64 - 1)"
    by (simp add: word_less_nat_alt unat_ucast_up)
  then show ?thesis using d by (auto simp: min_def)
qed

lemma shield_tx_count_Ok:
  assumes "bk_txdata block = cb # txs"
  shows "shield_tx_count t block = Ok () \<longleftrightarrow> min (length txs) (2 ^ 32 - 2) = unat (tp_tx_count t)"
  using assms
  by (auto simp: shield_tx_count_def Let_def shield_Ok word_unat_eq_iff unat_sat_sub tx_count_def unat_clamp_nat)

lemma shield_phase1_Ok:
  "shield_phase1 X B t hex = Ok block \<longleftrightarrow>
    (\<exists>raw. hex_decode X hex = Ok raw \<and> deserialize_block B raw = Some block \<and>
      consensus_valid B block \<and> declarations_match B t block)"
proof (cases "hex_decode X hex")
  case (Inl e)
  then show ?thesis by (simp add: shield_phase1_def)
next
  case (Inr raw)
  note checks = check_merkle_root_internal_Ok check_witness_commitment_internal_Ok
    check_coinbase_bip34_present_Ok bip34_height_Ok check_coinbase_script_length_Ok
    check_coinbase_output_count_Ok check_weight_max_Ok check_sigops_max_Ok check_coinbase_value_max_Ok
    check_non_coinbase_null_prevout_Ok check_coinbase_null_prevout_Ok check_header_version_Ok
    check_duplicate_tx_Ok
  have "shield_phase1 X B t hex = Ok block \<longleftrightarrow>
    deserialize_block B raw = Some block \<and> shield_coinbase_value B t raw = Ok () \<and>
    shield_template_weight B t block = Ok () \<and> check_merkle_root_internal B block = Ok () \<and>
    check_witness_commitment_internal B block = Ok () \<and> check_coinbase_bip34_present block = Ok () \<and>
    shield_tx_count t block = Ok () \<and> shield_sigops B t block = Ok () \<and>
    shield_coinbase_sigops B t block = Ok () \<and> shield_height t block = Ok () \<and>
    (\<forall>c \<in> set (tier3_checks B). c block = Ok ())"
    using Inr by (auto simp: shield_phase1_def shield_Ok parse_block_def ok_or_Ok_iff run_checks_Ok)
  also have "\<dots> \<longleftrightarrow> deserialize_block B raw = Some block \<and> consensus_valid B block \<and> declarations_match B t block"
  proof (cases "\<exists>cb txs i. bk_txdata block = cb # txs \<and> tx_input cb = [i]")
    case False
    then show ?thesis
      by (auto simp: tier3_checks_def checks consensus_valid_def)
  next
    case True
    then obtain cb txs i where b: "bk_txdata block = cb # txs" "tx_input cb = [i]" by blast
    have floors: "shield_sigops B t block = Ok () \<longleftrightarrow>
        (\<forall>d. tp_total_sigops t = Some d \<longrightarrow> 4 * sum_list (map (tx_sigops B) txs) \<le> unat d)"
      "shield_coinbase_sigops B t block = Ok () \<longleftrightarrow>
        (\<forall>d. tp_coinbase_sigops t = Some d \<longrightarrow> 4 * tx_sigops B cb \<le> unat d)"
      using b(1) sigops_floor_le [OF unat_sum_legacy_sigops [of B txs]]
        sigops_floor_le [OF unat_sum_legacy_sigops [of B "[cb]"]]
      by (simp_all add: shield_sigops_def shield_coinbase_sigops_def Let_def shield_Ok
          non_coinbase_sigops_def coinbase_sigops_def)
    have weight: "shield_template_weight B t block = Ok () \<longleftrightarrow>
        (\<forall>w. tp_template_weight t = Some w \<longrightarrow> non_coinbase_tx_weight B block = w)"
      by (simp add: shield_template_weight_def Let_def shield_Ok)
    have height: "shield_height t block = Ok () \<longleftrightarrow>
        decode_bip34_height (ti_script_sig i) = Some (tp_block_height t)"
      using b by (auto simp: shield_height_def shield_Ok bip34_height_Ok)
    show ?thesis
    proof (cases "deserialize_block B raw = Some block")
      case True
      show ?thesis
        unfolding shield_coinbase_value_Ok [OF True b(1)] shield_tx_count_Ok [OF b(1)] floors weight height
          consensus_valid_def declarations_match_def tier3_checks_def
        using b by (auto simp: checks)
    qed simp
  qed
  finally show ?thesis using Inr by simp
qed

lemma shield_inner_Agreed:
  "check_invariant_shield_inner X B t None = (SO_Agreed, p) \<longleftrightarrow>
    p = P2_NotRun \<and> (\<exists>hex block. tp_raw_block_hex t = Some hex \<and> shield_phase1 X B t hex = Ok block)"
  by (auto simp: check_invariant_shield_inner_def shield_class_m_def split: option.splits sum.splits)

section \<open>Class M on top of the shield\<close>

lemma class_m_cases:
  "shield_class_m X B block mempool = (SO_Agreed, p) \<Longrightarrow> \<not> (\<exists>u n. p = P2_Rejected u n)"
  "shield_class_m X B block mempool = (SO_Rejected r d, p) \<Longrightarrow>
     r = V2InvariantMempoolToleranceExceeded \<and>
     (\<exists>snap tol per_tx u n. mempool = Some (snap, tol, per_tx) \<and> p = P2_Rejected u n \<and>
        mempool_evaluate snap (template_txids B block) tol = Check_ToleranceExceeded u n)"
  "shield_class_m X B block mempool \<noteq> (SO_Skipped, p)"
  by (auto simp: shield_class_m_def Let_def split: option.splits prod.splits MempoolCheckOutcome.splits if_splits)

lemma shield_inner_cases:
  assumes "check_invariant_shield_inner X B t mempool = (out, p)"
  obtains (skipped) "tp_raw_block_hex t = None" "out = SO_Skipped" "p = P2_NotRun"
  | (phase1) hex r d where "tp_raw_block_hex t = Some hex" "shield_phase1 X B t hex = Err (r, d)"
      "out = SO_Rejected r d" "p = P2_NotRun"
  | (class_m) hex block where "tp_raw_block_hex t = Some hex" "shield_phase1 X B t hex = Ok block"
      "shield_class_m X B block mempool = (out, p)"
  using assms
  by (auto simp: check_invariant_shield_inner_def split: option.splits sum.splits prod.splits)

lemma shield_inner_None:
  "tp_raw_block_hex t = Some hex \<Longrightarrow> shield_phase1 X B t hex = Ok block \<Longrightarrow>
    check_invariant_shield_inner X B t None = (SO_Agreed, P2_NotRun)"
  by (simp add: check_invariant_shield_inner_def shield_class_m_def)

lemma shield_mempool_additive:
  assumes "check_invariant_shield_inner X B t mempool = (out, p)"
  shows "out = check_invariant_shield X B t \<or>
    check_invariant_shield X B t = SO_Agreed \<and>
    (\<exists>d u n. out = SO_Rejected V2InvariantMempoolToleranceExceeded d \<and> p = P2_Rejected u n)"
  using assms
proof (cases rule: shield_inner_cases)
  case skipped
  then show ?thesis by (simp add: check_invariant_shield_def check_invariant_shield_inner_def)
next
  case (phase1 hex r d)
  then show ?thesis by (simp add: check_invariant_shield_def check_invariant_shield_inner_def)
next
  case (class_m hex block)
  have base: "check_invariant_shield X B t = SO_Agreed"
    using shield_inner_None [OF class_m(1,2)] by (simp add: check_invariant_shield_def)
  show ?thesis
    using base class_m_cases [of X B block mempool] class_m(3) by (cases out) auto
qed

section \<open>Policy stages\<close>

lemma avg_fee_floor:
  assumes "0 < tx"
  shows "(tot :: u64) div ucast (tx :: u32) < m \<longleftrightarrow> unat tot < unat m * unat tx"
proof -
  have pos: "0 < unat tx" using assms by (simp add: unat_gt_0)
  have "unat (tot div ucast tx) = unat tot div unat tx" by (simp add: unat_div unat_ucast_up)
  then show ?thesis using pos by (simp add: word_less_nat_alt div_less_iff_less_mult)
qed

text \<open>The policy stages accept exactly when every clause holds; the fee clause is exact over the
  natural numbers.\<close>

definition fee_floor_ok :: "TemplatePropose \<Rightarrow> u64 \<Rightarrow> bool" where
  "fee_floor_ok t min_avg \<longleftrightarrow> unat min_avg * unat (tp_tx_count t) \<le> unat (tp_total_fees t)"

definition overweight :: "TemplatePropose \<Rightarrow> PolicyConfig \<Rightarrow> bool" where
  "overweight t cfg \<longleftrightarrow>
     (\<exists>w. effective_weight t = Some w \<and> f64_gt (weight_ratio w) (ps_max_weight_ratio (cfg_safety cfg)))"

definition overaged :: "TemplatePropose \<Rightarrow> PolicyConfig \<Rightarrow> u64 \<Rightarrow> bool" where
  "overaged t cfg now_ms \<longleftrightarrow>
     (\<exists>c m. tp_created_at_unix_ms t = Some c \<and> ps_max_template_age_ms (cfg_safety cfg) = Some m \<and>
        unat c + unat m < unat now_ms)"

definition policy_ok :: "TemplatePropose \<Rightarrow> PolicyConfig \<Rightarrow> u64 \<Rightarrow> u64 \<Rightarrow> bool" where
  "policy_ok t cfg min_avg now_ms \<longleftrightarrow>
     tp_version t = cfg_protocol_version cfg \<and>
     length (tp_prev_hash t) = cfg_required_prevhash_len cfg \<and> is_hex (tp_prev_hash t) \<and>
     (cfg_reject_empty_templates cfg \<longrightarrow> tp_tx_count t \<noteq> 0) \<and>
     (cfg_reject_coinbase_zero cfg \<longrightarrow> tp_coinbase_value t \<noteq> 0 \<or> tp_tx_count t = 0) \<and>
     tp_tx_count t \<le> cfg_max_tx_count cfg \<and>
     cfg_min_total_fees cfg \<le> tp_total_fees t \<and>
     fee_floor_ok t min_avg \<and>
     (ps_enforce_weight_ratio (cfg_safety cfg) \<longrightarrow> \<not> overweight t cfg) \<and>
     (ps_enforce_template_age (cfg_safety cfg) \<longrightarrow> \<not> overaged t cfg now_ms)"

lemma check_basic_validity_None:
  "check_basic_validity t cfg tier m = None \<longleftrightarrow>
     tp_version t = cfg_protocol_version cfg \<and>
     length (tp_prev_hash t) = cfg_required_prevhash_len cfg \<and> is_hex (tp_prev_hash t)"
  by (simp add: check_basic_validity_def)

lemma check_template_constraints_None:
  "check_template_constraints t cfg tier m = None \<longleftrightarrow>
     (cfg_reject_empty_templates cfg \<longrightarrow> tp_tx_count t \<noteq> 0) \<and>
     (cfg_reject_coinbase_zero cfg \<longrightarrow> tp_coinbase_value t \<noteq> 0 \<or> tp_tx_count t = 0) \<and>
     tp_tx_count t \<le> cfg_max_tx_count cfg \<and> cfg_min_total_fees cfg \<le> tp_total_fees t \<and> fee_floor_ok t m"
proof -
  have fee: "fee_floor_ok t m \<longleftrightarrow>
      \<not> (0 < m \<and> 0 < tp_tx_count t \<and> tp_total_fees t div ucast (tp_tx_count t) < m)"
    using avg_fee_floor [of "tp_tx_count t" "tp_total_fees t" m]
    by (cases "m = 0"; cases "tp_tx_count t = 0") (auto simp: fee_floor_ok_def word_neq_0_conv)
  show ?thesis
    unfolding fee by (auto simp: check_template_constraints_def Let_def not_less word_neq_0_conv)
qed

lemma check_weight_ratio_Ok:
  "(\<exists>ws'. check_weight_ratio t cfg tier m ws = Ok ws') \<longleftrightarrow>
     (ps_enforce_weight_ratio (cfg_safety cfg) \<longrightarrow> \<not> overweight t cfg)"
  by (auto simp: check_weight_ratio_def overweight_def Let_def split: option.splits)

lemma check_template_age_Ok:
  "(\<exists>ws'. check_template_age t cfg now tier m ws = Ok ws') \<longleftrightarrow>
     (ps_enforce_template_age (cfg_safety cfg) \<longrightarrow> \<not> overaged t cfg now)"
proof -
  have "a < sat_sub n c \<longleftrightarrow> unat c + unat a < unat n" for a n c :: u64
    by (auto simp: word_less_nat_alt unat_sat_sub)
  then show ?thesis
    by (auto simp: check_template_age_def overaged_def Let_def split: option.splits prod.splits)
qed

lemma check_safety_constraints_Ok:
  "(\<exists>ws'. check_safety_constraints t cfg now ws tier m = Ok ws') \<longleftrightarrow>
     (ps_enforce_weight_ratio (cfg_safety cfg) \<longrightarrow> \<not> overweight t cfg) \<and>
     (ps_enforce_template_age (cfg_safety cfg) \<longrightarrow> \<not> overaged t cfg now)"
  unfolding check_safety_constraints_def and_then_Ok_iff
  by (metis check_weight_ratio_Ok check_template_age_Ok)

lemma policy_ok_iff_stages:
  "policy_ok t cfg m now \<longleftrightarrow>
     check_basic_validity t cfg tier m = None \<and> check_template_constraints t cfg tier m = None \<and>
     (\<exists>ws. check_safety_constraints t cfg now [] tier m = Ok ws)"
  unfolding policy_ok_def check_basic_validity_None check_template_constraints_None check_safety_constraints_Ok
  by blast

lemma early_reject_fields [simp]:
  "er_reason (early_reject r d tier m ws) = Some r"
  "er_phase2 (early_reject r d tier m ws) = P2_NotRun"
  by (simp_all add: early_reject_def)

lemma stage_results_early:
  "check_basic_validity t cfg tier m = Some res \<Longrightarrow> \<exists>r d ws. res = early_reject r d tier m ws"
  "check_template_constraints t cfg tier m = Some res \<Longrightarrow> \<exists>r d ws. res = early_reject r d tier m ws"
  "check_safety_constraints t cfg now ws tier m = Err res \<Longrightarrow> \<exists>r d ws. res = early_reject r d tier m ws"
proof -
  show "check_basic_validity t cfg tier m = Some res \<Longrightarrow> \<exists>r d ws. res = early_reject r d tier m ws"
    by (auto simp: check_basic_validity_def split: if_splits)
  show "check_template_constraints t cfg tier m = Some res \<Longrightarrow> \<exists>r d ws. res = early_reject r d tier m ws"
    by (auto simp: check_template_constraints_def Let_def split: if_splits)
  have w: "check_weight_ratio t cfg tier m ws = Err res \<Longrightarrow> \<exists>r d ws. res = early_reject r d tier m ws" for ws
    by (auto simp: check_weight_ratio_def Let_def split: option.splits if_splits)
  have a: "check_template_age t cfg now tier m ws = Err res \<Longrightarrow> \<exists>r d ws. res = early_reject r d tier m ws" for ws
    by (auto simp: check_template_age_def Let_def split: option.splits if_splits)
  show "check_safety_constraints t cfg now ws tier m = Err res \<Longrightarrow> \<exists>r d ws. res = early_reject r d tier m ws"
    unfolding check_safety_constraints_def and_then_Err_iff using w a by blast
qed

text \<open>An evaluation either ends in a policy stage, with an early rejection, or runs the shield with
  the warnings collected.\<close>

lemma evaluate_cases:
  assumes "effective_min_avg_fee_dynamic cfg mempool_tx = (m, tier)"
  obtains (early) r d ws where "\<not> policy_ok t cfg m now"
      "evaluate_dynamic_inner X B t cfg snap mempool_tx now = early_reject r d tier m ws"
  | (shield) ws out p where "policy_ok t cfg m now"
      "check_invariant_shield_inner X B t
         (map_option (\<lambda>s. (s, pm_tolerance_pct (cfg_mempool cfg), pm_per_tx_detail (cfg_mempool cfg))) snap)
         = (out, p)"
      "er_reason (evaluate_dynamic_inner X B t cfg snap mempool_tx now)
         = (case out of SO_Rejected r d \<Rightarrow> Some r | _ \<Rightarrow> None)"
      "er_phase2 (evaluate_dynamic_inner X B t cfg snap mempool_tx now) = p"
      "er_warnings (evaluate_dynamic_inner X B t cfg snap mempool_tx now) = ws"
proof -
  obtain out p where sh: "check_invariant_shield_inner X B t
      (map_option (\<lambda>s. (s, pm_tolerance_pct (cfg_mempool cfg), pm_per_tx_detail (cfg_mempool cfg))) snap)
      = (out, p)" by fastforce
  note ok = policy_ok_iff_stages [of t cfg m now tier]
  note def = evaluate_dynamic_inner_def [of X B t cfg snap mempool_tx now]
  show thesis
  proof (cases "check_basic_validity t cfg tier m")
    case (Some res)
    then show thesis using stage_results_early(1) [OF Some] ok assms by (auto simp: def intro: early)
  next
    case None
    note basic = None
    show thesis
    proof (cases "check_template_constraints t cfg tier m")
      case (Some res)
      then show thesis using stage_results_early(2) [OF Some] ok assms basic by (auto simp: def intro: early)
    next
      case None
      show thesis
      proof (cases "check_safety_constraints t cfg now [] tier m")
        case (Inl res)
        then show thesis using stage_results_early(3) [OF Inl] ok assms basic None by (auto simp: def intro: early)
      next
        case (Inr ws)
        then show thesis using ok assms basic None sh by (intro shield [of out p ws]) (auto simp: def split: ShieldOutcome.splits)
      qed
    qed
  qed
qed

section \<open>Evaluation\<close>

lemma evaluate_accepts_iff:
  assumes "effective_min_avg_fee_dynamic cfg mempool_tx = (m, tier)"
  shows "er_reason (evaluate_dynamic_inner X B t cfg snap mempool_tx now) = None \<longleftrightarrow>
    policy_ok t cfg m now \<and>
    (\<forall>r d. fst (check_invariant_shield_inner X B t
       (map_option (\<lambda>s. (s, pm_tolerance_pct (cfg_mempool cfg), pm_per_tx_detail (cfg_mempool cfg))) snap))
       \<noteq> SO_Rejected r d)"
  using assms
  by (rule evaluate_cases [of cfg mempool_tx m tier t now X B snap]) (auto split: ShieldOutcome.splits)

section \<open>Fee tiers and weights\<close>

lemma validate_Ok:
  "validate cfg = Ok () \<longleftrightarrow>
     cfg_protocol_version cfg = PROTOCOL_VERSION \<and> cfg_required_prevhash_len cfg \<noteq> 0 \<and>
     cfg_max_tx_count cfg \<noteq> 0 \<and> cfg_low_mempool_tx cfg \<le> cfg_high_mempool_tx cfg \<and>
     cfg_min_avg_fee_lo cfg \<le> cfg_min_avg_fee_mid cfg \<and> cfg_min_avg_fee_mid cfg \<le> cfg_min_avg_fee_hi cfg \<and>
     unit_ratio (ps_max_weight_ratio (cfg_safety cfg)) \<and> unit_ratio (ps_warn_sigops_ratio (cfg_safety cfg))"
  by (auto simp: validate_def not_less)

lemma min_avg_fee_mono:
  assumes "validate cfg = Ok ()" and "a \<le> b"
  shows "fst (effective_min_avg_fee_dynamic cfg (Some a)) \<le> fst (effective_min_avg_fee_dynamic cfg (Some b))"
proof -
  have "cfg_min_avg_fee_lo cfg \<le> cfg_min_avg_fee_mid cfg" "cfg_min_avg_fee_mid cfg \<le> cfg_min_avg_fee_hi cfg"
    using assms(1) by (auto simp: validate_Ok)
  then show ?thesis
    using assms(2) by (auto simp: effective_min_avg_fee_dynamic_def)
qed

lemma weight_ratio_eq: "weight_ratio w = F64 (rnd (rnd (of_nat (unat w)) / 4000000))"
proof -
  have "unat w < 2 ^ LENGTH(64)" by (rule unsigned_less)
  then show ?thesis
    using f64_ratio_u64 [of "unat w" 4000000] by (simp add: weight_ratio_def MAX_BLOCK_WEIGHT_def)
qed

lemma weight_ratio_mono:
  assumes "w \<le> w'" and "f64_gt (weight_ratio w) l"
  shows "f64_gt (weight_ratio w') l"
proof -
  have "f64_le (weight_ratio w) (weight_ratio w')"
    using f64_ratio_mono [of "unat w" "unat w'" 4000000] assms(1) by (simp add: weight_ratio_eq word_le_nat_alt)
  then show ?thesis using assms(2) by (rule f64_gt_mono)
qed

lemma just_over_one: "1 < rnd (rnd 4000001 / 4000000)"
proof -
  define y :: rat where "y = of_int 4194305 * pow2 (- 22)"
  have y: "y = 4194305 / 4194304" by (simp add: y_def pow2_def)
  have "quantum_exp y \<le> - 22" using quantum_exp_le [of y 0] by (simp add: y pow2_def)
  then have "rnd y = y" using rnd_exact_multiple [of y 4194305 "- 22"] y by (simp add: y_def)
  moreover have "rnd y \<le> rnd (4000001 / 4000000)" by (rule rnd_mono) (simp_all add: y)
  moreover have "rnd 4000001 = (4000001 :: rat)" using rnd_exact_nat [of 4000001] by simp
  ultimately show ?thesis by (simp add: y)
qed

lemma unit_ratio_gt: "unit_ratio l \<Longrightarrow> 1 < r \<Longrightarrow> f64_gt (F64 r) l"
  by (cases l) (auto simp: unit_ratio_def f64_gt_def)

lemma validated_flags_overweight:
  assumes "validate cfg = Ok ()" and "effective_weight t = Some w" and "MAX_BLOCK_WEIGHT < w"
  shows "overweight t cfg"
proof -
  have "(4000001 :: u64) \<le> w"
    using assms(3) by (simp add: MAX_BLOCK_WEIGHT_def word_le_nat_alt word_less_nat_alt)
  moreover have "f64_gt (weight_ratio 4000001) (ps_max_weight_ratio (cfg_safety cfg))"
    using assms(1) just_over_one by (simp add: validate_Ok weight_ratio_eq unit_ratio_gt)
  ultimately show ?thesis using assms(2) weight_ratio_mono by (auto simp: overweight_def)
qed

section \<open>Reason codes and the wire budget\<close>

lemma violation_code_preserved:
  "v \<noteq> NotImplemented \<Longrightarrow> as_str (consensus_violation_to_verdict_reason v) = as_reason_code v"
  by (cases v) simp_all

lemma length_show_u32: "length (show_word (w :: u32)) \<le> 10"
proof -
  have "unat w < 2 ^ LENGTH(32)" by (rule unsigned_less)
  then have "unat w < 10 ^ Suc 9" by simp
  then show ?thesis unfolding show_word_def using length_show_nat [of "unat w" 9] by simp
qed

lemma length_tolerance_detail:
  assumes "hex_crate_ok X" and "\<And>t. t \<in> set ts \<Longrightarrow> length t = 32"
  shows "length (format_mempool_tolerance_detail X u n ts) \<le> length ts * 65 + 99"
proof -
  have "length (join_with '','' (map (\<lambda>t. hex_encode X (rev t)) ts)) \<le> length ts * 65"
    using length_join_with [of "map (\<lambda>t. hex_encode X (rev t)) ts" 64 "'',''"] assms
    by (fastforce simp: hex_crate_ok_def)
  then show ?thesis
    using length_show_u32 [of u] length_show_u32 [of n]
    by (simp add: format_mempool_tolerance_detail_def Let_def)
qed

lemma detail_within_wire_budget:
  assumes "hex_crate_ok X" and "\<And>t. t \<in> set ts \<Longrightarrow> length t = 32" and "length ts < 10 ^ 20"
  shows "length (format_mempool_tolerance_detail_bounded X u n ts) \<le> 650200"
proof (cases "length ts \<le> PER_TX_DETAIL_EMIT_CAP")
  case True
  then show ?thesis
    using length_tolerance_detail [OF assms(1,2), of ts u n]
    by (simp add: format_mempool_tolerance_detail_bounded_def PER_TX_DETAIL_EMIT_CAP_def)
next
  case False
  have "length (format_mempool_tolerance_detail X u n (take 10000 ts)) \<le> 10000 * 65 + 99"
    using length_tolerance_detail [OF assms(1), of "take 10000 ts" u n] assms(2) False
    by (auto simp: PER_TX_DETAIL_EMIT_CAP_def dest: in_set_takeD)
  moreover have "length (show_nat (length ts)) \<le> 20"
    using length_show_nat [of "length ts" 19] assms(3) by simp
  moreover have "length (show_nat 10000) \<le> 5" using length_show_nat [of 10000 4] by simp
  ultimately show ?thesis
    using False by (simp add: format_mempool_tolerance_detail_bounded_def PER_TX_DETAIL_EMIT_CAP_def)
qed

section \<open>Properties\<close>

text \<open>Under a policy that passed validation the average-fee floor never falls as the mempool
  grows.\<close>

theorem fee_floor_monotone:
  assumes "validate cfg = Ok ()" and "a \<le> b"
  shows "fst (effective_min_avg_fee_dynamic cfg (Some a)) \<le> fst (effective_min_avg_fee_dynamic cfg (Some b))"
  by (rule min_avg_fee_mono [OF assms])

definition ex_policy :: PolicyConfig where
  "ex_policy = (default_with_protocol PROTOCOL_VERSION)
     \<lparr>cfg_safety := policy_safety_default\<lparr>ps_max_weight_ratio := F64 1, ps_warn_sigops_ratio := F64 1\<rparr>\<rparr>"

lemma ex_policy_valid: "validate ex_policy = Ok ()"
  by (simp add: validate_Ok ex_policy_def default_with_protocol_def policy_safety_default_def
      unit_ratio_def f64_gt_def)

theorem fee_floor_monotone_witness:
  "fst (effective_min_avg_fee_dynamic ex_policy (Some 60)) \<le> fst (effective_min_avg_fee_dynamic ex_policy (Some 900))"
  by (rule fee_floor_monotone [OF ex_policy_valid]) simp

text \<open>Whatever ratio a validated policy sets, a template whose declared weight is above the
  4,000,000 consensus limit is flagged: rejected for its weight when the rule is enforced,
  and otherwise warned about, once.\<close>

theorem validated_policy_flags_overweight:
  assumes "validate cfg = Ok ()" and "effective_weight t = Some w" and "4000000 < unat w"
  shows "case check_weight_ratio t cfg tier m ws of
      Err r \<Rightarrow> ps_enforce_weight_ratio (cfg_safety cfg) \<and> er_reason r = Some WeightRatioExceeded
    | Ok ws' \<Rightarrow> \<not> ps_enforce_weight_ratio (cfg_safety cfg) \<and>
        (\<exists>d. ws' = ws @ [\<lparr>sw_reason = WeightRatioExceeded, sw_detail = d\<rparr>])"
proof -
  have "MAX_BLOCK_WEIGHT < w" using assms(3) by (simp add: MAX_BLOCK_WEIGHT_def word_less_nat_alt)
  from validated_flags_overweight [OF assms(1,2) this]
  have "f64_gt (weight_ratio w) (ps_max_weight_ratio (cfg_safety cfg))"
    using assms(2) by (simp add: overweight_def)
  then show ?thesis using assms(2) by (simp add: check_weight_ratio_def Let_def early_reject_def)
qed

definition ex_propose :: TemplatePropose where
  "ex_propose = \<lparr>tp_version = PROTOCOL_VERSION, tp_id = 7, tp_block_height = 9, tp_prev_hash = replicate 64 (CHR ''a''),
     tp_coinbase_value = 50, tp_tx_count = 1, tp_total_fees = 3000, tp_observed_weight = Some 4000004,
     tp_created_at_unix_ms = None, tp_total_sigops = None, tp_coinbase_sigops = None,
     tp_template_weight = None, tp_gateway_instance_id = None, tp_raw_block_hex = None\<rparr>"

theorem validated_policy_flags_overweight_witness:
  "\<exists>d. check_weight_ratio ex_propose ex_policy Tier_Mid 500 [] = Ok [\<lparr>sw_reason = WeightRatioExceeded, sw_detail = d\<rparr>]"
  using validated_policy_flags_overweight [OF ex_policy_valid, where t = ex_propose and w = 4000004
      and tier = Tier_Mid and m = 500 and ws = "[]"]
  by (simp add: effective_weight_def ex_propose_def ex_policy_def policy_safety_default_def split: sum.splits)

text \<open>A consensus violation reaches the verdict under its own code: the reason every violation
  maps to prints the violation's code, the unimplemented placeholder alone becoming the
  internal error.\<close>

theorem violation_codes_survive:
  "as_str (consensus_violation_to_verdict_reason v) =
    (if v = NotImplemented then ''internal_error'' else as_reason_code v)"
  by (cases "v = NotImplemented") (simp, simp only: violation_code_preserved if_False simp_thms)

text \<open>The detail of a Class M rejection stays within its wire budget however many
  transactions are unknown.\<close>

theorem rejection_detail_fits_wire:
  assumes "hex_crate_ok X" and "list_all (\<lambda>t. length t = 32) ts" and "length ts < 10 ^ 20"
  shows "length (format_mempool_tolerance_detail_bounded X u n ts) \<le> 650200"
  using assms by (intro detail_within_wire_budget) (auto simp: list_all_iff)

theorem rejection_detail_fits_wire_witness:
  "length (format_mempool_tolerance_detail_bounded lower_hex 1 10 [replicate 32 7]) \<le> 650200"
  by (rule rejection_detail_fits_wire [OF lower_hex_ok]) simp_all

end
