(* ===== verification/RG_BitcoindRpc.thy ===== *)
theory RG_BitcoindRpc
  imports RG_Prelude "HOL-Library.Multiset"
begin

text \<open>
  The verifier's JSON-RPC client for bitcoind, \<open>services/pool-verifier/src/bitcoind_rpc.rs\<close>.
  bitcoind, the HTTP client and serde are outside the repository: what one HTTP exchange
  yields after decoding is a field of the \<open>bitcoind\<close> record (the left of the sum is the
  rendered transport or decoding error), and the \<open>hex\<close> crate is the \<open>hex_crate\<close> record.
  Everything the client does with those answers is defined here.
\<close>

section \<open>Wire data\<close>

datatype RpcError =
    Rpc_Http string
  | Rpc_Rpc (rpc_code: int) (rpc_message: string)
  | Rpc_MissingResult
  | Rpc_InvalidTxidHex string

definition show_int :: "int \<Rightarrow> string" where
  "show_int i = (if i < 0 then CHR ''-'' # show_nat (nat (- i)) else show_nat (nat i))"

fun rpc_error_to_string :: "RpcError \<Rightarrow> string" where
  "rpc_error_to_string (Rpc_Http e) = ''bitcoind RPC HTTP error: '' @ e"
| "rpc_error_to_string (Rpc_Rpc c m) =
     ''bitcoind RPC returned an error: code='' @ show_int c @ '' message='' @ m"
| "rpc_error_to_string Rpc_MissingResult = ''bitcoind RPC response missing result field''"
| "rpc_error_to_string (Rpc_InvalidTxidHex h) = ''invalid txid hex returned by bitcoind: '' @ h"

record JsonRpcError =
  je_code :: int
  je_message :: string

record 'r JsonRpcResponse =
  jr_result :: "'r option"
  jr_error :: "JsonRpcError option"

text \<open>\<open>serde_json::Value\<close>, the untyped result of \<open>getmempoolentry\<close>.\<close>

datatype Value =
    JV_Null
  | JV_Bool bool
  | JV_Number string
  | JV_String string
  | JV_Array "Value list"
  | JV_Object "(string \<times> Value) list"

record BatchRequest =
  bq_id :: u32
  bq_params :: string

record 'r BatchResponse =
  br_id :: "u32 option"
  br_result :: "'r option"
  br_error :: "JsonRpcError option"

datatype 'r BatchItem = Batch_Ok 'r | Batch_Failed int string | Batch_NoResponse

record MempoolInfo =
  mi_size :: nat
  mi_loaded :: bool

record GetBlockVerbosity1 =
  gb_height :: u32
  gb_tx :: "string list"
  gb_previousblockhash :: "string option"

record BlockTxids =
  bt_height :: u32
  bt_txids :: "hash32 list"
  bt_previous_block_hash :: "string option"

datatype MempoolProbe = Probe_Present | Probe_Absent | Probe_Unadjudicated string

definition MEMPOOL_MISSING_ENTRY_CODE :: int where
  "MEMPOOL_MISSING_ENTRY_CODE = - 5"

record bitcoind =
  http_getmempoolinfo :: "string + MempoolInfo JsonRpcResponse"
  http_getrawmempool :: "string + string list JsonRpcResponse"
  http_getbestblockhash :: "string + string JsonRpcResponse"
  http_getblock :: "string \<Rightarrow> string + GetBlockVerbosity1 JsonRpcResponse"
  http_batch_getmempoolentry :: "BatchRequest list \<Rightarrow> string + Value BatchResponse list"

section \<open>Single calls\<close>

definition call :: "string + 'r JsonRpcResponse \<Rightarrow> RpcError + 'r" where
  "call http =
     (case http of
        Inl e \<Rightarrow> Err (Rpc_Http e)
      | Inr resp \<Rightarrow>
          (case jr_error resp of
             Some err \<Rightarrow> Err (Rpc_Rpc (je_code err) (je_message err))
           | None \<Rightarrow> ok_or Rpc_MissingResult (jr_result resp)))"

definition parse_txid_hex :: "hex_crate \<Rightarrow> string \<Rightarrow> RpcError + hash32" where
  "parse_txid_hex X hex_str =
     (if length hex_str \<noteq> 64 then Err (Rpc_InvalidTxidHex hex_str)
      else (case hex_decode X hex_str of
              Inl e \<Rightarrow> Err (Rpc_InvalidTxidHex hex_str)
            | Inr decoded \<Rightarrow>
                if length decoded = 32 then Ok decoded else Err (Rpc_InvalidTxidHex hex_str)))"

fun txids_to_internal_order :: "hex_crate \<Rightarrow> string list \<Rightarrow> RpcError + hash32 list" where
  "txids_to_internal_order X [] = Ok []"
| "txids_to_internal_order X (hex_str # hex_txids) =
     and_then (parse_txid_hex X hex_str) (\<lambda>bytes.
     and_then (txids_to_internal_order X hex_txids) (\<lambda>out. Ok (rev bytes # out)))"

definition get_mempool_info :: "bitcoind \<Rightarrow> RpcError + MempoolInfo" where
  "get_mempool_info N = call (http_getmempoolinfo N)"

definition get_raw_mempool :: "hex_crate \<Rightarrow> bitcoind \<Rightarrow> RpcError + hash32 list" where
  "get_raw_mempool X N = and_then (call (http_getrawmempool N)) (txids_to_internal_order X)"

definition get_best_block_hash :: "bitcoind \<Rightarrow> RpcError + string" where
  "get_best_block_hash N = call (http_getbestblockhash N)"

definition get_block_txids :: "hex_crate \<Rightarrow> bitcoind \<Rightarrow> string \<Rightarrow> RpcError + BlockTxids" where
  "get_block_txids X N block_hash =
     and_then (call (http_getblock N block_hash)) (\<lambda>raw.
     and_then (txids_to_internal_order X (gb_tx raw)) (\<lambda>txids.
       Ok \<lparr>bt_height = gb_height raw, bt_txids = txids,
           bt_previous_block_hash = gb_previousblockhash raw\<rparr>))"

section \<open>Batches\<close>

definition item_of_response :: "'r BatchResponse \<Rightarrow> 'r BatchItem" where
  "item_of_response resp =
     (case br_error resp of
        Some e \<Rightarrow> Batch_Failed (je_code e) (je_message e)
      | None \<Rightarrow> (case br_result resp of Some r \<Rightarrow> Batch_Ok r | None \<Rightarrow> Batch_NoResponse))"

fun resolve_loop ::
    "nat \<Rightarrow> 'r BatchItem option list \<Rightarrow> bool list \<Rightarrow> 'r BatchResponse list
      \<Rightarrow> 'r BatchItem option list \<times> bool list" where
  "resolve_loop request_count slots duplicated [] = (slots, duplicated)"
| "resolve_loop request_count slots duplicated (resp # responses) =
     (case br_id resp of
        None \<Rightarrow> resolve_loop request_count slots duplicated responses
      | Some i \<Rightarrow>
          let idx = unat i in
          if request_count \<le> idx then resolve_loop request_count slots duplicated responses
          else if slots ! idx \<noteq> None then
            resolve_loop request_count slots (duplicated[idx := True]) responses
          else
            resolve_loop request_count (slots[idx := Some (item_of_response resp)]) duplicated responses)"

definition resolve_batch :: "'r BatchResponse list \<Rightarrow> nat \<Rightarrow> 'r BatchItem list" where
  "resolve_batch responses request_count =
     (let (slots, duplicated) =
        resolve_loop request_count (replicate request_count None) (replicate request_count False) responses
      in map (\<lambda>(slot, dup). if dup then Batch_NoResponse
                            else (case slot of None \<Rightarrow> Batch_NoResponse | Some item \<Rightarrow> item))
           (zip slots duplicated))"

definition batch_requests :: "string list \<Rightarrow> BatchRequest list" where
  "batch_requests params = map (\<lambda>(i, p). \<lparr>bq_id = clamp_nat i, bq_params = p\<rparr>) (enumerate 0 params)"

definition call_batch ::
    "(BatchRequest list \<Rightarrow> string + 'r BatchResponse list) \<Rightarrow> string list
      \<Rightarrow> RpcError + 'r BatchItem list" where
  "call_batch http params_per_item =
     (if params_per_item = [] then Ok []
      else (case http (batch_requests params_per_item) of
              Inl e \<Rightarrow> Err (Rpc_Http e)
            | Inr responses \<Rightarrow> Ok (resolve_batch responses (length params_per_item))))"

definition probe_params :: "hex_crate \<Rightarrow> hash32 list \<Rightarrow> string list" where
  "probe_params X txids = map (\<lambda>t. hex_encode X (rev t)) txids"

fun probe_from_item :: "'r BatchItem \<Rightarrow> MempoolProbe" where
  "probe_from_item (Batch_Ok r) = Probe_Present"
| "probe_from_item (Batch_Failed code message) =
     (if code = MEMPOOL_MISSING_ENTRY_CODE then Probe_Absent
      else Probe_Unadjudicated (''getmempoolentry returned code '' @ show_int code @ '': '' @ message))"
| "probe_from_item Batch_NoResponse =
     Probe_Unadjudicated ''no batch reply could be attributed to this request id''"

definition probe_mempool :: "hex_crate \<Rightarrow> bitcoind \<Rightarrow> hash32 list \<Rightarrow> RpcError + MempoolProbe list" where
  "probe_mempool X N txids =
     and_then (call_batch (http_batch_getmempoolentry N) (probe_params X txids))
       (\<lambda>items. Ok (map probe_from_item items))"

section \<open>Attribution of batch replies\<close>

text \<open>The replies that claim request \<open>i\<close>, and the item they determine.\<close>

definition replies_for :: "nat \<Rightarrow> 'r BatchResponse list \<Rightarrow> 'r BatchResponse list" where
  "replies_for i responses = filter (\<lambda>r. \<exists>w. br_id r = Some w \<and> unat w = i) responses"

fun attributed :: "'r BatchResponse list \<Rightarrow> 'r BatchItem" where
  "attributed [r] = item_of_response r"
| "attributed _ = Batch_NoResponse"

lemma replies_for_Nil [simp]: "replies_for i [] = []"
  by (simp add: replies_for_def)

lemma resolve_loop_slots:
  assumes "length slots = n" and "length dup = n"
    and "resolve_loop n slots dup rs = (slots', dup')"
  shows "length slots' = n \<and> length dup' = n \<and>
    (\<forall>i<n. slots' ! i = (case slots ! i of Some s \<Rightarrow> Some s
                       | None \<Rightarrow> map_option item_of_response (first (replies_for i rs))) \<and>
      (dup' ! i \<longleftrightarrow> dup ! i \<or>
         (if slots ! i = None then 2 \<le> length (replies_for i rs) else replies_for i rs \<noteq> [])))"
  using assms
proof (induction rs arbitrary: slots dup)
  case Nil
  then show ?case by (auto split: option.splits)
next
  case (Cons r rs)
  show ?case
  proof (cases "br_id r")
    case None
    then have eq: "replies_for i (r # rs) = replies_for i rs" for i by (simp add: replies_for_def)
    have "resolve_loop n slots dup rs = (slots', dup')" using Cons.prems(3) None by simp
    from Cons.IH [OF Cons.prems(1,2) this] show ?thesis unfolding eq .
  next
    case (Some w)
    then have here: "replies_for i (r # rs) = (if i = unat w then r # replies_for i rs else replies_for i rs)" for i
      by (auto simp: replies_for_def)
    consider "n \<le> unat w" | "unat w < n" "slots ! unat w \<noteq> None" | "unat w < n" "slots ! unat w = None"
      by linarith
    then show ?thesis
    proof cases
      case 1
      then have eq: "replies_for i (r # rs) = replies_for i rs" if "i < n" for i
        using that by (auto simp: here)
      have "resolve_loop n slots dup rs = (slots', dup')" using Cons.prems(3) Some 1 by (simp add: Let_def)
      from Cons.IH [OF Cons.prems(1,2) this] show ?thesis by (auto simp: eq split: option.splits)
    next
      case 2
      have "resolve_loop n slots (dup[unat w := True]) rs = (slots', dup')"
        using Cons.prems(3) Some 2 by (simp add: Let_def)
      from Cons.IH [OF _ _ this] Cons.prems 2 show ?thesis
        by (auto simp: here nth_list_update split: option.splits)
    next
      case 3
      have "resolve_loop n (slots[unat w := Some (item_of_response r)]) dup rs = (slots', dup')"
        using Cons.prems(3) Some 3 by (simp add: Let_def)
      from Cons.IH [OF _ _ this] Cons.prems 3 show ?thesis
        by (auto simp: here nth_list_update Suc_le_eq split: option.splits)
    qed
  qed
qed

lemma length_resolve_batch [simp]: "length (resolve_batch rs n) = n"
  using resolve_loop_slots [of "replicate n None" n "replicate n False" rs]
  by (auto simp: resolve_batch_def split: prod.splits)

lemma resolve_batch_nth:
  assumes "i < n"
  shows "resolve_batch rs n ! i = attributed (replies_for i rs)"
proof -
  obtain s d where sd: "resolve_loop n (replicate n None) (replicate n False) rs = (s, d)"
    by fastforce
  from resolve_loop_slots [OF _ _ sd] assms
  have len: "length s = n" "length d = n"
    and s: "s ! i = map_option item_of_response (first (replies_for i rs))"
    and d: "d ! i \<longleftrightarrow> 2 \<le> length (replies_for i rs)"
    by auto
  have "resolve_batch rs n ! i = (if d ! i then Batch_NoResponse
      else (case s ! i of None \<Rightarrow> Batch_NoResponse | Some item \<Rightarrow> item))"
    using len assms by (simp add: resolve_batch_def sd)
  then show ?thesis
    using s d by (cases "replies_for i rs" rule: attributed.cases) auto
qed

lemma attributed_perm: "mset rs = mset rs' \<Longrightarrow> attributed rs = attributed rs'"
proof -
  assume m: "mset rs = mset rs'"
  then have "length rs = length rs'" by (rule mset_eq_length)
  with m show ?thesis
    by (cases rs rule: attributed.cases; cases rs' rule: attributed.cases) auto
qed

lemma resolve_batch_perm:
  assumes "mset rs = mset rs'"
  shows "resolve_batch rs n = resolve_batch rs' n"
proof (rule nth_equalityI)
  fix i assume "i < length (resolve_batch rs n)"
  then have "i < n" by simp
  moreover have "mset (replies_for i rs) = mset (replies_for i rs')"
    using assms by (simp add: replies_for_def)
  then have "attributed (replies_for i rs) = attributed (replies_for i rs')"
    by (rule attributed_perm)
  ultimately show "resolve_batch rs n ! i = resolve_batch rs' n ! i"
    by (simp add: resolve_batch_nth)
qed simp

lemma probe_from_item_Absent_iff:
  "probe_from_item item = Probe_Absent \<longleftrightarrow> (\<exists>m. item = Batch_Failed MEMPOOL_MISSING_ENTRY_CODE m)"
  by (cases item) auto

lemma attributed_Failed:
  "attributed rs = Batch_Failed c m \<longleftrightarrow>
    (\<exists>r e. rs = [r] \<and> br_error r = Some e \<and> je_code e = c \<and> je_message e = m)"
  by (cases rs rule: attributed.cases) (auto simp: item_of_response_def split: option.splits)

lemma attributed_Ok:
  "attributed rs = Batch_Ok v \<longleftrightarrow> (\<exists>r. rs = [r] \<and> br_error r = None \<and> br_result r = Some v)"
  by (cases rs rule: attributed.cases) (auto simp: item_of_response_def split: option.splits)

lemma probe_mempool_length:
  assumes "probe_mempool X N txids = Ok probes"
  shows "length probes = length txids"
  using assms
  by (auto simp: probe_mempool_def and_then_Ok_iff call_batch_def probe_params_def split: if_splits sum.splits)

text \<open>The error object that proves an absence to the client.\<close>

definition proves_absence :: "'r BatchResponse list \<Rightarrow> nat \<Rightarrow> bool" where
  "proves_absence responses i \<longleftrightarrow>
     (\<exists>r e. replies_for i responses = [r] \<and> br_error r = Some e \<and> je_code e = MEMPOOL_MISSING_ENTRY_CODE)"

lemma probe_mempool_Absent:
  assumes "probe_mempool X N txids = Ok probes" and "i < length txids"
  shows "probes ! i = Probe_Absent \<longleftrightarrow>
    (\<exists>responses. http_batch_getmempoolentry N (batch_requests (probe_params X txids)) = Inr responses \<and>
       proves_absence responses i)"
proof -
  have ne: "probe_params X txids \<noteq> []" using assms(2) by (auto simp: probe_params_def)
  let ?http = "http_batch_getmempoolentry N (batch_requests (probe_params X txids))"
  obtain responses where r: "?http = Inr responses"
      and p: "probes = map probe_from_item (resolve_batch responses (length (probe_params X txids)))"
    using assms(1) ne by (cases ?http) (simp_all add: probe_mempool_def call_batch_def)
  have "i < length (probe_params X txids)" using assms(2) by (simp add: probe_params_def)
  then have "probes ! i = probe_from_item (attributed (replies_for i responses))"
    by (simp add: p resolve_batch_nth)
  then have "probes ! i = Probe_Absent \<longleftrightarrow> proves_absence responses i"
    unfolding proves_absence_def by (simp add: probe_from_item_Absent_iff attributed_Failed) blast
  then show ?thesis by (simp add: r)
qed

section \<open>Transaction ids on the wire\<close>

lemma parse_txid_hex_length: "parse_txid_hex X h = Ok t \<Longrightarrow> length t = 32"
  by (auto simp: parse_txid_hex_def split: if_splits sum.splits)

lemma txids_round_trip:
  assumes "hex_crate_ok X" and "\<forall>t \<in> set txids. length t = 32"
  shows "txids_to_internal_order X (probe_params X txids) = Ok txids"
  using assms(2)
proof (induction txids)
  case Nil
  then show ?case by (simp add: probe_params_def)
next
  case (Cons t txids)
  have "parse_txid_hex X (hex_encode X (rev t)) = Ok (rev t)"
    using assms(1) Cons.prems by (simp add: parse_txid_hex_def hex_crate_ok_def)
  then show ?case using Cons by (simp add: probe_params_def)
qed

section \<open>Properties\<close>

text \<open>Batch replies are attributed by identifier and by nothing else: the item of request \<open>i\<close>
  is determined by the replies carrying identifier \<open>i\<close>, and is usable only when there is
  exactly one. Missing, foreign, out-of-range and duplicated replies change no other item, and
  the order of the replies does not matter.\<close>

theorem batch_attribution_exact:
  "resolve_batch rs n = map (\<lambda>i. attributed (replies_for i rs)) [0..<n]"
  by (rule nth_equalityI) (simp_all add: resolve_batch_nth)

end
