(* ===== verification/RG_SecondChance.thy ===== *)
theory RG_SecondChance
  imports RG_Mempool RG_BitcoindRpc
begin

text \<open>
  The second-chance lookup at Class M rejection time, \<open>services/pool-verifier/src/second_chance.rs\<close>,
  over the RPC client of \<open>RG_BitcoindRpc\<close>. \<open>timed_out\<close> says whether the two-second deadline
  elapsed before the lookup finished, and \<open>hash_order\<close> is the iteration order of the
  \<open>HashSet\<close> the probe list is drawn from.
\<close>

section \<open>Data of the lookup\<close>

definition MAX_RECENT_BLOCKS_SCANNED :: u32 where
  "MAX_RECENT_BLOCKS_SCANNED = 6"

definition MEMPOOL_PROBE_CHUNK :: nat where
  "MEMPOOL_PROBE_CHUNK = 250"

definition ABSENT_SAMPLE_CAP :: nat where
  "ABSENT_SAMPLE_CAP = 32"

datatype WalkCoverage =
    Walk_Complete (wc_txids: "hash32 set") (wc_scanned: u32) (wc_tip: "u32 option")
  | Walk_Truncated (wc_txids: "hash32 set") (wc_scanned: u32) (wc_tip: "u32 option")
  | Walk_Failed (wc_txids: "hash32 set") (wc_scanned: u32) (wc_tip: "u32 option") (wc_error: string)

fun is_complete :: "WalkCoverage \<Rightarrow> bool" where
  "is_complete (Walk_Complete t s h) = True"
| "is_complete (Walk_Truncated t s h) = False"
| "is_complete (Walk_Failed t s h e) = False"

fun shortfall :: "WalkCoverage \<Rightarrow> string option" where
  "shortfall (Walk_Complete t s h) = None"
| "shortfall (Walk_Truncated t s h) =
     Some (''block walk hit the '' @ show_word MAX_RECENT_BLOCKS_SCANNED @ ''-block cap after '' @
           show_word s @ '' blocks with more still owed; the mined count is a floor'')"
| "shortfall (Walk_Failed t s h e) = Some (''block walk failed after '' @ e)"

fun walk_parts :: "WalkCoverage \<Rightarrow> hash32 set \<times> u32 \<times> u32 option \<times> bool" where
  "walk_parts (Walk_Complete t s h) = (t, s, h, False)"
| "walk_parts (Walk_Truncated t s h) = (t, s, h, True)"
| "walk_parts (Walk_Failed t s h e) = (t, s, h, False)"

record BitcoindAnswer =
  ans_present_in_mempool :: "hash32 set"
  ans_unadjudicated :: "hash32 set"
  ans_recent_block_txids :: "hash32 set"
  ans_blocks_scanned :: u32
  ans_block_walk_truncated :: bool
  ans_tip_height :: "u32 option"
  ans_block_walk_shortfall :: "string option"

datatype TxAdjudication = Tx_InMempool | Tx_Mined | Tx_Unadjudicated | Tx_Absent

record Adjudication =
  adj_total :: u32
  adj_unknown_before :: u32
  adj_in_mempool :: u32
  adj_mined :: u32
  adj_still_absent :: u32
  adj_unadjudicated :: u32
  adj_still_absent_sample :: "hash32 list"
  adj_blocks_scanned :: u32
  adj_block_walk_truncated :: bool
  adj_tip_height :: "u32 option"
  adj_block_walk_shortfall :: "string option"

datatype SecondChanceError =
    Sc_Rpc RpcError
  | Sc_Deadline
  | Sc_MempoolLoading
  | Sc_EmptyMempool
  | Sc_BlockWalkIncomplete string
  | Sc_MempoolProbeIncomplete string

fun sc_error_as_label :: "SecondChanceError \<Rightarrow> string" where
  "sc_error_as_label (Sc_Rpc e) = ''rpc_error''"
| "sc_error_as_label Sc_Deadline = ''deadline''"
| "sc_error_as_label Sc_MempoolLoading = ''mempool_loading''"
| "sc_error_as_label Sc_EmptyMempool = ''empty_mempool''"
| "sc_error_as_label (Sc_BlockWalkIncomplete s) = ''block_walk_incomplete''"
| "sc_error_as_label (Sc_MempoolProbeIncomplete s) = ''mempool_probe_incomplete''"

fun sc_error_to_string :: "SecondChanceError \<Rightarrow> string" where
  "sc_error_to_string (Sc_Rpc e) = ''second-chance lookup failed: '' @ rpc_error_to_string e"
| "sc_error_to_string Sc_Deadline = ''second-chance lookup exceeded its 2s deadline''"
| "sc_error_to_string Sc_MempoolLoading =
     ''bitcoind is still loading its mempool (getmempoolinfo reported loaded=false), so \"not in mempool\" cannot be trusted as absence''"
| "sc_error_to_string Sc_EmptyMempool =
     ''getmempoolinfo reported the mempool is empty, which cannot establish that any transaction is absent''"
| "sc_error_to_string (Sc_BlockWalkIncomplete s) =
     ''block walk incomplete, so the mined case could not be ruled out: '' @ s"
| "sc_error_to_string (Sc_MempoolProbeIncomplete s) =
     ''mempool probe incomplete, so absence could not be established: '' @ s"

datatype SecondChanceOutcome =
    Withdrawn Adjudication
  | Upheld Adjudication
  | LookupFailed (lf_total: u32) (lf_unknown_before: u32) (lf_reason: string) (lf_kind: string)
      (lf_unadjudicated: u32)

fun sc_outcome_as_label :: "SecondChanceOutcome \<Rightarrow> string" where
  "sc_outcome_as_label (Withdrawn a) = ''withdrawn''"
| "sc_outcome_as_label (Upheld a) = ''upheld''"
| "sc_outcome_as_label (LookupFailed t u r k n) = ''lookup_failed''"

section \<open>Adjudication\<close>

definition not_proven_known :: "Adjudication \<Rightarrow> u32" where
  "not_proven_known a = sat_add (adj_still_absent a) (adj_unadjudicated a)"

definition still_exceeds :: "Adjudication \<Rightarrow> f64 \<Rightarrow> bool" where
  "still_exceeds a tolerance_pct = exceeds_tolerance (not_proven_known a) (adj_total a) tolerance_pct"

definition classify :: "hash32 \<Rightarrow> BitcoindAnswer \<Rightarrow> TxAdjudication" where
  "classify txid answer =
     (if txid \<in> ans_present_in_mempool answer then Tx_InMempool
      else if txid \<in> ans_recent_block_txids answer then Tx_Mined
      else if txid \<in> ans_unadjudicated answer then Tx_Unadjudicated
      else Tx_Absent)"

record adj_counts =
  ac_in_mempool :: u32
  ac_mined :: u32
  ac_unadjudicated :: u32
  ac_still_absent :: u32
  ac_sample :: "hash32 list"

fun adjudicate_loop :: "BitcoindAnswer \<Rightarrow> adj_counts \<Rightarrow> hash32 list \<Rightarrow> adj_counts" where
  "adjudicate_loop answer c [] = c"
| "adjudicate_loop answer c (txid # txids) =
     adjudicate_loop answer
       (case classify txid answer of
          Tx_InMempool \<Rightarrow> c\<lparr>ac_in_mempool := sat_add (ac_in_mempool c) 1\<rparr>
        | Tx_Mined \<Rightarrow> c\<lparr>ac_mined := sat_add (ac_mined c) 1\<rparr>
        | Tx_Unadjudicated \<Rightarrow> c\<lparr>ac_unadjudicated := sat_add (ac_unadjudicated c) 1\<rparr>
        | Tx_Absent \<Rightarrow>
            c\<lparr>ac_still_absent := sat_add (ac_still_absent c) 1,
              ac_sample := (if length (ac_sample c) < ABSENT_SAMPLE_CAP
                            then ac_sample c @ [txid] else ac_sample c)\<rparr>)
       txids"

definition adj_counts_zero :: adj_counts where
  "adj_counts_zero = \<lparr>ac_in_mempool = 0, ac_mined = 0, ac_unadjudicated = 0,
                      ac_still_absent = 0, ac_sample = []\<rparr>"

definition adjudicate :: "u32 \<Rightarrow> hash32 list \<Rightarrow> BitcoindAnswer \<Rightarrow> Adjudication" where
  "adjudicate tot unknown answer =
     (let c = adjudicate_loop answer adj_counts_zero unknown in
      \<lparr>adj_total = tot, adj_unknown_before = clamp_nat (length unknown),
       adj_in_mempool = ac_in_mempool c, adj_mined = ac_mined c,
       adj_still_absent = ac_still_absent c, adj_unadjudicated = ac_unadjudicated c,
       adj_still_absent_sample = ac_sample c,
       adj_blocks_scanned = ans_blocks_scanned answer,
       adj_block_walk_truncated = ans_block_walk_truncated answer,
       adj_tip_height = ans_tip_height answer,
       adj_block_walk_shortfall = ans_block_walk_shortfall answer\<rparr>)"

section \<open>The lookup\<close>

text \<open>The loop of \<open>recent_blocks\<close>; every turn that recurs has counted one more block below the cap.\<close>

function walk_blocks ::
    "hex_crate \<Rightarrow> bitcoind \<Rightarrow> u32 \<Rightarrow> hash32 set \<Rightarrow> u32 \<Rightarrow> u32 option \<Rightarrow> string \<Rightarrow> WalkCoverage" where
  "walk_blocks X N template_height collected scanned tip_height hash =
     (case get_block_txids X N hash of
        Inl e \<Rightarrow> Walk_Failed collected scanned tip_height (rpc_error_to_string e)
      | Inr block \<Rightarrow>
          let tip = (case tip_height of None \<Rightarrow> Some (bt_height block) | Some h \<Rightarrow> Some h) in
          if bt_height block < template_height then Walk_Complete collected scanned tip
          else
            let collected' = collected \<union> set (bt_txids block); scanned' = sat_add scanned 1 in
            if bt_height block = template_height then Walk_Complete collected' scanned' tip
            else (case bt_previous_block_hash block of
                    None \<Rightarrow> Walk_Complete collected' scanned' tip
                  | Some prev \<Rightarrow>
                      if MAX_RECENT_BLOCKS_SCANNED \<le> scanned' then Walk_Truncated collected' scanned' tip
                      else walk_blocks X N template_height collected' scanned' tip prev))"
  by pat_completeness auto
termination
proof (relation "measure (\<lambda>(X, N, h, c, scanned, t, hash). 6 - unat scanned)", goal_cases)
  case 1
  show ?case by simp
next
  case (2 X N template_height collected scanned tip_height hash block tip collected' scanned' prev)
  from 2(5) have eq: "unat scanned' = min (unat scanned + 1) (2 ^ 32 - 1)"
    by (simp add: unat_sat_add)
  from 2 have "unat scanned' < 6"
    by (simp add: MAX_RECENT_BLOCKS_SCANNED_def word_le_nat_alt)
  with eq show ?case by simp
qed

definition recent_blocks :: "hex_crate \<Rightarrow> bitcoind \<Rightarrow> u32 \<Rightarrow> WalkCoverage" where
  "recent_blocks X N template_height =
     (case get_best_block_hash N of
        Inl e \<Rightarrow> Walk_Failed {} 0 None (rpc_error_to_string e)
      | Inr hash \<Rightarrow> walk_blocks X N template_height {} 0 None hash)"

fun record_probes ::
    "hash32 set \<times> hash32 set \<Rightarrow> (hash32 \<times> MempoolProbe) list \<Rightarrow> hash32 set \<times> hash32 set" where
  "record_probes acc [] = acc"
| "record_probes (present, unadj) ((txid, probe) # ps) =
     (case probe of
        Probe_Present \<Rightarrow> record_probes (insert txid present, unadj) ps
      | Probe_Absent \<Rightarrow> record_probes (present, unadj) ps
      | Probe_Unadjudicated reason \<Rightarrow> record_probes (present, insert txid unadj) ps)"

text \<open>\<open>slice.chunks(n)\<close>\<close>

function chunks :: "nat \<Rightarrow> 'a list \<Rightarrow> 'a list list" where
  "chunks n xs = (if xs = [] \<or> n = 0 then [] else take n xs # chunks n (drop n xs))"
  by pat_completeness auto
termination
  by (relation "measure (\<lambda>(n, xs). length xs)") auto

fun probe_chunks ::
    "hex_crate \<Rightarrow> bitcoind \<Rightarrow> hash32 set \<times> hash32 set \<Rightarrow> hash32 list list \<Rightarrow> RpcError + hash32 set \<times> hash32 set" where
  "probe_chunks X N acc [] = Ok acc"
| "probe_chunks X N acc (chunk # cs) =
     (case probe_mempool X N chunk of
        Inl e \<Rightarrow> Err e
      | Inr probes \<Rightarrow> probe_chunks X N (record_probes acc (zip chunk probes)) cs)"

definition gather ::
    "hex_crate \<Rightarrow> bitcoind \<Rightarrow> (hash32 set \<Rightarrow> hash32 list) \<Rightarrow> u32 \<Rightarrow> hash32 list \<Rightarrow> SecondChanceError + BitcoindAnswer" where
  "gather X N hash_order template_height unknown =
     (case get_mempool_info N of
        Inl e \<Rightarrow> Err (Sc_Rpc e)
      | Inr info \<Rightarrow>
          if \<not> mi_loaded info then Err Sc_MempoolLoading
          else if mi_size info < MIN_INSTALLABLE_MEMPOOL_SIZE then Err Sc_EmptyMempool
          else
            let coverage = recent_blocks X N template_height;
                (recent, scanned, tip, truncated) = walk_parts coverage;
                to_probe = hash_order (set (filter (\<lambda>t. t \<notin> recent) unknown)) in
            (case probe_chunks X N ({}, {}) (chunks MEMPOOL_PROBE_CHUNK to_probe) of
               Inl e \<Rightarrow> Err (Sc_Rpc e)
             | Inr (present, unadj) \<Rightarrow>
                 Ok \<lparr>ans_present_in_mempool = present, ans_unadjudicated = unadj,
                     ans_recent_block_txids = recent, ans_blocks_scanned = scanned,
                     ans_block_walk_truncated = truncated, ans_tip_height = tip,
                     ans_block_walk_shortfall = shortfall coverage\<rparr>))"

definition ask ::
    "hex_crate \<Rightarrow> bitcoind \<Rightarrow> (hash32 set \<Rightarrow> hash32 list) \<Rightarrow> bool \<Rightarrow> u32 \<Rightarrow> hash32 list
      \<Rightarrow> SecondChanceError + BitcoindAnswer" where
  "ask X N hash_order timed_out template_height unknown =
     (if timed_out then Err Sc_Deadline else gather X N hash_order template_height unknown)"

section \<open>The durable record\<close>

record MempoolAdjudicationRecord =
  mar_outcome :: string
  mar_total :: u32
  mar_unknown_before :: u32
  mar_in_mempool :: u32
  mar_mined :: u32
  mar_still_absent :: u32
  mar_unadjudicated :: u32
  mar_blocks_scanned :: u32
  mar_block_walk_truncated :: bool
  mar_tip_height :: "u32 option"
  mar_block_walk_shortfall :: "string option"
  mar_still_absent_sample :: "string list"
  mar_lookup_error :: "string option"
  mar_lookup_error_kind :: "string option"

definition adjudicated_record :: "hex_crate \<Rightarrow> string \<Rightarrow> Adjudication \<Rightarrow> MempoolAdjudicationRecord" where
  "adjudicated_record X label adj =
     \<lparr>mar_outcome = label, mar_total = adj_total adj, mar_unknown_before = adj_unknown_before adj,
      mar_in_mempool = adj_in_mempool adj, mar_mined = adj_mined adj,
      mar_still_absent = adj_still_absent adj, mar_unadjudicated = adj_unadjudicated adj,
      mar_blocks_scanned = adj_blocks_scanned adj,
      mar_block_walk_truncated = adj_block_walk_truncated adj,
      mar_tip_height = adj_tip_height adj,
      mar_block_walk_shortfall = adj_block_walk_shortfall adj,
      mar_still_absent_sample = map (\<lambda>t. hex_encode X (rev t)) (adj_still_absent_sample adj),
      mar_lookup_error = None, mar_lookup_error_kind = None\<rparr>"

fun record_of_outcome :: "hex_crate \<Rightarrow> SecondChanceOutcome \<Rightarrow> MempoolAdjudicationRecord" where
  "record_of_outcome X (Withdrawn adj) =
     adjudicated_record X (sc_outcome_as_label (Withdrawn adj)) adj"
| "record_of_outcome X (Upheld adj) =
     adjudicated_record X (sc_outcome_as_label (Upheld adj)) adj"
| "record_of_outcome X (LookupFailed tot unknown_before reason kind unadjudicated) =
     \<lparr>mar_outcome = sc_outcome_as_label (LookupFailed tot unknown_before reason kind unadjudicated),
      mar_total = tot, mar_unknown_before = unknown_before,
      mar_in_mempool = 0, mar_mined = 0, mar_still_absent = 0, mar_unadjudicated = unadjudicated,
      mar_blocks_scanned = 0, mar_block_walk_truncated = False, mar_tip_height = None,
      mar_block_walk_shortfall = None, mar_still_absent_sample = [],
      mar_lookup_error = Some reason, mar_lookup_error_kind = Some kind\<rparr>"

section \<open>Counting\<close>

definition count_as :: "BitcoindAnswer \<Rightarrow> TxAdjudication \<Rightarrow> hash32 list \<Rightarrow> nat" where
  "count_as answer k txids = length (filter (\<lambda>t. classify t answer = k) txids)"

lemma count_as_simps [simp]:
  "count_as answer k [] = 0"
  "count_as answer k (t # ts) = (if classify t answer = k then 1 else 0) + count_as answer k ts"
  by (simp_all add: count_as_def)

lemma count_as_partition:
  "count_as answer Tx_InMempool ts + count_as answer Tx_Mined ts +
   count_as answer Tx_Unadjudicated ts + count_as answer Tx_Absent ts = length ts"
proof (induction ts)
  case (Cons t ts)
  then show ?case by (cases "classify t answer") auto
qed simp

lemma min_step: "min (min (a + 1) m + b) m = min (a + Suc b) (m::nat)"
  using min_absorb_partial [of "a + 1" m b] by simp

lemma min_word: "min (unat (w :: u32)) (2 ^ 32 - 1) = unat w"
proof -
  have "unat w < 2 ^ LENGTH(32)" by (rule unsigned_less)
  then show ?thesis by simp
qed

lemmas count_simps = unat_sat_add min_step [where m = 4294967295, simplified] min_word [simplified]

lemma adjudicate_loop_counts:
  "unat (ac_in_mempool (adjudicate_loop answer c ts)) =
     min (unat (ac_in_mempool c) + count_as answer Tx_InMempool ts) (2 ^ 32 - 1)"
  "unat (ac_mined (adjudicate_loop answer c ts)) =
     min (unat (ac_mined c) + count_as answer Tx_Mined ts) (2 ^ 32 - 1)"
  "unat (ac_unadjudicated (adjudicate_loop answer c ts)) =
     min (unat (ac_unadjudicated c) + count_as answer Tx_Unadjudicated ts) (2 ^ 32 - 1)"
  "unat (ac_still_absent (adjudicate_loop answer c ts)) =
     min (unat (ac_still_absent c) + count_as answer Tx_Absent ts) (2 ^ 32 - 1)"
  by (induction ts arbitrary: c) (simp_all add: count_simps split: TxAdjudication.splits)

lemma adjudicate_counts:
  "unat (adj_in_mempool (adjudicate tot ts answer)) = min (count_as answer Tx_InMempool ts) (2 ^ 32 - 1)"
  "unat (adj_mined (adjudicate tot ts answer)) = min (count_as answer Tx_Mined ts) (2 ^ 32 - 1)"
  "unat (adj_unadjudicated (adjudicate tot ts answer)) = min (count_as answer Tx_Unadjudicated ts) (2 ^ 32 - 1)"
  "unat (adj_still_absent (adjudicate tot ts answer)) = min (count_as answer Tx_Absent ts) (2 ^ 32 - 1)"
  "adj_total (adjudicate tot ts answer) = tot"
  "adj_unknown_before (adjudicate tot ts answer) = clamp_nat (length ts)"
  by (simp_all add: adjudicate_def Let_def adjudicate_loop_counts adj_counts_zero_def)

lemma adjudicate_walk_fields:
  "adj_block_walk_shortfall (adjudicate tot ts answer) = ans_block_walk_shortfall answer"
  by (simp add: adjudicate_def Let_def)

definition not_known :: "BitcoindAnswer \<Rightarrow> hash32 \<Rightarrow> bool" where
  "not_known answer t \<longleftrightarrow> classify t answer = Tx_Absent \<or> classify t answer = Tx_Unadjudicated"

lemma count_not_known:
  "count_as answer Tx_Absent ts + count_as answer Tx_Unadjudicated ts = length (filter (not_known answer) ts)"
  by (induction ts) (auto simp: not_known_def)

lemma not_proven_known_eq:
  "not_proven_known (adjudicate tot ts answer) = clamp_nat (length (filter (not_known answer) ts))"
proof -
  have "min (min a m + min b m) m = min (a + b) m" for a b m :: nat by (auto simp: min_def)
  from this [of _ 4294967295] show ?thesis
    by (simp add: not_proven_known_def word_unat_eq_iff unat_sat_add unat_clamp_nat adjudicate_counts
        flip: count_not_known)
qed

lemma still_exceeds_eq:
  "still_exceeds (adjudicate tot ts answer) tol =
     exceeds_tolerance (clamp_nat (length (filter (not_known answer) ts))) tot tol"
  by (simp add: still_exceeds_def not_proven_known_eq adjudicate_counts)

text \<open>The recount stays within the first count: what exceeds after it exceeded before it.\<close>

lemma still_exceeds_imp_first_pass:
  assumes "still_exceeds (adjudicate tot ts answer) tol"
  shows "exceeds_tolerance (clamp_nat (length ts)) tot tol"
  using class_m.recount_never_creates [of ts "not_known answer" "\<lambda>_. True"] assms
  by (simp add: still_exceeds_eq)

text \<open>A fuller answer, one that knows at least the same transactions, withdraws at least as much.\<close>

lemma still_exceeds_antimono:
  assumes "ans_present_in_mempool a \<union> ans_recent_block_txids a
      \<subseteq> ans_present_in_mempool b \<union> ans_recent_block_txids b"
    and "still_exceeds (adjudicate tot ts b) tol"
  shows "still_exceeds (adjudicate tot ts a) tol"
proof -
  have "not_known a t" if "not_known b t" for t
    using that assms(1) by (auto simp: not_known_def classify_def split: if_splits)
  then show ?thesis
    using class_m.recount_never_creates [of ts "not_known b" "not_known a"] assms(2)
    by (simp add: still_exceeds_eq)
qed

lemma sample_within:
  "length (ac_sample c) \<le> ABSENT_SAMPLE_CAP \<Longrightarrow> length (ac_sample (adjudicate_loop answer c ts)) \<le> ABSENT_SAMPLE_CAP"
  by (induction ts arbitrary: c) (simp_all split: TxAdjudication.splits)

lemma sample_absent:
  "set (ac_sample (adjudicate_loop answer c ts)) \<subseteq>
     set (ac_sample c) \<union> {t \<in> set ts. classify t answer = Tx_Absent}"
proof (induction ts arbitrary: c)
  case (Cons t ts)
  show ?case
  proof (cases "classify t answer")
    case Tx_Absent
    then show ?thesis
      using Cons.IH [of "c\<lparr>ac_still_absent := sat_add (ac_still_absent c) 1,
        ac_sample := (if length (ac_sample c) < ABSENT_SAMPLE_CAP then ac_sample c @ [t] else ac_sample c)\<rparr>"]
      by (auto split: if_splits)
  qed (use Cons.IH in fastforce)+
qed simp

section \<open>The block walk\<close>

inductive ancestor :: "hex_crate \<Rightarrow> bitcoind \<Rightarrow> string \<Rightarrow> string \<Rightarrow> bool" for X N where
  self: "ancestor X N h h"
| parent: "get_block_txids X N h = Ok b \<Longrightarrow> bt_previous_block_hash b = Some p \<Longrightarrow>
    ancestor X N p h' \<Longrightarrow> ancestor X N h h'"

inductive_simps ancestor_unfold: "ancestor X N h h'"

text \<open>The documented chain rule the walk relies on: a parent is one block lower.\<close>

definition heights_descend :: "hex_crate \<Rightarrow> bitcoind \<Rightarrow> bool" where
  "heights_descend X N \<longleftrightarrow>
     (\<forall>h b p b'. get_block_txids X N h = Ok b \<and> bt_previous_block_hash b = Some p \<and>
        get_block_txids X N p = Ok b' \<longrightarrow> unat (bt_height b') + 1 = unat (bt_height b))"

definition mined_at_or_above :: "hex_crate \<Rightarrow> bitcoind \<Rightarrow> u32 \<Rightarrow> string \<Rightarrow> hash32 set" where
  "mined_at_or_above X N template_height h =
     {t. \<exists>h' b. ancestor X N h h' \<and> get_block_txids X N h' = Ok b \<and>
           template_height \<le> bt_height b \<and> t \<in> set (bt_txids b)}"

lemma mined_unfold:
  assumes "get_block_txids X N h = Ok b"
  shows "mined_at_or_above X N th h =
    (if th \<le> bt_height b then set (bt_txids b) else {}) \<union>
    (case bt_previous_block_hash b of None \<Rightarrow> {} | Some p \<Rightarrow> mined_at_or_above X N th p)"
  (is "?l = ?r")
proof (rule set_eqI)
  fix t
  show "t \<in> ?l \<longleftrightarrow> t \<in> ?r"
    using assms unfolding mined_at_or_above_def
    by (subst ancestor_unfold) (auto split: option.splits if_splits)
qed

lemma ancestor_height:
  assumes "heights_descend X N" and "ancestor X N h h'"
    and "get_block_txids X N h = Ok b" and "get_block_txids X N h' = Ok b'"
  shows "unat (bt_height b') \<le> unat (bt_height b)"
  using assms(2-4)
proof (induction arbitrary: b rule: ancestor.induct)
  case (self h)
  then show ?case by simp
next
  case (parent h c p h')
  show ?case
  proof (cases "get_block_txids X N p")
    case (Inl e)
    with parent.hyps(3) parent.prems(2) show ?thesis by (auto elim: ancestor.cases)
  next
    case (Inr q)
    then have "unat (bt_height b') \<le> unat (bt_height q)" using parent by simp
    moreover have "unat (bt_height q) + 1 = unat (bt_height b)"
      using assms(1) parent.hyps(1,2) parent.prems(1) Inr unfolding heights_descend_def by auto
    ultimately show ?thesis by linarith
  qed
qed

lemma mined_below:
  assumes "heights_descend X N" and "get_block_txids X N h = Ok b" and "bt_height b < th"
  shows "mined_at_or_above X N th h = {}"
  using ancestor_height [OF assms(1) _ assms(2)] assms(3)
  by (fastforce simp: mined_at_or_above_def word_le_nat_alt word_less_nat_alt)

lemma mined_parent_below:
  assumes "heights_descend X N" and "get_block_txids X N h = Ok b"
    and "bt_previous_block_hash b = Some p" and "bt_height b \<le> th"
  shows "mined_at_or_above X N th p = {}"
proof (cases "get_block_txids X N p")
  case (Inl e)
  then show ?thesis by (auto simp: mined_at_or_above_def elim: ancestor.cases)
next
  case (Inr q)
  then have "unat (bt_height q) + 1 = unat (bt_height b)"
    using assms(1-3) unfolding heights_descend_def by auto
  then show ?thesis
    using assms(1,4) Inr by (intro mined_below) (auto simp: word_le_nat_alt word_less_nat_alt)
qed

declare walk_blocks.simps [simp del]

text \<open>One turn of the walk, with the tip height and the collected set it goes on with.\<close>

lemma walk_blocks_turn:
  fixes tip :: "u32 option" and collected :: "hash32 set" and scanned :: u32
  assumes "get_block_txids X N h = Ok b"
  defines "tip' \<equiv> (case tip of None \<Rightarrow> Some (bt_height b) | Some t \<Rightarrow> Some t)"
    and "collected' \<equiv> collected \<union> set (bt_txids b)" and "scanned' \<equiv> sat_add scanned 1"
  shows "walk_blocks X N th collected scanned tip h =
    (if bt_height b < th then Walk_Complete collected scanned tip'
     else if bt_height b = th \<or> bt_previous_block_hash b = None then Walk_Complete collected' scanned' tip'
     else if MAX_RECENT_BLOCKS_SCANNED \<le> scanned' then Walk_Truncated collected' scanned' tip'
     else walk_blocks X N th collected' scanned' tip' (the (bt_previous_block_hash b)))"
  using assms by (simp add: walk_blocks.simps [of X N th _ _ _ h] Let_def split: option.splits)

lemma walk_blocks_failed:
  "get_block_txids X N h = Err e \<Longrightarrow>
     walk_blocks X N th collected scanned tip h = Walk_Failed collected scanned tip (rpc_error_to_string e)"
  by (simp add: walk_blocks.simps)

lemma walk_blocks_collects:
  assumes "heights_descend X N"
  shows "wc_txids (walk_blocks X N th collected scanned tip h) \<subseteq> collected \<union> mined_at_or_above X N th h \<and>
    (is_complete (walk_blocks X N th collected scanned tip h) \<longrightarrow>
       wc_txids (walk_blocks X N th collected scanned tip h) = collected \<union> mined_at_or_above X N th h)"
  using assms
proof (induction X N th collected scanned tip h rule: walk_blocks.induct)
  case (1 X N th collected scanned tip h)
  show ?case
  proof (cases "get_block_txids X N h")
    case (Inl e)
    then show ?thesis by (simp add: walk_blocks_failed)
  next
    case (Inr b)
    note turn = walk_blocks_turn [OF Inr, of th collected scanned tip]
    note mined = mined_unfold [OF Inr, of th]
    consider (below) "bt_height b < th" | (last_one) "bt_height b = th"
      | (genesis) "th < bt_height b" "bt_previous_block_hash b = None"
      | (more) p where "th < bt_height b" "bt_previous_block_hash b = Some p"
      using less_linear [of "bt_height b" th] by (cases "bt_previous_block_hash b") auto
    then show ?thesis
    proof cases
      case below
      then show ?thesis using mined_below [OF "1.prems" Inr below] by (simp add: turn)
    next
      case last_one
      then show ?thesis
        using mined_parent_below [OF "1.prems" Inr, of _ th] by (simp add: turn mined split: option.splits)
    next
      case genesis
      then have "th \<le> bt_height b" "\<not> bt_height b < th" "bt_height b \<noteq> th" by auto
      then show ?thesis using genesis(2) by (simp add: turn mined)
    next
      case (more p)
      then have above: "th \<le> bt_height b" "\<not> bt_height b < th" "bt_height b \<noteq> th" by auto
      show ?thesis
      proof (cases "MAX_RECENT_BLOCKS_SCANNED \<le> sat_add scanned 1")
        case True
        then show ?thesis using above more(2) by (simp add: turn mined) blast
      next
        case False
        then show ?thesis
          using "1.IH" [OF Inr refl above(2) refl refl above(3) more(2) False "1.prems"] above more(2)
          by (simp add: turn mined Un_assoc)
      qed
    qed
  qed
qed

lemma walk_blocks_scanned:
  "scanned < MAX_RECENT_BLOCKS_SCANNED \<Longrightarrow>
    wc_scanned (walk_blocks X N th collected scanned tip h) \<le> MAX_RECENT_BLOCKS_SCANNED"
proof (induction X N th collected scanned tip h rule: walk_blocks.induct)
  case (1 X N th collected scanned tip h)
  have step: "sat_add scanned 1 \<le> MAX_RECENT_BLOCKS_SCANNED"
    using "1.prems" by (simp add: word_le_nat_alt word_less_nat_alt unat_sat_add MAX_RECENT_BLOCKS_SCANNED_def)
  show ?case
  proof (cases "get_block_txids X N h")
    case (Inl e)
    then show ?thesis using "1.prems" by (simp add: walk_blocks_failed)
  next
    case (Inr b)
    note turn = walk_blocks_turn [OF Inr, of th collected scanned tip]
    show ?thesis
    proof (cases "\<not> bt_height b < th \<and> bt_height b \<noteq> th \<and> bt_previous_block_hash b \<noteq> None \<and>
        \<not> MAX_RECENT_BLOCKS_SCANNED \<le> sat_add scanned 1")
      case True
      then show ?thesis using "1.IH" [OF Inr refl _ refl refl] by (auto simp: turn)
    next
      case False
      then show ?thesis using step "1.prems" by (auto simp: turn)
    qed
  qed
qed

section \<open>The probes\<close>

declare chunks.simps [simp del]

lemma concat_chunks: "0 < n \<Longrightarrow> concat (chunks n xs) = xs"
proof (induction n xs rule: chunks.induct)
  case (1 n xs)
  then show ?case by (cases "xs = []") (simp_all add: chunks.simps [of n])
qed

lemma length_in_chunks: "c \<in> set (chunks n xs) \<Longrightarrow> length c \<le> n"
proof (induction n xs rule: chunks.induct)
  case (1 n xs)
  then show ?case by (cases "xs = [] \<or> n = 0") (auto simp: chunks.simps [of n xs])
qed

lemma record_probes_eq:
  "record_probes acc ps =
     (fst acc \<union> {t. (t, Probe_Present) \<in> set ps},
      snd acc \<union> {t. \<exists>r. (t, Probe_Unadjudicated r) \<in> set ps})"
  by (induction acc ps rule: record_probes.induct) (auto split: MempoolProbe.splits)

lemma probe_chunks_step:
  "probe_chunks X N acc (c # cs) = Ok acc' \<longleftrightarrow>
    (\<exists>probes. probe_mempool X N c = Ok probes \<and> probe_chunks X N (record_probes acc (zip c probes)) cs = Ok acc')"
  by (cases "probe_mempool X N c") auto

lemma probe_chunks_mono:
  "probe_chunks X N acc cs = Ok acc' \<Longrightarrow> fst acc \<subseteq> fst acc' \<and> snd acc \<subseteq> snd acc'"
proof (induction cs arbitrary: acc)
  case (Cons c cs)
  then show ?case by (fastforce simp: probe_chunks_step record_probes_eq simp del: probe_chunks.simps)
qed simp

lemma probe_chunks_absent:
  assumes "probe_chunks X N acc cs = Ok (present, unadj)"
    and "t \<in> set (concat cs)" and "t \<notin> present" and "t \<notin> unadj"
  shows "\<exists>c \<in> set cs. \<exists>probes i. probe_mempool X N c = Ok probes \<and> i < length c \<and> c ! i = t \<and>
    probes ! i = Probe_Absent"
  using assms
proof (induction cs arbitrary: acc)
  case Nil
  then show ?case by simp
next
  case (Cons c cs)
  from Cons.prems(1) obtain probes where p: "probe_mempool X N c = Ok probes"
    and rest: "probe_chunks X N (record_probes acc (zip c probes)) cs = Ok (present, unadj)"
    unfolding probe_chunks_step by blast
  show ?case
  proof (cases "t \<in> set c")
    case True
    then obtain i where i: "i < length c" "c ! i = t" by (auto simp: in_set_conv_nth)
    have "(t, probes ! i) \<in> set (zip c probes)"
      using i probe_mempool_length [OF p] by (auto simp: in_set_zip)
    then have "probes ! i = Probe_Absent"
      using probe_chunks_mono [OF rest] Cons.prems(3,4)
      by (cases "probes ! i") (auto simp: record_probes_eq)
    then show ?thesis using p i by auto
  next
    case False
    then have "t \<in> set (concat cs)" using Cons.prems(2) by simp
    from Cons.IH [OF rest this Cons.prems(3,4)] show ?thesis by auto
  qed
qed

section \<open>What an answer establishes\<close>

lemma gather_Ok:
  assumes "gather X N hash_order th unknown = Ok answer"
  obtains info where "get_mempool_info N = Ok info" and "mi_loaded info" and "0 < mi_size info"
    and "ans_recent_block_txids answer = wc_txids (recent_blocks X N th)"
    and "ans_block_walk_shortfall answer = shortfall (recent_blocks X N th)"
    and "probe_chunks X N ({}, {})
           (chunks MEMPOOL_PROBE_CHUNK
             (hash_order (set (filter (\<lambda>t. t \<notin> ans_recent_block_txids answer) unknown))))
         = Ok (ans_present_in_mempool answer, ans_unadjudicated answer)"
    and "ans_blocks_scanned answer = wc_scanned (recent_blocks X N th)"
proof -
  let ?c = "recent_blocks X N th"
  obtain tr where parts: "walk_parts ?c = (wc_txids ?c, wc_scanned ?c, wc_tip ?c, tr)"
    by (cases ?c) auto
  from assms show ?thesis
    by (auto simp: gather_def Let_def parts MIN_INSTALLABLE_MEMPOOL_SIZE_def
        split: sum.splits if_splits intro!: that)
qed

lemma shortfall_None_iff: "shortfall c = None \<longleftrightarrow> is_complete c"
  by (cases c) auto

lemma recent_blocks_complete:
  assumes "heights_descend X N" and "is_complete (recent_blocks X N th)"
  shows "\<exists>tip. get_best_block_hash N = Ok tip \<and>
    wc_txids (recent_blocks X N th) = mined_at_or_above X N th tip"
proof (cases "get_best_block_hash N")
  case (Inl e)
  then show ?thesis using assms(2) by (simp add: recent_blocks_def)
next
  case (Inr tip)
  then show ?thesis
    using assms(2) walk_blocks_collects [OF assms(1), of th "{}" 0 None tip] by (simp add: recent_blocks_def)
qed

text \<open>bitcoind told the client, in the one attributable reply of the batch that asked, that it does
  not hold the transaction.\<close>

definition bitcoind_denies :: "hex_crate \<Rightarrow> bitcoind \<Rightarrow> hash32 \<Rightarrow> bool" where
  "bitcoind_denies X N t \<longleftrightarrow>
     (\<exists>chunk i responses. length chunk \<le> MEMPOOL_PROBE_CHUNK \<and> i < length chunk \<and> chunk ! i = t \<and>
        http_batch_getmempoolentry N (batch_requests (probe_params X chunk)) = Inr responses \<and>
        proves_absence responses i)"

lemma gather_absent_denied:
  assumes g: "gather X N hash_order th unknown = Ok answer"
    and order: "\<And>S. finite S \<Longrightarrow> set (hash_order S) = S"
    and t: "t \<in> set unknown" and absent: "classify t answer = Tx_Absent"
  shows "bitcoind_denies X N t"
proof -
  from absent have out: "t \<notin> ans_present_in_mempool answer" "t \<notin> ans_recent_block_txids answer"
    "t \<notin> ans_unadjudicated answer"
    by (auto simp: classify_def split: if_splits)
  from g obtain info where
    probed: "probe_chunks X N ({}, {})
           (chunks MEMPOOL_PROBE_CHUNK
             (hash_order (set (filter (\<lambda>t. t \<notin> ans_recent_block_txids answer) unknown))))
         = Ok (ans_present_in_mempool answer, ans_unadjudicated answer)"
    by (rule gather_Ok)
  let ?cs = "chunks MEMPOOL_PROBE_CHUNK
             (hash_order (set (filter (\<lambda>t. t \<notin> ans_recent_block_txids answer) unknown)))"
  have "t \<in> set (concat ?cs)"
    using t out(2) by (simp add: concat_chunks MEMPOOL_PROBE_CHUNK_def order)
  from probe_chunks_absent [OF probed this out(1,3)] obtain c probes i
    where c: "c \<in> set ?cs" "probe_mempool X N c = Ok probes" "i < length c" "c ! i = t" "probes ! i = Probe_Absent"
    by blast
  from probe_mempool_Absent [OF c(2,3)] c(5) obtain responses where
    "http_batch_getmempoolentry N (batch_requests (probe_params X c)) = Inr responses" "proves_absence responses i"
    by blast
  then show ?thesis
    unfolding bitcoind_denies_def using c(3,4) length_in_chunks [OF c(1)] by blast
qed

lemma gather_absent_unmined:
  assumes g: "gather X N hash_order th unknown = Ok answer"
    and "heights_descend X N" and "ans_block_walk_shortfall answer = None"
    and absent: "classify t answer = Tx_Absent"
  shows "\<exists>tip. get_best_block_hash N = Ok tip \<and> t \<notin> mined_at_or_above X N th tip"
proof -
  from g obtain info where recent: "ans_recent_block_txids answer = wc_txids (recent_blocks X N th)"
    and short: "ans_block_walk_shortfall answer = shortfall (recent_blocks X N th)"
    by (rule gather_Ok)
  have "is_complete (recent_blocks X N th)" using short assms(3) by (simp flip: shortfall_None_iff)
  from recent_blocks_complete [OF assms(2) this] absent recent show ?thesis
    by (auto simp: classify_def split: if_splits)
qed

section \<open>Properties\<close>

text \<open>The adjudication accounts for every transaction put to bitcoind exactly once: the four
  counts add up to the number asked about, and the sample lists at most 32 of those found
  absent and no other.\<close>

theorem adjudication_accounts:
  assumes "length ts < 2 ^ 32"
  shows "unat (adj_in_mempool (adjudicate tot ts answer)) + unat (adj_mined (adjudicate tot ts answer)) +
      unat (adj_unadjudicated (adjudicate tot ts answer)) + unat (adj_still_absent (adjudicate tot ts answer))
        = length ts \<and>
    unat (adj_unknown_before (adjudicate tot ts answer)) = length ts \<and>
    length (adj_still_absent_sample (adjudicate tot ts answer)) \<le> 32 \<and>
    set (adj_still_absent_sample (adjudicate tot ts answer)) \<subseteq> {t \<in> set ts. classify t answer = Tx_Absent}"
proof -
  have "count_as answer k ts < 2 ^ 32" for k
    using assms length_filter_le [of _ ts] unfolding count_as_def by (rule le_less_trans [rotated])
  then have small: "min (count_as answer k ts) (2 ^ 32 - 1) = count_as answer k ts" for k
    by (metis Suc_pred' less_Suc_eq_le min.absorb1 zero_less_numeral zero_less_power)
  show ?thesis
    using assms count_as_partition [of answer ts] sample_within [of adj_counts_zero answer ts]
      sample_absent [of answer adj_counts_zero ts]
    unfolding adjudicate_counts small
    by (simp add: unat_clamp_nat adjudicate_def Let_def adj_counts_zero_def ABSENT_SAMPLE_CAP_def)
qed

definition ex_answer :: BitcoindAnswer where
  "ex_answer = \<lparr>ans_present_in_mempool = {[1]}, ans_unadjudicated = {}, ans_recent_block_txids = {[2]},
     ans_blocks_scanned = 1, ans_block_walk_truncated = False, ans_tip_height = Some 9,
     ans_block_walk_shortfall = None\<rparr>"

theorem adjudication_accounts_witness:
  "unat (adj_still_absent (adjudicate 9 [[1], [2], [3]] ex_answer)) = 1"
  using adjudication_accounts [of "[[1], [2], [3]]" 9 ex_answer]
  by (simp add: adjudicate_def classify_def ex_answer_def adj_counts_zero_def unat_sat_add)

text \<open>Evidence only helps the template: if one answer finds every transaction another finds
  (in the mempool or mined), a rejection it upholds is upheld under the other as well.\<close>

theorem more_evidence_never_upholds:
  assumes "ans_present_in_mempool a \<union> ans_recent_block_txids a
      \<subseteq> ans_present_in_mempool b \<union> ans_recent_block_txids b"
    and "still_exceeds (adjudicate tot ts b) tol"
  shows "still_exceeds (adjudicate tot ts a) tol"
  by (rule still_exceeds_antimono [OF assms])

theorem more_evidence_never_upholds_witness:
  "still_exceeds (adjudicate 1 [[3]] (ex_answer\<lparr>ans_present_in_mempool := {}\<rparr>)) (F64 4)"
proof (rule more_evidence_never_upholds [of _ ex_answer])
  show "still_exceeds (adjudicate 1 [[3]] ex_answer) (F64 4)"
    using exceeds_one_of_one [of 4]
    by (simp add: still_exceeds_eq not_known_def classify_def ex_answer_def clamp_nat_def)
qed (auto simp: ex_answer_def)

text \<open>C37. A completed block walk is exact: over a chain whose heights descend by one, it has
  collected precisely the transactions mined at or above the template's height on the chain
  of the reported tip; and complete or not, it fetched no more than six counted blocks.\<close>

theorem complete_walk_exact:
  assumes "heights_descend X N" and "is_complete (recent_blocks X N th)"
  shows "(\<exists>tip. get_best_block_hash N = Ok tip \<and>
      wc_txids (recent_blocks X N th) = mined_at_or_above X N th tip) \<and>
    wc_scanned (recent_blocks X N th) \<le> 6"
proof -
  have "wc_scanned (recent_blocks X N th) \<le> MAX_RECENT_BLOCKS_SCANNED"
    using walk_blocks_scanned [of 0] by (auto simp: recent_blocks_def MAX_RECENT_BLOCKS_SCANNED_def split: sum.splits)
  then show ?thesis using recent_blocks_complete [OF assms] by (simp add: MAX_RECENT_BLOCKS_SCANNED_def)
qed

definition ex_node :: bitcoind where
  "ex_node =
     \<lparr>http_getmempoolinfo = Inr \<lparr>jr_result = Some \<lparr>mi_size = 5, mi_loaded = True\<rparr>, jr_error = None\<rparr>,
      http_getrawmempool = Inr \<lparr>jr_result = Some [], jr_error = None\<rparr>,
      http_getbestblockhash = Inr \<lparr>jr_result = Some ''aa'', jr_error = None\<rparr>,
      http_getblock = (\<lambda>h. Inr \<lparr>jr_result = Some \<lparr>gb_height = 9, gb_tx = [], gb_previousblockhash = None\<rparr>,
                               jr_error = None\<rparr>),
      http_batch_getmempoolentry = (\<lambda>reqs. Inr
        [\<lparr>br_id = Some 0, br_result = None, br_error = Some \<lparr>je_code = - 5, je_message = ''not found''\<rparr>\<rparr>])\<rparr>"

lemma ex_node_block:
  "get_block_txids X ex_node h = Ok \<lparr>bt_height = 9, bt_txids = [], bt_previous_block_hash = None\<rparr>"
  by (simp add: get_block_txids_def call_def ex_node_def)

lemma ex_node_tip: "get_best_block_hash ex_node = Ok ''aa''"
  by (simp add: get_best_block_hash_def call_def ex_node_def)

lemma ex_node_descends: "heights_descend X ex_node"
  by (simp add: heights_descend_def ex_node_block)

lemma ex_node_walk: "recent_blocks X ex_node 9 = Walk_Complete {} 1 (Some 9)"
proof -
  have "sat_add 0 1 = (1 :: u32)" by (simp add: word_unat_eq_iff unat_sat_add)
  then show ?thesis
    by (simp add: recent_blocks_def ex_node_tip walk_blocks.simps [of _ _ _ "{}"] ex_node_block)
qed

theorem complete_walk_exact_witness:
  "mined_at_or_above lower_hex ex_node 9 ''aa'' = {}"
  using complete_walk_exact [OF ex_node_descends [of lower_hex], of 9]
  by (simp add: ex_node_walk ex_node_tip)

end
