(* ===== verification/RG_Connections.thy ===== *)
theory RG_Connections
  imports RG_Prelude "HOL-Library.Multiset"
begin

text \<open>
  Connection accounting of the verifier's ingress: the per-address tracker of
  \<open>services/reservegrid-common/src/per_ip.rs\<close> and the no-progress deadline with its
  shed-at-cap rule of \<open>services/pool-verifier/src/idle_stream.rs\<close>. A \<open>Duration\<close> or an
  \<open>Instant\<close> is its number of nanoseconds; the clock does not advance within one poll. The
  tracker's permits are the live elements of a multiset in its reachability relation, the
  deadline's life is a second step relation.
\<close>

section \<open>The per-address tracker (per\_ip.rs)\<close>

datatype IpAddr = V4 u32 | V6 u128

record PerIpConnectionTracker =
  pi_max_per_ip :: u32
  pi_counts :: "IpAddr \<rightharpoonup> u32"
  pi_poisoned :: bool

definition per_ip_new :: "u32 \<Rightarrow> PerIpConnectionTracker" where
  "per_ip_new max_per_ip = \<lparr>pi_max_per_ip = max_per_ip, pi_counts = Map.empty, pi_poisoned = False\<rparr>"

definition is_disabled :: "PerIpConnectionTracker \<Rightarrow> bool" where
  "is_disabled tr \<longleftrightarrow> pi_max_per_ip tr = 0"

definition current_count :: "PerIpConnectionTracker \<Rightarrow> IpAddr \<Rightarrow> u32" where
  "current_count tr ip = (case pi_counts tr ip of None \<Rightarrow> 0 | Some n \<Rightarrow> n)"

text \<open>\<open>Some permit\<close> is the flag \<open>True\<close>; the permit is for \<open>ip\<close>.\<close>

definition try_accept :: "PerIpConnectionTracker \<Rightarrow> IpAddr \<Rightarrow> bool \<times> PerIpConnectionTracker" where
  "try_accept tr ip =
     (if pi_max_per_ip tr = 0 then (True, tr)
      else if pi_poisoned tr then (False, tr)
      else let current = current_count tr ip in
        if pi_max_per_ip tr \<le> current then (False, tr)
        else (True, tr\<lparr>pi_counts := (pi_counts tr)(ip \<mapsto> current + 1)\<rparr>))"

definition drop_permit :: "PerIpConnectionTracker \<Rightarrow> IpAddr \<Rightarrow> PerIpConnectionTracker" where
  "drop_permit tr ip =
     (if pi_poisoned tr then tr
      else (case pi_counts tr ip of
              None \<Rightarrow> tr
            | Some n \<Rightarrow>
                let n' = sat_sub n 1 in
                if n' = 0 then tr\<lparr>pi_counts := (pi_counts tr)(ip := None)\<rparr>
                else tr\<lparr>pi_counts := (pi_counts tr)(ip \<mapsto> n')\<rparr>))"

definition count_for :: "PerIpConnectionTracker \<Rightarrow> IpAddr \<Rightarrow> u32" where
  "count_for tr ip = (if pi_poisoned tr then 0 else current_count tr ip)"

text \<open>The tracker with the addresses of the live permits; an accept that is refused, or a
  permit dropped, in any order.\<close>

inductive tracker :: "u32 \<Rightarrow> PerIpConnectionTracker \<Rightarrow> IpAddr multiset \<Rightarrow> bool" for m where
  fresh: "tracker m (per_ip_new m) {#}"
| accepted: "tracker m tr live \<Longrightarrow> try_accept tr ip = (True, tr') \<Longrightarrow> tracker m tr' (add_mset ip live)"
| refused: "tracker m tr live \<Longrightarrow> try_accept tr ip = (False, tr') \<Longrightarrow> tracker m tr' live"
| closed: "tracker m tr (add_mset ip live) \<Longrightarrow> tracker m (drop_permit tr ip) live"

definition tracker_inv :: "u32 \<Rightarrow> PerIpConnectionTracker \<Rightarrow> IpAddr multiset \<Rightarrow> bool" where
  "tracker_inv m tr live \<longleftrightarrow>
     pi_max_per_ip tr = m \<and> \<not> pi_poisoned tr \<and>
     (m = 0 \<longrightarrow> pi_counts tr = Map.empty) \<and>
     (m \<noteq> 0 \<longrightarrow> (\<forall>ip. unat (current_count tr ip) = count live ip \<and> count live ip \<le> unat m) \<and>
                (\<forall>ip n. pi_counts tr ip = Some n \<longrightarrow> n \<noteq> 0))"

lemma unat_Suc_below: "(a :: u32) < m \<Longrightarrow> unat (a + 1) = Suc (unat a)"
proof -
  assume "a < m"
  then have "unat a < unat m" by (simp add: word_less_nat_alt)
  moreover have "unat m < 2 ^ LENGTH(32)" by (rule unsigned_less)
  ultimately show ?thesis using unat_add_if_fits [of a 1] by simp
qed

lemma tracker_inv_accept:
  assumes inv: "tracker_inv m tr live" and acc: "try_accept tr ip = (ok, tr')"
  shows "tracker_inv m tr' (if ok then add_mset ip live else live)"
proof (cases "m = 0")
  case True
  then show ?thesis using assms by (auto simp: tracker_inv_def try_accept_def)
next
  case False
  then have room: "ok \<longleftrightarrow> current_count tr ip < m"
    and tr': "tr' = (if ok then tr\<lparr>pi_counts := (pi_counts tr)(ip \<mapsto> current_count tr ip + 1)\<rparr> else tr)"
    using assms by (auto simp: tracker_inv_def try_accept_def Let_def not_le split: if_splits)
  show ?thesis
  proof (cases ok)
    case True
    have cnt: "current_count tr' j = (if j = ip then current_count tr ip + 1 else current_count tr j)" for j
      using tr' True by (simp add: current_count_def)
    have "unat (current_count tr ip) < unat m" using room True by (simp add: word_less_nat_alt)
    moreover have "current_count tr ip + 1 \<noteq> 0"
      using unat_Suc_below [of "current_count tr ip" m] room True by auto
    ultimately show ?thesis
      using inv False True room tr' unat_Suc_below [of "current_count tr ip" m]
      unfolding tracker_inv_def cnt by (auto split: if_splits)
  qed (use inv tr' in simp)
qed

lemma tracker_inv_drop:
  assumes inv: "tracker_inv m tr (add_mset ip live)"
  shows "tracker_inv m (drop_permit tr ip) live"
proof (cases "m = 0")
  case True
  then show ?thesis using inv by (auto simp: tracker_inv_def drop_permit_def)
next
  case False
  have c: "unat (current_count tr j) = count (add_mset ip live) j" "count (add_mset ip live) j \<le> unat m" for j
    using inv False unfolding tracker_inv_def by blast+
  have "current_count tr ip \<noteq> 0" using c(1) [of ip] by auto
  then obtain n where n: "pi_counts tr ip = Some n" by (auto simp: current_count_def split: option.splits)
  then have un: "unat n = Suc (count live ip)" using c(1) [of ip] by (simp add: current_count_def)
  let ?n' = "sat_sub n 1"
  have un': "unat ?n' = count live ip" using un by (simp add: unat_sat_sub)
  have cnt: "unat (current_count (drop_permit tr ip) j) = count live j" for j
    using c(1) [of j] n un' inv
    by (auto simp: drop_permit_def tracker_inv_def Let_def current_count_def unat_eq_0)
  have le: "count live j \<le> unat m" for j using c(2) [of j] by (auto split: if_splits)
  show ?thesis
    using inv False cnt le n unfolding tracker_inv_def
    by (auto simp: drop_permit_def Let_def split: if_splits)
qed

lemma tracker_invariant: "tracker m tr live \<Longrightarrow> tracker_inv m tr live"
proof (induction rule: tracker.induct)
  case fresh
  then show ?case by (simp add: tracker_inv_def per_ip_new_def current_count_def)
next
  case (accepted tr live ip tr')
  then show ?case using tracker_inv_accept [of m tr live ip True tr'] by simp
next
  case (refused tr live ip tr')
  then show ?case using tracker_inv_accept [of m tr live ip False tr'] by simp
next
  case (closed tr ip live)
  then show ?case by (simp add: tracker_inv_drop)
qed

lemma tracker_entries:
  assumes "tracker m tr live" and "m \<noteq> 0"
  shows "dom (pi_counts tr) = set_mset live"
proof -
  have inv: "tracker_inv m tr live" using assms(1) by (rule tracker_invariant)
  have "ip \<in> dom (pi_counts tr) \<longleftrightarrow> 0 < count live ip" for ip
  proof -
    have "unat (current_count tr ip) = count live ip" using inv assms(2) by (simp add: tracker_inv_def)
    moreover have "ip \<in> dom (pi_counts tr) \<longleftrightarrow> current_count tr ip \<noteq> 0"
      using inv assms(2) by (auto simp: tracker_inv_def current_count_def split: option.splits)
    ultimately show ?thesis by (metis neq0_conv unat_eq_zero)
  qed
  then show ?thesis by auto
qed

section \<open>The heartbeat cadence (idle\_stream.rs)\<close>

definition NANOS_PER_MILLI :: nat where
  "NANOS_PER_MILLI = 1000000"

definition SHED_FLOOR :: nat where
  "SHED_FLOOR = 3000000000"

definition SHED_RECHECK :: nat where
  "SHED_RECHECK = 500000000"

definition CADENCE_LEARN_AFTER :: u32 where
  "CADENCE_LEARN_AFTER = 4"

definition shed_fallback :: "nat \<Rightarrow> nat" where
  "shed_fallback idle = max (idle div 4) 10000000000"

record HeartbeatCadence =
  hc_after_ms :: u64
  hc_started :: nat
  hc_heartbeats :: u32

definition cadence_new :: "u64 \<Rightarrow> nat \<Rightarrow> HeartbeatCadence" where
  "cadence_new after_ms started = \<lparr>hc_after_ms = after_ms, hc_started = started, hc_heartbeats = 0\<rparr>"

definition cadence_observe :: "nat \<Rightarrow> HeartbeatCadence \<Rightarrow> HeartbeatCadence" where
  "cadence_observe now c =
     (let c' = c\<lparr>hc_heartbeats := sat_add (hc_heartbeats c) 1\<rparr> in
      if hc_heartbeats c' < CADENCE_LEARN_AFTER then c'
      else let per_interval = (now - hc_started c') div unat (hc_heartbeats c' - 1);
               after = max (per_interval * 2) SHED_FLOOR
           in c'\<lparr>hc_after_ms := clamp_nat (after div NANOS_PER_MILLI)\<rparr>)"

lemma cadence_observe_fields [simp]:
  "hc_started (cadence_observe now c) = hc_started c"
  "hc_heartbeats (cadence_observe now c) = sat_add (hc_heartbeats c) 1"
  by (simp_all add: cadence_observe_def Let_def)

lemma cadence_fold_fields:
  "hc_started (fold cadence_observe ts c) = hc_started c"
  "unat (hc_heartbeats (fold cadence_observe ts c)) = min (unat (hc_heartbeats c) + length ts) (2 ^ 32 - 1)"
proof (induction ts arbitrary: c)
  case Nil
  { case 1 then show ?case by simp
  next case 2
    have "unat (hc_heartbeats c) < 2 ^ LENGTH(32)" by (rule unsigned_less)
    then show ?case by simp }
next
  case (Cons t ts)
  { case 1 then show ?case by (simp add: Cons.IH)
  next case 2 then show ?case
      using min_absorb_partial [of "unat (hc_heartbeats c) + 1" 4294967295 "length ts"]
      by (simp add: Cons.IH unat_sat_add) }
qed

text \<open>One learned threshold: never under the floor, and never under twice an interval that the
  elapsed time allows.\<close>

lemma cadence_observe_learned:
  assumes "CADENCE_LEARN_AFTER \<le> sat_add (hc_heartbeats c) 1"
    and "hc_started c + unat (hc_heartbeats c) * H \<le> now"
  shows "min (max (2 * H) SHED_FLOOR div NANOS_PER_MILLI) (2 ^ 64 - 1)
      \<le> unat (hc_after_ms (cadence_observe now c))"
proof -
  let ?n = "sat_add (hc_heartbeats c) 1"
  have n: "unat ?n = min (unat (hc_heartbeats c) + 1) (2 ^ 32 - 1)" by (simp add: unat_sat_add)
  have n4: "4 \<le> unat ?n" using assms(1) by (simp add: CADENCE_LEARN_AFTER_def word_le_nat_alt)
  have pred: "unat (?n - 1) = unat ?n - 1"
    using n4 by (subst unat_sub) (auto simp: word_le_nat_alt)
  have "unat (?n - 1) \<le> unat (hc_heartbeats c)" and pos: "0 < unat (?n - 1)"
    using n n4 by (auto simp: pred)
  then have "unat (?n - 1) * H \<le> unat (hc_heartbeats c) * H" by (simp only: mult_le_mono1)
  then have "unat (?n - 1) * H \<le> now - hc_started c" using assms(2) by linarith
  then have "H \<le> (now - hc_started c) div unat (?n - 1)"
    using pos by (simp add: less_eq_div_iff_mult_less_eq mult.commute)
  then have "max (2 * H) SHED_FLOOR \<le> max ((now - hc_started c) div unat (?n - 1) * 2) SHED_FLOOR" by auto
  then have "max (2 * H) SHED_FLOOR div NANOS_PER_MILLI
      \<le> max ((now - hc_started c) div unat (?n - 1) * 2) SHED_FLOOR div NANOS_PER_MILLI"
    by (rule div_le_mono)
  then show ?thesis
    using assms(1) by (simp add: cadence_observe_def Let_def unat_clamp_nat not_less)
qed

lemma cadence_learned_threshold:
  assumes "\<And>i. i < length ts \<Longrightarrow> started + i * H \<le> ts ! i" and "4 \<le> length ts"
  shows "min (max (2 * H) SHED_FLOOR div NANOS_PER_MILLI) (2 ^ 64 - 1)
      \<le> unat (hc_after_ms (fold cadence_observe ts (cadence_new a started)))"
proof -
  obtain us t where ts: "ts = us @ [t]" using assms(2) by (cases ts rule: rev_cases) auto
  let ?c = "fold cadence_observe us (cadence_new a started)"
  have st: "hc_started ?c = started" by (simp add: cadence_fold_fields cadence_new_def)
  have hb: "unat (hc_heartbeats ?c) = min (length us) (2 ^ 32 - 1)"
    by (simp add: cadence_fold_fields cadence_new_def)
  have "started + length us * H \<le> t" using assms(1) [of "length us"] ts by (simp add: nth_append)
  then have "hc_started ?c + unat (hc_heartbeats ?c) * H \<le> t"
    unfolding st hb using mult_le_mono1 [OF min.cobounded1 [of "length us" "2 ^ 32 - 1"], of H] by linarith
  moreover have "CADENCE_LEARN_AFTER \<le> sat_add (hc_heartbeats ?c) 1"
    using hb assms(2) ts by (simp add: CADENCE_LEARN_AFTER_def word_le_nat_alt unat_sat_add)
  ultimately show ?thesis using cadence_observe_learned [of ?c H t] ts by simp
qed

section \<open>The idle deadline and the shed-at-cap rule\<close>

text \<open>\<open>sc_after_ms\<close> is the atomic the cadence publishes to, \<open>sc_shed\<close> the flag the task reads.\<close>

record ShedAtCap =
  sc_per_ip :: PerIpConnectionTracker
  sc_ip :: IpAddr
  sc_after_ms :: u64
  sc_shed :: bool

definition shed_after :: "ShedAtCap \<Rightarrow> nat" where
  "shed_after s = unat (sc_after_ms s) * NANOS_PER_MILLI"

definition address_full :: "ShedAtCap \<Rightarrow> bool" where
  "address_full s \<longleftrightarrow>
     pi_max_per_ip (sc_per_ip s) \<noteq> 0 \<and> pi_max_per_ip (sc_per_ip s) \<le> count_for (sc_per_ip s) (sc_ip s)"

record IdleTimeout =
  it_idle :: nat
  it_deadline :: nat
  it_last_progress :: nat
  it_reaped :: bool
  it_shed :: "ShedAtCap option"

definition idle_timeout_new :: "nat \<Rightarrow> nat \<Rightarrow> IdleTimeout" where
  "idle_timeout_new idle now =
     \<lparr>it_idle = idle, it_deadline = now + idle, it_last_progress = now, it_reaped = False, it_shed = None\<rparr>"

definition first_look :: "IdleTimeout \<Rightarrow> nat" where
  "first_look t =
     (let idle = it_last_progress t + it_idle t in
      case it_shed t of
        Some shed \<Rightarrow> min (it_last_progress t + shed_after shed) idle
      | None \<Rightarrow> idle)"

definition with_shed_at_cap :: "IdleTimeout \<Rightarrow> ShedAtCap \<Rightarrow> IdleTimeout" where
  "with_shed_at_cap t shed = (let t' = t\<lparr>it_shed := Some shed\<rparr> in t'\<lparr>it_deadline := first_look t'\<rparr>)"

definition made_progress :: "nat \<Rightarrow> IdleTimeout \<Rightarrow> IdleTimeout" where
  "made_progress now t =
     (let t' = t\<lparr>it_last_progress := now\<rparr> in t'\<lparr>it_deadline := first_look t'\<rparr>)"

datatype NoProgress = Np_Pending | Np_Reaped | Np_Shed

definition next_look :: "IdleTimeout \<Rightarrow> nat \<Rightarrow> nat" where
  "next_look t now =
     (let silent = now - it_last_progress t; idle_at = it_last_progress t + it_idle t in
      case it_shed t of
        Some shed \<Rightarrow>
          let after = shed_after shed;
              at = (if silent < after then it_last_progress t + after else now + SHED_RECHECK)
          in min at idle_at
      | None \<Rightarrow> idle_at)"

definition poll_no_progress :: "nat \<Rightarrow> IdleTimeout \<Rightarrow> NoProgress \<times> IdleTimeout" where
  "poll_no_progress now t =
     (if now < it_deadline t then (Np_Pending, t)
      else let silent = now - it_last_progress t in
        if it_idle t \<le> silent then (Np_Reaped, t\<lparr>it_reaped := True\<rparr>)
        else (case it_shed t of
                Some shed \<Rightarrow>
                  if shed_after shed \<le> silent \<and> address_full shed
                  then (Np_Shed, t\<lparr>it_shed := Some (shed\<lparr>sc_shed := True\<rparr>)\<rparr>)
                  else (Np_Pending, t\<lparr>it_deadline := next_look t now\<rparr>)
              | None \<Rightarrow> (Np_Pending, t\<lparr>it_deadline := next_look t now\<rparr>)))"

text \<open>The poll loop turns once: what it re-arms lies in the future and within the idle budget.\<close>

lemma next_look_future:
  assumes "now - it_last_progress t < it_idle t"
  shows "now < next_look t now" and "next_look t now \<le> it_last_progress t + it_idle t"
  using assms by (auto simp: next_look_def Let_def SHED_RECHECK_def min_def split: option.splits)

text \<open>The life of one wrapped stream up to its end: bytes move, polls find nothing, the cadence
  publishes a new threshold, the occupancy of the address changes.\<close>

inductive idle_run :: "nat \<Rightarrow> IdleTimeout \<Rightarrow> bool" for idle where
  opened: "idle_run idle (idle_timeout_new idle now)"
| shedding: "idle_run idle t \<Longrightarrow> idle_run idle (with_shed_at_cap t shed)"
| progressed: "idle_run idle t \<Longrightarrow> idle_run idle (made_progress now t)"
| pending: "idle_run idle t \<Longrightarrow> poll_no_progress now t = (Np_Pending, t') \<Longrightarrow> idle_run idle t'"
| published: "idle_run idle t \<Longrightarrow> it_shed t = Some shed \<Longrightarrow>
    idle_run idle (t\<lparr>it_shed := Some (shed\<lparr>sc_after_ms := a\<rparr>)\<rparr>)"
| occupancy: "idle_run idle t \<Longrightarrow> it_shed t = Some shed \<Longrightarrow>
    idle_run idle (t\<lparr>it_shed := Some (shed\<lparr>sc_per_ip := tr\<rparr>)\<rparr>)"

lemma first_look_le: "first_look t \<le> it_last_progress t + it_idle t"
  by (auto simp: first_look_def Let_def split: option.splits)

lemma idle_run_deadline:
  "idle_run idle t \<Longrightarrow> it_idle t = idle \<and> it_deadline t \<le> it_last_progress t + idle"
proof (induction rule: idle_run.induct)
  case (opened now)
  then show ?case by (simp add: idle_timeout_new_def)
next
  case (shedding t shed)
  then show ?case using first_look_le [of "t\<lparr>it_shed := Some shed\<rparr>"] by (simp add: with_shed_at_cap_def Let_def)
next
  case (progressed t now)
  then show ?case using first_look_le [of "t\<lparr>it_last_progress := now\<rparr>"] by (simp add: made_progress_def Let_def)
next
  case (pending t now t')
  then show ?case
    using next_look_future(2) [of now t]
    by (auto simp: poll_no_progress_def Let_def split: if_splits option.splits)
qed simp_all

lemma poll_no_progress_outcome:
  assumes "poll_no_progress now t = (out, t')"
  shows "out = Np_Reaped \<longleftrightarrow> it_deadline t \<le> now \<and> it_idle t \<le> now - it_last_progress t"
    and "out = Np_Shed \<longleftrightarrow> it_deadline t \<le> now \<and> now - it_last_progress t < it_idle t \<and>
      (\<exists>shed. it_shed t = Some shed \<and> shed_after shed \<le> now - it_last_progress t \<and> address_full shed)"
  using assms by (auto simp: poll_no_progress_def Let_def split: if_splits option.splits)

section \<open>Properties\<close>

text \<open>Through any interleaving of accepts, refusals and closes, the tracker counts exactly the
  live connections of each address, never lets an address exceed its limit, and remembers
  exactly the addresses with a live connection.\<close>

theorem connection_cap_holds:
  assumes "tracker m tr live" and "m \<noteq> 0"
  shows "unat (count_for tr ip) = count live ip \<and> count live ip \<le> unat m \<and>
    dom (pi_counts tr) = set_mset live"
  using tracker_invariant [OF assms(1)] tracker_entries [OF assms] assms(2)
  by (simp add: tracker_inv_def count_for_def)

theorem connection_cap_holds_witness:
  "\<not> fst (try_accept (snd (try_accept (per_ip_new 1) (V4 7))) (V4 7)) \<and>
   unat (count_for (snd (try_accept (per_ip_new 1) (V4 7))) (V4 7)) = 1"
proof -
  have "try_accept (per_ip_new 1) (V4 7) = (True, snd (try_accept (per_ip_new 1) (V4 7)))"
    by (simp add: try_accept_def per_ip_new_def current_count_def)
  then have "tracker 1 (snd (try_accept (per_ip_new 1) (V4 7))) {#V4 7#}"
    by (rule tracker.accepted [OF tracker.fresh])
  from connection_cap_holds [OF this, of "V4 7"] show ?thesis
    by (simp add: try_accept_def per_ip_new_def current_count_def)
qed

text \<open>A peer that keeps to its heartbeat period is never shed for a pause of up to two periods:
  from the fourth heartbeat on, the published threshold is at least twice the period and at
  least the floor.\<close>

theorem learned_threshold_safe:
  assumes "\<And>i. i < length ts \<Longrightarrow> started + i * H \<le> ts ! i" and "4 \<le> length ts"
  shows "min (max (2 * H) SHED_FLOOR div NANOS_PER_MILLI) (2 ^ 64 - 1)
      \<le> unat (hc_after_ms (fold cadence_observe ts (cadence_new a started)))"
  by (rule cadence_learned_threshold [OF assms])

theorem learned_threshold_safe_witness:
  "10000 \<le> unat (hc_after_ms (fold cadence_observe
     [0, 5000000000, 10000000000, 15000000000] (cadence_new 60000 0)))"
proof -
  have "0 + i * 5000000000 \<le> [0, 5000000000, 10000000000, 15000000000] ! i"
    if "i < length [0, 5000000000, 10000000000, 15000000000 :: nat]" for i
  proof -
    from that have "i = 0 \<or> i = 1 \<or> i = 2 \<or> i = 3" by auto
    then show ?thesis by (elim disjE) simp_all
  qed
  from learned_threshold_safe [OF this] show ?thesis
    by (simp add: NANOS_PER_MILLI_def SHED_FLOOR_def)
qed

text \<open>C38. Over the whole life of a wrapped stream the timer never looks later than the idle limit
  after the last progress; a poll that finds nothing reaps exactly when that limit has
  passed, and sheds only before it, past the shedding threshold, while the address is full.\<close>

theorem idle_peer_outcomes:
  assumes "idle_run idle t" and "poll_no_progress now t = (out, t')"
  shows "it_deadline t \<le> it_last_progress t + idle \<and>
    (out = Np_Reaped \<longleftrightarrow> it_deadline t \<le> now \<and> idle \<le> now - it_last_progress t) \<and>
    (out = Np_Shed \<longleftrightarrow> it_deadline t \<le> now \<and> now - it_last_progress t < idle \<and>
      (\<exists>shed. it_shed t = Some shed \<and> shed_after shed \<le> now - it_last_progress t \<and> address_full shed))"
  using idle_run_deadline [OF assms(1)] poll_no_progress_outcome [OF assms(2)] by simp

theorem idle_peer_outcomes_witness:
  "fst (poll_no_progress 70 (idle_timeout_new 60 5)) = Np_Reaped"
proof -
  have "poll_no_progress 70 (idle_timeout_new 60 5) =
      (fst (poll_no_progress 70 (idle_timeout_new 60 5)), snd (poll_no_progress 70 (idle_timeout_new 60 5)))"
    by simp
  from idle_peer_outcomes [OF idle_run.opened this] show ?thesis
    by (simp add: idle_timeout_new_def)
qed

end
