(* ===== verification/RG_Ingress.thy ===== *)
theory RG_Ingress
  imports RG_Policy RG_SecondChance RG_Connections
begin

text \<open>
  The verifier's NDJSON ingress, \<open>services/pool-verifier/src/ingress.rs\<close>: putting a Class M
  rejection to bitcoind (\<open>run_second_chance\<close>), and the body of \<open>handle_tcp_connection\<close>, which
  recognises a line, evaluates the proposal, forms and records the verdict and replies. The
  log and its caps are those of \<open>verdicts.rs\<close>. serde is outside the repository: what it makes
  of a line is the \<open>serde\<close> record. What the handler reads from its surroundings for one line
  (clock, policy holder, mempool view, node) is a \<open>surroundings\<close> record; what it changes is
  the \<open>verifier\<close> and \<open>conn\<close> records and the replies. Socket and disk failures are not
  modelled: a reply is a message handed to the writer, \<open>vs_disk\<close> the records handed to the
  disk task.
\<close>

section \<open>The second chance of a rejection\<close>

record SecondChance =
  sch_client :: "bitcoind"
  sch_hash_order :: "hash32 set \<Rightarrow> hash32 list"
  sch_timed_out :: bool

definition run_second_chance ::
    "hex_crate \<Rightarrow> SecondChance option \<Rightarrow> Phase2Attribution \<Rightarrow> u32 \<Rightarrow> f64 \<Rightarrow> SecondChanceOutcome option" where
  "run_second_chance X lookup phase2 template_height tolerance_pct =
     (case (phase2, lookup) of
        (P2_Rejected unknown tot, Some l) \<Rightarrow>
          let unknown_before = clamp_nat (length unknown) in
          (case ask X (sch_client l) (sch_hash_order l) (sch_timed_out l) template_height unknown of
             Inr answer \<Rightarrow>
               let adjudication = adjudicate tot unknown answer in
               if \<not> still_exceeds adjudication tolerance_pct then Some (Withdrawn adjudication)
               else if 0 < adj_unadjudicated adjudication then
                 (let reason = Sc_MempoolProbeIncomplete
                    (show_word (adj_unadjudicated adjudication) @ '' of '' @ show_word unknown_before @
                     '' unknown transactions had no usable probe answer'') in
                  Some (LookupFailed tot unknown_before (sc_error_to_string reason)
                    (sc_error_as_label reason) (adj_unadjudicated adjudication)))
               else
                 (case ans_block_walk_shortfall answer of
                    Some missing \<Rightarrow>
                      let reason = Sc_BlockWalkIncomplete missing in
                      Some (LookupFailed tot unknown_before (sc_error_to_string reason)
                        (sc_error_as_label reason) (adj_unadjudicated adjudication))
                  | None \<Rightarrow> Some (Upheld adjudication))
           | Inl e \<Rightarrow>
               Some (LookupFailed tot unknown_before (sc_error_to_string e) (sc_error_as_label e) 0))
      | _ \<Rightarrow> None)"

section \<open>The verdict log\<close>

record LoggedVerdict =
  lv_log_id :: u64
  lv_template_id :: u64
  lv_height :: u32
  lv_total_fees :: u64
  lv_tx_count :: u32
  lv_accepted :: bool
  lv_reason :: "string option"
  lv_reason_code :: "string option"
  lv_reason_detail :: "string option"
  lv_timestamp :: u64
  lv_min_avg_fee_used :: u64
  lv_fee_tier :: string
  lv_tier_source :: string
  lv_avg_fee_sats_per_tx :: u64
  lv_template_weight :: "u64 option"
  lv_total_sigops :: "u32 option"
  lv_coinbase_sigops :: "u32 option"
  lv_created_at_unix_ms :: "u64 option"
  lv_safety_warnings :: "string list"
  lv_mempool_adjudication :: "MempoolAdjudicationRecord option"

definition DEFAULT_VERDICT_LOG_MAX_ENTRIES :: nat where
  "DEFAULT_VERDICT_LOG_MAX_ENTRIES = 1000"

text \<open>\<open>guard.push(v)\<close> and the \<open>drain\<close> of the excess at the front.\<close>

definition push_bounded :: "nat \<Rightarrow> 'a list \<Rightarrow> 'a \<Rightarrow> 'a list" where
  "push_bounded max_log entries v =
     (let entries' = entries @ [v] in
      if max_log < length entries' then drop (length entries' - max_log) entries' else entries')"

text \<open>\<open>load_verdict_log\<close> after the file is read: each line's parse, in order.\<close>

definition load_verdict_log :: "nat \<Rightarrow> LoggedVerdict option list \<Rightarrow> LoggedVerdict list \<times> u64" where
  "load_verdict_log max_entries parsed_lines =
     (let verdicts = List.map_filter (\<lambda>l. l) parsed_lines;
          max_id = foldl (\<lambda>m v. max m (lv_log_id v)) 0 verdicts;
          kept = (if max_entries < length verdicts
                  then drop (length verdicts - max_entries) verdicts else verdicts)
      in (kept, max_id + 1))"

definition compute_avg_fee_sats_per_tx :: "TemplatePropose \<Rightarrow> u64" where
  "compute_avg_fee_sats_per_tx t =
     (if tp_tx_count t = 0 then 0 else tp_total_fees t div ucast (tp_tx_count t))"

section \<open>State of the ingress\<close>

record Metrics =
  mt_templates_evaluated :: u64
  mt_verdicts :: "bool \<Rightarrow> string \<Rightarrow> u64"
  mt_shield_skipped :: u64
  mt_phase2_degraded :: u64
  mt_phase2_checks :: "string \<Rightarrow> u64"
  mt_phase2_second_chance :: "string \<Rightarrow> u64"
  mt_view_age :: int
  mt_view_size :: int
  mt_empty_responses :: int

record verifier =
  vs_log :: "LoggedVerdict list"
  vs_log_id :: u64
  vs_metrics :: Metrics
  vs_disk :: "LoggedVerdict list"
  vs_last_mempool_ok :: u64

record conn =
  cn_uses_envelope :: "bool option"
  cn_cadence :: HeartbeatCadence

text \<open>What one line's processing reads: whether a mempool endpoint is configured and what the fetch
  (within its 600 ms timeout) returned, the
  policy (\<open>None\<close> when the lock is poisoned), the mempool view, the second-chance node, the log
  cap and the clock.\<close>

record surroundings =
  su_mempool_url :: bool
  su_fetched_tx_count :: "u64 option"
  su_policy :: "PolicyConfig option"
  su_view :: "MempoolView option"
  su_second_chance :: "SecondChance option"
  su_max_log :: nat
  su_now_secs :: u64
  su_now_ms :: u64
  su_instant :: nat

datatype Reply = Reply_HeartbeatAck | Reply_Verdict bool TemplateVerdict

definition mempool_tx_count :: "surroundings \<Rightarrow> u64 option" where
  "mempool_tx_count su = (if su_mempool_url su then su_fetched_tx_count su else None)"

definition i64_or_max :: "nat \<Rightarrow> int" where
  "i64_or_max n = (if n < 2 ^ 63 then int n else 2 ^ 63 - 1)"

definition bump :: "(string \<Rightarrow> u64) \<Rightarrow> string \<Rightarrow> (string \<Rightarrow> u64)" where
  "bump c k = c(k := c k + 1)"

section \<open>One proposal\<close>

definition poisoned_verdict :: "TemplatePropose \<Rightarrow> TemplateVerdict" where
  "poisoned_verdict p =
     \<lparr>tv_version = PROTOCOL_VERSION, tv_id = tp_id p, tv_accepted = False,
      tv_reason_code = Some PolicyLoadError, tv_reason_detail = Some ''policy lock poisoned'',
      tv_policy_context = None\<rparr>"

definition poisoned_logged :: "u64 \<Rightarrow> u64 \<Rightarrow> TemplatePropose \<Rightarrow> LoggedVerdict" where
  "poisoned_logged log_id now p =
     \<lparr>lv_log_id = log_id, lv_template_id = tp_id p, lv_height = tp_block_height p,
      lv_total_fees = tp_total_fees p, lv_tx_count = tp_tx_count p, lv_accepted = False,
      lv_reason = Some (as_str PolicyLoadError), lv_reason_code = Some (as_str PolicyLoadError),
      lv_reason_detail = Some ''policy lock poisoned'', lv_timestamp = now,
      lv_min_avg_fee_used = 0, lv_fee_tier = ''unknown'', lv_tier_source = ''fallback'',
      lv_avg_fee_sats_per_tx = 0, lv_template_weight = None, lv_total_sigops = None,
      lv_coinbase_sigops = None, lv_created_at_unix_ms = None, lv_safety_warnings = [],
      lv_mempool_adjudication = None\<rparr>"

text \<open>Withdrawing clears the reason and the detail together.\<close>

definition apply_second_chance :: "EvalResult \<Rightarrow> SecondChanceOutcome option \<Rightarrow> EvalResult" where
  "apply_second_chance ev second_chance =
     (case second_chance of
        Some (Withdrawn adj) \<Rightarrow> ev\<lparr>er_reason := None, er_detail := None\<rparr>
      | _ \<Rightarrow> ev)"

fun phase2_label :: "Phase2Attribution \<Rightarrow> SecondChanceOutcome option \<Rightarrow> string option" where
  "phase2_label P2_NotRun sc = None"
| "phase2_label P2_Agreed sc = Some ''agreed''"
| "phase2_label P2_Stale sc = Some ''stale''"
| "phase2_label P2_SkippedDegraded sc = Some ''skipped''"
| "phase2_label P2_SkippedUnprimed sc = Some ''unprimed''"
| "phase2_label (P2_Rejected u n) (Some (Withdrawn adj)) = Some ''recovered''"
| "phase2_label (P2_Rejected u n) sc = Some ''rejected''"

definition phase2_metrics ::
    "MempoolSnapshot option \<Rightarrow> Phase2Attribution \<Rightarrow> SecondChanceOutcome option \<Rightarrow> Metrics \<Rightarrow> Metrics" where
  "phase2_metrics snap phase2 second_chance m =
     (case snap of
        None \<Rightarrow> m
      | Some s \<Rightarrow>
          let m1 = m\<lparr>mt_view_age := i64_or_max (unat (sn_age_secs s)),
                     mt_view_size := i64_or_max (sn_size s)\<rparr>;
              m2 = (if phase2 = P2_SkippedDegraded
                    then m1\<lparr>mt_phase2_degraded := mt_phase2_degraded m1 + 1\<rparr> else m1);
              m3 = (case second_chance of
                      None \<Rightarrow> m2
                    | Some out \<Rightarrow>
                        m2\<lparr>mt_phase2_second_chance :=
                             bump (mt_phase2_second_chance m2) (sc_outcome_as_label out)\<rparr>)
          in (case phase2_label phase2 second_chance of
                None \<Rightarrow> m3
              | Some l \<Rightarrow> m3\<lparr>mt_phase2_checks := bump (mt_phase2_checks m3) l\<rparr>))"

definition count_verdict :: "bool \<Rightarrow> string \<Rightarrow> Metrics \<Rightarrow> Metrics" where
  "count_verdict accepted code m =
     m\<lparr>mt_templates_evaluated := mt_templates_evaluated m + 1,
       mt_verdicts := (mt_verdicts m)(accepted := bump (mt_verdicts m accepted) code)\<rparr>"

definition policy_context :: "PolicyConfig \<Rightarrow> EvalResult \<Rightarrow> PolicyContext" where
  "policy_context cfg ev =
     \<lparr>pc_fee_tier = Some (fee_tier_as_str (er_fee_tier ev)),
      pc_min_avg_fee_used = Some (er_min_avg_fee_used ev),
      pc_min_total_fees_used = Some (cfg_min_total_fees cfg),
      pc_reject_coinbase_zero = Some (cfg_reject_coinbase_zero cfg),
      pc_unknown_mempool_as_high = Some (cfg_unknown_mempool_as_high cfg),
      pc_max_weight_ratio = Some (ps_max_weight_ratio (cfg_safety cfg)),
      pc_max_template_age_ms = ps_max_template_age_ms (cfg_safety cfg)\<rparr>"

definition template_verdict :: "TemplatePropose \<Rightarrow> PolicyConfig \<Rightarrow> EvalResult \<Rightarrow> TemplateVerdict" where
  "template_verdict p cfg ev =
     \<lparr>tv_version = PROTOCOL_VERSION, tv_id = tp_id p, tv_accepted = (er_reason ev = None),
      tv_reason_code = er_reason ev, tv_reason_detail = er_detail ev,
      tv_policy_context = Some (policy_context cfg ev)\<rparr>"

definition logged_verdict ::
    "hex_crate \<Rightarrow> u64 \<Rightarrow> u64 \<Rightarrow> string \<Rightarrow> TemplatePropose \<Rightarrow> EvalResult \<Rightarrow> SecondChanceOutcome option
      \<Rightarrow> LoggedVerdict" where
  "logged_verdict X log_id now tier_source p ev second_chance =
     (let code = map_option as_str (er_reason ev) in
      \<lparr>lv_log_id = log_id, lv_template_id = tp_id p, lv_height = tp_block_height p,
       lv_total_fees = tp_total_fees p, lv_tx_count = tp_tx_count p,
       lv_accepted = (er_reason ev = None),
       lv_reason = (case code of
                      Some c \<Rightarrow> Some c
                    | None \<Rightarrow> (case er_detail ev of Some d \<Rightarrow> Some d | None \<Rightarrow> Some ''ok'')),
       lv_reason_code = code, lv_reason_detail = er_detail ev, lv_timestamp = now,
       lv_min_avg_fee_used = er_min_avg_fee_used ev,
       lv_fee_tier = fee_tier_as_str (er_fee_tier ev), lv_tier_source = tier_source,
       lv_avg_fee_sats_per_tx = compute_avg_fee_sats_per_tx p,
       lv_template_weight = effective_weight p, lv_total_sigops = tp_total_sigops p,
       lv_coinbase_sigops = tp_coinbase_sigops p, lv_created_at_unix_ms = tp_created_at_unix_ms p,
       lv_safety_warnings = map (\<lambda>w. as_str (sw_reason w)) (er_warnings ev),
       lv_mempool_adjudication = map_option (record_of_outcome X) second_chance\<rparr>)"

text \<open>The policy evaluation, and the second chance of its Class M rejection.\<close>

definition evaluate_propose ::
    "hex_crate \<Rightarrow> bitcoin_api \<Rightarrow> surroundings \<Rightarrow> PolicyConfig \<Rightarrow> TemplatePropose
      \<Rightarrow> EvalResult \<times> SecondChanceOutcome option" where
  "evaluate_propose X B su cfg p =
     (let snap = map_option (\<lambda>v. snapshot v (su_now_ms su)) (su_view su);
          ev = (case snap of
                  Some s \<Rightarrow> evaluate_dynamic_phase2 X B p cfg (Some s) (mempool_tx_count su) (su_now_ms su)
                | None \<Rightarrow> evaluate_dynamic X B p cfg (mempool_tx_count su) (su_now_ms su));
          sc = run_second_chance X (su_second_chance su) (er_phase2 ev) (tp_block_height p)
                 (pm_tolerance_pct (cfg_mempool cfg))
      in (apply_second_chance ev sc, sc))"

definition record_verdict :: "nat \<Rightarrow> LoggedVerdict \<Rightarrow> verifier \<Rightarrow> verifier" where
  "record_verdict max_log v vs =
     vs\<lparr>vs_log := push_bounded max_log (vs_log vs) v, vs_disk := vs_disk vs @ [v]\<rparr>"

definition note_mempool_ok :: "surroundings \<Rightarrow> verifier \<Rightarrow> verifier" where
  "note_mempool_ok su vs =
     (if mempool_tx_count su \<noteq> None
      then vs\<lparr>vs_last_mempool_ok := su_now_secs su\<rparr> else vs)"

definition process_propose ::
    "hex_crate \<Rightarrow> bitcoin_api \<Rightarrow> surroundings \<Rightarrow> bool option \<Rightarrow> TemplatePropose \<Rightarrow> verifier
      \<Rightarrow> Reply \<times> verifier" where
  "process_propose X B su uses_envelope p vs0 =
     (let vs = note_mempool_ok su vs0; log_id = vs_log_id vs in
      case su_policy su of
        None \<Rightarrow>
          let v = poisoned_logged log_id (su_now_secs su) p;
              vs' = vs\<lparr>vs_log_id := log_id + 1,
                       vs_metrics := count_verdict False (as_str PolicyLoadError) (vs_metrics vs)\<rparr>
          in (Reply_Verdict (uses_envelope = Some True) (poisoned_verdict p),
              record_verdict (su_max_log su) v vs')
      | Some cfg \<Rightarrow>
          let tier_source = (if mempool_tx_count su = None then ''fallback'' else ''measured'');
              m0 = (case su_view su of
                      None \<Rightarrow> vs_metrics vs
                    | Some view \<Rightarrow>
                        (vs_metrics vs)\<lparr>mt_empty_responses := i64_or_max (unat (mv_empty_responses view))\<rparr>);
              snap = map_option (\<lambda>v. snapshot v (su_now_ms su)) (su_view su);
              (ev, sc) = evaluate_propose X B su cfg p;
              v = logged_verdict X log_id (su_now_secs su) tier_source p ev sc;
              m1 = phase2_metrics snap (er_phase2 ev) sc m0;
              m2 = count_verdict (er_reason ev = None)
                     (case lv_reason_code v of None \<Rightarrow> ''ok'' | Some c \<Rightarrow> c) m1;
              m3 = (if er_shield_skipped ev then m2\<lparr>mt_shield_skipped := mt_shield_skipped m2 + 1\<rparr> else m2)
          in (Reply_Verdict (uses_envelope = Some True) (template_verdict p cfg ev),
              record_verdict (su_max_log su) v (vs\<lparr>vs_log_id := log_id + 1, vs_metrics := m3\<rparr>)))"

section \<open>One line\<close>

record serde =
  from_str_internal :: "string \<Rightarrow> (string \<times> Value) option"
  from_value_propose :: "Value \<Rightarrow> TemplatePropose option"
  from_str_propose :: "string \<Rightarrow> TemplatePropose option"

definition TEMPLATE_PROPOSE :: string where
  "TEMPLATE_PROPOSE = ''template_propose''"

definition HEARTBEAT :: string where
  "HEARTBEAT = ''heartbeat''"

definition detect_envelope :: "bool \<Rightarrow> conn \<Rightarrow> conn" where
  "detect_envelope env c =
     (if cn_uses_envelope c = None then c\<lparr>cn_uses_envelope := Some env\<rparr> else c)"

definition handle_line ::
    "hex_crate \<Rightarrow> bitcoin_api \<Rightarrow> serde \<Rightarrow> surroundings \<Rightarrow> string \<Rightarrow> conn \<times> verifier
      \<Rightarrow> Reply list \<times> conn \<times> verifier" where
  "handle_line X B S su line st =
     (let (c, vs) = st; trimmed = trim line in
      case from_str_internal S trimmed of
        Some (msg_type, payload) \<Rightarrow>
          let c' = detect_envelope True c in
          if msg_type = TEMPLATE_PROPOSE then
            (case from_value_propose S payload of
               None \<Rightarrow> ([], c', vs)
             | Some p \<Rightarrow>
                 let (reply, vs') = process_propose X B su (cn_uses_envelope c') p vs
                 in ([reply], c', vs'))
          else if msg_type = HEARTBEAT then
            ([Reply_HeartbeatAck], c'\<lparr>cn_cadence := cadence_observe (su_instant su) (cn_cadence c')\<rparr>, vs)
          else ([], c', vs)
      | None \<Rightarrow>
          (case from_str_propose S trimmed of
             None \<Rightarrow> ([], c, vs)
           | Some p \<Rightarrow>
               let c' = detect_envelope False c;
                   (reply, vs') = process_propose X B su (cn_uses_envelope c') p vs
               in ([reply], c', vs')))"

section \<open>What a second chance establishes\<close>

lemma run_second_chance_rejected:
  "run_second_chance X lookup phase2 th tol = Some out \<Longrightarrow>
    \<exists>unknown tot l. phase2 = P2_Rejected unknown tot \<and> lookup = Some l"
  by (auto simp: run_second_chance_def split: Phase2Attribution.splits option.splits)

lemma run_second_chance_answered:
  assumes "run_second_chance X (Some l) (P2_Rejected unknown tot) th tol = Some out"
    and "out = Upheld adj \<or> out = Withdrawn adj"
  obtains answer where "gather X (sch_client l) (sch_hash_order l) th unknown = Ok answer"
    and "adj = adjudicate tot unknown answer"
    and "out = Withdrawn adj \<longleftrightarrow> \<not> still_exceeds adj tol"
    and "out = Upheld adj \<longrightarrow> adj_unadjudicated adj = 0 \<and> ans_block_walk_shortfall answer = None"
  using assms
  by (auto simp: run_second_chance_def ask_def Let_def word_gt_0
      split: sum.splits if_splits option.splits intro: that)

lemma upheld_evidence:
  assumes run: "run_second_chance X (Some l) (P2_Rejected unknown tot) th tol = Some (Upheld adj)"
    and chain: "heights_descend X (sch_client l)"
    and order: "\<And>S. finite S \<Longrightarrow> set (sch_hash_order l S) = S"
  shows "\<exists>A. exceeds_tolerance (clamp_nat (length (filter (\<lambda>t. t \<in> A) unknown))) tot tol \<and>
    (\<forall>t \<in> A. bitcoind_denies X (sch_client l) t \<and>
       (\<exists>tip. get_best_block_hash (sch_client l) = Ok tip \<and>
          t \<notin> mined_at_or_above X (sch_client l) th tip))"
proof -
  obtain answer where g: "gather X (sch_client l) (sch_hash_order l) th unknown = Ok answer"
    and adj: "adj = adjudicate tot unknown answer"
    and still: "still_exceeds adj tol" and z: "adj_unadjudicated adj = 0"
    and short: "ans_block_walk_shortfall answer = None"
    using run by (rule run_second_chance_answered) auto
  have "min (count_as answer Tx_Unadjudicated unknown) (2 ^ 32 - 1) = 0"
    using adjudicate_counts(3) [of tot unknown answer] z adj by simp
  then have "count_as answer Tx_Unadjudicated unknown = 0" by (auto simp: min_def split: if_splits)
  then have none: "\<forall>t \<in> set unknown. classify t answer \<noteq> Tx_Unadjudicated"
    by (auto simp: count_as_def filter_empty_conv)
  define A where "A = {t \<in> set unknown. classify t answer = Tx_Absent}"
  have "filter (not_known answer) unknown = filter (\<lambda>t. t \<in> A) unknown"
    using none by (auto simp: A_def not_known_def intro!: filter_cong)
  then have "exceeds_tolerance (clamp_nat (length (filter (\<lambda>t. t \<in> A) unknown))) tot tol"
    using still by (simp add: adj still_exceeds_eq)
  moreover have "bitcoind_denies X (sch_client l) t" if "t \<in> A" for t
    using gather_absent_denied [OF g order] that by (simp add: A_def)
  moreover have "\<exists>tip. get_best_block_hash (sch_client l) = Ok tip \<and>
      t \<notin> mined_at_or_above X (sch_client l) th tip" if "t \<in> A" for t
    using gather_absent_unmined [OF g chain short] that by (simp add: A_def)
  ultimately show ?thesis by blast
qed

lemma withdrawn_recount:
  assumes run: "run_second_chance X (Some l) (P2_Rejected unknown tot) th tol = Some (Withdrawn adj)"
  obtains answer where "gather X (sch_client l) (sch_hash_order l) th unknown = Ok answer"
    and "\<not> exceeds_tolerance (clamp_nat (length (filter (not_known answer) unknown))) tot tol"
proof -
  obtain answer where "gather X (sch_client l) (sch_hash_order l) th unknown = Ok answer"
    "adj = adjudicate tot unknown answer" "\<not> still_exceeds adj tol"
    using run by (rule run_second_chance_answered) auto
  then show ?thesis using that by (simp add: still_exceeds_eq)
qed

section \<open>Acceptance\<close>

lemma evaluate_phase2_rejected:
  assumes "er_phase2 (evaluate_dynamic_inner X B t cfg snap mempool_tx now) = P2_Rejected u n"
  shows "er_reason (evaluate_dynamic_inner X B t cfg snap mempool_tx now)
      = Some V2InvariantMempoolToleranceExceeded"
proof -
  let ?mp = "map_option (\<lambda>s. (s, pm_tolerance_pct (cfg_mempool cfg), pm_per_tx_detail (cfg_mempool cfg))) snap"
  obtain m tier where eff: "effective_min_avg_fee_dynamic cfg mempool_tx = (m, tier)" by fastforce
  obtain out p where sh: "check_invariant_shield_inner X B t ?mp = (out, p)" by fastforce
  have "p = P2_Rejected u n \<Longrightarrow> \<exists>d. out = SO_Rejected V2InvariantMempoolToleranceExceeded d"
    using sh
  proof (cases rule: shield_inner_cases)
    case (class_m hex block)
    assume "p = P2_Rejected u n"
    then show ?thesis
      using class_m_cases [of X B block ?mp] class_m(3) by (cases out) fastforce+
  qed simp_all
  then show ?thesis
    using assms sh by (cases rule: evaluate_cases [OF eff, of t now X B snap]) auto
qed

text \<open>Exactly what an accepted verdict means, second chance included.\<close>

definition class_m_clears ::
    "hex_crate \<Rightarrow> bitcoin_api \<Rightarrow> surroundings \<Rightarrow> PolicyConfig \<Rightarrow> TemplatePropose \<Rightarrow> Block \<Rightarrow> bool" where
  "class_m_clears X B su cfg p block \<longleftrightarrow>
     (\<forall>view unknown tot.
        su_view su = Some view \<and>
        mempool_evaluate (snapshot view (su_now_ms su)) (template_txids B block)
          (pm_tolerance_pct (cfg_mempool cfg)) = Check_ToleranceExceeded unknown tot \<longrightarrow>
        (\<exists>adj. run_second_chance X (su_second_chance su) (P2_Rejected unknown tot) (tp_block_height p)
           (pm_tolerance_pct (cfg_mempool cfg)) = Some (Withdrawn adj)))"

lemma evaluate_propose_eq:
  "evaluate_propose X B su cfg p =
    (let ev = evaluate_dynamic_inner X B p cfg
        (map_option (\<lambda>v. snapshot v (su_now_ms su)) (su_view su)) (mempool_tx_count su) (su_now_ms su);
       sc = run_second_chance X (su_second_chance su) (er_phase2 ev) (tp_block_height p)
         (pm_tolerance_pct (cfg_mempool cfg))
     in (apply_second_chance ev sc, sc))"
  by (cases "su_view su")
    (simp_all add: evaluate_propose_def evaluate_dynamic_phase2_def evaluate_dynamic_def Let_def)

lemma apply_second_chance_reason:
  "er_reason (apply_second_chance ev sc) = None \<longleftrightarrow>
    er_reason ev = None \<or> (\<exists>adj. sc = Some (Withdrawn adj))"
  by (auto simp: apply_second_chance_def split: option.splits SecondChanceOutcome.splits)

lemma class_m_section:
  "shield_class_m X B block (Some (snap, tol, per_tx)) =
    (case mempool_evaluate snap (template_txids B block) tol of
       Check_ToleranceExceeded u n \<Rightarrow>
         (SO_Rejected V2InvariantMempoolToleranceExceeded
            (format_mempool_tolerance_detail_bounded X (clamp_nat (length u)) n
              (take (if per_tx then length u else min (length u) SAMPLE_UNKNOWN_CAP) u)),
          P2_Rejected u n)
     | Check_Agreed a b \<Rightarrow> (SO_Agreed, P2_Agreed)
     | Check_Stale a \<Rightarrow> (SO_Agreed, P2_Stale)
     | Check_Skipped \<Rightarrow>
         (SO_Agreed, if sn_state snap = View_Degraded then P2_SkippedDegraded else P2_SkippedUnprimed))"
  by (simp add: shield_class_m_def Let_def split: MempoolCheckOutcome.splits)

lemma accepted_iff:
  assumes eff: "effective_min_avg_fee_dynamic cfg (mempool_tx_count su) = (m, tier)"
  shows "er_reason (fst (evaluate_propose X B su cfg p)) = None \<longleftrightarrow>
    policy_ok p cfg m (su_now_ms su) \<and>
    (case tp_raw_block_hex p of
       None \<Rightarrow> True
     | Some hex \<Rightarrow> \<exists>block. shield_phase1 X B p hex = Ok block \<and> class_m_clears X B su cfg p block)"
proof -
  let ?snap = "map_option (\<lambda>v. snapshot v (su_now_ms su)) (su_view su)"
  let ?ev = "evaluate_dynamic_inner X B p cfg ?snap (mempool_tx_count su) (su_now_ms su)"
  let ?sc = "run_second_chance X (su_second_chance su) (er_phase2 ?ev) (tp_block_height p)
    (pm_tolerance_pct (cfg_mempool cfg))"
  have acc: "er_reason (fst (evaluate_propose X B su cfg p)) = None \<longleftrightarrow>
      er_reason ?ev = None \<or> (\<exists>adj. ?sc = Some (Withdrawn adj))"
    by (simp add: evaluate_propose_eq Let_def apply_second_chance_reason)
  from eff show ?thesis
  proof (cases rule: evaluate_cases [where t = p and now = "su_now_ms su" and X = X and B = B and snap = ?snap])
    case (early r d ws)
    then show ?thesis unfolding acc by (auto simp: run_second_chance_def)
  next
    case (shield ws out ph)
    from shield(2) show ?thesis
    proof (cases rule: shield_inner_cases)
      case skipped
      then show ?thesis unfolding acc using shield by simp
    next
      case (phase1 hex r d)
      then show ?thesis unfolding acc using shield by (simp add: run_second_chance_def)
    next
      case (class_m hex block)
      show ?thesis
      proof (cases "su_view su")
        case None
        then show ?thesis
          unfolding acc using shield class_m by (auto simp: shield_class_m_def class_m_clears_def)
      next
        case (Some view)
        then show ?thesis
          unfolding acc using shield(1,3,4) class_m
          by (auto simp: class_m_section class_m_clears_def split: MempoolCheckOutcome.splits)
      qed
    qed
  qed
qed

section \<open>The log\<close>

text \<open>The capped log is the newest part of the whole history.\<close>

lemma push_bounded_newest: "push_bounded n (newest n xs) v = newest n (xs @ [v])"
proof (cases "length xs < n")
  case True
  then show ?thesis by (simp add: push_bounded_def newest_def)
next
  case False
  then have "Suc (length xs - n) = Suc (length xs) - n" by simp
  then show ?thesis using False by (simp add: push_bounded_def newest_def Let_def)
qed

lemma process_propose_effect:
  assumes "process_propose X B su env p vs = (reply, vs')"
  obtains v verdict where "reply = Reply_Verdict (env = Some True) verdict"
    and "vs_disk vs' = vs_disk vs @ [v]"
    and "vs_log vs' = push_bounded (su_max_log su) (vs_log vs) v"
    and "vs_log_id vs' = vs_log_id vs + 1" and "lv_log_id v = vs_log_id vs"
    and "lv_template_id v = tp_id p" and "tv_id verdict = tp_id p"
    and "tv_accepted verdict \<longleftrightarrow> tv_reason_code verdict = None"
    and "lv_accepted v = tv_accepted verdict"
    and "lv_reason_code v = map_option as_str (tv_reason_code verdict)"
    and "mt_templates_evaluated (vs_metrics vs') = mt_templates_evaluated (vs_metrics vs) + 1"
proof -
  have n: "vs_disk (note_mempool_ok su vs) = vs_disk vs" "vs_log (note_mempool_ok su vs) = vs_log vs"
    "vs_log_id (note_mempool_ok su vs) = vs_log_id vs"
    "vs_metrics (note_mempool_ok su vs) = vs_metrics vs"
    by (simp_all add: note_mempool_ok_def)
  show thesis
  proof (cases "su_policy su")
    case None
    then show thesis
      using assms
      by (auto simp: process_propose_def Let_def n record_verdict_def poisoned_verdict_def
          poisoned_logged_def count_verdict_def intro!: that)
  next
    case (Some cfg)
    obtain ev sc where e: "evaluate_propose X B su cfg p = (ev, sc)" by fastforce
    have m: "mt_templates_evaluated (phase2_metrics snap ph sc m0) = mt_templates_evaluated m0" for snap ph m0
      by (auto simp: phase2_metrics_def Let_def split: option.splits)
    show thesis
      using assms Some e
      by (intro that [of "template_verdict p cfg ev" "logged_verdict X (vs_log_id vs) (su_now_secs su)
          (if mempool_tx_count su = None then ''fallback'' else ''measured'') p ev sc"])
        (auto simp: process_propose_def Let_def n record_verdict_def template_verdict_def
          logged_verdict_def count_verdict_def m split: option.splits)
  qed
qed

text \<open>A run of the ingress with a fixed log cap: lines in any order from any connections, over any
  surroundings.\<close>

inductive ingress_run ::
    "hex_crate \<Rightarrow> bitcoin_api \<Rightarrow> serde \<Rightarrow> nat \<Rightarrow> verifier \<Rightarrow> verifier \<Rightarrow> bool"
  for X B S max_log start where
  started: "ingress_run X B S max_log start start"
| line: "ingress_run X B S max_log start vs \<Longrightarrow> su_max_log su = max_log \<Longrightarrow>
    handle_line X B S su msg (c, vs) = (replies, c', vs') \<Longrightarrow> ingress_run X B S max_log start vs'"

lemma handle_line_cases:
  assumes "handle_line X B S su msg (c, vs) = (replies, c', vs')"
  obtains (quiet) "vs' = vs" "\<forall>env v. Reply_Verdict env v \<notin> set replies"
  | (propose) env p reply where "process_propose X B su env p vs = (reply, vs')" "replies = [reply]"
  using assms
  by (auto simp: handle_line_def Let_def split: option.splits prod.splits if_splits)

lemma ingress_run_history:
  assumes "ingress_run X B S max_log start vs"
    and "vs_log start = newest max_log h" and "vs_disk start = []"
  shows "vs_log vs = newest max_log (h @ vs_disk vs)
    \<and> map lv_log_id (vs_disk vs) = map (\<lambda>k. vs_log_id start + of_nat k) [0..<length (vs_disk vs)]
    \<and> vs_log_id vs = vs_log_id start + of_nat (length (vs_disk vs))"
  using assms
proof (induction rule: ingress_run.induct)
  case started
  then show ?case by simp
next
  case (line vs su msg c replies c' vs')
  from line.hyps(3) show ?case
  proof (cases rule: handle_line_cases)
    case quiet
    then show ?thesis using line by simp
  next
    case (propose env p reply)
    from propose(1) show ?thesis
      by (rule process_propose_effect) (use line push_bounded_newest [of max_log "h @ vs_disk vs"] in auto)
  qed
qed

text \<open>Reading the persisted records back restores the capped log and the next id.\<close>

definition verifier_start :: "nat \<Rightarrow> LoggedVerdict option list \<Rightarrow> Metrics \<Rightarrow> verifier" where
  "verifier_start max_log parsed_lines m =
     (let (entries, next_id) = load_verdict_log max_log parsed_lines in
      \<lparr>vs_log = entries, vs_log_id = next_id, vs_metrics = m, vs_disk = [], vs_last_mempool_ok = 0\<rparr>)"

lemma load_verdict_log_eq:
  "load_verdict_log n (map Some vs) = (newest n vs, foldl max 0 (map lv_log_id vs) + 1)"
proof -
  have f: "List.map_filter (\<lambda>l. l) (map Some vs) = vs" by (induction vs) simp_all
  have "foldl (\<lambda>m v. max m (lv_log_id v)) a vs = foldl max a (map lv_log_id vs)" for a
    by (induction vs arbitrary: a) simp_all
  then show ?thesis by (simp add: load_verdict_log_def f newest_def Let_def)
qed

lemma foldl_max_upto:
  "n < 2 ^ 64 \<Longrightarrow> foldl max 0 (map (\<lambda>k. 1 + of_nat k) [0..<n]) = (of_nat n :: u64)"
proof (induction n)
  case (Suc n)
  then have "foldl max 0 (map (\<lambda>k. 1 + of_nat k) [0..<n]) = (of_nat n :: u64)" by simp
  moreover have "(of_nat n :: u64) \<le> 1 + of_nat n"
  proof -
    have "unat (of_nat (Suc n) :: u64) = Suc n" "unat (of_nat n :: u64) = n"
      using Suc.prems by (simp_all add: unat_of_nat del: of_nat_Suc)
    then show ?thesis by (simp add: word_le_nat_alt)
  qed
  ultimately show ?case by (simp add: max.absorb2)
qed simp

lemma restart_restores:
  assumes run: "ingress_run X B S max_log (verifier_start max_log [] m) vs"
    and small: "length (vs_disk vs) < 2 ^ 64"
  shows "load_verdict_log max_log (map Some (vs_disk vs)) = (vs_log vs, vs_log_id vs)"
proof -
  have start: "vs_log (verifier_start max_log [] m) = newest max_log []"
    "vs_disk (verifier_start max_log [] m) = []" "vs_log_id (verifier_start max_log [] m) = 1"
    using load_verdict_log_eq [of max_log "[]"] by (simp_all add: verifier_start_def)
  from ingress_run_history [OF run start(1,2)] show ?thesis
    using foldl_max_upto [OF small]
    unfolding load_verdict_log_eq by (simp add: start(3) add.commute)
qed

end
