(* ===== verification/RG_U256.thy ===== *)
theory RG_U256
  imports RG_Protocol
begin

text \<open>
  The 256-bit arithmetic and the difficulty conversions of
  \<open>services/sv2-gateway/src/shares.rs\<close>. A \<open>U256\<close> is the pair (low, high) of 128-bit words the
  code uses; \<open>u256_val\<close> is the number it stands for. The binary long division that
  \<open>target_to_difficulty_u64\<close> and \<open>difficulty_to_target\<close> share is proved once, in the locale
  \<open>quotient_bits\<close>, over the quotient accumulator; it is interpreted for the \<open>u64\<close>
  accumulator and for the \<open>U256\<close> accumulator.
\<close>

section \<open>Two-word integers\<close>

type_synonym U256 = "u128 \<times> u128"

definition u256_from_le :: "bytes \<Rightarrow> U256" where
  "u256_from_le bs = (u128_from_le_bytes (take 16 bs), u128_from_le_bytes (take 16 (drop 16 bs)))"

definition u256_bits :: "U256 \<Rightarrow> nat" where
  "u256_bits v =
     (if snd v \<noteq> 0 then 128 + (128 - leading_zeros (snd v))
      else if fst v \<noteq> 0 then 128 - leading_zeros (fst v)
      else 0)"

definition u256_shl :: "U256 \<Rightarrow> nat \<Rightarrow> U256" where
  "u256_shl v shift =
     (if shift = 0 then v
      else if 256 \<le> shift then (0, 0)
      else if 128 \<le> shift then (0, push_bit (shift - 128) (fst v))
      else (push_bit shift (fst v), push_bit shift (snd v) OR drop_bit (128 - shift) (fst v)))"

definition u256_gte :: "U256 \<Rightarrow> U256 \<Rightarrow> bool" where
  "u256_gte a b = (if snd b < snd a then True else if snd a < snd b then False else fst b \<le> fst a)"

definition u256_gt :: "U256 \<Rightarrow> U256 \<Rightarrow> bool" where
  "u256_gt a b = (if snd b < snd a then True else if snd a < snd b then False else fst b < fst a)"

definition u256_eq :: "U256 \<Rightarrow> U256 \<Rightarrow> bool" where
  "u256_eq a b \<longleftrightarrow> fst a = fst b \<and> snd a = snd b"

definition u256_sub :: "U256 \<Rightarrow> U256 \<Rightarrow> U256" where
  "u256_sub a b =
     (let borrow = (if fst a < fst b then 1 else 0) in (fst a - fst b, snd a - snd b - borrow))"

definition u256_or :: "U256 \<Rightarrow> U256 \<Rightarrow> U256" where
  "u256_or a b = (fst a OR fst b, snd a OR snd b)"

section \<open>Long division\<close>

text \<open>\<open>for shift in (0..=max_shift).rev()\<close>: the loop counts the shifts still to try, and \<open>mark\<close>
  is the update of the quotient.\<close>

fun divide_loop :: "('q \<Rightarrow> nat \<Rightarrow> 'q) \<Rightarrow> U256 \<Rightarrow> nat \<Rightarrow> U256 \<Rightarrow> 'q \<Rightarrow> 'q" where
  "divide_loop mark d 0 remainder quot = quot"
| "divide_loop mark d (Suc shift) remainder quot =
     (let shifted_d = u256_shl d shift in
      if u256_gte remainder shifted_d
      then divide_loop mark d shift (u256_sub remainder shifted_d) (mark quot shift)
      else divide_loop mark d shift remainder quot)"

definition set_bit_u64 :: "u64 \<Rightarrow> nat \<Rightarrow> u64" where
  "set_bit_u64 quot shift = quot OR push_bit shift 1"

definition set_bit_u256 :: "U256 \<Rightarrow> nat \<Rightarrow> U256" where
  "set_bit_u256 quot shift = u256_or quot (u256_shl (1, 0) shift)"

section \<open>Difficulty conversions\<close>

definition diff1_le :: bytes where
  "diff1_le = rev DIFF1_TARGET_BE"

definition target_to_difficulty_u64 :: "bytes \<Rightarrow> u64" where
  "target_to_difficulty_u64 maximum_target =
     (if list_all (\<lambda>b. b = 0) maximum_target then - 1
      else let n = u256_from_le diff1_le; d = u256_from_le maximum_target in
        if u256_gt d n then 0
        else if u256_eq d n then 1
        else let n_bits = u256_bits n; d_bits = u256_bits d in
          if n_bits < d_bits then 0
          else let max_shift = n_bits - d_bits in
            if 63 < max_shift then - 1
            else divide_loop set_bit_u64 d (Suc max_shift) n 0)"

definition difficulty_to_target :: "u64 \<Rightarrow> bytes" where
  "difficulty_to_target difficulty =
     (if difficulty = 0 then replicate 32 0xFF
      else let n = u256_from_le diff1_le; d = (ucast difficulty, 0);
               n_bits = u256_bits n; d_bits = u256_bits d in
        if n_bits < d_bits then replicate 32 0
        else let max_shift = n_bits - d_bits;
                 quot = divide_loop set_bit_u256 d (Suc max_shift) n (0, 0)
             in u128_to_le_bytes (fst quot) @ u128_to_le_bytes (snd quot))"

section \<open>Values\<close>

definition u256_val :: "U256 \<Rightarrow> nat" where
  "u256_val v = unat (fst v) + 2 ^ 128 * unat (snd v)"

lemma u128_less: "unat (w :: u128) < 2 ^ 128"
  using unsigned_less [of w] by simp

lemma lex_less:
  fixes a b c d m :: nat
  assumes "a < m" and "b < m"
  shows "a + m * c < b + m * d \<longleftrightarrow> c < d \<or> c = d \<and> a < b"
proof (cases c d rule: linorder_cases)
  case less
  then have "Suc c \<le> d" by simp
  then have "m * Suc c \<le> m * d" by (rule mult_le_mono2)
  then show ?thesis using assms less by simp
next
  case greater
  then have "Suc d \<le> c" by simp
  then have "m * Suc d \<le> m * c" by (rule mult_le_mono2)
  then show ?thesis using assms greater by simp
qed simp

lemma u256_gt_val: "u256_gt a b \<longleftrightarrow> u256_val b < u256_val a"
  using lex_less [OF u128_less [of "fst b"] u128_less [of "fst a"], of "unat (snd b)" "unat (snd a)"]
  by (auto simp: u256_gt_def u256_val_def word_less_nat_alt)

lemma u256_gte_val: "u256_gte a b \<longleftrightarrow> u256_val b \<le> u256_val a"
proof -
  have "u256_gte a b \<longleftrightarrow> \<not> u256_gt b a"
    by (auto simp: u256_gte_def u256_gt_def not_less)
  then show ?thesis by (simp add: u256_gt_val not_less)
qed

lemma u256_val_inject: "u256_val a = u256_val b \<longleftrightarrow> a = b"
proof
  assume eq: "u256_val a = u256_val b"
  then have "\<not> u256_gt a b" "\<not> u256_gt b a" by (simp_all add: u256_gt_val)
  then have "snd a = snd b" by (auto simp: u256_gt_def split: if_splits)
  then show "a = b" using eq by (simp add: u256_val_def prod_eq_iff word_unat_eq_iff)
qed simp

lemma u256_val_less: "u256_val v < 2 ^ 256"
proof -
  have "unat (fst v) + 2 ^ 128 * unat (snd v) < 2 ^ 128 * Suc (unat (snd v))" using u128_less [of "fst v"] by simp
  also have "\<dots> \<le> 2 ^ 128 * 2 ^ 128" using u128_less [of "snd v"] by (intro mult_le_mono2) simp
  finally show ?thesis by (simp add: u256_val_def)
qed

lemma u256_sub_val:
  assumes "u256_val b \<le> u256_val a"
  shows "u256_val (u256_sub a b) = u256_val a - u256_val b"
proof (cases "fst a < fst b")
  case True
  then have lt: "unat (fst a) < unat (fst b)" by (simp add: word_less_nat_alt)
  have "\<not> u256_gt b a" using assms by (simp add: u256_gt_val not_less)
  then have hi: "snd b < snd a" using True by (auto simp: u256_gt_def split: if_splits)
  have "unat (fst a - fst b) = 2 ^ 128 + unat (fst a) - unat (fst b)"
    using lt u128_less [of "fst b"] by (simp add: unat_sub_if')
  moreover have "unat (snd a - snd b - 1) = unat (snd a) - unat (snd b) - 1"
  proof -
    have d: "unat (snd a - snd b) = unat (snd a) - unat (snd b)"
      using hi by (simp add: unat_sub word_less_nat_alt word_le_nat_alt)
    then have "1 \<le> snd a - snd b" using hi by (simp add: word_le_nat_alt word_less_nat_alt)
    then show ?thesis using d by (simp add: unat_sub)
  qed
  ultimately show ?thesis
    using True lt hi assms u128_less [of "fst b"]
    by (simp add: u256_sub_def u256_val_def word_less_nat_alt diff_mult_distrib2)
next
  case False
  then have lo: "unat (fst a - fst b) = unat (fst a) - unat (fst b)"
    by (simp add: unat_sub word_le_nat_alt word_less_nat_alt not_less)
  have "\<not> u256_gt b a" using assms by (simp add: u256_gt_val not_less)
  then have "snd b \<le> snd a" by (auto simp: u256_gt_def split: if_splits)
  then have "unat (snd a - snd b) = unat (snd a) - unat (snd b)" and "unat (snd b) \<le> unat (snd a)"
    by (simp_all add: unat_sub word_le_nat_alt)
  then show ?thesis
    using False lo by (simp add: u256_sub_def u256_val_def word_less_nat_alt not_less diff_mult_distrib2)
qed

lemma pow_split: "m \<le> s \<Longrightarrow> (2::nat) ^ s = 2 ^ m * 2 ^ (s - m)"
  by (simp flip: power_add)

lemma unat_push_bit_one:
  assumes "k < LENGTH('a::len)"
  shows "unat (push_bit k (1 :: 'a word)) = 2 ^ k"
proof -
  have "(2::nat) ^ k < 2 ^ LENGTH('a)" using assms by simp
  then show ?thesis by (subst unat_push_bit) simp
qed

lemma u256_shl_val:
  assumes fits: "u256_val v * 2 ^ s < 2 ^ 256" and s: "s < 256"
  shows "u256_val (u256_shl v s) = u256_val v * 2 ^ s"
proof -
  let ?lo = "unat (fst v)" and ?hi = "unat (snd v)"
  have val: "u256_val v = ?lo + 2 ^ 128 * ?hi" by (simp add: u256_val_def)
  consider "s = 0" | "0 < s" "s < 128" | "128 \<le> s" by linarith
  then show ?thesis
  proof cases
    case 1
    then show ?thesis by (simp add: u256_shl_def)
  next
    case 2
    have "2 ^ 128 * (?hi * 2 ^ s) \<le> u256_val v * 2 ^ s" by (simp add: val distrib_right)
    then have "2 ^ 128 * (?hi * 2 ^ s) < 2 ^ 256" using fits by (rule le_less_trans)
    also have "(2::nat) ^ 256 = 2 ^ 128 * 2 ^ 128" by simp
    finally have "2 ^ 128 * (?hi * 2 ^ s) < 2 ^ 128 * 2 ^ 128" .
    then have hi: "?hi * 2 ^ s < 2 ^ 128" by (simp only: nat_mult_less_cancel_disj)
    have pow: "(2::nat) ^ 128 = 2 ^ (128 - s) * 2 ^ s"
      using pow_split [of s 128] 2 by (simp only: mult.commute less_imp_le)
    have carry: "?lo div 2 ^ (128 - s) = ?lo * 2 ^ s div 2 ^ 128" unfolding pow by simp
    have "?lo div 2 ^ (128 - s) < 2 ^ s"
      using u128_less [of "fst v"] pow by (simp add: div_less_iff_less_mult mult.commute)
    then have "unat (push_bit s (snd v) OR drop_bit (128 - s) (fst v)) = ?hi * 2 ^ s + ?lo * 2 ^ s div 2 ^ 128"
      using hi carry by (subst unat_or_disjoint [of s]) (auto simp: unat_push_bit unat_drop_bit)
    moreover have "unat (push_bit s (fst v)) = ?lo * 2 ^ s mod 2 ^ 128" by (simp add: unat_push_bit)
    ultimately have "u256_val (u256_shl v s) =
        ?lo * 2 ^ s mod 2 ^ 128 + 2 ^ 128 * (?hi * 2 ^ s + ?lo * 2 ^ s div 2 ^ 128)"
      using 2 by (simp add: u256_shl_def u256_val_def)
    also have "\<dots> = (?lo * 2 ^ s mod 2 ^ 128 + 2 ^ 128 * (?lo * 2 ^ s div 2 ^ 128)) + 2 ^ 128 * (?hi * 2 ^ s)"
      by (simp only: distrib_left ac_simps)
    also have "\<dots> = ?lo * 2 ^ s + 2 ^ 128 * (?hi * 2 ^ s)" by (simp only: mod_mult_div_eq)
    finally show ?thesis by (simp add: val distrib_right)
  next
    case 3
    then have pow: "(2::nat) ^ s = 2 ^ 128 * 2 ^ (s - 128)" by (rule pow_split)
    have "?hi = 0"
    proof (rule ccontr)
      assume "?hi \<noteq> 0"
      then have "2 ^ 128 * 1 \<le> 2 ^ 128 * ?hi" by (intro mult_le_mono2) simp
      then have "2 ^ 128 \<le> u256_val v" by (simp add: val)
      then have "2 ^ 128 * 2 ^ 128 \<le> u256_val v * 2 ^ s"
        using 3 by (intro mult_le_mono power_increasing) auto
      then show False using fits by simp
    qed
    then have v: "u256_val v = ?lo" by (simp add: val)
    have "2 ^ 128 * (?lo * 2 ^ (s - 128)) < 2 ^ 128 * 2 ^ 128"
      using fits unfolding v pow by (simp only: mult.left_commute) simp
    then have lo: "?lo * 2 ^ (s - 128) < 2 ^ 128" by (simp only: nat_mult_less_cancel_disj)
    have "unat (push_bit (s - 128) (fst v)) = ?lo * 2 ^ (s - 128)" using lo by (simp add: unat_push_bit)
    then have "u256_val (u256_shl v s) = 2 ^ 128 * (?lo * 2 ^ (s - 128))"
      using 3 s by (simp add: u256_shl_def u256_val_def)
    then show ?thesis by (simp only: v pow ac_simps)
  qed
qed

lemma nat_bits_unique: "2 ^ k \<le> n \<Longrightarrow> n < 2 ^ Suc k \<Longrightarrow> nat_bits n = Suc k"
  using nat_bits_less_iff [of n k] nat_bits_less_iff [of n "Suc k"] by linarith

lemma u256_bits_val: "u256_bits v = nat_bits (u256_val v)"
proof -
  have lz: "128 - leading_zeros w = nat_bits (unat w)" for w :: u128
    using nat_bits_less_iff [of "unat w" 128] u128_less [of w] by (simp add: leading_zeros_def)
  show ?thesis
  proof (cases "snd v = 0")
    case True
    then show ?thesis by (simp add: u256_bits_def u256_val_def lz)
  next
    case False
    let ?h = "unat (snd v)"
    have h: "0 < ?h" using False by (simp add: unat_gt_0)
    obtain k where k: "nat_bits ?h = Suc k" using nat_bits_pos [OF h] by (cases "nat_bits ?h") auto
    have "2 ^ k \<le> ?h" using nat_bits_lower [OF h] k by simp
    then have "2 ^ 128 * 2 ^ k \<le> 2 ^ 128 * ?h" by (rule mult_le_mono2)
    then have lower: "2 ^ (128 + k) \<le> u256_val v" by (simp add: power_add u256_val_def)
    have "Suc ?h \<le> 2 ^ Suc k" using nat_bits_upper [of ?h] k by simp
    then have "2 ^ 128 * Suc ?h \<le> 2 ^ 128 * 2 ^ Suc k" by (rule mult_le_mono2)
    then have upper: "u256_val v < 2 ^ Suc (128 + k)"
      using u128_less [of "fst v"] by (simp add: power_add u256_val_def)
    show ?thesis using False k lz [of "snd v"] nat_bits_unique [OF lower upper] by (simp add: u256_bits_def)
  qed
qed

lemma u256_from_le_val:
  assumes "length bs = 32"
  shows "u256_val (u256_from_le bs) = le_val bs"
proof -
  have b: "unat (of_nat (le_val xs) :: u128) = le_val xs" if "length xs = 16" for xs
    using le_val_bound [of xs] that by (simp add: unat_of_nat)
  have "le_val (take 16 bs @ drop 16 bs) = le_val (take 16 bs) + 256 ^ 16 * le_val (drop 16 bs)"
    using assms by (simp only: le_val_append) simp
  then show ?thesis
    using assms by (simp add: u256_val_def u256_from_le_def u128_from_le_bytes_def b)
qed

section \<open>The division\<close>

locale quotient_bits =
  fixes mark :: "'q \<Rightarrow> nat \<Rightarrow> 'q" and qval :: "'q \<Rightarrow> nat" and width :: nat
  assumes mark_val: "k < width \<Longrightarrow> 2 ^ Suc k dvd qval q \<Longrightarrow> qval (mark q k) = qval q + 2 ^ k"
begin

lemma divide_loop_correct:
  assumes "0 < u256_val d" and "u256_val r < 2 ^ k * u256_val d"
    and "k \<le> width" and "2 ^ (k - 1) * u256_val d < 2 ^ 256" and "k \<le> 256" and "2 ^ k dvd qval q"
  shows "qval (divide_loop mark d k r q) = qval q + u256_val r div u256_val d"
  using assms(2-6)
proof (induction k arbitrary: r q)
  case 0
  then show ?case by simp
next
  case (Suc k)
  let ?D = "u256_val d"
  have shl: "u256_val (u256_shl d k) = 2 ^ k * ?D"
    using Suc.prems(3,4) by (subst u256_shl_val) (auto simp: mult.commute)
  have small: "2 ^ (k - 1) * ?D < 2 ^ 256"
  proof -
    have "(2::nat) ^ (k - 1) \<le> 2 ^ k" by simp
    then have "2 ^ (k - 1) * ?D \<le> 2 ^ k * ?D" by (rule mult_le_mono1)
    then show ?thesis using Suc.prems(3) unfolding diff_Suc_1 by (rule le_less_trans)
  qed
  have dvd: "2 ^ k dvd qval q" using Suc.prems(5) by (meson dvd_trans le_imp_power_dvd lessI less_imp_le)
  show ?case
  proof (cases "2 ^ k * ?D \<le> u256_val r")
    case True
    let ?r = "u256_sub r (u256_shl d k)"
    have r: "u256_val ?r = u256_val r - 2 ^ k * ?D" using True by (simp add: u256_sub_val shl)
    have q: "qval (mark q k) = qval q + 2 ^ k" using Suc.prems(2,5) by (intro mark_val) auto
    have "qval (divide_loop mark d k ?r (mark q k)) = qval (mark q k) + u256_val ?r div ?D"
      using Suc.prems small dvd r q by (intro Suc.IH) auto
    also have "\<dots> = qval q + (2 ^ k + (u256_val r - 2 ^ k * ?D) div ?D)" by (simp add: r q)
    also have "2 ^ k + (u256_val r - 2 ^ k * ?D) div ?D = u256_val r div ?D"
      using True assms(1) div_mult_self1 [of ?D "u256_val r - 2 ^ k * ?D" "2 ^ k"] by (simp add: mult.commute)
    finally show ?thesis using True by (simp add: u256_gte_val shl)
  next
    case False
    then have "qval (divide_loop mark d k r q) = qval q + u256_val r div ?D"
      using Suc.prems small dvd by (intro Suc.IH) auto
    then show ?thesis using False by (simp add: u256_gte_val shl)
  qed
qed

text \<open>The loop as the callers start it, from the bit lengths of the two operands.\<close>

lemma divide_from_bits:
  assumes "0 < u256_val d" and "u256_bits d \<le> u256_bits n"
    and "Suc (u256_bits n - u256_bits d) \<le> width" and "u256_bits n < 256" and "qval q = 0"
  shows "qval (divide_loop mark d (Suc (u256_bits n - u256_bits d)) n q) = u256_val n div u256_val d"
proof -
  let ?D = "u256_val d" and ?N = "u256_val n" and ?s = "u256_bits n - u256_bits d"
  have bits: "u256_bits n = nat_bits ?N" "u256_bits d = nat_bits ?D" by (simp_all add: u256_bits_val)
  obtain j where j: "nat_bits ?D = Suc j" using nat_bits_pos [OF assms(1)] by (cases "nat_bits ?D") auto
  have "2 ^ j \<le> ?D" using nat_bits_lower [OF assms(1)] j by simp
  then have "2 ^ Suc ?s * 2 ^ j \<le> 2 ^ Suc ?s * ?D" by (rule mult_le_mono2)
  moreover have "(2::nat) ^ Suc ?s * 2 ^ j = 2 ^ nat_bits ?N"
    using assms(2) j bits by (simp flip: power_add power_Suc)
  ultimately have less: "?N < 2 ^ Suc ?s * ?D" using nat_bits_upper [of ?N] by linarith
  have "2 ^ ?s * ?D < 2 ^ ?s * 2 ^ nat_bits ?D" using nat_bits_upper [of ?D] by simp
  also have "\<dots> = 2 ^ nat_bits ?N" using assms(2) bits by (simp flip: power_add)
  also have "\<dots> \<le> 2 ^ 256" using assms(4) bits by (intro power_increasing) auto
  finally show ?thesis
    using divide_loop_correct [OF assms(1) less assms(3)] assms(4,5) by simp
qed

end

lemma u64_mark:
  assumes "k < 64" and "2 ^ Suc k dvd unat q"
  shows "unat (set_bit_u64 q k) = unat q + 2 ^ k"
proof -
  have one: "unat (push_bit k (1 :: u64)) = 2 ^ k" using assms(1) by (intro unat_push_bit_one) simp
  have "unat (push_bit k (1 :: u64)) < 2 ^ Suc k" unfolding one by simp
  from unat_or_disjoint [OF assms(2) this] show ?thesis unfolding set_bit_u64_def one .
qed

interpretation u64_quotient: quotient_bits set_bit_u64 unat 64
  by unfold_locales (rule u64_mark)

lemma dvd_low_high:
  fixes a b :: nat
  assumes "2 ^ m dvd a + 2 ^ 128 * b"
  shows "m \<le> 128 \<Longrightarrow> 2 ^ m dvd a" and "a < 2 ^ 128 \<Longrightarrow> 128 \<le> m \<Longrightarrow> a = 0 \<and> 2 ^ (m - 128) dvd b"
proof -
  show "2 ^ m dvd a" if "m \<le> 128"
  proof -
    have "(2::nat) ^ m dvd 2 ^ 128" using that by (rule le_imp_power_dvd)
    then have "2 ^ m dvd 2 ^ 128 * b" by (rule dvd_mult2)
    then show ?thesis using assms by (simp add: dvd_add_left_iff)
  qed
  show "a = 0 \<and> 2 ^ (m - 128) dvd b" if "a < 2 ^ 128" "128 \<le> m"
  proof -
    have "(2::nat) ^ 128 dvd 2 ^ m" using that(2) by (rule le_imp_power_dvd)
    then have "2 ^ 128 dvd a + 2 ^ 128 * b" using assms by (rule dvd_trans)
    then have "2 ^ 128 dvd a" by (simp add: dvd_add_left_iff)
    then have "a = 0" using that(1) by (auto dest: dvd_imp_le)
    moreover from this have "2 ^ 128 * 2 ^ (m - 128) dvd 2 ^ 128 * b"
      using assms pow_split [OF that(2)] by simp
    ultimately show ?thesis by (simp only: nat_mult_dvd_cancel_disj) simp
  qed
qed

lemma u256_mark:
  assumes "k < 256" and "2 ^ Suc k dvd u256_val q"
  shows "u256_val (set_bit_u256 q k) = u256_val q + 2 ^ k"
proof (cases "k < 128")
  case True
  then have bit: "u256_shl (1, 0) k = (push_bit k 1, 0)"
    by (auto simp: u256_shl_def word_unat_eq_iff unat_drop_bit unat_or_disjoint [of 0])
  have one: "unat (push_bit k (1 :: u128)) = 2 ^ k" using True by (intro unat_push_bit_one) simp
  have dvd: "2 ^ Suc k dvd unat (fst q)"
    using assms(2) unfolding u256_val_def by (rule dvd_low_high(1)) (use True in simp)
  have "unat (push_bit k (1 :: u128)) < 2 ^ Suc k" unfolding one by simp
  from unat_or_disjoint [OF dvd this] have "unat (fst q OR push_bit k 1) = unat (fst q) + 2 ^ k" unfolding one .
  then show ?thesis by (simp add: set_bit_u256_def u256_or_def u256_val_def bit)
next
  case False
  then have bit: "u256_shl (1, 0) k = (0, push_bit (k - 128) 1)" using assms(1) by (simp add: u256_shl_def)
  have one: "unat (push_bit (k - 128) (1 :: u128)) = 2 ^ (k - 128)"
    using assms(1) by (intro unat_push_bit_one) simp
  have dvd: "2 ^ (Suc k - 128) dvd unat (snd q)"
    using dvd_low_high(2) [OF assms(2) [unfolded u256_val_def] u128_less] False by linarith
  have "unat (push_bit (k - 128) (1 :: u128)) < 2 ^ (Suc k - 128)" unfolding one using False by simp
  from unat_or_disjoint [OF dvd this]
  have "unat (snd q OR push_bit (k - 128) 1) = unat (snd q) + 2 ^ (k - 128)" unfolding one .
  moreover have "(2::nat) ^ k = 2 ^ 128 * 2 ^ (k - 128)" using False by (intro pow_split) simp
  ultimately show ?thesis
    by (simp only: set_bit_u256_def u256_or_def u256_val_def bit fst_conv snd_conv distrib_left or.right_neutral)
qed

interpretation u256_quotient: quotient_bits set_bit_u256 u256_val 256
  by unfold_locales (rule u256_mark)

section \<open>The conversions\<close>

abbreviation DIFF1 :: nat where
  "DIFF1 \<equiv> 0xFFFF * 2 ^ 208"

lemma length_diff1_le [simp]: "length diff1_le = 32"
  by (simp add: diff1_le_def DIFF1_TARGET_BE_def)

lemma le_val_diff1: "le_val diff1_le = DIFF1"
  by (simp add: diff1_le_def DIFF1_TARGET_BE_def)

lemma diff1_val: "u256_val (u256_from_le diff1_le) = DIFF1"
  using u256_from_le_val [OF length_diff1_le] le_val_diff1 by (rule trans)

lemma diff1_bits: "u256_bits (u256_from_le diff1_le) = 224"
  unfolding u256_bits_val diff1_val using nat_bits_unique [of 223 DIFF1] by simp

lemma le_val_zero: "le_val bs = 0 \<longleftrightarrow> list_all (\<lambda>b. b = 0) bs"
  by (induction bs) (auto simp: unat_eq_0)

text \<open>The difficulty of a target: the integer quotient for every target of at least \<open>2 ^ 160\<close>, the
  maximum below it.\<close>

lemma target_to_difficulty_value:
  assumes "length t = 32"
  shows "unat (target_to_difficulty_u64 t) =
    (if le_val t < 2 ^ 160 then 2 ^ 64 - 1 else DIFF1 div le_val t)"
proof -
  let ?d = "u256_from_le t" and ?n = "u256_from_le diff1_le"
  have d: "u256_val ?d = le_val t" by (rule u256_from_le_val [OF assms])
  have bits: "u256_bits ?d = nat_bits (le_val t)" by (simp add: u256_bits_val d)
  have sh: "63 < 224 - nat_bits (le_val t) \<longleftrightarrow> le_val t < 2 ^ 160"
    using nat_bits_less_iff [of "le_val t" 160] by linarith
  have max: "unat (- 1 :: u64) = 2 ^ 64 - 1" by (simp add: unat_max_word)
  consider "le_val t = 0" | "DIFF1 < le_val t" | "le_val t = DIFF1" | "0 < le_val t" "le_val t < DIFF1"
    by linarith
  then show ?thesis
  proof cases
    case 1
    then show ?thesis by (simp add: target_to_difficulty_u64_def le_val_zero [symmetric] max [simplified])
  next
    case 2
    then have "\<not> list_all (\<lambda>b. b = 0) t" by (auto simp flip: le_val_zero)
    moreover have "u256_gt ?d ?n" using 2 by (simp add: u256_gt_val d diff1_val [simplified])
    ultimately show ?thesis using 2 by (simp add: target_to_difficulty_u64_def)
  next
    case 3
    then have "\<not> list_all (\<lambda>b. b = 0) t" by (auto simp flip: le_val_zero)
    moreover have "\<not> u256_gt ?d ?n" using 3 by (simp add: u256_gt_val d diff1_val [simplified])
    moreover have "u256_eq ?d ?n"
      using 3 u256_val_inject [of ?d ?n] d diff1_val by (simp add: u256_eq_def prod_eq_iff)
    ultimately show ?thesis using 3 by (simp add: target_to_difficulty_u64_def)
  next
    case 4
    then have nz: "\<not> list_all (\<lambda>b. b = 0) t" by (auto simp flip: le_val_zero)
    have gt: "\<not> u256_gt ?d ?n" using 4 by (simp add: u256_gt_val d diff1_val [simplified])
    have eq: "\<not> u256_eq ?d ?n"
      using 4 u256_val_inject [of ?d ?n] d diff1_val by (simp add: u256_eq_def prod_eq_iff)
    have "le_val t < 2 ^ 224" using 4(2) by simp
    then have le: "nat_bits (le_val t) \<le> 224" by (simp only: nat_bits_less_iff)
    show ?thesis
    proof (cases "le_val t < 2 ^ 160")
      case True
      then show ?thesis
        using nz gt eq le sh
        by (simp add: target_to_difficulty_u64_def diff1_bits bits max [simplified] Let_def)
    next
      case False
      have "unat (divide_loop set_bit_u64 ?d (Suc (u256_bits ?n - u256_bits ?d)) ?n 0) = u256_val ?n div u256_val ?d"
        by (rule u64_quotient.divide_from_bits) (use 4 False le sh in \<open>auto simp: diff1_bits bits d\<close>)
      then show ?thesis
        using nz gt eq le sh False
        by (simp add: target_to_difficulty_u64_def diff1_bits bits Let_def d diff1_val [simplified])
    qed
  qed
qed

lemma difficulty_to_target_length [simp]: "length (difficulty_to_target d) = 32"
  by (simp add: difficulty_to_target_def Let_def)

lemma difficulty_to_target_value:
  assumes "d \<noteq> 0"
  shows "le_val (difficulty_to_target d) = DIFF1 div unat d"
proof -
  let ?d = "(ucast d, 0) :: U256" and ?n = "u256_from_le diff1_le"
  have u: "unat (ucast d :: u128) = unat d" by (simp add: unat_ucast_up)
  have d: "u256_val ?d = unat d" by (simp add: u256_val_def u)
  have pos: "0 < unat d" using assms by (simp add: unat_gt_0)
  have "unat d < 2 ^ LENGTH(64)" by (rule unsigned_less)
  then have bits: "u256_bits ?d \<le> 64" by (simp add: u256_bits_val d nat_bits_less_iff)
  let ?q = "divide_loop set_bit_u256 ?d (Suc (u256_bits ?n - u256_bits ?d)) ?n (0, 0)"
  have "u256_val ?q = u256_val ?n div u256_val ?d"
    by (rule u256_quotient.divide_from_bits) (use pos bits in \<open>auto simp: diff1_bits d u256_val_def u\<close>)
  then have q: "u256_val ?q = DIFF1 div unat d" by (simp only: d diff1_val)
  have "le_val (u128_to_le_bytes (fst ?q) @ u128_to_le_bytes (snd ?q)) = u256_val ?q"
    using u128_less [of "fst ?q"] u128_less [of "snd ?q"]
    by (simp add: le_val_append u128_to_le_bytes_def le_val_to_le u256_val_def)
  then show ?thesis
    using assms bits q by (simp add: difficulty_to_target_def Let_def diff1_bits)
qed

lemma div_div_exact:
  fixes n d :: nat
  assumes "0 < d" and "d * d \<le> n"
  shows "n div (n div d) = d"
proof -
  have q: "d \<le> n div d" using assms by (simp add: less_eq_div_iff_mult_less_eq)
  have "n mod d < n div d" using assms(1) q mod_less_divisor [of d n] by linarith
  then have "(n div d) * d \<le> n" and "n < (n div d) * Suc d"
    using div_mult_mod_eq [of n d] unfolding mult_Suc_right by linarith+
  then show ?thesis by (intro div_nat_eqI) (simp_all add: mult.commute)
qed

lemma difficulty_round_trip:
  assumes "d \<noteq> 0" and "unat d \<le> 0xFFFF * 2 ^ 48"
  shows "target_to_difficulty_u64 (difficulty_to_target d) = d"
proof -
  have pos: "0 < unat d" using assms(1) by (simp add: unat_gt_0)
  have "unat d * unat d \<le> (0xFFFF * 2 ^ 48) * (0xFFFF * 2 ^ 48)" using assms(2) by (intro mult_le_mono)
  also have "\<dots> \<le> DIFF1" by simp
  finally have "DIFF1 div (DIFF1 div unat d) = unat d" using div_div_exact [OF pos] by simp
  moreover have "2 ^ 160 \<le> DIFF1 div unat d"
    using pos assms(2) by (simp add: less_eq_div_iff_mult_less_eq)
  ultimately have "unat (target_to_difficulty_u64 (difficulty_to_target d)) = unat d"
    using target_to_difficulty_value [of "difficulty_to_target d"]
    by (simp add: difficulty_to_target_value [OF assms(1)])
  then show ?thesis by (simp add: word_unat_eq_iff)
qed

section \<open>Properties\<close>

text \<open>C40. A difficulty converts to the exact quotient of the difficulty-1 target, as 32
  little-endian bytes; difficulty zero is the easiest target there is.\<close>

theorem target_is_exact_quotient:
  "length (difficulty_to_target d) = 32 \<and>
   le_val (difficulty_to_target d) = (if d = 0 then 2 ^ 256 - 1 else 0xFFFF * 2 ^ 208 div unat d)"
proof (cases "d = 0")
  case True
  then have "255 * le_val (difficulty_to_target d) = 255 * (256 ^ 32 - 1)"
    using le_val_replicate [of 32 "0xFF"] by (simp add: difficulty_to_target_def)
  then show ?thesis using True by simp
next
  case False
  then show ?thesis by (simp add: difficulty_to_target_value)
qed

text \<open>The difficulty of a 32-byte target is the exact integer quotient of the difficulty-1
  target, zero for easier targets included; every target below \<open>2 ^ 160\<close>, zero included, has
  the largest 64-bit difficulty.\<close>

theorem difficulty_of_target:
  "length t = 32 \<Longrightarrow>
    unat (target_to_difficulty_u64 t) =
      (if le_val t < 2 ^ 160 then 2 ^ 64 - 1 else 0xFFFF * 2 ^ 208 div le_val t)"
  by (rule target_to_difficulty_value)

theorem difficulty_of_target_witness:
  "length diff1_le = 32 \<and> unat (target_to_difficulty_u64 diff1_le) = 1"
  using difficulty_of_target [OF length_diff1_le] by (simp add: le_val_diff1 [simplified])

text \<open>Every difficulty up to \<open>0xFFFF * 2 ^ 48\<close> survives the round trip through its target.\<close>

theorem difficulty_round_trips:
  "d \<noteq> 0 \<Longrightarrow> unat d \<le> 0xFFFF * 2 ^ 48 \<Longrightarrow> target_to_difficulty_u64 (difficulty_to_target d) = d"
  by (rule difficulty_round_trip)

theorem difficulty_round_trips_witness:
  "target_to_difficulty_u64 (difficulty_to_target 65535) = 65535"
  by (rule difficulty_round_trips) simp_all

end
