(* ===== verification/RG_Reasons.thy ===== *)
theory RG_Reasons
  imports RG_Protocol
begin

text \<open>
  The unified reason codes of \<open>services/reservegrid-common/src/reason.rs\<close>: the gateway's own
  rejection reasons (\<open>GatewayReason\<close>, constructors \<open>GR_\<dots>\<close>), the superset every log line and
  API answer keys off (\<open>ReasonCode\<close>, constructors \<open>RC_\<dots>\<close>), the two conversions into it and the
  mapping of share and channel-open rejections to Stratum V2 error codes. Both enumerations
  interpret \<open>reason_codes\<close>; the locale \<open>reason_embedding\<close> states the module's one
  non-negotiable rule, that a conversion never changes the code string, and derives from it
  that no two reasons are merged.
\<close>

section \<open>Gateway reasons\<close>

datatype GatewayReason =
    GR_AuthFailed
  | GR_UnsupportedAlgorithm
  | GR_RateLimited
  | GR_PayloadTooLarge
  | GR_InvalidContentType
  | GR_PayloadUnknownField
  | GR_PayloadFieldOutOfRange
  | GR_PayloadMalformed
  | GR_PayloadNestingExceeded
  | GR_RequestExpired
  | GR_RequestReplayed
  | GR_HandlerTimeout
  | GR_ConfigInvalid
  | GR_InternalError
  | GR_InternalLineTooLarge
  | GR_InternalFramingError
  | GR_InternalVersionMismatch
  | GR_InternalUnknownMsgFlood
  | GR_NoiseHandshakeFailed
  | GR_NoiseHandshakeTimeout
  | GR_UnsupportedProtocolVersion
  | GR_FrameDecodeError
  | GR_FrameTooLarge
  | GR_ConnectionRateLimited
  | GR_PeerQuotaExceeded
  | GR_MinerUnauthorized
  | GR_IdentityPrefixUnmatched
  | GR_IdentityTooLong
  | GR_ChannelOpenRejected
  | GR_ChannelLimitExceeded
  | GR_InvalidChannelId
  | GR_ExtendedChannelUnsupported
  | GR_PrevhashSwitchTimeout
  | GR_PrevhashVerdictRejected
  | GR_TemplateCacheMiss
  | GR_StaleJobSubmission
  | GR_UpstreamUnavailable
  | GR_MissingGatewaySignature
  | GR_MalformedGatewaySignature
  | GR_MalformedEventId
  | GR_InvalidGatewaySignature
  | GR_ShareReplayDetected
  | GR_ShareDifficultyBelowTarget
  | GR_ShareInvalidJobId
  | GR_ShareInvalidNonce
  | GR_VersionBitViolation
  | GR_NtimeOutOfRange
  | GR_ShareForwardFailed
  | GR_ShareUpstreamRejected
  | GR_ShareDroppedQueueFull
  | GR_ShareEvictedFromQueue
  | GR_ShareRateLimited
  | GR_ProcessCrashRecovery
  | GR_WalWriteFailure
  | GR_PeerTransportError
  | GR_ChannelOpenTimeout
  | GR_SetupConnectionRejected
  | GR_ShutdownDrain
  | GR_StartupPending

definition GATEWAY_ALL :: "GatewayReason list" where
  "GATEWAY_ALL =
    [GR_AuthFailed,
     GR_UnsupportedAlgorithm,
     GR_RateLimited,
     GR_PayloadTooLarge,
     GR_InvalidContentType,
     GR_PayloadUnknownField,
     GR_PayloadFieldOutOfRange,
     GR_PayloadMalformed,
     GR_PayloadNestingExceeded,
     GR_RequestExpired,
     GR_RequestReplayed,
     GR_HandlerTimeout,
     GR_ConfigInvalid,
     GR_InternalError,
     GR_InternalLineTooLarge,
     GR_InternalFramingError,
     GR_InternalVersionMismatch,
     GR_InternalUnknownMsgFlood,
     GR_NoiseHandshakeFailed,
     GR_NoiseHandshakeTimeout,
     GR_UnsupportedProtocolVersion,
     GR_FrameDecodeError,
     GR_FrameTooLarge,
     GR_ConnectionRateLimited,
     GR_PeerQuotaExceeded,
     GR_MinerUnauthorized,
     GR_IdentityPrefixUnmatched,
     GR_IdentityTooLong,
     GR_ChannelOpenRejected,
     GR_ChannelLimitExceeded,
     GR_InvalidChannelId,
     GR_ExtendedChannelUnsupported,
     GR_PrevhashSwitchTimeout,
     GR_PrevhashVerdictRejected,
     GR_TemplateCacheMiss,
     GR_StaleJobSubmission,
     GR_UpstreamUnavailable,
     GR_MissingGatewaySignature,
     GR_MalformedGatewaySignature,
     GR_MalformedEventId,
     GR_InvalidGatewaySignature,
     GR_ShareReplayDetected,
     GR_ShareDifficultyBelowTarget,
     GR_ShareInvalidJobId,
     GR_ShareInvalidNonce,
     GR_VersionBitViolation,
     GR_NtimeOutOfRange,
     GR_ShareForwardFailed,
     GR_ShareUpstreamRejected,
     GR_ShareDroppedQueueFull,
     GR_ShareEvictedFromQueue,
     GR_ShareRateLimited,
     GR_ProcessCrashRecovery,
     GR_WalWriteFailure,
     GR_PeerTransportError,
     GR_ChannelOpenTimeout,
     GR_SetupConnectionRejected,
     GR_ShutdownDrain,
     GR_StartupPending]"

definition GATEWAY_ALL_CODES :: "string list" where
  "GATEWAY_ALL_CODES =
    [''auth_failed'',
     ''unsupported_algorithm'',
     ''rate_limited'',
     ''payload_too_large'',
     ''invalid_content_type'',
     ''payload_unknown_field'',
     ''payload_field_out_of_range'',
     ''payload_malformed'',
     ''payload_nesting_exceeded'',
     ''request_expired'',
     ''request_replayed'',
     ''handler_timeout'',
     ''config_invalid'',
     ''internal_error'',
     ''internal_line_too_large'',
     ''internal_framing_error'',
     ''internal_version_mismatch'',
     ''internal_unknown_msg_flood'',
     ''noise_handshake_failed'',
     ''noise_handshake_timeout'',
     ''unsupported_protocol_version'',
     ''frame_decode_error'',
     ''frame_too_large'',
     ''connection_rate_limited'',
     ''peer_quota_exceeded'',
     ''miner_unauthorized'',
     ''identity_prefix_unmatched'',
     ''identity_too_long'',
     ''channel_open_rejected'',
     ''channel_limit_exceeded'',
     ''invalid_channel_id'',
     ''extended_channel_unsupported'',
     ''prevhash_switch_timeout'',
     ''prevhash_verdict_rejected'',
     ''template_cache_miss'',
     ''stale_job_submission'',
     ''upstream_unavailable'',
     ''missing_gateway_signature'',
     ''malformed_gateway_signature'',
     ''malformed_event_id'',
     ''invalid_gateway_signature'',
     ''share_replay_detected'',
     ''share_difficulty_below_target'',
     ''share_invalid_job_id'',
     ''share_invalid_nonce'',
     ''version_bit_violation'',
     ''ntime_out_of_range'',
     ''share_forward_failed'',
     ''share_upstream_rejected'',
     ''share_dropped_queue_full'',
     ''share_evicted_from_queue'',
     ''share_rate_limited'',
     ''process_crash_recovery'',
     ''wal_write_failure'',
     ''peer_transport_error'',
     ''channel_open_timeout'',
     ''setup_connection_rejected'',
     ''shutdown_drain'',
     ''startup_pending'']"

primrec gateway_as_str :: "GatewayReason \<Rightarrow> string" where
  "gateway_as_str GR_AuthFailed = ''auth_failed''"
| "gateway_as_str GR_UnsupportedAlgorithm = ''unsupported_algorithm''"
| "gateway_as_str GR_RateLimited = ''rate_limited''"
| "gateway_as_str GR_PayloadTooLarge = ''payload_too_large''"
| "gateway_as_str GR_InvalidContentType = ''invalid_content_type''"
| "gateway_as_str GR_PayloadUnknownField = ''payload_unknown_field''"
| "gateway_as_str GR_PayloadFieldOutOfRange = ''payload_field_out_of_range''"
| "gateway_as_str GR_PayloadMalformed = ''payload_malformed''"
| "gateway_as_str GR_PayloadNestingExceeded = ''payload_nesting_exceeded''"
| "gateway_as_str GR_RequestExpired = ''request_expired''"
| "gateway_as_str GR_RequestReplayed = ''request_replayed''"
| "gateway_as_str GR_HandlerTimeout = ''handler_timeout''"
| "gateway_as_str GR_ConfigInvalid = ''config_invalid''"
| "gateway_as_str GR_InternalError = ''internal_error''"
| "gateway_as_str GR_InternalLineTooLarge = ''internal_line_too_large''"
| "gateway_as_str GR_InternalFramingError = ''internal_framing_error''"
| "gateway_as_str GR_InternalVersionMismatch = ''internal_version_mismatch''"
| "gateway_as_str GR_InternalUnknownMsgFlood = ''internal_unknown_msg_flood''"
| "gateway_as_str GR_NoiseHandshakeFailed = ''noise_handshake_failed''"
| "gateway_as_str GR_NoiseHandshakeTimeout = ''noise_handshake_timeout''"
| "gateway_as_str GR_UnsupportedProtocolVersion = ''unsupported_protocol_version''"
| "gateway_as_str GR_FrameDecodeError = ''frame_decode_error''"
| "gateway_as_str GR_FrameTooLarge = ''frame_too_large''"
| "gateway_as_str GR_ConnectionRateLimited = ''connection_rate_limited''"
| "gateway_as_str GR_PeerQuotaExceeded = ''peer_quota_exceeded''"
| "gateway_as_str GR_MinerUnauthorized = ''miner_unauthorized''"
| "gateway_as_str GR_IdentityPrefixUnmatched = ''identity_prefix_unmatched''"
| "gateway_as_str GR_IdentityTooLong = ''identity_too_long''"
| "gateway_as_str GR_ChannelOpenRejected = ''channel_open_rejected''"
| "gateway_as_str GR_ChannelLimitExceeded = ''channel_limit_exceeded''"
| "gateway_as_str GR_InvalidChannelId = ''invalid_channel_id''"
| "gateway_as_str GR_ExtendedChannelUnsupported = ''extended_channel_unsupported''"
| "gateway_as_str GR_PrevhashSwitchTimeout = ''prevhash_switch_timeout''"
| "gateway_as_str GR_PrevhashVerdictRejected = ''prevhash_verdict_rejected''"
| "gateway_as_str GR_TemplateCacheMiss = ''template_cache_miss''"
| "gateway_as_str GR_StaleJobSubmission = ''stale_job_submission''"
| "gateway_as_str GR_UpstreamUnavailable = ''upstream_unavailable''"
| "gateway_as_str GR_MissingGatewaySignature = ''missing_gateway_signature''"
| "gateway_as_str GR_MalformedGatewaySignature = ''malformed_gateway_signature''"
| "gateway_as_str GR_MalformedEventId = ''malformed_event_id''"
| "gateway_as_str GR_InvalidGatewaySignature = ''invalid_gateway_signature''"
| "gateway_as_str GR_ShareReplayDetected = ''share_replay_detected''"
| "gateway_as_str GR_ShareDifficultyBelowTarget = ''share_difficulty_below_target''"
| "gateway_as_str GR_ShareInvalidJobId = ''share_invalid_job_id''"
| "gateway_as_str GR_ShareInvalidNonce = ''share_invalid_nonce''"
| "gateway_as_str GR_VersionBitViolation = ''version_bit_violation''"
| "gateway_as_str GR_NtimeOutOfRange = ''ntime_out_of_range''"
| "gateway_as_str GR_ShareForwardFailed = ''share_forward_failed''"
| "gateway_as_str GR_ShareUpstreamRejected = ''share_upstream_rejected''"
| "gateway_as_str GR_ShareDroppedQueueFull = ''share_dropped_queue_full''"
| "gateway_as_str GR_ShareEvictedFromQueue = ''share_evicted_from_queue''"
| "gateway_as_str GR_ShareRateLimited = ''share_rate_limited''"
| "gateway_as_str GR_ProcessCrashRecovery = ''process_crash_recovery''"
| "gateway_as_str GR_WalWriteFailure = ''wal_write_failure''"
| "gateway_as_str GR_PeerTransportError = ''peer_transport_error''"
| "gateway_as_str GR_ChannelOpenTimeout = ''channel_open_timeout''"
| "gateway_as_str GR_SetupConnectionRejected = ''setup_connection_rejected''"
| "gateway_as_str GR_ShutdownDrain = ''shutdown_drain''"
| "gateway_as_str GR_StartupPending = ''startup_pending''"

definition SV2_SHARE_ERROR_CODES :: "string list" where
  "SV2_SHARE_ERROR_CODES = [''stale-share'', ''difficulty-too-low'', ''invalid-job-id'', ''invalid-channel-id'']"

text \<open>\<open>None\<close> is the panic of the \<open>unreachable!\<close> arms: the variants that never reach the wire.\<close>

definition to_sv2_error_code :: "GatewayReason \<Rightarrow> string option" where
  "to_sv2_error_code r = (case r of
      GR_InvalidChannelId \<Rightarrow> Some ''invalid-channel-id''
    | GR_ShareInvalidJobId \<Rightarrow> Some ''invalid-job-id''
    | GR_ShareDifficultyBelowTarget \<Rightarrow> Some ''difficulty-too-low''
    | GR_StaleJobSubmission \<Rightarrow> Some ''stale-share''
    | GR_ShareReplayDetected \<Rightarrow> Some ''stale-share''
    | GR_ShareInvalidNonce \<Rightarrow> Some ''stale-share''
    | GR_VersionBitViolation \<Rightarrow> Some ''stale-share''
    | GR_NtimeOutOfRange \<Rightarrow> Some ''stale-share''
    | GR_ShareDroppedQueueFull \<Rightarrow> Some ''stale-share''
    | GR_ShareRateLimited \<Rightarrow> Some ''stale-share''
    | _ \<Rightarrow> None)"

definition SV2_OPEN_CHANNEL_ERROR_CODES :: "string list" where
  "SV2_OPEN_CHANNEL_ERROR_CODES = [''unknown-user'', ''max-target-out-of-range'']"

text \<open>Here \<open>None\<close> is a value of the code: close the connection without an error message.\<close>

definition open_channel_wire_action :: "GatewayReason \<Rightarrow> string option" where
  "open_channel_wire_action r = (case r of
      GR_MinerUnauthorized \<Rightarrow> Some ''unknown-user''
    | GR_IdentityPrefixUnmatched \<Rightarrow> Some ''unknown-user''
    | GR_IdentityTooLong \<Rightarrow> Some ''unknown-user''
    | _ \<Rightarrow> None)"

section \<open>The unified reason codes\<close>

datatype (plugins only: ) ReasonCode =
    RC_ProtocolVersionMismatch
  | RC_InvalidPrevHash
  | RC_PrevHashLenMismatch
  | RC_CoinbaseValueZeroRejected
  | RC_EmptyTemplateRejected
  | RC_TxCountExceeded
  | RC_TotalFeesBelowMinimum
  | RC_AvgFeeBelowMinimum
  | RC_PolicyLoadError
  | RC_MempoolBackendUnavailable
  | RC_WeightRatioExceeded
  | RC_TemplateStale
  | RC_SigopsBudgetWarning
  | RC_CoinbaseSigopsAbnormal
  | RC_V2InvariantCoinbaseValueMismatch
  | RC_V2InvariantTemplateWeightMismatch
  | RC_V2InvariantMerkleRootMismatch
  | RC_V2InvariantWitnessCommitmentMissing
  | RC_V2InvariantWitnessCommitmentMismatch
  | RC_V2InvariantSigopsMismatch
  | RC_V2InvariantCoinbaseSigopsMismatch
  | RC_V2InvariantTxCountMismatch
  | RC_V2InvariantCoinbaseScriptLength
  | RC_V2InvariantCoinbaseOutputCount
  | RC_V2InvariantCoinbaseBip34Missing
  | RC_V2InvariantCoinbaseHeightMismatch
  | RC_V2InvariantWeightExceedsMax
  | RC_V2InvariantSigopsExceedMax
  | RC_V2InvariantCoinbaseValueExceedsMax
  | RC_V2InvariantNontcbNullPrevout
  | RC_V2InvariantCoinbasePrevoutNotNull
  | RC_V2InvariantHeaderVersionLow
  | RC_V2InvariantDuplicateTx
  | RC_V2InvariantDecodeFailed
  | RC_V2InvariantMempoolTxUnknown
  | RC_V2InvariantMempoolToleranceExceeded
  | RC_V2InvariantMempoolUnavailable
  | RC_V2InvariantMempoolViewStale
  | RC_AuthFailed
  | RC_UnsupportedAlgorithm
  | RC_RateLimited
  | RC_PayloadTooLarge
  | RC_InvalidContentType
  | RC_PayloadUnknownField
  | RC_PayloadFieldOutOfRange
  | RC_PayloadMalformed
  | RC_PayloadNestingExceeded
  | RC_RequestExpired
  | RC_RequestReplayed
  | RC_HandlerTimeout
  | RC_ConfigInvalid
  | RC_InternalLineTooLarge
  | RC_InternalFramingError
  | RC_InternalVersionMismatch
  | RC_InternalUnknownMsgFlood
  | RC_NoiseHandshakeFailed
  | RC_NoiseHandshakeTimeout
  | RC_UnsupportedProtocolVersion
  | RC_FrameDecodeError
  | RC_FrameTooLarge
  | RC_ConnectionRateLimited
  | RC_PeerQuotaExceeded
  | RC_MinerUnauthorized
  | RC_IdentityPrefixUnmatched
  | RC_IdentityTooLong
  | RC_ChannelOpenRejected
  | RC_ChannelLimitExceeded
  | RC_InvalidChannelId
  | RC_ExtendedChannelUnsupported
  | RC_PrevhashSwitchTimeout
  | RC_PrevhashVerdictRejected
  | RC_TemplateCacheMiss
  | RC_StaleJobSubmission
  | RC_UpstreamUnavailable
  | RC_MissingGatewaySignature
  | RC_MalformedGatewaySignature
  | RC_MalformedEventId
  | RC_InvalidGatewaySignature
  | RC_ShareReplayDetected
  | RC_ShareDifficultyBelowTarget
  | RC_ShareInvalidJobId
  | RC_ShareInvalidNonce
  | RC_VersionBitViolation
  | RC_NtimeOutOfRange
  | RC_ShareForwardFailed
  | RC_ShareUpstreamRejected
  | RC_ShareDroppedQueueFull
  | RC_ShareEvictedFromQueue
  | RC_ShareRateLimited
  | RC_ProcessCrashRecovery
  | RC_WalWriteFailure
  | RC_PeerTransportError
  | RC_ChannelOpenTimeout
  | RC_SetupConnectionRejected
  | RC_ShutdownDrain
  | RC_StartupPending
  | RC_InternalError

definition REASON_ALL :: "ReasonCode list" where
  "REASON_ALL =
    [RC_ProtocolVersionMismatch,
     RC_InvalidPrevHash,
     RC_PrevHashLenMismatch,
     RC_CoinbaseValueZeroRejected,
     RC_EmptyTemplateRejected,
     RC_TxCountExceeded,
     RC_TotalFeesBelowMinimum,
     RC_AvgFeeBelowMinimum,
     RC_PolicyLoadError,
     RC_MempoolBackendUnavailable,
     RC_WeightRatioExceeded,
     RC_TemplateStale,
     RC_SigopsBudgetWarning,
     RC_CoinbaseSigopsAbnormal,
     RC_V2InvariantCoinbaseValueMismatch,
     RC_V2InvariantTemplateWeightMismatch,
     RC_V2InvariantMerkleRootMismatch,
     RC_V2InvariantWitnessCommitmentMissing,
     RC_V2InvariantWitnessCommitmentMismatch,
     RC_V2InvariantSigopsMismatch,
     RC_V2InvariantCoinbaseSigopsMismatch,
     RC_V2InvariantTxCountMismatch,
     RC_V2InvariantCoinbaseScriptLength,
     RC_V2InvariantCoinbaseOutputCount,
     RC_V2InvariantCoinbaseBip34Missing,
     RC_V2InvariantCoinbaseHeightMismatch,
     RC_V2InvariantWeightExceedsMax,
     RC_V2InvariantSigopsExceedMax,
     RC_V2InvariantCoinbaseValueExceedsMax,
     RC_V2InvariantNontcbNullPrevout,
     RC_V2InvariantCoinbasePrevoutNotNull,
     RC_V2InvariantHeaderVersionLow,
     RC_V2InvariantDuplicateTx,
     RC_V2InvariantDecodeFailed,
     RC_V2InvariantMempoolTxUnknown,
     RC_V2InvariantMempoolToleranceExceeded,
     RC_V2InvariantMempoolUnavailable,
     RC_V2InvariantMempoolViewStale,
     RC_AuthFailed,
     RC_UnsupportedAlgorithm,
     RC_RateLimited,
     RC_PayloadTooLarge,
     RC_InvalidContentType,
     RC_PayloadUnknownField,
     RC_PayloadFieldOutOfRange,
     RC_PayloadMalformed,
     RC_PayloadNestingExceeded,
     RC_RequestExpired,
     RC_RequestReplayed,
     RC_HandlerTimeout,
     RC_ConfigInvalid,
     RC_InternalLineTooLarge,
     RC_InternalFramingError,
     RC_InternalVersionMismatch,
     RC_InternalUnknownMsgFlood,
     RC_NoiseHandshakeFailed,
     RC_NoiseHandshakeTimeout,
     RC_UnsupportedProtocolVersion,
     RC_FrameDecodeError,
     RC_FrameTooLarge,
     RC_ConnectionRateLimited,
     RC_PeerQuotaExceeded,
     RC_MinerUnauthorized,
     RC_IdentityPrefixUnmatched,
     RC_IdentityTooLong,
     RC_ChannelOpenRejected,
     RC_ChannelLimitExceeded,
     RC_InvalidChannelId,
     RC_ExtendedChannelUnsupported,
     RC_PrevhashSwitchTimeout,
     RC_PrevhashVerdictRejected,
     RC_TemplateCacheMiss,
     RC_StaleJobSubmission,
     RC_UpstreamUnavailable,
     RC_MissingGatewaySignature,
     RC_MalformedGatewaySignature,
     RC_MalformedEventId,
     RC_InvalidGatewaySignature,
     RC_ShareReplayDetected,
     RC_ShareDifficultyBelowTarget,
     RC_ShareInvalidJobId,
     RC_ShareInvalidNonce,
     RC_VersionBitViolation,
     RC_NtimeOutOfRange,
     RC_ShareForwardFailed,
     RC_ShareUpstreamRejected,
     RC_ShareDroppedQueueFull,
     RC_ShareEvictedFromQueue,
     RC_ShareRateLimited,
     RC_ProcessCrashRecovery,
     RC_WalWriteFailure,
     RC_PeerTransportError,
     RC_ChannelOpenTimeout,
     RC_SetupConnectionRejected,
     RC_ShutdownDrain,
     RC_StartupPending,
     RC_InternalError]"

definition REASON_ALL_CODES :: "string list" where
  "REASON_ALL_CODES =
    [''protocol_version_mismatch'',
     ''invalid_prev_hash'',
     ''prev_hash_len_mismatch'',
     ''coinbase_value_zero_rejected'',
     ''empty_template_rejected'',
     ''tx_count_exceeded'',
     ''total_fees_below_minimum'',
     ''avg_fee_below_minimum'',
     ''policy_load_error'',
     ''mempool_backend_unavailable'',
     ''weight_ratio_exceeded'',
     ''template_stale'',
     ''sigops_budget_warning'',
     ''coinbase_sigops_abnormal'',
     ''v2_invariant_coinbase_value_mismatch'',
     ''v2_invariant_template_weight_mismatch'',
     ''v2_invariant_merkle_root_mismatch'',
     ''v2_invariant_witness_commitment_missing'',
     ''v2_invariant_witness_commitment_mismatch'',
     ''v2_invariant_sigops_mismatch'',
     ''v2_invariant_coinbase_sigops_mismatch'',
     ''v2_invariant_tx_count_mismatch'',
     ''v2_invariant_coinbase_script_length'',
     ''v2_invariant_coinbase_output_count'',
     ''v2_invariant_coinbase_bip34_missing'',
     ''v2_invariant_coinbase_height_mismatch'',
     ''v2_invariant_weight_exceeds_max'',
     ''v2_invariant_sigops_exceed_max'',
     ''v2_invariant_coinbase_value_exceeds_max'',
     ''v2_invariant_nontcb_null_prevout'',
     ''v2_invariant_coinbase_prevout_not_null'',
     ''v2_invariant_header_version_low'',
     ''v2_invariant_duplicate_tx'',
     ''v2_invariant_decode_failed'',
     ''v2_invariant_mempool_tx_unknown'',
     ''v2_invariant_mempool_tolerance_exceeded'',
     ''v2_invariant_mempool_unavailable'',
     ''v2_invariant_mempool_view_stale'',
     ''auth_failed'',
     ''unsupported_algorithm'',
     ''rate_limited'',
     ''payload_too_large'',
     ''invalid_content_type'',
     ''payload_unknown_field'',
     ''payload_field_out_of_range'',
     ''payload_malformed'',
     ''payload_nesting_exceeded'',
     ''request_expired'',
     ''request_replayed'',
     ''handler_timeout'',
     ''config_invalid'',
     ''internal_line_too_large'',
     ''internal_framing_error'',
     ''internal_version_mismatch'',
     ''internal_unknown_msg_flood'',
     ''noise_handshake_failed'',
     ''noise_handshake_timeout'',
     ''unsupported_protocol_version'',
     ''frame_decode_error'',
     ''frame_too_large'',
     ''connection_rate_limited'',
     ''peer_quota_exceeded'',
     ''miner_unauthorized'',
     ''identity_prefix_unmatched'',
     ''identity_too_long'',
     ''channel_open_rejected'',
     ''channel_limit_exceeded'',
     ''invalid_channel_id'',
     ''extended_channel_unsupported'',
     ''prevhash_switch_timeout'',
     ''prevhash_verdict_rejected'',
     ''template_cache_miss'',
     ''stale_job_submission'',
     ''upstream_unavailable'',
     ''missing_gateway_signature'',
     ''malformed_gateway_signature'',
     ''malformed_event_id'',
     ''invalid_gateway_signature'',
     ''share_replay_detected'',
     ''share_difficulty_below_target'',
     ''share_invalid_job_id'',
     ''share_invalid_nonce'',
     ''version_bit_violation'',
     ''ntime_out_of_range'',
     ''share_forward_failed'',
     ''share_upstream_rejected'',
     ''share_dropped_queue_full'',
     ''share_evicted_from_queue'',
     ''share_rate_limited'',
     ''process_crash_recovery'',
     ''wal_write_failure'',
     ''peer_transport_error'',
     ''channel_open_timeout'',
     ''setup_connection_rejected'',
     ''shutdown_drain'',
     ''startup_pending'',
     ''internal_error'']"

primrec reason_as_str :: "ReasonCode \<Rightarrow> string" where
  "reason_as_str RC_ProtocolVersionMismatch = ''protocol_version_mismatch''"
| "reason_as_str RC_InvalidPrevHash = ''invalid_prev_hash''"
| "reason_as_str RC_PrevHashLenMismatch = ''prev_hash_len_mismatch''"
| "reason_as_str RC_CoinbaseValueZeroRejected = ''coinbase_value_zero_rejected''"
| "reason_as_str RC_EmptyTemplateRejected = ''empty_template_rejected''"
| "reason_as_str RC_TxCountExceeded = ''tx_count_exceeded''"
| "reason_as_str RC_TotalFeesBelowMinimum = ''total_fees_below_minimum''"
| "reason_as_str RC_AvgFeeBelowMinimum = ''avg_fee_below_minimum''"
| "reason_as_str RC_PolicyLoadError = ''policy_load_error''"
| "reason_as_str RC_MempoolBackendUnavailable = ''mempool_backend_unavailable''"
| "reason_as_str RC_WeightRatioExceeded = ''weight_ratio_exceeded''"
| "reason_as_str RC_TemplateStale = ''template_stale''"
| "reason_as_str RC_SigopsBudgetWarning = ''sigops_budget_warning''"
| "reason_as_str RC_CoinbaseSigopsAbnormal = ''coinbase_sigops_abnormal''"
| "reason_as_str RC_V2InvariantCoinbaseValueMismatch = ''v2_invariant_coinbase_value_mismatch''"
| "reason_as_str RC_V2InvariantTemplateWeightMismatch = ''v2_invariant_template_weight_mismatch''"
| "reason_as_str RC_V2InvariantMerkleRootMismatch = ''v2_invariant_merkle_root_mismatch''"
| "reason_as_str RC_V2InvariantWitnessCommitmentMissing = ''v2_invariant_witness_commitment_missing''"
| "reason_as_str RC_V2InvariantWitnessCommitmentMismatch = ''v2_invariant_witness_commitment_mismatch''"
| "reason_as_str RC_V2InvariantSigopsMismatch = ''v2_invariant_sigops_mismatch''"
| "reason_as_str RC_V2InvariantCoinbaseSigopsMismatch = ''v2_invariant_coinbase_sigops_mismatch''"
| "reason_as_str RC_V2InvariantTxCountMismatch = ''v2_invariant_tx_count_mismatch''"
| "reason_as_str RC_V2InvariantCoinbaseScriptLength = ''v2_invariant_coinbase_script_length''"
| "reason_as_str RC_V2InvariantCoinbaseOutputCount = ''v2_invariant_coinbase_output_count''"
| "reason_as_str RC_V2InvariantCoinbaseBip34Missing = ''v2_invariant_coinbase_bip34_missing''"
| "reason_as_str RC_V2InvariantCoinbaseHeightMismatch = ''v2_invariant_coinbase_height_mismatch''"
| "reason_as_str RC_V2InvariantWeightExceedsMax = ''v2_invariant_weight_exceeds_max''"
| "reason_as_str RC_V2InvariantSigopsExceedMax = ''v2_invariant_sigops_exceed_max''"
| "reason_as_str RC_V2InvariantCoinbaseValueExceedsMax = ''v2_invariant_coinbase_value_exceeds_max''"
| "reason_as_str RC_V2InvariantNontcbNullPrevout = ''v2_invariant_nontcb_null_prevout''"
| "reason_as_str RC_V2InvariantCoinbasePrevoutNotNull = ''v2_invariant_coinbase_prevout_not_null''"
| "reason_as_str RC_V2InvariantHeaderVersionLow = ''v2_invariant_header_version_low''"
| "reason_as_str RC_V2InvariantDuplicateTx = ''v2_invariant_duplicate_tx''"
| "reason_as_str RC_V2InvariantDecodeFailed = ''v2_invariant_decode_failed''"
| "reason_as_str RC_V2InvariantMempoolTxUnknown = ''v2_invariant_mempool_tx_unknown''"
| "reason_as_str RC_V2InvariantMempoolToleranceExceeded = ''v2_invariant_mempool_tolerance_exceeded''"
| "reason_as_str RC_V2InvariantMempoolUnavailable = ''v2_invariant_mempool_unavailable''"
| "reason_as_str RC_V2InvariantMempoolViewStale = ''v2_invariant_mempool_view_stale''"
| "reason_as_str RC_AuthFailed = ''auth_failed''"
| "reason_as_str RC_UnsupportedAlgorithm = ''unsupported_algorithm''"
| "reason_as_str RC_RateLimited = ''rate_limited''"
| "reason_as_str RC_PayloadTooLarge = ''payload_too_large''"
| "reason_as_str RC_InvalidContentType = ''invalid_content_type''"
| "reason_as_str RC_PayloadUnknownField = ''payload_unknown_field''"
| "reason_as_str RC_PayloadFieldOutOfRange = ''payload_field_out_of_range''"
| "reason_as_str RC_PayloadMalformed = ''payload_malformed''"
| "reason_as_str RC_PayloadNestingExceeded = ''payload_nesting_exceeded''"
| "reason_as_str RC_RequestExpired = ''request_expired''"
| "reason_as_str RC_RequestReplayed = ''request_replayed''"
| "reason_as_str RC_HandlerTimeout = ''handler_timeout''"
| "reason_as_str RC_ConfigInvalid = ''config_invalid''"
| "reason_as_str RC_InternalLineTooLarge = ''internal_line_too_large''"
| "reason_as_str RC_InternalFramingError = ''internal_framing_error''"
| "reason_as_str RC_InternalVersionMismatch = ''internal_version_mismatch''"
| "reason_as_str RC_InternalUnknownMsgFlood = ''internal_unknown_msg_flood''"
| "reason_as_str RC_NoiseHandshakeFailed = ''noise_handshake_failed''"
| "reason_as_str RC_NoiseHandshakeTimeout = ''noise_handshake_timeout''"
| "reason_as_str RC_UnsupportedProtocolVersion = ''unsupported_protocol_version''"
| "reason_as_str RC_FrameDecodeError = ''frame_decode_error''"
| "reason_as_str RC_FrameTooLarge = ''frame_too_large''"
| "reason_as_str RC_ConnectionRateLimited = ''connection_rate_limited''"
| "reason_as_str RC_PeerQuotaExceeded = ''peer_quota_exceeded''"
| "reason_as_str RC_MinerUnauthorized = ''miner_unauthorized''"
| "reason_as_str RC_IdentityPrefixUnmatched = ''identity_prefix_unmatched''"
| "reason_as_str RC_IdentityTooLong = ''identity_too_long''"
| "reason_as_str RC_ChannelOpenRejected = ''channel_open_rejected''"
| "reason_as_str RC_ChannelLimitExceeded = ''channel_limit_exceeded''"
| "reason_as_str RC_InvalidChannelId = ''invalid_channel_id''"
| "reason_as_str RC_ExtendedChannelUnsupported = ''extended_channel_unsupported''"
| "reason_as_str RC_PrevhashSwitchTimeout = ''prevhash_switch_timeout''"
| "reason_as_str RC_PrevhashVerdictRejected = ''prevhash_verdict_rejected''"
| "reason_as_str RC_TemplateCacheMiss = ''template_cache_miss''"
| "reason_as_str RC_StaleJobSubmission = ''stale_job_submission''"
| "reason_as_str RC_UpstreamUnavailable = ''upstream_unavailable''"
| "reason_as_str RC_MissingGatewaySignature = ''missing_gateway_signature''"
| "reason_as_str RC_MalformedGatewaySignature = ''malformed_gateway_signature''"
| "reason_as_str RC_MalformedEventId = ''malformed_event_id''"
| "reason_as_str RC_InvalidGatewaySignature = ''invalid_gateway_signature''"
| "reason_as_str RC_ShareReplayDetected = ''share_replay_detected''"
| "reason_as_str RC_ShareDifficultyBelowTarget = ''share_difficulty_below_target''"
| "reason_as_str RC_ShareInvalidJobId = ''share_invalid_job_id''"
| "reason_as_str RC_ShareInvalidNonce = ''share_invalid_nonce''"
| "reason_as_str RC_VersionBitViolation = ''version_bit_violation''"
| "reason_as_str RC_NtimeOutOfRange = ''ntime_out_of_range''"
| "reason_as_str RC_ShareForwardFailed = ''share_forward_failed''"
| "reason_as_str RC_ShareUpstreamRejected = ''share_upstream_rejected''"
| "reason_as_str RC_ShareDroppedQueueFull = ''share_dropped_queue_full''"
| "reason_as_str RC_ShareEvictedFromQueue = ''share_evicted_from_queue''"
| "reason_as_str RC_ShareRateLimited = ''share_rate_limited''"
| "reason_as_str RC_ProcessCrashRecovery = ''process_crash_recovery''"
| "reason_as_str RC_WalWriteFailure = ''wal_write_failure''"
| "reason_as_str RC_PeerTransportError = ''peer_transport_error''"
| "reason_as_str RC_ChannelOpenTimeout = ''channel_open_timeout''"
| "reason_as_str RC_SetupConnectionRejected = ''setup_connection_rejected''"
| "reason_as_str RC_ShutdownDrain = ''shutdown_drain''"
| "reason_as_str RC_StartupPending = ''startup_pending''"
| "reason_as_str RC_InternalError = ''internal_error''"

primrec reason_from_verdict :: "VerdictReason \<Rightarrow> ReasonCode" where
  "reason_from_verdict ProtocolVersionMismatch = RC_ProtocolVersionMismatch"
| "reason_from_verdict InvalidPrevHash = RC_InvalidPrevHash"
| "reason_from_verdict PrevHashLenMismatch = RC_PrevHashLenMismatch"
| "reason_from_verdict CoinbaseValueZeroRejected = RC_CoinbaseValueZeroRejected"
| "reason_from_verdict EmptyTemplateRejected = RC_EmptyTemplateRejected"
| "reason_from_verdict TxCountExceeded = RC_TxCountExceeded"
| "reason_from_verdict TotalFeesBelowMinimum = RC_TotalFeesBelowMinimum"
| "reason_from_verdict AvgFeeBelowMinimum = RC_AvgFeeBelowMinimum"
| "reason_from_verdict PolicyLoadError = RC_PolicyLoadError"
| "reason_from_verdict MempoolBackendUnavailable = RC_MempoolBackendUnavailable"
| "reason_from_verdict InternalError = RC_InternalError"
| "reason_from_verdict WeightRatioExceeded = RC_WeightRatioExceeded"
| "reason_from_verdict TemplateStale = RC_TemplateStale"
| "reason_from_verdict SigopsBudgetWarning = RC_SigopsBudgetWarning"
| "reason_from_verdict CoinbaseSigopsAbnormal = RC_CoinbaseSigopsAbnormal"
| "reason_from_verdict V2InvariantCoinbaseValueMismatch = RC_V2InvariantCoinbaseValueMismatch"
| "reason_from_verdict V2InvariantTemplateWeightMismatch = RC_V2InvariantTemplateWeightMismatch"
| "reason_from_verdict V2InvariantMerkleRootMismatch = RC_V2InvariantMerkleRootMismatch"
| "reason_from_verdict V2InvariantWitnessCommitmentMissing = RC_V2InvariantWitnessCommitmentMissing"
| "reason_from_verdict V2InvariantWitnessCommitmentMismatch = RC_V2InvariantWitnessCommitmentMismatch"
| "reason_from_verdict V2InvariantSigopsMismatch = RC_V2InvariantSigopsMismatch"
| "reason_from_verdict V2InvariantCoinbaseSigopsMismatch = RC_V2InvariantCoinbaseSigopsMismatch"
| "reason_from_verdict V2InvariantTxCountMismatch = RC_V2InvariantTxCountMismatch"
| "reason_from_verdict V2InvariantCoinbaseScriptLength = RC_V2InvariantCoinbaseScriptLength"
| "reason_from_verdict V2InvariantCoinbaseOutputCount = RC_V2InvariantCoinbaseOutputCount"
| "reason_from_verdict V2InvariantCoinbaseBip34Missing = RC_V2InvariantCoinbaseBip34Missing"
| "reason_from_verdict V2InvariantCoinbaseHeightMismatch = RC_V2InvariantCoinbaseHeightMismatch"
| "reason_from_verdict V2InvariantWeightExceedsMax = RC_V2InvariantWeightExceedsMax"
| "reason_from_verdict V2InvariantSigopsExceedMax = RC_V2InvariantSigopsExceedMax"
| "reason_from_verdict V2InvariantCoinbaseValueExceedsMax = RC_V2InvariantCoinbaseValueExceedsMax"
| "reason_from_verdict V2InvariantNontcbNullPrevout = RC_V2InvariantNontcbNullPrevout"
| "reason_from_verdict V2InvariantCoinbasePrevoutNotNull = RC_V2InvariantCoinbasePrevoutNotNull"
| "reason_from_verdict V2InvariantHeaderVersionLow = RC_V2InvariantHeaderVersionLow"
| "reason_from_verdict V2InvariantDuplicateTx = RC_V2InvariantDuplicateTx"
| "reason_from_verdict V2InvariantDecodeFailed = RC_V2InvariantDecodeFailed"
| "reason_from_verdict V2InvariantMempoolTxUnknown = RC_V2InvariantMempoolTxUnknown"
| "reason_from_verdict V2InvariantMempoolToleranceExceeded = RC_V2InvariantMempoolToleranceExceeded"
| "reason_from_verdict V2InvariantMempoolUnavailable = RC_V2InvariantMempoolUnavailable"
| "reason_from_verdict V2InvariantMempoolViewStale = RC_V2InvariantMempoolViewStale"

primrec reason_from_gateway :: "GatewayReason \<Rightarrow> ReasonCode" where
  "reason_from_gateway GR_AuthFailed = RC_AuthFailed"
| "reason_from_gateway GR_UnsupportedAlgorithm = RC_UnsupportedAlgorithm"
| "reason_from_gateway GR_RateLimited = RC_RateLimited"
| "reason_from_gateway GR_PayloadTooLarge = RC_PayloadTooLarge"
| "reason_from_gateway GR_InvalidContentType = RC_InvalidContentType"
| "reason_from_gateway GR_PayloadUnknownField = RC_PayloadUnknownField"
| "reason_from_gateway GR_PayloadFieldOutOfRange = RC_PayloadFieldOutOfRange"
| "reason_from_gateway GR_PayloadMalformed = RC_PayloadMalformed"
| "reason_from_gateway GR_PayloadNestingExceeded = RC_PayloadNestingExceeded"
| "reason_from_gateway GR_RequestExpired = RC_RequestExpired"
| "reason_from_gateway GR_RequestReplayed = RC_RequestReplayed"
| "reason_from_gateway GR_HandlerTimeout = RC_HandlerTimeout"
| "reason_from_gateway GR_ConfigInvalid = RC_ConfigInvalid"
| "reason_from_gateway GR_InternalError = RC_InternalError"
| "reason_from_gateway GR_InternalLineTooLarge = RC_InternalLineTooLarge"
| "reason_from_gateway GR_InternalFramingError = RC_InternalFramingError"
| "reason_from_gateway GR_InternalVersionMismatch = RC_InternalVersionMismatch"
| "reason_from_gateway GR_InternalUnknownMsgFlood = RC_InternalUnknownMsgFlood"
| "reason_from_gateway GR_NoiseHandshakeFailed = RC_NoiseHandshakeFailed"
| "reason_from_gateway GR_NoiseHandshakeTimeout = RC_NoiseHandshakeTimeout"
| "reason_from_gateway GR_UnsupportedProtocolVersion = RC_UnsupportedProtocolVersion"
| "reason_from_gateway GR_FrameDecodeError = RC_FrameDecodeError"
| "reason_from_gateway GR_FrameTooLarge = RC_FrameTooLarge"
| "reason_from_gateway GR_ConnectionRateLimited = RC_ConnectionRateLimited"
| "reason_from_gateway GR_PeerQuotaExceeded = RC_PeerQuotaExceeded"
| "reason_from_gateway GR_MinerUnauthorized = RC_MinerUnauthorized"
| "reason_from_gateway GR_IdentityPrefixUnmatched = RC_IdentityPrefixUnmatched"
| "reason_from_gateway GR_IdentityTooLong = RC_IdentityTooLong"
| "reason_from_gateway GR_ChannelOpenRejected = RC_ChannelOpenRejected"
| "reason_from_gateway GR_ChannelLimitExceeded = RC_ChannelLimitExceeded"
| "reason_from_gateway GR_InvalidChannelId = RC_InvalidChannelId"
| "reason_from_gateway GR_ExtendedChannelUnsupported = RC_ExtendedChannelUnsupported"
| "reason_from_gateway GR_PrevhashSwitchTimeout = RC_PrevhashSwitchTimeout"
| "reason_from_gateway GR_PrevhashVerdictRejected = RC_PrevhashVerdictRejected"
| "reason_from_gateway GR_TemplateCacheMiss = RC_TemplateCacheMiss"
| "reason_from_gateway GR_StaleJobSubmission = RC_StaleJobSubmission"
| "reason_from_gateway GR_UpstreamUnavailable = RC_UpstreamUnavailable"
| "reason_from_gateway GR_MissingGatewaySignature = RC_MissingGatewaySignature"
| "reason_from_gateway GR_MalformedGatewaySignature = RC_MalformedGatewaySignature"
| "reason_from_gateway GR_MalformedEventId = RC_MalformedEventId"
| "reason_from_gateway GR_InvalidGatewaySignature = RC_InvalidGatewaySignature"
| "reason_from_gateway GR_ShareReplayDetected = RC_ShareReplayDetected"
| "reason_from_gateway GR_ShareDifficultyBelowTarget = RC_ShareDifficultyBelowTarget"
| "reason_from_gateway GR_ShareInvalidJobId = RC_ShareInvalidJobId"
| "reason_from_gateway GR_ShareInvalidNonce = RC_ShareInvalidNonce"
| "reason_from_gateway GR_VersionBitViolation = RC_VersionBitViolation"
| "reason_from_gateway GR_NtimeOutOfRange = RC_NtimeOutOfRange"
| "reason_from_gateway GR_ShareForwardFailed = RC_ShareForwardFailed"
| "reason_from_gateway GR_ShareUpstreamRejected = RC_ShareUpstreamRejected"
| "reason_from_gateway GR_ShareDroppedQueueFull = RC_ShareDroppedQueueFull"
| "reason_from_gateway GR_ShareEvictedFromQueue = RC_ShareEvictedFromQueue"
| "reason_from_gateway GR_ShareRateLimited = RC_ShareRateLimited"
| "reason_from_gateway GR_ProcessCrashRecovery = RC_ProcessCrashRecovery"
| "reason_from_gateway GR_WalWriteFailure = RC_WalWriteFailure"
| "reason_from_gateway GR_PeerTransportError = RC_PeerTransportError"
| "reason_from_gateway GR_ChannelOpenTimeout = RC_ChannelOpenTimeout"
| "reason_from_gateway GR_SetupConnectionRejected = RC_SetupConnectionRejected"
| "reason_from_gateway GR_ShutdownDrain = RC_ShutdownDrain"
| "reason_from_gateway GR_StartupPending = RC_StartupPending"

section \<open>Both enumerations meet the reason-code contract\<close>

lemma gateway_all_complete: "r \<in> set GATEWAY_ALL"
  by (cases r) (simp_all add: GATEWAY_ALL_def)

lemma gateway_codes_are_all: "map gateway_as_str GATEWAY_ALL = GATEWAY_ALL_CODES"
  by (simp add: GATEWAY_ALL_def GATEWAY_ALL_CODES_def)

lemma gateway_codes_distinct: "distinct GATEWAY_ALL_CODES"
  by code_simp

interpretation gateway_codes: reason_codes gateway_as_str GATEWAY_ALL GATEWAY_ALL_CODES
  by unfold_locales (rule gateway_all_complete, rule gateway_codes_are_all, rule gateway_codes_distinct)

lemma reason_all_complete: "r \<in> set REASON_ALL"
  by (cases r) (simp_all add: REASON_ALL_def)

lemma reason_codes_are_all: "map reason_as_str REASON_ALL = REASON_ALL_CODES"
  by (simp add: REASON_ALL_def REASON_ALL_CODES_def)

lemma reason_codes_distinct: "distinct REASON_ALL_CODES"
  by code_simp

interpretation unified_codes: reason_codes reason_as_str REASON_ALL REASON_ALL_CODES
  by unfold_locales (rule reason_all_complete, rule reason_codes_are_all, rule reason_codes_distinct)

section \<open>Conversions keep the code\<close>

locale reason_embedding =
  from_codes: reason_codes code all codes + into_codes: reason_codes code' all' codes'
  for code :: "'a \<Rightarrow> string" and all codes and code' :: "'b \<Rightarrow> string" and all' codes' +
  fixes conv :: "'a \<Rightarrow> 'b"
  assumes code_conv: "code' (conv r) = code r"
begin

lemma conv_inject: "conv r = conv s \<longleftrightarrow> r = s"
  by (metis code_conv from_codes.code_inject)

lemma codes_subset: "set codes \<subseteq> set codes'"
proof
  fix c assume "c \<in> set codes"
  then obtain r where "c = code r" by (auto simp: from_codes.codes_are_all [symmetric])
  then show "c \<in> set codes'"
    using into_codes.all_complete [of "conv r"]
    by (auto simp: into_codes.codes_are_all [symmetric] code_conv [symmetric])
qed

text \<open>Reading the source reason's code in the target enumeration gives the converted reason.\<close>

lemma find_conv: "find (\<lambda>s. code' s = code r) all' = Some (conv r)"
  using into_codes.find_code [of "conv r"] by (simp add: code_conv)

end

lemma reason_from_verdict_code: "reason_as_str (reason_from_verdict v) = as_str v"
  by (cases v) simp_all

lemma reason_from_gateway_code: "reason_as_str (reason_from_gateway g) = gateway_as_str g"
  by (cases g) simp_all

interpretation verdict_into_unified:
  reason_embedding as_str ALL_REASONS ALL_CODES reason_as_str REASON_ALL REASON_ALL_CODES reason_from_verdict
  by unfold_locales (rule reason_from_verdict_code)

interpretation gateway_into_unified:
  reason_embedding gateway_as_str GATEWAY_ALL GATEWAY_ALL_CODES
    reason_as_str REASON_ALL REASON_ALL_CODES reason_from_gateway
  by unfold_locales (rule reason_from_gateway_code)

text \<open>Every unified reason comes from one of the two domains, and the two share exactly the
  catch-all \<open>internal_error\<close>.\<close>

lemma unified_covered:
  "(\<exists>v. r = reason_from_verdict v) \<or> (\<exists>g. r = reason_from_gateway g)"
proof -
  have "list_all (\<lambda>c. c \<in> set ALL_CODES \<or> c \<in> set GATEWAY_ALL_CODES) REASON_ALL_CODES"
    by code_simp
  then have "set REASON_ALL_CODES \<subseteq> set ALL_CODES \<union> set GATEWAY_ALL_CODES"
    by (auto simp: list_all_iff)
  moreover have "reason_as_str r \<in> set REASON_ALL_CODES"
    by (simp add: unified_codes.codes_are_all [symmetric] unified_codes.all_complete)
  ultimately have "reason_as_str r \<in> as_str ` UNIV \<union> gateway_as_str ` UNIV"
    by (auto simp: verdict_codes.codes_are_all [symmetric] gateway_codes.codes_are_all [symmetric])
  then show ?thesis
    by (auto simp: reason_from_verdict_code [symmetric] reason_from_gateway_code [symmetric]
        unified_codes.code_inject)
qed

lemma shared_member: "A \<inter> B = {c} \<Longrightarrow> x \<in> A \<Longrightarrow> y \<in> B \<Longrightarrow> x = y \<longleftrightarrow> x = c \<and> y = c"
  by blast

lemma filter_singleton_Int: "filter (\<lambda>x. x \<in> set ys) xs = [c] \<Longrightarrow> set xs \<inter> set ys = {c}"
proof -
  assume "filter (\<lambda>x. x \<in> set ys) xs = [c]"
  then have "set (filter (\<lambda>x. x \<in> set ys) xs) = {c}" by simp
  moreover have "set xs \<inter> set ys = set (filter (\<lambda>x. x \<in> set ys) xs)" by auto
  ultimately show ?thesis by (simp only:)
qed

lemma shared_codes: "set ALL_CODES \<inter> set GATEWAY_ALL_CODES = {''internal_error''}"
  by (rule filter_singleton_Int) code_simp

lemma domains_share_internal_error:
  "reason_from_verdict v = reason_from_gateway g \<longleftrightarrow> v = InternalError \<and> g = GR_InternalError"
proof -
  have "as_str v \<in> set ALL_CODES" "gateway_as_str g \<in> set GATEWAY_ALL_CODES"
    unfolding verdict_codes.codes_are_all [symmetric] gateway_codes.codes_are_all [symmetric] set_map
    by (intro imageI verdict_codes.all_complete gateway_codes.all_complete)+
  from shared_member [OF shared_codes this]
  have "as_str v = gateway_as_str g \<longleftrightarrow>
      as_str v = as_str InternalError \<and> gateway_as_str g = gateway_as_str GR_InternalError"
    by (simp only: as_str.simps gateway_as_str.simps)
  then show ?thesis
    unfolding verdict_codes.code_inject gateway_codes.code_inject
    by (metis reason_from_gateway_code reason_from_verdict_code unified_codes.code_inject)
qed

section \<open>The wire codes\<close>

lemma sv2_error_code_enumerated: "to_sv2_error_code r = Some c \<Longrightarrow> c \<in> set SV2_SHARE_ERROR_CODES"
  by (cases r) (simp_all add: to_sv2_error_code_def SV2_SHARE_ERROR_CODES_def)

lemma open_channel_code_enumerated:
  "open_channel_wire_action r = Some c \<Longrightarrow> c \<in> set SV2_OPEN_CHANNEL_ERROR_CODES"
  by (cases r) (simp_all add: open_channel_wire_action_def SV2_OPEN_CHANNEL_ERROR_CODES_def)

section \<open>Properties\<close>

text \<open>Converting a verdict reason or a gateway reason to the unified code keeps its canonical
  string, and the two domains meet in the catch-all \<open>internal_error\<close> only.\<close>

theorem conversions_keep_codes:
  "reason_as_str (reason_from_verdict v) = as_str v \<and>
   reason_as_str (reason_from_gateway g) = gateway_as_str g \<and>
   (reason_from_verdict v = reason_from_gateway g \<longleftrightarrow> v = InternalError \<and> g = GR_InternalError)"
  by (intro conjI reason_from_verdict_code reason_from_gateway_code domains_share_internal_error)

text \<open>A unified reason is recovered from its string by searching the enumeration; searching
  for the string of a verdict or gateway reason finds the converted reason, and every unified
  reason is the conversion of one or the other.\<close>

theorem unified_code_read_back:
  "find (\<lambda>s. reason_as_str s = reason_as_str r) REASON_ALL = Some r \<and>
   find (\<lambda>s. reason_as_str s = as_str v) REASON_ALL = Some (reason_from_verdict v) \<and>
   find (\<lambda>s. reason_as_str s = gateway_as_str g) REASON_ALL = Some (reason_from_gateway g) \<and>
   ((\<exists>v. r = reason_from_verdict v) \<or> (\<exists>g. r = reason_from_gateway g))"
  by (intro conjI unified_codes.find_code verdict_into_unified.find_conv gateway_into_unified.find_conv
      unified_covered)

end
