(* ===== verification/RG_Shares.thy ===== *)
theory RG_Shares
  imports RG_U256 RG_Reasons
begin

text \<open>
  The share pipeline's building blocks, \<open>services/sv2-gateway/src/shares.rs\<close>: the 80-byte
  header, the share and event identities, the HMAC signature, the proof-of-work, version-bit
  and ntime checks, the bounded replay window and the share events. SHA-256, HMAC, the hex
  crate and the JSON serializer are parameters; the clock is an argument of what reads it.
  The locale \<open>replay_window\<close> is the contract the submit handler relies on: an identity is
  refused exactly when it is among the newest identities let through.
\<close>

section \<open>Share identity\<close>

definition header_identity_bytes ::
  "u32 \<Rightarrow> hash32 \<Rightarrow> hash32 \<Rightarrow> u32 \<Rightarrow> u32 \<Rightarrow> u32 \<Rightarrow> bytes" where
  "header_identity_bytes version prev_hash merkle_root ntime nbits nonce =
     u32_to_le_bytes version @ prev_hash @ merkle_root @ u32_to_le_bytes ntime @
     u32_to_le_bytes nbits @ u32_to_le_bytes nonce"

text \<open>The \<open>sha2\<close> and \<open>hmac\<close> crates. \<open>hmac_sha256\<close> takes the key and the message; \<open>None\<close> is a
  key the crate refuses.\<close>

record crypto =
  sha256 :: "bytes \<Rightarrow> bytes"
  hmac_sha256 :: "bytes \<Rightarrow> bytes \<Rightarrow> bytes option"

definition compute_share_id :: "crypto \<Rightarrow> bytes \<Rightarrow> hash32" where
  "compute_share_id C header_bytes = sha256 C header_bytes"

text \<open>\<open>as_bytes\<close> of a string: a \<open>string\<close> holds the UTF-8 bytes of the Rust \<open>str\<close>.\<close>

definition as_bytes :: "string \<Rightarrow> bytes" where
  "as_bytes s = map (\<lambda>c. of_nat (of_char c)) s"

definition of_bytes :: "bytes \<Rightarrow> string" where
  "of_bytes bs = map (\<lambda>b. char_of (unat b)) bs"

definition event_id_input :: "hash32 \<Rightarrow> string \<Rightarrow> string \<Rightarrow> bytes" where
  "event_id_input share_id worker_id validation_level =
     share_id @ u16_to_le_bytes (of_nat (length worker_id)) @ as_bytes worker_id @
     u16_to_le_bytes (of_nat (length validation_level)) @ as_bytes validation_level"

definition compute_event_id :: "crypto \<Rightarrow> hash32 \<Rightarrow> string \<Rightarrow> string \<Rightarrow> hash32" where
  "compute_event_id C share_id worker_id validation_level =
     sha256 C (event_id_input share_id worker_id validation_level)"

definition compute_gateway_signature :: "crypto \<Rightarrow> bytes \<Rightarrow> hash32 \<Rightarrow> hash32 \<Rightarrow> hash32 option" where
  "compute_gateway_signature C secret event_id body_hash = hmac_sha256 C secret (event_id @ body_hash)"

record ShareSubmission =
  ss_share_id_hex :: string
  ss_version :: u32
  ss_prev_hash_wire_hex :: string
  ss_prev_hash_display_hex :: string
  ss_merkle_root_wire_hex :: string
  ss_merkle_root_display_hex :: string
  ss_ntime :: u32
  ss_nbits :: u32
  ss_nonce :: u32
  ss_event_id_hex :: string
  ss_worker_id :: string
  ss_validation_level :: string
  ss_gateway_instance_id :: string
  ss_channel_id :: u32
  ss_sequence_number :: u32
  ss_job_id :: u32
  ss_template_id :: u64
  ss_block_height :: u32
  ss_pool_account_id :: "string option"
  ss_timestamp_ms :: u64
  ss_difficulty_u64 :: u64
  ss_difficulty_display :: f64
  ss_source_instance_id :: string
  ss_gateway_signature_hex :: string

text \<open>\<open>to_vec\<close> is \<open>serde_json::to_vec\<close>; \<open>None\<close> is a serialization error. The signature is
  cleared before serializing, and stays cleared when serialization fails.\<close>

definition sign_submission ::
  "crypto \<Rightarrow> hex_crate \<Rightarrow> (ShareSubmission \<Rightarrow> bytes option) \<Rightarrow> bytes \<Rightarrow> ShareSubmission \<Rightarrow> ShareSubmission" where
  "sign_submission C X to_vec secret submission =
     (if secret = [] then submission
      else
        let submission = submission\<lparr>ss_gateway_signature_hex := []\<rparr> in
        case to_vec submission of
          None \<Rightarrow> submission
        | Some canonical_json \<Rightarrow>
            let body_hash = sha256 C canonical_json;
                event_id = (case hex_decode X (ss_event_id_hex submission) of
                    Ok decoded \<Rightarrow> if length decoded = 32 then decoded else replicate 32 0
                  | Err _ \<Rightarrow> replicate 32 0)
            in submission\<lparr>ss_gateway_signature_hex :=
                 (case compute_gateway_signature C secret event_id body_hash of
                    Some sig \<Rightarrow> hex_encode X sig
                  | None \<Rightarrow> [])\<rparr>)"

section \<open>Proof of work, version bits, ntime\<close>

definition sha256d :: "crypto \<Rightarrow> bytes \<Rightarrow> hash32" where
  "sha256d C data = sha256 C (sha256 C data)"

text \<open>\<open>for i in (0..32).rev()\<close> with its two early returns: the argument is the number of bytes
  still to compare.\<close>

fun hash_le_target :: "nat \<Rightarrow> bytes \<Rightarrow> bytes \<Rightarrow> bool" where
  "hash_le_target 0 block_hash maximum_target = True"
| "hash_le_target (Suc i) block_hash maximum_target =
     (if block_hash ! i < maximum_target ! i then True
      else if maximum_target ! i < block_hash ! i then False
      else hash_le_target i block_hash maximum_target)"

definition validate_share_pow :: "crypto \<Rightarrow> bytes \<Rightarrow> hash32 \<Rightarrow> bool" where
  "validate_share_pow C header_bytes maximum_target =
     hash_le_target 32 (sha256d C header_bytes) maximum_target"

definition check_version_bits :: "u32 \<Rightarrow> u32 \<Rightarrow> bool" where
  "check_version_bits submit_version job_version =
     (let signaling_mask = NOT BIP320_GP_MASK in
      and submit_version signaling_mask = and job_version signaling_mask)"

definition check_ntime_bounds :: "u32 \<Rightarrow> u32 \<Rightarrow> u32 \<Rightarrow> u32 \<Rightarrow> u32 \<Rightarrow> u32 \<Rightarrow> bool" where
  "check_ntime_bounds ntime activation_min_ntime elapsed_since_prevhash_secs
       ntime_elapsed_slack_seconds max_future_block_time_seconds now_unix =
     (if ntime < activation_min_ntime then False
      else
        let elapsed_upper = sat_add (sat_add activation_min_ntime elapsed_since_prevhash_secs)
              ntime_elapsed_slack_seconds in
        if elapsed_upper < ntime then False
        else
          let absolute_upper = sat_add now_unix max_future_block_time_seconds in
          if absolute_upper < ntime then False else True)"

section \<open>Replay detection\<close>

record ShareDedupSet =
  ds_set :: "hash32 set"
  ds_order :: "hash32 list"
  ds_max_entries :: nat

definition dedup_new :: "nat \<Rightarrow> ShareDedupSet" where
  "dedup_new max_entries = \<lparr>ds_set = {}, ds_order = [], ds_max_entries = max_entries\<rparr>"

text \<open>\<open>while self.set.len() >= self.max_entries\<close>: pops the oldest, or breaks when the queue is
  empty.\<close>

fun dedup_evict :: "nat \<Rightarrow> hash32 set \<Rightarrow> hash32 list \<Rightarrow> hash32 set \<times> hash32 list" where
  "dedup_evict max_entries S [] = (S, [])"
| "dedup_evict max_entries S (oldest # order) =
     (if max_entries \<le> card S then dedup_evict max_entries (S - {oldest}) order
      else (S, oldest # order))"

definition check_and_insert :: "ShareDedupSet \<Rightarrow> hash32 \<Rightarrow> bool \<times> ShareDedupSet" where
  "check_and_insert d share_id =
     (if share_id \<in> ds_set d then (True, d)
      else
        let (S, order) = dedup_evict (ds_max_entries d) (ds_set d) (ds_order d) in
        (False, d\<lparr>ds_set := insert share_id S, ds_order := order @ [share_id]\<rparr>))"

definition dedup_len :: "ShareDedupSet \<Rightarrow> nat" where
  "dedup_len d = card (ds_set d)"

definition dedup_is_empty :: "ShareDedupSet \<Rightarrow> bool" where
  "dedup_is_empty d \<longleftrightarrow> ds_set d = {}"

section \<open>Results and events\<close>

datatype ShareValidationResult =
    Share_Accepted (sv_share_id: hash32) (sv_header_bytes: bytes)
  | Share_Rejected (sv_reason: GatewayReason) (sv_share_id_opt: "hash32 option")

record ShareAcceptedEvent =
  sa_event_type :: string
  sa_share_id_hex :: string
  sa_event_id_hex :: string
  sa_sv2_response :: string
  sa_reason_code :: "string option"
  sa_reason_detail :: "string option"
  sa_worker_id :: string
  sa_channel_id :: u32
  sa_sequence_number :: u32
  sa_job_id :: u32
  sa_block_height :: u32
  sa_timestamp_ms :: u64
  sa_difficulty_u64 :: u64

definition sentinel :: "hex_crate \<Rightarrow> u64 \<Rightarrow> GatewayReason \<Rightarrow> u32 \<Rightarrow> u32 \<Rightarrow> u32 \<Rightarrow> ShareAcceptedEvent" where
  "sentinel X unix_ms_now reason channel_id sequence_number job_id =
     (let zero_hex = hex_encode X (replicate 32 0) in
      \<lparr>sa_event_type = ''share_accepted'',
       sa_share_id_hex = zero_hex,
       sa_event_id_hex = zero_hex,
       sa_sv2_response = ''error'',
       sa_reason_code = Some (gateway_as_str reason),
       sa_reason_detail = Some (gateway_as_str reason),
       sa_worker_id = [],
       sa_channel_id = channel_id,
       sa_sequence_number = sequence_number,
       sa_job_id = job_id,
       sa_block_height = 0,
       sa_timestamp_ms = unix_ms_now,
       sa_difficulty_u64 = 0\<rparr>)"

record ShareForwardResultEvent =
  fr_event_type :: string
  fr_share_id_hex :: string
  fr_event_id_hex :: string
  fr_forwarded :: bool
  fr_upstream_accepted :: "bool option"
  fr_upstream_http_status :: "u16 option"
  fr_upstream_error :: "string option"
  fr_reason_code :: "string option"
  fr_timestamp_ms :: u64

definition from_relay ::
  "u64 \<Rightarrow> string \<Rightarrow> string \<Rightarrow> bool \<Rightarrow> bool option \<Rightarrow> u16 option \<Rightarrow> string option \<Rightarrow> string option
    \<Rightarrow> ShareForwardResultEvent" where
  "from_relay unix_ms_now share_id_hex event_id_hex forwarded upstream_accepted
       upstream_http_status upstream_error reason_code =
     \<lparr>fr_event_type = ''share_forward_result'',
      fr_share_id_hex = share_id_hex,
      fr_event_id_hex = event_id_hex,
      fr_forwarded = forwarded,
      fr_upstream_accepted = upstream_accepted,
      fr_upstream_http_status = upstream_http_status,
      fr_upstream_error = upstream_error,
      fr_reason_code = reason_code,
      fr_timestamp_ms = unix_ms_now\<rparr>"

record ModeTransitionEvent =
  mt_event_type :: string
  mt_direction :: string
  mt_timestamp_ms :: u64
  mt_degraded_duration_ms :: u64
  mt_unenforced_jobs :: u64

section \<open>Byte order\<close>

definition wire_bytes_to_display_hex :: "hex_crate \<Rightarrow> hash32 \<Rightarrow> string" where
  "wire_bytes_to_display_hex X wire = hex_encode X (rev wire)"

definition wire_bytes_to_wire_hex :: "hex_crate \<Rightarrow> hash32 \<Rightarrow> string" where
  "wire_bytes_to_wire_hex X wire = hex_encode X wire"

definition display_hex_to_wire_bytes :: "hex_crate \<Rightarrow> string \<Rightarrow> string + hash32" where
  "display_hex_to_wire_bytes X hex_str =
     (case hex_decode X hex_str of
        Err e \<Rightarrow> Err (''invalid hex: '' @ e)
      | Ok bs \<Rightarrow>
          if length bs \<noteq> 32 then Err (''expected 32 bytes, got '' @ show_nat (length bs))
          else Ok (rev bs))"

section \<open>Identities determine what they identify\<close>

lemma header_identity_length:
  "length p = 32 \<Longrightarrow> length m = 32 \<Longrightarrow> length (header_identity_bytes v p m t b n) = 80"
  by (simp add: header_identity_bytes_def)

lemma header_identity_inject:
  assumes "length p = 32" "length m = 32" "length p' = 32" "length m' = 32"
  shows "header_identity_bytes v p m t b n = header_identity_bytes v' p' m' t' b' n' \<longleftrightarrow>
    v = v' \<and> p = p' \<and> m = m' \<and> t = t' \<and> b = b' \<and> n = n'"
  using assms by (simp add: header_identity_bytes_def u32_to_le_bytes_inject)

lemma length_as_bytes [simp]: "length (as_bytes s) = length s"
  by (simp add: as_bytes_def)

lemma of_bytes_as_bytes: "of_bytes (as_bytes s) = s"
  by (induction s) (simp_all add: of_bytes_def as_bytes_def unat_of_nat take_bit_eq_mod)

lemma as_bytes_inject: "as_bytes s = as_bytes t \<longleftrightarrow> s = t"
proof -
  have "inj (\<lambda>c. of_nat (of_char c) :: u8)"
  proof (rule injI)
    fix c d :: char
    assume "(of_nat (of_char c) :: u8) = of_nat (of_char d)"
    then have "(of_char c :: nat) mod 256 = of_char d mod 256"
      by (simp add: word_unat_eq_iff unat_of_nat)
    then show "c = d" by simp
  qed
  then show ?thesis by (simp add: as_bytes_def inj_map_eq_map)
qed

lemma u16_len_inject:
  "m < 65536 \<Longrightarrow> n < 65536 \<Longrightarrow>
    u16_to_le_bytes (of_nat m) = u16_to_le_bytes (of_nat n) \<longleftrightarrow> m = n"
  by (simp add: u16_to_le_bytes_def unat_of_nat to_le_inject)

lemma event_id_input_inject:
  assumes "length s = 32" "length s' = 32"
    and "length w < 65536" "length w' < 65536" "length v < 65536" "length v' < 65536"
  shows "event_id_input s w v = event_id_input s' w' v' \<longleftrightarrow> s = s' \<and> w = w' \<and> v = v'"
  using assms by (auto simp: event_id_input_def u16_len_inject as_bytes_inject)

section \<open>The checks as arithmetic\<close>

text \<open>The byte-by-byte comparison is the comparison of the little-endian numbers.\<close>

lemma le_val_take_Suc:
  "i < length bs \<Longrightarrow> le_val (take (Suc i) bs) = le_val (take i bs) + 256 ^ i * unat (bs ! i)"
  by (simp add: take_Suc_conv_app_nth le_val_append)

lemma hash_le_target_iff:
  "i \<le> length h \<Longrightarrow> i \<le> length t \<Longrightarrow>
    hash_le_target i h t \<longleftrightarrow> le_val (take i h) \<le> le_val (take i t)"
proof (induction i)
  case 0
  then show ?case by simp
next
  case (Suc i)
  let ?a = "le_val (take i h)" and ?b = "le_val (take i t)"
  have bounds: "?a < 256 ^ i" "?b < 256 ^ i"
    using le_val_bound [of "take i h"] le_val_bound [of "take i t"] Suc.prems by (simp_all add: min_absorb2)
  have high: "u < w \<Longrightarrow> x < 256 ^ i \<Longrightarrow> x + 256 ^ i * u < y + 256 ^ i * w" for u w x y :: nat
  proof -
    assume "u < w" and x: "x < 256 ^ i"
    then have "256 ^ i * (u + 1) \<le> 256 ^ i * w" by (intro mult_le_mono2) simp
    then show ?thesis using x by simp
  qed
  have step: "le_val (take (Suc i) h) \<le> le_val (take (Suc i) t) \<longleftrightarrow>
      ?a + 256 ^ i * unat (h ! i) \<le> ?b + 256 ^ i * unat (t ! i)"
    using Suc.prems by (simp add: le_val_take_Suc)
  show ?case
  proof (cases "unat (h ! i)" "unat (t ! i)" rule: linorder_cases)
    case less
    then show ?thesis using high [OF less bounds(1)] by (simp add: step word_less_nat_alt less_imp_le)
  next
    case equal
    then show ?thesis using Suc by (simp add: step word_less_nat_alt)
  next
    case greater
    then show ?thesis using high [OF greater bounds(2), of ?a] by (simp add: step word_less_nat_alt not_le)
  qed
qed

definition sha256_ok :: "crypto \<Rightarrow> bool" where
  "sha256_ok C \<longleftrightarrow> (\<forall>data. length (sha256 C data) = 32)"

lemma validate_share_pow_iff:
  "sha256_ok C \<Longrightarrow> length target = 32 \<Longrightarrow>
    validate_share_pow C header target \<longleftrightarrow> le_val (sha256d C header) \<le> le_val target"
  by (simp add: validate_share_pow_def hash_le_target_iff sha256d_def sha256_ok_def)

text \<open>A share that meets a target meets every easier one.\<close>

lemma validate_share_pow_mono:
  "sha256_ok C \<Longrightarrow> length t = 32 \<Longrightarrow> length t' = 32 \<Longrightarrow> le_val t \<le> le_val t' \<Longrightarrow>
    validate_share_pow C header t \<Longrightarrow> validate_share_pow C header t'"
  by (simp add: validate_share_pow_iff)

lemma gp_mask_bits: "bit BIP320_GP_MASK n \<longleftrightarrow> 13 \<le> n \<and> n \<le> 28"
proof -
  have "BIP320_GP_MASK = push_bit 13 (mask 16)"
    by (simp add: BIP320_GP_MASK_def mask_numeral)
  then have "bit BIP320_GP_MASK n = bit (push_bit 13 (mask 16) :: u32) n" by (simp only:)
  also have "\<dots> \<longleftrightarrow> 13 \<le> n \<and> n \<le> 28" by (auto simp: bit_push_bit_iff bit_mask_iff)
  finally show ?thesis .
qed

lemma check_version_bits_iff:
  "check_version_bits a b \<longleftrightarrow> (\<forall>n < 32. n < 13 \<or> 28 < n \<longrightarrow> bit a n = bit b n)"
  by (auto simp: check_version_bits_def Let_def bit_eq_iff bit_simps gp_mask_bits)

lemma check_ntime_bounds_iff:
  "check_ntime_bounds ntime lo el slack fut now \<longleftrightarrow>
     unat lo \<le> unat ntime \<and>
     unat ntime \<le> unat lo + unat el + unat slack \<and> unat ntime \<le> unat now + unat fut"
proof -
  have "unat ntime < 2 ^ LENGTH(32)"
    by (rule unsigned_less)
  then show ?thesis
    by (auto simp: check_ntime_bounds_def Let_def word_less_nat_alt unat_sat_add)
qed

lemma display_hex_round_trip:
  "hex_crate_ok X \<Longrightarrow> length w = 32 \<Longrightarrow>
    display_hex_to_wire_bytes X (wire_bytes_to_display_hex X w) = Ok w"
  by (simp add: display_hex_to_wire_bytes_def wire_bytes_to_display_hex_def hex_crate_ok_def)

section \<open>The replay window\<close>

locale replay_window =
  fixes check :: "'s \<Rightarrow> 'k \<Rightarrow> bool \<times> 's"
    and window :: "'s \<Rightarrow> 'k list"
    and cap :: "'s \<Rightarrow> nat"
    and valid :: "'s \<Rightarrow> bool"
  assumes check_verdict: "valid s \<Longrightarrow> fst (check s k) \<longleftrightarrow> k \<in> set (window s)"
    and check_replay: "valid s \<Longrightarrow> k \<in> set (window s) \<Longrightarrow> snd (check s k) = s"
    and check_fresh: "valid s \<Longrightarrow> k \<notin> set (window s) \<Longrightarrow>
          window (snd (check s k)) = newest (cap s) (window s @ [k])"
    and check_valid: "valid s \<Longrightarrow> valid (snd (check s k))"
    and check_cap: "cap (snd (check s k)) = cap s"
begin

text \<open>A run of submissions: the identities let through, in order, and the final state.\<close>

fun admitted :: "'s \<Rightarrow> 'k list \<Rightarrow> 'k list" where
  "admitted s [] = []"
| "admitted s (k # ks) =
     (if fst (check s k) then admitted (snd (check s k)) ks else k # admitted (snd (check s k)) ks)"

definition run :: "'s \<Rightarrow> 'k list \<Rightarrow> 's" where
  "run s ks = foldl (\<lambda>s k. snd (check s k)) s ks"

lemma run_valid: "valid s \<Longrightarrow> valid (run s ks) \<and> cap (run s ks) = cap s"
  by (induction ks arbitrary: s) (auto simp: run_def check_valid check_cap)

lemma run_window:
  "valid s \<Longrightarrow> window s = newest (cap s) past \<Longrightarrow>
    window (run s ks) = newest (cap s) (past @ admitted s ks)"
proof (induction ks arbitrary: s past)
  case Nil
  then show ?case by (simp add: run_def)
next
  case (Cons k ks)
  have tail: "run s (k # ks) = run (snd (check s k)) ks" by (simp add: run_def)
  show ?case
  proof (cases "k \<in> set (window s)")
    case True
    then have "snd (check s k) = s" "fst (check s k)"
      using check_replay check_verdict Cons.prems(1) by blast+
    then show ?thesis using Cons.IH [OF Cons.prems] by (simp add: tail)
  next
    case False
    have "window (snd (check s k)) = newest (cap (snd (check s k))) (past @ [k])"
      using check_fresh [OF Cons.prems(1) False] Cons.prems(2) by (simp add: check_cap newest_snoc_newest)
    from Cons.IH [OF check_valid [OF Cons.prems(1)] this] False Cons.prems(1)
    show ?thesis by (simp add: tail check_verdict check_cap)
  qed
qed

text \<open>From an empty window: refused exactly when among the newest admitted identities.\<close>

lemma run_verdict:
  assumes "valid s" and "window s = []"
  shows "fst (check (run s ks) k) \<longleftrightarrow> k \<in> set (newest (cap s) (admitted s ks))"
  using run_window [of s "[]" ks] run_valid [of s ks] check_verdict assms by (simp add: newest_def)

end

definition dedup_wf :: "ShareDedupSet \<Rightarrow> bool" where
  "dedup_wf d \<longleftrightarrow> ds_set d = set (ds_order d) \<and> distinct (ds_order d) \<and>
     length (ds_order d) \<le> max 1 (ds_max_entries d)"

definition dedup_cap :: "ShareDedupSet \<Rightarrow> nat" where
  "dedup_cap d = max 1 (ds_max_entries d)"

lemma dedup_evict_eq:
  "distinct order \<Longrightarrow>
    dedup_evict m (set order) order = (set (newest (m - 1) order), newest (m - 1) order)"
proof (induction order)
  case Nil
  then show ?case by (simp add: newest_def)
next
  case (Cons x xs)
  have card: "card (set (x # xs)) = Suc (length xs)" using Cons.prems by (simp add: distinct_card)
  show ?case
  proof (cases "m \<le> Suc (length xs)")
    case True
    have "set (x # xs) - {x} = set xs" using Cons.prems by auto
    moreover have "newest (m - 1) (x # xs) = newest (m - 1) xs"
      using True by (simp add: newest_def Suc_diff_le)
    ultimately show ?thesis using Cons True card by simp
  next
    case False
    then have "newest (m - 1) (x # xs) = x # xs" by simp
    then show ?thesis using False card by simp
  qed
qed

lemma check_and_insert_fresh:
  assumes "dedup_wf d" and "k \<notin> set (ds_order d)"
  shows "ds_order (snd (check_and_insert d k)) = newest (dedup_cap d) (ds_order d @ [k])"
    and "ds_set (snd (check_and_insert d k)) = set (ds_order (snd (check_and_insert d k)))"
    and "ds_max_entries (snd (check_and_insert d k)) = ds_max_entries d"
proof -
  have "newest (dedup_cap d) (ds_order d @ [k]) = newest (ds_max_entries d - 1) (ds_order d) @ [k]"
    by (simp add: dedup_cap_def newest_snoc max_def)
  then show "ds_order (snd (check_and_insert d k)) = newest (dedup_cap d) (ds_order d @ [k])"
    and "ds_set (snd (check_and_insert d k)) = set (ds_order (snd (check_and_insert d k)))"
    and "ds_max_entries (snd (check_and_insert d k)) = ds_max_entries d"
    using assms by (simp_all add: check_and_insert_def dedup_wf_def dedup_evict_eq)
qed

lemma check_and_insert_wf:
  assumes wf: "dedup_wf d"
  shows "dedup_wf (snd (check_and_insert d k))"
proof (cases "k \<in> set (ds_order d)")
  case True
  then show ?thesis using wf by (simp add: check_and_insert_def dedup_wf_def)
next
  case False
  have "distinct (newest (dedup_cap d) (ds_order d @ [k]))"
    unfolding newest_def using wf False by (intro distinct_drop) (simp add: dedup_wf_def)
  then show ?thesis
    using check_and_insert_fresh [OF wf False] by (simp add: dedup_wf_def length_newest dedup_cap_def)
qed

interpretation share_dedup: replay_window check_and_insert ds_order dedup_cap dedup_wf
proof
  fix d k assume wf: "dedup_wf d"
  show "fst (check_and_insert d k) \<longleftrightarrow> k \<in> set (ds_order d)"
    using wf by (auto simp: check_and_insert_def dedup_wf_def split: prod.splits)
  show "snd (check_and_insert d k) = d" if "k \<in> set (ds_order d)"
    using wf that by (simp add: check_and_insert_def dedup_wf_def)
  show "ds_order (snd (check_and_insert d k)) = newest (dedup_cap d) (ds_order d @ [k])"
    if "k \<notin> set (ds_order d)"
    using check_and_insert_fresh(1) [OF wf that] .
  show "dedup_wf (snd (check_and_insert d k))"
    by (rule check_and_insert_wf [OF wf])
next
  fix d k
  show "dedup_cap (snd (check_and_insert d k)) = dedup_cap d"
    by (simp add: check_and_insert_def dedup_cap_def split: prod.splits)
qed

lemma dedup_new_wf [simp]: "dedup_wf (dedup_new n)" "ds_order (dedup_new n) = []" "dedup_cap (dedup_new n) = max 1 n"
  by (simp_all add: dedup_wf_def dedup_new_def dedup_cap_def)

text \<open>A sequence of submissions through one set: the identities let through, and the set.\<close>

fun dedup_run :: "ShareDedupSet \<Rightarrow> hash32 list \<Rightarrow> hash32 list \<times> ShareDedupSet" where
  "dedup_run d [] = ([], d)"
| "dedup_run d (k # ks) =
     (let (replay, d') = check_and_insert d k; (passed, d'') = dedup_run d' ks
      in (if replay then passed else k # passed, d''))"

lemma dedup_run_eq: "dedup_run d ks = (share_dedup.admitted d ks, share_dedup.run d ks)"
  by (induction ks arbitrary: d) (simp_all add: share_dedup.run_def split_beta Let_def)

lemma dedup_run_verdict:
  "dedup_run (dedup_new n) ks = (passed, d) \<Longrightarrow>
    fst (check_and_insert d k) \<longleftrightarrow> k \<in> set (newest (max 1 n) passed)"
  using share_dedup.run_verdict [of "dedup_new n" ks k] by (auto simp: dedup_run_eq)

lemma dedup_run_window:
  "dedup_run (dedup_new n) ks = (passed, d) \<Longrightarrow> ds_order d = newest (max 1 n) passed \<and> dedup_wf d"
  using share_dedup.run_window [of "dedup_new n" "[]" ks] share_dedup.run_valid [of "dedup_new n" ks]
  by (auto simp: dedup_run_eq)

lemma dedup_run_len:
  assumes "dedup_run (dedup_new n) ks = (passed, d)"
  shows "dedup_len d = min (max 1 n) (length passed)"
  using dedup_run_window [OF assms]
  by (metis dedup_len_def dedup_wf_def distinct_card length_newest)

section \<open>Properties\<close>

text \<open>C39. Replay detection is exact over its window: after any sequence of submissions the next
  identity is refused exactly when it is among the last \<open>max_entries\<close> identities let through
  (one when the limit is zero), and the set never holds more than that.\<close>

theorem replay_window_exact:
  assumes "dedup_run (dedup_new n) ks = (passed, d)"
  shows "(fst (check_and_insert d k) \<longleftrightarrow> k \<in> set (newest (max 1 n) passed)) \<and>
    dedup_len d = min (max 1 n) (length passed)"
  using dedup_run_verdict [OF assms] dedup_run_len [OF assms] by blast

theorem replay_window_exact_witness:
  "fst (check_and_insert (snd (dedup_run (dedup_new 2) [[1], [2], [1], [3]])) [2]) \<and>
   \<not> fst (check_and_insert (snd (dedup_run (dedup_new 2) [[1], [2], [1], [3]])) [1])"
proof -
  have "dedup_run (dedup_new 2) [[1], [2], [1], [3]] =
      ([[1], [2], [3]], snd (dedup_run (dedup_new 2) [[1], [2], [1], [3]]))"
    by (simp add: dedup_new_def check_and_insert_def)
  note run = replay_window_exact [OF this]
  show ?thesis using run [of "[2]"] run [of "[1]"] by (simp add: newest_def)
qed

text \<open>The early-exit byte comparison of the proof-of-work check is the comparison of the
  256-bit numbers: a share passes exactly when its double SHA-256, read little-endian, does
  not exceed the target.\<close>

theorem share_pow_is_comparison:
  "sha256_ok C \<Longrightarrow> length target = 32 \<Longrightarrow>
    validate_share_pow C header target \<longleftrightarrow> le_val (sha256d C header) \<le> le_val target"
  by (rule validate_share_pow_iff)

theorem share_pow_is_comparison_witness:
  "validate_share_pow \<lparr>sha256 = (\<lambda>data. replicate 32 1), hmac_sha256 = (\<lambda>k m. None)\<rparr> [] (replicate 32 2)"
proof -
  have "255 * le_val (replicate 32 1) \<le> 255 * le_val (replicate 32 2)"
    unfolding le_val_replicate by simp
  then show ?thesis
    by (subst share_pow_is_comparison) (simp_all add: sha256_ok_def sha256d_def)
qed

text \<open>What is hashed into an identity determines the share: the header bytes determine all six
  header fields, and the event input determines the share, the worker and the validation
  level, for names whose length fits its 16-bit prefix.\<close>

theorem identities_determine_shares:
  assumes "length p = 32" "length m = 32" "length p' = 32" "length m' = 32"
    and "length s = 32" "length s' = 32"
    and "length w < 65536" "length w' < 65536" "length l < 65536" "length l' < 65536"
  shows "(header_identity_bytes v p m t b n = header_identity_bytes v' p' m' t' b' n' \<longleftrightarrow>
      v = v' \<and> p = p' \<and> m = m' \<and> t = t' \<and> b = b' \<and> n = n') \<and>
    (event_id_input s w l = event_id_input s' w' l' \<longleftrightarrow> s = s' \<and> w = w' \<and> l = l')"
  by (intro conjI header_identity_inject event_id_input_inject assms)

theorem identities_determine_shares_witness:
  "event_id_input (replicate 32 0) ''ab'' ''full'' \<noteq> event_id_input (replicate 32 0) ''a'' ''bfull''"
  using identities_determine_shares
    [of "replicate 32 0" "replicate 32 0" "replicate 32 0" "replicate 32 0" "replicate 32 0"
      "replicate 32 0" "''ab''" "''a''" "''full''" "''bfull''"]
  by simp

text \<open>The ntime check, saturating additions included, is exactly the three bounds over the
  integers: not before the activation time, not past the elapsed time plus slack, not past
  the clock plus the future allowance.\<close>

theorem ntime_bounds_exact:
  "check_ntime_bounds ntime lo el slack fut now \<longleftrightarrow>
     unat lo \<le> unat ntime \<and>
     unat ntime \<le> unat lo + unat el + unat slack \<and> unat ntime \<le> unat now + unat fut"
  by (rule check_ntime_bounds_iff)

text \<open>The version check lets a miner roll exactly the general-purpose bits 13 to 28: it passes
  exactly when the two versions agree on every other bit.\<close>

theorem version_rolling_exact:
  "check_version_bits a b \<longleftrightarrow> {n. bit a n \<noteq> bit b n} \<subseteq> {13..28}"
proof -
  have "n < 32" if "bit a n \<noteq> bit b n" for n
    using that bit_imp_le_length [of a n] bit_imp_le_length [of b n] by auto
  then have "(\<forall>n < 32. n < 13 \<or> 28 < n \<longrightarrow> bit a n = bit b n) \<longleftrightarrow>
      (\<forall>n. bit a n \<noteq> bit b n \<longrightarrow> \<not> (n < 13 \<or> 28 < n))"
    by blast
  also have "\<dots> \<longleftrightarrow> {n. bit a n \<noteq> bit b n} \<subseteq> {13..28}"
    by (simp only: subset_iff mem_Collect_eq atLeastAtMost_iff not_less de_Morgan_disj)
  finally show ?thesis by (simp only: check_version_bits_iff)
qed

end
