(* ===== verification/RG_Wal.thy ===== *)
theory RG_Wal
  imports RG_Shares "HOL-Library.AList" "HOL-Library.Multiset"
begin

text \<open>
  The write-ahead log of in-flight share forwards, \<open>services/sv2-gateway/src/wal.rs\<close>. The file
  is its bytes, so a torn write is a byte prefix; the in-memory index is \<open>ShareWal\<close>. A
  \<open>HashMap\<close> is an association list, and the order in which one is iterated is the parameter
  \<open>wl_order\<close>; JSON is the pair \<open>wl_to_string\<close>, \<open>wl_from_str\<close>. The clock readings and the
  outcome of each system call are arguments: an append that fails leaves any prefix of its
  bytes, a compaction that fails leaves the file as it was. A line that is not UTF-8 and a line
  that is not a record are both skipped, so both are lines \<open>wl_from_str\<close> refuses. The rename of
  a compaction is taken to be durable once it returned.
\<close>

section \<open>Records\<close>

datatype WalStatus = Pending | Completed

record WalRecord =
  wr_status :: WalStatus
  wr_share_id_hex :: string
  wr_event_id_hex :: string
  wr_timestamp_ms :: u64

type_synonym wal_key = "string \<times> string"

definition wal_record :: "WalStatus \<Rightarrow> u64 \<Rightarrow> wal_key \<Rightarrow> WalRecord" where
  "wal_record status ts key =
     \<lparr>wr_status = status, wr_share_id_hex = fst key, wr_event_id_hex = snd key, wr_timestamp_ms = ts\<rparr>"

definition record_key :: "WalRecord \<Rightarrow> wal_key" where
  "record_key r = (wr_share_id_hex r, wr_event_id_hex r)"

record wal_lib =
  wl_to_string :: "WalRecord \<Rightarrow> string"
  wl_from_str :: "string \<Rightarrow> WalRecord option"
  wl_order :: "wal_key list \<Rightarrow> wal_key list"

text \<open>
  What the module relies on: a record is read back from its rendering, the rendering is one
  line that is neither blank nor ends in a carriage return, no proper prefix of it is a record,
  and iterating a map visits every key once.
\<close>

definition NEWLINE :: char where
  "NEWLINE = char_of (10 :: nat)"

definition CARRIAGE_RETURN :: char where
  "CARRIAGE_RETURN = char_of (13 :: nat)"

definition wal_lib_ok :: "wal_lib \<Rightarrow> bool" where
  "wal_lib_ok L \<longleftrightarrow>
     (\<forall>r. wl_from_str L (wl_to_string L r) = Some r) \<and>
     (\<forall>r. NEWLINE \<notin> set (wl_to_string L r) \<and> trim (wl_to_string L r) \<noteq> [] \<and>
        last (wl_to_string L r) \<noteq> CARRIAGE_RETURN) \<and>
     (\<forall>r n. n < length (wl_to_string L r) \<longrightarrow> wl_from_str L (take n (wl_to_string L r)) = None) \<and>
     (\<forall>ks. mset (wl_order L ks) = mset ks)"

section \<open>The log in memory\<close>

record ShareWal =
  wal_pending :: "(wal_key \<times> u64) list"
  wal_completed_since_compaction :: nat
  wal_compaction_threshold :: nat
  wal_completed_early :: "(wal_key \<times> nat) list"

record WalRecovery =
  rec_synthetic_events :: "ShareForwardResultEvent list"
  rec_completed_count :: nat

definition WAL_BATCH_MAX :: nat where
  "WAL_BATCH_MAX = 1024"

definition EARLY_COMPLETION_TTL :: nat where
  "EARLY_COMPLETION_TTL = 10 * 1000000000"

definition EARLY_COMPLETION_CAP :: nat where
  "EARLY_COMPLETION_CAP = 4096"

fun fill_batch :: "'a list \<Rightarrow> 'a list \<Rightarrow> 'a list \<times> 'a list" where
  "fill_batch batch [] = (batch, [])"
| "fill_batch batch (item # rx) =
     (if length batch < WAL_BATCH_MAX then fill_batch (batch @ [item]) rx else (batch, item # rx))"

definition take_queued :: "'a list \<Rightarrow> 'a \<Rightarrow> 'a list \<times> 'a list" where
  "take_queued rx first_item = fill_batch [first_item] rx"

section \<open>Replay\<close>

text \<open>\<open>BufRead::lines\<close>: a terminated line loses its newline and one carriage return before it.\<close>

definition strip_cr :: "string \<Rightarrow> string" where
  "strip_cr s = (if s \<noteq> [] \<and> last s = CARRIAGE_RETURN then butlast s else s)"

fun buf_lines :: "string \<Rightarrow> string \<Rightarrow> string list" where
  "buf_lines cur [] = (if cur = [] then [] else [cur])"
| "buf_lines cur (c # cs) =
     (if c = NEWLINE then strip_cr cur # buf_lines [] cs else buf_lines (cur @ [c]) cs)"

definition read_record :: "wal_lib \<Rightarrow> string \<Rightarrow> WalRecord option" where
  "read_record L s = (if trim s = [] then None else wl_from_str L s)"

type_synonym replay_state = "(wal_key \<times> u64) list \<times> wal_key list"

fun replay_step :: "WalRecord \<Rightarrow> replay_state \<Rightarrow> replay_state" where
  "replay_step r (pending, early) =
     (let key = record_key r in
      case wr_status r of
        Pending \<Rightarrow>
          if key \<in> set early then (pending, removeAll key early)
          else (AList.update key (wr_timestamp_ms r) pending, early)
      | Completed \<Rightarrow>
          if map_of pending key = None then (pending, List.insert key early)
          else (AList.delete key pending, early))"

definition wal_records :: "wal_lib \<Rightarrow> string \<Rightarrow> WalRecord list" where
  "wal_records L content = List.map_filter (read_record L) (buf_lines [] content)"

definition read_pending_index :: "wal_lib \<Rightarrow> string \<Rightarrow> (wal_key \<times> u64) list" where
  "read_pending_index L content = fst (fold replay_step (wal_records L content) ([], []))"

section \<open>Opening and recovering\<close>

text \<open>\<open>None\<close> is a file that does not exist; the flag says that a system call failed.\<close>

definition wal_open :: "wal_lib \<Rightarrow> bool \<Rightarrow> nat \<Rightarrow> string option \<Rightarrow> (unit + ShareWal) \<times> string option" where
  "wal_open L fails compaction_threshold disk =
     (if fails then (Err (), disk)
      else
        (Ok \<lparr>wal_pending = (case disk of None \<Rightarrow> [] | Some content \<Rightarrow> read_pending_index L content),
             wal_completed_since_compaction = 0, wal_compaction_threshold = compaction_threshold,
             wal_completed_early = []\<rparr>,
         Some (case disk of None \<Rightarrow> [] | Some content \<Rightarrow> content)))"

definition synthetic_event :: "u64 \<Rightarrow> wal_key \<Rightarrow> ShareForwardResultEvent" where
  "synthetic_event unix_ms_now key =
     \<lparr>fr_event_type = ''share_forward_result'',
      fr_share_id_hex = fst key,
      fr_event_id_hex = snd key,
      fr_forwarded = False,
      fr_upstream_accepted = None,
      fr_upstream_http_status = None,
      fr_upstream_error = Some ''process crashed before forward completed'',
      fr_reason_code = Some (gateway_as_str GR_ProcessCrashRecovery),
      fr_timestamp_ms = unix_ms_now\<rparr>"

definition recover :: "wal_lib \<Rightarrow> u64 \<Rightarrow> ShareWal \<Rightarrow> WalRecovery \<times> ShareWal" where
  "recover L unix_ms_now w =
     (\<lparr>rec_synthetic_events = map (synthetic_event unix_ms_now) (wl_order L (map fst (wal_pending w))),
       rec_completed_count = 0\<rparr>,
      w\<lparr>wal_pending := []\<rparr>)"

section \<open>Writing\<close>

datatype append_io = Append_ok | Append_fails nat

definition render :: "wal_lib \<Rightarrow> WalRecord list \<Rightarrow> string" where
  "render L records = concat (map (\<lambda>r. wl_to_string L r @ [NEWLINE]) records)"

definition append_records :: "wal_lib \<Rightarrow> append_io \<Rightarrow> WalRecord list \<Rightarrow> string \<Rightarrow> (unit + unit) \<times> string" where
  "append_records L io records disk =
     (if records = [] then (Ok (), disk)
      else case io of
        Append_ok \<Rightarrow> (Ok (), disk @ render L records)
      | Append_fails n \<Rightarrow> (Err (), disk @ take n (render L records)))"

text \<open>The flags of \<open>mark_pending\<close>: each early completion is consumed once in a batch.\<close>

fun consume_early :: "(wal_key \<times> nat) list \<Rightarrow> wal_key list \<Rightarrow> wal_key list \<Rightarrow> bool list" where
  "consume_early early consumed [] = []"
| "consume_early early consumed (key # keys) =
     (let consumes = map_of early key \<noteq> None \<and> key \<notin> set consumed
      in consumes # consume_early early (if consumes then key # consumed else consumed) keys)"

definition index_pending :: "u64 \<Rightarrow> wal_key \<times> bool \<Rightarrow> ShareWal \<Rightarrow> ShareWal" where
  "index_pending now kc w =
     (let (key, consumes) = kc in
      if consumes then w\<lparr>wal_completed_early := AList.delete key (wal_completed_early w)\<rparr>
      else w\<lparr>wal_pending := AList.update key now (wal_pending w)\<rparr>)"

definition mark_pending ::
  "wal_lib \<Rightarrow> append_io \<Rightarrow> u64 \<Rightarrow> wal_key list \<Rightarrow> ShareWal \<times> string \<Rightarrow> (unit + unit) \<times> ShareWal \<times> string" where
  "mark_pending L io now shares st =
     (let (w, disk) = st;
          consumes_early = consume_early (wal_completed_early w) [] shares
      in case append_records L io (map (wal_record Pending now) shares) disk of
           (Inl e, disk') \<Rightarrow> (Err e, w, disk')
         | (Inr _, disk') \<Rightarrow> (Ok (), fold (index_pending now) (zip shares consumes_early) w, disk'))"

definition complete_one :: "nat \<Rightarrow> wal_key \<Rightarrow> ShareWal \<Rightarrow> ShareWal" where
  "complete_one arrived key w =
     (if map_of (wal_pending w) key \<noteq> None then w\<lparr>wal_pending := AList.delete key (wal_pending w)\<rparr>
      else if length (wal_completed_early w) < EARLY_COMPLETION_CAP
      then w\<lparr>wal_completed_early := AList.update key arrived (wal_completed_early w)\<rparr>
      else w)"

definition prune_completed_early :: "nat \<Rightarrow> ShareWal \<Rightarrow> ShareWal" where
  "prune_completed_early now w =
     w\<lparr>wal_completed_early := filter (\<lambda>(_, completed_at). now - completed_at < EARLY_COMPLETION_TTL)
        (wal_completed_early w)\<rparr>"

definition compacted_records :: "wal_lib \<Rightarrow> u64 \<Rightarrow> ShareWal \<Rightarrow> WalRecord list" where
  "compacted_records L rewritten_at w =
     map (\<lambda>key. wal_record Pending (the (map_of (wal_pending w) key)) key) (wl_order L (map fst (wal_pending w))) @
     map (wal_record Completed rewritten_at) (wl_order L (map fst (wal_completed_early w)))"

definition compact_inner ::
  "wal_lib \<Rightarrow> bool \<Rightarrow> nat \<Rightarrow> u64 \<Rightarrow> ShareWal \<times> string \<Rightarrow> (unit + unit) \<times> ShareWal \<times> string" where
  "compact_inner L fails now rewritten_at st =
     (let (w, disk) = st; w' = prune_completed_early now w in
      if fails then (Err (), w', disk)
      else (Ok (), w'\<lparr>wal_completed_since_compaction := 0\<rparr>, render L (compacted_records L rewritten_at w')))"

definition finish_recovery ::
  "wal_lib \<Rightarrow> bool \<Rightarrow> nat \<Rightarrow> u64 \<Rightarrow> ShareWal \<times> string \<Rightarrow> (unit + unit) \<times> ShareWal \<times> string" where
  "finish_recovery L fails now rewritten_at st = compact_inner L fails now rewritten_at st"

definition mark_completed ::
  "wal_lib \<Rightarrow> append_io \<Rightarrow> bool \<Rightarrow> u64 \<Rightarrow> nat \<Rightarrow> nat \<Rightarrow> u64 \<Rightarrow> wal_key list \<Rightarrow> ShareWal \<times> string
    \<Rightarrow> (unit + unit) \<times> ShareWal \<times> string" where
  "mark_completed L io compact_fails now arrived compact_at rewritten_at shares st =
     (let (w, disk) = st; w' = fold (complete_one arrived) shares w in
      case append_records L io (map (wal_record Completed now) shares) disk of
        (Inl e, disk') \<Rightarrow> (Err e, w', disk')
      | (Inr _, disk') \<Rightarrow>
          let w'' = w'\<lparr>wal_completed_since_compaction := wal_completed_since_compaction w' + length shares\<rparr> in
          if 0 < wal_compaction_threshold w'' \<and> wal_compaction_threshold w'' \<le> wal_completed_since_compaction w''
          then compact_inner L compact_fails compact_at rewritten_at (w'', disk')
          else (Ok (), w'', disk'))"

definition pending_count :: "ShareWal \<Rightarrow> nat" where
  "pending_count w = length (wal_pending w)"

section \<open>Lines and records\<close>

lemma buf_lines_line:
  "NEWLINE \<notin> set s \<Longrightarrow> buf_lines cur (s @ NEWLINE # rest) = strip_cr (cur @ s) # buf_lines [] rest"
  by (induction s arbitrary: cur) auto

lemma buf_lines_tail: "NEWLINE \<notin> set s \<Longrightarrow> buf_lines cur s = (if cur @ s = [] then [] else [cur @ s])"
  by (induction s arbitrary: cur) auto

text \<open>A file is whole when its last line is terminated; appending then adds lines and changes none.\<close>

definition whole :: "string \<Rightarrow> bool" where
  "whole content \<longleftrightarrow> content = [] \<or> last content = NEWLINE"

lemma buf_lines_append:
  "content \<noteq> [] \<Longrightarrow> last content = NEWLINE \<Longrightarrow>
    buf_lines cur (content @ rest) = buf_lines cur content @ buf_lines [] rest"
proof (induction content arbitrary: cur)
  case (Cons c cs)
  then show ?case by (cases "cs = []") auto
qed simp

lemma wal_records_append: "whole content \<Longrightarrow> wal_records L (content @ rest) = wal_records L content @ wal_records L rest"
  by (cases "content = []") (auto simp: whole_def wal_records_def buf_lines_append map_filter_def)

lemma wal_records_empty [simp]: "wal_records L [] = []"
  by (simp add: wal_records_def)

lemma whole_append: "whole a \<Longrightarrow> whole b \<Longrightarrow> whole (a @ b)"
  by (cases "b = []") (simp_all add: whole_def)

lemma whole_render [simp]: "whole (render L rs)"
  by (induction rs rule: rev_induct) (simp_all add: whole_def render_def)

lemma rendered:
  assumes "wal_lib_ok L"
  shows "NEWLINE \<notin> set (wl_to_string L r)" "read_record L (wl_to_string L r) = Some r"
    "strip_cr (wl_to_string L r) = wl_to_string L r" "wl_to_string L r \<noteq> []"
proof -
  show "NEWLINE \<notin> set (wl_to_string L r)" "read_record L (wl_to_string L r) = Some r"
    "strip_cr (wl_to_string L r) = wl_to_string L r"
    using assms by (simp_all add: wal_lib_ok_def read_record_def strip_cr_def)
  have "trim (wl_to_string L r) \<noteq> []" using assms by (simp add: wal_lib_ok_def)
  then show "wl_to_string L r \<noteq> []" by auto
qed

lemma torn_record:
  "wal_lib_ok L \<Longrightarrow> n < length (wl_to_string L r) \<Longrightarrow> read_record L (take n (wl_to_string L r)) = None"
  by (simp add: wal_lib_ok_def read_record_def)

lemma render_simps [simp]: "render L [] = []" "render L (r # rs) = wl_to_string L r @ NEWLINE # render L rs"
  by (simp_all add: render_def)

lemma render_append: "render L (rs @ ss) = render L rs @ render L ss"
  by (simp add: render_def)

lemma wal_records_line:
  "wal_lib_ok L \<Longrightarrow> wal_records L (wl_to_string L r @ NEWLINE # rest) = r # wal_records L rest"
  by (simp add: wal_records_def buf_lines_line rendered)

lemma wal_records_render: "wal_lib_ok L \<Longrightarrow> wal_records L (render L rs) = rs"
  by (induction rs) (simp_all add: wal_records_line)

text \<open>What a torn write leaves is read as the records it wrote whole, and at most one more.\<close>

lemma wal_records_torn:
  assumes ok: "wal_lib_ok L"
  shows "\<exists>m. wal_records L (take n (render L rs)) = take m rs"
proof (induction rs arbitrary: n)
  case (Cons r rs)
  let ?s = "wl_to_string L r"
  consider "n < length ?s" | "n = length ?s" | "length ?s < n" by linarith
  then show ?case
  proof cases
    case 1
    have "NEWLINE \<notin> set (take n ?s)" using rendered(1) [OF ok, of r] by (auto dest: in_set_takeD)
    then have "wal_records L (take n (render L (r # rs))) = take 0 (r # rs)"
      using 1 torn_record [OF ok 1] buf_lines_tail [of "take n ?s" "[]"] by (simp add: wal_records_def)
    then show ?thesis ..
  next
    case 2
    then have "wal_records L (take n (render L (r # rs))) = take 1 (r # rs)"
      using rendered [OF ok, of r] by (simp add: wal_records_def buf_lines_tail)
    then show ?thesis ..
  next
    case 3
    obtain m where m: "wal_records L (take (n - Suc (length ?s)) (render L rs)) = take m rs" using Cons by blast
    have "take n (render L (r # rs)) = ?s @ NEWLINE # take (n - Suc (length ?s)) (render L rs)"
      using 3 by (cases "n - length ?s") (simp_all add: diff_Suc)
    then have "wal_records L (take n (render L (r # rs))) = take (Suc m) (r # rs)"
      using m by (simp add: wal_records_line [OF ok])
    then show ?thesis ..
  qed
qed simp

section \<open>Replay on maps\<close>

type_synonym wal_view = "(wal_key \<rightharpoonup> u64) \<times> wal_key set"

fun view_step :: "WalRecord \<Rightarrow> wal_view \<Rightarrow> wal_view" where
  "view_step r (P, E) =
     (let key = record_key r in
      case wr_status r of
        Pending \<Rightarrow> if key \<in> E then (P, E - {key}) else (P(key \<mapsto> wr_timestamp_ms r), E)
      | Completed \<Rightarrow> if P key = None then (P, insert key E) else (P(key := None), E))"

definition replay_view :: "replay_state \<Rightarrow> wal_view" where
  "replay_view s = (map_of (fst s), set (snd s))"

definition file_view :: "wal_lib \<Rightarrow> string \<Rightarrow> wal_view" where
  "file_view L content = fold view_step (wal_records L content) (Map.empty, {})"

definition memory_view :: "ShareWal \<Rightarrow> wal_view" where
  "memory_view w = (map_of (wal_pending w), fst ` set (wal_completed_early w))"

lemma replay_view_step: "replay_view (replay_step r s) = view_step r (replay_view s)"
  by (cases s) (auto simp: replay_view_def Let_def update_conv' delete_conv' split: WalStatus.splits)

lemma replay_view_fold: "replay_view (fold replay_step rs s) = fold view_step rs (replay_view s)"
  by (induction rs arbitrary: s) (simp_all add: replay_view_step)

lemma read_pending_index_view: "map_of (read_pending_index L content) = fst (file_view L content)"
proof -
  have "replay_view ([], []) = (Map.empty, {})" by (simp add: replay_view_def)
  then show ?thesis
    using replay_view_fold [of "wal_records L content" "([], [])"]
    unfolding read_pending_index_def file_view_def by (metis fst_conv replay_view_def)
qed

lemma file_view_append:
  "wal_lib_ok L \<Longrightarrow> whole content \<Longrightarrow> file_view L (content @ render L rs) = fold view_step rs (file_view L content)"
  by (simp add: file_view_def wal_records_append wal_records_render)

lemma wal_record_simps [simp]:
  "record_key (wal_record s t k) = k" "wr_status (wal_record s t k) = s" "wr_timestamp_ms (wal_record s t k) = t"
  by (simp_all add: wal_record_def record_key_def)

definition view_ok :: "wal_view \<Rightarrow> bool" where
  "view_ok v \<longleftrightarrow> dom (fst v) \<inter> snd v = {}"

lemma view_step_ok: "view_ok v \<Longrightarrow> view_ok (view_step r v)"
  by (cases v) (auto simp: view_ok_def Let_def split: WalStatus.splits)

lemma fold_view_step_ok: "view_ok v \<Longrightarrow> view_ok (fold view_step rs v)"
  by (induction rs arbitrary: v) (simp_all add: view_step_ok)

section \<open>Memory on maps\<close>
lemma delete_dom: "fst ` set (AList.delete k al) = fst ` set al - {k}"
  using arg_cong [OF delete_keys [of k al], of set] by simp

lemma index_pending_view:
  "(consumes \<longleftrightarrow> key \<in> snd (memory_view w)) \<Longrightarrow>
    memory_view (index_pending now (key, consumes) w) = view_step (wal_record Pending now key) (memory_view w)"
  by (simp add: index_pending_def memory_view_def delete_dom update_conv')

lemma index_batch_view:
  assumes "fst ` set (wal_completed_early w) = fst ` set early - set consumed"
  shows "memory_view (fold (index_pending now) (zip keys (consume_early early consumed keys)) w) =
    fold view_step (map (wal_record Pending now) keys) (memory_view w)"
  using assms
proof (induction keys arbitrary: consumed w)
  case (Cons k ks)
  let ?c = "map_of early k \<noteq> None \<and> k \<notin> set consumed"
  let ?w = "index_pending now (k, ?c) w" and ?consumed = "if ?c then k # consumed else consumed"
  have c: "?c \<longleftrightarrow> k \<in> snd (memory_view w)"
    using Cons.prems by (auto simp: memory_view_def map_of_eq_None_iff)
  have "fst ` set (wal_completed_early ?w) = fst ` set early - set ?consumed"
    using Cons.prems by (auto simp: index_pending_def delete_dom)
  from Cons.IH [OF this] index_pending_view [OF c, of now] show ?case by (simp add: Let_def)
qed simp

lemma complete_one_view:
  "length (wal_completed_early w) < EARLY_COMPLETION_CAP \<Longrightarrow>
    memory_view (complete_one arrived key w) = view_step (wal_record Completed now key) (memory_view w)"
  by (auto simp: complete_one_def memory_view_def delete_conv' dom_update)

text \<open>The index as a data structure: keys are unique, the early set is bounded, and no share is in both.\<close>

definition wal_inv :: "ShareWal \<Rightarrow> bool" where
  "wal_inv w \<longleftrightarrow> distinct (map fst (wal_pending w)) \<and> distinct (map fst (wal_completed_early w)) \<and>
     length (wal_completed_early w) \<le> EARLY_COMPLETION_CAP \<and> view_ok (memory_view w)"

lemma length_update_le: "length (AList.update k v al) \<le> Suc (length al)"
  by (induction al) auto

lemma complete_one_length: "length (wal_completed_early (complete_one t k w)) \<le> Suc (length (wal_completed_early w))"
  by (simp add: complete_one_def length_update_le)

lemma complete_one_inv: "wal_inv w \<Longrightarrow> wal_inv (complete_one t k w)"
  using length_update_le [of k t "wal_completed_early w"]
  by (auto simp: wal_inv_def complete_one_def distinct_update distinct_removeAll delete_keys view_ok_def memory_view_def
      delete_conv' dom_update map_of_eq_None_iff domIff)

lemma index_pending_inv:
  assumes "wal_inv w" and "consumes \<longleftrightarrow> key \<in> snd (memory_view w)"
  shows "wal_inv (index_pending now (key, consumes) w)"
  using assms length_delete_le [of key "wal_completed_early w"]
  by (auto simp: wal_inv_def index_pending_def distinct_update distinct_removeAll delete_keys view_ok_def memory_view_def
      update_conv' delete_dom)

lemma prune_inv: "wal_inv w \<Longrightarrow> wal_inv (prune_completed_early now w)"
  by (auto simp: wal_inv_def prune_completed_early_def view_ok_def memory_view_def distinct_map_filter
      intro: order_trans [OF length_filter_le])

section \<open>Compaction\<close>

lemma order_set: "wal_lib_ok L \<Longrightarrow> set (wl_order L ks) = set ks"
  unfolding wal_lib_ok_def by (metis set_mset_mset)

lemma fold_pending:
  "fold view_step (map (\<lambda>k. wal_record Pending (ts k) k) ks) (P, {}) =
    ((\<lambda>k. if k \<in> set ks then Some (ts k) else P k), {})"
  by (induction ks arbitrary: P) (auto simp: fun_eq_iff)

lemma fold_completed:
  "dom P \<inter> set ks = {} \<Longrightarrow> fold view_step (map (wal_record Completed t) ks) (P, E) = (P, E \<union> set ks)"
  by (induction ks arbitrary: E) (auto simp: domIff)

lemma compacted_view:
  assumes ok: "wal_lib_ok L" and v: "view_ok (memory_view w)"
  shows "file_view L (render L (compacted_records L t w)) = memory_view w"
proof -
  have "(\<lambda>k. if k \<in> fst ` set (wal_pending w) then Some (the (map_of (wal_pending w) k)) else None) = map_of (wal_pending w)"
  proof
    fix k
    show "(if k \<in> fst ` set (wal_pending w) then Some (the (map_of (wal_pending w) k)) else None) = map_of (wal_pending w) k"
      by (metis map_of_eq_None_iff option.collapse)
  qed
  moreover have "dom (map_of (wal_pending w)) \<inter> fst ` set (wal_completed_early w) = {}"
    using v by (simp add: view_ok_def memory_view_def)
  ultimately show ?thesis
    by (simp add: file_view_def wal_records_render [OF ok] compacted_records_def order_set [OF ok] fold_pending
        fold_completed memory_view_def)
qed

lemma compact_inner_view:
  assumes ok: "wal_lib_ok L" and inv: "wal_inv w" and c: "compact_inner L False now t (w, disk) = (r, w', disk')"
  shows "r = Ok ()" "wal_inv w'" "whole disk'" "file_view L disk' = memory_view w'"
    "wal_pending w' = wal_pending w" "set (wal_completed_early w') \<subseteq> set (wal_completed_early w)"
proof -
  let ?p = "prune_completed_early now w"
  have e: "r = Ok ()" "w' = ?p\<lparr>wal_completed_since_compaction := 0\<rparr>" "disk' = render L (compacted_records L t ?p)"
    using c by (simp_all add: compact_inner_def Let_def)
  have p: "wal_inv ?p" using inv by (rule prune_inv)
  show "r = Ok ()" "wal_inv w'" "whole disk'" using e p by (simp_all add: wal_inv_def memory_view_def)
  show "file_view L disk' = memory_view w'"
    using compacted_view [OF ok, of ?p t] p e by (simp add: wal_inv_def memory_view_def)
  show "wal_pending w' = wal_pending w" "set (wal_completed_early w') \<subseteq> set (wal_completed_early w)"
    using e by (auto simp: prune_completed_early_def)
qed

section \<open>Memory and file\<close>

text \<open>
  Whatever the file would bring back as pending, memory holds as pending; whatever memory holds
  as completed early, the file holds too.
\<close>

definition covers :: "wal_view \<Rightarrow> wal_view \<Rightarrow> bool" where
  "covers m f \<longleftrightarrow> dom (fst f) \<subseteq> dom (fst m) \<and> snd m \<subseteq> snd f"

lemma covers_refl [simp]: "covers v v"
  by (simp add: covers_def)

lemma covers_step: "covers m f \<Longrightarrow> covers (view_step r m) (view_step r f)"
  by (cases m; cases f) (auto simp: covers_def Let_def domIff split: WalStatus.splits)

lemma covers_fold: "covers m f \<Longrightarrow> covers (fold view_step rs m) (fold view_step rs f)"
  by (induction rs arbitrary: m f) (simp_all add: covers_step)

lemma complete_one_covers:
  assumes "covers (memory_view w) f"
  shows "covers (memory_view (complete_one t k w)) (view_step (wal_record Completed now k) f)"
proof (cases "map_of (wal_pending w) k = None \<and> \<not> length (wal_completed_early w) < EARLY_COMPLETION_CAP")
  case True
  then show ?thesis using assms by (cases f) (auto simp: complete_one_def covers_def memory_view_def)
next
  case False
  then have "memory_view (complete_one t k w) = view_step (wal_record Completed now k) (memory_view w)"
    by (auto simp: complete_one_def memory_view_def delete_conv' dom_update)
  then show ?thesis using covers_step [OF assms] by simp
qed

lemma complete_batch:
  assumes "wal_inv w" and "covers (memory_view w) f"
  shows "wal_inv (fold (complete_one t) ks w) \<and>
    covers (memory_view (fold (complete_one t) ks w)) (fold view_step (map (wal_record Completed now) ks) f) \<and>
    (length (wal_completed_early w) + length ks \<le> EARLY_COMPLETION_CAP \<longrightarrow>
      memory_view (fold (complete_one t) ks w) = fold view_step (map (wal_record Completed now) ks) (memory_view w))"
  using assms
proof (induction ks arbitrary: w f)
  case (Cons k ks)
  note inv = complete_one_inv [OF Cons.prems(1), of t k] and covers = complete_one_covers [OF Cons.prems(2), of t k now]
  show ?case
    using Cons.IH [OF inv covers] complete_one_view [of w t k now] complete_one_length [of t k w] by auto
qed simp

lemma index_batch_inv:
  assumes "wal_inv w" and "fst ` set (wal_completed_early w) = fst ` set early - set consumed"
  shows "wal_inv (fold (index_pending now) (zip keys (consume_early early consumed keys)) w)"
  using assms
proof (induction keys arbitrary: consumed w)
  case (Cons k ks)
  let ?c = "map_of early k \<noteq> None \<and> k \<notin> set consumed"
  have c: "?c \<longleftrightarrow> k \<in> snd (memory_view w)"
    using Cons.prems by (auto simp: memory_view_def map_of_eq_None_iff)
  have "fst ` set (wal_completed_early (index_pending now (k, ?c) w)) =
      fst ` set early - set (if ?c then k # consumed else consumed)"
    using Cons.prems by (auto simp: index_pending_def delete_dom)
  from Cons.IH [OF index_pending_inv [OF Cons.prems(1) c] this] show ?case by (simp add: Let_def)
qed simp

lemma append_ok:
  assumes ok: "wal_lib_ok L" and "whole disk" and "append_records L io rs disk = (Ok u, disk')"
  shows "whole disk'" "file_view L disk' = fold view_step rs (file_view L disk)"
    "wal_records L disk' = wal_records L disk @ rs"
proof -
  have "disk' = disk @ render L rs" using assms(3) by (auto simp: append_records_def split: if_splits append_io.splits)
  then show "whole disk'" "file_view L disk' = fold view_step rs (file_view L disk)"
    "wal_records L disk' = wal_records L disk @ rs"
    using assms(2) by (simp_all add: whole_append file_view_append [OF ok] wal_records_append wal_records_render [OF ok])
qed

lemma mark_pending_ok:
  assumes "mark_pending L io now shares (w, disk) = (Ok u, w', disk')"
  shows "append_records L io (map (wal_record Pending now) shares) disk = (Ok (), disk')"
    "w' = fold (index_pending now) (zip shares (consume_early (wal_completed_early w) [] shares)) w"
  using assms by (auto simp: mark_pending_def Let_def split: prod.splits sum.splits)

lemma mark_completed_ok:
  assumes "mark_completed L io cf now arrived compact_at t shares (w, disk) = (Ok u, w', disk')"
  obtains (plain) "append_records L io (map (wal_record Completed now) shares) disk = (Ok (), disk')"
      "w' = fold (complete_one arrived) shares w
        \<lparr>wal_completed_since_compaction := wal_completed_since_compaction (fold (complete_one arrived) shares w) + length shares\<rparr>"
  | (compacted) disk1 where "append_records L io (map (wal_record Completed now) shares) disk = (Ok (), disk1)"
      "compact_inner L False compact_at t
        (fold (complete_one arrived) shares w
          \<lparr>wal_completed_since_compaction := wal_completed_since_compaction (fold (complete_one arrived) shares w) + length shares\<rparr>,
         disk1) = (Ok (), w', disk')"
  using assms
  by (auto simp: mark_completed_def Let_def compact_inner_def split: prod.splits sum.splits if_splits)

inductive wal_run :: "wal_lib \<Rightarrow> bool \<Rightarrow> ShareWal \<times> string \<Rightarrow> bool" for L where
  opened: "wal_open L False threshold d = (Ok w, Some disk) \<Longrightarrow>
    finish_recovery L False now t (snd (recover L started w), disk) = (Ok (), st) \<Longrightarrow> wal_run L True st"
| pending: "wal_run L roomy st \<Longrightarrow> mark_pending L io now shares st = (Ok (), st') \<Longrightarrow> wal_run L roomy st'"
| completed: "wal_run L roomy st \<Longrightarrow>
    mark_completed L io compact_fails now arrived compact_at t shares st = (Ok (), st') \<Longrightarrow>
    wal_run L (roomy \<and> length (wal_completed_early (fst st)) + length shares \<le> EARLY_COMPLETION_CAP) st'"

definition run_inv :: "wal_lib \<Rightarrow> bool \<Rightarrow> ShareWal \<times> string \<Rightarrow> bool" where
  "run_inv L roomy st \<longleftrightarrow> wal_inv (fst st) \<and> whole (snd st) \<and> covers (memory_view (fst st)) (file_view L (snd st)) \<and>
     (roomy \<longrightarrow> memory_view (fst st) = file_view L (snd st))"

lemma mark_pending_inv:
  assumes ok: "wal_lib_ok L" and inv: "run_inv L roomy st" and m: "mark_pending L io now shares st = (Ok u, st')"
  shows "run_inv L roomy st'"
proof -
  obtain w disk w' disk' where st: "st = (w, disk)" "st' = (w', disk')" by fastforce
  note a = mark_pending_ok [OF m [unfolded st]]
  have i: "wal_inv w" "whole disk" "covers (memory_view w) (file_view L disk)"
      "roomy \<longrightarrow> memory_view w = file_view L disk"
    using inv by (simp_all add: run_inv_def st)
  have early: "fst ` set (wal_completed_early w) = fst ` set (wal_completed_early w) - set []" by simp
  show ?thesis
    using append_ok(1,2) [OF ok i(2) a(1)] index_batch_inv [OF i(1) early] covers_fold [OF i(3)] i(4)
    by (simp add: run_inv_def st a(2) index_batch_view)
qed

lemma counter_view [simp]:
  "memory_view (w\<lparr>wal_completed_since_compaction := n\<rparr>) = memory_view w"
  "wal_inv (w\<lparr>wal_completed_since_compaction := n\<rparr>) = wal_inv w"
  by (simp_all add: memory_view_def wal_inv_def)

lemma mark_completed_inv:
  assumes ok: "wal_lib_ok L" and inv: "run_inv L roomy st"
    and m: "mark_completed L io cf now arrived compact_at t shares st = (Ok u, st')"
  shows "run_inv L (roomy \<and> length (wal_completed_early (fst st)) + length shares \<le> EARLY_COMPLETION_CAP) st'"
proof -
  obtain w disk w' disk' where st: "st = (w, disk)" "st' = (w', disk')" by fastforce
  have i: "wal_inv w" "whole disk" "covers (memory_view w) (file_view L disk)"
      "roomy \<longrightarrow> memory_view w = file_view L disk"
    using inv by (simp_all add: run_inv_def st)
  note batch = complete_batch [OF i(1,3), of arrived shares now]
  from m [unfolded st] show ?thesis
  proof (cases rule: mark_completed_ok)
    case plain
    then show ?thesis using append_ok(1,2) [OF ok i(2) plain(1)] batch i(4) by (simp add: run_inv_def st)
  next
    case (compacted disk1)
    then show ?thesis using compact_inner_view [OF ok _ compacted(2)] batch by (simp add: run_inv_def st)
  qed
qed

lemma wal_run_inv: "wal_run L roomy st \<Longrightarrow> wal_lib_ok L \<Longrightarrow> run_inv L roomy st"
proof (induction rule: wal_run.induct)
  case (opened threshold d w disk now t started st)
  obtain w' disk' where st: "st = (w', disk')" by fastforce
  have inv: "wal_inv (snd (recover L started w))"
    using opened(1) by (auto simp: wal_open_def recover_def wal_inv_def view_ok_def memory_view_def)
  have c: "compact_inner L False now t (snd (recover L started w), disk) = (Ok (), w', disk')"
    using opened(2) by (simp only: finish_recovery_def st)
  show ?case using compact_inner_view(2-4) [OF opened(3) inv c] by (simp add: run_inv_def st)
qed (auto intro: mark_pending_inv mark_completed_inv)

section \<open>A concrete library\<close>

text \<open>
  A flat rendering with the shape the contract asks for, fields in hexadecimal, separated by
  commas and closed by a brace.
\<close>

definition COMMA :: char where
  "COMMA = CHR '',''"

definition BRACE :: char where
  "BRACE = CHR ''}''"

definition flat_field :: "bytes \<Rightarrow> string" where
  "flat_field bs = hex_encode lower_hex bs"

definition flat_to_string :: "WalRecord \<Rightarrow> string" where
  "flat_to_string r =
     (case wr_status r of Pending \<Rightarrow> CHR ''p'' | Completed \<Rightarrow> CHR ''c'') #
     flat_field (as_bytes (wr_share_id_hex r)) @ COMMA # flat_field (as_bytes (wr_event_id_hex r)) @ COMMA #
     flat_field (to_le 8 (unat (wr_timestamp_ms r))) @ [BRACE]"

definition flat_from_str :: "string \<Rightarrow> WalRecord option" where
  "flat_from_str s =
     (if s = [] \<or> last s \<noteq> BRACE \<or> hd s \<notin> {CHR ''p'', CHR ''c''} then None
      else
        let body = butlast (tl s);
            share = takeWhile (\<lambda>c. c \<noteq> COMMA) body;
            rest = drop (Suc (length share)) body;
            event = takeWhile (\<lambda>c. c \<noteq> COMMA) rest;
            ts = drop (Suc (length event)) rest
        in case (hex_pairs share, hex_pairs event, hex_pairs ts) of
             (Inr a, Inr b, Inr t) \<Rightarrow>
               Some \<lparr>wr_status = (if hd s = CHR ''p'' then Pending else Completed), wr_share_id_hex = of_bytes a,
                     wr_event_id_hex = of_bytes b, wr_timestamp_ms = of_nat (le_val t)\<rparr>
           | _ \<Rightarrow> None)"

definition flat_lib :: wal_lib where
  "flat_lib = \<lparr>wl_to_string = flat_to_string, wl_from_str = flat_from_str, wl_order = (\<lambda>ks. ks)\<rparr>"

lemma eq_char_of_iff: "c = char_of (n :: nat) \<longleftrightarrow> take_bit 8 n = of_char c"
  using char_of_eq_iff [of n c] by auto

lemmas char_eqs = char_of_eq_iff eq_char_of_iff

lemma hex_digit_plain: "n < 16 \<Longrightarrow> hex_digit n \<notin> {COMMA, BRACE, NEWLINE}"
proof -
  assume n: "n < 16"
  have "of_char (hex_digit n) = (if n < 10 then 48 + n else 87 + n)"
    using n by (simp add: hex_digit_def)
  then have "of_char (hex_digit n) \<notin> {44, 125, 10 :: nat}" using n by auto
  moreover have "of_char COMMA = (44 :: nat)" "of_char BRACE = (125 :: nat)" "of_char NEWLINE = (10 :: nat)"
    by (simp_all add: COMMA_def BRACE_def NEWLINE_def)
  ultimately show ?thesis by (metis insertCI insertE singletonD)
qed

lemma flat_field_plain: "c \<in> set (flat_field bs) \<Longrightarrow> c \<notin> {COMMA, BRACE, NEWLINE}"
proof (induction bs)
  case (Cons b bs)
  have "unat b div 16 < 16" using unat_byte_less [of b] by simp
  then show ?case
    using Cons hex_digit_plain [of "unat b div 16"] hex_digit_plain [of "unat b mod 16"]
    by (auto simp: flat_field_def lower_hex_def)
qed (simp add: flat_field_def lower_hex_def)

lemma flat_take: "takeWhile (\<lambda>c. c \<noteq> COMMA) (flat_field bs @ COMMA # rest) = flat_field bs"
  using flat_field_plain [of _ bs] by (subst takeWhile_append2) auto

definition flat_body :: "WalRecord \<Rightarrow> string" where
  "flat_body r = flat_field (as_bytes (wr_share_id_hex r)) @ COMMA # flat_field (as_bytes (wr_event_id_hex r)) @ COMMA #
     flat_field (to_le 8 (unat (wr_timestamp_ms r)))"

lemma flat_to_string_body:
  "flat_to_string r = (case wr_status r of Pending \<Rightarrow> CHR ''p'' | Completed \<Rightarrow> CHR ''c'') # flat_body r @ [BRACE]"
  by (simp add: flat_to_string_def flat_body_def)

lemma flat_body_plain: "c \<in> set (flat_body r) \<Longrightarrow> c \<notin> {BRACE, NEWLINE}"
proof -
  assume "c \<in> set (flat_body r)"
  then consider bs where "c \<in> set (flat_field bs)" | "c = COMMA" by (auto simp: flat_body_def)
  then show ?thesis
  proof cases
    case 1
    then show ?thesis using flat_field_plain by blast
  next
    case 2
    then show ?thesis by (simp add: COMMA_def BRACE_def NEWLINE_def char_eqs)
  qed
qed

lemma flat_round_trip: "flat_from_str (flat_to_string r) = Some r"
proof -
  have ts: "(of_nat (le_val (to_le 8 (unat (wr_timestamp_ms r)))) :: u64) = wr_timestamp_ms r"
  proof -
    have "unat (wr_timestamp_ms r) < 2 ^ LENGTH(64)" by (rule unsigned_less)
    then have "unat (wr_timestamp_ms r) mod 256 ^ 8 = unat (wr_timestamp_ms r)" by simp
    then show ?thesis by (simp only: le_val_to_le) simp
  qed
  have hex: "hex_pairs (flat_field bs) = Ok bs" for bs by (simp add: flat_field_def hex_pairs_encode)
  have body: "butlast (tl (flat_to_string r)) = flat_body r" by (simp add: flat_to_string_body)
  have "hd (flat_to_string r) = (case wr_status r of Pending \<Rightarrow> CHR ''p'' | Completed \<Rightarrow> CHR ''c'')"
    "flat_to_string r \<noteq> []" "last (flat_to_string r) = BRACE"
    by (simp_all add: flat_to_string_body)
  then show ?thesis
    by (cases "wr_status r")
      (simp_all add: flat_from_str_def Let_def body flat_body_def flat_take hex ts of_bytes_as_bytes)
qed

lemma flat_torn:
  assumes "n < length (flat_to_string r)"
  shows "flat_from_str (take n (flat_to_string r)) = None"
proof -
  let ?c = "case wr_status r of Pending \<Rightarrow> CHR ''p'' | Completed \<Rightarrow> CHR ''c''" and ?t = "take n (flat_to_string r)"
  have "?t = take n ((?c # flat_body r) @ [BRACE])" by (simp add: flat_to_string_body)
  also have "\<dots> = take n (?c # flat_body r)" using assms by (subst take_append) (simp add: flat_to_string_body)
  finally have "?t = take n (?c # flat_body r)" .
  then have "set ?t \<subseteq> set (?c # flat_body r)" using set_take_subset by metis
  moreover have "BRACE \<notin> set (?c # flat_body r)"
    using flat_body_plain [of BRACE r] by (auto simp: BRACE_def split: WalStatus.splits)
  ultimately have "BRACE \<notin> set ?t" by (rule contra_subsetD)
  then have "?t = [] \<or> last ?t \<noteq> BRACE" by (cases "?t = []") (simp, metis last_in_set)
  then show ?thesis by (auto simp: flat_from_str_def)
qed

lemma strip_encodings_no_prefix: "(\<And>e. e \<in> set encs \<Longrightarrow> e = [] \<or> \<not> prefix e s) \<Longrightarrow> strip_encodings encs s = s"
proof -
  assume "\<And>e. e \<in> set encs \<Longrightarrow> e = [] \<or> \<not> prefix e s"
  then have "find (\<lambda>e. e \<noteq> [] \<and> prefix e s) encs = None" by (auto simp: find_None_iff)
  then show ?thesis by (simp add: strip_encodings.simps [of encs s])
qed

lemma flat_not_blank: "trim (flat_to_string r) \<noteq> []"
proof -
  have "strip_encodings (map (map char_of) WHITE_SPACE) (flat_to_string r) = flat_to_string r"
    by (rule strip_encodings_no_prefix) (auto simp: WHITE_SPACE_def flat_to_string_body char_eqs split: WalStatus.splits)
  moreover have "strip_encodings (map rev (map (map char_of) WHITE_SPACE)) (rev (flat_to_string r)) = rev (flat_to_string r)"
    by (rule strip_encodings_no_prefix) (auto simp: WHITE_SPACE_def flat_to_string_body BRACE_def char_eqs split: WalStatus.splits)
  ultimately show ?thesis by (simp add: trim_def Let_def flat_to_string_body)
qed

lemma flat_lib_ok: "wal_lib_ok flat_lib"
proof -
  have "NEWLINE \<notin> set (flat_to_string r)" for r
    using flat_body_plain [of NEWLINE r]
    by (auto simp: flat_to_string_body NEWLINE_def BRACE_def char_eqs split: WalStatus.splits)
  moreover have "last (flat_to_string r) \<noteq> CARRIAGE_RETURN" for r
    by (simp add: flat_to_string_body BRACE_def CARRIAGE_RETURN_def char_eqs)
  ultimately show ?thesis
    using flat_round_trip flat_torn flat_not_blank by (simp add: wal_lib_ok_def flat_lib_def)
qed

section \<open>Batches\<close>

lemma fill_batch_eq:
  "length batch \<le> WAL_BATCH_MAX \<Longrightarrow>
    fill_batch batch rx = (batch @ take (WAL_BATCH_MAX - length batch) rx, drop (WAL_BATCH_MAX - length batch) rx)"
proof (induction batch rx rule: fill_batch.induct)
  case (2 batch item rx)
  show ?case
  proof (cases "length batch < WAL_BATCH_MAX")
    case True
    then have "WAL_BATCH_MAX - length batch = Suc (WAL_BATCH_MAX - Suc (length batch))" by simp
    then show ?thesis using 2 True by simp
  qed (use 2 in simp)
qed simp

lemma take_queued_eq: "take_queued rx x = (take WAL_BATCH_MAX (x # rx), drop WAL_BATCH_MAX (x # rx))"
  by (simp add: take_queued_def fill_batch_eq WAL_BATCH_MAX_def)

section \<open>Replay and memory\<close>

text \<open>C18. Over any run of the log, opened on any file and with compactions wherever they fall, the
  file replays to no share that memory does not hold as pending, so a restart reports no share as
  orphaned that the process had completed. As long as the early completions stay below their
  cap, replay and memory agree exactly, timestamps included. The index never holds a key twice
  and never remembers more early completions than the cap.
\<close>

theorem replay_agrees_with_memory:
  assumes "wal_lib_ok L" and "wal_run L roomy (w, disk)"
  shows "fst ` set (read_pending_index L disk) \<subseteq> fst ` set (wal_pending w) \<and>
    (roomy \<longrightarrow> map_of (read_pending_index L disk) = map_of (wal_pending w)) \<and>
    distinct (map fst (wal_pending w)) \<and> length (wal_completed_early w) \<le> EARLY_COMPLETION_CAP"
proof -
  have i: "run_inv L roomy (w, disk)" by (rule wal_run_inv [OF assms(2,1)])
  then have "dom (map_of (read_pending_index L disk)) \<subseteq> dom (map_of (wal_pending w))"
    "roomy \<longrightarrow> map_of (read_pending_index L disk) = map_of (wal_pending w)"
    by (auto simp: run_inv_def covers_def memory_view_def read_pending_index_view prod_eq_iff)
  then show ?thesis using i by (simp add: run_inv_def wal_inv_def dom_map_of_conv_image_fst)
qed

text \<open>A completion that comes before its pending record, then a share that stays pending.\<close>

definition ex_opened :: "ShareWal \<times> string" where
  "ex_opened = (\<lparr>wal_pending = [], wal_completed_since_compaction = 0, wal_compaction_threshold = 2,
    wal_completed_early = []\<rparr>, [])"

definition ex_early :: "ShareWal \<times> string" where
  "ex_early = snd (mark_completed flat_lib Append_ok False 5 0 0 5 [(''s1'', ''e1'')] ex_opened)"

definition ex_late :: "ShareWal \<times> string" where
  "ex_late = snd (mark_pending flat_lib Append_ok 7 [(''s1'', ''e1''), (''s2'', ''e2'')] ex_early)"

lemma ex_late_run: "wal_run flat_lib True ex_late"
proof -
  let ?w = "fst ex_opened"
  have o: "wal_open flat_lib False 2 None = (Ok ?w, Some [])" by (simp add: wal_open_def ex_opened_def)
  have f: "finish_recovery flat_lib False 0 0 (snd (recover flat_lib 0 ?w), []) = (Ok (), ex_opened)"
    by (simp add: finish_recovery_def compact_inner_def recover_def ex_opened_def prune_completed_early_def
        compacted_records_def flat_lib_def Let_def)
  have r0: "wal_run flat_lib True ex_opened" by (rule wal_run.opened [OF o f])
  have c: "mark_completed flat_lib Append_ok False 5 0 0 5 [(''s1'', ''e1'')] ex_opened = (Ok (), ex_early)"
    by (simp add: ex_early_def prod_eq_iff) (simp add: mark_completed_def ex_opened_def append_records_def Let_def complete_one_def)
  have m: "mark_pending flat_lib Append_ok 7 [(''s1'', ''e1''), (''s2'', ''e2'')] ex_early = (Ok (), ex_late)"
    by (simp add: ex_late_def prod_eq_iff) (simp add: mark_pending_def append_records_def split_beta Let_def)
  have "True \<and> length (wal_completed_early (fst ex_opened)) + length [(''s1'', ''e1'')] \<le> EARLY_COMPLETION_CAP"
    by (simp add: ex_opened_def EARLY_COMPLETION_CAP_def)
  then show ?thesis using wal_run.pending [OF wal_run.completed [OF r0 c] m] by simp
qed

theorem replay_agrees_with_memory_witness:
  "wal_lib_ok flat_lib \<and> wal_run flat_lib True (fst ex_late, snd ex_late) \<and>
    map_of (read_pending_index flat_lib (snd ex_late)) = [(''s2'', ''e2'') \<mapsto> 7]"
proof -
  have r: "wal_run flat_lib True (fst ex_late, snd ex_late)" using ex_late_run by simp
  have "wal_pending (fst ex_late) = [((''s2'', ''e2''), 7)]"
    by (simp add: ex_late_def ex_early_def ex_opened_def mark_pending_def mark_completed_def append_records_def
        split_beta Let_def complete_one_def index_pending_def EARLY_COMPLETION_CAP_def)
  then show ?thesis using replay_agrees_with_memory [OF flat_lib_ok r] flat_lib_ok r by simp
qed

end
