(* ===== verification/RG_Upstream.thy ===== *)
theory RG_Upstream
  imports RG_Shares
begin

text \<open>
  Template polling and the share relay, \<open>services/sv2-gateway/src/upstream.rs\<close>. The HTTP client
  is outside the repository: what it answers to a request is an argument, a response with its
  status and decoded body or one of the failures the code tells apart. The relay of one share is
  the retry loop with the delays it sleeps; the poller is what one tick does with its answer.
\<close>

section \<open>Polling\<close>

record TemplateResponse =
  tr_template_id :: u64
  tr_block_height :: u32
  tr_block_version :: u32
  tr_prev_hash :: string
  tr_nbits :: u32
  tr_min_ntime :: u32
  tr_curtime :: u32
  tr_coinbase_value :: u64
  tr_coinbase_tx_prefix :: string
  tr_coinbase_tx_suffix :: string
  tr_merkle_path :: "string list"
  tr_tx_count :: u32
  tr_total_fees :: u64
  tr_source_instance_id :: string
  tr_observed_weight :: "u64 option"
  tr_template_weight :: "u64 option"
  tr_total_sigops :: "u32 option"
  tr_coinbase_sigops :: "u32 option"
  tr_raw_block_hex :: "string option"

datatype http_failure = Timed_out string | Connect_failed string | Request_failed string

datatype 'a http_answer = Response (http_status: u16) (http_body: "string + 'a") | No_response http_failure

definition is_success :: "u16 \<Rightarrow> bool" where
  "is_success status \<longleftrightarrow> 200 \<le> status \<and> status < 300"

definition is_client_error :: "u16 \<Rightarrow> bool" where
  "is_client_error status \<longleftrightarrow> 400 \<le> status \<and> status < 500"

text \<open>
  One tick of the poller: the template it sends on, if any, and the reachability flag. A body
  that does not parse changes nothing, not even the flag.
\<close>

definition poll_tick :: "TemplateResponse http_answer \<Rightarrow> bool \<Rightarrow> TemplateResponse option \<times> bool" where
  "poll_tick answer upstream_reachable =
     (case answer of
        Response status body \<Rightarrow>
          if is_success status then
            (case body of
               Inr template \<Rightarrow> (Some template, True)
             | Inl _ \<Rightarrow> (None, upstream_reachable))
          else (None, False)
      | No_response _ \<Rightarrow> (None, False))"

section \<open>Relay\<close>

record ShareUpstreamResponse =
  ur_accepted :: bool
  ur_reason :: "string option"

record ShareForwardResult =
  sf_share_id_hex :: string
  sf_event_id_hex :: string
  sf_forwarded :: bool
  sf_upstream_accepted :: "bool option"
  sf_upstream_http_status :: "u16 option"
  sf_upstream_error :: "string option"
  sf_reason_code :: "string option"

datatype ForwardErrorCategory = FE_Timeout | FE_Connect | FE_Non200 | FE_Malformed

fun category_as_str :: "ForwardErrorCategory \<Rightarrow> string" where
  "category_as_str FE_Timeout = ''timeout''"
| "category_as_str FE_Connect = ''connect''"
| "category_as_str FE_Non200 = ''non_200''"
| "category_as_str FE_Malformed = ''malformed''"

definition forward_result ::
  "ShareSubmission \<Rightarrow> bool \<Rightarrow> bool option \<Rightarrow> u16 option \<Rightarrow> string option \<Rightarrow> string option \<Rightarrow> ShareForwardResult" where
  "forward_result share forwarded upstream_accepted status err reason =
     \<lparr>sf_share_id_hex = ss_share_id_hex share, sf_event_id_hex = ss_event_id_hex share,
      sf_forwarded = forwarded, sf_upstream_accepted = upstream_accepted,
      sf_upstream_http_status = status, sf_upstream_error = err, sf_reason_code = reason\<rparr>"

text \<open>What one attempt decides: a final result, or the error to remember before the next attempt.\<close>

definition attempt_outcome ::
  "ShareSubmission \<Rightarrow> ShareUpstreamResponse http_answer \<Rightarrow> string + ShareForwardResult" where
  "attempt_outcome share answer =
     (case answer of
        Response status body \<Rightarrow>
          if is_success status then
            (case body of
               Inr upstream_resp \<Rightarrow>
                 let reason = (if ur_accepted upstream_resp then None else ur_reason upstream_resp)
                 in Inr (forward_result share True (Some (ur_accepted upstream_resp)) (Some status) reason
                      (if ur_accepted upstream_resp then None
                       else Some (gateway_as_str GR_ShareUpstreamRejected)))
             | Inl e \<Rightarrow> Inl (''malformed response: '' @ e))
          else if is_client_error status then
            Inr (forward_result share True (Some False) (Some status)
              (Some (''HTTP '' @ show_word status @ '' (non-retryable)''))
              (Some (gateway_as_str GR_ShareForwardFailed)))
          else Inl (''HTTP '' @ show_word status)
      | No_response (Timed_out e) \<Rightarrow> Inl (''timeout: '' @ e)
      | No_response (Connect_failed e) \<Rightarrow> Inl (''connect: '' @ e)
      | No_response (Request_failed e) \<Rightarrow> Inl (''request: '' @ e))"

text \<open>Milliseconds slept before an attempt; \<open>2u32.saturating_pow\<close> saturates at \<open>u32::MAX\<close>.\<close>

definition retry_delay :: "nat \<Rightarrow> nat" where
  "retry_delay attempt = 100 * min (2 ^ (attempt - 1)) (2 ^ 32 - 1)"

fun forward_loop ::
  "ShareSubmission \<Rightarrow> (nat \<Rightarrow> ShareUpstreamResponse http_answer) \<Rightarrow> nat \<Rightarrow> nat \<Rightarrow> string option
    \<Rightarrow> nat list \<times> ShareForwardResult" where
  "forward_loop share answers attempt 0 last_error =
     ([], forward_result share False None None last_error (Some (gateway_as_str GR_ShareForwardFailed)))"
| "forward_loop share answers attempt (Suc left) last_error =
     (let slept = (if 0 < attempt then [retry_delay attempt] else []) in
      case attempt_outcome share (answers attempt) of
        Inr result \<Rightarrow> (slept, result)
      | Inl e \<Rightarrow>
          let (delays, result) = forward_loop share answers (Suc attempt) left (Some e)
          in (slept @ delays, result))"

definition forward_share_with_retries ::
  "ShareSubmission \<Rightarrow> (nat \<Rightarrow> ShareUpstreamResponse http_answer) \<Rightarrow> u32 \<Rightarrow> nat list \<times> ShareForwardResult" where
  "forward_share_with_retries share answers max_retries =
     forward_loop share answers 0 (Suc (unat max_retries)) None"

section \<open>What the relay reports\<close>

lemma forward_result_keys [simp]:
  "sf_share_id_hex (forward_result share f a s e r) = ss_share_id_hex share"
  "sf_event_id_hex (forward_result share f a s e r) = ss_event_id_hex share"
  "sf_forwarded (forward_result share f a s e r) = f"
  "sf_upstream_accepted (forward_result share f a s e r) = a"
  by (simp_all add: forward_result_def)

text \<open>The loop reports the first decisive answer, or the last error when there is none.\<close>

lemma forward_loop_decisive:
  assumes "i < n" and "\<And>j. j < i \<Longrightarrow> isl (attempt_outcome share (answers (a + j)))"
    and "attempt_outcome share (answers (a + i)) = Inr result"
  shows "snd (forward_loop share answers a n err) = result"
  using assms
proof (induction i arbitrary: a n err)
  case 0
  then show ?case by (cases n) (simp_all add: Let_def)
next
  case (Suc i)
  then obtain m where n: "n = Suc m" "i < m" by (cases n) auto
  obtain e where e: "attempt_outcome share (answers a) = Inl e" using Suc.prems(2) [of 0] by (auto simp: isl_def)
  have "snd (forward_loop share answers (Suc a) m (Some e)) = result"
    using Suc.prems(2) [of "Suc _"] Suc.prems(3) by (intro Suc.IH n(2)) simp_all
  then show ?case by (simp add: n(1) e Let_def split_beta)
qed

lemma forward_loop_exhausted:
  assumes "\<And>j. j < n \<Longrightarrow> isl (attempt_outcome share (answers (a + j)))"
  shows "\<exists>err'. snd (forward_loop share answers a n err) =
      forward_result share False None None err' (Some (gateway_as_str GR_ShareForwardFailed)) \<and>
    (n = 0 \<longrightarrow> err' = err) \<and> (\<forall>m. n = Suc m \<longrightarrow> attempt_outcome share (answers (a + m)) = Inl (the err') \<and> err' \<noteq> None)"
  using assms
proof (induction n arbitrary: a err)
  case (Suc n)
  obtain e where e: "attempt_outcome share (answers a) = Inl e" using Suc.prems [of 0] by (auto simp: isl_def)
  have "isl (attempt_outcome share (answers (Suc a + j)))" if "j < n" for j using Suc.prems [of "Suc j"] that by simp
  from Suc.IH [OF this, of "Some e"] show ?case by (cases n) (auto simp: e Let_def split_beta)
qed simp

lemma attempt_outcome_keys:
  "attempt_outcome share answer = Inr result \<Longrightarrow>
    sf_share_id_hex result = ss_share_id_hex share \<and> sf_event_id_hex result = ss_event_id_hex share"
  by (auto simp: attempt_outcome_def Let_def split: http_answer.splits http_failure.splits sum.splits option.splits if_splits)

lemma forward_loop_keys:
  "sf_share_id_hex (snd (forward_loop share answers a n err)) = ss_share_id_hex share \<and>
    sf_event_id_hex (snd (forward_loop share answers a n err)) = ss_event_id_hex share"
proof (induction n arbitrary: a err)
  case (Suc n)
  then show ?case
    by (cases "attempt_outcome share (answers a)") (auto simp: Let_def split_beta dest: attempt_outcome_keys)
qed simp

text \<open>The sleeps are those of the attempts made after the first, and there are at most \<open>n\<close> attempts.\<close>

lemma forward_loop_delays:
  "\<exists>m\<le>n. fst (forward_loop share answers a n err) = map retry_delay [max 1 a..<a + m]"
proof (induction n arbitrary: a err)
  case (Suc n)
  show ?case
  proof (cases "attempt_outcome share (answers a)")
    case (Inl e)
    obtain m where m: "m \<le> n" "fst (forward_loop share answers (Suc a) n (Some e)) = map retry_delay [Suc a..<Suc a + m]"
      using Suc.IH [of "Suc a" "Some e"] by auto
    have "map retry_delay [a..<a + Suc m] = retry_delay a # map retry_delay [Suc a..<Suc a + m]"
      by (simp add: upt_conv_Cons del: upt_Suc)
    then have "fst (forward_loop share answers a (Suc n) err) = map retry_delay [max 1 a..<a + Suc m]"
      using m Inl by (cases a) (simp_all add: Let_def split_beta del: upt_Suc)
    then show ?thesis using m(1) by (intro exI [of _ "Suc m"]) simp
  next
    case (Inr r)
    then have "fst (forward_loop share answers a (Suc n) err) = map retry_delay [max 1 a..<a + 1]"
      by (cases a) (simp_all add: Let_def)
    then show ?thesis by (intro exI [of _ 1]) simp
  qed
qed simp

end
