(* ===== verification/RG_Accounting.thy ===== *)
theory RG_Accounting
  imports RG_Wal RG_Upstream
begin

text \<open>
  The accounting stream, \<open>services/sv2-gateway/src/accounting.rs\<close>, and the recovery at startup of
  \<open>main.rs\<close>. A queue is the list of what is waiting in it, the emitted lines are a list that
  grows at its end, and an event stands for its JSON line: serializing these records cannot
  fail. The write-ahead log is optional, as in the code; its state is the pair of index and file.
  The process may stop at any point: the relation \<open>accounting_run\<close> has a rule for every place
  where a stop leaves something different behind.
\<close>

section \<open>Lines\<close>

datatype share_line = Line1 ShareAcceptedEvent | Line2 ShareForwardResultEvent

type_synonym shared_wal = "(ShareWal \<times> string) option"

definition is_accepted :: "ShareAcceptedEvent \<Rightarrow> bool" where
  "is_accepted evt \<longleftrightarrow> sa_sv2_response evt = ''success''"

definition accepted_key :: "ShareAcceptedEvent \<Rightarrow> wal_key" where
  "accepted_key evt = (sa_share_id_hex evt, sa_event_id_hex evt)"

definition result_key :: "ShareForwardResult \<Rightarrow> wal_key" where
  "result_key r = (sf_share_id_hex r, sf_event_id_hex r)"

definition forward_key :: "ShareForwardResultEvent \<Rightarrow> wal_key" where
  "forward_key evt = (fr_share_id_hex evt, fr_event_id_hex evt)"

definition forward_event :: "u64 \<Rightarrow> ShareForwardResult \<Rightarrow> ShareForwardResultEvent" where
  "forward_event unix_ms_now r =
     from_relay unix_ms_now (sf_share_id_hex r) (sf_event_id_hex r) (sf_forwarded r) (sf_upstream_accepted r)
       (sf_upstream_http_status r) (sf_upstream_error r) (sf_reason_code r)"

section \<open>The two arms of the main loop\<close>

text \<open>What the surroundings decide for one batch: the clocks and the outcome of the writes.\<close>

record batch_env =
  be_append :: append_io
  be_compact_fails :: bool
  be_now :: u64
  be_arrived :: nat
  be_compact_at :: nat
  be_rewritten_at :: u64

definition with_wal ::
  "(ShareWal \<times> string \<Rightarrow> (unit + unit) \<times> ShareWal \<times> string) \<Rightarrow> shared_wal \<Rightarrow> (unit + unit) \<times> shared_wal" where
  "with_wal f wal =
     (case wal of
        None \<Rightarrow> (Ok (), None)
      | Some st \<Rightarrow> let (r, st') = f st in (r, Some st'))"

definition record_accepted ::
  "wal_lib \<Rightarrow> batch_env \<Rightarrow> ShareAcceptedEvent list \<Rightarrow> ShareAcceptedEvent \<Rightarrow> shared_wal \<Rightarrow> share_line list
    \<Rightarrow> ShareAcceptedEvent list \<times> ShareAcceptedEvent list \<times> (unit + unit) \<times> shared_wal \<times> share_line list" where
  "record_accepted L be rx first_event wal emitted =
     (let (events, rx') = take_queued rx first_event;
          emitted = emitted @ map Line1 (filter (\<lambda>evt. \<not> is_accepted evt) events);
          accepted = map accepted_key (filter is_accepted events);
          (recorded, wal') =
            (if accepted = [] then (Ok (), wal)
             else with_wal (mark_pending L (be_append be) (be_now be) accepted) wal)
      in case recorded of
           Inl e \<Rightarrow> (events, rx', Err e, wal', emitted)
         | Inr _ \<Rightarrow> (events, rx', Ok (), wal', emitted @ map Line1 (filter is_accepted events)))"

definition record_forwarded ::
  "wal_lib \<Rightarrow> batch_env \<Rightarrow> ShareForwardResult list \<Rightarrow> ShareForwardResult \<Rightarrow> shared_wal \<Rightarrow> share_line list
    \<Rightarrow> ShareForwardResult list \<times> ShareForwardResult list \<times> (unit + unit) \<times> shared_wal \<times> share_line list" where
  "record_forwarded L be rx first_result wal emitted =
     (let (results, rx') = take_queued rx first_result;
          emitted = emitted @ map (Line2 \<circ> forward_event (be_now be)) results;
          (recorded, wal') =
            with_wal (mark_completed L (be_append be) (be_compact_fails be) (be_now be) (be_arrived be)
              (be_compact_at be) (be_rewritten_at be) (map result_key results)) wal
      in (results, rx', recorded, wal', emitted))"

section \<open>Draining on stop\<close>

text \<open>
  The queues as one pass of the drain finds them, with what its surroundings decide: whether the
  deadline has passed when the pass starts, what the handlers that are still stopping have sent
  by then, and the two batches' clocks and writes. The drain returns when the deadline has
  passed, when the log fails, or when a pass finds both queues empty; \<open>None\<close> says that the list
  of passes ended before it returned.
\<close>

datatype drain_error = Drain_timed_out nat nat | Drain_wal_failed

record drain_pass =
  dp_deadline_passed :: bool
  dp_events :: "ShareAcceptedEvent list"
  dp_results :: "ShareForwardResult list"
  dp_event_env :: batch_env
  dp_result_env :: batch_env

record drain_state =
  ds_events :: "ShareAcceptedEvent list"
  ds_results :: "ShareForwardResult list"
  ds_wal :: shared_wal
  ds_emitted :: "share_line list"
  ds_drained_events :: nat
  ds_drained_results :: nat

definition drain_events :: "wal_lib \<Rightarrow> batch_env \<Rightarrow> drain_state \<Rightarrow> (unit + unit) \<times> drain_state" where
  "drain_events L be d =
     (case ds_events d of
        [] \<Rightarrow> (Ok (), d)
      | first_event # rx \<Rightarrow>
          let (batch, rx', recorded, wal', emitted') = record_accepted L be rx first_event (ds_wal d) (ds_emitted d)
          in (recorded, d\<lparr>ds_events := rx', ds_wal := wal', ds_emitted := emitted',
                          ds_drained_events := ds_drained_events d + length batch\<rparr>))"

definition drain_results :: "wal_lib \<Rightarrow> batch_env \<Rightarrow> drain_state \<Rightarrow> (unit + unit) \<times> drain_state" where
  "drain_results L be d =
     (case ds_results d of
        [] \<Rightarrow> (Ok (), d)
      | first_result # rx \<Rightarrow>
          let (batch, rx', recorded, wal', emitted') = record_forwarded L be rx first_result (ds_wal d) (ds_emitted d)
          in (recorded, d\<lparr>ds_results := rx', ds_wal := wal', ds_emitted := emitted',
                          ds_drained_results := ds_drained_results d + length batch\<rparr>))"

fun drain_on_stop :: "wal_lib \<Rightarrow> drain_pass list \<Rightarrow> drain_state \<Rightarrow> ((drain_error + unit) \<times> drain_state) option" where
  "drain_on_stop L [] d = None"
| "drain_on_stop L (pass # passes) d =
     (let d = d\<lparr>ds_events := ds_events d @ dp_events pass, ds_results := ds_results d @ dp_results pass\<rparr> in
      if dp_deadline_passed pass
      then Some (Err (Drain_timed_out (length (ds_events d)) (length (ds_results d))), d)
      else
        case drain_events L (dp_event_env pass) d of
          (Inl _, d') \<Rightarrow> Some (Err Drain_wal_failed, d')
        | (Inr _, d') \<Rightarrow>
            (case drain_results L (dp_result_env pass) d' of
               (Inl _, d'') \<Rightarrow> Some (Err Drain_wal_failed, d'')
             | (Inr _, d'') \<Rightarrow>
                 if ds_events d = [] \<and> ds_results d = [] then Some (Ok (), d'')
                 else drain_on_stop L passes d''))"

section \<open>Startup\<close>

text \<open>
  \<open>main\<close> opens the log, emits the synthetic lines and only then lets the orphans go. A failed
  compaction is reported and otherwise ignored; a log that does not open is not used.
\<close>

definition startup ::
  "wal_lib \<Rightarrow> bool \<Rightarrow> bool \<Rightarrow> u64 \<Rightarrow> nat \<Rightarrow> u64 \<Rightarrow> nat \<Rightarrow> string option \<Rightarrow> share_line list
    \<Rightarrow> shared_wal \<times> share_line list" where
  "startup L open_fails compact_fails unix_ms_now instant rewritten_at threshold disk emitted =
     (case wal_open L open_fails threshold disk of
        (Inr w, Some content) \<Rightarrow>
          let (recovery, w') = recover L unix_ms_now w;
              (_, st) = finish_recovery L compact_fails instant rewritten_at (w', content)
          in (Some st, emitted @ map Line2 (rec_synthetic_events recovery))
      | _ \<Rightarrow> (None, emitted))"

section \<open>Runs with stops\<close>

record accounting =
  ac_wal :: "ShareWal option"
  ac_disk :: "string option"
  ac_lines :: "share_line list"

text \<open>
  \<open>ac_wal\<close> is \<open>None\<close> while no process runs. A write or a compaction that fails ends the process,
  as in \<open>main\<close>, so \<open>accepted\<close> and \<open>forwarded\<close> cover a stop inside the write as well; the
  \<open>stopped\<close> rules are the stops between lines. A process that could not compact at startup runs
  on only from a whole file here: \<open>torn_startup_loses\<close> shows why.
\<close>

definition rejected_lines :: "ShareAcceptedEvent list \<Rightarrow> share_line list" where
  "rejected_lines events = map Line1 (filter (\<lambda>evt. \<not> is_accepted evt) events)"

definition accepted_lines :: "ShareAcceptedEvent list \<Rightarrow> share_line list" where
  "accepted_lines events = map Line1 (filter is_accepted events)"

inductive accounting_run :: "wal_lib \<Rightarrow> accounting \<Rightarrow> bool" for L where
  fresh: "accounting_run L \<lparr>ac_wal = None, ac_disk = None, ac_lines = []\<rparr>"
| started: "accounting_run L \<lparr>ac_wal = None, ac_disk = d, ac_lines = ls\<rparr> \<Longrightarrow>
    startup L False compact_fails now instant rewritten_at threshold d ls = (Some (w, content), ls') \<Longrightarrow>
    (compact_fails \<Longrightarrow> whole content) \<Longrightarrow>
    accounting_run L \<lparr>ac_wal = Some w, ac_disk = Some content, ac_lines = ls'\<rparr>"
| start_stopped: "accounting_run L \<lparr>ac_wal = None, ac_disk = d, ac_lines = ls\<rparr> \<Longrightarrow>
    wal_open L False threshold d = (Ok w, d') \<Longrightarrow>
    accounting_run L \<lparr>ac_wal = None, ac_disk = d',
      ac_lines = ls @ map Line2 (take n (rec_synthetic_events (fst (recover L now w))))\<rparr>"
| accepted: "accounting_run L \<lparr>ac_wal = Some w, ac_disk = Some content, ac_lines = ls\<rparr> \<Longrightarrow>
    record_accepted L be rx evt (Some (w, content)) ls = (events, rx', recorded, Some (w', content'), ls') \<Longrightarrow>
    accounting_run L \<lparr>ac_wal = (if isl recorded then None else Some w'), ac_disk = Some content', ac_lines = ls'\<rparr>"
| accepted_stopped: "accounting_run L \<lparr>ac_wal = Some w, ac_disk = Some content, ac_lines = ls\<rparr> \<Longrightarrow>
    record_accepted L be rx evt (Some (w, content)) ls = (events, rx', Ok (), Some (w', content'), ls') \<Longrightarrow>
    accounting_run L \<lparr>ac_wal = None, ac_disk = Some content',
      ac_lines = ls @ rejected_lines events @ take n (accepted_lines events)\<rparr>"
| rejected_stopped: "accounting_run L \<lparr>ac_wal = Some w, ac_disk = Some content, ac_lines = ls\<rparr> \<Longrightarrow>
    accounting_run L \<lparr>ac_wal = None, ac_disk = Some content, ac_lines = ls @ take n (rejected_lines events)\<rparr>"
| forwarded: "accounting_run L \<lparr>ac_wal = Some w, ac_disk = Some content, ac_lines = ls\<rparr> \<Longrightarrow>
    record_forwarded L be rx res (Some (w, content)) ls = (results, rx', recorded, Some (w', content'), ls') \<Longrightarrow>
    accounting_run L \<lparr>ac_wal = (if isl recorded then None else Some w'), ac_disk = Some content', ac_lines = ls'\<rparr>"
| forwarded_stopped: "accounting_run L \<lparr>ac_wal = Some w, ac_disk = Some content, ac_lines = ls\<rparr> \<Longrightarrow>
    accounting_run L \<lparr>ac_wal = None, ac_disk = Some content,
      ac_lines = ls @ take n (map (Line2 \<circ> forward_event now) results)\<rparr>"
| stopped: "accounting_run L \<lparr>ac_wal = Some w, ac_disk = d, ac_lines = ls\<rparr> \<Longrightarrow>
    accounting_run L \<lparr>ac_wal = None, ac_disk = d, ac_lines = ls\<rparr>"

section \<open>What is owed\<close>

definition owing :: "share_line list \<Rightarrow> wal_key set" where
  "owing ls = {accepted_key e | e. Line1 e \<in> set ls \<and> is_accepted e}"

definition joined :: "share_line list \<Rightarrow> wal_key set" where
  "joined ls = {forward_key e | e. Line2 e \<in> set ls}"

lemma owing_append [simp]: "owing (a @ b) = owing a \<union> owing b"
  by (auto simp: owing_def)

lemma joined_append [simp]: "joined (a @ b) = joined a \<union> joined b"
  by (auto simp: joined_def)

lemma owing_lines [simp]:
  "owing [] = {}"
  "owing (rejected_lines events) = {}" "owing (map Line2 fs) = {}"
  "owing (accepted_lines events) = set (map accepted_key (filter is_accepted events))"
  by (auto simp: owing_def rejected_lines_def accepted_lines_def)

lemma joined_lines [simp]:
  "joined [] = {}"
  "joined (rejected_lines events) = {}" "joined (accepted_lines events) = {}" "joined (map Line2 fs) = forward_key ` set fs"
  by (auto simp: joined_def rejected_lines_def accepted_lines_def)

lemma owing_take: "owing (take n ls) \<subseteq> owing ls"
  by (auto simp: owing_def dest: in_set_takeD)

lemma forward_event_keys [simp]: "forward_key (forward_event now r) = result_key r" "forward_key (synthetic_event now k) = k"
  by (simp_all add: forward_key_def forward_event_def from_relay_def result_key_def synthetic_event_def)

text \<open>
  On disk: a share that is owed has a pending record, and a completed record names a share that
  has its line. In memory: a share that is owed is pending, and one that completed early has its line.
\<close>

definition disk_inv :: "WalRecord list \<Rightarrow> share_line list \<Rightarrow> bool" where
  "disk_inv rs ls \<longleftrightarrow>
     (\<forall>k\<in>owing ls - joined ls. \<exists>r\<in>set rs. wr_status r = Pending \<and> record_key r = k) \<and>
     (\<forall>r\<in>set rs. wr_status r = Completed \<longrightarrow> record_key r \<in> joined ls)"

definition pending_keys :: "ShareWal \<Rightarrow> wal_key set" where
  "pending_keys w = fst ` set (wal_pending w)"

definition early_keys :: "ShareWal \<Rightarrow> wal_key set" where
  "early_keys w = fst ` set (wal_completed_early w)"

definition memory_inv :: "ShareWal \<Rightarrow> share_line list \<Rightarrow> bool" where
  "memory_inv w ls \<longleftrightarrow>
     owing ls - joined ls \<subseteq> pending_keys w \<and> early_keys w \<subseteq> joined ls"

definition accounting_inv :: "wal_lib \<Rightarrow> accounting \<Rightarrow> bool" where
  "accounting_inv L s \<longleftrightarrow>
     disk_inv (case ac_disk s of None \<Rightarrow> [] | Some content \<Rightarrow> wal_records L content) (ac_lines s) \<and>
     (case ac_wal s of None \<Rightarrow> True
      | Some w \<Rightarrow> memory_inv w (ac_lines s) \<and> (\<exists>content. ac_disk s = Some content \<and> whole content))"

lemma pending_survives:
  assumes "k \<notin> snd v" and "\<And>r. r \<in> set rs \<Longrightarrow> wr_status r = Completed \<Longrightarrow> record_key r \<noteq> k"
    and "k \<in> dom (fst v) \<or> (\<exists>r\<in>set rs. wr_status r = Pending \<and> record_key r = k)"
  shows "k \<in> dom (fst (fold view_step rs v))"
  using assms
proof (induction rs arbitrary: v)
  case (Cons r rs)
  obtain P E where v: "v = (P, E)" by fastforce
  have "k \<notin> snd (view_step r v)"
    using Cons.prems(1,2) by (cases "wr_status r") (auto simp: v Let_def)
  moreover have "k \<in> dom (fst (view_step r v)) \<or> (\<exists>r\<in>set rs. wr_status r = Pending \<and> record_key r = k)"
    using Cons.prems by (cases "wr_status r") (auto simp: v Let_def)
  ultimately show ?case using Cons.IH [of "view_step r v"] Cons.prems(2) by simp
qed simp

lemma dom_read_pending_index: "fst ` set (read_pending_index L content) = dom (fst (file_view L content))"
  by (simp add: dom_map_of_conv_image_fst flip: read_pending_index_view)

lemma owed_is_replayed:
  assumes "disk_inv (wal_records L content) ls"
  shows "owing ls - joined ls \<subseteq> fst ` set (read_pending_index L content)"
proof
  fix k assume k: "k \<in> owing ls - joined ls"
  then show "k \<in> fst ` set (read_pending_index L content)"
    unfolding dom_read_pending_index file_view_def
    using assms by (intro pending_survives) (auto simp: disk_inv_def)
qed

lemma disk_inv_extend:
  assumes "disk_inv rs ls" and "set rs \<subseteq> set rs'" and "joined ls \<subseteq> joined ls'"
    and "\<And>k. k \<in> owing ls' - owing ls \<Longrightarrow> \<exists>r\<in>set rs'. wr_status r = Pending \<and> record_key r = k"
    and "\<And>r. r \<in> set rs' - set rs \<Longrightarrow> wr_status r = Completed \<Longrightarrow> record_key r \<in> joined ls'"
  shows "disk_inv rs' ls'"
  unfolding disk_inv_def
proof (intro conjI ballI impI)
  fix k assume k: "k \<in> owing ls' - joined ls'"
  show "\<exists>r\<in>set rs'. wr_status r = Pending \<and> record_key r = k"
  proof (cases "k \<in> owing ls")
    case True
    then have "k \<in> owing ls - joined ls" using k assms(3) by auto
    then show ?thesis using assms(1,2) unfolding disk_inv_def by blast
  qed (use k assms(4) in blast)
next
  fix r assume "r \<in> set rs'" "wr_status r = Completed"
  then show "record_key r \<in> joined ls'" using assms(1,3,5) unfolding disk_inv_def by blast
qed

lemma append_failed:
  assumes ok: "wal_lib_ok L" and "whole disk" and "append_records L io rs disk = (r, disk')"
  shows "\<exists>m. wal_records L disk' = wal_records L disk @ take m rs"
proof (cases io)
  case Append_ok
  then have "r = Ok ()" using assms(3) by (auto simp: append_records_def split: if_splits)
  then show ?thesis using append_ok(3) [OF ok assms(2)] assms(3) by (intro exI [of _ "length rs"]) simp
next
  case (Append_fails n)
  obtain m where "wal_records L (take n (render L rs)) = take m rs" using wal_records_torn [OF ok] by blast
  then show ?thesis using assms Append_fails
    by (cases "rs = []") (auto simp: append_records_def wal_records_append)
qed

lemma pending_records:
  "wr_status r = Pending" "record_key r \<in> set ks" if "r \<in> set (map (wal_record Pending now) ks)" for r
  using that by auto

text \<open>The batch of \<open>mark_pending\<close> in memory.\<close>

lemma index_fold_keys:
  "pending_keys w \<union> {k. (k, False) \<in> set kcs} \<subseteq> pending_keys (fold (index_pending now) kcs w) \<and>
    early_keys (fold (index_pending now) kcs w) \<subseteq> early_keys w"
proof (induction kcs arbitrary: w)
  case (Cons kc kcs)
  have "pending_keys w \<union> {k. (k, False) = kc} \<subseteq> pending_keys (index_pending now kc w)"
    "early_keys (index_pending now kc w) \<subseteq> early_keys w"
    by (auto simp: index_pending_def dom_update delete_dom split_beta pending_keys_def early_keys_def)
  moreover have "{k. (k, False) \<in> set (kc # kcs)} = {k. (k, False) = kc} \<union> {k. (k, False) \<in> set kcs}" by auto
  ultimately show ?case using Cons [of "index_pending now kc w"] by simp blast
qed simp

lemma consume_early_flags:
  "length (consume_early early consumed keys) = length keys"
  "(k, True) \<in> set (zip keys (consume_early early consumed keys)) \<Longrightarrow> map_of early k \<noteq> None"
  by (induction keys arbitrary: consumed) (auto simp: Let_def)

lemma mark_pending_memory:
  assumes m: "mark_pending L io now shares (w, disk) = (Ok u, w', disk')"
  shows "pending_keys w \<subseteq> pending_keys w'"
    "early_keys w' \<subseteq> early_keys w"
    "set shares \<subseteq> pending_keys w' \<union> early_keys w"
proof -
  let ?kcs = "zip shares (consume_early (wal_completed_early w) [] shares)"
  note w' = mark_pending_ok(2) [OF m] and f = index_fold_keys [of w ?kcs now]
  show "pending_keys w \<subseteq> pending_keys w'"
    "early_keys w' \<subseteq> early_keys w"
    using f unfolding w' by blast+
  show "set shares \<subseteq> pending_keys w' \<union> early_keys w"
  proof
    fix k assume "k \<in> set shares"
    then obtain c where c: "(k, c) \<in> set ?kcs"
      using consume_early_flags(1) [of "wal_completed_early w" "[]" shares]
      by (metis in_set_impl_in_set_zip1)
    show "k \<in> pending_keys w' \<union> early_keys w"
    proof (cases c)
      case True
      then show ?thesis
        using c consume_early_flags(2) [of k shares "wal_completed_early w" "[]"]
        by (simp add: early_keys_def map_of_eq_None_iff)
    next
      case False
      then have "(k, False) \<in> set ?kcs" using c by simp
      then show ?thesis using f unfolding w' by blast
    qed
  qed
qed

lemma complete_fold_keys:
  "pending_keys w - set ks \<subseteq> pending_keys (fold (complete_one t) ks w) \<and>
    early_keys (fold (complete_one t) ks w) \<subseteq> early_keys w \<union> set ks"
proof (induction ks arbitrary: w)
  case (Cons k ks)
  have "pending_keys w - {k} \<subseteq> pending_keys (complete_one t k w)"
    "early_keys (complete_one t k w) \<subseteq> insert k (early_keys w)"
    by (auto simp: complete_one_def delete_dom dom_update pending_keys_def early_keys_def)
  then show ?case using Cons [of "complete_one t k w"] by simp blast
qed simp

lemma completed_not_pending: "k \<in> set ks \<Longrightarrow> k \<notin> pending_keys (fold (complete_one t) ks w)"
proof -
  have one: "pending_keys (complete_one t k w) = pending_keys w - {k}" for k w
  proof -
    have "map_of (wal_pending w) k = None \<longleftrightarrow> k \<notin> pending_keys w" by (simp only: map_of_eq_None_iff pending_keys_def)
    then show ?thesis by (simp add: complete_one_def) (simp add: pending_keys_def delete_dom)
  qed
  have "pending_keys (fold (complete_one t) ks w) = pending_keys w - set ks" for ks w
    by (induction ks arbitrary: w) (auto simp: one)
  then show "k \<in> set ks \<Longrightarrow> k \<notin> pending_keys (fold (complete_one t) ks w)" by blast
qed

lemma mark_completed_pending:
  "pending_keys (fst (snd (mark_completed L io cf now arrived ca t ks (w, disk)))) = pending_keys (fold (complete_one arrived) ks w)"
  by (auto simp: mark_completed_def compact_inner_def prune_completed_early_def pending_keys_def Let_def split: prod.splits sum.splits)

text \<open>A forward result settles its share, in the log and in the stream.\<close>

lemma record_forwarded_settles:
  assumes "record_forwarded L be rx res (Some (w, content)) ls = (results, rx', recorded, Some (w', content'), ls')"
  shows "result_key res \<notin> pending_keys w' \<and> (\<exists>f. Line2 f \<in> set ls' \<and> forward_key f = result_key res)"
proof -
  have "res \<in> set (fst (take_queued rx res))" by (simp add: take_queued_eq WAL_BATCH_MAX_def)
  then have res: "result_key res \<in> set (map result_key (fst (take_queued rx res)))"
    "Line2 (forward_event (be_now be) res) \<in> set (map (Line2 \<circ> forward_event (be_now be)) (fst (take_queued rx res)))"
    by simp_all
  have out: "ls' = ls @ map (Line2 \<circ> forward_event (be_now be)) (fst (take_queued rx res))"
    "snd (mark_completed L (be_append be) (be_compact_fails be) (be_now be) (be_arrived be) (be_compact_at be)
      (be_rewritten_at be) (map result_key (fst (take_queued rx res))) (w, content)) = (w', content')"
    using assms by (auto simp: record_forwarded_def with_wal_def Let_def split_beta)
  have "Line2 (forward_event (be_now be) res) \<in> set ls'" using res(2) unfolding out(1) set_append by blast
  moreover have "result_key res \<notin> pending_keys w'"
    using completed_not_pending [OF res(1)] mark_completed_pending out(2) by (metis fst_conv)
  ultimately show ?thesis using forward_event_keys(1) by blast
qed

section \<open>Every step keeps what is owed\<close>

lemma joined_take: "joined ls = {} \<Longrightarrow> joined (take n ls) = {}"
  by (auto simp: joined_def dest: in_set_takeD)

lemma disk_inv_shrink: "disk_inv rs ls \<Longrightarrow> owing ls' \<subseteq> owing ls \<Longrightarrow> joined ls' = joined ls \<Longrightarrow> disk_inv rs ls'"
  by (auto simp: disk_inv_def)

lemma memory_inv_lines:
  "memory_inv w ls \<Longrightarrow> owing ls' = owing ls \<Longrightarrow> joined ls \<subseteq> joined ls' \<Longrightarrow> memory_inv w ls'"
  by (auto simp: memory_inv_def)

lemma disk_inv_lines:
  "disk_inv rs ls \<Longrightarrow> owing ls' = owing ls \<Longrightarrow> joined ls \<subseteq> joined ls' \<Longrightarrow> disk_inv rs ls'"
  by (rule disk_inv_extend) auto

lemma mark_pending_owed:
  assumes ok: "wal_lib_ok L" and inv: "disk_inv (wal_records L disk) ls" "memory_inv w ls" "whole disk"
    and m: "mark_pending L io now shares (w, disk) = (recorded, w', disk')"
    and ls': "owing ls' \<subseteq> owing ls \<union> (if isl recorded then {} else set shares)" "joined ls' = joined ls"
  shows "disk_inv (wal_records L disk') ls'" and "\<not> isl recorded \<Longrightarrow> memory_inv w' ls' \<and> whole disk'"
proof -
  obtain r where a: "append_records L io (map (wal_record Pending now) shares) disk = (r, disk')" "isl r = isl recorded"
    using m by (auto simp: mark_pending_def Let_def split: prod.splits sum.splits)
  obtain k where k: "wal_records L disk' = wal_records L disk @ take k (map (wal_record Pending now) shares)"
    using append_failed [OF ok inv(3) a(1)] by blast
  show "disk_inv (wal_records L disk') ls'"
  proof (rule disk_inv_extend [OF inv(1)])
    show "set (wal_records L disk) \<subseteq> set (wal_records L disk')" "joined ls \<subseteq> joined ls'"
      using k ls'(2) by auto
    show "record_key r \<in> joined ls'" if "r \<in> set (wal_records L disk') - set (wal_records L disk)" "wr_status r = Completed" for r
      using that k by (auto dest!: in_set_takeD)
    show "\<exists>r\<in>set (wal_records L disk'). wr_status r = Pending \<and> record_key r = key" if "key \<in> owing ls' - owing ls" for key
    proof -
      have nl: "\<not> isl recorded" and key: "key \<in> set shares" using that ls'(1) by (auto split: if_splits)
      then obtain u where "append_records L io (map (wal_record Pending now) shares) disk = (Ok u, disk')"
        using a by (cases r) auto
      from append_ok(3) [OF ok inv(3) this] show ?thesis using key by (auto intro!: bexI [of _ "wal_record Pending now key"])
    qed
  qed
  show "memory_inv w' ls' \<and> whole disk'" if nl: "\<not> isl recorded"
  proof -
    obtain u where u: "recorded = Ok u" using nl by (cases recorded) auto
    note mp = m [unfolded u]
    have "whole disk'" by (rule append_ok(1) [OF ok inv(3) mark_pending_ok(1) [OF mp]])
    moreover have "memory_inv w' ls'"
      using mark_pending_memory [OF mp] inv(2) ls' nl unfolding memory_inv_def by (simp add: u) blast
    ultimately show ?thesis by blast
  qed
qed

lemma compact_owed:
  assumes ok: "wal_lib_ok L" and inv: "memory_inv w ls" and c: "compact_inner L False now t (w, disk) = (r, w', disk')"
  shows "disk_inv (wal_records L disk') ls" "memory_inv w' ls" "whole disk'"
proof -
  let ?p = "prune_completed_early now w"
  have e: "w' = ?p\<lparr>wal_completed_since_compaction := 0\<rparr>" "disk' = render L (compacted_records L t ?p)"
    using c by (simp_all add: compact_inner_def Let_def)
  have keys: "pending_keys ?p = pending_keys w" "early_keys ?p \<subseteq> early_keys w"
    by (auto simp: pending_keys_def early_keys_def prune_completed_early_def)
  have w': "pending_keys w' = pending_keys ?p" "early_keys w' = early_keys ?p"
    by (simp_all add: e pending_keys_def early_keys_def)
  show "whole disk'" by (simp add: e)
  show "memory_inv w' ls" using inv keys unfolding memory_inv_def w' by blast
  show "disk_inv (wal_records L disk') ls"
    unfolding e(2) wal_records_render [OF ok] disk_inv_def
  proof (intro conjI ballI impI)
    fix k assume "k \<in> owing ls - joined ls"
    then have "k \<in> set (wl_order L (map fst (wal_pending ?p)))"
      using inv keys(1) by (auto simp: memory_inv_def order_set [OF ok] pending_keys_def)
    then show "\<exists>r\<in>set (compacted_records L t ?p). wr_status r = Pending \<and> record_key r = k"
      by (intro bexI [of _ "wal_record Pending (the (map_of (wal_pending ?p) k)) k"]) (auto simp: compacted_records_def)
  next
    fix r assume "r \<in> set (compacted_records L t ?p)" "wr_status r = Completed"
    then have "record_key r \<in> early_keys ?p"
      by (force simp: compacted_records_def early_keys_def order_set [OF ok])
    then show "record_key r \<in> joined ls" using keys(2) inv by (auto simp: memory_inv_def)
  qed
qed

lemma mark_completed_owed:
  assumes ok: "wal_lib_ok L" and inv: "disk_inv (wal_records L disk) ls" "memory_inv w ls" "whole disk"
    and m: "mark_completed L io cf now arrived compact_at t shares (w, disk) = (recorded, w', disk')"
    and ls: "set shares \<subseteq> joined ls"
  shows "disk_inv (wal_records L disk') ls" and "\<not> isl recorded \<Longrightarrow> memory_inv w' ls \<and> whole disk'"
proof -
  let ?rs = "map (wal_record Completed now) shares" and ?w = "fold (complete_one arrived) shares w"
  let ?w1 = "?w\<lparr>wal_completed_since_compaction := wal_completed_since_compaction ?w + length shares\<rparr>"
  obtain r disk1 where a: "append_records L io ?rs disk = (r, disk1)" by fastforce
  obtain k where k: "wal_records L disk1 = wal_records L disk @ take k ?rs" using append_failed [OF ok inv(3) a] by blast
  have d1: "disk_inv (wal_records L disk1) ls"
  proof (rule disk_inv_extend [OF inv(1)])
    show "record_key r \<in> joined ls" if "r \<in> set (wal_records L disk1) - set (wal_records L disk)" for r
    proof -
      have "r \<in> set ?rs" using that k by (auto dest: in_set_takeD)
      then show ?thesis using ls by auto
    qed
  qed (use k in auto)
  have "pending_keys ?w1 = pending_keys ?w" "early_keys ?w1 = early_keys ?w" by (simp_all add: pending_keys_def early_keys_def)
  then have w1: "memory_inv ?w1 ls"
    using inv(2) ls complete_fold_keys [of w shares arrived] unfolding memory_inv_def by simp blast
  have "disk_inv (wal_records L disk') ls \<and> (\<not> isl recorded \<longrightarrow> memory_inv w' ls \<and> whole disk')"
  proof (cases r)
    case (Inl e)
    then have "disk' = disk1" "isl recorded" using m a by (auto simp: mark_completed_def Let_def)
    then show ?thesis using d1 by simp
  next
    case (Inr u)
    have wh: "whole disk1" by (rule append_ok(1) [OF ok inv(3) a [unfolded Inr]])
    let ?full = "0 < wal_compaction_threshold ?w1 \<and> wal_compaction_threshold ?w1 \<le> wal_completed_since_compaction ?w1"
    show ?thesis
    proof (cases ?full)
      case True
      then have c: "compact_inner L cf compact_at t (?w1, disk1) = (recorded, w', disk')"
        using m a Inr by (simp add: mark_completed_def Let_def)
      show ?thesis
      proof (cases cf)
        case True
        then have "disk' = disk1" "isl recorded" using c by (auto simp: compact_inner_def Let_def)
        then show ?thesis using d1 by simp
      next
        case False
        then show ?thesis using compact_owed [OF ok w1] c by simp
      qed
    next
      case False
      then have "disk' = disk1" "w' = ?w1" using m a Inr by (auto simp: mark_completed_def Let_def)
      then show ?thesis using d1 w1 wh by simp
    qed
  qed
  then show "disk_inv (wal_records L disk') ls" and "\<not> isl recorded \<Longrightarrow> memory_inv w' ls \<and> whole disk'" by blast+
qed

lemma wal_open_ok:
  assumes "wal_open L False threshold d = (Ok w, d')"
  shows "d' = Some (case d of None \<Rightarrow> [] | Some content \<Rightarrow> content)"
    "wal_pending w = read_pending_index L (the d')" "wal_completed_early w = []"
  using assms by (auto simp: wal_open_def read_pending_index_def split: option.splits)

lemma synthetic_keys:
  "wal_lib_ok L \<Longrightarrow> forward_key ` set (rec_synthetic_events (fst (recover L now w))) = pending_keys w"
  by (simp add: recover_def image_image order_set pending_keys_def)

lemma startup_joins_all:
  assumes ok: "wal_lib_ok L"
    and d: "disk_inv (case d of None \<Rightarrow> [] | Some content \<Rightarrow> wal_records L content) ls"
    and s: "startup L False cf now instant t threshold d ls = (Some (w, content), ls')"
  shows "owing ls' = owing ls" "joined ls \<subseteq> joined ls'" "owing ls' \<subseteq> joined ls'" "memory_inv w ls'"
    "disk_inv (wal_records L content) ls'" "\<not> cf \<Longrightarrow> whole content"
proof -
  let ?c = "case d of None \<Rightarrow> [] | Some content \<Rightarrow> content"
  obtain w0 where o: "wal_open L False threshold d = (Ok w0, Some ?c)" by (simp add: wal_open_def)
  note w0 = wal_open_ok [OF o]
  have ls': "ls' = ls @ map Line2 (rec_synthetic_events (fst (recover L now w0)))"
    and f: "snd (finish_recovery L cf instant t (snd (recover L now w0), ?c)) = (w, content)"
    using s by (auto simp: startup_def o split_beta Let_def)
  have dc: "disk_inv (wal_records L ?c) ls" using d by (simp split: option.splits)
  have j: "joined ls' = joined ls \<union> pending_keys w0" and ow: "owing ls' = owing ls"
    by (simp_all add: ls' synthetic_keys [OF ok])
  show "owing ls' = owing ls" by (fact ow)
  show "joined ls \<subseteq> joined ls'" using j by blast
  show all: "owing ls' \<subseteq> joined ls'"
    using owed_is_replayed [OF dc] w0(2) unfolding j ow by (auto simp: pending_keys_def)
  have m0: "memory_inv (snd (recover L now w0)) ls'"
    using all w0(3) by (auto simp: memory_inv_def recover_def early_keys_def)
  show "memory_inv w ls'" "disk_inv (wal_records L content) ls'" "\<not> cf \<Longrightarrow> whole content"
  proof (atomize (full), cases cf)
    case True
    then have "content = ?c" "w = prune_completed_early instant (snd (recover L now w0))"
      using f by (auto simp: finish_recovery_def compact_inner_def Let_def)
    then show "memory_inv w ls' \<and> disk_inv (wal_records L content) ls' \<and> (\<not> cf \<longrightarrow> whole content)"
      using True dc all w0(3) disk_inv_lines [OF dc ow] j
      by (auto simp: memory_inv_def early_keys_def recover_def prune_completed_early_def)
  next
    case False
    then have "compact_inner L False instant t (snd (recover L now w0), ?c) =
        (fst (compact_inner L False instant t (snd (recover L now w0), ?c)), w, content)"
      using f by (simp add: finish_recovery_def prod_eq_iff)
    then show "memory_inv w ls' \<and> disk_inv (wal_records L content) ls' \<and> (\<not> cf \<longrightarrow> whole content)"
      using compact_owed [OF ok m0] by blast
  qed
qed

lemma record_accepted_owed:
  assumes ok: "wal_lib_ok L" and inv: "disk_inv (wal_records L disk) ls" "memory_inv w ls" "whole disk"
    and r: "record_accepted L be rx evt (Some (w, disk)) ls = (events, rx', recorded, Some (w', disk'), ls')"
  shows "disk_inv (wal_records L disk') ls'" "\<not> isl recorded \<Longrightarrow> memory_inv w' ls' \<and> whole disk'"
    "\<not> isl recorded \<Longrightarrow> ls' = ls @ rejected_lines events @ accepted_lines events"
proof -
  let ?keys = "map accepted_key (filter is_accepted events)"
  have rec: "recorded = fst (if ?keys = [] then (Ok (), w, disk) else mark_pending L (be_append be) (be_now be) ?keys (w, disk))"
    "(w', disk') = snd (if ?keys = [] then (Ok (), w, disk) else mark_pending L (be_append be) (be_now be) ?keys (w, disk))"
    "ls' = ls @ rejected_lines events @ (if isl recorded then [] else accepted_lines events)"
    using r by (auto simp: record_accepted_def Let_def split_beta with_wal_def rejected_lines_def accepted_lines_def
        split: sum.splits if_splits)
  have ow: "owing ls' \<subseteq> owing ls \<union> (if isl recorded then {} else set ?keys)" "joined ls' = joined ls"
    by (simp_all add: rec(3))
  have "disk_inv (wal_records L disk') ls' \<and> (\<not> isl recorded \<longrightarrow> memory_inv w' ls' \<and> whole disk')"
  proof (cases "?keys = []")
    case True
    then have "w' = w" "disk' = disk" "owing ls' = owing ls" using rec by simp_all
    then show ?thesis using inv ow(2) disk_inv_lines [OF inv(1)] memory_inv_lines [OF inv(2)] by simp
  next
    case False
    then have "mark_pending L (be_append be) (be_now be) ?keys (w, disk) = (recorded, w', disk')"
      using rec(1,2) by (simp add: prod_eq_iff)
    from mark_pending_owed [OF ok inv this ow] show ?thesis by blast
  qed
  then show "disk_inv (wal_records L disk') ls'" "\<not> isl recorded \<Longrightarrow> memory_inv w' ls' \<and> whole disk'" by blast+
  show "\<not> isl recorded \<Longrightarrow> ls' = ls @ rejected_lines events @ accepted_lines events" by (simp add: rec(3))
qed

lemma record_forwarded_owed:
  assumes ok: "wal_lib_ok L" and inv: "disk_inv (wal_records L disk) ls" "memory_inv w ls" "whole disk"
    and r: "record_forwarded L be rx res (Some (w, disk)) ls = (results, rx', recorded, Some (w', disk'), ls')"
  shows "disk_inv (wal_records L disk') ls'" "\<not> isl recorded \<Longrightarrow> memory_inv w' ls' \<and> whole disk'"
proof -
  have ls': "ls' = ls @ map Line2 (map (forward_event (be_now be)) results)"
    and m: "mark_completed L (be_append be) (be_compact_fails be) (be_now be) (be_arrived be) (be_compact_at be)
      (be_rewritten_at be) (map result_key results) (w, disk) = (recorded, w', disk')"
    using r by (auto simp: record_forwarded_def Let_def split_beta with_wal_def prod_eq_iff)
  have ow: "owing ls' = owing ls" and j: "joined ls' = joined ls \<union> result_key ` set results"
    by (simp_all add: ls' image_image del: map_map)
  have i: "disk_inv (wal_records L disk) ls'" "memory_inv w ls'"
    using disk_inv_lines [OF inv(1) ow] memory_inv_lines [OF inv(2) ow] j by blast+
  show "disk_inv (wal_records L disk') ls'" "\<not> isl recorded \<Longrightarrow> memory_inv w' ls' \<and> whole disk'"
    using mark_completed_owed [OF ok i(1,2) inv(3) m] j by simp_all
qed

lemma accounting_run_inv:
  assumes ok: "wal_lib_ok L"
  shows "accounting_run L s \<Longrightarrow> accounting_inv L s"
proof (induction rule: accounting_run.induct)
  case fresh
  then show ?case by (simp add: accounting_inv_def disk_inv_def owing_def)
next
  case (started d ls cf now instant t threshold w content ls')
  then have "disk_inv (case d of None \<Rightarrow> [] | Some content \<Rightarrow> wal_records L content) ls" by (simp add: accounting_inv_def)
  from startup_joins_all [OF ok this started(2)] started(3) show ?case by (auto simp: accounting_inv_def)
next
  case (start_stopped d ls threshold w d' n now)
  have i: "disk_inv (case d of None \<Rightarrow> [] | Some content \<Rightarrow> wal_records L content) ls"
    using start_stopped by (simp add: accounting_inv_def)
  have "disk_inv (wal_records L (the d')) ls"
    using i wal_open_ok(1) [OF start_stopped(2)] by (simp split: option.splits)
  then have "disk_inv (wal_records L (the d')) (ls @ map Line2 (take n (rec_synthetic_events (fst (recover L now w)))))"
    by (rule disk_inv_lines) auto
  then show ?case using wal_open_ok(1) [OF start_stopped(2)] by (simp add: accounting_inv_def)
next
  case (accepted w content ls be rx evt events rx' recorded w' content' ls')
  then show ?case using record_accepted_owed [OF ok _ _ _ accepted(2)] by (simp add: accounting_inv_def)
next
  case (accepted_stopped w content ls be rx evt events rx' w' content' ls' n)
  have i: "disk_inv (wal_records L content') ls'" "ls' = ls @ rejected_lines events @ accepted_lines events"
    using accepted_stopped record_accepted_owed [OF ok _ _ _ accepted_stopped(2)] by (simp_all add: accounting_inv_def)
  have "disk_inv (wal_records L content') (ls @ rejected_lines events @ take n (accepted_lines events))"
    by (rule disk_inv_shrink [OF i(1)])
      (use owing_take [of n "accepted_lines events"] in \<open>auto simp: i(2) joined_take\<close>)
  then show ?case by (simp add: accounting_inv_def)
next
  case (rejected_stopped w content ls n events)
  have "owing (take n (rejected_lines events)) = {}" using owing_take [of n "rejected_lines events"] by simp
  then show ?case using rejected_stopped by (auto simp: accounting_inv_def intro: disk_inv_lines)
next
  case (forwarded w content ls be rx res results rx' recorded w' content' ls')
  then show ?case using record_forwarded_owed [OF ok _ _ _ forwarded(2)] by (simp add: accounting_inv_def)
next
  case (forwarded_stopped w content ls n now results)
  have "owing (take n (map (Line2 \<circ> forward_event now) results)) = {}"
    by (auto simp: owing_def dest: in_set_takeD)
  then show ?case using forwarded_stopped by (auto simp: accounting_inv_def intro: disk_inv_lines)
next
  case (stopped w d ls)
  then show ?case by (auto simp: accounting_inv_def)
qed

section \<open>The drain\<close>

text \<open>A batch with the line of every event in it, and nothing else.\<close>

lemma set_event_lines: "set (rejected_lines events @ accepted_lines events) = Line1 ` set events"
  by (auto simp: rejected_lines_def accepted_lines_def)

lemma record_accepted_lines:
  assumes "record_accepted L be rx evt wal ls = (events, rx', Ok u, wal', ls')"
  shows "events = take WAL_BATCH_MAX (evt # rx)" "rx' = drop WAL_BATCH_MAX (evt # rx)"
    "ls' = ls @ rejected_lines events @ accepted_lines events"
  using assms
  by (auto simp: record_accepted_def take_queued_eq Let_def split_beta rejected_lines_def accepted_lines_def
      split: sum.splits)

lemma record_forwarded_lines:
  assumes "record_forwarded L be rx res wal ls = (results, rx', recorded, wal', ls')"
  shows "results = take WAL_BATCH_MAX (res # rx)" "rx' = drop WAL_BATCH_MAX (res # rx)"
    "ls' = ls @ map (Line2 \<circ> forward_event (be_now be)) results"
  using assms by (auto simp: record_forwarded_def take_queued_eq Let_def split_beta)

lemma drain_events_ok:
  assumes "drain_events L be d = (Ok u, d')"
  shows "ds_events d' = drop WAL_BATCH_MAX (ds_events d)" "ds_results d' = ds_results d"
    "ds_drained_events d' = ds_drained_events d + length (take WAL_BATCH_MAX (ds_events d))"
    "ds_drained_results d' = ds_drained_results d"
    "\<exists>ls. ds_emitted d' = ds_emitted d @ ls \<and> set ls = Line1 ` set (take WAL_BATCH_MAX (ds_events d))"
proof -
  have "ds_events d' = drop WAL_BATCH_MAX (ds_events d) \<and> ds_results d' = ds_results d \<and>
    ds_drained_events d' = ds_drained_events d + length (take WAL_BATCH_MAX (ds_events d)) \<and>
    ds_drained_results d' = ds_drained_results d \<and>
    (\<exists>ls. ds_emitted d' = ds_emitted d @ ls \<and> set ls = Line1 ` set (take WAL_BATCH_MAX (ds_events d)))"
  proof (cases "ds_events d")
    case Nil
    then show ?thesis using assms by (simp add: drain_events_def)
  next
    case (Cons evt rx)
    obtain batch rx' wal' ls' where r: "record_accepted L be rx evt (ds_wal d) (ds_emitted d) = (batch, rx', Ok u, wal', ls')"
      and d': "d' = d\<lparr>ds_events := rx', ds_wal := wal', ds_emitted := ls',
        ds_drained_events := ds_drained_events d + length batch\<rparr>"
      using assms Cons by (auto simp: drain_events_def Let_def split_beta prod_eq_iff)
    note b = record_accepted_lines [OF r]
    show ?thesis using b set_event_lines [of batch] by (simp add: d' Cons)
  qed
  then show "ds_events d' = drop WAL_BATCH_MAX (ds_events d)" "ds_results d' = ds_results d"
    "ds_drained_events d' = ds_drained_events d + length (take WAL_BATCH_MAX (ds_events d))"
    "ds_drained_results d' = ds_drained_results d"
    "\<exists>ls. ds_emitted d' = ds_emitted d @ ls \<and> set ls = Line1 ` set (take WAL_BATCH_MAX (ds_events d))"
    by blast+
qed

lemma drain_results_ok:
  assumes "drain_results L be d = (Ok u, d')"
  shows "ds_results d' = drop WAL_BATCH_MAX (ds_results d)" "ds_events d' = ds_events d"
    "ds_drained_results d' = ds_drained_results d + length (take WAL_BATCH_MAX (ds_results d))"
    "ds_drained_events d' = ds_drained_events d"
    "ds_emitted d' = ds_emitted d @ map (Line2 \<circ> forward_event (be_now be)) (take WAL_BATCH_MAX (ds_results d))"
proof -
  have "ds_results d' = drop WAL_BATCH_MAX (ds_results d) \<and> ds_events d' = ds_events d \<and>
    ds_drained_results d' = ds_drained_results d + length (take WAL_BATCH_MAX (ds_results d)) \<and>
    ds_drained_events d' = ds_drained_events d \<and>
    ds_emitted d' = ds_emitted d @ map (Line2 \<circ> forward_event (be_now be)) (take WAL_BATCH_MAX (ds_results d))"
  proof (cases "ds_results d")
    case Nil
    then show ?thesis using assms by (simp add: drain_results_def)
  next
    case (Cons res rx)
    obtain batch rx' wal' ls' where r: "record_forwarded L be rx res (ds_wal d) (ds_emitted d) = (batch, rx', Ok u, wal', ls')"
      and d': "d' = d\<lparr>ds_results := rx', ds_wal := wal', ds_emitted := ls',
        ds_drained_results := ds_drained_results d + length batch\<rparr>"
      using assms Cons by (auto simp: drain_results_def Let_def split_beta prod_eq_iff)
    show ?thesis using record_forwarded_lines [OF r] by (simp add: d' Cons)
  qed
  then show "ds_results d' = drop WAL_BATCH_MAX (ds_results d)" "ds_events d' = ds_events d"
    "ds_drained_results d' = ds_drained_results d + length (take WAL_BATCH_MAX (ds_results d))"
    "ds_drained_events d' = ds_drained_events d"
    "ds_emitted d' = ds_emitted d @ map (Line2 \<circ> forward_event (be_now be)) (take WAL_BATCH_MAX (ds_results d))"
    by blast+
qed

definition has_lines :: "ShareAcceptedEvent list \<Rightarrow> ShareForwardResult list \<Rightarrow> share_line list \<Rightarrow> bool" where
  "has_lines events results ls \<longleftrightarrow>
     (\<forall>e\<in>set events. Line1 e \<in> set ls) \<and> (\<forall>r\<in>set results. \<exists>now. Line2 (forward_event now r) \<in> set ls)"

lemma has_lines_append:
  "has_lines ea ra la \<Longrightarrow> has_lines eb rb lb \<Longrightarrow> has_lines (ea @ eb) (ra @ rb) (la @ lb)"
  by (fastforce simp: has_lines_def)

lemma drain_pass_ok:
  assumes "drain_events L be d = (Ok u, d1)" and "drain_results L be' d1 = (Ok u', d2)"
  obtains ls where "ds_events d2 = drop WAL_BATCH_MAX (ds_events d)" "ds_results d2 = drop WAL_BATCH_MAX (ds_results d)"
    "ds_drained_events d2 = ds_drained_events d + length (take WAL_BATCH_MAX (ds_events d))"
    "ds_drained_results d2 = ds_drained_results d + length (take WAL_BATCH_MAX (ds_results d))"
    "ds_emitted d2 = ds_emitted d @ ls" "has_lines (take WAL_BATCH_MAX (ds_events d)) (take WAL_BATCH_MAX (ds_results d)) ls"
proof -
  note e = drain_events_ok [OF assms(1)] and r = drain_results_ok [OF assms(2)]
  obtain l1 where l1: "ds_emitted d1 = ds_emitted d @ l1" "set l1 = Line1 ` set (take WAL_BATCH_MAX (ds_events d))"
    using e(5) by blast
  let ?l2 = "map (Line2 \<circ> forward_event (be_now be')) (take WAL_BATCH_MAX (ds_results d))"
  have "has_lines (take WAL_BATCH_MAX (ds_events d)) (take WAL_BATCH_MAX (ds_results d)) (l1 @ ?l2)"
    using l1(2) by (auto simp: has_lines_def)
  then show thesis using e r l1(1) by (intro that [of "l1 @ ?l2"]) simp_all
qed

lemma drain_done:
  assumes "drain_on_stop L passes d = Some (Ok (), d')"
  shows "\<exists>n ls. ds_events d' = [] \<and> ds_results d' = [] \<and>
    ds_drained_events d' = ds_drained_events d + length (ds_events d @ concat (map dp_events (take n passes))) \<and>
    ds_drained_results d' = ds_drained_results d + length (ds_results d @ concat (map dp_results (take n passes))) \<and>
    ds_emitted d' = ds_emitted d @ ls \<and>
    has_lines (ds_events d @ concat (map dp_events (take n passes))) (ds_results d @ concat (map dp_results (take n passes))) ls"
  using assms
proof (induction passes arbitrary: d)
  case (Cons p ps)
  let ?d = "d\<lparr>ds_events := ds_events d @ dp_events p, ds_results := ds_results d @ dp_results p\<rparr>"
  let ?B = WAL_BATCH_MAX
  obtain u d1 where e: "drain_events L (dp_event_env p) ?d = (Ok u, d1)"
    using Cons.prems by (auto simp: Let_def split: if_splits prod.splits sum.splits)
  obtain u' d2 where r: "drain_results L (dp_result_env p) d1 = (Ok u', d2)"
    using Cons.prems e by (auto simp: Let_def split: if_splits prod.splits sum.splits)
  obtain ls where p: "ds_events d2 = drop ?B (ds_events ?d)" "ds_results d2 = drop ?B (ds_results ?d)"
    "ds_drained_events d2 = ds_drained_events ?d + length (take ?B (ds_events ?d))"
    "ds_drained_results d2 = ds_drained_results ?d + length (take ?B (ds_results ?d))"
    "ds_emitted d2 = ds_emitted ?d @ ls" "has_lines (take ?B (ds_events ?d)) (take ?B (ds_results ?d)) ls"
    using drain_pass_ok [OF e r] by metis
  show ?case
  proof (cases "ds_events ?d = [] \<and> ds_results ?d = []")
    case True
    then have "d' = d2" using Cons.prems e r by (simp add: Let_def split: if_splits)
    then show ?thesis using p True by (intro exI [of _ 0] exI [of _ ls]) simp
  next
    case False
    then have "drain_on_stop L ps d2 = Some (Ok (), d')" using Cons.prems e r by (auto simp: Let_def split: if_splits)
    from Cons.IH [OF this] obtain n ls' where n: "ds_events d' = []" "ds_results d' = []"
      "ds_drained_events d' = ds_drained_events d2 + length (ds_events d2 @ concat (map dp_events (take n ps)))"
      "ds_drained_results d' = ds_drained_results d2 + length (ds_results d2 @ concat (map dp_results (take n ps)))"
      "ds_emitted d' = ds_emitted d2 @ ls'"
      "has_lines (ds_events d2 @ concat (map dp_events (take n ps))) (ds_results d2 @ concat (map dp_results (take n ps))) ls'"
      by metis
    have all: "take ?B xs @ drop ?B xs @ zs = xs @ zs" for xs zs :: "'a list" by simp
    have "has_lines (ds_events ?d @ concat (map dp_events (take n ps))) (ds_results ?d @ concat (map dp_results (take n ps))) (ls @ ls')"
      using has_lines_append [OF p(6) n(6)] by (simp only: p all)
    moreover have "ds_drained_events d' = ds_drained_events d + length (ds_events ?d @ concat (map dp_events (take n ps)))"
      "ds_drained_results d' = ds_drained_results d + length (ds_results ?d @ concat (map dp_results (take n ps)))"
      unfolding n(3,4) p(1-4) by simp_all
    ultimately show ?thesis using n(1,2,5) p(5) by (intro exI [of _ "Suc n"] exI [of _ "ls @ ls'"]) simp
  qed
qed simp

text \<open>Writes that succeed keep the drain going.\<close>

definition calm :: "drain_pass \<Rightarrow> bool" where
  "calm p \<longleftrightarrow> \<not> dp_deadline_passed p \<and> dp_events p = [] \<and> dp_results p = [] \<and>
     be_append (dp_event_env p) = Append_ok \<and> be_append (dp_result_env p) = Append_ok \<and> \<not> be_compact_fails (dp_result_env p)"

lemma with_wal_ok: "(\<And>st. \<not> isl (fst (f st))) \<Longrightarrow> \<not> isl (fst (with_wal f wal))"
  by (simp add: with_wal_def split_beta Let_def split: option.splits)

lemma mark_pending_succeeds: "\<not> isl (fst (mark_pending L Append_ok now shares st))"
  by (simp add: mark_pending_def append_records_def split_beta Let_def split: sum.splits)

lemma mark_completed_succeeds: "\<not> isl (fst (mark_completed L Append_ok False now arrived c t shares st))"
  by (simp add: mark_completed_def compact_inner_def append_records_def split_beta Let_def split: sum.splits)

lemma drain_pass_succeeds:
  assumes "calm p"
  shows "\<exists>d1. drain_events L (dp_event_env p) d = (Ok (), d1)" "\<exists>d1. drain_results L (dp_result_env p) d = (Ok (), d1)"
proof -
  have "\<not> isl (fst (drain_events L (dp_event_env p) d))"
    using assms with_wal_ok [of "mark_pending L Append_ok n ks" for n ks] mark_pending_succeeds
    by (auto simp: drain_events_def record_accepted_def calm_def split_beta Let_def isl_def split: list.splits sum.splits)
  then show "\<exists>d1. drain_events L (dp_event_env p) d = (Ok (), d1)"
    by (cases "drain_events L (dp_event_env p) d"; cases "fst (drain_events L (dp_event_env p) d)") auto
  have "\<not> isl (fst (drain_results L (dp_result_env p) d))"
    using assms with_wal_ok [of "mark_completed L Append_ok False n a c t ks" for n a c t ks] mark_completed_succeeds
    by (auto simp: drain_results_def record_forwarded_def calm_def split_beta Let_def split: list.splits)
  then show "\<exists>d1. drain_results L (dp_result_env p) d = (Ok (), d1)"
    by (cases "drain_results L (dp_result_env p) d"; cases "fst (drain_results L (dp_result_env p) d)") auto
qed

lemma drain_returns:
  assumes "\<forall>p\<in>set passes. calm p" and "length (ds_events d) + length (ds_results d) < length passes"
  shows "\<exists>d'. drain_on_stop L passes d = Some (Ok (), d')"
  using assms
proof (induction passes arbitrary: d)
  case (Cons p ps)
  have c: "\<not> dp_deadline_passed p" "dp_events p = []" "dp_results p = []" using Cons.prems(1) by (simp_all add: calm_def)
  obtain d1 where e: "drain_events L (dp_event_env p) d = (Ok (), d1)"
    using drain_pass_succeeds(1) [of p L d] Cons.prems(1) by auto
  obtain d2 where r: "drain_results L (dp_result_env p) d1 = (Ok (), d2)"
    using drain_pass_succeeds(2) [of p L d1] Cons.prems(1) by auto
  have same: "d\<lparr>ds_events := ds_events d @ dp_events p, ds_results := ds_results d @ dp_results p\<rparr> = d"
    using c by (cases d) simp
  have q: "ds_events d2 = drop WAL_BATCH_MAX (ds_events d)" "ds_results d2 = drop WAL_BATCH_MAX (ds_results d)"
    using drain_pass_ok [OF e r] by metis+
  show ?case
  proof (cases "ds_events d = [] \<and> ds_results d = []")
    case True
    then show ?thesis unfolding drain_on_stop.simps same Let_def using c e r by simp
  next
    case False
    then have "length (ds_events d2) + length (ds_results d2) < length ps"
      using Cons.prems(2) by (auto simp: q WAL_BATCH_MAX_def neq_Nil_conv)
    then obtain d' where "drain_on_stop L ps d2 = Some (Ok (), d')" using Cons by auto
    then show ?thesis unfolding drain_on_stop.simps same Let_def using c e r False by auto
  qed
qed simp

section \<open>Examples\<close>

definition ex_event :: "string \<Rightarrow> ShareAcceptedEvent" where
  "ex_event name =
     \<lparr>sa_event_type = ''share_accepted'', sa_share_id_hex = name, sa_event_id_hex = ''e'', sa_sv2_response = ''success'',
      sa_reason_code = None, sa_reason_detail = None, sa_worker_id = ''w'', sa_channel_id = 1, sa_sequence_number = 1,
      sa_job_id = 1, sa_block_height = 1, sa_timestamp_ms = 1, sa_difficulty_u64 = 1\<rparr>"

definition ex_batch :: "append_io \<Rightarrow> batch_env" where
  "ex_batch io = \<lparr>be_append = io, be_compact_fails = False, be_now = 7, be_arrived = 0, be_compact_at = 0, be_rewritten_at = 7\<rparr>"

definition ex_empty_wal :: ShareWal where
  "ex_empty_wal = \<lparr>wal_pending = [], wal_completed_since_compaction = 0, wal_compaction_threshold = 0, wal_completed_early = []\<rparr>"

definition ex_record :: "string \<Rightarrow> WalRecord" where
  "ex_record name = wal_record Pending 7 (name, ''e'')"

lemma ex_started:
  "startup flat_lib False False 0 0 0 0 None [] = (Some (ex_empty_wal, []), [])"
  by (simp add: startup_def wal_open_def recover_def finish_recovery_def compact_inner_def prune_completed_early_def
      compacted_records_def flat_lib_def ex_empty_wal_def Let_def)

lemma ex_running: "accounting_run flat_lib \<lparr>ac_wal = Some ex_empty_wal, ac_disk = Some [], ac_lines = []\<rparr>"
  by (rule accounting_run.started [OF accounting_run.fresh ex_started]) simp

lemma ex_recorded:
  "record_accepted flat_lib (ex_batch Append_ok) [] (ex_event name) (Some (ex_empty_wal, disk)) [] =
    ([ex_event name], [], Ok (), Some (ex_empty_wal\<lparr>wal_pending := [((name, ''e''), 7)]\<rparr>, disk @ render flat_lib [ex_record name]),
     [Line1 (ex_event name)])"
  by (simp add: record_accepted_def take_queued_def is_accepted_def ex_event_def with_wal_def mark_pending_def
      append_records_def ex_batch_def accepted_key_def index_pending_def ex_empty_wal_def ex_record_def Let_def)

definition ex_owing :: accounting where
  "ex_owing = \<lparr>ac_wal = Some (ex_empty_wal\<lparr>wal_pending := [((''s'', ''e''), 7)]\<rparr>),
     ac_disk = Some (render flat_lib [ex_record ''s'']), ac_lines = [Line1 (ex_event ''s'')]\<rparr>"

lemma ex_owing_run: "accounting_run flat_lib ex_owing"
  using accounting_run.accepted [OF ex_running ex_recorded [of "''s''" "[]"]] by (simp add: ex_owing_def)

section \<open>Delivery\<close>

text \<open>C14. Event 2 is delivered at least once. Through any run of the accounting stream, with stops at
  any point and writes that tear anywhere, a share whose accepted line was emitted has a forward
  line, or the file on disk replays it as pending, so that the next start reports it.
\<close>

theorem event2_never_lost:
  assumes "wal_lib_ok L" and "accounting_run L s" and "Line1 e \<in> set (ac_lines s)" and "is_accepted e"
  shows "(\<exists>f. Line2 f \<in> set (ac_lines s) \<and> forward_key f = accepted_key e) \<or>
    (\<exists>content. ac_disk s = Some content \<and> accepted_key e \<in> fst ` set (read_pending_index L content))"
proof -
  have inv: "disk_inv (case ac_disk s of None \<Rightarrow> [] | Some content \<Rightarrow> wal_records L content) (ac_lines s)"
    using accounting_run_inv [OF assms(1,2)] by (simp add: accounting_inv_def)
  have k: "accepted_key e \<in> owing (ac_lines s)" using assms(3,4) by (auto simp: owing_def)
  show ?thesis
  proof (cases "accepted_key e \<in> joined (ac_lines s)")
    case True
    then show ?thesis by (auto simp: joined_def)
  next
    case False
    then have "\<exists>r. r \<in> set (case ac_disk s of None \<Rightarrow> [] | Some content \<Rightarrow> wal_records L content)"
      using inv k unfolding disk_inv_def by blast
    then obtain content where c: "ac_disk s = Some content" by (cases "ac_disk s") auto
    then show ?thesis using owed_is_replayed [of L content "ac_lines s"] inv k False by auto
  qed
qed

theorem event2_never_lost_witness:
  "accounting_run flat_lib ex_owing \<and> (''s'', ''e'') \<in> fst ` set (read_pending_index flat_lib (render flat_lib [ex_record ''s'']))"
  using event2_never_lost [OF flat_lib_ok ex_owing_run, of "ex_event ''s''"] ex_owing_run
  by (simp add: ex_owing_def ex_event_def is_accepted_def accepted_key_def)

text \<open>C17. A start that opens the log emits what the last process owed: afterwards every accepted line
  has a forward line, memory owes nothing, and unless the compaction failed the file is empty.
\<close>

theorem restart_settles_everything:
  assumes "wal_lib_ok L" and "accounting_run L \<lparr>ac_wal = None, ac_disk = d, ac_lines = ls\<rparr>"
    and "startup L False compact_fails now instant t threshold d ls = (Some (w, content), ls')"
  shows "(\<forall>e. Line1 e \<in> set ls' \<and> is_accepted e \<longrightarrow> (\<exists>f. Line2 f \<in> set ls' \<and> forward_key f = accepted_key e)) \<and>
    wal_pending w = [] \<and> (\<not> compact_fails \<longrightarrow> content = [])"
proof -
  have inv: "disk_inv (case d of None \<Rightarrow> [] | Some content \<Rightarrow> wal_records L content) ls"
    using accounting_run_inv [OF assms(1,2)] by (simp add: accounting_inv_def)
  have "owing ls' \<subseteq> joined ls'" by (rule startup_joins_all(3) [OF assms(1) inv assms(3)])
  then have "\<forall>e. Line1 e \<in> set ls' \<and> is_accepted e \<longrightarrow> (\<exists>f. Line2 f \<in> set ls' \<and> forward_key f = accepted_key e)"
    by (fastforce simp: owing_def joined_def)
  moreover have "wal_pending w = []" "\<not> compact_fails \<longrightarrow> content = []"
    using assms(3) order_set [OF assms(1), of "[]"]
    by (auto simp: startup_def wal_open_def recover_def finish_recovery_def compact_inner_def prune_completed_early_def
        compacted_records_def Let_def split: option.splits if_splits)
  ultimately show ?thesis by blast
qed

theorem restart_settles_everything_witness:
  "\<exists>w content ls'. startup flat_lib False False 0 0 0 0 (ac_disk ex_owing) (ac_lines ex_owing) = (Some (w, content), ls') \<and>
    (\<exists>f. Line2 f \<in> set ls' \<and> forward_key f = (''s'', ''e'')) \<and> content = []"
proof -
  let ?s = "startup flat_lib False False 0 0 0 0 (ac_disk ex_owing) (ac_lines ex_owing)"
  have r: "accounting_run flat_lib \<lparr>ac_wal = None, ac_disk = ac_disk ex_owing, ac_lines = ac_lines ex_owing\<rparr>"
    using accounting_run.stopped [of flat_lib _ "ac_disk ex_owing" "ac_lines ex_owing"] ex_owing_run
    by (simp add: ex_owing_def)
  obtain w content where s: "fst ?s = Some (w, content)"
    by (fastforce simp: startup_def wal_open_def ex_owing_def Let_def split_beta)
  then have "?s = (Some (w, content), snd ?s)" by (simp add: prod_eq_iff)
  from restart_settles_everything [OF flat_lib_ok r this] this
  have "\<exists>f. Line2 f \<in> set (snd ?s) \<and> forward_key f = accepted_key (ex_event ''s'')" "content = []"
    by (auto simp: startup_def wal_open_def ex_owing_def Let_def split_beta ex_event_def is_accepted_def)
  then show ?thesis using s by (intro exI [of _ w] exI [of _ content] exI [of _ "snd ?s"])
    (simp add: prod_eq_iff accepted_key_def ex_event_def)
qed



section \<open>A torn tail that is not compacted away\<close>

lemma ex_lines: "flat_to_string (ex_record ''s'') = ''p73,65,0700000000000000}''"
  "flat_to_string (ex_record ''t'') = ''p74,65,0700000000000000}''"
  by code_simp+

lemma ex_glued: "flat_from_str ''p7p74,65,0700000000000000}'' = None" "flat_from_str ''p7'' = None"
  by code_simp+

lemma ex_torn_records: "wal_records flat_lib ''p7'' = []" "wal_records flat_lib (''p7'' @ render flat_lib [ex_record ''t'']) = []"
proof -
  have n: "NEWLINE \<notin> set ''p7''" "NEWLINE \<notin> set ''p7p74,65,0700000000000000}''" by (simp_all add: NEWLINE_def char_eqs)
  have "buf_lines [] ''p7'' = [''p7'']" using buf_lines_tail [OF n(1), of "[]"] by (simp del: buf_lines.simps)
  then show "wal_records flat_lib ''p7'' = []"
    using ex_glued(2) by (simp add: wal_records_def read_record_def flat_lib_def del: buf_lines.simps)
  have r: "''p7'' @ render flat_lib [ex_record ''t''] = ''p7p74,65,0700000000000000}'' @ NEWLINE # []"
    by (simp add: flat_lib_def ex_lines)
  have "strip_cr ''p7p74,65,0700000000000000}'' = ''p7p74,65,0700000000000000}''"
    by (simp add: strip_cr_def CARRIAGE_RETURN_def char_eqs)
  then have "buf_lines [] (''p7'' @ render flat_lib [ex_record ''t'']) = [''p7p74,65,0700000000000000}'']"
    unfolding r buf_lines_line [OF n(2)] by simp
  then show "wal_records flat_lib (''p7'' @ render flat_lib [ex_record ''t'']) = []"
    unfolding wal_records_def using ex_glued(1) by (simp add: read_record_def flat_lib_def)
qed

text \<open>C31. A start that cannot compact a file with a torn tail, and carries on as \<open>main\<close> does, can lose
  an Event 2: the next pending record is appended to the fragment, the two are one line that is
  no record, and a stop after the accepted line leaves a share that no replay reports.
\<close>

theorem torn_startup_loses:
  "\<exists>L disk w w' content evt. wal_lib_ok L \<and>
    accounting_run L \<lparr>ac_wal = None, ac_disk = Some disk, ac_lines = []\<rparr> \<and>
    startup L False True 0 0 0 0 (Some disk) [] = (Some (w, disk), []) \<and>
    record_accepted L (ex_batch Append_ok) [] evt (Some (w, disk)) [] =
      ([evt], [], Ok (), Some (w', content), [Line1 evt]) \<and>
    is_accepted evt \<and> read_pending_index L content = []"
proof -
  let ?evt = "ex_event ''s''"
  have torn: "record_accepted flat_lib (ex_batch (Append_fails 2)) [] ?evt (Some (ex_empty_wal, [])) [] =
      ([?evt], [], Err (), Some (ex_empty_wal, ''p7''), [])"
    by (simp add: record_accepted_def take_queued_def is_accepted_def ex_event_def with_wal_def mark_pending_def
        append_records_def ex_batch_def accepted_key_def Let_def flat_lib_def ex_lines flip: ex_record_def)
  have run: "accounting_run flat_lib \<lparr>ac_wal = None, ac_disk = Some ''p7'', ac_lines = []\<rparr>"
    using accounting_run.accepted [OF ex_running torn] by simp
  have start: "startup flat_lib False True 0 0 0 0 (Some ''p7'') [] = (Some (ex_empty_wal, ''p7''), [])"
    using ex_torn_records(1)
    by (simp add: startup_def wal_open_def recover_def finish_recovery_def compact_inner_def prune_completed_early_def
        read_pending_index_def flat_lib_def ex_empty_wal_def Let_def)
  have rec: "record_accepted flat_lib (ex_batch Append_ok) [] (ex_event ''t'') (Some (ex_empty_wal, ''p7'')) [] =
      ([ex_event ''t''], [], Ok (), Some (ex_empty_wal\<lparr>wal_pending := [((''t'', ''e''), 7)]\<rparr>,
        ''p7'' @ render flat_lib [ex_record ''t'']), [Line1 (ex_event ''t'')])"
    by (rule ex_recorded)
  have "read_pending_index flat_lib (''p7'' @ render flat_lib [ex_record ''t'']) = []"
    by (simp only: read_pending_index_def ex_torn_records(2)) simp
  moreover have "is_accepted (ex_event ''t'')" by (simp add: is_accepted_def ex_event_def)
  ultimately show ?thesis using flat_lib_ok run start rec by blast
qed

end
