(* ===== verification/RG_Codec.thy ===== *)
theory RG_Codec
  imports RG_Shares
begin

text \<open>
  The SV2 message codec, \<open>services/sv2-gateway/src/sv2_codec.rs\<close>: the primitive readers and
  writers and every message's \<open>encode\<close> and \<open>decode\<close>. A reader takes the bytes that are left
  and returns the value with what is left after it, so the cursor of the code is the length of
  the remainder; a message encodes to its fields in order, the first error winning. An \<open>f32\<close>
  is only moved in and out of four bytes, so it is those bits. The locale \<open>wire_field\<close> is the
  contract of a primitive, a reader that reads back what the writer wrote and refuses every
  shorter input; the messages rest on its interpretations.
\<close>

section \<open>Errors and readers\<close>

datatype Sv2CodecError =
    BufferUnderflow (underflow_need: nat) (underflow_have: nat)
  | StringTooLong nat
  | BytesTooLong nat
  | InvalidUtf8
  | InvalidOptionTag u8

type_synonym f32 = u32
type_synonym 'a reader = "bytes \<Rightarrow> Sv2CodecError + ('a \<times> bytes)"

definition finished :: "'a \<Rightarrow> 'a reader" where
  "finished x bs = Ok (x, bs)"

definition reading :: "'a reader \<Rightarrow> ('a \<Rightarrow> 'b reader) \<Rightarrow> 'b reader" where
  "reading r k bs = and_then (r bs) (\<lambda>(x, rest). k x rest)"

definition ensure :: "nat \<Rightarrow> bytes \<Rightarrow> Sv2CodecError + unit" where
  "ensure n bs = (if length bs < n then Err (BufferUnderflow n (length bs)) else Ok ())"

definition read_bytes :: "nat \<Rightarrow> bytes reader" where
  "read_bytes n bs = and_then (ensure n bs) (\<lambda>_. Ok (take n bs, drop n bs))"

definition read_u8 :: "u8 reader" where
  "read_u8 = reading (read_bytes 1) (\<lambda>b. finished (hd b))"

definition read_u16 :: "u16 reader" where
  "read_u16 = reading (read_bytes 2) (\<lambda>b. finished (of_nat (le_val b)))"

definition read_u32 :: "u32 reader" where
  "read_u32 = reading (read_bytes 4) (\<lambda>b. finished (of_nat (le_val b)))"

definition read_u64 :: "u64 reader" where
  "read_u64 = reading (read_bytes 8) (\<lambda>b. finished (of_nat (le_val b)))"

definition read_f32 :: "f32 reader" where
  "read_f32 = reading (read_bytes 4) (\<lambda>b. finished (of_nat (le_val b)))"

definition read_u256 :: "hash32 reader" where
  "read_u256 = read_bytes 32"

text \<open>\<open>String::from_utf8\<close>: the well-formed byte sequences of the Unicode standard.\<close>

definition continuation :: "u8 \<Rightarrow> bool" where
  "continuation b \<longleftrightarrow> 0x80 \<le> b \<and> b \<le> 0xBF"

fun utf8_valid :: "bytes \<Rightarrow> bool" where
  "utf8_valid [] = True"
| "utf8_valid (a # bs) =
     (if a < 0x80 then utf8_valid bs
      else case bs of
        [] \<Rightarrow> False
      | b # cs \<Rightarrow>
          if 0xC2 \<le> a \<and> a \<le> 0xDF then continuation b \<and> utf8_valid cs
          else case cs of
            [] \<Rightarrow> False
          | c # ds \<Rightarrow>
              if a = 0xE0 then 0xA0 \<le> b \<and> b \<le> 0xBF \<and> continuation c \<and> utf8_valid ds
              else if a = 0xED then 0x80 \<le> b \<and> b \<le> 0x9F \<and> continuation c \<and> utf8_valid ds
              else if 0xE1 \<le> a \<and> a \<le> 0xEF then continuation b \<and> continuation c \<and> utf8_valid ds
              else case ds of
                [] \<Rightarrow> False
              | d # es \<Rightarrow>
                  continuation c \<and> continuation d \<and> utf8_valid es \<and>
                  (if a = 0xF0 then 0x90 \<le> b \<and> b \<le> 0xBF
                   else if a = 0xF4 then 0x80 \<le> b \<and> b \<le> 0x8F
                   else 0xF1 \<le> a \<and> a \<le> 0xF3 \<and> continuation b))"

definition read_str0_255 :: "string reader" where
  "read_str0_255 =
     reading read_u8 (\<lambda>len. reading (read_bytes (unat len)) (\<lambda>b rest.
       if utf8_valid b then Ok (of_bytes b, rest) else Err InvalidUtf8))"

definition read_b0_32 :: "bytes reader" where
  "read_b0_32 =
     reading read_u8 (\<lambda>len rest.
       if 32 < unat len then Err (BytesTooLong (unat len)) else read_bytes (unat len) rest)"

definition read_b0_255 :: "bytes reader" where
  "read_b0_255 = reading read_u8 (\<lambda>len. read_bytes (unat len))"

definition read_b0_64k :: "bytes reader" where
  "read_b0_64k = reading read_u16 (\<lambda>len. read_bytes (unat len))"

fun read_u256s :: "nat \<Rightarrow> hash32 list reader" where
  "read_u256s 0 = finished []"
| "read_u256s (Suc n) = reading read_u256 (\<lambda>h. reading (read_u256s n) (\<lambda>hs. finished (h # hs)))"

definition read_seq_u256 :: "hash32 list reader" where
  "read_seq_u256 = reading read_u8 (\<lambda>count. read_u256s (unat count))"

definition read_option_u32 :: "u32 option reader" where
  "read_option_u32 =
     reading read_u8 (\<lambda>tag rest.
       if tag = 0 then Ok (None, rest)
       else if tag = 1 then reading read_u32 (\<lambda>v. finished (Some v)) rest
       else Err (InvalidOptionTag tag))"

section \<open>Writers\<close>

definition write_u8 :: "u8 \<Rightarrow> bytes" where
  "write_u8 v = [v]"

definition write_u16 :: "u16 \<Rightarrow> bytes" where
  "write_u16 v = to_le 2 (unat v)"

definition write_u32 :: "u32 \<Rightarrow> bytes" where
  "write_u32 v = to_le 4 (unat v)"

definition write_u64 :: "u64 \<Rightarrow> bytes" where
  "write_u64 v = to_le 8 (unat v)"

definition write_f32 :: "f32 \<Rightarrow> bytes" where
  "write_f32 v = to_le 4 (unat v)"

definition write_u256 :: "hash32 \<Rightarrow> bytes" where
  "write_u256 v = v"

definition write_str0_255 :: "string \<Rightarrow> Sv2CodecError + bytes" where
  "write_str0_255 s =
     (if 255 < length s then Err (StringTooLong (length s))
      else Ok (write_u8 (of_nat (length s)) @ as_bytes s))"

definition write_b0_32 :: "bytes \<Rightarrow> Sv2CodecError + bytes" where
  "write_b0_32 b =
     (if 32 < length b then Err (BytesTooLong (length b)) else Ok (write_u8 (of_nat (length b)) @ b))"

definition write_b0_255 :: "bytes \<Rightarrow> Sv2CodecError + bytes" where
  "write_b0_255 b =
     (if 255 < length b then Err (StringTooLong (length b)) else Ok (write_u8 (of_nat (length b)) @ b))"

definition write_b0_64k :: "bytes \<Rightarrow> Sv2CodecError + bytes" where
  "write_b0_64k b =
     (if 65535 < length b then Err (StringTooLong (length b)) else Ok (write_u16 (of_nat (length b)) @ b))"

definition write_seq_u256 :: "hash32 list \<Rightarrow> Sv2CodecError + bytes" where
  "write_seq_u256 items =
     (if 255 < length items then Err (StringTooLong (length items))
      else Ok (write_u8 (of_nat (length items)) @ concat (map write_u256 items)))"

definition write_option_u32 :: "u32 option \<Rightarrow> bytes" where
  "write_option_u32 v = (case v of None \<Rightarrow> write_u8 0 | Some val \<Rightarrow> write_u8 1 @ write_u32 val)"

fun write_fields :: "(Sv2CodecError + bytes) list \<Rightarrow> Sv2CodecError + bytes" where
  "write_fields [] = Ok []"
| "write_fields (f # fs) = and_then f (\<lambda>b. and_then (write_fields fs) (\<lambda>bs. Ok (b @ bs)))"

section \<open>Messages\<close>

record SetupConnection =
  m_sc_protocol :: u8
  m_sc_min_version :: u16
  m_sc_max_version :: u16
  m_sc_flags :: u32
  m_sc_endpoint_host :: string
  m_sc_endpoint_port :: u16
  m_sc_vendor :: string
  m_sc_hardware_version :: string
  m_sc_firmware :: string
  m_sc_device_id :: string

record SetupConnectionSuccess =
  m_scs_used_version :: u16
  m_scs_flags :: u32

record SetupConnectionError =
  m_sce_flags :: u32
  m_sce_error_code :: string

record OpenStandardMiningChannel =
  m_osc_request_id :: u32
  m_osc_user_identity :: string
  m_osc_nominal_hash_rate :: f32
  m_osc_max_target :: hash32

record OpenStandardMiningChannelSuccess =
  m_oss_request_id :: u32
  m_oss_channel_id :: u32
  m_oss_target :: hash32
  m_oss_extranonce_prefix :: bytes
  m_oss_group_channel_id :: u32

record OpenMiningChannelError =
  m_ome_request_id :: u32
  m_ome_error_code :: string

record NewMiningJob =
  m_nmj_channel_id :: u32
  m_nmj_job_id :: u32
  m_nmj_min_ntime :: "u32 option"
  m_nmj_version :: u32
  m_nmj_merkle_root :: hash32

record SetNewPrevHash =
  m_snp_channel_id :: u32
  m_snp_job_id :: u32
  m_snp_prev_hash :: hash32
  m_snp_min_ntime :: u32
  m_snp_nbits :: u32

record SetTarget =
  m_st_channel_id :: u32
  m_st_maximum_target :: hash32

record SubmitSharesStandard =
  m_sss_channel_id :: u32
  m_sss_sequence_number :: u32
  m_sss_job_id :: u32
  m_sss_nonce :: u32
  m_sss_ntime :: u32
  m_sss_version :: u32

record SubmitSharesSuccess =
  m_ssu_channel_id :: u32
  m_ssu_last_sequence_number :: u32
  m_ssu_new_submits_accepted_count :: u32
  m_ssu_new_shares_sum :: u64

record SubmitSharesError =
  m_sse_channel_id :: u32
  m_sse_sequence_number :: u32
  m_sse_error_code :: string

record OpenExtendedMiningChannel =
  m_oec_request_id :: u32
  m_oec_user_identity :: string
  m_oec_nominal_hash_rate :: f32
  m_oec_max_target :: hash32
  m_oec_min_extranonce_size :: u16

record OpenExtendedMiningChannelSuccess =
  m_oes_request_id :: u32
  m_oes_channel_id :: u32
  m_oes_target :: hash32
  m_oes_extranonce_size :: u16
  m_oes_extranonce_prefix :: bytes

record NewExtendedMiningJob =
  m_nej_channel_id :: u32
  m_nej_job_id :: u32
  m_nej_min_ntime :: "u32 option"
  m_nej_version :: u32
  m_nej_version_rolling_allowed :: bool
  m_nej_merkle_path :: "hash32 list"
  m_nej_coinbase_tx_prefix :: bytes
  m_nej_coinbase_tx_suffix :: bytes

record SubmitSharesExtended =
  m_ssx_channel_id :: u32
  m_ssx_sequence_number :: u32
  m_ssx_job_id :: u32
  m_ssx_nonce :: u32
  m_ssx_ntime :: u32
  m_ssx_version :: u32
  m_ssx_extranonce :: bytes

record CloseChannel =
  m_cc_channel_id :: u32
  m_cc_reason_code :: string

section \<open>Encoding and decoding\<close>

definition encode_SetupConnection :: "SetupConnection \<Rightarrow> Sv2CodecError + bytes" where
  "encode_SetupConnection m =
     write_fields
       [Ok (write_u8 (m_sc_protocol m)),
        Ok (write_u16 (m_sc_min_version m)),
        Ok (write_u16 (m_sc_max_version m)),
        Ok (write_u32 (m_sc_flags m)),
        write_str0_255 (m_sc_endpoint_host m),
        Ok (write_u16 (m_sc_endpoint_port m)),
        write_str0_255 (m_sc_vendor m),
        write_str0_255 (m_sc_hardware_version m),
        write_str0_255 (m_sc_firmware m),
        write_str0_255 (m_sc_device_id m)]"

definition decode_SetupConnection :: "SetupConnection reader" where
  "decode_SetupConnection =
     reading read_u8 (\<lambda>protocol'.
     reading read_u16 (\<lambda>min_version'.
     reading read_u16 (\<lambda>max_version'.
     reading read_u32 (\<lambda>flags'.
     reading read_str0_255 (\<lambda>endpoint_host'.
     reading read_u16 (\<lambda>endpoint_port'.
     reading read_str0_255 (\<lambda>vendor'.
     reading read_str0_255 (\<lambda>hardware_version'.
     reading read_str0_255 (\<lambda>firmware'.
     reading read_str0_255 (\<lambda>device_id'.
     finished
       \<lparr>m_sc_protocol = protocol', m_sc_min_version = min_version', m_sc_max_version = max_version',
        m_sc_flags = flags', m_sc_endpoint_host = endpoint_host', m_sc_endpoint_port = endpoint_port',
        m_sc_vendor = vendor', m_sc_hardware_version = hardware_version', m_sc_firmware = firmware',
        m_sc_device_id = device_id'\<rparr>))))))))))"

definition encode_SetupConnectionSuccess :: "SetupConnectionSuccess \<Rightarrow> Sv2CodecError + bytes" where
  "encode_SetupConnectionSuccess m =
     write_fields
       [Ok (write_u16 (m_scs_used_version m)),
        Ok (write_u32 (m_scs_flags m))]"

definition decode_SetupConnectionSuccess :: "SetupConnectionSuccess reader" where
  "decode_SetupConnectionSuccess =
     reading read_u16 (\<lambda>used_version'.
     reading read_u32 (\<lambda>flags'.
     finished
       \<lparr>m_scs_used_version = used_version', m_scs_flags = flags'\<rparr>))"

definition encode_SetupConnectionError :: "SetupConnectionError \<Rightarrow> Sv2CodecError + bytes" where
  "encode_SetupConnectionError m =
     write_fields
       [Ok (write_u32 (m_sce_flags m)),
        write_str0_255 (m_sce_error_code m)]"

definition decode_SetupConnectionError :: "SetupConnectionError reader" where
  "decode_SetupConnectionError =
     reading read_u32 (\<lambda>flags'.
     reading read_str0_255 (\<lambda>error_code'.
     finished
       \<lparr>m_sce_flags = flags', m_sce_error_code = error_code'\<rparr>))"

definition encode_OpenStandardMiningChannel :: "OpenStandardMiningChannel \<Rightarrow> Sv2CodecError + bytes" where
  "encode_OpenStandardMiningChannel m =
     write_fields
       [Ok (write_u32 (m_osc_request_id m)),
        write_str0_255 (m_osc_user_identity m),
        Ok (write_f32 (m_osc_nominal_hash_rate m)),
        Ok (write_u256 (m_osc_max_target m))]"

definition decode_OpenStandardMiningChannel :: "OpenStandardMiningChannel reader" where
  "decode_OpenStandardMiningChannel =
     reading read_u32 (\<lambda>request_id'.
     reading read_str0_255 (\<lambda>user_identity'.
     reading read_f32 (\<lambda>nominal_hash_rate'.
     reading read_u256 (\<lambda>max_target'.
     finished
       \<lparr>m_osc_request_id = request_id', m_osc_user_identity = user_identity',
        m_osc_nominal_hash_rate = nominal_hash_rate', m_osc_max_target = max_target'\<rparr>))))"

definition encode_OpenStandardMiningChannelSuccess :: "OpenStandardMiningChannelSuccess \<Rightarrow> Sv2CodecError + bytes" where
  "encode_OpenStandardMiningChannelSuccess m =
     write_fields
       [Ok (write_u32 (m_oss_request_id m)),
        Ok (write_u32 (m_oss_channel_id m)),
        Ok (write_u256 (m_oss_target m)),
        write_b0_32 (m_oss_extranonce_prefix m),
        Ok (write_u32 (m_oss_group_channel_id m))]"

definition decode_OpenStandardMiningChannelSuccess :: "OpenStandardMiningChannelSuccess reader" where
  "decode_OpenStandardMiningChannelSuccess =
     reading read_u32 (\<lambda>request_id'.
     reading read_u32 (\<lambda>channel_id'.
     reading read_u256 (\<lambda>target'.
     reading read_b0_32 (\<lambda>extranonce_prefix'.
     reading read_u32 (\<lambda>group_channel_id'.
     finished
       \<lparr>m_oss_request_id = request_id', m_oss_channel_id = channel_id', m_oss_target = target',
        m_oss_extranonce_prefix = extranonce_prefix', m_oss_group_channel_id = group_channel_id'\<rparr>)))))"

definition encode_OpenMiningChannelError :: "OpenMiningChannelError \<Rightarrow> Sv2CodecError + bytes" where
  "encode_OpenMiningChannelError m =
     write_fields
       [Ok (write_u32 (m_ome_request_id m)),
        write_str0_255 (m_ome_error_code m)]"

definition decode_OpenMiningChannelError :: "OpenMiningChannelError reader" where
  "decode_OpenMiningChannelError =
     reading read_u32 (\<lambda>request_id'.
     reading read_str0_255 (\<lambda>error_code'.
     finished
       \<lparr>m_ome_request_id = request_id', m_ome_error_code = error_code'\<rparr>))"

definition encode_NewMiningJob :: "NewMiningJob \<Rightarrow> Sv2CodecError + bytes" where
  "encode_NewMiningJob m =
     write_fields
       [Ok (write_u32 (m_nmj_channel_id m)),
        Ok (write_u32 (m_nmj_job_id m)),
        Ok (write_option_u32 (m_nmj_min_ntime m)),
        Ok (write_u32 (m_nmj_version m)),
        Ok (write_u256 (m_nmj_merkle_root m))]"

definition decode_NewMiningJob :: "NewMiningJob reader" where
  "decode_NewMiningJob =
     reading read_u32 (\<lambda>channel_id'.
     reading read_u32 (\<lambda>job_id'.
     reading read_option_u32 (\<lambda>min_ntime'.
     reading read_u32 (\<lambda>version'.
     reading read_u256 (\<lambda>merkle_root'.
     finished
       \<lparr>m_nmj_channel_id = channel_id', m_nmj_job_id = job_id', m_nmj_min_ntime = min_ntime',
        m_nmj_version = version', m_nmj_merkle_root = merkle_root'\<rparr>)))))"

definition encode_SetNewPrevHash :: "SetNewPrevHash \<Rightarrow> Sv2CodecError + bytes" where
  "encode_SetNewPrevHash m =
     write_fields
       [Ok (write_u32 (m_snp_channel_id m)),
        Ok (write_u32 (m_snp_job_id m)),
        Ok (write_u256 (m_snp_prev_hash m)),
        Ok (write_u32 (m_snp_min_ntime m)),
        Ok (write_u32 (m_snp_nbits m))]"

definition decode_SetNewPrevHash :: "SetNewPrevHash reader" where
  "decode_SetNewPrevHash =
     reading read_u32 (\<lambda>channel_id'.
     reading read_u32 (\<lambda>job_id'.
     reading read_u256 (\<lambda>prev_hash'.
     reading read_u32 (\<lambda>min_ntime'.
     reading read_u32 (\<lambda>nbits'.
     finished
       \<lparr>m_snp_channel_id = channel_id', m_snp_job_id = job_id', m_snp_prev_hash = prev_hash',
        m_snp_min_ntime = min_ntime', m_snp_nbits = nbits'\<rparr>)))))"

definition encode_SetTarget :: "SetTarget \<Rightarrow> Sv2CodecError + bytes" where
  "encode_SetTarget m =
     write_fields
       [Ok (write_u32 (m_st_channel_id m)),
        Ok (write_u256 (m_st_maximum_target m))]"

definition decode_SetTarget :: "SetTarget reader" where
  "decode_SetTarget =
     reading read_u32 (\<lambda>channel_id'.
     reading read_u256 (\<lambda>maximum_target'.
     finished
       \<lparr>m_st_channel_id = channel_id', m_st_maximum_target = maximum_target'\<rparr>))"

definition encode_SubmitSharesStandard :: "SubmitSharesStandard \<Rightarrow> Sv2CodecError + bytes" where
  "encode_SubmitSharesStandard m =
     write_fields
       [Ok (write_u32 (m_sss_channel_id m)),
        Ok (write_u32 (m_sss_sequence_number m)),
        Ok (write_u32 (m_sss_job_id m)),
        Ok (write_u32 (m_sss_nonce m)),
        Ok (write_u32 (m_sss_ntime m)),
        Ok (write_u32 (m_sss_version m))]"

definition decode_SubmitSharesStandard :: "SubmitSharesStandard reader" where
  "decode_SubmitSharesStandard =
     reading read_u32 (\<lambda>channel_id'.
     reading read_u32 (\<lambda>sequence_number'.
     reading read_u32 (\<lambda>job_id'.
     reading read_u32 (\<lambda>nonce'.
     reading read_u32 (\<lambda>ntime'.
     reading read_u32 (\<lambda>version'.
     finished
       \<lparr>m_sss_channel_id = channel_id', m_sss_sequence_number = sequence_number',
        m_sss_job_id = job_id', m_sss_nonce = nonce', m_sss_ntime = ntime',
        m_sss_version = version'\<rparr>))))))"

definition encode_SubmitSharesSuccess :: "SubmitSharesSuccess \<Rightarrow> Sv2CodecError + bytes" where
  "encode_SubmitSharesSuccess m =
     write_fields
       [Ok (write_u32 (m_ssu_channel_id m)),
        Ok (write_u32 (m_ssu_last_sequence_number m)),
        Ok (write_u32 (m_ssu_new_submits_accepted_count m)),
        Ok (write_u64 (m_ssu_new_shares_sum m))]"

definition decode_SubmitSharesSuccess :: "SubmitSharesSuccess reader" where
  "decode_SubmitSharesSuccess =
     reading read_u32 (\<lambda>channel_id'.
     reading read_u32 (\<lambda>last_sequence_number'.
     reading read_u32 (\<lambda>new_submits_accepted_count'.
     reading read_u64 (\<lambda>new_shares_sum'.
     finished
       \<lparr>m_ssu_channel_id = channel_id', m_ssu_last_sequence_number = last_sequence_number',
        m_ssu_new_submits_accepted_count = new_submits_accepted_count',
        m_ssu_new_shares_sum = new_shares_sum'\<rparr>))))"

definition encode_SubmitSharesError :: "SubmitSharesError \<Rightarrow> Sv2CodecError + bytes" where
  "encode_SubmitSharesError m =
     write_fields
       [Ok (write_u32 (m_sse_channel_id m)),
        Ok (write_u32 (m_sse_sequence_number m)),
        write_str0_255 (m_sse_error_code m)]"

definition decode_SubmitSharesError :: "SubmitSharesError reader" where
  "decode_SubmitSharesError =
     reading read_u32 (\<lambda>channel_id'.
     reading read_u32 (\<lambda>sequence_number'.
     reading read_str0_255 (\<lambda>error_code'.
     finished
       \<lparr>m_sse_channel_id = channel_id', m_sse_sequence_number = sequence_number',
        m_sse_error_code = error_code'\<rparr>)))"

definition encode_OpenExtendedMiningChannel :: "OpenExtendedMiningChannel \<Rightarrow> Sv2CodecError + bytes" where
  "encode_OpenExtendedMiningChannel m =
     write_fields
       [Ok (write_u32 (m_oec_request_id m)),
        write_str0_255 (m_oec_user_identity m),
        Ok (write_f32 (m_oec_nominal_hash_rate m)),
        Ok (write_u256 (m_oec_max_target m)),
        Ok (write_u16 (m_oec_min_extranonce_size m))]"

definition decode_OpenExtendedMiningChannel :: "OpenExtendedMiningChannel reader" where
  "decode_OpenExtendedMiningChannel =
     reading read_u32 (\<lambda>request_id'.
     reading read_str0_255 (\<lambda>user_identity'.
     reading read_f32 (\<lambda>nominal_hash_rate'.
     reading read_u256 (\<lambda>max_target'.
     reading read_u16 (\<lambda>min_extranonce_size'.
     finished
       \<lparr>m_oec_request_id = request_id', m_oec_user_identity = user_identity',
        m_oec_nominal_hash_rate = nominal_hash_rate', m_oec_max_target = max_target',
        m_oec_min_extranonce_size = min_extranonce_size'\<rparr>)))))"

definition encode_OpenExtendedMiningChannelSuccess :: "OpenExtendedMiningChannelSuccess \<Rightarrow> Sv2CodecError + bytes" where
  "encode_OpenExtendedMiningChannelSuccess m =
     write_fields
       [Ok (write_u32 (m_oes_request_id m)),
        Ok (write_u32 (m_oes_channel_id m)),
        Ok (write_u256 (m_oes_target m)),
        Ok (write_u16 (m_oes_extranonce_size m)),
        write_b0_255 (m_oes_extranonce_prefix m)]"

definition decode_OpenExtendedMiningChannelSuccess :: "OpenExtendedMiningChannelSuccess reader" where
  "decode_OpenExtendedMiningChannelSuccess =
     reading read_u32 (\<lambda>request_id'.
     reading read_u32 (\<lambda>channel_id'.
     reading read_u256 (\<lambda>target'.
     reading read_u16 (\<lambda>extranonce_size'.
     reading read_b0_255 (\<lambda>extranonce_prefix'.
     finished
       \<lparr>m_oes_request_id = request_id', m_oes_channel_id = channel_id', m_oes_target = target',
        m_oes_extranonce_size = extranonce_size', m_oes_extranonce_prefix = extranonce_prefix'\<rparr>)))))"

definition encode_NewExtendedMiningJob :: "NewExtendedMiningJob \<Rightarrow> Sv2CodecError + bytes" where
  "encode_NewExtendedMiningJob m =
     write_fields
       [Ok (write_u32 (m_nej_channel_id m)),
        Ok (write_u32 (m_nej_job_id m)),
        Ok (write_option_u32 (m_nej_min_ntime m)),
        Ok (write_u32 (m_nej_version m)),
        Ok (write_u8 (of_bool (m_nej_version_rolling_allowed m))),
        write_seq_u256 (m_nej_merkle_path m),
        write_b0_64k (m_nej_coinbase_tx_prefix m),
        write_b0_64k (m_nej_coinbase_tx_suffix m)]"

definition decode_NewExtendedMiningJob :: "NewExtendedMiningJob reader" where
  "decode_NewExtendedMiningJob =
     reading read_u32 (\<lambda>channel_id'.
     reading read_u32 (\<lambda>job_id'.
     reading read_option_u32 (\<lambda>min_ntime'.
     reading read_u32 (\<lambda>version'.
     reading read_u8 (\<lambda>version_rolling_allowed'.
     reading read_seq_u256 (\<lambda>merkle_path'.
     reading read_b0_64k (\<lambda>coinbase_tx_prefix'.
     reading read_b0_64k (\<lambda>coinbase_tx_suffix'.
     finished
       \<lparr>m_nej_channel_id = channel_id', m_nej_job_id = job_id', m_nej_min_ntime = min_ntime',
        m_nej_version = version', m_nej_version_rolling_allowed = (version_rolling_allowed' \<noteq> 0),
        m_nej_merkle_path = merkle_path', m_nej_coinbase_tx_prefix = coinbase_tx_prefix',
        m_nej_coinbase_tx_suffix = coinbase_tx_suffix'\<rparr>))))))))"

definition encode_SubmitSharesExtended :: "SubmitSharesExtended \<Rightarrow> Sv2CodecError + bytes" where
  "encode_SubmitSharesExtended m =
     write_fields
       [Ok (write_u32 (m_ssx_channel_id m)),
        Ok (write_u32 (m_ssx_sequence_number m)),
        Ok (write_u32 (m_ssx_job_id m)),
        Ok (write_u32 (m_ssx_nonce m)),
        Ok (write_u32 (m_ssx_ntime m)),
        Ok (write_u32 (m_ssx_version m)),
        write_b0_255 (m_ssx_extranonce m)]"

definition decode_SubmitSharesExtended :: "SubmitSharesExtended reader" where
  "decode_SubmitSharesExtended =
     reading read_u32 (\<lambda>channel_id'.
     reading read_u32 (\<lambda>sequence_number'.
     reading read_u32 (\<lambda>job_id'.
     reading read_u32 (\<lambda>nonce'.
     reading read_u32 (\<lambda>ntime'.
     reading read_u32 (\<lambda>version'.
     reading read_b0_255 (\<lambda>extranonce'.
     finished
       \<lparr>m_ssx_channel_id = channel_id', m_ssx_sequence_number = sequence_number',
        m_ssx_job_id = job_id', m_ssx_nonce = nonce', m_ssx_ntime = ntime', m_ssx_version = version',
        m_ssx_extranonce = extranonce'\<rparr>)))))))"

definition encode_CloseChannel :: "CloseChannel \<Rightarrow> Sv2CodecError + bytes" where
  "encode_CloseChannel m =
     write_fields
       [Ok (write_u32 (m_cc_channel_id m)),
        write_str0_255 (m_cc_reason_code m)]"

definition decode_CloseChannel :: "CloseChannel reader" where
  "decode_CloseChannel =
     reading read_u32 (\<lambda>channel_id'.
     reading read_str0_255 (\<lambda>reason_code'.
     finished
       \<lparr>m_cc_channel_id = channel_id', m_cc_reason_code = reason_code'\<rparr>))"

section \<open>Fields\<close>

text \<open>
  A reader codes a value as some bytes when it reads the value back from them, leaving what
  follows, and runs out of input on every proper prefix.
\<close>

definition codes :: "'a reader \<Rightarrow> bytes \<Rightarrow> 'a \<Rightarrow> bool" where
  "codes r bs v \<longleftrightarrow> (\<forall>rest. r (bs @ rest) = Ok (v, rest)) \<and>
     (\<forall>n<length bs. \<exists>need have. r (take n bs) = Err (BufferUnderflow need have))"

lemma codes_finished: "codes (finished x) [] x"
  by (simp add: codes_def finished_def)

lemma codes_reading:
  assumes "codes r b v" and "codes (k v) c x"
  shows "codes (reading r k) (b @ c) x"
  unfolding codes_def
proof (intro conjI allI impI)
  show "reading r k ((b @ c) @ rest) = Ok (x, rest)" for rest
    using assms by (simp add: codes_def reading_def)
  fix n assume n: "n < length (b @ c)"
  show "\<exists>need have. reading r k (take n (b @ c)) = Err (BufferUnderflow need have)"
  proof (cases "n < length b")
    case True
    then obtain need "have" where "r (take n b) = Err (BufferUnderflow need have)" using assms(1) by (auto simp: codes_def)
    then show ?thesis using True by (simp add: reading_def)
  next
    case False
    then have "n - length b < length c" using n by simp
    then obtain need "have" where "k v (take (n - length b) c) = Err (BufferUnderflow need have)"
      using assms(2) by (auto simp: codes_def)
    moreover have "r (take n (b @ c)) = Ok (v, take (n - length b) c)"
      using False assms(1) by (simp add: codes_def)
    ultimately show ?thesis by (simp add: reading_def)
  qed
qed

lemma codes_bytes: "length b = n \<Longrightarrow> codes (read_bytes n) b b"
  by (auto simp: codes_def read_bytes_def ensure_def)

lemma codes_mapped: "codes r b v \<Longrightarrow> codes (reading r (\<lambda>x. finished (f x))) b (f v)"
  using codes_reading [of r b v "\<lambda>x. finished (f x)" "[]" "f v"] codes_finished [of "f v"] by simp

locale wire_field =
  fixes read_f :: "'a reader" and write_f :: "'a \<Rightarrow> Sv2CodecError + bytes" and valid :: "'a \<Rightarrow> bool"
  assumes field_codes: "valid v \<Longrightarrow> write_f v = Ok b \<Longrightarrow> codes read_f b v"
begin

text \<open>A message that starts with the field and goes on with what codes the rest.\<close>

lemma next_field:
  assumes "write_fields (write_f v # fs) = Ok bs" and "valid v" and "\<And>bs'. write_fields fs = Ok bs' \<Longrightarrow> codes (k v) bs' x"
  shows "codes (reading read_f k) bs x"
proof -
  obtain b bs' where b: "write_f v = Ok b" "write_fields fs = Ok bs'" "bs = b @ bs'"
    using assms(1) by (auto simp: and_then_Ok_iff)
  show ?thesis unfolding b(3) by (rule codes_reading) (rule field_codes [OF assms(2) b(1)], rule assms(3) [OF b(2)])
qed

end

lemma codes_le:
  assumes "unat v < 256 ^ n"
  shows "codes (reading (read_bytes n) (\<lambda>b. finished (of_nat (le_val b)))) (to_le n (unat v)) (v :: 'a :: len word)"
proof -
  have "codes (reading (read_bytes n) (\<lambda>b. finished (of_nat (le_val b)))) (to_le n (unat v))
      (of_nat (le_val (to_le n (unat v))) :: 'a word)"
    by (rule codes_mapped) (simp add: codes_bytes)
  moreover have "of_nat (le_val (to_le n (unat v))) = v" using assms by (simp add: le_val_to_le)
  ultimately show ?thesis by simp
qed

lemma codes_u8: "codes read_u8 [v] v"
  unfolding read_u8_def using codes_mapped [OF codes_bytes [of "[v]" 1], of hd] by simp

lemma codes_u16: "codes read_u16 (write_u16 v) v"
  unfolding read_u16_def write_u16_def
proof (rule codes_le)
  have "unat v < 2 ^ LENGTH(16)" by (rule unsigned_less)
  then show "unat v < 256 ^ 2" by simp
qed

lemma codes_u32: "codes read_u32 (write_u32 v) v"
  unfolding read_u32_def write_u32_def
proof (rule codes_le)
  have "unat v < 2 ^ LENGTH(32)" by (rule unsigned_less)
  then show "unat v < 256 ^ 4" by simp
qed

lemma codes_u64: "codes read_u64 (write_u64 v) v"
  unfolding read_u64_def write_u64_def
proof (rule codes_le)
  have "unat v < 2 ^ LENGTH(64)" by (rule unsigned_less)
  then show "unat v < 256 ^ 8" by simp
qed

lemma read_f32_u32: "read_f32 = read_u32" "write_f32 = write_u32"
  by (simp_all add: read_f32_def read_u32_def write_f32_def write_u32_def fun_eq_iff)

text \<open>A length byte, then that many bytes.\<close>

lemma codes_counted:
  assumes "length b \<le> 255" and "\<And>len. unat len = length b \<Longrightarrow> codes (k len) c x"
  shows "codes (reading read_u8 k) (write_u8 (of_nat (length b)) @ c) x"
proof (rule codes_reading)
  show "codes read_u8 (write_u8 (of_nat (length b))) (of_nat (length b))" by (simp add: write_u8_def codes_u8)
  have "unat (of_nat (length b) :: u8) = length b" using assms(1) by (simp add: unat_of_nat)
  then show "codes (k (of_nat (length b))) c x" by (rule assms(2))
qed

lemma codes_test:
  assumes "codes r b v" and "\<And>rest. p v rest = Ok (y, rest)"
  shows "codes (reading r p) b y"
  using assms unfolding codes_def reading_def by fastforce

definition utf8_string :: "string \<Rightarrow> bool" where
  "utf8_string s \<longleftrightarrow> utf8_valid (as_bytes s)"

lemma codes_str0_255: "utf8_string s \<Longrightarrow> write_str0_255 s = Ok b \<Longrightarrow> codes read_str0_255 b s"
proof -
  assume s: "utf8_string s" and "write_str0_255 s = Ok b"
  then have b: "b = write_u8 (of_nat (length (as_bytes s))) @ as_bytes s" "length (as_bytes s) \<le> 255"
    by (auto simp: write_str0_255_def split: if_splits)
  show ?thesis
    unfolding read_str0_255_def b(1) using b(2)
    by (rule codes_counted) (rule codes_test [OF codes_bytes], use s in \<open>auto simp: utf8_string_def of_bytes_as_bytes\<close>)
qed

lemma codes_b0_32: "write_b0_32 v = Ok b \<Longrightarrow> codes read_b0_32 b v"
proof -
  assume "write_b0_32 v = Ok b"
  then have b: "b = write_u8 (of_nat (length v)) @ v" "length v \<le> 32"
    by (auto simp: write_b0_32_def split: if_splits)
  show ?thesis unfolding read_b0_32_def b(1)
  proof (rule codes_counted)
    fix len :: u8 assume "unat len = length v"
    then have "(\<lambda>rest. if 32 < unat len then Err (BytesTooLong (unat len)) else read_bytes (unat len) rest) =
        read_bytes (length v)" using b(2) by (simp add: fun_eq_iff)
    then show "codes (\<lambda>rest. if 32 < unat len then Err (BytesTooLong (unat len)) else read_bytes (unat len) rest) v v"
      by (simp add: codes_bytes)
  qed (use b(2) in simp)
qed

lemma codes_b0_255: "write_b0_255 v = Ok b \<Longrightarrow> codes read_b0_255 b v"
  unfolding read_b0_255_def
  by (auto simp: write_b0_255_def split: if_splits intro!: codes_counted codes_bytes)

lemma codes_b0_64k: "write_b0_64k v = Ok b \<Longrightarrow> codes read_b0_64k b v"
proof -
  assume "write_b0_64k v = Ok b"
  then have b: "b = write_u16 (of_nat (length v)) @ v" "length v \<le> 65535"
    by (auto simp: write_b0_64k_def split: if_splits)
  have "unat (of_nat (length v) :: u16) = length v" using b(2) by (simp add: unat_of_nat)
  then show ?thesis unfolding read_b0_64k_def b(1) by (intro codes_reading [OF codes_u16] codes_bytes) simp
qed

lemma codes_u256s: "\<forall>h\<in>set items. length h = 32 \<Longrightarrow> codes (read_u256s (length items)) (concat items) items"
proof (induction items)
  case (Cons h hs)
  have "codes read_u256 h h" using Cons.prems by (simp add: read_u256_def codes_bytes)
  moreover have "codes (reading (read_u256s (length hs)) (\<lambda>hs. finished (h # hs))) (concat hs) (h # hs)"
    using Cons by (intro codes_mapped) simp
  ultimately show ?case by (simp add: codes_reading)
qed (simp add: codes_finished)

lemma map_write_u256: "map write_u256 items = items"
  by (simp add: map_idI write_u256_def)

lemma codes_seq_u256:
  "list_all (\<lambda>h. length h = 32) items \<Longrightarrow> write_seq_u256 items = Ok b \<Longrightarrow> codes read_seq_u256 b items"
  unfolding read_seq_u256_def
  by (auto simp: write_seq_u256_def map_write_u256 list_all_iff codes_u256s split: if_splits intro!: codes_counted)

lemma codes_option_u32: "codes read_option_u32 (write_option_u32 v) v"
proof (cases v)
  case None
  then show ?thesis
    unfolding read_option_u32_def by (auto simp: write_option_u32_def write_u8_def intro!: codes_test [OF codes_u8])
next
  case (Some w)
  have "codes (\<lambda>rest. if (1 :: u8) = 0 then Ok (None, rest)
       else if (1 :: u8) = 1 then reading read_u32 (\<lambda>v. finished (Some v)) rest
       else Err (InvalidOptionTag 1)) (write_u32 w) (Some w)"
    using codes_mapped [OF codes_u32 [of w], of Some] by simp
  then have "codes read_option_u32 ([1] @ write_u32 w) (Some w)"
    unfolding read_option_u32_def by (rule codes_reading [OF codes_u8])
  then show ?thesis using Some by (simp add: write_option_u32_def write_u8_def)
qed

section \<open>The fields of the wire format\<close>

interpretation wire_u8: wire_field read_u8 "\<lambda>v. Ok (write_u8 v)" "\<lambda>_. True"
  by unfold_locales (auto simp: write_u8_def codes_u8)

interpretation wire_u16: wire_field read_u16 "\<lambda>v. Ok (write_u16 v)" "\<lambda>_. True"
  by unfold_locales (auto simp: codes_u16)

interpretation wire_u32: wire_field read_u32 "\<lambda>v. Ok (write_u32 v)" "\<lambda>_. True"
  by unfold_locales (auto simp: codes_u32)

interpretation wire_u64: wire_field read_u64 "\<lambda>v. Ok (write_u64 v)" "\<lambda>_. True"
  by unfold_locales (auto simp: codes_u64)

interpretation wire_f32: wire_field read_f32 "\<lambda>v. Ok (write_f32 v)" "\<lambda>_. True"
  by unfold_locales (auto simp: codes_u32 read_f32_u32)

interpretation wire_u256: wire_field read_u256 "\<lambda>v. Ok (write_u256 v)" "\<lambda>v. length v = 32"
  by unfold_locales (auto simp: read_u256_def write_u256_def codes_bytes)

interpretation wire_str: wire_field read_str0_255 write_str0_255 utf8_string
  by unfold_locales (rule codes_str0_255)

interpretation wire_b0_32: wire_field read_b0_32 write_b0_32 "\<lambda>_. True"
  by unfold_locales (rule codes_b0_32)

interpretation wire_b0_255: wire_field read_b0_255 write_b0_255 "\<lambda>_. True"
  by unfold_locales (rule codes_b0_255)

interpretation wire_b0_64k: wire_field read_b0_64k write_b0_64k "\<lambda>_. True"
  by unfold_locales (rule codes_b0_64k)

interpretation wire_seq: wire_field read_seq_u256 write_seq_u256 "list_all (\<lambda>h. length h = 32)"
  by unfold_locales (rule codes_seq_u256)

interpretation wire_option: wire_field read_option_u32 "\<lambda>v. Ok (write_option_u32 v)" "\<lambda>_. True"
  by unfold_locales (auto simp: codes_option_u32)

lemma last_field: "write_fields [] = Ok bs \<Longrightarrow> x = m \<Longrightarrow> codes (finished x) bs m"
  by (simp add: codes_finished)

lemmas wire_fields = wire_u8.next_field wire_u16.next_field wire_u32.next_field wire_u64.next_field
  wire_f32.next_field wire_u256.next_field wire_str.next_field wire_b0_32.next_field wire_b0_255.next_field
  wire_b0_64k.next_field wire_seq.next_field wire_option.next_field

section \<open>Every message\<close>

definition wf_SetupConnection :: "SetupConnection \<Rightarrow> bool" where
  "wf_SetupConnection m \<longleftrightarrow> utf8_string (m_sc_endpoint_host m) \<and> utf8_string (m_sc_vendor m) \<and> utf8_string (m_sc_hardware_version m) \<and> utf8_string (m_sc_firmware m) \<and> utf8_string (m_sc_device_id m)"

lemma codes_SetupConnection: "wf_SetupConnection m \<Longrightarrow> encode_SetupConnection m = Ok bs \<Longrightarrow> codes decode_SetupConnection bs m"
  unfolding encode_SetupConnection_def decode_SetupConnection_def wf_SetupConnection_def
  by (elim conjE wire_fields last_field; simp)

lemma codes_SetupConnectionSuccess: "encode_SetupConnectionSuccess m = Ok bs \<Longrightarrow> codes decode_SetupConnectionSuccess bs m"
  unfolding encode_SetupConnectionSuccess_def decode_SetupConnectionSuccess_def
  by (elim conjE wire_fields last_field; simp)

definition wf_SetupConnectionError :: "SetupConnectionError \<Rightarrow> bool" where
  "wf_SetupConnectionError m \<longleftrightarrow> utf8_string (m_sce_error_code m)"

lemma codes_SetupConnectionError: "wf_SetupConnectionError m \<Longrightarrow> encode_SetupConnectionError m = Ok bs \<Longrightarrow> codes decode_SetupConnectionError bs m"
  unfolding encode_SetupConnectionError_def decode_SetupConnectionError_def wf_SetupConnectionError_def
  by (elim conjE wire_fields last_field; simp)

definition wf_OpenStandardMiningChannel :: "OpenStandardMiningChannel \<Rightarrow> bool" where
  "wf_OpenStandardMiningChannel m \<longleftrightarrow> utf8_string (m_osc_user_identity m) \<and> length (m_osc_max_target m) = 32"

lemma codes_OpenStandardMiningChannel: "wf_OpenStandardMiningChannel m \<Longrightarrow> encode_OpenStandardMiningChannel m = Ok bs \<Longrightarrow> codes decode_OpenStandardMiningChannel bs m"
  unfolding encode_OpenStandardMiningChannel_def decode_OpenStandardMiningChannel_def wf_OpenStandardMiningChannel_def
  by (elim conjE wire_fields last_field; simp)

definition wf_OpenStandardMiningChannelSuccess :: "OpenStandardMiningChannelSuccess \<Rightarrow> bool" where
  "wf_OpenStandardMiningChannelSuccess m \<longleftrightarrow> length (m_oss_target m) = 32"

lemma codes_OpenStandardMiningChannelSuccess: "wf_OpenStandardMiningChannelSuccess m \<Longrightarrow> encode_OpenStandardMiningChannelSuccess m = Ok bs \<Longrightarrow> codes decode_OpenStandardMiningChannelSuccess bs m"
  unfolding encode_OpenStandardMiningChannelSuccess_def decode_OpenStandardMiningChannelSuccess_def wf_OpenStandardMiningChannelSuccess_def
  by (elim conjE wire_fields last_field; simp)

definition wf_OpenMiningChannelError :: "OpenMiningChannelError \<Rightarrow> bool" where
  "wf_OpenMiningChannelError m \<longleftrightarrow> utf8_string (m_ome_error_code m)"

lemma codes_OpenMiningChannelError: "wf_OpenMiningChannelError m \<Longrightarrow> encode_OpenMiningChannelError m = Ok bs \<Longrightarrow> codes decode_OpenMiningChannelError bs m"
  unfolding encode_OpenMiningChannelError_def decode_OpenMiningChannelError_def wf_OpenMiningChannelError_def
  by (elim conjE wire_fields last_field; simp)

definition wf_NewMiningJob :: "NewMiningJob \<Rightarrow> bool" where
  "wf_NewMiningJob m \<longleftrightarrow> length (m_nmj_merkle_root m) = 32"

lemma codes_NewMiningJob: "wf_NewMiningJob m \<Longrightarrow> encode_NewMiningJob m = Ok bs \<Longrightarrow> codes decode_NewMiningJob bs m"
  unfolding encode_NewMiningJob_def decode_NewMiningJob_def wf_NewMiningJob_def
  by (elim conjE wire_fields last_field; simp)

definition wf_SetNewPrevHash :: "SetNewPrevHash \<Rightarrow> bool" where
  "wf_SetNewPrevHash m \<longleftrightarrow> length (m_snp_prev_hash m) = 32"

lemma codes_SetNewPrevHash: "wf_SetNewPrevHash m \<Longrightarrow> encode_SetNewPrevHash m = Ok bs \<Longrightarrow> codes decode_SetNewPrevHash bs m"
  unfolding encode_SetNewPrevHash_def decode_SetNewPrevHash_def wf_SetNewPrevHash_def
  by (elim conjE wire_fields last_field; simp)

definition wf_SetTarget :: "SetTarget \<Rightarrow> bool" where
  "wf_SetTarget m \<longleftrightarrow> length (m_st_maximum_target m) = 32"

lemma codes_SetTarget: "wf_SetTarget m \<Longrightarrow> encode_SetTarget m = Ok bs \<Longrightarrow> codes decode_SetTarget bs m"
  unfolding encode_SetTarget_def decode_SetTarget_def wf_SetTarget_def
  by (elim conjE wire_fields last_field; simp)

lemma codes_SubmitSharesStandard: "encode_SubmitSharesStandard m = Ok bs \<Longrightarrow> codes decode_SubmitSharesStandard bs m"
  unfolding encode_SubmitSharesStandard_def decode_SubmitSharesStandard_def
  by (elim conjE wire_fields last_field; simp)

lemma codes_SubmitSharesSuccess: "encode_SubmitSharesSuccess m = Ok bs \<Longrightarrow> codes decode_SubmitSharesSuccess bs m"
  unfolding encode_SubmitSharesSuccess_def decode_SubmitSharesSuccess_def
  by (elim conjE wire_fields last_field; simp)

definition wf_SubmitSharesError :: "SubmitSharesError \<Rightarrow> bool" where
  "wf_SubmitSharesError m \<longleftrightarrow> utf8_string (m_sse_error_code m)"

lemma codes_SubmitSharesError: "wf_SubmitSharesError m \<Longrightarrow> encode_SubmitSharesError m = Ok bs \<Longrightarrow> codes decode_SubmitSharesError bs m"
  unfolding encode_SubmitSharesError_def decode_SubmitSharesError_def wf_SubmitSharesError_def
  by (elim conjE wire_fields last_field; simp)

definition wf_OpenExtendedMiningChannel :: "OpenExtendedMiningChannel \<Rightarrow> bool" where
  "wf_OpenExtendedMiningChannel m \<longleftrightarrow> utf8_string (m_oec_user_identity m) \<and> length (m_oec_max_target m) = 32"

lemma codes_OpenExtendedMiningChannel: "wf_OpenExtendedMiningChannel m \<Longrightarrow> encode_OpenExtendedMiningChannel m = Ok bs \<Longrightarrow> codes decode_OpenExtendedMiningChannel bs m"
  unfolding encode_OpenExtendedMiningChannel_def decode_OpenExtendedMiningChannel_def wf_OpenExtendedMiningChannel_def
  by (elim conjE wire_fields last_field; simp)

definition wf_OpenExtendedMiningChannelSuccess :: "OpenExtendedMiningChannelSuccess \<Rightarrow> bool" where
  "wf_OpenExtendedMiningChannelSuccess m \<longleftrightarrow> length (m_oes_target m) = 32"

lemma codes_OpenExtendedMiningChannelSuccess: "wf_OpenExtendedMiningChannelSuccess m \<Longrightarrow> encode_OpenExtendedMiningChannelSuccess m = Ok bs \<Longrightarrow> codes decode_OpenExtendedMiningChannelSuccess bs m"
  unfolding encode_OpenExtendedMiningChannelSuccess_def decode_OpenExtendedMiningChannelSuccess_def wf_OpenExtendedMiningChannelSuccess_def
  by (elim conjE wire_fields last_field; simp)

definition wf_NewExtendedMiningJob :: "NewExtendedMiningJob \<Rightarrow> bool" where
  "wf_NewExtendedMiningJob m \<longleftrightarrow> list_all (\<lambda>h. length h = 32) (m_nej_merkle_path m)"

lemma codes_NewExtendedMiningJob: "wf_NewExtendedMiningJob m \<Longrightarrow> encode_NewExtendedMiningJob m = Ok bs \<Longrightarrow> codes decode_NewExtendedMiningJob bs m"
  unfolding encode_NewExtendedMiningJob_def decode_NewExtendedMiningJob_def wf_NewExtendedMiningJob_def
  by (elim conjE wire_fields last_field; simp)

lemma codes_SubmitSharesExtended: "encode_SubmitSharesExtended m = Ok bs \<Longrightarrow> codes decode_SubmitSharesExtended bs m"
  unfolding encode_SubmitSharesExtended_def decode_SubmitSharesExtended_def
  by (elim conjE wire_fields last_field; simp)

definition wf_CloseChannel :: "CloseChannel \<Rightarrow> bool" where
  "wf_CloseChannel m \<longleftrightarrow> utf8_string (m_cc_reason_code m)"

lemma codes_CloseChannel: "wf_CloseChannel m \<Longrightarrow> encode_CloseChannel m = Ok bs \<Longrightarrow> codes decode_CloseChannel bs m"
  unfolding encode_CloseChannel_def decode_CloseChannel_def wf_CloseChannel_def
  by (elim conjE wire_fields last_field; simp)

section \<open>Properties\<close>

text \<open>What a message promises: whatever follows its encoding in the buffer, decoding returns the
  message and leaves exactly what follows, and every proper prefix of it is an underflow.\<close>

definition round_trips :: "('a \<Rightarrow> bool) \<Rightarrow> ('a \<Rightarrow> Sv2CodecError + bytes) \<Rightarrow> 'a reader \<Rightarrow> bool" where
  "round_trips ok enc dec \<longleftrightarrow> (\<forall>m bs. ok m \<longrightarrow> enc m = Ok bs \<longrightarrow> codes dec bs m)"

lemma round_tripsI: "(\<And>m bs. ok m \<Longrightarrow> enc m = Ok bs \<Longrightarrow> codes dec bs m) \<Longrightarrow> round_trips ok enc dec"
  by (simp add: round_trips_def)

lemma round_trips_decode: "round_trips ok enc dec \<Longrightarrow> ok m \<Longrightarrow> enc m = Ok bs \<Longrightarrow> dec (bs @ rest) = Ok (m, rest)"
  by (simp add: round_trips_def codes_def)

text \<open>C21. Every message of the codec round trips: a well-formed message (32-byte hashes, UTF-8
  strings) that encodes is read back from the front of any buffer that starts with its encoding,
  with the rest of the buffer untouched, and every truncation of the encoding is refused as a
  buffer underflow.\<close>

theorem messages_round_trip:
  "round_trips wf_SetupConnection encode_SetupConnection decode_SetupConnection \<and>
   round_trips (\<lambda>_. True) encode_SetupConnectionSuccess decode_SetupConnectionSuccess \<and>
   round_trips wf_SetupConnectionError encode_SetupConnectionError decode_SetupConnectionError \<and>
   round_trips wf_OpenStandardMiningChannel encode_OpenStandardMiningChannel decode_OpenStandardMiningChannel \<and>
   round_trips wf_OpenStandardMiningChannelSuccess encode_OpenStandardMiningChannelSuccess decode_OpenStandardMiningChannelSuccess \<and>
   round_trips wf_OpenMiningChannelError encode_OpenMiningChannelError decode_OpenMiningChannelError \<and>
   round_trips wf_NewMiningJob encode_NewMiningJob decode_NewMiningJob \<and>
   round_trips wf_SetNewPrevHash encode_SetNewPrevHash decode_SetNewPrevHash \<and>
   round_trips wf_SetTarget encode_SetTarget decode_SetTarget \<and>
   round_trips (\<lambda>_. True) encode_SubmitSharesStandard decode_SubmitSharesStandard \<and>
   round_trips (\<lambda>_. True) encode_SubmitSharesSuccess decode_SubmitSharesSuccess \<and>
   round_trips wf_SubmitSharesError encode_SubmitSharesError decode_SubmitSharesError \<and>
   round_trips wf_OpenExtendedMiningChannel encode_OpenExtendedMiningChannel decode_OpenExtendedMiningChannel \<and>
   round_trips wf_OpenExtendedMiningChannelSuccess encode_OpenExtendedMiningChannelSuccess decode_OpenExtendedMiningChannelSuccess \<and>
   round_trips wf_NewExtendedMiningJob encode_NewExtendedMiningJob decode_NewExtendedMiningJob \<and>
   round_trips (\<lambda>_. True) encode_SubmitSharesExtended decode_SubmitSharesExtended \<and>
   round_trips wf_CloseChannel encode_CloseChannel decode_CloseChannel"
  by (intro conjI round_tripsI)
    (simp_all add: codes_SetupConnection codes_SetupConnectionSuccess codes_SetupConnectionError codes_OpenStandardMiningChannel
      codes_OpenStandardMiningChannelSuccess codes_OpenMiningChannelError codes_NewMiningJob codes_SetNewPrevHash
      codes_SetTarget codes_SubmitSharesStandard codes_SubmitSharesSuccess codes_SubmitSharesError
      codes_OpenExtendedMiningChannel codes_OpenExtendedMiningChannelSuccess codes_NewExtendedMiningJob
      codes_SubmitSharesExtended codes_CloseChannel)

theorem messages_round_trip_witness:
  "decode_CloseChannel [7, 0, 0, 0, 2, 111, 107, 9, 9] = Ok (\<lparr>m_cc_channel_id = 7, m_cc_reason_code = ''ok''\<rparr>, [9, 9])"
proof -
  let ?m = "\<lparr>m_cc_channel_id = 7, m_cc_reason_code = ''ok''\<rparr>"
  have "round_trips wf_CloseChannel encode_CloseChannel decode_CloseChannel"
    using messages_round_trip by blast
  moreover have "wf_CloseChannel ?m" by (simp add: wf_CloseChannel_def) code_simp
  moreover have "encode_CloseChannel ?m = Ok [7, 0, 0, 0, 2, 111, 107]" by code_simp
  ultimately show ?thesis using round_trips_decode [where rest = "[9, 9]"] by fastforce
qed

end
