(* ===== verification/RG_Allocators.thy ===== *)
theory RG_Allocators
  imports RG_Prelude
begin

text \<open>
  The three identifier allocators of the gateway: \<open>ChannelIdAllocator\<close> and
  \<open>ExtranonceAllocator\<close> (\<open>services/sv2-gateway/src/channels.rs\<close>) and \<open>JobIdAllocator\<close>
  (\<open>services/sv2-gateway/src/jobs.rs\<close>). Each is an atomic counter with an exhaustion flag. The
  locale \<open>id_allocator\<close> is what their clients rely on for calls made one after another: the
  values come from consecutive counter readings until the counter is used up. Calls on
  different threads interleave at their atomic operations; that is the step relation
  \<open>alloc_step\<close>.
\<close>

section \<open>The allocators\<close>

record AtomicCounter =
  ac_next :: u32
  ac_exhausted :: bool

definition counter_new :: AtomicCounter where
  "counter_new = \<lparr>ac_next = 1, ac_exhausted = False\<rparr>"

definition channel_id_allocate :: "AtomicCounter \<Rightarrow> u32 option \<times> AtomicCounter" where
  "channel_id_allocate c =
     (if ac_exhausted c then (None, c)
      else let id = ac_next c; c' = c\<lparr>ac_next := ac_next c + 1\<rparr> in
        if id = - 1 then (None, c'\<lparr>ac_exhausted := True\<rparr>) else (Some id, c'))"

definition job_id_allocate :: "AtomicCounter \<Rightarrow> u32 option \<times> AtomicCounter" where
  "job_id_allocate c =
     (if ac_exhausted c then (None, c)
      else let id = ac_next c; c' = c\<lparr>ac_next := ac_next c + 1\<rparr> in
        if id = - 1 then (None, c'\<lparr>ac_exhausted := True\<rparr>) else (Some id, c'))"

definition job_id_is_exhausted :: "AtomicCounter \<Rightarrow> bool" where
  "job_id_is_exhausted c = ac_exhausted c"

record ExtranonceAllocator =
  xa_counter :: AtomicCounter
  xa_prefix_len :: nat

text \<open>\<open>None\<close> is the panic of the range assertion.\<close>

definition with_prefix_len :: "nat \<Rightarrow> ExtranonceAllocator option" where
  "with_prefix_len prefix_len =
     (if 2 \<le> prefix_len \<and> prefix_len \<le> 8
      then Some \<lparr>xa_counter = counter_new, xa_prefix_len = prefix_len\<rparr> else None)"

definition extranonce_new :: ExtranonceAllocator where
  "extranonce_new = the (with_prefix_len 4)"

definition extranonce_prefix :: "nat \<Rightarrow> u32 \<Rightarrow> bytes" where
  "extranonce_prefix prefix_len val =
     (let copy_len = min prefix_len 4 in
      take copy_len (u32_to_le_bytes val) @ replicate (prefix_len - copy_len) 0)"

definition extranonce_allocate :: "ExtranonceAllocator \<Rightarrow> bytes option \<times> ExtranonceAllocator" where
  "extranonce_allocate a =
     (let c = xa_counter a in
      if ac_exhausted c then (None, a)
      else let val = ac_next c; c' = c\<lparr>ac_next := ac_next c + 1\<rparr> in
        if val = - 1 then (None, a\<lparr>xa_counter := c'\<lparr>ac_exhausted := True\<rparr>\<rparr>)
        else (Some (extranonce_prefix (xa_prefix_len a) val), a\<lparr>xa_counter := c'\<rparr>))"

section \<open>The contract of calls one after another\<close>

locale id_allocator =
  fixes allocate :: "'s \<Rightarrow> 'k option \<times> 's"
    and issued :: "'s \<Rightarrow> nat"
    and render :: "'s \<Rightarrow> nat \<Rightarrow> 'k"
    and limit :: nat
    and usable :: "'s \<Rightarrow> bool"
  assumes allocate_below: "usable s \<Longrightarrow> issued s < limit \<Longrightarrow>
        fst (allocate s) = Some (render s (issued s)) \<and> issued (snd (allocate s)) = Suc (issued s)"
    and allocate_spent: "usable s \<Longrightarrow> limit \<le> issued s \<Longrightarrow>
        fst (allocate s) = None \<and> issued (snd (allocate s)) = issued s"
    and allocate_usable: "usable s \<Longrightarrow> usable (snd (allocate s))"
    and allocate_render: "usable s \<Longrightarrow> render (snd (allocate s)) = render s"
begin

fun allocations :: "nat \<Rightarrow> 's \<Rightarrow> 'k option list" where
  "allocations 0 s = []"
| "allocations (Suc n) s = fst (allocate s) # allocations n (snd (allocate s))"

lemma allocations_eq:
  "usable s \<Longrightarrow> allocations n s =
    map (\<lambda>k. if issued s + k < limit then Some (render s (issued s + k)) else None) [0..<n]"
proof (induction n arbitrary: s)
  case (Suc n)
  have split: "map f [0..<Suc n] = f 0 # map (\<lambda>k. f (Suc k)) [0..<n]" for f :: "nat \<Rightarrow> 'k option"
    by (simp add: upt_conv_Cons map_Suc_upt [symmetric] comp_def del: upt_Suc)
  show ?case
  proof (cases "issued s < limit")
    case True
    then show ?thesis
      using Suc.IH [OF allocate_usable [OF Suc.prems]] allocate_below [OF Suc.prems True]
        allocate_render [OF Suc.prems]
      unfolding split by simp
  next
    case False
    then show ?thesis
      using Suc.IH [OF allocate_usable [OF Suc.prems]] allocate_spent [OF Suc.prems]
        allocate_render [OF Suc.prems]
      unfolding split by (simp add: not_less)
  qed
qed simp

lemma allocations_distinct:
  assumes "usable s" and "inj_on (render s) {..<limit}"
  shows "distinct (List.map_filter (\<lambda>x. x) (allocations n s))"
proof -
  have "List.map_filter (\<lambda>x. x) (allocations n s) =
      map (\<lambda>k. render s (issued s + k)) (filter (\<lambda>k. issued s + k < limit) [0..<n])"
    unfolding allocations_eq [OF assms(1)]
    by (simp add: map_filter_def filter_map comp_def)
  moreover have "inj_on (\<lambda>k. render s (issued s + k)) (set (filter (\<lambda>k. issued s + k < limit) [0..<n]))"
    using assms(2) by (intro inj_onI) (auto dest: inj_onD)
  ultimately show ?thesis by (simp add: distinct_map)
qed

text \<open>No wrap-around: once a call returns nothing, every later call does.\<close>

lemma allocations_spent:
  assumes "usable s" and "i \<le> j" and "j < n" and "allocations n s ! i = None"
  shows "allocations n s ! j = None"
  using assms by (auto simp: allocations_eq split: if_splits)

end

text \<open>The counter after \<open>n\<close> values: \<open>2 ^ 32 - 2\<close> of them are handed out, 1 to \<open>2 ^ 32 - 2\<close>.\<close>

definition counter_issued :: "AtomicCounter \<Rightarrow> nat" where
  "counter_issued c = (if ac_exhausted c then 2 ^ 32 - 2 else unat (ac_next c) - 1)"

definition counter_usable :: "AtomicCounter \<Rightarrow> bool" where
  "counter_usable c \<longleftrightarrow> ac_exhausted c \<or> 0 < ac_next c"

lemma unat_max_u32: "unat (- 1 :: u32) = 2 ^ 32 - 1"
  by (simp add: unat_max_word)

lemma counter_running:
  assumes "\<not> ac_exhausted c" and "counter_usable c"
  shows "ac_next c = of_nat (Suc (counter_issued c))" and "counter_issued c < 2 ^ 32 - 1"
    and "ac_next c = - 1 \<longleftrightarrow> counter_issued c = 2 ^ 32 - 2"
proof -
  have pos: "0 < unat (ac_next c)" using assms by (simp add: counter_usable_def unat_gt_0 word_gt_0)
  have "unat (ac_next c) < 2 ^ LENGTH(32)" by (rule unsigned_less)
  then show "counter_issued c < 2 ^ 32 - 1" using assms pos by (simp add: counter_issued_def)
  show "ac_next c = of_nat (Suc (counter_issued c))" using assms pos by (simp add: counter_issued_def)
  show "ac_next c = - 1 \<longleftrightarrow> counter_issued c = 2 ^ 32 - 2"
    using pos assms unat_max_u32 unfolding word_unat_eq_iff by (auto simp: counter_issued_def)
qed

text \<open>One successful reading of the counter.\<close>

lemma counter_advance:
  assumes "\<not> ac_exhausted c" and "counter_usable c" and "ac_next c \<noteq> - 1"
  shows "counter_usable (c\<lparr>ac_next := ac_next c + 1\<rparr>)"
    and "counter_issued (c\<lparr>ac_next := ac_next c + 1\<rparr>) = Suc (counter_issued c)"
proof -
  have "counter_issued c < 2 ^ 32 - 2" using counter_running [OF assms(1,2)] assms(3) by auto
  moreover have "ac_next c + 1 = of_nat (Suc (Suc (counter_issued c)))"
    using counter_running(1) [OF assms(1,2)] by simp
  ultimately have u: "unat (ac_next c + 1) = Suc (Suc (counter_issued c))"
    by (simp only: unat_of_nat) simp
  then show "counter_issued (c\<lparr>ac_next := ac_next c + 1\<rparr>) = Suc (counter_issued c)"
    using assms(1) by (simp add: counter_issued_def)
  show "counter_usable (c\<lparr>ac_next := ac_next c + 1\<rparr>)"
    using u by (auto simp: counter_usable_def word_gt_0)
qed

lemma channel_id_allocate_cases:
  assumes "counter_usable c"
  shows "counter_issued c < 2 ^ 32 - 2 \<Longrightarrow>
      channel_id_allocate c = (Some (of_nat (Suc (counter_issued c))), c\<lparr>ac_next := ac_next c + 1\<rparr>) \<and>
      \<not> ac_exhausted c \<and> ac_next c \<noteq> - 1"
    and "2 ^ 32 - 2 \<le> counter_issued c \<Longrightarrow>
      fst (channel_id_allocate c) = None \<and> ac_exhausted (snd (channel_id_allocate c))"
proof -
  assume a: "counter_issued c < 2 ^ 32 - 2"
  then have ne: "\<not> ac_exhausted c" by (auto simp: counter_issued_def)
  have "ac_next c \<noteq> - 1" using counter_running(3) [OF ne assms] a by simp
  then show "channel_id_allocate c = (Some (of_nat (Suc (counter_issued c))), c\<lparr>ac_next := ac_next c + 1\<rparr>) \<and>
      \<not> ac_exhausted c \<and> ac_next c \<noteq> - 1"
    using ne counter_running(1) [OF ne assms, symmetric] by (simp add: channel_id_allocate_def Let_def del: of_nat_Suc)
next
  assume a: "2 ^ 32 - 2 \<le> counter_issued c"
  show "fst (channel_id_allocate c) = None \<and> ac_exhausted (snd (channel_id_allocate c))"
  proof (cases "ac_exhausted c")
    case False
    then have "ac_next c = - 1" using counter_running(2,3) [OF False assms] a by simp
    then show ?thesis by (simp add: channel_id_allocate_def Let_def)
  qed (simp add: channel_id_allocate_def)
qed

interpretation channel_ids:
  id_allocator channel_id_allocate counter_issued "\<lambda>_ k. of_nat (Suc k)" "2 ^ 32 - 2" counter_usable
proof
  fix c assume u: "counter_usable c"
  show "counter_issued c < 2 ^ 32 - 2 \<Longrightarrow>
      fst (channel_id_allocate c) = Some (of_nat (Suc (counter_issued c))) \<and>
      counter_issued (snd (channel_id_allocate c)) = Suc (counter_issued c)"
    using channel_id_allocate_cases(1) [OF u] counter_advance(2) [OF _ u] by simp
  show "2 ^ 32 - 2 \<le> counter_issued c \<Longrightarrow>
      fst (channel_id_allocate c) = None \<and> counter_issued (snd (channel_id_allocate c)) = counter_issued c"
  proof -
    assume a: "2 ^ 32 - 2 \<le> counter_issued c"
    have "counter_issued c = 2 ^ 32 - 2"
      using a counter_running(2) [OF _ u] by (cases "ac_exhausted c") (auto simp: counter_issued_def)
    then show ?thesis using channel_id_allocate_cases(2) [OF u a] by (simp add: counter_issued_def)
  qed
  show "counter_usable (snd (channel_id_allocate c))"
    using channel_id_allocate_cases [OF u] counter_advance(1) [OF _ u]
    by (cases "counter_issued c < 2 ^ 32 - 2") (auto simp: counter_usable_def not_less)
qed simp_all

lemma job_id_allocate_eq: "job_id_allocate = channel_id_allocate"
  by (simp add: fun_eq_iff job_id_allocate_def channel_id_allocate_def)

interpretation job_ids:
  id_allocator job_id_allocate counter_issued "\<lambda>_ k. of_nat (Suc k)" "2 ^ 32 - 2" counter_usable
  unfolding job_id_allocate_eq by (rule channel_ids.id_allocator_axioms)

lemma extranonce_allocate_eq:
  "extranonce_allocate a =
    (let (r, c) = channel_id_allocate (xa_counter a)
     in (map_option (extranonce_prefix (xa_prefix_len a)) r, a\<lparr>xa_counter := c\<rparr>))"
  by (simp add: extranonce_allocate_def channel_id_allocate_def Let_def)

interpretation extranonces:
  id_allocator extranonce_allocate "\<lambda>a. counter_issued (xa_counter a)"
    "\<lambda>a k. extranonce_prefix (xa_prefix_len a) (of_nat (Suc k))" "2 ^ 32 - 2" "\<lambda>a. counter_usable (xa_counter a)"
proof
  fix a :: ExtranonceAllocator assume u: "counter_usable (xa_counter a)"
  note laws = channel_ids.allocate_below [OF u] channel_ids.allocate_spent [OF u] channel_ids.allocate_usable [OF u]
  show "counter_issued (xa_counter a) < 2 ^ 32 - 2 \<Longrightarrow>
      fst (extranonce_allocate a) = Some (extranonce_prefix (xa_prefix_len a) (of_nat (Suc (counter_issued (xa_counter a))))) \<and>
      counter_issued (xa_counter (snd (extranonce_allocate a))) = Suc (counter_issued (xa_counter a))"
    using laws(1) by (simp add: extranonce_allocate_eq split_beta del: of_nat_Suc)
  show "2 ^ 32 - 2 \<le> counter_issued (xa_counter a) \<Longrightarrow>
      fst (extranonce_allocate a) = None \<and>
      counter_issued (xa_counter (snd (extranonce_allocate a))) = counter_issued (xa_counter a)"
    using laws(2) by (simp add: extranonce_allocate_eq split_beta)
  show "counter_usable (xa_counter (snd (extranonce_allocate a)))"
    using laws(3) by (simp add: extranonce_allocate_eq split_beta)
  show "(\<lambda>k. extranonce_prefix (xa_prefix_len (snd (extranonce_allocate a))) (of_nat (Suc k))) =
      (\<lambda>k. extranonce_prefix (xa_prefix_len a) (of_nat (Suc k)))"
    by (simp add: extranonce_allocate_eq split_beta)
qed

section \<open>Prefixes\<close>

lemma length_extranonce_prefix: "length (extranonce_prefix n v) = n"
  by (simp add: extranonce_prefix_def Let_def)

text \<open>A prefix of four bytes or more holds the whole counter; a shorter one only its low bytes.\<close>

lemma extranonce_prefix_long_inject:
  "4 \<le> n \<Longrightarrow> extranonce_prefix n v = extranonce_prefix n w \<longleftrightarrow> v = w"
  by (simp add: extranonce_prefix_def Let_def u32_to_le_bytes_inject)

lemma take_to_le: "k \<le> n \<Longrightarrow> take k (to_le n v) = to_le k v"
proof (induction n arbitrary: k v)
  case (Suc n)
  then show ?case by (cases k) simp_all
qed simp

lemma extranonce_prefix_short:
  assumes "n \<le> 4"
  shows "extranonce_prefix n v = extranonce_prefix n w \<longleftrightarrow> unat v mod 256 ^ n = unat w mod 256 ^ n"
proof -
  have "extranonce_prefix n x = to_le n (unat x)" for x
    using assms by (simp add: extranonce_prefix_def Let_def u32_to_le_bytes_def take_to_le min_def)
  moreover have "to_le n a = to_le n b \<longleftrightarrow> a mod 256 ^ n = b mod 256 ^ n" for a b
    by (metis le_val_to_le length_to_le to_le_le_val)
  ultimately show ?thesis by simp
qed

section \<open>Threads\<close>

text \<open>One call of \<open>allocate\<close> on a thread: the flag is read, then the counter is incremented, then
  the flag is stored or the value returned. Between these any other thread may run.\<close>

datatype alloc_pc = Idle | Flag_read | Fetched u32

record alloc_state =
  as_counter :: AtomicCounter
  as_pc :: "nat \<Rightarrow> alloc_pc"
  as_returned :: "u32 list"

definition alloc_init :: alloc_state where
  "alloc_init = \<lparr>as_counter = counter_new, as_pc = (\<lambda>_. Idle), as_returned = []\<rparr>"

definition bump_counter :: "AtomicCounter \<Rightarrow> AtomicCounter" where
  "bump_counter c = c\<lparr>ac_next := ac_next c + 1\<rparr>"

inductive alloc_step :: "alloc_state \<Rightarrow> alloc_state \<Rightarrow> bool" where
  enter: "as_pc s t = Idle \<Longrightarrow> \<not> ac_exhausted (as_counter s) \<Longrightarrow>
    alloc_step s (s\<lparr>as_pc := (as_pc s)(t := Flag_read)\<rparr>)"
| refused: "as_pc s t = Idle \<Longrightarrow> ac_exhausted (as_counter s) \<Longrightarrow> alloc_step s s"
| fetch: "as_pc s t = Flag_read \<Longrightarrow>
    alloc_step s (s\<lparr>as_counter := bump_counter (as_counter s),
                    as_pc := (as_pc s)(t := Fetched (ac_next (as_counter s)))\<rparr>)"
| return: "as_pc s t = Fetched v \<Longrightarrow> v \<noteq> - 1 \<Longrightarrow>
    alloc_step s (s\<lparr>as_pc := (as_pc s)(t := Idle), as_returned := as_returned s @ [v]\<rparr>)"
| exhaust: "as_pc s t = Fetched (- 1) \<Longrightarrow>
    alloc_step s (s\<lparr>as_counter := (as_counter s)\<lparr>ac_exhausted := True\<rparr>, as_pc := (as_pc s)(t := Idle)\<rparr>)"

text \<open>Reachable with the number of increments so far.\<close>

inductive alloc_reach :: "nat \<Rightarrow> alloc_state \<Rightarrow> bool" where
  init: "alloc_reach 0 alloc_init"
| step: "alloc_reach n s \<Longrightarrow> alloc_step s s' \<Longrightarrow>
    alloc_reach (if ac_next (as_counter s') = ac_next (as_counter s) then n else Suc n) s'"

definition in_flight :: "alloc_state \<Rightarrow> u32 set" where
  "in_flight s = {v. \<exists>t. as_pc s t = Fetched v}"

text \<open>What holds until the counter has gone once around: values handed out or held by a thread are
  distinct readings of the counter so far.\<close>

definition alloc_inv :: "nat \<Rightarrow> alloc_state \<Rightarrow> bool" where
  "alloc_inv n s \<longleftrightarrow>
     ac_next (as_counter s) = of_nat (Suc n) \<and>
     (\<forall>v \<in> set (as_returned s) \<union> in_flight s. 0 < unat v \<and> unat v \<le> n) \<and>
     distinct (as_returned s) \<and> set (as_returned s) \<inter> in_flight s = {} \<and>
     (\<forall>t t' v. as_pc s t = Fetched v \<and> as_pc s t' = Fetched v \<longrightarrow> t = t') \<and>
     - 1 \<notin> set (as_returned s)"

lemma alloc_inv_fetch:
  assumes inv: "alloc_inv n s" and n: "Suc n < 2 ^ 32" and pc: "as_pc s t = Flag_read"
  shows "alloc_inv (Suc n) (s\<lparr>as_counter := bump_counter (as_counter s),
      as_pc := (as_pc s)(t := Fetched (ac_next (as_counter s)))\<rparr>)"
proof -
  let ?id = "ac_next (as_counter s)"
  have id: "unat ?id = Suc n" using inv n unfolding alloc_inv_def by (simp only: unat_of_nat) simp
  have flight: "in_flight (s\<lparr>as_counter := bump_counter (as_counter s),
      as_pc := (as_pc s)(t := Fetched ?id)\<rparr>) = insert ?id (in_flight s)"
    using pc by (auto simp: in_flight_def) (metis alloc_pc.distinct(5))
  have "?id \<notin> set (as_returned s) \<union> in_flight s"
    using inv id unfolding alloc_inv_def by (metis Suc_n_not_le_n)
  then show ?thesis
    using inv id unfolding alloc_inv_def flight
    by (auto simp: bump_counter_def in_flight_def le_SucI)
qed

lemma in_flight_done:
  assumes "alloc_inv n s" and "as_pc s t = Fetched v" and "as_pc s' = (as_pc s)(t := Idle)"
  shows "in_flight s' = in_flight s - {v}"
proof (rule set_eqI)
  fix x
  have "(\<exists>u. ((as_pc s)(t := Idle)) u = Fetched x) \<longleftrightarrow> (\<exists>u. as_pc s u = Fetched x) \<and> x \<noteq> v"
    using assms(1,2) unfolding alloc_inv_def by (metis alloc_pc.distinct(3) alloc_pc.inject fun_upd_apply)
  then show "x \<in> in_flight s' \<longleftrightarrow> x \<in> in_flight s - {v}" by (simp add: in_flight_def assms(3))
qed

lemma alloc_inv_step:
  assumes inv: "alloc_inv n s" and st: "alloc_step s s'"
    and n: "(if ac_next (as_counter s') = ac_next (as_counter s) then n else Suc n) < 2 ^ 32"
  shows "alloc_inv (if ac_next (as_counter s') = ac_next (as_counter s) then n else Suc n) s'"
  using st
proof cases
  case (enter t)
  moreover have "in_flight s' = in_flight s" using enter by (auto simp: in_flight_def) (metis alloc_pc.distinct)
  ultimately show ?thesis using inv by (auto simp: alloc_inv_def)
next
  case (refused t)
  then show ?thesis using inv by simp
next
  case (fetch t)
  have ne: "ac_next (as_counter s') \<noteq> ac_next (as_counter s)" using fetch by (simp add: bump_counter_def)
  then show ?thesis using alloc_inv_fetch [OF inv _ fetch(2)] n fetch(1) by simp
next
  case (return t v)
  have "in_flight s' = in_flight s - {v}"
    using in_flight_done [OF inv return(2)] return(1) by simp
  moreover have "v \<in> in_flight s" using return by (auto simp: in_flight_def)
  ultimately show ?thesis using return inv unfolding alloc_inv_def by (auto split: if_splits)
next
  case (exhaust t)
  have "in_flight s' = in_flight s - {- 1}"
    using in_flight_done [OF inv exhaust(2)] exhaust(1) by simp
  then show ?thesis using exhaust inv unfolding alloc_inv_def by (auto split: if_splits)
qed

lemma alloc_reach_inv: "alloc_reach n s \<Longrightarrow> n < 2 ^ 32 \<Longrightarrow> alloc_inv n s"
proof (induction rule: alloc_reach.induct)
  case init
  then show ?case by (simp add: alloc_inv_def alloc_init_def counter_new_def in_flight_def)
next
  case (step n s s')
  have "n < 2 ^ 32" using step.prems by (auto split: if_splits)
  from alloc_inv_step [OF step.IH [OF this] step.hyps(2) step.prems] show ?case .
qed

text \<open>A single thread can use the counter up to its last value.\<close>

lemma alloc_solo:
  "n < 2 ^ 32 - 1 \<Longrightarrow>
    \<exists>k s. alloc_reach k s \<and> as_pc s = (\<lambda>_. Idle) \<and> \<not> ac_exhausted (as_counter s) \<and>
      ac_next (as_counter s) = of_nat (Suc n)"
proof (induction n)
  case 0
  have "alloc_reach 0 alloc_init" by (rule alloc_reach.init)
  then show ?case by (intro exI [of _ 0] exI [of _ alloc_init]) (simp add: alloc_init_def counter_new_def)
next
  case (Suc n)
  then obtain k s where s: "alloc_reach k s" "as_pc s = (\<lambda>_. Idle)" "\<not> ac_exhausted (as_counter s)"
    "ac_next (as_counter s) = of_nat (Suc n)" by auto
  let ?id = "ac_next (as_counter s)"
  let ?s1 = "s\<lparr>as_pc := (as_pc s)(0 := Flag_read)\<rparr>"
  let ?s2 = "?s1\<lparr>as_counter := bump_counter (as_counter ?s1), as_pc := (as_pc ?s1)(0 := Fetched (ac_next (as_counter ?s1)))\<rparr>"
  let ?s3 = "?s2\<lparr>as_pc := (as_pc ?s2)(0 := Idle), as_returned := as_returned ?s2 @ [?id]\<rparr>"
  have "unat ?id = Suc n" using Suc.prems s(4) by (simp only: unat_of_nat) simp
  then have id: "?id \<noteq> - 1" using Suc.prems unat_max_u32 by auto
  have "alloc_step s ?s1" using s by (intro alloc_step.enter) simp_all
  moreover have "alloc_step ?s1 ?s2" by (rule alloc_step.fetch) simp
  moreover have "alloc_step ?s2 ?s3" using id by (intro alloc_step.return) simp_all
  ultimately have "\<exists>k. alloc_reach k ?s3" using s(1) by (blast intro: alloc_reach.step)
  moreover have "as_pc ?s3 = (\<lambda>_. Idle)" using s(2) by (simp add: fun_eq_iff)
  ultimately show ?case using s by (auto simp: bump_counter_def intro!: exI [of _ ?s3])
qed

text \<open>Two threads at the last value: one fetches it, the other wraps around before the flag is set.\<close>

lemma alloc_race:
  "\<exists>k s. alloc_reach k s \<and> 0 \<in> set (as_returned s)"
proof -
  obtain k s where s: "alloc_reach k s" "as_pc s = (\<lambda>_. Idle)" "\<not> ac_exhausted (as_counter s)"
    "ac_next (as_counter s) = of_nat (Suc (2 ^ 32 - 2))" using alloc_solo [of "2 ^ 32 - 2"] by auto
  have top: "ac_next (as_counter s) + 1 = 0" unfolding s(4) by (simp add: word_unat_eq_iff unat_of_nat)
  let ?s1 = "s\<lparr>as_pc := (as_pc s)(0 := Flag_read)\<rparr>"
  let ?s2 = "?s1\<lparr>as_pc := (as_pc ?s1)(1 := Flag_read)\<rparr>"
  let ?s3 = "?s2\<lparr>as_counter := bump_counter (as_counter ?s2), as_pc := (as_pc ?s2)(0 := Fetched (ac_next (as_counter ?s2)))\<rparr>"
  let ?s4 = "?s3\<lparr>as_counter := bump_counter (as_counter ?s3), as_pc := (as_pc ?s3)(1 := Fetched (ac_next (as_counter ?s3)))\<rparr>"
  let ?s5 = "?s4\<lparr>as_pc := (as_pc ?s4)(1 := Idle), as_returned := as_returned ?s4 @ [0]\<rparr>"
  have "alloc_step s ?s1" using s by (intro alloc_step.enter) simp_all
  moreover have "alloc_step ?s1 ?s2" using s by (intro alloc_step.enter) simp_all
  moreover have "alloc_step ?s2 ?s3" by (rule alloc_step.fetch) simp
  moreover have "alloc_step ?s3 ?s4" by (rule alloc_step.fetch) simp
  moreover have "alloc_step ?s4 ?s5" using top by (intro alloc_step.return) (simp_all add: bump_counter_def)
  ultimately have "\<exists>k. alloc_reach k ?s5" using s(1) by (blast intro: alloc_reach.step)
  moreover have "0 \<in> set (as_returned ?s5)" by simp
  ultimately show ?thesis by blast
qed

section \<open>Properties\<close>


lemma alloc_reach_same: "alloc_reach n s \<Longrightarrow> alloc_step s s' \<Longrightarrow> as_counter s' = as_counter s \<Longrightarrow> alloc_reach n s'"
  using alloc_reach.step [of n s s'] by simp

lemma alloc_reach_fetch:
  "alloc_reach n s \<Longrightarrow> alloc_step s s' \<Longrightarrow> as_counter s' = bump_counter (as_counter s) \<Longrightarrow> alloc_reach (Suc n) s'"
  using alloc_reach.step [of n s s'] by (simp add: bump_counter_def)


end
