(* ===== verification/RG_Jobs.thy ===== *)
theory RG_Jobs
  imports RG_Allocators RG_Shares
begin

text \<open>
  The job table of the gateway, \<open>services/sv2-gateway/src/jobs.rs\<close>: job records and their merkle
  roots, the activation time, the bounded table with its two kinds of eviction, and the
  template dedup cache (the job identifiers are in \<open>RG_Allocators\<close>). The \<open>BTreeMap\<close> is its
  list of entries in key order. An \<open>Instant\<close> is its number of nanoseconds, given to the
  operations that read the clock.
\<close>

section \<open>Ordered maps\<close>

text \<open>What the table uses of \<open>BTreeMap\<close>: entries in increasing key order.\<close>

fun btree_insert :: "'k::linorder \<Rightarrow> 'v \<Rightarrow> ('k \<times> 'v) list \<Rightarrow> ('k \<times> 'v) list" where
  "btree_insert k v [] = [(k, v)]"
| "btree_insert k v ((k', v') # m) =
     (if k < k' then (k, v) # (k', v') # m
      else if k = k' then (k, v) # m
      else (k', v') # btree_insert k v m)"

definition btree_remove :: "'k \<Rightarrow> ('k \<times> 'v) list \<Rightarrow> ('k \<times> 'v) list" where
  "btree_remove k m = filter (\<lambda>(k', v). k' \<noteq> k) m"

definition btree_inv :: "('k::linorder \<times> 'v) list \<Rightarrow> bool" where
  "btree_inv m \<longleftrightarrow> sorted_wrt (<) (map fst m)"

lemma btree_inv_simps [simp]:
  "btree_inv []"
  "btree_inv ((k, v) # m) \<longleftrightarrow> (\<forall>k' \<in> fst ` set m. k < k') \<and> btree_inv m"
  by (simp_all add: btree_inv_def)

lemma keys_btree_insert: "fst ` set (btree_insert k v m) = insert k (fst ` set m)"
  by (induction k v m rule: btree_insert.induct) (simp_all add: insert_commute)

lemma set_btree_insert: "set (btree_insert k v m) \<subseteq> insert (k, v) (set m)"
  by (induction k v m rule: btree_insert.induct) (auto split: if_splits)

lemma btree_inv_insert: "btree_inv m \<Longrightarrow> btree_inv (btree_insert k v m)"
proof (induction k v m rule: btree_insert.induct)
  case (2 k v k' v' m)
  then show ?case by (cases k k' rule: linorder_cases) (auto simp: keys_btree_insert)
qed simp

lemma map_of_btree_insert: "btree_inv m \<Longrightarrow> map_of (btree_insert k v m) = (map_of m)(k \<mapsto> v)"
proof (induction m)
  case (Cons e m)
  obtain k' v' where e: "e = (k', v')" by fastforce
  show ?case using Cons by (auto simp: e fun_eq_iff)
qed simp

lemma btree_inv_filter: "btree_inv m \<Longrightarrow> btree_inv (filter P m)"
  by (induction m) auto

lemma btree_insert_top: "(\<And>k'. k' \<in> fst ` set m \<Longrightarrow> k' < k) \<Longrightarrow> btree_insert k v m = m @ [(k, v)]"
proof (induction k v m rule: btree_insert.induct)
  case (2 k v k' v' m)
  have "k' < k" using 2(2) [of k'] by simp
  then have "\<not> k < k'" "k \<noteq> k'" by auto
  then show ?case using 2 by simp
qed simp

lemma btree_remove_first: "btree_inv ((k, v) # m) \<Longrightarrow> btree_remove k ((k, v) # m) = m"
  by (auto simp: btree_remove_def filter_id_conv)

lemma length_btree_insert: "length (btree_insert k v m) \<le> Suc (length m)"
  by (induction m) auto

section \<open>Job records\<close>

record JobRecord =
  jr_job_id :: u32
  jr_template_id :: u64
  jr_block_height :: u32
  jr_version :: u32
  jr_prev_hash :: hash32
  jr_nbits :: u32
  jr_coinbase_tx_prefix :: bytes
  jr_coinbase_tx_suffix :: bytes
  jr_merkle_path :: "hash32 list"
  jr_activation_min_ntime :: u32
  jr_raw_min_ntime :: u32
  jr_raw_curtime :: u32
  jr_source_instance_id :: string
  jr_activated :: bool
  jr_created_at :: nat

definition compute_merkle_root :: "crypto \<Rightarrow> bytes \<Rightarrow> bytes \<Rightarrow> bytes \<Rightarrow> hash32 list \<Rightarrow> hash32" where
  "compute_merkle_root C coinbase_tx_prefix extranonce coinbase_tx_suffix merkle_path =
     (let coinbase = coinbase_tx_prefix @ extranonce @ coinbase_tx_suffix in
      foldl (\<lambda>current sibling. sha256d C (current @ sibling)) (sha256d C coinbase) merkle_path)"

definition job_merkle_root :: "crypto \<Rightarrow> JobRecord \<Rightarrow> bytes \<Rightarrow> hash32" where
  "job_merkle_root C j extranonce =
     compute_merkle_root C (jr_coinbase_tx_prefix j) extranonce (jr_coinbase_tx_suffix j) (jr_merkle_path j)"

definition effective_min_ntime :: "u32 \<Rightarrow> u32 \<Rightarrow> u32 \<Rightarrow> u32 \<Rightarrow> u32" where
  "effective_min_ntime template_min_ntime template_curtime gateway_now skew_allowance =
     (let unclamped = max template_min_ntime template_curtime;
          ceiling = sat_add gateway_now skew_allowance
      in min unclamped ceiling)"

section \<open>The job table\<close>

record JobTable =
  jt_jobs :: "(u32 \<times> JobRecord) list"
  jt_retention_ms :: u64
  jt_max_entries :: nat

definition job_table_new :: "u64 \<Rightarrow> nat \<Rightarrow> JobTable" where
  "job_table_new retention_ms max_entries =
     \<lparr>jt_jobs = [], jt_retention_ms = retention_ms, jt_max_entries = max_entries\<rparr>"

definition job_fresh :: "JobTable \<Rightarrow> nat \<Rightarrow> JobRecord \<Rightarrow> bool" where
  "job_fresh t now j \<longleftrightarrow> now - jr_created_at j < unat (jt_retention_ms t) * 1000000"

definition evict_stale :: "nat \<Rightarrow> JobTable \<Rightarrow> JobTable" where
  "evict_stale now t = t\<lparr>jt_jobs := filter (\<lambda>(_, j). job_fresh t now j) (jt_jobs t)\<rparr>"

definition job_insert :: "nat \<Rightarrow> JobRecord \<Rightarrow> JobTable \<Rightarrow> JobTable" where
  "job_insert now job t0 =
     (let t = evict_stale now t0;
          t' = (if jt_max_entries t \<le> length (jt_jobs t)
                then (case jt_jobs t of
                        (oldest_id, _) # _ \<Rightarrow> t\<lparr>jt_jobs := btree_remove oldest_id (jt_jobs t)\<rparr>
                      | [] \<Rightarrow> t)
                else t)
      in t'\<lparr>jt_jobs := btree_insert (jr_job_id job) job (jt_jobs t')\<rparr>)"

definition job_get :: "JobTable \<Rightarrow> u32 \<Rightarrow> JobRecord option" where
  "job_get t job_id = map_of (jt_jobs t) job_id"

definition job_table_len :: "JobTable \<Rightarrow> nat" where
  "job_table_len t = length (jt_jobs t)"

definition job_table_is_empty :: "JobTable \<Rightarrow> bool" where
  "job_table_is_empty t \<longleftrightarrow> jt_jobs t = []"

definition job_latest :: "JobTable \<Rightarrow> JobRecord option" where
  "job_latest t = map_option snd (first (rev (jt_jobs t)))"

definition latest_for_prevhash :: "JobTable \<Rightarrow> hash32 \<Rightarrow> JobRecord option" where
  "latest_for_prevhash t prev_hash = find (\<lambda>j. jr_prev_hash j = prev_hash) (rev (map snd (jt_jobs t)))"

section \<open>The template dedup cache\<close>

record TemplateDedupCache =
  dc_seen :: "(string \<times> u64) set"
  dc_max_entries :: nat
  dc_current_source :: "string option"

definition dedup_cache_new :: "nat \<Rightarrow> TemplateDedupCache" where
  "dedup_cache_new max_entries = \<lparr>dc_seen = {}, dc_max_entries = max_entries, dc_current_source = None\<rparr>"

definition is_duplicate :: "string \<Rightarrow> u64 \<Rightarrow> TemplateDedupCache \<Rightarrow> bool \<times> TemplateDedupCache" where
  "is_duplicate source_instance_id template_id c =
     (let c1 = (if dc_current_source c \<noteq> Some source_instance_id
                then c\<lparr>dc_seen := {}, dc_current_source := Some source_instance_id\<rparr> else c) in
      if (source_instance_id, template_id) \<in> dc_seen c1 then (True, c1)
      else let c2 = (if dc_max_entries c1 \<le> card (dc_seen c1) then c1\<lparr>dc_seen := {}\<rparr> else c1)
        in (False, c2\<lparr>dc_seen := insert (source_instance_id, template_id) (dc_seen c2)\<rparr>))"

definition dedup_cache_remove :: "string \<Rightarrow> u64 \<Rightarrow> TemplateDedupCache \<Rightarrow> TemplateDedupCache" where
  "dedup_cache_remove source_instance_id template_id c =
     c\<lparr>dc_seen := dc_seen c - {(source_instance_id, template_id)}\<rparr>"

section \<open>What the table keeps\<close>

definition job_table_inv :: "JobTable \<Rightarrow> bool" where
  "job_table_inv t \<longleftrightarrow> btree_inv (jt_jobs t) \<and> (\<forall>(k, j) \<in> set (jt_jobs t). jr_job_id j = k) \<and>
     length (jt_jobs t) \<le> max 1 (jt_max_entries t)"

lemma job_table_inv_new [simp]: "job_table_inv (job_table_new r n)"
  by (simp add: job_table_inv_def job_table_new_def)

lemma job_table_inv_evict: "job_table_inv t \<Longrightarrow> job_table_inv (evict_stale now t)"
  by (auto simp: job_table_inv_def evict_stale_def btree_inv_filter intro: le_trans [OF length_filter_le])

text \<open>The entries an insertion keeps of those in the table: the fresh ones, less the oldest when
  the table is full.\<close>

definition kept_jobs :: "nat \<Rightarrow> JobTable \<Rightarrow> (u32 \<times> JobRecord) list" where
  "kept_jobs now t =
     (let fresh = filter (\<lambda>(_, j). job_fresh t now j) (jt_jobs t)
      in if jt_max_entries t \<le> length fresh then drop 1 fresh else fresh)"

lemma job_insert_eq:
  assumes "job_table_inv t"
  shows "job_insert now job t = t\<lparr>jt_jobs := btree_insert (jr_job_id job) job (kept_jobs now t)\<rparr>"
proof -
  let ?fresh = "filter (\<lambda>(_, j). job_fresh t now j) (jt_jobs t)"
  have inv: "btree_inv ?fresh" using assms by (simp add: job_table_inv_def btree_inv_filter)
  show ?thesis
  proof (cases ?fresh)
    case Nil
    then show ?thesis by (simp add: job_insert_def kept_jobs_def evict_stale_def Let_def)
  next
    case (Cons e es)
    obtain k j where e: "e = (k, j)" by fastforce
    have "btree_remove k ?fresh = es"
      using inv btree_remove_first [of k j es] Cons e by simp
    then show ?thesis
      using Cons e by (simp add: job_insert_def kept_jobs_def evict_stale_def Let_def)
  qed
qed

lemma kept_jobs_subset: "set (kept_jobs now t) \<subseteq> set (jt_jobs t)"
  by (auto simp: kept_jobs_def Let_def dest: in_set_dropD)

lemma kept_jobs_inv:
  assumes "job_table_inv t"
  shows "btree_inv (kept_jobs now t)" and "Suc (length (kept_jobs now t)) \<le> max 1 (jt_max_entries t)"
proof -
  let ?fresh = "filter (\<lambda>(_, j). job_fresh t now j) (jt_jobs t)"
  have "btree_inv ?fresh" using assms by (simp add: job_table_inv_def btree_inv_filter)
  then show "btree_inv (kept_jobs now t)"
    by (cases ?fresh) (auto simp: kept_jobs_def Let_def)
  have "length ?fresh \<le> max 1 (jt_max_entries t)"
    using assms by (simp add: job_table_inv_def le_trans [OF length_filter_le])
  then show "Suc (length (kept_jobs now t)) \<le> max 1 (jt_max_entries t)"
    by (auto simp: kept_jobs_def Let_def max_def split: if_splits)
qed

lemma job_table_inv_insert:
  assumes "job_table_inv t"
  shows "job_table_inv (job_insert now job t)"
proof -
  have "\<forall>(k, j) \<in> set (btree_insert (jr_job_id job) job (kept_jobs now t)). jr_job_id j = k"
    using assms kept_jobs_subset [of now t] set_btree_insert [of "jr_job_id job" job "kept_jobs now t"]
    unfolding job_table_inv_def by fastforce
  then show ?thesis
    using kept_jobs_inv [OF assms, of now] length_btree_insert [of "jr_job_id job" job "kept_jobs now t"] assms
    by (auto simp: job_insert_eq [OF assms] job_table_inv_def btree_inv_insert)
qed

lemma job_get_insert:
  assumes "job_table_inv t"
  shows "job_get (job_insert now job t) (jr_job_id job) = Some job"
  using kept_jobs_inv(1) [OF assms]
  by (simp add: job_get_def job_insert_eq [OF assms] map_of_btree_insert)

text \<open>With increasing identifiers the table is a queue: the inserted job is the latest, and the
  table holds the newest of the fresh jobs.\<close>

lemma job_insert_queue:
  assumes inv: "job_table_inv t" and top: "\<And>k. k \<in> fst ` set (jt_jobs t) \<Longrightarrow> k < jr_job_id job"
  shows "jt_jobs (job_insert now job t) =
    newest (max 1 (jt_max_entries t)) (filter (\<lambda>(_, j). job_fresh t now j) (jt_jobs t) @ [(jr_job_id job, job)])"
proof -
  let ?fresh = "filter (\<lambda>(_, j). job_fresh t now j) (jt_jobs t)"
  have len: "length ?fresh \<le> max 1 (jt_max_entries t)"
    using inv by (simp add: job_table_inv_def le_trans [OF length_filter_le])
  have "kept_jobs now t = newest (max 1 (jt_max_entries t) - 1) ?fresh"
    using len by (auto simp: kept_jobs_def Let_def newest_def max_def not_le split: if_splits)
  moreover have "btree_insert (jr_job_id job) job (kept_jobs now t) = kept_jobs now t @ [(jr_job_id job, job)]"
    using top kept_jobs_subset [of now t] by (intro btree_insert_top) auto
  ultimately show ?thesis by (simp add: job_insert_eq [OF inv] newest_snoc)
qed

lemma job_insert_latest:
  assumes "job_table_inv t" and "\<And>k. k \<in> fst ` set (jt_jobs t) \<Longrightarrow> k < jr_job_id job"
  shows "job_latest (job_insert now job t) = Some job"
  using job_insert_queue [OF assms] by (simp add: job_latest_def newest_snoc)

section \<open>The merkle root\<close>

lemma compute_merkle_root_append:
  "compute_merkle_root C p x s (path @ [h]) = sha256d C (compute_merkle_root C p x s path @ h)"
  by (simp add: compute_merkle_root_def Let_def)

lemma compute_merkle_root_length: "sha256_ok C \<Longrightarrow> length (compute_merkle_root C p x s path) = 32"
  by (induction path rule: rev_induct)
    (simp_all add: compute_merkle_root_append, simp_all add: compute_merkle_root_def sha256d_def sha256_ok_def)

lemma effective_min_ntime_value:
  "unat (effective_min_ntime a b now skew) = min (max (unat a) (unat b)) (min (unat now + unat skew) (2 ^ 32 - 1))"
  by (simp add: effective_min_ntime_def Let_def min_def max_def word_le_nat_alt unat_sat_add)

section \<open>The dedup cache\<close>

definition dedup_cache_inv :: "TemplateDedupCache \<Rightarrow> bool" where
  "dedup_cache_inv c \<longleftrightarrow> finite (dc_seen c) \<and> card (dc_seen c) \<le> max 1 (dc_max_entries c) \<and>
     (\<forall>(s, t) \<in> dc_seen c. dc_current_source c = Some s)"

lemma is_duplicate_inv:
  assumes "dedup_cache_inv c"
  shows "dedup_cache_inv (snd (is_duplicate s t c))"
  using assms by (auto simp: dedup_cache_inv_def is_duplicate_def Let_def card_insert_if)

lemma is_duplicate_spec:
  assumes "dedup_cache_inv c"
  shows "fst (is_duplicate s t c) \<longleftrightarrow> (s, t) \<in> dc_seen c"
    and "(s, t) \<in> dc_seen (snd (is_duplicate s t c))"
  using assms by (auto simp: dedup_cache_inv_def is_duplicate_def Let_def)

text \<open>Asking twice in a row, with a removal in between or not.\<close>

lemma is_duplicate_again:
  "fst (is_duplicate s t (snd (is_duplicate s t c)))"
  "\<not> fst (is_duplicate s t (dedup_cache_remove s t (snd (is_duplicate s t c))))"
  by (auto simp: is_duplicate_def dedup_cache_remove_def Let_def)

end
