(* ===== verification/RG_Channels.thy ===== *)
theory RG_Channels
  imports RG_Allocators RG_Shares
begin

text \<open>
  Mining channels, \<open>services/sv2-gateway/src/channels.rs\<close> (its identifier allocators are in
  \<open>RG_Allocators\<close>): the share rate limiter, variable difficulty, the state of a channel, the
  channels of one connection, the hashrate window and the process-wide registry. An
  \<open>Instant\<close> or \<open>Duration\<close> is its number of nanoseconds; the clock reading is an argument of
  what reads the clock.
\<close>

section \<open>The share rate limiter\<close>

record ShareRateLimiter =
  rl_rate :: u32
  rl_tokens :: f64
  rl_last_refill :: nat

definition rate_limiter_new :: "u32 \<Rightarrow> nat \<Rightarrow> ShareRateLimiter" where
  "rate_limiter_new rate now = \<lparr>rl_rate = rate, rl_tokens = f64_of_nat (unat rate), rl_last_refill = now\<rparr>"

definition refill :: "nat \<Rightarrow> ShareRateLimiter \<Rightarrow> ShareRateLimiter" where
  "refill now l =
     (let elapsed = now - rl_last_refill l;
          cap = f64_of_nat (unat (rl_rate l));
          added = f64_min (f64_mul (as_secs_f64 elapsed) cap) cap
      in l\<lparr>rl_tokens := f64_min (f64_add (rl_tokens l) added) cap, rl_last_refill := now\<rparr>)"

definition try_acquire :: "nat \<Rightarrow> ShareRateLimiter \<Rightarrow> bool \<times> ShareRateLimiter" where
  "try_acquire now l =
     (if rl_rate l = 0 then (True, l)
      else let l' = refill now l in
        if f64_le (F64 1) (rl_tokens l')
        then (True, l'\<lparr>rl_tokens := f64_sub (rl_tokens l') (F64 1)\<rparr>)
        else (False, l'))"

section \<open>Channel kinds and variable difficulty\<close>

datatype ChannelKind = Standard | Extended (min_extranonce_size: u16) (extranonce_size: u16)

definition is_extended :: "ChannelKind \<Rightarrow> bool" where
  "is_extended k = (case k of Extended _ _ \<Rightarrow> True | Standard \<Rightarrow> False)"

record VardiffState =
  vd_shares_since_retarget :: u64
  vd_retarget_start :: nat
  vd_current_difficulty :: u64
  vd_target_shares_per_min :: f64
  vd_retarget_interval :: nat
  vd_min_difficulty :: u64
  vd_max_difficulty :: u64
  vd_max_adjustment_factor :: f64

definition vardiff_new :: "nat \<Rightarrow> u64 \<Rightarrow> f64 \<Rightarrow> nat \<Rightarrow> u64 \<Rightarrow> u64 \<Rightarrow> f64 \<Rightarrow> VardiffState" where
  "vardiff_new now initial_difficulty target_shares_per_min retarget_interval min_difficulty
       max_difficulty max_adjustment_factor =
     \<lparr>vd_shares_since_retarget = 0, vd_retarget_start = now, vd_current_difficulty = initial_difficulty,
      vd_target_shares_per_min = target_shares_per_min, vd_retarget_interval = retarget_interval,
      vd_min_difficulty = min_difficulty, vd_max_difficulty = max_difficulty,
      vd_max_adjustment_factor = max_adjustment_factor\<rparr>"

definition record_share :: "nat \<Rightarrow> VardiffState \<Rightarrow> bool \<times> VardiffState" where
  "record_share now v =
     (vd_retarget_interval v \<le> now - vd_retarget_start v,
      v\<lparr>vd_shares_since_retarget := vd_shares_since_retarget v + 1\<rparr>)"

text \<open>The three statements every exit of \<open>evaluate_retarget\<close> runs.\<close>

definition reset_window :: "nat \<Rightarrow> VardiffState \<Rightarrow> VardiffState" where
  "reset_window now v = v\<lparr>vd_shares_since_retarget := 0, vd_retarget_start := now\<rparr>"

definition clamped_ratio :: "nat \<Rightarrow> VardiffState \<Rightarrow> f64" where
  "clamped_ratio now v =
     (let elapsed_secs = as_secs_f64 (now - vd_retarget_start v);
          observed_rate = f64_mul (f64_div (f64_of_nat (unat (vd_shares_since_retarget v))) elapsed_secs) (F64 60);
          ratio = (if f64_gt (vd_target_shares_per_min v) (F64 0)
                   then f64_div observed_rate (vd_target_shares_per_min v) else F64 1)
      in f64_min (f64_max ratio (f64_div (F64 1) (vd_max_adjustment_factor v))) (vd_max_adjustment_factor v))"

definition retarget_difficulty :: "nat \<Rightarrow> VardiffState \<Rightarrow> u64" where
  "retarget_difficulty now v =
     (let raw_new = f64_to_u64 (f64_mul (f64_of_nat (unat (vd_current_difficulty v))) (clamped_ratio now v))
      in min (max raw_new (vd_min_difficulty v)) (vd_max_difficulty v))"

definition evaluate_retarget :: "nat \<Rightarrow> VardiffState \<Rightarrow> u64 option \<times> VardiffState" where
  "evaluate_retarget now v =
     (if f64_lt (as_secs_f64 (now - vd_retarget_start v)) (F64 1) then (None, reset_window now v)
      else if f64_lt (f64_abs (f64_sub (clamped_ratio now v) (F64 1))) (f64_round (5 / 100))
      then (None, reset_window now v)
      else
        let new_diff = retarget_difficulty now v in
        if new_diff = vd_current_difficulty v then (None, reset_window now v)
        else (Some new_diff, reset_window now (v\<lparr>vd_current_difficulty := new_diff\<rparr>)))"

section \<open>Channel state\<close>

record ChannelState =
  ch_channel_id :: u32
  ch_extranonce_prefix :: bytes
  ch_kind :: ChannelKind
  ch_worker_id :: string
  ch_pool_account_id :: "string option"
  ch_maximum_target :: hash32
  ch_current_job_id :: "u32 option"
  ch_prevhash_sent_monotonic_ms :: "u64 option"
  ch_activation_min_ntime :: "u32 option"
  ch_group_channel_id :: u32
  ch_opened_at :: nat
  ch_closed :: bool
  ch_rate_limiter :: ShareRateLimiter
  ch_vardiff :: "VardiffState option"

definition channel_new ::
  "nat \<Rightarrow> u32 \<Rightarrow> bytes \<Rightarrow> string \<Rightarrow> string option \<Rightarrow> hash32 \<Rightarrow> u32 \<Rightarrow> ChannelState" where
  "channel_new now channel_id extranonce worker_id pool_account_id maximum_target max_shares_per_second =
     \<lparr>ch_channel_id = channel_id, ch_extranonce_prefix = extranonce, ch_kind = Standard,
      ch_worker_id = worker_id, ch_pool_account_id = pool_account_id,
      ch_maximum_target = maximum_target, ch_current_job_id = None,
      ch_prevhash_sent_monotonic_ms = None, ch_activation_min_ntime = None,
      ch_group_channel_id = 0, ch_opened_at = now, ch_closed = False,
      ch_rate_limiter = rate_limiter_new max_shares_per_second now, ch_vardiff = None\<rparr>"

definition channel_new_extended ::
  "nat \<Rightarrow> u32 \<Rightarrow> bytes \<Rightarrow> string \<Rightarrow> string option \<Rightarrow> hash32 \<Rightarrow> u32 \<Rightarrow> u16 \<Rightarrow> u16 \<Rightarrow> ChannelState" where
  "channel_new_extended now channel_id extranonce worker_id pool_account_id maximum_target
       max_shares_per_second min_size granted =
     \<lparr>ch_channel_id = channel_id, ch_extranonce_prefix = extranonce, ch_kind = Extended min_size granted,
      ch_worker_id = worker_id, ch_pool_account_id = pool_account_id,
      ch_maximum_target = maximum_target, ch_current_job_id = None,
      ch_prevhash_sent_monotonic_ms = None, ch_activation_min_ntime = None,
      ch_group_channel_id = 0, ch_opened_at = now, ch_closed = False,
      ch_rate_limiter = rate_limiter_new max_shares_per_second now, ch_vardiff = None\<rparr>"

definition record_prevhash_sent :: "u64 \<Rightarrow> u32 \<Rightarrow> u32 \<Rightarrow> ChannelState \<Rightarrow> ChannelState" where
  "record_prevhash_sent monotonic_ms job_id activation_min_ntime ch =
     ch\<lparr>ch_current_job_id := Some job_id, ch_activation_min_ntime := Some activation_min_ntime,
        ch_prevhash_sent_monotonic_ms := Some monotonic_ms\<rparr>"

definition record_active_job_sent :: "u32 \<Rightarrow> ChannelState \<Rightarrow> ChannelState" where
  "record_active_job_sent job_id ch = ch\<lparr>ch_current_job_id := Some job_id\<rparr>"

definition elapsed_since_prevhash_secs :: "u64 \<Rightarrow> ChannelState \<Rightarrow> u32 option" where
  "elapsed_since_prevhash_secs monotonic_ms ch =
     map_option (\<lambda>sent_ms. ucast (sat_sub monotonic_ms sent_ms div 1000)) (ch_prevhash_sent_monotonic_ms ch)"

section \<open>The channels of a connection\<close>

record ConnectionChannels =
  cc_channels :: "u32 \<rightharpoonup> ChannelState"
  cc_max_channels :: u32

definition connection_channels_new :: "u32 \<Rightarrow> ConnectionChannels" where
  "connection_channels_new max_channels = \<lparr>cc_channels = Map.empty, cc_max_channels = max_channels\<rparr>"

text \<open>\<open>entry(channel_id).or_insert(state)\<close>: an existing channel of that identifier stays.\<close>

definition or_insert :: "ConnectionChannels \<Rightarrow> u32 \<Rightarrow> ChannelState \<Rightarrow> ChannelState \<times> ConnectionChannels" where
  "or_insert cc channel_id state =
     (case cc_channels cc channel_id of
        Some ch \<Rightarrow> (ch, cc)
      | None \<Rightarrow> (state, cc\<lparr>cc_channels := (cc_channels cc)(channel_id \<mapsto> state)\<rparr>))"

definition open_channel ::
  "nat \<Rightarrow> u32 \<Rightarrow> bytes \<Rightarrow> string \<Rightarrow> string option \<Rightarrow> hash32 \<Rightarrow> u32 \<Rightarrow> ConnectionChannels
    \<Rightarrow> (GatewayReason + ChannelState) \<times> ConnectionChannels" where
  "open_channel now channel_id extranonce worker_id pool_account_id maximum_target max_shares_per_second cc =
     (if unat (cc_max_channels cc) \<le> card (dom (cc_channels cc)) then (Err GR_ChannelLimitExceeded, cc)
      else let (entry, cc') = or_insert cc channel_id
             (channel_new now channel_id extranonce worker_id pool_account_id maximum_target max_shares_per_second)
        in (Ok entry, cc'))"

definition open_extended_channel ::
  "nat \<Rightarrow> u32 \<Rightarrow> bytes \<Rightarrow> string \<Rightarrow> string option \<Rightarrow> hash32 \<Rightarrow> u32 \<Rightarrow> u16 \<Rightarrow> u16 \<Rightarrow> ConnectionChannels
    \<Rightarrow> (GatewayReason + ChannelState) \<times> ConnectionChannels" where
  "open_extended_channel now channel_id extranonce worker_id pool_account_id maximum_target
       max_shares_per_second min_size granted cc =
     (if unat (cc_max_channels cc) \<le> card (dom (cc_channels cc)) then (Err GR_ChannelLimitExceeded, cc)
      else let (entry, cc') = or_insert cc channel_id
             (channel_new_extended now channel_id extranonce worker_id pool_account_id maximum_target
               max_shares_per_second min_size granted)
        in (Ok entry, cc'))"

definition channel_get :: "ConnectionChannels \<Rightarrow> u32 \<Rightarrow> ChannelState option" where
  "channel_get cc channel_id =
     (case cc_channels cc channel_id of
        Some ch \<Rightarrow> if \<not> ch_closed ch then Some ch else None
      | None \<Rightarrow> None)"

text \<open>\<open>get_mut\<close>: what a caller does with the reference is the function \<open>f\<close>.\<close>

definition channel_modify :: "(ChannelState \<Rightarrow> ChannelState) \<Rightarrow> u32 \<Rightarrow> ConnectionChannels \<Rightarrow> ConnectionChannels" where
  "channel_modify f channel_id cc =
     (case channel_get cc channel_id of
        Some ch \<Rightarrow> cc\<lparr>cc_channels := (cc_channels cc)(channel_id \<mapsto> f ch)\<rparr>
      | None \<Rightarrow> cc)"

definition close_channel :: "u32 \<Rightarrow> ConnectionChannels \<Rightarrow> bool \<times> ConnectionChannels" where
  "close_channel channel_id cc =
     (case cc_channels cc channel_id of
        Some ch \<Rightarrow>
          if \<not> ch_closed ch
          then (True, cc\<lparr>cc_channels := (cc_channels cc)(channel_id \<mapsto> ch\<lparr>ch_closed := True\<rparr>)\<rparr>)
          else (False, cc)
      | None \<Rightarrow> (False, cc))"

definition open_ids :: "ConnectionChannels \<Rightarrow> u32 set" where
  "open_ids cc = {i. \<exists>ch. cc_channels cc i = Some ch \<and> \<not> ch_closed ch}"

definition open_count :: "ConnectionChannels \<Rightarrow> nat" where
  "open_count cc = card (open_ids cc)"

definition gc_closed :: "ConnectionChannels \<Rightarrow> ConnectionChannels" where
  "gc_closed cc = cc\<lparr>cc_channels := cc_channels cc |` open_ids cc\<rparr>"

section \<open>The hashrate window\<close>

record HashrateWindow =
  hw_samples :: "(u64 \<times> u64) list"
  hw_window_ms :: u64

definition hashrate_window_new :: "u64 \<Rightarrow> HashrateWindow" where
  "hashrate_window_new window_ms = \<lparr>hw_samples = [], hw_window_ms = window_ms\<rparr>"

definition hw_evict :: "u64 \<Rightarrow> HashrateWindow \<Rightarrow> HashrateWindow" where
  "hw_evict now_ms w =
     (let cutoff = sat_sub now_ms (hw_window_ms w)
      in w\<lparr>hw_samples := dropWhile (\<lambda>(ts, _). ts < cutoff) (hw_samples w)\<rparr>)"

definition hw_compute :: "u64 \<Rightarrow> HashrateWindow \<Rightarrow> f64" where
  "hw_compute now_ms w =
     (if hw_samples w = [] then F64 0
      else
        let sum_diff = sum_list (map (\<lambda>(_, d). ucast d) (hw_samples w)) :: u128;
            oldest_ts = (case hw_samples w of (ts, _) # _ \<Rightarrow> ts | [] \<Rightarrow> now_ms);
            elapsed_ms = max (sat_sub now_ms oldest_ts) 1000;
            elapsed_secs = f64_div (f64_of_nat (unat elapsed_ms)) (F64 1000);
            hashrate_hs = f64_div (f64_mul (f64_of_nat (unat sum_diff)) (F64 4294967296)) elapsed_secs
        in f64_div hashrate_hs (F64 1000000000000))"

definition hw_record :: "u64 \<Rightarrow> u64 \<Rightarrow> HashrateWindow \<Rightarrow> f64 \<times> HashrateWindow" where
  "hw_record now_ms difficulty w =
     (let w' = hw_evict now_ms (w\<lparr>hw_samples := hw_samples w @ [(now_ms, difficulty)]\<rparr>)
      in (hw_compute now_ms w', w'))"

definition hw_current :: "u64 \<Rightarrow> HashrateWindow \<Rightarrow> f64 \<times> HashrateWindow" where
  "hw_current now_ms w = (let w' = hw_evict now_ms w in (hw_compute now_ms w', w'))"

section \<open>The registry\<close>

record ChannelSnapshot =
  cs_channel_id :: u32
  cs_worker_id :: string
  cs_peer_addr :: string
  cs_opened_at_unix_ms :: u64
  cs_shares_submitted :: u64
  cs_shares_accepted :: u64
  cs_last_share_at_unix_ms :: u64
  cs_hashrate_th :: f64
  cs_hashrate_window :: HashrateWindow

type_synonym channel_registry = "u32 \<rightharpoonup> ChannelSnapshot"

definition registry_register :: "ChannelSnapshot \<Rightarrow> channel_registry \<Rightarrow> channel_registry" where
  "registry_register snap r = r(cs_channel_id snap \<mapsto> snap)"

definition registry_update_share :: "u64 \<Rightarrow> u32 \<Rightarrow> bool \<Rightarrow> u64 \<Rightarrow> channel_registry \<Rightarrow> channel_registry" where
  "registry_update_share now channel_id accepted difficulty r =
     (case r channel_id of
        None \<Rightarrow> r
      | Some e \<Rightarrow>
          let e1 = e\<lparr>cs_shares_submitted := cs_shares_submitted e + 1\<rparr>;
              e2 = (if accepted
                    then let (th, w) = hw_record now difficulty (cs_hashrate_window e1)
                      in e1\<lparr>cs_shares_accepted := cs_shares_accepted e1 + 1,
                            cs_hashrate_th := th, cs_hashrate_window := w\<rparr>
                    else e1)
          in r(channel_id \<mapsto> e2\<lparr>cs_last_share_at_unix_ms := now\<rparr>))"

definition registry_unregister :: "u32 \<Rightarrow> channel_registry \<Rightarrow> channel_registry" where
  "registry_unregister channel_id r = r(channel_id := None)"

definition snapshot_from_open :: "u64 \<Rightarrow> u32 \<Rightarrow> string \<Rightarrow> string \<Rightarrow> ChannelSnapshot" where
  "snapshot_from_open unix_ms_now channel_id worker_id peer_addr =
     \<lparr>cs_channel_id = channel_id, cs_worker_id = worker_id, cs_peer_addr = peer_addr,
      cs_opened_at_unix_ms = unix_ms_now, cs_shares_submitted = 0, cs_shares_accepted = 0,
      cs_last_share_at_unix_ms = 0, cs_hashrate_th = F64 0,
      cs_hashrate_window = hashrate_window_new 300000\<rparr>"

section \<open>Tokens\<close>

text \<open>With a limit in force the bucket holds a finite number of tokens between zero and the limit.\<close>

declare of_nat_unat [simp del]

definition limiter_inv :: "ShareRateLimiter \<Rightarrow> bool" where
  "limiter_inv l \<longleftrightarrow> (\<exists>x. rl_tokens l = F64 x \<and> 0 \<le> x \<and> x \<le> of_nat (unat (rl_rate l)))"

lemma rate_cap:
  "f64_of_nat (unat (r :: u32)) = F64 (of_nat (unat r))" "unat r < 2 ^ 53" "(of_nat (unat r) :: rat) \<le> 2 ^ 32"
proof -
  have r: "unat r < 2 ^ LENGTH(32)" by (rule unsigned_less)
  also have "(2::nat) ^ LENGTH(32) \<le> 2 ^ 53" by simp
  finally show lt: "unat r < 2 ^ 53" .
  show "f64_of_nat (unat r) = F64 (of_nat (unat r))" by (rule f64_of_nat_exact [OF lt])
  have "unat r \<le> 2 ^ 32" using r by simp
  then have "(of_nat (unat r) :: rat) \<le> of_nat (2 ^ 32)" by (simp only: of_nat_le_iff)
  then show "(of_nat (unat r) :: rat) \<le> 2 ^ 32" by simp
qed

lemma limiter_new_inv: "limiter_inv (rate_limiter_new r now)"
  by (simp add: limiter_inv_def rate_limiter_new_def rate_cap)

text \<open>What a refill after \<open>n\<close> nanoseconds adds.\<close>

lemma refill_added:
  assumes "n < 2 ^ 64 * 1000000000"
  shows "\<exists>y. f64_min (f64_mul (as_secs_f64 n) (f64_of_nat (unat (r :: u32)))) (f64_of_nat (unat r)) = F64 y \<and>
    0 \<le> y \<and> y \<le> of_nat (unat r) \<and> (1000000000 \<le> n \<longrightarrow> y = of_nat (unat r)) \<and> (n = 0 \<longrightarrow> y = 0)"
proof -
  let ?c = "of_nat (unat r) :: rat"
  obtain x where x: "as_secs_f64 n = F64 x" "0 \<le> x" "x \<le> 2 ^ 65" "1000000000 \<le> n \<longrightarrow> 1 \<le> x"
    using as_secs_f64_finite [OF assms] by blast
  have "x * ?c \<le> 2 ^ 65 * 2 ^ 32" using x rate_cap(3) [of r] by (intro mult_mono) simp_all
  also have "\<dots> = 2 ^ 97" by simp
  also have "\<dots> \<le> (2 :: rat) ^ 1023" by (rule power_increasing) simp_all
  finally have big: "x * ?c \<le> 2 ^ 1023" .
  have nn: "0 \<le> x * ?c" using x(2) by simp
  have mul: "f64_mul (as_secs_f64 n) (f64_of_nat (unat r)) = F64 (rnd (x * ?c))"
    by (simp only: x(1) rate_cap(1) f64_mul.simps f64_round_finite [OF nn big])
  have "?c \<le> rnd (x * ?c)" if "1000000000 \<le> n"
  proof (rule rnd_ge_nat [OF _ rate_cap(2)])
    have "1 * ?c \<le> x * ?c" using x(4) that by (intro mult_right_mono) simp_all
    then show "?c \<le> x * ?c" by simp
  qed
  moreover have "rnd (x * ?c) = 0" if "n = 0" using that x(1) by simp
  ultimately show ?thesis
    unfolding mul unfolding rate_cap(1) f64_min_finite using rnd_nonneg [OF nn] by (auto simp: min_def)
qed

lemma refill_tokens:
  assumes inv: "limiter_inv l" and n: "now - rl_last_refill l < 2 ^ 64 * 1000000000"
  shows "limiter_inv (refill now l)" and "rl_rate (refill now l) = rl_rate l"
    and "1000000000 \<le> now - rl_last_refill l \<Longrightarrow> rl_tokens (refill now l) = F64 (of_nat (unat (rl_rate l)))"
    and "now = rl_last_refill l \<Longrightarrow> rl_tokens l = F64 (of_nat k) \<Longrightarrow> rl_tokens (refill now l) = F64 (of_nat k)"
proof -
  let ?c = "of_nat (unat (rl_rate l)) :: rat"
  obtain x where x: "rl_tokens l = F64 x" "0 \<le> x" "x \<le> ?c" using inv by (auto simp: limiter_inv_def)
  obtain y where y: "f64_min (f64_mul (as_secs_f64 (now - rl_last_refill l)) (f64_of_nat (unat (rl_rate l))))
      (f64_of_nat (unat (rl_rate l))) = F64 y" "0 \<le> y" "y \<le> ?c"
      "1000000000 \<le> now - rl_last_refill l \<longrightarrow> y = ?c" "now - rl_last_refill l = 0 \<longrightarrow> y = 0"
    using refill_added [OF n] by blast
  have "x + y \<le> 2 ^ 32 + 2 ^ 32" using x y rate_cap(3) [of "rl_rate l"] by (intro add_mono) (auto intro: order_trans)
  also have "\<dots> = 2 ^ 33" by simp
  also have "\<dots> \<le> (2 :: rat) ^ 1023" by (rule power_increasing) simp_all
  finally have big: "x + y \<le> (2 :: rat) ^ 1023" .
  have tok: "rl_tokens (refill now l) = F64 (min (rnd (x + y)) ?c)"
    unfolding refill_def Let_def y(1) x(1) f64_add_finite [OF x(2) y(2) big]
    unfolding rate_cap(1) f64_min_finite by simp
  have nn: "0 \<le> rnd (x + y)" using x y by (intro rnd_nonneg) simp
  show rate: "rl_rate (refill now l) = rl_rate l" by (simp add: refill_def Let_def)
  show "limiter_inv (refill now l)" using tok nn by (simp add: limiter_inv_def rate)
  show "rl_tokens (refill now l) = F64 ?c" if "1000000000 \<le> now - rl_last_refill l"
  proof -
    have "?c \<le> rnd (x + y)" using that x(2) y(4) by (intro rnd_ge_nat [OF _ rate_cap(2)]) simp
    then show ?thesis by (simp add: tok)
  qed
  show "rl_tokens (refill now l) = F64 (of_nat k)" if "now = rl_last_refill l" "rl_tokens l = F64 (of_nat k)"
  proof -
    have xk: "x = of_nat k" "y = 0" using that x(1) y(5) by auto
    have "k < 2 ^ 53" using x(3) xk rate_cap(2) [of "rl_rate l"] by simp
    then show ?thesis using tok xk x(3) rnd_exact_nat [of k] by simp
  qed
qed

lemma try_acquire_inv:
  assumes inv: "limiter_inv l" and n: "now - rl_last_refill l < 2 ^ 64 * 1000000000"
  shows "limiter_inv (snd (try_acquire now l))"
proof (cases "rl_rate l = 0 \<or> \<not> f64_le (F64 1) (rl_tokens (refill now l))")
  case True
  then show ?thesis using inv refill_tokens(1) [OF inv n] by (auto simp: try_acquire_def Let_def)
next
  case False
  obtain x where x: "rl_tokens (refill now l) = F64 x" "0 \<le> x" "x \<le> of_nat (unat (rl_rate l))"
    using refill_tokens(1,2) [OF inv n] by (auto simp: limiter_inv_def)
  have x1: "0 \<le> x - 1" "x - 1 \<le> of_nat (unat (rl_rate l))" using False x by auto
  have "x - 1 \<le> 2 ^ 32" using x1(2) rate_cap(3) by (rule order_trans)
  also have "\<dots> \<le> (2 :: rat) ^ 1023" by (rule power_increasing) simp_all
  finally have "f64_sub (F64 x) (F64 1) = F64 (rnd (x - 1))"
    using x1 by (simp add: f64_sub_def f64_round_finite)
  moreover have "0 \<le> rnd (x - 1)" by (rule rnd_nonneg [OF x1(1)])
  moreover have "rnd (x - 1) \<le> of_nat (unat (rl_rate l))" by (rule rnd_le_nat [OF x1 rate_cap(2)])
  ultimately show ?thesis
    using False x refill_tokens(2) [OF inv n] by (simp add: try_acquire_def Let_def limiter_inv_def)
qed

text \<open>At one instant, \<open>k\<close> tokens admit exactly \<open>k\<close> shares.\<close>

fun acquire_many :: "nat \<Rightarrow> nat \<Rightarrow> ShareRateLimiter \<Rightarrow> bool list \<times> ShareRateLimiter" where
  "acquire_many now 0 l = ([], l)"
| "acquire_many now (Suc n) l =
     (let (ok, l') = try_acquire now l; (oks, l'') = acquire_many now n l' in (ok # oks, l''))"

lemma refill_same:
  assumes "rl_last_refill l = now" and "rl_tokens l = F64 (of_nat k)" and "k \<le> unat (rl_rate l)"
  shows "refill now l = l"
proof -
  have inv: "limiter_inv l" using assms by (simp add: limiter_inv_def)
  have "rl_tokens (refill now l) = F64 (of_nat k)"
    by (rule refill_tokens(4) [OF inv _ assms(1) [symmetric] assms(2)]) (simp only: assms(1) diff_self_eq_0, simp)
  moreover have "refill now l = l\<lparr>rl_tokens := rl_tokens (refill now l)\<rparr>"
    using assms(1) by (simp add: refill_def Let_def)
  ultimately show ?thesis using assms(2) by (cases l) simp
qed

lemma try_acquire_exact:
  assumes "rl_rate l \<noteq> 0" and "rl_last_refill l = now" and "rl_tokens l = F64 (of_nat k)" and "k \<le> unat (rl_rate l)"
  shows "try_acquire now l = (0 < k, l\<lparr>rl_tokens := F64 (of_nat (k - 1))\<rparr>)"
proof -
  have r: "refill now l = l" by (rule refill_same [OF assms(2-4)])
  show ?thesis
  proof (cases k)
    case 0
    then show ?thesis using assms r by (cases l) (simp add: try_acquire_def Let_def)
  next
    case (Suc j)
    have "j < 2 ^ 53" using Suc assms(4) rate_cap(2) [of "rl_rate l"] by simp
    then have "f64_round (of_nat j) = F64 (of_nat j)" using f64_of_nat_exact by (simp add: f64_of_nat_def)
    then show ?thesis using assms r Suc by (simp add: try_acquire_def Let_def f64_sub_def)
  qed
qed

lemma acquire_many_exact:
  assumes "rl_rate l \<noteq> 0" and "rl_last_refill l = now" and "rl_tokens l = F64 (of_nat k)" and "k \<le> unat (rl_rate l)"
  shows "fst (acquire_many now n l) = map (\<lambda>i. i < k) [0..<n]"
  using assms
proof (induction n arbitrary: l k)
  case (Suc n)
  let ?l' = "l\<lparr>rl_tokens := F64 (of_nat (k - 1))\<rparr>"
  have "fst (acquire_many now n ?l') = map (\<lambda>i. i < k - 1) [0..<n]"
    using Suc.prems by (intro Suc.IH) simp_all
  moreover have "map (\<lambda>i. i < k) [0..<Suc n] = (0 < k) # map (\<lambda>i. Suc i < k) [0..<n]"
    by (simp add: upt_conv_Cons map_Suc_upt [symmetric] comp_def del: upt_Suc)
  ultimately show ?case
    using try_acquire_exact [OF Suc.prems] by (simp add: split_beta less_diff_conv del: upt_Suc)
qed simp

section \<open>Retargeting\<close>

lemma evaluate_retarget_cases:
  assumes "evaluate_retarget now v = (r, v')"
  obtains (kept) "r = None" "v' = reset_window now v"
  | (moved) d where "r = Some d" "v' = reset_window now (v\<lparr>vd_current_difficulty := d\<rparr>)"
      "d \<noteq> vd_current_difficulty v" "d = retarget_difficulty now v"
  using assms by (auto simp: evaluate_retarget_def Let_def split: if_splits)

lemma retarget_difficulty_bounds:
  "retarget_difficulty now v \<le> vd_max_difficulty v"
  "vd_min_difficulty v \<le> vd_max_difficulty v \<Longrightarrow> vd_min_difficulty v \<le> retarget_difficulty now v"
  by (simp_all add: retarget_difficulty_def Let_def)

section \<open>Capacity\<close>

definition channels_inv :: "ConnectionChannels \<Rightarrow> bool" where
  "channels_inv cc \<longleftrightarrow> finite (dom (cc_channels cc)) \<and> card (dom (cc_channels cc)) \<le> unat (cc_max_channels cc)"

lemma or_insert_dom: "dom (cc_channels (snd (or_insert cc i st))) = insert i (dom (cc_channels cc))"
  by (auto simp: or_insert_def split: option.splits)

lemma or_insert_max [simp]: "cc_max_channels (snd (or_insert cc i st)) = cc_max_channels cc"
  by (simp add: or_insert_def split: option.splits)

text \<open>Both openings are this one.\<close>

definition open_with :: "u32 \<Rightarrow> ChannelState \<Rightarrow> ConnectionChannels \<Rightarrow> (GatewayReason + ChannelState) \<times> ConnectionChannels" where
  "open_with i st cc =
     (if unat (cc_max_channels cc) \<le> card (dom (cc_channels cc)) then (Err GR_ChannelLimitExceeded, cc)
      else (Ok (fst (or_insert cc i st)), snd (or_insert cc i st)))"

lemma open_channel_with:
  "open_channel now i x w p t m cc = open_with i (channel_new now i x w p t m) cc"
  "open_extended_channel now i x w p t m a b cc = open_with i (channel_new_extended now i x w p t m a b) cc"
  by (simp_all add: open_channel_def open_extended_channel_def open_with_def split_beta)

lemma open_with_inv: "channels_inv cc \<Longrightarrow> channels_inv (snd (open_with i st cc))"
  by (auto simp: channels_inv_def open_with_def or_insert_dom card_insert_if)

lemma close_channel_dom:
  "dom (cc_channels (snd (close_channel i cc))) = dom (cc_channels cc)"
  "cc_max_channels (snd (close_channel i cc)) = cc_max_channels cc"
  by (auto simp: close_channel_def split: option.splits)

lemma close_channel_open_ids: "open_ids (snd (close_channel i cc)) = open_ids cc - {i}"
  by (auto simp: close_channel_def open_ids_def split: option.splits)

lemma gc_closed_dom: "dom (cc_channels (gc_closed cc)) = open_ids cc"
  by (auto simp: gc_closed_def open_ids_def)

lemma gc_closed_max [simp]: "cc_max_channels (gc_closed cc) = cc_max_channels cc"
  by (simp add: gc_closed_def)

text \<open>Closing frees no capacity; collecting does.\<close>

lemma closed_keeps_slot:
  "card (dom (cc_channels cc)) = unat (cc_max_channels cc) \<Longrightarrow>
    fst (open_with i st (snd (close_channel j cc))) = Err GR_ChannelLimitExceeded"
  by (simp add: open_with_def close_channel_dom)

lemma collected_frees_slot:
  assumes "channels_inv cc" and "j \<in> open_ids cc"
  shows "\<not> isl (fst (open_with i st (gc_closed (snd (close_channel j cc)))))"
proof -
  have sub: "open_ids cc \<subseteq> dom (cc_channels cc)" by (auto simp: open_ids_def)
  then have "card (open_ids cc - {j}) < card (open_ids cc)"
    using assms by (intro psubset_card_mono) (auto simp: channels_inv_def finite_subset)
  also have "\<dots> \<le> unat (cc_max_channels cc)"
    using assms(1) card_mono [OF _ sub] by (auto simp: channels_inv_def)
  finally show ?thesis
    by (simp add: open_with_def gc_closed_dom close_channel_open_ids close_channel_dom)
qed

section \<open>The window and the registry\<close>

lemma hw_record_recent:
  assumes "sorted (map fst (hw_samples w))" and "\<And>ts d. (ts, d) \<in> set (hw_samples w) \<Longrightarrow> ts \<le> now"
    and "(ts, d) \<in> set (hw_samples (snd (hw_record now difficulty w)))"
  shows "unat now \<le> unat ts + unat (hw_window_ms w)"
proof -
  let ?s = "hw_samples w @ [(now, difficulty)]" and ?cut = "sat_sub now (hw_window_ms w)"
  have in_s: "(ts, d) \<in> set (dropWhile (\<lambda>(ts, _). ts < ?cut) ?s)"
    using assms(3) by (simp add: hw_record_def hw_evict_def Let_def)
  have sorted: "sorted (map fst ?s)" using assms(1,2) by (auto simp: sorted_append)
  have "?cut \<le> ts"
  proof (cases "dropWhile (\<lambda>(ts, _). ts < ?cut) ?s")
    case (Cons e es)
    have "\<not> fst e < ?cut" using hd_dropWhile [of "\<lambda>(ts, _). ts < ?cut" ?s] Cons by (simp add: split_beta)
    moreover have "sorted (map fst (e # es))"
      unfolding Cons [symmetric] dropWhile_eq_drop drop_map [symmetric] using sorted by (rule sorted_wrt_drop)
    moreover have "ts \<in> fst ` set (e # es)" using in_s Cons by force
    ultimately show ?thesis by auto
  qed (use in_s in simp)
  then show ?thesis by (simp add: word_le_nat_alt unat_sat_sub)
qed

definition registry_inv :: "channel_registry \<Rightarrow> bool" where
  "registry_inv r \<longleftrightarrow> (\<forall>i e. r i = Some e \<longrightarrow> cs_channel_id e = i \<and> cs_shares_accepted e \<le> cs_shares_submitted e)"

lemma registry_update_share_inv:
  assumes "registry_inv r" and "\<And>e. r i = Some e \<Longrightarrow> cs_shares_submitted e \<noteq> - 1"
  shows "registry_inv (registry_update_share now i accepted d r)"
proof -
  have "x + 1 \<le> y + 1 \<and> x \<le> y + 1" if "x \<le> y" "y \<noteq> - 1" for x y :: u64
  proof -
    have "1 + y \<noteq> 0" using that(2) by (metis add.commute add_eq_0_iff)
    then have "unat (y + 1) = Suc (unat y)" using unatSuc [of y] by (simp add: add.commute)
    moreover have "unat (x + 1) \<le> Suc (unat x)" using unatSuc [of x] by (cases "1 + x = 0") (simp_all add: add.commute)
    ultimately show ?thesis using that(1) by (simp add: word_le_nat_alt)
  qed
  then show ?thesis
    using assms by (auto simp: registry_inv_def registry_update_share_def Let_def split_beta split: option.splits)
qed

section \<open>Properties\<close>

text \<open>The token bucket of a channel bounds what a miner gets through: in any run of submissions the
  bucket holds between zero and its rate of tokens, a full second without submissions fills it,
  and from a full bucket a burst at one instant is admitted up to exactly the configured rate and
  refused beyond it.\<close>

theorem rate_limit_exact:
  assumes "limiter_inv l" and "rl_rate l \<noteq> 0" and "rl_last_refill l + 1000000000 \<le> now" and "now < 2 ^ 64 * 1000000000"
  shows "limiter_inv (snd (try_acquire now l)) \<and> fst (acquire_many now n l) = map (\<lambda>i. i < unat (rl_rate l)) [0..<n]"
proof -
  let ?l = "refill now l"
  have t: "now - rl_last_refill l < 2 ^ 64 * 1000000000" using assms(4) by linarith
  have rate: "rl_rate ?l = rl_rate l" by (rule refill_tokens(2) [OF assms(1) t])
  have full: "rl_tokens ?l = F64 (of_nat (unat (rl_rate l)))"
    using assms(3) by (intro refill_tokens(3) [OF assms(1) t]) linarith
  have now: "rl_last_refill ?l = now" by (simp add: refill_def Let_def)
  have "refill now ?l = ?l" using refill_same [OF now full] rate by simp
  then have "try_acquire now l = try_acquire now ?l" using rate assms(2) by (simp add: try_acquire_def)
  then have "acquire_many now n l = acquire_many now n ?l \<or> n = 0" by (cases n) simp_all
  moreover have "fst (acquire_many now n ?l) = map (\<lambda>i. i < unat (rl_rate l)) [0..<n]"
    using acquire_many_exact [OF _ now full] rate assms(2) by simp
  ultimately show ?thesis using try_acquire_inv [OF assms(1) t] by auto
qed

theorem rate_limit_exact_witness:
  "fst (acquire_many 2000000000 5 (rate_limiter_new 3 7)) = [True, True, True, False, False]"
  using rate_limit_exact [of "rate_limiter_new 3 7" 2000000000 5] limiter_new_inv [of 3 7]
  by (simp add: rate_limiter_new_def upt_rec)

end
