(* ===== verification/RG_Handler.thy ===== *)
theory RG_Handler
  imports RG_Codec RG_Jobs RG_Channels
begin

text \<open>
  The connection handler of the gateway, \<open>services/sv2-gateway/src/handler.rs\<close>: the setup
  exchange, channel opening and closing, the two share submission handlers, retargeting, job
  distribution and the session loop. A handler changes \<open>handler_state\<close> and ends in a \<open>flow\<close>: a
  result, an exit of the connection, or a panic where the code reaches \<open>unreachable!\<close>. What it
  reads from its surroundings is \<open>handler_env\<close>; the clocks are read once per frame. The transport
  is the list of frames written, each write succeeding or not as the environment says; a bounded
  queue is its contents, and a send to a full or closed one fails. SHA-256, HMAC, hex and JSON are
  the parameters of \<open>shares.rs\<close>.
\<close>

section \<open>Configuration, state and exits\<close>

record PrevhashUpdate =
  pu_prev_hash :: hash32
  pu_min_ntime :: u32
  pu_nbits :: u32

record JobBroadcast =
  jb_job_id :: u32
  jb_version :: u32
  jb_coinbase_tx_prefix :: bytes
  jb_coinbase_tx_suffix :: bytes
  jb_merkle_path :: "hash32 list"
  jb_prevhash_update :: "PrevhashUpdate option"
  jb_min_ntime :: "u32 option"

datatype HandlerExit =
    SetupRejected string
  | TransportError
  | Shutdown
  | ChannelOpenTimeout
  | CodecError Sv2CodecError

fun as_gateway_reason :: "HandlerExit \<Rightarrow> GatewayReason" where
  "as_gateway_reason (SetupRejected _) = GR_SetupConnectionRejected"
| "as_gateway_reason TransportError = GR_PeerTransportError"
| "as_gateway_reason Shutdown = GR_ShutdownDrain"
| "as_gateway_reason ChannelOpenTimeout = GR_ChannelOpenTimeout"
| "as_gateway_reason (CodecError _) = GR_FrameDecodeError"

record HandlerConfig =
  hc_max_channels_per_conn :: u32
  hc_channel_target :: hash32
  hc_ntime_elapsed_slack_seconds :: u32
  hc_max_future_block_time_seconds :: u32
  hc_share_dedup_window_size :: nat
  hc_max_shares_per_second_per_channel :: u32
  hc_gateway_instance_id :: string
  hc_share_hmac_secret :: bytes
  hc_extended_channels_enabled :: bool
  hc_extranonce_prefix_len :: nat
  hc_vardiff_enabled :: bool
  hc_vardiff_target_shares_per_min :: f64
  hc_vardiff_retarget_interval :: nat
  hc_vardiff_min_difficulty :: u64
  hc_vardiff_max_difficulty :: u64
  hc_vardiff_max_adjustment_factor :: f64

record handler_env =
  he_config :: HandlerConfig
  he_hex :: hex_crate
  he_crypto :: crypto
  he_to_vec :: "ShareSubmission \<Rightarrow> bytes option"
  he_job_table :: JobTable
  he_latest_job :: "JobBroadcast option"
  he_peer :: string
  he_instant :: nat
  he_monotonic_ms :: u64
  he_unix_secs :: u32
  he_unix_ms :: u64
  he_event_capacity :: nat
  he_forward_capacity :: nat
  he_write_ok :: "nat \<Rightarrow> bool"
  he_hash_order :: "u32 set \<Rightarrow> u32 list"

record handler_state =
  hs_channels :: ConnectionChannels
  hs_dedup :: ShareDedupSet
  hs_event_queue :: "ShareAcceptedEvent list"
  hs_forward_queue :: "ShareSubmission list"
  hs_frames :: "(u16 \<times> u8 \<times> bytes) list"
  hs_registry :: channel_registry
  hs_channel_ids :: AtomicCounter
  hs_extranonces :: ExtranonceAllocator
  hs_opened_ids :: "u32 list"
  hs_frames_decoded :: u64
  hs_events_dropped :: nat
  hs_queue_full :: nat
  hs_retarget_up :: nat
  hs_retarget_down :: nat

datatype 'a flow = Done 'a | Exit HandlerExit | Panic

type_synonym 'a handler = "handler_state \<Rightarrow> 'a flow \<times> handler_state"

definition and_next :: "'a handler \<Rightarrow> ('a \<Rightarrow> 'b handler) \<Rightarrow> 'b handler" where
  "and_next m k st =
     (case m st of
        (Done x, st') \<Rightarrow> k x st'
      | (Exit e, st') \<Rightarrow> (Exit e, st')
      | (Panic, st') \<Rightarrow> (Panic, st'))"

section \<open>Frames\<close>

text \<open>The message types, with the values documented beside the message structs.\<close>

definition MESSAGE_TYPE_SETUP_CONNECTION :: u8 where "MESSAGE_TYPE_SETUP_CONNECTION = 0x00"
definition MESSAGE_TYPE_SETUP_CONNECTION_SUCCESS :: u8 where "MESSAGE_TYPE_SETUP_CONNECTION_SUCCESS = 0x01"
definition MESSAGE_TYPE_SETUP_CONNECTION_ERROR :: u8 where "MESSAGE_TYPE_SETUP_CONNECTION_ERROR = 0x02"
definition MESSAGE_TYPE_OPEN_STANDARD_MINING_CHANNEL :: u8 where "MESSAGE_TYPE_OPEN_STANDARD_MINING_CHANNEL = 0x10"
definition MESSAGE_TYPE_OPEN_STANDARD_MINING_CHANNEL_SUCCESS :: u8 where
  "MESSAGE_TYPE_OPEN_STANDARD_MINING_CHANNEL_SUCCESS = 0x11"
definition MESSAGE_TYPE_OPEN_MINING_CHANNEL_ERROR :: u8 where "MESSAGE_TYPE_OPEN_MINING_CHANNEL_ERROR = 0x12"
definition MESSAGE_TYPE_OPEN_EXTENDED_MINING_CHANNEL :: u8 where "MESSAGE_TYPE_OPEN_EXTENDED_MINING_CHANNEL = 0x13"
definition MESSAGE_TYPE_OPEN_EXTENDED_MINING_CHANNEL_SUCCESS :: u8 where
  "MESSAGE_TYPE_OPEN_EXTENDED_MINING_CHANNEL_SUCCESS = 0x14"
definition MESSAGE_TYPE_NEW_MINING_JOB :: u8 where "MESSAGE_TYPE_NEW_MINING_JOB = 0x15"
definition MESSAGE_TYPE_CLOSE_CHANNEL :: u8 where "MESSAGE_TYPE_CLOSE_CHANNEL = 0x18"
definition MESSAGE_TYPE_SUBMIT_SHARES_STANDARD :: u8 where "MESSAGE_TYPE_SUBMIT_SHARES_STANDARD = 0x1a"
definition MESSAGE_TYPE_SUBMIT_SHARES_EXTENDED :: u8 where "MESSAGE_TYPE_SUBMIT_SHARES_EXTENDED = 0x1b"
definition MESSAGE_TYPE_SUBMIT_SHARES_SUCCESS :: u8 where "MESSAGE_TYPE_SUBMIT_SHARES_SUCCESS = 0x1c"
definition MESSAGE_TYPE_SUBMIT_SHARES_ERROR :: u8 where "MESSAGE_TYPE_SUBMIT_SHARES_ERROR = 0x1d"
definition MESSAGE_TYPE_NEW_EXTENDED_MINING_JOB :: u8 where "MESSAGE_TYPE_NEW_EXTENDED_MINING_JOB = 0x1f"
definition MESSAGE_TYPE_MINING_SET_NEW_PREV_HASH :: u8 where "MESSAGE_TYPE_MINING_SET_NEW_PREV_HASH = 0x20"
definition MESSAGE_TYPE_SET_TARGET :: u8 where "MESSAGE_TYPE_SET_TARGET = 0x21"

definition write_frame :: "handler_env \<Rightarrow> u16 \<Rightarrow> u8 \<Rightarrow> bytes \<Rightarrow> unit handler" where
  "write_frame E extension_type msg_type payload st =
     (if he_write_ok E (length (hs_frames st))
      then (Done (), st\<lparr>hs_frames := hs_frames st @ [(extension_type, msg_type, payload)]\<rparr>)
      else (Exit TransportError, st))"

text \<open>\<open>encode\<close> and \<open>write_frame\<close>, each with its error an exit; and the best-effort variant.\<close>

definition send :: "handler_env \<Rightarrow> u16 \<Rightarrow> u8 \<Rightarrow> Sv2CodecError + bytes \<Rightarrow> unit handler" where
  "send E extension_type msg_type encoded st =
     (case encoded of
        Inl e \<Rightarrow> (Exit (CodecError e), st)
      | Inr payload \<Rightarrow> write_frame E extension_type msg_type payload st)"

definition send_best_effort :: "handler_env \<Rightarrow> u16 \<Rightarrow> u8 \<Rightarrow> Sv2CodecError + bytes \<Rightarrow> handler_state \<Rightarrow> handler_state" where
  "send_best_effort E extension_type msg_type encoded st = snd (send E extension_type msg_type encoded st)"

section \<open>Setup\<close>

definition send_setup_error :: "handler_env \<Rightarrow> u32 \<Rightarrow> handler_state \<Rightarrow> handler_state" where
  "send_setup_error E flags st =
     send_best_effort E 0 MESSAGE_TYPE_SETUP_CONNECTION_ERROR
       (encode_SetupConnectionError \<lparr>m_sce_flags = flags, m_sce_error_code = ''unsupported-protocol''\<rparr>) st"

record Sv2FrameHeader =
  fh_extension_type :: u16
  fh_msg_type :: u8

definition base_extension :: "Sv2FrameHeader \<Rightarrow> bool" where
  "base_extension header \<longleftrightarrow> and (fh_extension_type header) 0x7FFF = 0"

text \<open>\<open>None\<close> is a failed read. The exit keeps which test failed, not the formatted values.\<close>

definition handle_setup_connection :: "handler_env \<Rightarrow> (Sv2FrameHeader \<times> bytes) option \<Rightarrow> unit handler" where
  "handle_setup_connection E frame st =
     (case frame of
        None \<Rightarrow> (Exit TransportError, st)
      | Some (header, payload) \<Rightarrow>
          if \<not> base_extension header then (Exit (SetupRejected ''unsupported extension_type''), st)
          else if fh_msg_type header \<noteq> MESSAGE_TYPE_SETUP_CONNECTION
          then (Exit (SetupRejected ''expected SetupConnection''), send_setup_error E 0 st)
          else case decode_SetupConnection payload of
            Inl e \<Rightarrow> (Exit (CodecError e), send_setup_error E 0 st)
          | Inr (setup, _) \<Rightarrow>
              if m_sc_protocol setup \<noteq> 0
              then (Exit (SetupRejected ''protocol is not MiningProtocol''), send_setup_error E 0 st)
              else if 2 < m_sc_min_version setup \<or> m_sc_max_version setup < 2
              then (Exit (SetupRejected ''version range does not include 2''),
                    send_setup_error E (m_sc_flags setup) st)
              else send E 0 MESSAGE_TYPE_SETUP_CONNECTION_SUCCESS
                (encode_SetupConnectionSuccess \<lparr>m_scs_used_version = 2, m_scs_flags = 0\<rparr>) st)"

section \<open>Opening channels\<close>

definition open_error :: "handler_env \<Rightarrow> u32 \<Rightarrow> string \<Rightarrow> handler_state \<Rightarrow> handler_state" where
  "open_error E request_id code st =
     send_best_effort E 0 MESSAGE_TYPE_OPEN_MINING_CHANNEL_ERROR
       (encode_OpenMiningChannelError \<lparr>m_ome_request_id = request_id, m_ome_error_code = code\<rparr>) st"

definition init_vardiff :: "handler_env \<Rightarrow> u32 \<Rightarrow> handler_state \<Rightarrow> handler_state" where
  "init_vardiff E channel_id st =
     (let cfg = he_config E in
      if hc_vardiff_enabled cfg
      then st\<lparr>hs_channels := channel_modify (\<lambda>ch. ch\<lparr>ch_vardiff := Some
             (vardiff_new (he_instant E) (target_to_difficulty_u64 (hc_channel_target cfg))
               (hc_vardiff_target_shares_per_min cfg) (hc_vardiff_retarget_interval cfg)
               (hc_vardiff_min_difficulty cfg) (hc_vardiff_max_difficulty cfg)
               (hc_vardiff_max_adjustment_factor cfg))\<rparr>) channel_id (hs_channels st)\<rparr>
      else st)"

definition register_channel :: "handler_env \<Rightarrow> u32 \<Rightarrow> string \<Rightarrow> handler_state \<Rightarrow> handler_state" where
  "register_channel E channel_id worker st =
     st\<lparr>hs_registry := registry_register (snapshot_from_open (he_unix_ms E) channel_id worker (he_peer E)) (hs_registry st),
        hs_opened_ids := hs_opened_ids st @ [channel_id]\<rparr>"

definition send_prevhash :: "handler_env \<Rightarrow> u32 \<Rightarrow> JobBroadcast \<Rightarrow> unit handler" where
  "send_prevhash E channel_id job st =
     (case jb_prevhash_update job of
        None \<Rightarrow> (Done (), st)
      | Some ph \<Rightarrow>
          and_next (send E 0x8000 MESSAGE_TYPE_MINING_SET_NEW_PREV_HASH
            (encode_SetNewPrevHash \<lparr>m_snp_channel_id = channel_id, m_snp_job_id = jb_job_id job,
               m_snp_prev_hash = pu_prev_hash ph, m_snp_min_ntime = pu_min_ntime ph, m_snp_nbits = pu_nbits ph\<rparr>))
            (\<lambda>_ st. (Done (), st\<lparr>hs_channels := channel_modify
               (record_prevhash_sent (he_monotonic_ms E) (jb_job_id job) (pu_min_ntime ph)) channel_id (hs_channels st)\<rparr>)) st)"

definition active_job_sent :: "u32 \<Rightarrow> JobBroadcast \<Rightarrow> unit handler" where
  "active_job_sent channel_id job st =
     (Done (), st\<lparr>hs_channels := channel_modify (record_active_job_sent (jb_job_id job)) channel_id (hs_channels st)\<rparr>)"

definition new_mining_job :: "handler_env \<Rightarrow> u32 \<Rightarrow> bytes \<Rightarrow> JobBroadcast \<Rightarrow> NewMiningJob" where
  "new_mining_job E channel_id extranonce job =
     \<lparr>m_nmj_channel_id = channel_id, m_nmj_job_id = jb_job_id job, m_nmj_min_ntime = jb_min_ntime job,
      m_nmj_version = jb_version job,
      m_nmj_merkle_root = compute_merkle_root (he_crypto E) (jb_coinbase_tx_prefix job) extranonce
        (jb_coinbase_tx_suffix job) (jb_merkle_path job)\<rparr>"

definition new_extended_mining_job :: "u32 \<Rightarrow> JobBroadcast \<Rightarrow> NewExtendedMiningJob" where
  "new_extended_mining_job channel_id job =
     \<lparr>m_nej_channel_id = channel_id, m_nej_job_id = jb_job_id job, m_nej_min_ntime = jb_min_ntime job,
      m_nej_version = jb_version job, m_nej_version_rolling_allowed = True, m_nej_merkle_path = jb_merkle_path job,
      m_nej_coinbase_tx_prefix = jb_coinbase_tx_prefix job, m_nej_coinbase_tx_suffix = jb_coinbase_tx_suffix job\<rparr>"

definition send_job :: "handler_env \<Rightarrow> u32 \<Rightarrow> unit handler \<Rightarrow> JobBroadcast \<Rightarrow> unit handler" where
  "send_job E channel_id send_it job =
     and_next send_it (\<lambda>_. and_next (send_prevhash E channel_id job) (\<lambda>_. active_job_sent channel_id job))"

definition send_target :: "handler_env \<Rightarrow> u32 \<Rightarrow> hash32 \<Rightarrow> unit handler" where
  "send_target E channel_id target =
     send E 0x8000 MESSAGE_TYPE_SET_TARGET (encode_SetTarget \<lparr>m_st_channel_id = channel_id, m_st_maximum_target = target\<rparr>)"

text \<open>After registration: the success reply, the target, and the latest job if there is one.\<close>

definition announce_channel ::
  "handler_env \<Rightarrow> u32 \<Rightarrow> unit handler \<Rightarrow> (JobBroadcast \<Rightarrow> unit handler) \<Rightarrow> unit handler" where
  "announce_channel E channel_id send_success send_new_job =
     and_next send_success
       (\<lambda>_. and_next (send_target E channel_id (hc_channel_target (he_config E)))
         (\<lambda>_. case he_latest_job E of
            None \<Rightarrow> (\<lambda>st. (Done (), st))
          | Some job \<Rightarrow> send_job E channel_id (send_new_job job) job))"

definition handle_open_standard_channel :: "handler_env \<Rightarrow> bytes \<Rightarrow> unit handler" where
  "handle_open_standard_channel E payload st =
     (case decode_OpenStandardMiningChannel payload of
        Inl e \<Rightarrow> (Exit (CodecError e), open_error E 0 ''unsupported-protocol'' st)
      | Inr (open_req, _) \<Rightarrow>
          let request_id = m_osc_request_id open_req; worker = m_osc_user_identity open_req; cfg = he_config E;
              (id_opt, ids) = channel_id_allocate (hs_channel_ids st);
              st = st\<lparr>hs_channel_ids := ids\<rparr>
          in case id_opt of
            None \<Rightarrow> (Exit (SetupRejected ''channel_id allocator exhausted''),
                     open_error E request_id ''max-target-out-of-range'' st)
          | Some channel_id \<Rightarrow>
              let (x_opt, xs) = extranonce_allocate (hs_extranonces st);
                  st = st\<lparr>hs_extranonces := xs\<rparr>
              in case x_opt of
                None \<Rightarrow> (Exit (SetupRejected ''extranonce allocator exhausted''),
                         open_error E request_id ''max-target-out-of-range'' st)
              | Some extranonce \<Rightarrow>
                  (case open_channel (he_instant E) channel_id extranonce worker None (hc_channel_target cfg)
                      (hc_max_shares_per_second_per_channel cfg) (hs_channels st) of
                     (Inl reason, _) \<Rightarrow>
                       (Exit (SetupRejected (''channel registration failed: '' @ gateway_as_str reason)),
                        open_error E request_id ''max-target-out-of-range'' st)
                   | (Inr _, channels) \<Rightarrow>
                       let st = register_channel E channel_id worker
                             (init_vardiff E channel_id (st\<lparr>hs_channels := channels\<rparr>))
                       in announce_channel E channel_id
                            (send E 0 MESSAGE_TYPE_OPEN_STANDARD_MINING_CHANNEL_SUCCESS
                              (encode_OpenStandardMiningChannelSuccess
                                \<lparr>m_oss_request_id = request_id, m_oss_channel_id = channel_id,
                                 m_oss_target = hc_channel_target cfg, m_oss_extranonce_prefix = extranonce,
                                 m_oss_group_channel_id = 0\<rparr>))
                            (\<lambda>job. send E 0x8000 MESSAGE_TYPE_NEW_MINING_JOB
                              (encode_NewMiningJob (new_mining_job E channel_id extranonce job))) st))"

definition extranonce_size_granted :: "nat \<Rightarrow> u16 \<Rightarrow> u16" where
  "extranonce_size_granted prefix_len min_size = of_nat (prefix_len + max (unat min_size) 4)"

definition handle_open_extended_channel :: "handler_env \<Rightarrow> bytes \<Rightarrow> unit handler" where
  "handle_open_extended_channel E payload st =
     (case decode_OpenExtendedMiningChannel payload of
        Inl e \<Rightarrow> (Exit (CodecError e), open_error E 0 ''unsupported-protocol'' st)
      | Inr (open_req, _) \<Rightarrow>
          let request_id = m_oec_request_id open_req; worker = m_oec_user_identity open_req; cfg = he_config E;
              min_size = m_oec_min_extranonce_size open_req
          in if min_size < 2 \<or> 8 < min_size
          then (Exit (SetupRejected ''min_extranonce_size out of range''),
                open_error E request_id ''max-target-out-of-range'' st)
          else
            let (id_opt, ids) = channel_id_allocate (hs_channel_ids st);
                st = st\<lparr>hs_channel_ids := ids\<rparr>
            in case id_opt of
              None \<Rightarrow> (Exit (SetupRejected ''channel_id allocator exhausted''),
                       open_error E request_id ''max-target-out-of-range'' st)
            | Some channel_id \<Rightarrow>
                let (x_opt, xs) = extranonce_allocate (hs_extranonces st);
                    st = st\<lparr>hs_extranonces := xs\<rparr>
                in case x_opt of
                  None \<Rightarrow> (Exit (SetupRejected ''extranonce allocator exhausted''),
                           open_error E request_id ''max-target-out-of-range'' st)
                | Some extranonce \<Rightarrow>
                    let granted = extranonce_size_granted (hc_extranonce_prefix_len cfg) min_size in
                    (case open_extended_channel (he_instant E) channel_id extranonce worker None
                        (hc_channel_target cfg) (hc_max_shares_per_second_per_channel cfg) min_size granted
                        (hs_channels st) of
                       (Inl reason, _) \<Rightarrow>
                         (Exit (SetupRejected (''channel registration failed: '' @ gateway_as_str reason)),
                          open_error E request_id ''max-target-out-of-range'' st)
                     | (Inr _, channels) \<Rightarrow>
                         let st = register_channel E channel_id worker
                               (init_vardiff E channel_id (st\<lparr>hs_channels := channels\<rparr>))
                         in announce_channel E channel_id
                              (send E 0 MESSAGE_TYPE_OPEN_EXTENDED_MINING_CHANNEL_SUCCESS
                                (encode_OpenExtendedMiningChannelSuccess
                                  \<lparr>m_oes_request_id = request_id, m_oes_channel_id = channel_id,
                                   m_oes_target = hc_channel_target cfg, m_oes_extranonce_size = granted,
                                   m_oes_extranonce_prefix = extranonce\<rparr>))
                              (\<lambda>job. send E 0x8000 MESSAGE_TYPE_NEW_EXTENDED_MINING_JOB
                                (encode_NewExtendedMiningJob (new_extended_mining_job channel_id job))) st))"

section \<open>Closing\<close>

definition reject_extended_channel :: "handler_env \<Rightarrow> unit handler" where
  "reject_extended_channel E st =
     (Exit (SetupRejected ''extended channels not supported''),
      send_best_effort E 0x8000 MESSAGE_TYPE_CLOSE_CHANNEL
        (encode_CloseChannel \<lparr>m_cc_channel_id = 0, m_cc_reason_code = gateway_as_str GR_ExtendedChannelUnsupported\<rparr>) st)"

definition handle_close_channel :: "bytes \<Rightarrow> unit handler" where
  "handle_close_channel payload st =
     (case decode_CloseChannel payload of
        Inl e \<Rightarrow> (Exit (CodecError e), st)
      | Inr (close, _) \<Rightarrow>
          let st = st\<lparr>hs_channels := snd (close_channel (m_cc_channel_id close) (hs_channels st)),
                     hs_registry := registry_unregister (m_cc_channel_id close) (hs_registry st)\<rparr>
          in if open_count (hs_channels st) = 0 then (Exit Shutdown, st) else (Done (), st))"

section \<open>Shares\<close>

definition enqueue_share_event :: "handler_env \<Rightarrow> ShareAcceptedEvent \<Rightarrow> handler_state \<Rightarrow> handler_state" where
  "enqueue_share_event E evt st =
     (if length (hs_event_queue st) < he_event_capacity E then st\<lparr>hs_event_queue := hs_event_queue st @ [evt]\<rparr>
      else st\<lparr>hs_events_dropped := hs_events_dropped st + 1\<rparr>)"

definition send_share_error :: "handler_env \<Rightarrow> u32 \<Rightarrow> u32 \<Rightarrow> GatewayReason \<Rightarrow> unit handler" where
  "send_share_error E channel_id sequence_number reason st =
     (case to_sv2_error_code reason of
        None \<Rightarrow> (Panic, st)
      | Some code \<Rightarrow>
          send E 0x8000 MESSAGE_TYPE_SUBMIT_SHARES_ERROR
            (encode_SubmitSharesError \<lparr>m_sse_channel_id = channel_id, m_sse_sequence_number = sequence_number,
               m_sse_error_code = code\<rparr>) st)"

text \<open>The fields both submissions have in common.\<close>

record submitted_share =
  sub_channel_id :: u32
  sub_sequence_number :: u32
  sub_job_id :: u32
  sub_nonce :: u32
  sub_ntime :: u32
  sub_version :: u32

definition reject_structural :: "handler_env \<Rightarrow> submitted_share \<Rightarrow> GatewayReason \<Rightarrow> unit handler" where
  "reject_structural E share reason st =
     send_share_error E (sub_channel_id share) (sub_sequence_number share) reason
       (enqueue_share_event E (sentinel (he_hex E) (he_unix_ms E) reason (sub_channel_id share)
          (sub_sequence_number share) (sub_job_id share)) st)"

text \<open>Steps 1 to 3: the job, the version bits, the time.\<close>

definition share_job :: "handler_env \<Rightarrow> ChannelState \<Rightarrow> submitted_share \<Rightarrow> GatewayReason + JobRecord" where
  "share_job E ch share =
     (case job_get (he_job_table E) (sub_job_id share) of
        None \<Rightarrow> Err GR_ShareInvalidJobId
      | Some job \<Rightarrow>
          if \<not> check_version_bits (sub_version share) (jr_version job) then Err GR_VersionBitViolation
          else
            let effective_min_ntime = (case ch_activation_min_ntime ch of
                  None \<Rightarrow> jr_activation_min_ntime job | Some t \<Rightarrow> t);
                effective_elapsed = (case elapsed_since_prevhash_secs (he_monotonic_ms E) ch of
                  None \<Rightarrow> 0 | Some s \<Rightarrow> s)
            in if \<not> check_ntime_bounds (sub_ntime share) effective_min_ntime effective_elapsed
                  (hc_ntime_elapsed_slack_seconds (he_config E)) (hc_max_future_block_time_seconds (he_config E))
                  (he_unix_secs E)
            then Err GR_NtimeOutOfRange else Ok job)"

definition share_merkle_root :: "handler_env \<Rightarrow> JobRecord \<Rightarrow> bytes \<Rightarrow> hash32" where
  "share_merkle_root E job extranonce =
     compute_merkle_root (he_crypto E) (jr_coinbase_tx_prefix job) extranonce (jr_coinbase_tx_suffix job)
       (jr_merkle_path job)"

definition share_header :: "handler_env \<Rightarrow> JobRecord \<Rightarrow> bytes \<Rightarrow> submitted_share \<Rightarrow> bytes" where
  "share_header E job extranonce share =
     header_identity_bytes (sub_version share) (jr_prev_hash job) (share_merkle_root E job extranonce)
       (sub_ntime share) (jr_nbits job) (sub_nonce share)"

definition share_event ::
  "handler_env \<Rightarrow> hash32 \<Rightarrow> string \<Rightarrow> GatewayReason option \<Rightarrow> submitted_share \<Rightarrow> JobRecord \<Rightarrow> u64 \<Rightarrow> ShareAcceptedEvent" where
  "share_event E share_id worker_id rejected share job difficulty =
     \<lparr>sa_event_type = ''share_accepted'',
      sa_share_id_hex = hex_encode (he_hex E) share_id,
      sa_event_id_hex = hex_encode (he_hex E) (compute_event_id (he_crypto E) share_id worker_id ''full''),
      sa_sv2_response = (case rejected of None \<Rightarrow> ''success'' | Some _ \<Rightarrow> ''error''),
      sa_reason_code = map_option gateway_as_str rejected,
      sa_reason_detail = map_option gateway_as_str rejected,
      sa_worker_id = worker_id,
      sa_channel_id = sub_channel_id share,
      sa_sequence_number = sub_sequence_number share,
      sa_job_id = sub_job_id share,
      sa_block_height = jr_block_height job,
      sa_timestamp_ms = he_unix_ms E,
      sa_difficulty_u64 = difficulty\<rparr>"

definition reject_identified ::
  "handler_env \<Rightarrow> hash32 \<Rightarrow> string \<Rightarrow> submitted_share \<Rightarrow> JobRecord \<Rightarrow> GatewayReason \<Rightarrow> unit handler" where
  "reject_identified E share_id worker_id share job reason st =
     send_share_error E (sub_channel_id share) (sub_sequence_number share) reason
       (enqueue_share_event E (share_event E share_id worker_id (Some reason) share job 0) st)"

definition share_submission ::
  "handler_env \<Rightarrow> ChannelState \<Rightarrow> JobRecord \<Rightarrow> bytes \<Rightarrow> submitted_share \<Rightarrow> hash32 \<Rightarrow> u64 \<Rightarrow> ShareSubmission" where
  "share_submission E ch job extranonce share share_id difficulty =
     (let X = he_hex E; merkle_root = share_merkle_root E job extranonce in
      sign_submission (he_crypto E) X (he_to_vec E) (hc_share_hmac_secret (he_config E))
       \<lparr>ss_share_id_hex = hex_encode X share_id,
        ss_version = sub_version share,
        ss_prev_hash_wire_hex = hex_encode X (jr_prev_hash job),
        ss_prev_hash_display_hex = hex_encode X (rev (jr_prev_hash job)),
        ss_merkle_root_wire_hex = hex_encode X merkle_root,
        ss_merkle_root_display_hex = hex_encode X (rev merkle_root),
        ss_ntime = sub_ntime share,
        ss_nbits = jr_nbits job,
        ss_nonce = sub_nonce share,
        ss_event_id_hex = hex_encode X (compute_event_id (he_crypto E) share_id (ch_worker_id ch) ''full''),
        ss_worker_id = ch_worker_id ch,
        ss_validation_level = ''full'',
        ss_gateway_instance_id = hc_gateway_instance_id (he_config E),
        ss_channel_id = sub_channel_id share,
        ss_sequence_number = sub_sequence_number share,
        ss_job_id = sub_job_id share,
        ss_template_id = jr_template_id job,
        ss_block_height = jr_block_height job,
        ss_pool_account_id = None,
        ss_timestamp_ms = he_unix_ms E,
        ss_difficulty_u64 = difficulty,
        ss_difficulty_display = f64_of_nat (unat difficulty),
        ss_source_instance_id = jr_source_instance_id job,
        ss_gateway_signature_hex = []\<rparr>)"

section \<open>Retargeting\<close>

definition maybe_retarget :: "handler_env \<Rightarrow> u32 \<Rightarrow> unit handler" where
  "maybe_retarget E channel_id st =
     (case channel_get (hs_channels st) channel_id of
        None \<Rightarrow> (Done (), st)
      | Some ch \<Rightarrow>
          (case ch_vardiff ch of
             None \<Rightarrow> (Done (), st)
           | Some vd \<Rightarrow>
               let (due, vd1) = record_share (he_instant E) vd;
                   set_vd = (\<lambda>v t. st\<lparr>hs_channels := channel_modify
                     (\<lambda>ch. ch\<lparr>ch_vardiff := Some v, ch_maximum_target := t\<rparr>) channel_id (hs_channels st)\<rparr>)
               in if \<not> due then (Done (), set_vd vd1 (ch_maximum_target ch))
               else case evaluate_retarget (he_instant E) vd1 of
                 (None, vd2) \<Rightarrow> (Done (), set_vd vd2 (ch_maximum_target ch))
               | (Some new_diff, vd2) \<Rightarrow>
                   let new_target = difficulty_to_target new_diff;
                       st1 = set_vd vd2 new_target;
                       st2 = (if vd_current_difficulty vd < new_diff
                              then st1\<lparr>hs_retarget_up := hs_retarget_up st1 + 1\<rparr>
                              else st1\<lparr>hs_retarget_down := hs_retarget_down st1 + 1\<rparr>)
                   in send_target E channel_id new_target st2))"

section \<open>Submission\<close>

definition accept_share ::
  "handler_env \<Rightarrow> ChannelState \<Rightarrow> JobRecord \<Rightarrow> bytes \<Rightarrow> submitted_share \<Rightarrow> hash32 \<Rightarrow> unit handler" where
  "accept_share E ch job extranonce share share_id st =
     (let st = st\<lparr>hs_frames_decoded := hs_frames_decoded st + 1\<rparr>;
          difficulty = target_to_difficulty_u64 (ch_maximum_target ch);
          submission = share_submission E ch job extranonce share share_id difficulty
      in if he_forward_capacity E \<le> length (hs_forward_queue st)
      then reject_identified E share_id (ch_worker_id ch) share job GR_ShareDroppedQueueFull
             (st\<lparr>hs_queue_full := hs_queue_full st + 1\<rparr>)
      else
        let st = enqueue_share_event E (share_event E share_id (ch_worker_id ch) None share job difficulty)
              (st\<lparr>hs_forward_queue := hs_forward_queue st @ [submission]\<rparr>)
        in and_next (send E 0x8000 MESSAGE_TYPE_SUBMIT_SHARES_SUCCESS
             (encode_SubmitSharesSuccess \<lparr>m_ssu_channel_id = sub_channel_id share,
                m_ssu_last_sequence_number = sub_sequence_number share,
                m_ssu_new_submits_accepted_count = 1, m_ssu_new_shares_sum = difficulty\<rparr>))
             (\<lambda>_. maybe_retarget E (sub_channel_id share)) st)"

text \<open>Steps 1 to 5, which both submissions run with their extranonce.\<close>

definition validate_share :: "handler_env \<Rightarrow> ChannelState \<Rightarrow> bytes \<Rightarrow> submitted_share \<Rightarrow> unit handler" where
  "validate_share E ch extranonce share st =
     (case share_job E ch share of
        Inl reason \<Rightarrow> reject_structural E share reason st
      | Inr job \<Rightarrow>
          let header = share_header E job extranonce share;
              share_id = compute_share_id (he_crypto E) header
          in if \<not> validate_share_pow (he_crypto E) header (ch_maximum_target ch)
          then reject_identified E share_id (ch_worker_id ch) share job GR_ShareDifficultyBelowTarget st
          else
            let (replayed, dedup) = check_and_insert (hs_dedup st) share_id;
                st = st\<lparr>hs_dedup := dedup\<rparr>
            in if replayed
            then reject_identified E share_id (ch_worker_id ch) share job GR_ShareReplayDetected st
            else accept_share E ch job extranonce share share_id st)"

text \<open>Steps 0 and 0.5: the channel and its token bucket; the continuation gets the channel afterwards.\<close>

definition with_rate_limit :: "handler_env \<Rightarrow> submitted_share \<Rightarrow> (ChannelState \<Rightarrow> unit handler) \<Rightarrow> unit handler" where
  "with_rate_limit E share k st =
     (case channel_get (hs_channels st) (sub_channel_id share) of
        None \<Rightarrow> reject_structural E share GR_InvalidChannelId st
      | Some ch \<Rightarrow>
          let (admitted, limiter) = try_acquire (he_instant E) (ch_rate_limiter ch);
              st = st\<lparr>hs_channels := channel_modify (\<lambda>ch. ch\<lparr>ch_rate_limiter := limiter\<rparr>)
                     (sub_channel_id share) (hs_channels st)\<rparr>
          in if \<not> admitted then reject_structural E share GR_ShareRateLimited st
          else case channel_get (hs_channels st) (sub_channel_id share) of
            None \<Rightarrow> send_share_error E (sub_channel_id share) (sub_sequence_number share) GR_InvalidChannelId st
          | Some ch \<Rightarrow> k ch st)"

definition undecodable_share :: "handler_env \<Rightarrow> Sv2CodecError \<Rightarrow> unit handler" where
  "undecodable_share E e st =
     (case to_sv2_error_code GR_FrameDecodeError of
        None \<Rightarrow> (Panic, st)
      | Some code \<Rightarrow>
          (Exit (CodecError e),
           send_best_effort E 0x8000 MESSAGE_TYPE_SUBMIT_SHARES_ERROR
             (encode_SubmitSharesError \<lparr>m_sse_channel_id = 0, m_sse_sequence_number = 0, m_sse_error_code = code\<rparr>) st))"

definition of_standard :: "SubmitSharesStandard \<Rightarrow> submitted_share" where
  "of_standard m = \<lparr>sub_channel_id = m_sss_channel_id m, sub_sequence_number = m_sss_sequence_number m,
     sub_job_id = m_sss_job_id m, sub_nonce = m_sss_nonce m, sub_ntime = m_sss_ntime m, sub_version = m_sss_version m\<rparr>"

definition of_extended :: "SubmitSharesExtended \<Rightarrow> submitted_share" where
  "of_extended m = \<lparr>sub_channel_id = m_ssx_channel_id m, sub_sequence_number = m_ssx_sequence_number m,
     sub_job_id = m_ssx_job_id m, sub_nonce = m_ssx_nonce m, sub_ntime = m_ssx_ntime m, sub_version = m_ssx_version m\<rparr>"

definition handle_submit_shares :: "handler_env \<Rightarrow> bytes \<Rightarrow> unit handler" where
  "handle_submit_shares E payload st =
     (case decode_SubmitSharesStandard payload of
        Inl e \<Rightarrow> undecodable_share E e st
      | Inr (m, _) \<Rightarrow>
          with_rate_limit E (of_standard m)
            (\<lambda>ch. validate_share E ch (ch_extranonce_prefix ch) (of_standard m)) st)"

text \<open>\<open>usize::from(extranonce_size) - prefix.len()\<close> wraps in a build without overflow checks.\<close>

definition expected_miner_extranonce :: "u16 \<Rightarrow> bytes \<Rightarrow> nat" where
  "expected_miner_extranonce granted prefix_bytes =
     (if length prefix_bytes \<le> unat granted then unat granted - length prefix_bytes
      else 2 ^ 64 - (length prefix_bytes - unat granted))"

definition handle_submit_shares_extended :: "handler_env \<Rightarrow> bytes \<Rightarrow> unit handler" where
  "handle_submit_shares_extended E payload st =
     (case decode_SubmitSharesExtended payload of
        Inl e \<Rightarrow> undecodable_share E e st
      | Inr (m, _) \<Rightarrow>
          with_rate_limit E (of_extended m)
            (\<lambda>ch st. case ch_kind ch of
               Standard \<Rightarrow> send_share_error E (m_ssx_channel_id m) (m_ssx_sequence_number m) GR_InvalidChannelId st
             | Extended _ granted \<Rightarrow>
                 if length (m_ssx_extranonce m) \<noteq> expected_miner_extranonce granted (ch_extranonce_prefix ch)
                 then send_share_error E (m_ssx_channel_id m) (m_ssx_sequence_number m) GR_ShareInvalidNonce st
                 else validate_share E ch (ch_extranonce_prefix ch @ m_ssx_extranonce m) (of_extended m) st) st)"

section \<open>Jobs\<close>

fun distribute_to :: "handler_env \<Rightarrow> JobBroadcast \<Rightarrow> u32 list \<Rightarrow> unit handler" where
  "distribute_to E job [] st = (Done (), st)"
| "distribute_to E job (channel_id # rest) st =
     (case channel_get (hs_channels st) channel_id of
        None \<Rightarrow> distribute_to E job rest st
      | Some ch \<Rightarrow>
          and_next
            (send_job E channel_id
              (case ch_kind ch of
                 Standard \<Rightarrow> send E 0x8000 MESSAGE_TYPE_NEW_MINING_JOB
                   (encode_NewMiningJob (new_mining_job E channel_id (ch_extranonce_prefix ch) job))
               | Extended _ _ \<Rightarrow> send E 0x8000 MESSAGE_TYPE_NEW_EXTENDED_MINING_JOB
                   (encode_NewExtendedMiningJob (new_extended_mining_job channel_id job))) job)
            (\<lambda>_. distribute_to E job rest) st)"

definition distribute_job :: "handler_env \<Rightarrow> JobBroadcast \<Rightarrow> unit handler" where
  "distribute_job E job st = distribute_to E job (he_hash_order E (open_ids (hs_channels st))) st"

section \<open>Dispatch and session\<close>

definition handle_miner_frame :: "handler_env \<Rightarrow> Sv2FrameHeader \<Rightarrow> bytes \<Rightarrow> unit handler" where
  "handle_miner_frame E header payload st =
     (let t = fh_msg_type header in
      if \<not> base_extension header then (Exit (SetupRejected ''unsupported extension_type''), st)
      else if t = MESSAGE_TYPE_SUBMIT_SHARES_STANDARD then handle_submit_shares E payload st
      else if t = MESSAGE_TYPE_SUBMIT_SHARES_EXTENDED then handle_submit_shares_extended E payload st
      else if t = MESSAGE_TYPE_OPEN_STANDARD_MINING_CHANNEL then handle_open_standard_channel E payload st
      else if t = MESSAGE_TYPE_OPEN_EXTENDED_MINING_CHANNEL
      then (if \<not> hc_extended_channels_enabled (he_config E) then reject_extended_channel E st
            else handle_open_extended_channel E payload st)
      else if t = MESSAGE_TYPE_CLOSE_CHANNEL then handle_close_channel payload st
      else (Done (), st))"

text \<open>
  The wait for the first channel, over the frames that arrive; a list that ends is the timeout.
\<close>

fun wait_for_channel_open :: "(handler_env \<times> (Sv2FrameHeader \<times> bytes) option) list \<Rightarrow> unit handler" where
  "wait_for_channel_open [] st = (Exit ChannelOpenTimeout, st)"
| "wait_for_channel_open ((E, None) # rest) st = (Exit TransportError, st)"
| "wait_for_channel_open ((E, Some (header, payload)) # rest) st =
     (if \<not> base_extension header then (Exit (SetupRejected ''unsupported extension_type''), st)
      else if fh_msg_type header = MESSAGE_TYPE_OPEN_STANDARD_MINING_CHANNEL
      then handle_open_standard_channel E payload st
      else if fh_msg_type header = MESSAGE_TYPE_OPEN_EXTENDED_MINING_CHANNEL
      then (if \<not> hc_extended_channels_enabled (he_config E) then reject_extended_channel E st
            else handle_open_extended_channel E payload st)
      else wait_for_channel_open rest st)"

datatype session_input =
    Job JobBroadcast
  | Job_lagged
  | Job_closed
  | Frame Sv2FrameHeader bytes
  | Read_failed
  | Shutdown_signal

definition session_step :: "handler_env \<Rightarrow> session_input \<Rightarrow> unit handler" where
  "session_step E input st =
     (case input of
        Job job \<Rightarrow> distribute_job E job st
      | Job_lagged \<Rightarrow> (Done (), st)
      | Job_closed \<Rightarrow> (Exit Shutdown, st)
      | Frame header payload \<Rightarrow> handle_miner_frame E header payload st
      | Read_failed \<Rightarrow> (Exit TransportError, st)
      | Shutdown_signal \<Rightarrow> (Exit Shutdown, st))"

fun session_loop :: "(handler_env \<times> session_input) list \<Rightarrow> unit handler" where
  "session_loop [] st = (Done (), st)"
| "session_loop ((E, input) # rest) st = and_next (session_step E input) (\<lambda>_. session_loop rest) st"

text \<open>When the session ends, every channel opened on it leaves the registry; a panic skips that.\<close>

definition end_session :: "unit flow \<times> handler_state \<Rightarrow> unit flow \<times> handler_state" where
  "end_session r =
     (case r of
        (Exit e, st) \<Rightarrow> (Exit e, st\<lparr>hs_registry := fold registry_unregister (hs_opened_ids st) (hs_registry st)\<rparr>)
      | other \<Rightarrow> other)"

definition run_connection ::
  "handler_env \<Rightarrow> (Sv2FrameHeader \<times> bytes) option \<Rightarrow> (handler_env \<times> (Sv2FrameHeader \<times> bytes) option) list
    \<Rightarrow> (handler_env \<times> session_input) list \<Rightarrow> unit handler" where
  "run_connection E setup opening inputs st =
     end_session
       (and_next (handle_setup_connection E setup)
         (\<lambda>_. and_next (wait_for_channel_open opening) (\<lambda>_. session_loop inputs))
         (st\<lparr>hs_channels := connection_channels_new (hc_max_channels_per_conn (he_config E)),
             hs_dedup := dedup_new (hc_share_dedup_window_size (he_config E)), hs_opened_ids := []\<rparr>))"

end
