(* ===== verification/RG_Session.thy ===== *)
theory RG_Session
  imports RG_Handler
begin

text \<open>
  What the connection handler of \<open>RG_Handler\<close> guarantees: which frames it accepts and what an
  accepted or refused frame leaves in the queues and on the wire, the well-formedness of the
  session state over a whole connection, and the frames it does not survive.
\<close>

section \<open>What a step adds\<close>

text \<open>
  A step that accepts nothing queues no submission, writes no success frame and queues no
  accepted event; a step that accepts one share queues its submission and its event, or counts
  the event as dropped, and answers with a success frame unless the write fails.
\<close>

definition nothing_accepted :: "handler_state \<Rightarrow> handler_state \<Rightarrow> bool" where
  "nothing_accepted st st' \<longleftrightarrow> hs_forward_queue st' = hs_forward_queue st \<and>
     (\<exists>fs. hs_frames st' = hs_frames st @ fs \<and> (\<forall>f\<in>set fs. fst (snd f) \<noteq> MESSAGE_TYPE_SUBMIT_SHARES_SUCCESS)) \<and>
     (\<exists>es. hs_event_queue st' = hs_event_queue st @ es \<and> (\<forall>e\<in>set es. sa_sv2_response e \<noteq> ''success''))"

definition one_accepted :: "handler_env \<Rightarrow> handler_state \<Rightarrow> handler_state \<Rightarrow> bool" where
  "one_accepted E st st' \<longleftrightarrow> (\<exists>sub. hs_forward_queue st' = hs_forward_queue st @ [sub] \<and>
     ((\<exists>evt. hs_event_queue st' = hs_event_queue st @ [evt] \<and> sa_sv2_response evt = ''success'' \<and>
         sa_share_id_hex evt = ss_share_id_hex sub \<and> sa_event_id_hex evt = ss_event_id_hex sub) \<or>
      (hs_event_queue st' = hs_event_queue st \<and> hs_events_dropped st' = hs_events_dropped st + 1))) \<and>
     (he_write_ok E (length (hs_frames st)) \<longrightarrow>
        (\<exists>reply fs. hs_frames st' = hs_frames st @ (0x8000, MESSAGE_TYPE_SUBMIT_SHARES_SUCCESS, reply) # fs))"

lemma nothing_refl [simp]: "nothing_accepted st st"
  by (simp add: nothing_accepted_def)

lemma nothing_trans: "nothing_accepted a b \<Longrightarrow> nothing_accepted b c \<Longrightarrow> nothing_accepted a c"
  by (fastforce simp: nothing_accepted_def)

lemma nothing_fields:
  "hs_forward_queue st' = hs_forward_queue st \<Longrightarrow> hs_frames st' = hs_frames st \<Longrightarrow> hs_event_queue st' = hs_event_queue st \<Longrightarrow>
    nothing_accepted st st'"
  by (simp add: nothing_accepted_def)

lemma nothing_send: "t \<noteq> MESSAGE_TYPE_SUBMIT_SHARES_SUCCESS \<Longrightarrow> nothing_accepted st (snd (send E x t enc st))"
  by (auto simp: send_def write_frame_def nothing_accepted_def split: sum.splits)

lemma nothing_next:
  "nothing_accepted st (snd (m st)) \<Longrightarrow> (\<And>x st'. nothing_accepted st' (snd (k x st'))) \<Longrightarrow> nothing_accepted st (snd (and_next m k st))"
  by (auto simp: and_next_def split: prod.splits flow.splits intro: nothing_trans)

lemmas message_types = MESSAGE_TYPE_SETUP_CONNECTION_def MESSAGE_TYPE_SETUP_CONNECTION_SUCCESS_def
  MESSAGE_TYPE_SETUP_CONNECTION_ERROR_def MESSAGE_TYPE_OPEN_STANDARD_MINING_CHANNEL_def
  MESSAGE_TYPE_OPEN_STANDARD_MINING_CHANNEL_SUCCESS_def MESSAGE_TYPE_OPEN_MINING_CHANNEL_ERROR_def
  MESSAGE_TYPE_OPEN_EXTENDED_MINING_CHANNEL_def MESSAGE_TYPE_OPEN_EXTENDED_MINING_CHANNEL_SUCCESS_def
  MESSAGE_TYPE_NEW_MINING_JOB_def MESSAGE_TYPE_CLOSE_CHANNEL_def MESSAGE_TYPE_SUBMIT_SHARES_STANDARD_def
  MESSAGE_TYPE_SUBMIT_SHARES_EXTENDED_def MESSAGE_TYPE_SUBMIT_SHARES_SUCCESS_def MESSAGE_TYPE_SUBMIT_SHARES_ERROR_def
  MESSAGE_TYPE_NEW_EXTENDED_MINING_JOB_def MESSAGE_TYPE_MINING_SET_NEW_PREV_HASH_def MESSAGE_TYPE_SET_TARGET_def

lemma nothing_best_effort: "t \<noteq> MESSAGE_TYPE_SUBMIT_SHARES_SUCCESS \<Longrightarrow> nothing_accepted st (send_best_effort E x t enc st)"
  by (simp add: send_best_effort_def nothing_send)

lemma nothing_open_error: "nothing_accepted st (open_error E r c st)"
  by (simp add: open_error_def nothing_best_effort message_types)

lemma nothing_share_error: "nothing_accepted st (snd (send_share_error E c s r st))"
  by (auto simp: send_share_error_def nothing_send message_types split: option.splits)

lemma nothing_enqueue: "sa_sv2_response evt \<noteq> ''success'' \<Longrightarrow> nothing_accepted st (enqueue_share_event E evt st)"
  by (auto simp: enqueue_share_event_def nothing_accepted_def)

lemma nothing_reject_structural: "nothing_accepted st (snd (reject_structural E share reason st))"
  unfolding reject_structural_def
  by (rule nothing_trans [OF nothing_enqueue nothing_share_error]) (simp add: sentinel_def Let_def)

lemma nothing_reject_identified: "nothing_accepted st (snd (reject_identified E i w share job reason st))"
  unfolding reject_identified_def
  by (rule nothing_trans [OF nothing_enqueue nothing_share_error]) (simp add: share_event_def)

lemma nothing_send_target: "nothing_accepted st (snd (send_target E c t st))"
  by (simp add: send_target_def nothing_send message_types)

lemma nothing_send_prevhash: "nothing_accepted st (snd (send_prevhash E c job st))"
  unfolding send_prevhash_def
  by (auto simp: message_types split: option.splits intro!: nothing_next nothing_send nothing_fields)

lemma nothing_send_job: "(\<And>st. nothing_accepted st (snd (m st))) \<Longrightarrow> nothing_accepted st (snd (send_job E c m job st))"
  unfolding send_job_def
  by (intro nothing_next nothing_send_prevhash) (auto simp: active_job_sent_def intro: nothing_fields)

lemma nothing_maybe_retarget: "nothing_accepted st (snd (maybe_retarget E c st))"
proof -
  have "nothing_accepted st (snd (send_target E c t st'))"
    if "hs_forward_queue st' = hs_forward_queue st" "hs_frames st' = hs_frames st" "hs_event_queue st' = hs_event_queue st" for t st'
    using nothing_trans [OF nothing_fields [OF that] nothing_send_target] .
  then show ?thesis
    by (auto simp: maybe_retarget_def Let_def split_beta split: option.splits prod.splits intro!: nothing_fields)
qed

lemmas nothing_intros = nothing_open_error nothing_share_error nothing_reject_structural nothing_reject_identified
  nothing_send_target nothing_send_job nothing_maybe_retarget

text \<open>Opening, closing and distribution accept nothing.\<close>

lemma opened_state:
  "hs_forward_queue (register_channel E c w (init_vardiff E c st)) = hs_forward_queue st"
  "hs_frames (register_channel E c w (init_vardiff E c st)) = hs_frames st"
  "hs_event_queue (register_channel E c w (init_vardiff E c st)) = hs_event_queue st"
  by (simp_all add: register_channel_def init_vardiff_def Let_def)

lemma nothing_via:
  "nothing_accepted st' (snd (m st')) \<Longrightarrow> hs_forward_queue st' = hs_forward_queue st \<Longrightarrow> hs_frames st' = hs_frames st \<Longrightarrow>
    hs_event_queue st' = hs_event_queue st \<Longrightarrow> nothing_accepted st (snd (m st'))"
  by (rule nothing_trans [OF nothing_fields])

lemma nothing_via_error:
  "hs_forward_queue st' = hs_forward_queue st \<Longrightarrow> hs_frames st' = hs_frames st \<Longrightarrow>
    hs_event_queue st' = hs_event_queue st \<Longrightarrow> nothing_accepted st (open_error E r c st')"
  by (rule nothing_trans [OF nothing_fields nothing_open_error])

lemma nothing_announce:
  "(\<And>st. nothing_accepted st (snd (m st))) \<Longrightarrow> (\<And>job st. nothing_accepted st (snd (k job st))) \<Longrightarrow>
    nothing_accepted st (snd (announce_channel E c m k st))"
  unfolding announce_channel_def
  by (intro nothing_next nothing_send_target) (auto split: option.splits intro!: nothing_send_job)

lemma nothing_opened:
  assumes "\<And>st. nothing_accepted st (snd (m st))" and "\<And>job st. nothing_accepted st (snd (k job st))"
  shows "nothing_accepted st (snd (announce_channel E c m k (register_channel E c w
    (init_vardiff E c (st\<lparr>hs_channel_ids := a, hs_extranonces := x, hs_channels := cs\<rparr>)))))"
  by (rule nothing_via [OF nothing_announce]) (simp_all add: assms opened_state)

lemma nothing_open_standard: "nothing_accepted st (snd (handle_open_standard_channel E payload st))"
  unfolding handle_open_standard_channel_def
  by (auto simp: Let_def split_beta nothing_open_error message_types split: sum.splits option.splits prod.splits
      intro!: nothing_via_error nothing_opened nothing_send)

lemma nothing_open_extended: "nothing_accepted st (snd (handle_open_extended_channel E payload st))"
  unfolding handle_open_extended_channel_def
  by (auto simp: Let_def split_beta nothing_open_error message_types split: sum.splits option.splits prod.splits
      intro!: nothing_via_error nothing_opened nothing_send)

lemma nothing_close: "nothing_accepted st (snd (handle_close_channel payload st))"
  by (auto simp: handle_close_channel_def Let_def split: sum.splits prod.splits intro!: nothing_fields)

lemma nothing_distribute_to: "nothing_accepted st (snd (distribute_to E job ids st))"
proof (induction ids arbitrary: st)
  case (Cons c ids)
  have "nothing_accepted s (snd ((case k of
       Standard \<Rightarrow> send E 0x8000 MESSAGE_TYPE_NEW_MINING_JOB enc
     | Extended _ _ \<Rightarrow> send E 0x8000 MESSAGE_TYPE_NEW_EXTENDED_MINING_JOB enc') s))" for s k enc enc'
    by (auto simp: message_types split: ChannelKind.splits intro!: nothing_send)
  then show ?case by (auto split: option.splits intro!: nothing_next nothing_send_job Cons)
qed simp

section \<open>Submissions\<close>

lemma sign_submission_ids [simp]:
  "ss_share_id_hex (sign_submission C X v k s) = ss_share_id_hex s"
  "ss_event_id_hex (sign_submission C X v k s) = ss_event_id_hex s"
  by (simp_all add: sign_submission_def Let_def split: option.splits)

definition success_frame :: "submitted_share \<Rightarrow> u64 \<Rightarrow> Sv2CodecError + bytes" where
  "success_frame share difficulty = encode_SubmitSharesSuccess \<lparr>m_ssu_channel_id = sub_channel_id share,
     m_ssu_last_sequence_number = sub_sequence_number share,
     m_ssu_new_submits_accepted_count = 1, m_ssu_new_shares_sum = difficulty\<rparr>"

lemma send_queues:
  "hs_forward_queue (snd (send E x t enc st)) = hs_forward_queue st"
  "hs_event_queue (snd (send E x t enc st)) = hs_event_queue st"
  "hs_events_dropped (snd (send E x t enc st)) = hs_events_dropped st"
  by (auto simp: send_def write_frame_def split: sum.splits)

lemma maybe_retarget_queues:
  "hs_forward_queue (snd (maybe_retarget E c st)) = hs_forward_queue st"
  "hs_event_queue (snd (maybe_retarget E c st)) = hs_event_queue st"
  "hs_events_dropped (snd (maybe_retarget E c st)) = hs_events_dropped st"
  by (auto simp: maybe_retarget_def send_target_def send_queues Let_def split_beta split: option.splits prod.splits)

lemma acknowledge_queues:
  fixes E share enc
  defines "k \<equiv> and_next (send E 0x8000 MESSAGE_TYPE_SUBMIT_SHARES_SUCCESS enc) (\<lambda>_. maybe_retarget E (sub_channel_id share))"
  shows "hs_forward_queue (snd (k st)) = hs_forward_queue st" "hs_event_queue (snd (k st)) = hs_event_queue st"
    "hs_events_dropped (snd (k st)) = hs_events_dropped st"
proof -
  obtain r st1 where s: "send E 0x8000 MESSAGE_TYPE_SUBMIT_SHARES_SUCCESS enc st = (r, st1)" by fastforce
  then show "hs_forward_queue (snd (k st)) = hs_forward_queue st" "hs_event_queue (snd (k st)) = hs_event_queue st"
    "hs_events_dropped (snd (k st)) = hs_events_dropped st"
    using send_queues [where st = st and E = E and x = "0x8000" and t = MESSAGE_TYPE_SUBMIT_SHARES_SUCCESS and enc = enc]
    by (cases r; simp add: k_def and_next_def maybe_retarget_queues)+
qed

lemma acknowledge_frames:
  assumes "he_write_ok E (length (hs_frames st))" and "enc = Ok reply"
  shows "\<exists>fs. hs_frames (snd (and_next (send E 0x8000 MESSAGE_TYPE_SUBMIT_SHARES_SUCCESS enc)
      (\<lambda>_. maybe_retarget E (sub_channel_id share)) st)) = hs_frames st @ (0x8000, MESSAGE_TYPE_SUBMIT_SHARES_SUCCESS, reply) # fs"
proof -
  let ?st = "st\<lparr>hs_frames := hs_frames st @ [(0x8000, MESSAGE_TYPE_SUBMIT_SHARES_SUCCESS, reply)]\<rparr>"
  obtain fs where "hs_frames (snd (maybe_retarget E (sub_channel_id share) ?st)) = hs_frames ?st @ fs"
    using nothing_maybe_retarget [of ?st E "sub_channel_id share"] by (auto simp: nothing_accepted_def)
  then show ?thesis using assms by (simp add: and_next_def send_def write_frame_def)
qed

lemma accept_share_queues:
  assumes "length (hs_forward_queue st) < he_forward_capacity E"
  shows "one_accepted E st (snd (accept_share E ch job x share i st))"
proof -
  let ?d = "target_to_difficulty_u64 (ch_maximum_target ch)"
  let ?sub = "share_submission E ch job x share i ?d" and ?evt = "share_event E i (ch_worker_id ch) None share job ?d"
  let ?st = "enqueue_share_event E ?evt (st\<lparr>hs_frames_decoded := hs_frames_decoded st + 1,
    hs_forward_queue := hs_forward_queue st @ [?sub]\<rparr>)"
  have eq: "accept_share E ch job x share i st =
    and_next (send E 0x8000 MESSAGE_TYPE_SUBMIT_SHARES_SUCCESS (success_frame share ?d))
      (\<lambda>_. maybe_retarget E (sub_channel_id share)) ?st"
    using assms by (simp add: accept_share_def Let_def success_frame_def)
  have ids: "sa_sv2_response ?evt = ''success''" "sa_share_id_hex ?evt = ss_share_id_hex ?sub"
    "sa_event_id_hex ?evt = ss_event_id_hex ?sub"
    by (simp_all add: share_event_def share_submission_def Let_def)
  have queues: "hs_forward_queue ?st = hs_forward_queue st @ [?sub]" "hs_frames ?st = hs_frames st"
    "hs_event_queue ?st = hs_event_queue st @ [?evt] \<or>
      hs_event_queue ?st = hs_event_queue st \<and> hs_events_dropped ?st = hs_events_dropped st + 1"
    by (auto simp: enqueue_share_event_def)
  have frames: "\<exists>reply fs. hs_frames (snd (and_next (send E 0x8000 MESSAGE_TYPE_SUBMIT_SHARES_SUCCESS (success_frame share ?d))
      (\<lambda>_. maybe_retarget E (sub_channel_id share)) ?st)) = hs_frames st @ (0x8000, MESSAGE_TYPE_SUBMIT_SHARES_SUCCESS, reply) # fs"
    if ok: "he_write_ok E (length (hs_frames st))"
  proof -
    obtain reply where "success_frame share ?d = Ok reply"
      by (simp add: success_frame_def encode_SubmitSharesSuccess_def)
    from acknowledge_frames [where st = ?st, OF _ this] ok queues(2) show ?thesis by metis
  qed
  show ?thesis unfolding one_accepted_def eq acknowledge_queues using queues(1,3) ids frames by blast
qed

lemma accept_share_full:
  assumes "he_forward_capacity E \<le> length (hs_forward_queue st)"
  shows "nothing_accepted st (snd (accept_share E ch job x share i st))"
proof -
  have "nothing_accepted st (snd (reject_identified E i (ch_worker_id ch) share job GR_ShareDroppedQueueFull
      (st\<lparr>hs_frames_decoded := hs_frames_decoded st + 1, hs_queue_full := hs_queue_full st + 1\<rparr>)))"
    by (rule nothing_via [OF nothing_reject_identified]) simp_all
  then show ?thesis using assms by (simp add: accept_share_def Let_def)
qed

text \<open>What a share passes on its way to acceptance.\<close>

definition share_passes :: "handler_env \<Rightarrow> ChannelState \<Rightarrow> bytes \<Rightarrow> submitted_share \<Rightarrow> handler_state \<Rightarrow> bool" where
  "share_passes E ch extranonce share st \<longleftrightarrow>
     (\<exists>job. share_job E ch share = Ok job \<and>
        validate_share_pow (he_crypto E) (share_header E job extranonce share) (ch_maximum_target ch) \<and>
        compute_share_id (he_crypto E) (share_header E job extranonce share) \<notin> ds_set (hs_dedup st) \<and>
        length (hs_forward_queue st) < he_forward_capacity E)"

lemma check_and_insert_fst: "fst (check_and_insert d i) \<longleftrightarrow> i \<in> ds_set d"
  by (auto simp: check_and_insert_def Let_def split_beta)

lemma validate_share_outcome:
  "if share_passes E ch x share st then one_accepted E st (snd (validate_share E ch x share st))
   else nothing_accepted st (snd (validate_share E ch x share st))"
proof (cases "share_job E ch share")
  case (Inl reason)
  then show ?thesis by (simp add: validate_share_def share_passes_def nothing_reject_structural)
next
  case (Inr job)
  let ?h = "share_header E job x share"
  let ?i = "compute_share_id (he_crypto E) ?h"
  let ?st = "st\<lparr>hs_dedup := snd (check_and_insert (hs_dedup st) ?i)\<rparr>"
  show ?thesis
  proof (cases "validate_share_pow (he_crypto E) ?h (ch_maximum_target ch)")
    case False
    then show ?thesis using Inr by (simp add: validate_share_def share_passes_def nothing_reject_identified Let_def)
  next
    case True
    have v: "validate_share E ch x share st = (if ?i \<in> ds_set (hs_dedup st)
        then reject_identified E ?i (ch_worker_id ch) share job GR_ShareReplayDetected ?st
        else accept_share E ch job x share ?i ?st)"
      using True Inr by (simp add: validate_share_def Let_def split_beta check_and_insert_fst)
    have "one_accepted E st (snd (accept_share E ch job x share ?i ?st))" if "length (hs_forward_queue st) < he_forward_capacity E"
      using accept_share_queues [of ?st E ch job x share ?i] that by (simp add: one_accepted_def)
    moreover have "nothing_accepted st (snd (accept_share E ch job x share ?i ?st))"
      if "\<not> length (hs_forward_queue st) < he_forward_capacity E"
      by (rule nothing_via [OF accept_share_full]) (use that in simp_all)
    moreover have "nothing_accepted st (snd (reject_identified E ?i (ch_worker_id ch) share job GR_ShareReplayDetected ?st))"
      by (rule nothing_via [OF nothing_reject_identified]) simp_all
    ultimately show ?thesis using True Inr by (simp add: v share_passes_def)
  qed
qed

lemma share_job_limiter [simp]: "share_job E (ch\<lparr>ch_rate_limiter := l\<rparr>) share = share_job E ch share"
  by (simp add: share_job_def elapsed_since_prevhash_secs_def Let_def split: option.split)

lemma share_passes_limiter [simp]:
  "share_passes E (ch\<lparr>ch_rate_limiter := l\<rparr>) x share (st\<lparr>hs_channels := cs\<rparr>) = share_passes E ch x share st"
  by (simp add: share_passes_def)

text \<open>A submission reaches its checks when its channel is open and the token bucket admits it.\<close>

definition submission_admitted :: "handler_env \<Rightarrow> ChannelState \<Rightarrow> submitted_share \<Rightarrow> handler_state \<Rightarrow> bool" where
  "submission_admitted E ch share st \<longleftrightarrow>
     channel_get (hs_channels st) (sub_channel_id share) = Some ch \<and> fst (try_acquire (he_instant E) (ch_rate_limiter ch))"

definition standard_accepted :: "handler_env \<Rightarrow> bytes \<Rightarrow> handler_state \<Rightarrow> bool" where
  "standard_accepted E payload st \<longleftrightarrow>
     (\<exists>m rest ch. decode_SubmitSharesStandard payload = Ok (m, rest) \<and> submission_admitted E ch (of_standard m) st \<and>
        share_passes E ch (ch_extranonce_prefix ch) (of_standard m) st)"

definition extended_accepted :: "handler_env \<Rightarrow> bytes \<Rightarrow> handler_state \<Rightarrow> bool" where
  "extended_accepted E payload st \<longleftrightarrow>
     (\<exists>m rest ch a granted. decode_SubmitSharesExtended payload = Ok (m, rest) \<and>
        submission_admitted E ch (of_extended m) st \<and> ch_kind ch = Extended a granted \<and>
        length (m_ssx_extranonce m) = expected_miner_extranonce granted (ch_extranonce_prefix ch) \<and>
        share_passes E ch (ch_extranonce_prefix ch @ m_ssx_extranonce m) (of_extended m) st)"

definition frame_accepted :: "handler_env \<Rightarrow> Sv2FrameHeader \<Rightarrow> bytes \<Rightarrow> handler_state \<Rightarrow> bool" where
  "frame_accepted E header payload st \<longleftrightarrow> base_extension header \<and>
     (fh_msg_type header = MESSAGE_TYPE_SUBMIT_SHARES_STANDARD \<and> standard_accepted E payload st \<or>
      fh_msg_type header = MESSAGE_TYPE_SUBMIT_SHARES_EXTENDED \<and> extended_accepted E payload st)"

lemma channel_get_modify:
  "channel_get cc i = Some ch \<Longrightarrow> ch_closed (f ch) = ch_closed ch \<Longrightarrow> channel_get (channel_modify f i cc) i = Some (f ch)"
  by (auto simp: channel_get_def channel_modify_def split: option.splits if_splits)

lemma channel_limited:
  "channel_get cc i = Some ch \<Longrightarrow>
    channel_get (channel_modify (\<lambda>ch. ch\<lparr>ch_rate_limiter := l\<rparr>) i cc) i = Some (ch\<lparr>ch_rate_limiter := l\<rparr>)"
  using channel_get_modify [of cc i ch "\<lambda>ch. ch\<lparr>ch_rate_limiter := l\<rparr>"] by simp

text \<open>The rate limiter in front of the checks.\<close>

lemma with_rate_limit_outcome:
  assumes "\<And>ch l cs st. if ok ch st then one_accepted E st (snd (k (ch\<lparr>ch_rate_limiter := l\<rparr>) (st\<lparr>hs_channels := cs\<rparr>)))
      else nothing_accepted st (snd (k (ch\<lparr>ch_rate_limiter := l\<rparr>) (st\<lparr>hs_channels := cs\<rparr>)))"
  shows "if \<exists>ch. submission_admitted E ch share st \<and> ok ch st then one_accepted E st (snd (with_rate_limit E share k st))
    else nothing_accepted st (snd (with_rate_limit E share k st))"
proof (cases "channel_get (hs_channels st) (sub_channel_id share)")
  case None
  then show ?thesis by (simp add: with_rate_limit_def submission_admitted_def nothing_reject_structural)
next
  case (Some ch)
  obtain a l where l: "try_acquire (he_instant E) (ch_rate_limiter ch) = (a, l)" by fastforce
  let ?cs = "channel_modify (\<lambda>ch. ch\<lparr>ch_rate_limiter := l\<rparr>) (sub_channel_id share) (hs_channels st)"
  show ?thesis
  proof (cases a)
    case True
    then have "with_rate_limit E share k st = k (ch\<lparr>ch_rate_limiter := l\<rparr>) (st\<lparr>hs_channels := ?cs\<rparr>)"
      using Some l by (simp add: with_rate_limit_def channel_limited)
    then show ?thesis using assms [of ch st l ?cs] Some True l by (simp add: submission_admitted_def)
  next
    case False
    then have "with_rate_limit E share k st = reject_structural E share GR_ShareRateLimited (st\<lparr>hs_channels := ?cs\<rparr>)"
      using Some l by (simp add: with_rate_limit_def)
    moreover have "nothing_accepted st (snd (reject_structural E share GR_ShareRateLimited (st\<lparr>hs_channels := ?cs\<rparr>)))"
      by (rule nothing_via [OF nothing_reject_structural]) simp_all
    ultimately show ?thesis using Some False l by (simp add: submission_admitted_def)
  qed
qed

lemma nothing_channels [simp]: "nothing_accepted (st\<lparr>hs_channels := cs\<rparr>) st' = nothing_accepted st st'"
  by (simp add: nothing_accepted_def)

lemma one_channels [simp]: "one_accepted E (st\<lparr>hs_channels := cs\<rparr>) st' = one_accepted E st st'"
  by (simp add: one_accepted_def)

lemma nothing_undecodable: "nothing_accepted st (snd (undecodable_share E e st))"
  by (auto simp: undecodable_share_def message_types split: option.splits intro!: nothing_best_effort)

lemma standard_outcome:
  "if standard_accepted E payload st then one_accepted E st (snd (handle_submit_shares E payload st))
   else nothing_accepted st (snd (handle_submit_shares E payload st))"
proof (cases "decode_SubmitSharesStandard payload")
  case (Inl e)
  then show ?thesis by (simp add: handle_submit_shares_def standard_accepted_def nothing_undecodable)
next
  case (Inr r)
  obtain m rest where r: "r = (m, rest)" by fastforce
  let ?k = "\<lambda>ch. validate_share E ch (ch_extranonce_prefix ch) (of_standard m)"
  let ?ok = "\<lambda>ch. share_passes E ch (ch_extranonce_prefix ch) (of_standard m)"
  have "if ?ok ch s then one_accepted E s (snd (?k (ch\<lparr>ch_rate_limiter := l\<rparr>) (s\<lparr>hs_channels := cs\<rparr>)))
      else nothing_accepted s (snd (?k (ch\<lparr>ch_rate_limiter := l\<rparr>) (s\<lparr>hs_channels := cs\<rparr>)))" for ch l cs s
    using validate_share_outcome [of E "ch\<lparr>ch_rate_limiter := l\<rparr>" "ch_extranonce_prefix ch" "of_standard m" "s\<lparr>hs_channels := cs\<rparr>"]
    by (simp split: if_splits)
  from with_rate_limit_outcome [where ok = ?ok and k = ?k and E = E and share = "of_standard m" and st = st, OF this]
  show ?thesis using Inr r by (simp add: handle_submit_shares_def standard_accepted_def)
qed

lemma extended_outcome:
  "if extended_accepted E payload st then one_accepted E st (snd (handle_submit_shares_extended E payload st))
   else nothing_accepted st (snd (handle_submit_shares_extended E payload st))"
proof (cases "decode_SubmitSharesExtended payload")
  case (Inl e)
  then show ?thesis by (simp add: handle_submit_shares_extended_def extended_accepted_def nothing_undecodable)
next
  case (Inr r)
  obtain m rest where r: "r = (m, rest)" by fastforce
  let ?k = "\<lambda>ch st. case ch_kind ch of
       Standard \<Rightarrow> send_share_error E (m_ssx_channel_id m) (m_ssx_sequence_number m) GR_InvalidChannelId st
     | Extended _ granted \<Rightarrow>
         if length (m_ssx_extranonce m) \<noteq> expected_miner_extranonce granted (ch_extranonce_prefix ch)
         then send_share_error E (m_ssx_channel_id m) (m_ssx_sequence_number m) GR_ShareInvalidNonce st
         else validate_share E ch (ch_extranonce_prefix ch @ m_ssx_extranonce m) (of_extended m) st"
  let ?ok = "\<lambda>ch st. \<exists>a granted. ch_kind ch = Extended a granted \<and>
        length (m_ssx_extranonce m) = expected_miner_extranonce granted (ch_extranonce_prefix ch) \<and>
        share_passes E ch (ch_extranonce_prefix ch @ m_ssx_extranonce m) (of_extended m) st"
  have "if ?ok ch s then one_accepted E s (snd (?k (ch\<lparr>ch_rate_limiter := l\<rparr>) (s\<lparr>hs_channels := cs\<rparr>)))
      else nothing_accepted s (snd (?k (ch\<lparr>ch_rate_limiter := l\<rparr>) (s\<lparr>hs_channels := cs\<rparr>)))" for ch l cs s
    using validate_share_outcome [of E "ch\<lparr>ch_rate_limiter := l\<rparr>" "ch_extranonce_prefix ch @ m_ssx_extranonce m"
        "of_extended m" "s\<lparr>hs_channels := cs\<rparr>"] nothing_share_error [where st = "s\<lparr>hs_channels := cs\<rparr>"]
    by (cases "ch_kind ch") auto
  from with_rate_limit_outcome [where ok = ?ok and k = ?k and E = E and share = "of_extended m" and st = st, OF this]
  show ?thesis using Inr r by (auto simp: handle_submit_shares_extended_def extended_accepted_def)
qed

lemma nothing_reject_extended: "nothing_accepted st (snd (reject_extended_channel E st))"
  by (simp add: reject_extended_channel_def nothing_best_effort message_types)

section \<open>Well-formed sessions\<close>

text \<open>
  The channels stay within the limit of the connection, each under its own identifier with a
  bucket of zero to rate tokens and known to the session for clean-up; the replay window and both
  queues keep their bounds.
\<close>

definition channel_table_wf :: "ConnectionChannels \<Rightarrow> u32 list \<Rightarrow> bool" where
  "channel_table_wf cc opened \<longleftrightarrow> channels_inv cc \<and> dom (cc_channels cc) \<subseteq> set opened \<and>
     (\<forall>i ch. cc_channels cc i = Some ch \<longrightarrow> ch_channel_id ch = i \<and> limiter_inv (ch_rate_limiter ch))"

definition session_wf :: "nat \<Rightarrow> nat \<Rightarrow> handler_state \<Rightarrow> bool" where
  "session_wf events forwards st \<longleftrightarrow>
     channel_table_wf (hs_channels st) (hs_opened_ids st) \<and> dedup_wf (hs_dedup st) \<and>
     length (hs_event_queue st) \<le> events \<and> length (hs_forward_queue st) \<le> forwards"

definition env_fits :: "nat \<Rightarrow> nat \<Rightarrow> handler_env \<Rightarrow> bool" where
  "env_fits events forwards E \<longleftrightarrow> he_event_capacity E = events \<and> he_forward_capacity E = forwards \<and>
     he_instant E < 2 ^ 64 * 1000000000"

lemma table_wf_modify:
  assumes "channel_table_wf cc ids"
    and "\<And>ch. channel_get cc i = Some ch \<Longrightarrow> ch_channel_id (f ch) = ch_channel_id ch"
    and "\<And>ch. channel_get cc i = Some ch \<Longrightarrow> limiter_inv (ch_rate_limiter ch) \<Longrightarrow> limiter_inv (ch_rate_limiter (f ch))"
  shows "channel_table_wf (channel_modify f i cc) ids"
proof (cases "channel_get cc i")
  case None
  then show ?thesis using assms(1) by (simp add: channel_modify_def)
next
  case (Some ch)
  then have ch: "cc_channels cc i = Some ch" by (auto simp: channel_get_def split: option.splits if_splits)
  then have "insert i (dom (cc_channels cc)) = dom (cc_channels cc)" by auto
  then show ?thesis
    using assms(1) assms(2,3) [OF Some] ch Some by (auto simp: channel_table_wf_def channels_inv_def channel_modify_def)
qed

lemma table_wf_close: "channel_table_wf cc ids \<Longrightarrow> channel_table_wf (snd (close_channel i cc)) ids"
  unfolding channel_table_wf_def channels_inv_def close_channel_dom
  by (auto simp: close_channel_def split: option.splits if_splits)

lemma table_wf_open:
  assumes "channel_table_wf cc ids" and "ch_channel_id ch = i" and "limiter_inv (ch_rate_limiter ch)"
  shows "channel_table_wf (snd (open_with i ch cc)) (ids @ [i])"
proof -
  have "cc_channels (snd (open_with i ch cc)) j = Some c \<Longrightarrow> cc_channels cc j = Some c \<or> j = i \<and> c = ch" for j c
    by (auto simp: open_with_def or_insert_def split: if_splits option.splits)
  moreover have "dom (cc_channels (snd (open_with i ch cc))) \<subseteq> insert i (dom (cc_channels cc))"
    by (simp add: open_with_def or_insert_dom subset_insertI)
  ultimately show ?thesis using assms open_with_inv [of cc i ch] unfolding channel_table_wf_def by fastforce
qed

lemma wf_fields:
  "session_wf a b st \<Longrightarrow> channel_table_wf (hs_channels st') (hs_opened_ids st') \<Longrightarrow> hs_dedup st' = hs_dedup st \<Longrightarrow>
    hs_event_queue st' = hs_event_queue st \<Longrightarrow> hs_forward_queue st' = hs_forward_queue st \<Longrightarrow> session_wf a b st'"
  by (simp add: session_wf_def)

lemma wf_table: "session_wf a b st \<Longrightarrow> channel_table_wf (hs_channels st) (hs_opened_ids st)"
  by (simp add: session_wf_def)

lemma wf_modified:
  assumes "session_wf a b st"
    and "\<And>ch. ch_channel_id (f ch) = ch_channel_id ch" and "\<And>ch. ch_rate_limiter (f ch) = ch_rate_limiter ch"
  shows "session_wf a b (st\<lparr>hs_channels := channel_modify f i (hs_channels st)\<rparr>)"
  by (rule wf_fields [OF assms(1)]) (use assms wf_table [OF assms(1)] in \<open>simp_all add: table_wf_modify\<close>)

lemma wf_send: "session_wf a b st \<Longrightarrow> session_wf a b (snd (send E x t enc st))"
  by (simp add: send_def write_frame_def session_wf_def split: sum.splits)

lemma wf_next:
  "session_wf a b (snd (m st)) \<Longrightarrow> (\<And>x st'. session_wf a b st' \<Longrightarrow> session_wf a b (snd (k x st'))) \<Longrightarrow>
    session_wf a b (snd (and_next m k st))"
  by (auto simp: and_next_def split: prod.splits flow.splits)

lemma wf_best_effort: "session_wf a b st \<Longrightarrow> session_wf a b (send_best_effort E x t enc st)"
  by (simp add: send_best_effort_def wf_send)

lemma wf_share_error: "session_wf a b st \<Longrightarrow> session_wf a b (snd (send_share_error E c s r st))"
  by (simp add: send_share_error_def wf_send split: option.split)

lemma wf_enqueue: "env_fits a b E \<Longrightarrow> session_wf a b st \<Longrightarrow> session_wf a b (enqueue_share_event E evt st)"
  by (simp add: enqueue_share_event_def env_fits_def session_wf_def)

lemma wf_reject_structural: "env_fits a b E \<Longrightarrow> session_wf a b st \<Longrightarrow> session_wf a b (snd (reject_structural E share r st))"
  by (simp add: reject_structural_def wf_share_error wf_enqueue)

lemma wf_reject_identified: "env_fits a b E \<Longrightarrow> session_wf a b st \<Longrightarrow> session_wf a b (snd (reject_identified E i w share job r st))"
  by (simp add: reject_identified_def wf_share_error wf_enqueue)

lemma wf_prevhash: "session_wf a b st \<Longrightarrow> session_wf a b (snd (send_prevhash E c job st))"
  unfolding send_prevhash_def
  by (auto simp: record_prevhash_sent_def split: option.split intro!: wf_next wf_send wf_modified)

lemma wf_active_job: "session_wf a b st \<Longrightarrow> session_wf a b (snd (active_job_sent c job st))"
  unfolding active_job_sent_def
  by (auto simp: record_active_job_sent_def intro!: wf_modified)

lemma wf_send_job:
  "(\<And>st. session_wf a b st \<Longrightarrow> session_wf a b (snd (m st))) \<Longrightarrow> session_wf a b st \<Longrightarrow> session_wf a b (snd (send_job E c m job st))"
  unfolding send_job_def by (intro wf_next wf_prevhash wf_active_job)

lemma wf_send_target: "session_wf a b st \<Longrightarrow> session_wf a b (snd (send_target E c t st))"
  by (simp add: send_target_def wf_send)

text \<open>Retargeting, opening, closing, distribution and submission.\<close>

lemma wf_counters [simp]:
  "session_wf a b (st\<lparr>hs_retarget_up := n\<rparr>) = session_wf a b st"
  "session_wf a b (st\<lparr>hs_retarget_down := n\<rparr>) = session_wf a b st"
  "session_wf a b (st\<lparr>hs_queue_full := n\<rparr>) = session_wf a b st"
  "session_wf a b (st\<lparr>hs_frames_decoded := w\<rparr>) = session_wf a b st"
  "session_wf a b (st\<lparr>hs_channel_ids := ids\<rparr>) = session_wf a b st"
  "session_wf a b (st\<lparr>hs_extranonces := xs\<rparr>) = session_wf a b st"
  "session_wf a b (st\<lparr>hs_registry := r\<rparr>) = session_wf a b st"
  by (simp_all add: session_wf_def)

lemma wf_maybe_retarget: "session_wf a b st \<Longrightarrow> session_wf a b (snd (maybe_retarget E c st))"
proof -
  assume wf: "session_wf a b st"
  have set_vd: "session_wf a b (st\<lparr>hs_channels := channel_modify
      (\<lambda>ch. ch\<lparr>ch_vardiff := v, ch_maximum_target := t\<rparr>) c (hs_channels st)\<rparr>)" for v t
    by (rule wf_modified [OF wf]) simp_all
  show ?thesis unfolding maybe_retarget_def Let_def
    by (auto simp: wf set_vd split_beta split: option.splits prod.splits intro!: wf_send_target)
qed

lemma wf_announce:
  assumes "\<And>st. session_wf a b st \<Longrightarrow> session_wf a b (snd (m st))" and "\<And>job st. session_wf a b st \<Longrightarrow> session_wf a b (snd (k job st))"
    and "session_wf a b st"
  shows "session_wf a b (snd (announce_channel E c m k st))"
  unfolding announce_channel_def
  by (intro wf_next assms(1,3) wf_send_target) (auto split: option.splits intro!: wf_send_job assms(2))

lemma wf_opened:
  assumes wf: "session_wf a b st" and ch: "ch_channel_id ch = c" "limiter_inv (ch_rate_limiter ch)"
  shows "session_wf a b (register_channel E c w (init_vardiff E c
    (st\<lparr>hs_channel_ids := ids, hs_extranonces := xs, hs_channels := snd (open_with c ch (hs_channels st))\<rparr>)))"
  by (rule wf_fields [OF wf])
    (auto simp: register_channel_def init_vardiff_def Let_def intro!: table_wf_modify table_wf_open wf_table [OF wf] ch)

lemma limiter_of_new [simp]:
  "ch_channel_id (channel_new now i x w p t m) = i" "limiter_inv (ch_rate_limiter (channel_new now i x w p t m))"
  "ch_channel_id (channel_new_extended now i x w p t m k g) = i"
  "limiter_inv (ch_rate_limiter (channel_new_extended now i x w p t m k g))"
  by (simp_all add: channel_new_def channel_new_extended_def limiter_new_inv)

lemma wf_open_error: "session_wf a b st \<Longrightarrow> session_wf a b (open_error E r c st)"
  by (simp add: open_error_def wf_best_effort)

lemma wf_open_standard: "session_wf a b st \<Longrightarrow> session_wf a b (snd (handle_open_standard_channel E payload st))"
  unfolding handle_open_standard_channel_def open_channel_with
  by (auto simp: Let_def split_beta split: sum.splits option.splits prod.splits
      intro!: wf_announce wf_send wf_open_error wf_opened)

lemma wf_open_extended: "session_wf a b st \<Longrightarrow> session_wf a b (snd (handle_open_extended_channel E payload st))"
  unfolding handle_open_extended_channel_def open_channel_with
  by (auto simp: Let_def split_beta split: sum.splits option.splits prod.splits
      intro!: wf_announce wf_send wf_open_error wf_opened)

lemma wf_closed: "session_wf a b st \<Longrightarrow> session_wf a b (st\<lparr>hs_channels := snd (close_channel i (hs_channels st))\<rparr>)"
  by (simp add: session_wf_def table_wf_close)

lemma wf_close: "session_wf a b st \<Longrightarrow> session_wf a b (snd (handle_close_channel payload st))"
  by (auto simp: handle_close_channel_def Let_def split_beta wf_closed split: sum.splits prod.splits)

lemma wf_distribute_to: "session_wf a b st \<Longrightarrow> session_wf a b (snd (distribute_to E job ids st))"
proof (induction ids arbitrary: st)
  case (Cons c ids)
  have "session_wf a b s \<Longrightarrow> session_wf a b (snd ((case k of Standard \<Rightarrow> send E x t enc | Extended _ _ \<Rightarrow> send E x' t' enc') s))"
    for s k x t enc x' t' enc'
    by (simp add: wf_send split: ChannelKind.split)
  then show ?case using Cons by (auto split: option.splits intro!: wf_next wf_send_job)
qed simp

lemma wf_accept_share:
  assumes fits: "env_fits a b E" and wf: "session_wf a b st"
  shows "session_wf a b (snd (accept_share E ch job x share i st))"
proof -
  have "session_wf a b (st\<lparr>hs_frames_decoded := n, hs_forward_queue := hs_forward_queue st @ [sub]\<rparr>)"
    if "\<not> he_forward_capacity E \<le> length (hs_forward_queue st)" for n sub
    using that wf fits by (simp add: session_wf_def env_fits_def)
  then show ?thesis unfolding accept_share_def Let_def
    using wf by (auto intro!: wf_reject_identified wf_next wf_send wf_maybe_retarget wf_enqueue fits)
qed

lemma wf_validate_share:
  assumes fits: "env_fits a b E" and wf: "session_wf a b st"
  shows "session_wf a b (snd (validate_share E ch x share st))"
proof -
  have "session_wf a b (st\<lparr>hs_dedup := snd (check_and_insert (hs_dedup st) i)\<rparr>)" for i
    using wf check_and_insert_wf by (simp add: session_wf_def)
  then show ?thesis unfolding validate_share_def Let_def
    by (auto simp: split_beta split: sum.splits intro!: wf_reject_structural wf_reject_identified wf_accept_share fits wf)
qed

lemma wf_with_rate_limit:
  assumes fits: "env_fits a b E" and wf: "session_wf a b st"
    and k: "\<And>ch st. session_wf a b st \<Longrightarrow> session_wf a b (snd (k ch st))"
  shows "session_wf a b (snd (with_rate_limit E share k st))"
proof -
  let ?c = "sub_channel_id share"
  have "session_wf a b (st\<lparr>hs_channels := channel_modify
      (\<lambda>c. c\<lparr>ch_rate_limiter := snd (try_acquire (he_instant E) (ch_rate_limiter ch))\<rparr>) ?c (hs_channels st)\<rparr>)"
    if "channel_get (hs_channels st) ?c = Some ch" for ch
  proof (rule wf_fields [OF wf])
    have "he_instant E - n < 2 ^ 64 * 1000000000" for n
      using fits less_imp_diff_less by (simp add: env_fits_def)
    then have "limiter_inv l \<Longrightarrow> limiter_inv (snd (try_acquire (he_instant E) l))" for l
      using try_acquire_inv by blast
    then show "channel_table_wf (hs_channels (st\<lparr>hs_channels := channel_modify
      (\<lambda>c. c\<lparr>ch_rate_limiter := snd (try_acquire (he_instant E) (ch_rate_limiter ch))\<rparr>) ?c (hs_channels st)\<rparr>))
      (hs_opened_ids (st\<lparr>hs_channels := channel_modify
      (\<lambda>c. c\<lparr>ch_rate_limiter := snd (try_acquire (he_instant E) (ch_rate_limiter ch))\<rparr>) ?c (hs_channels st)\<rparr>))"
      using wf_table [OF wf] that by (auto intro!: table_wf_modify)
  qed simp_all
  then show ?thesis unfolding with_rate_limit_def Let_def
    by (auto simp: split_beta split: option.split intro!: wf_reject_structural wf_share_error fits wf k)
qed

lemma wf_submit_standard:
  assumes "env_fits a b E" and "session_wf a b st"
  shows "session_wf a b (snd (handle_submit_shares E payload st))"
  unfolding handle_submit_shares_def undecodable_share_def
  using assms by (auto split: sum.splits option.splits intro!: wf_with_rate_limit wf_validate_share wf_best_effort)

lemma wf_submit_extended:
  assumes "env_fits a b E" and "session_wf a b st"
  shows "session_wf a b (snd (handle_submit_shares_extended E payload st))"
  unfolding handle_submit_shares_extended_def undecodable_share_def
  using assms by (auto split: sum.splits option.splits ChannelKind.splits
      intro!: wf_with_rate_limit wf_validate_share wf_best_effort wf_share_error)

lemma wf_reject_extended: "session_wf a b st \<Longrightarrow> session_wf a b (snd (reject_extended_channel E st))"
  by (simp add: reject_extended_channel_def wf_best_effort)

lemmas wf_handlers = wf_submit_standard wf_submit_extended wf_reject_extended wf_open_standard wf_open_extended
  wf_close wf_distribute_to

lemma wf_session_step:
  "env_fits a b E \<Longrightarrow> session_wf a b st \<Longrightarrow> session_wf a b (snd (session_step E input st))"
  by (simp add: session_step_def handle_miner_frame_def distribute_job_def Let_def wf_handlers split: session_input.split)

lemma wf_session_loop:
  "\<forall>(E, _) \<in> set inputs. env_fits a b E \<Longrightarrow> session_wf a b st \<Longrightarrow> session_wf a b (snd (session_loop inputs st))"
  by (induction inputs arbitrary: st) (auto intro!: wf_next wf_session_step)

lemma wf_wait_for_channel_open:
  "session_wf a b st \<Longrightarrow> session_wf a b (snd (wait_for_channel_open opening st))"
  by (induction "opening" st rule: wait_for_channel_open.induct) (simp_all add: wf_handlers)

lemma wf_setup: "session_wf a b st \<Longrightarrow> session_wf a b (snd (handle_setup_connection E setup st))"
  by (auto simp: handle_setup_connection_def send_setup_error_def split: option.splits sum.splits prod.splits
      intro!: wf_best_effort wf_send)

lemma unregister_all: "fold registry_unregister ids r i = (if i \<in> set ids then None else r i)"
  by (induction ids arbitrary: r) (auto simp: registry_unregister_def)

section \<open>Rejections outside the accounting, and foreign channels\<close>

text \<open>An extended submission on a standard channel, or with an extranonce of the wrong length, is
  answered but leaves no accounting event.\<close>

lemma share_error_events: "hs_event_queue (snd (send_share_error E c s r st)) = hs_event_queue st"
  by (simp add: send_share_error_def send_queues split: option.split)

lemma misfit_leaves_no_event:
  assumes "decode_SubmitSharesExtended payload = Ok (m, rest)" and "submission_admitted E ch (of_extended m) st"
    and "case ch_kind ch of Standard \<Rightarrow> True
      | Extended _ granted \<Rightarrow> length (m_ssx_extranonce m) \<noteq> expected_miner_extranonce granted (ch_extranonce_prefix ch)"
  shows "hs_event_queue (snd (handle_submit_shares_extended E payload st)) = hs_event_queue st"
  using assms(2,3) channel_limited [of "hs_channels st" "sub_channel_id (of_extended m)" ch]
  by (cases "ch_kind ch")
    (auto simp: handle_submit_shares_extended_def assms(1) with_rate_limit_def submission_admitted_def Let_def split_beta
      share_error_events)

text \<open>A close request removes its channel from the registry whichever connection opened it.\<close>

lemma close_unregisters_any:
  assumes "decode_CloseChannel payload = Ok (m, rest)" and "cc_channels (hs_channels st) (m_cc_channel_id m) = None"
  shows "hs_registry (snd (handle_close_channel payload st)) (m_cc_channel_id m) = None"
    and "hs_channels (snd (handle_close_channel payload st)) = hs_channels st"
  using assms by (simp_all add: handle_close_channel_def Let_def registry_unregister_def close_channel_def)

lemma frame_outcome_cases:
  "if frame_accepted E header payload st then one_accepted E st (snd (handle_miner_frame E header payload st))
   else nothing_accepted st (snd (handle_miner_frame E header payload st))"
proof -
  let ?t = "fh_msg_type header"
  consider (other) "\<not> base_extension header \<or> ?t \<noteq> MESSAGE_TYPE_SUBMIT_SHARES_STANDARD \<and> ?t \<noteq> MESSAGE_TYPE_SUBMIT_SHARES_EXTENDED"
    | (std) "base_extension header" "?t = MESSAGE_TYPE_SUBMIT_SHARES_STANDARD"
    | (ext) "base_extension header" "?t = MESSAGE_TYPE_SUBMIT_SHARES_EXTENDED" by blast
  then show ?thesis
  proof cases
    case other
    then show ?thesis
      by (auto simp: frame_accepted_def handle_miner_frame_def Let_def nothing_open_standard nothing_open_extended
          nothing_reject_extended nothing_close)
  next
    case std
    then show ?thesis using standard_outcome [of E payload st]
      by (simp add: frame_accepted_def handle_miner_frame_def message_types)
  next
    case ext
    then show ?thesis using extended_outcome [of E payload st]
      by (simp add: frame_accepted_def handle_miner_frame_def message_types)
  qed
qed

section \<open>Properties\<close>

text \<open>C13. The gateway acknowledges exactly the shares it has queued for the pool. A frame is
  accepted when it is a base-protocol submission that decodes, names an open channel of its kind,
  is admitted by the token bucket, is valid for its job, meets the channel target, was not seen
  before and finds room in the forward queue; then its submission is queued and its accepted event
  is queued under the same identifiers or counted as dropped, and the success reply is the next
  frame unless the write fails. Any other frame queues no submission,
  and writes no success reply and no accepted event.\<close>

theorem frame_outcome:
  "if frame_accepted E header payload st then one_accepted E st (snd (handle_miner_frame E header payload st))
   else nothing_accepted st (snd (handle_miner_frame E header payload st))"
  by (rule frame_outcome_cases)

text \<open>C29. Over any connection, from its setup through the frames, jobs and signals that arrive, the
  session state stays well formed: the channels never exceed the connection's limit, each sits
  under its own identifier with a token bucket between zero and its rate, the replay window and
  the two bounded queues keep their bounds; and when the handler returns, no channel of the
  connection is left in the registry.\<close>

theorem connection_well_formed:
  assumes "\<forall>(E', _) \<in> set inputs. env_fits events forwards E'"
    and "length (hs_event_queue st) \<le> events" and "length (hs_forward_queue st) \<le> forwards"
    and "run_connection E setup opening inputs st = (r, st')"
  shows "session_wf events forwards st' \<and>
    (\<forall>i. cc_channels (hs_channels st') i \<noteq> None \<and> (\<exists>e. r = Exit e) \<longrightarrow> hs_registry st' i = None)"
proof -
  let ?st = "st\<lparr>hs_channels := connection_channels_new (hc_max_channels_per_conn (he_config E)),
     hs_dedup := dedup_new (hc_share_dedup_window_size (he_config E)), hs_opened_ids := []\<rparr>"
  let ?run = "and_next (handle_setup_connection E setup) (\<lambda>_. and_next (wait_for_channel_open opening) (\<lambda>_. session_loop inputs)) ?st"
  have "session_wf events forwards ?st"
    using assms(2,3) by (simp add: session_wf_def channel_table_wf_def channels_inv_def connection_channels_new_def dedup_new_wf)
  then have wf: "session_wf events forwards (snd ?run)"
    by (intro wf_next wf_setup wf_wait_for_channel_open wf_session_loop assms(1))
  moreover have "run_connection E setup opening inputs st = end_session ?run" by (simp add: run_connection_def)
  ultimately have "session_wf events forwards st'"
    using assms(4) by (auto simp: end_session_def split: prod.splits flow.splits)
  moreover have "hs_registry st' i = None" if open_i: "cc_channels (hs_channels st') i \<noteq> None" and r: "r = Exit e" for i e
  proof -
    obtain s where "?run = (Exit e, s)"
        "st' = s\<lparr>hs_registry := fold registry_unregister (hs_opened_ids s) (hs_registry s)\<rparr>"
      using assms(4) r unfolding run_connection_def by (auto simp: end_session_def split: prod.splits flow.splits)
    then show ?thesis using wf_table [OF wf] open_i by (auto simp: unregister_all channel_table_wf_def)
  qed
  ultimately show ?thesis by blast
qed

text \<open>C32. A share submission that does not decode never gets its error reply: the handler asks for
  the wire code of \<open>FrameDecodeError\<close>, which has none, and panics; no frame is written, no event
  is queued, and the channels of the connection stay in the registry.\<close>

theorem malformed_share_panics:
  assumes "base_extension header"
    and "fh_msg_type header = MESSAGE_TYPE_SUBMIT_SHARES_STANDARD \<and> isl (decode_SubmitSharesStandard payload) \<or>
      fh_msg_type header = MESSAGE_TYPE_SUBMIT_SHARES_EXTENDED \<and> isl (decode_SubmitSharesExtended payload)"
  shows "handle_miner_frame E header payload st = (Panic, st) \<and>
    end_session (session_loop ((E, Frame header payload) # rest) st) = (Panic, st)"
proof -
  have "undecodable_share E e st = (Panic, st)" for e by (simp add: undecodable_share_def to_sv2_error_code_def)
  then have "handle_miner_frame E header payload st = (Panic, st)"
    using assms
    by (auto simp: handle_miner_frame_def handle_submit_shares_def handle_submit_shares_extended_def message_types isl_def)
  then show ?thesis by (simp add: and_next_def session_step_def end_session_def)
qed

text \<open>A configuration, an environment whose writes succeed, and the state before a connection.\<close>

definition sample_config :: HandlerConfig where
  "sample_config =
     \<lparr>hc_max_channels_per_conn = 2, hc_channel_target = replicate 32 0xFF, hc_ntime_elapsed_slack_seconds = 10,
      hc_max_future_block_time_seconds = 20, hc_share_dedup_window_size = 16,
      hc_max_shares_per_second_per_channel = 10, hc_gateway_instance_id = ''gw'', hc_share_hmac_secret = [],
      hc_extended_channels_enabled = False, hc_extranonce_prefix_len = 4, hc_vardiff_enabled = False,
      hc_vardiff_target_shares_per_min = F64 10, hc_vardiff_retarget_interval = 60, hc_vardiff_min_difficulty = 1,
      hc_vardiff_max_difficulty = 1000, hc_vardiff_max_adjustment_factor = F64 4\<rparr>"

definition sample_env :: handler_env where
  "sample_env =
     \<lparr>he_config = sample_config, he_hex = lower_hex,
      he_crypto = \<lparr>sha256 = (\<lambda>bs. take 32 (bs @ replicate 32 0)), hmac_sha256 = (\<lambda>_ _. None)\<rparr>,
      he_to_vec = (\<lambda>_. None), he_job_table = job_table_new 60000 8, he_latest_job = None, he_peer = ''peer'',
      he_instant = 5, he_monotonic_ms = 5, he_unix_secs = 100, he_unix_ms = 100000,
      he_event_capacity = 4, he_forward_capacity = 4, he_write_ok = (\<lambda>_. True), he_hash_order = (\<lambda>_. [])\<rparr>"

definition sample_state :: handler_state where
  "sample_state =
     \<lparr>hs_channels = connection_channels_new 2, hs_dedup = dedup_new 16, hs_event_queue = [], hs_forward_queue = [],
      hs_frames = [], hs_registry = Map.empty, hs_channel_ids = counter_new, hs_extranonces = extranonce_new,
      hs_opened_ids = [], hs_frames_decoded = 0, hs_events_dropped = 0, hs_queue_full = 0, hs_retarget_up = 0,
      hs_retarget_down = 0\<rparr>"

definition sample_header :: "u8 \<Rightarrow> Sv2FrameHeader" where
  "sample_header t = \<lparr>fh_extension_type = 0, fh_msg_type = t\<rparr>"

definition sample_setup :: bytes where
  "sample_setup = [0, 2, 0, 2, 0, 0, 0, 0, 0, 1, 104, 0, 0, 0, 0, 0, 0]"

definition sample_open :: bytes where
  "sample_open = [1, 0, 0, 0, 1, 119, 0, 0, 0, 0] @ replicate 32 0xFF"

theorem malformed_share_panics_witness:
  "handle_miner_frame sample_env (sample_header 0x1a) [1, 2, 3] sample_state = (Panic, sample_state)"
proof -
  have "isl (decode_SubmitSharesStandard [1, 2, 3])" by code_simp
  moreover have "base_extension (sample_header 0x1a)" by code_simp
  ultimately show ?thesis
    using malformed_share_panics [of "sample_header 0x1a" "[1, 2, 3]" sample_env sample_state]
    by (simp add: sample_header_def message_types)
qed

theorem connection_well_formed_witness:
  "session_wf 4 4 (snd (run_connection sample_env (Some (sample_header 0, sample_setup))
    [(sample_env, Some (sample_header 0x10, sample_open))] [(sample_env, Shutdown_signal)] sample_state))"
proof -
  have "env_fits 4 4 sample_env" by (simp add: env_fits_def sample_env_def)
  then show ?thesis
    using connection_well_formed [OF _ _ _ prod.collapse [symmetric], of "[(sample_env, Shutdown_signal)]" 4 4 sample_state
        sample_env "Some (sample_header 0, sample_setup)" "[(sample_env, Some (sample_header 0x10, sample_open))]"]
    by (simp add: sample_state_def)
qed

text \<open>A channel, a job and a share for it.\<close>

definition sample_job :: JobRecord where
  "sample_job =
     \<lparr>jr_job_id = 3, jr_template_id = 1, jr_block_height = 1, jr_version = 2, jr_prev_hash = replicate 32 0,
      jr_nbits = 7, jr_coinbase_tx_prefix = [], jr_coinbase_tx_suffix = [], jr_merkle_path = [],
      jr_activation_min_ntime = 99, jr_raw_min_ntime = 99, jr_raw_curtime = 99,
      jr_source_instance_id = ''src'', jr_activated = True, jr_created_at = 0\<rparr>"

definition sample_channel :: ChannelState where
  "sample_channel = channel_new 5 1 [1, 0, 0, 0] ''w'' None (replicate 32 0xFF) 10"

definition mining_env :: handler_env where
  "mining_env = sample_env\<lparr>he_job_table := (he_job_table sample_env)\<lparr>jt_jobs := [(3, sample_job)]\<rparr>\<rparr>"

definition mining_state :: handler_state where
  "mining_state = sample_state\<lparr>hs_channels := \<lparr>cc_channels = [1 \<mapsto> sample_channel], cc_max_channels = 2\<rparr>\<rparr>"

definition sample_share :: SubmitSharesStandard where
  "sample_share = \<lparr>m_sss_channel_id = 1, m_sss_sequence_number = 9, m_sss_job_id = 3, m_sss_nonce = 0,
     m_sss_ntime = 100, m_sss_version = 2\<rparr>"

definition sample_submission :: bytes where
  "sample_submission = projr (encode_SubmitSharesStandard sample_share)"

lemma meets_top_target: "n \<le> 32 \<Longrightarrow> hash_le_target n h (replicate 32 0xFF)"
proof (induction n)
  case (Suc n)
  have "\<not> (0xFF :: u8) < b" for b :: u8
  proof -
    have "unat b < 2 ^ LENGTH(8)" by (rule unsigned_less)
    then show ?thesis by (simp add: word_less_nat_alt)
  qed
  then show ?case using Suc by simp
qed simp

lemma sample_accepted: "frame_accepted mining_env (sample_header 0x1a) sample_submission mining_state"
proof -
  have "encode_SubmitSharesStandard sample_share = Ok sample_submission"
    by (simp add: sample_submission_def encode_SubmitSharesStandard_def)
  from codes_SubmitSharesStandard [OF this]
  have d: "decode_SubmitSharesStandard sample_submission = Ok (sample_share, [])"
    unfolding codes_def by (metis append_Nil2)
  have ch: "channel_get (hs_channels mining_state) 1 = Some sample_channel"
    by (simp add: mining_state_def channel_get_def sample_channel_def channel_new_def)
  have "rl_tokens (ch_rate_limiter sample_channel) = F64 (of_nat (unat (10 :: u32)))"
    by (simp only: sample_channel_def channel_new_def rate_limiter_new_def rate_cap(1) ChannelState.simps ShareRateLimiter.simps)
  then have "fst (try_acquire 5 (ch_rate_limiter sample_channel))"
    using try_acquire_exact [of "ch_rate_limiter sample_channel" 5 "unat (10 :: u32)"]
    by (simp add: sample_channel_def channel_new_def rate_limiter_new_def)
  then have adm: "submission_admitted mining_env sample_channel (of_standard sample_share) mining_state"
    using ch by (simp add: submission_admitted_def of_standard_def sample_share_def mining_env_def sample_env_def)
  have j: "share_job mining_env sample_channel (of_standard sample_share) = Ok sample_job"
    by (simp add: share_job_def check_ntime_bounds_iff check_version_bits_def job_get_def elapsed_since_prevhash_secs_def Let_def
        mining_env_def sample_env_def sample_config_def sample_channel_def channel_new_def of_standard_def sample_share_def
        sample_job_def)
  have pow: "validate_share_pow C header (ch_maximum_target sample_channel)" for C header
    by (simp add: validate_share_pow_def sample_channel_def channel_new_def meets_top_target)
  have "share_passes mining_env sample_channel (ch_extranonce_prefix sample_channel) (of_standard sample_share) mining_state"
    using j pow by (simp add: share_passes_def mining_state_def sample_state_def dedup_new_def mining_env_def sample_env_def)
  then show ?thesis
    using d adm by (auto simp: frame_accepted_def standard_accepted_def base_extension_def sample_header_def message_types)
qed

end
