(* ===== verification/RG_ShareIngest.thy ===== *)
theory RG_ShareIngest
  imports RG_Upstream
begin

text \<open>
  The share endpoint of the template manager, \<open>services/template-manager/src/main.rs\<close>: the limits on
  the fields, the check of the gateway's signature, the share log in memory and on disk, and the
  guards of the HTTP server around it. The record the manager reads is the gateway's submission,
  field for field; JSON, HMAC, SHA-256 and hexadecimal are parameters, and \<open>to_vec\<close> is the manager's
  own serializer.
\<close>

section \<open>Signatures\<close>

type_synonym ShareSubmissionRecord = ShareSubmission

definition MAX_SHARE_HEX_FIELD :: nat where
  "MAX_SHARE_HEX_FIELD = 256"

definition MAX_SHARE_STRING_FIELD :: nat where
  "MAX_SHARE_STRING_FIELD = 256"

definition canonical_body_hash ::
  "crypto \<Rightarrow> (ShareSubmissionRecord \<Rightarrow> bytes option) \<Rightarrow> ShareSubmissionRecord \<Rightarrow> hash32" where
  "canonical_body_hash C to_vec submission =
     (let canonical = submission\<lparr>ss_gateway_signature_hex := []\<rparr> in
      case to_vec canonical of
        Some bs \<Rightarrow> sha256 C bs
      | None \<Rightarrow> replicate 32 0)"

definition verify_gateway_signature :: "crypto \<Rightarrow> bytes \<Rightarrow> hash32 \<Rightarrow> hash32 \<Rightarrow> bytes \<Rightarrow> bool" where
  "verify_gateway_signature C secret event_id body_hash signature =
     (case hmac_sha256 C secret (event_id @ body_hash) of
        None \<Rightarrow> False
      | Some mac \<Rightarrow> signature = mac)"

section \<open>The endpoint\<close>

definition field_sizes_ok :: "ShareSubmissionRecord \<Rightarrow> bool" where
  "field_sizes_ok s \<longleftrightarrow>
     \<not> (MAX_SHARE_HEX_FIELD < length (ss_share_id_hex s) \<or>
        MAX_SHARE_HEX_FIELD < length (ss_prev_hash_wire_hex s) \<or>
        MAX_SHARE_HEX_FIELD < length (ss_prev_hash_display_hex s) \<or>
        MAX_SHARE_HEX_FIELD < length (ss_merkle_root_wire_hex s) \<or>
        MAX_SHARE_HEX_FIELD < length (ss_merkle_root_display_hex s) \<or>
        MAX_SHARE_HEX_FIELD < length (ss_event_id_hex s) \<or>
        MAX_SHARE_HEX_FIELD < length (ss_gateway_signature_hex s) \<or>
        MAX_SHARE_STRING_FIELD < length (ss_worker_id s) \<or>
        MAX_SHARE_STRING_FIELD < length (ss_gateway_instance_id s) \<or>
        MAX_SHARE_STRING_FIELD < length (ss_source_instance_id s) \<or>
        MAX_SHARE_STRING_FIELD < length (ss_validation_level s))"

text \<open>The signature check, with the reason of its refusal.\<close>

definition check_signature ::
  "crypto \<Rightarrow> hex_crate \<Rightarrow> (ShareSubmissionRecord \<Rightarrow> bytes option) \<Rightarrow> bytes \<Rightarrow> ShareSubmissionRecord
    \<Rightarrow> GatewayReason + unit" where
  "check_signature C X to_vec secret submission =
     (if ss_gateway_signature_hex submission = [] then Err GR_MissingGatewaySignature
      else case hex_decode X (ss_gateway_signature_hex submission) of
        Inl _ \<Rightarrow> Err GR_MalformedGatewaySignature
      | Inr sig_bytes \<Rightarrow>
          (case (case hex_decode X (ss_event_id_hex submission) of
                   Inr b \<Rightarrow> if length b = 32 then Some b else None | Inl _ \<Rightarrow> None) of
             None \<Rightarrow> Err GR_MalformedEventId
           | Some event_id_bytes \<Rightarrow>
               if \<not> verify_gateway_signature C secret event_id_bytes (canonical_body_hash C to_vec submission) sig_bytes
               then Err GR_InvalidGatewaySignature else Ok ()))"

record share_server =
  sv_share_log :: "ShareSubmissionRecord list"
  sv_file :: string
  sv_shares_ingested_total :: u64

text \<open>What the file system answers: whether the file opens, and whether each of the two writes succeeds.\<close>

record share_file =
  sf_opens :: bool
  sf_line_written :: bool
  sf_newline_written :: bool

definition append_share_line :: "share_file \<Rightarrow> string option \<Rightarrow> string option \<Rightarrow> share_server \<Rightarrow> share_server" where
  "append_share_line F path line st =
     (case (path, line) of
        (Some _, Some text) \<Rightarrow>
          if sf_opens F
          then st\<lparr>sv_file := sv_file st @ (if sf_line_written F then text else []) @
                  (if sf_newline_written F then [CHR 0x0A] else [])\<rparr>
          else st
      | _ \<Rightarrow> st)"

definition push_share :: "ShareSubmissionRecord \<Rightarrow> ShareSubmissionRecord list \<Rightarrow> ShareSubmissionRecord list" where
  "push_share submission entries =
     (let entries = (if 10000 \<le> length entries
                     then (let keep_from = length entries - 8000 in drop keep_from entries) else entries)
      in entries @ [submission])"

definition rejection :: "string \<Rightarrow> ShareUpstreamResponse" where
  "rejection reason = \<lparr>ur_accepted = False, ur_reason = Some reason\<rparr>"

definition ingest_share ::
  "crypto \<Rightarrow> hex_crate \<Rightarrow> (ShareSubmissionRecord \<Rightarrow> bytes option) \<Rightarrow> (ShareSubmissionRecord \<Rightarrow> string option)
    \<Rightarrow> bytes \<Rightarrow> string option \<Rightarrow> share_file \<Rightarrow> ShareSubmissionRecord \<Rightarrow> share_server
    \<Rightarrow> ShareUpstreamResponse \<times> share_server" where
  "ingest_share C X to_vec to_json_line hmac_secret share_log_path F submission st =
     (let st = st\<lparr>sv_shares_ingested_total := sv_shares_ingested_total st + 1\<rparr> in
      if \<not> field_sizes_ok submission then (rejection ''field_size_exceeded'', st)
      else case (if hmac_secret \<noteq> [] then check_signature C X to_vec hmac_secret submission else Ok ()) of
        Inl reason \<Rightarrow> (rejection (gateway_as_str reason), st)
      | Inr _ \<Rightarrow>
          let st = append_share_line F share_log_path (to_json_line submission) st
          in (\<lparr>ur_accepted = True, ur_reason = None\<rparr>,
              st\<lparr>sv_share_log := push_share submission (sv_share_log st)\<rparr>))"

section \<open>Guards of the HTTP server\<close>

text \<open>\<open>enforce_api_secret\<close> and \<open>enforce_hmac_secret\<close>: the process starts or exits.\<close>

definition secret_enforced :: "string option \<Rightarrow> bool \<Rightarrow> bool" where
  "secret_enforced secret opted_out \<longleftrightarrow> \<not> ((secret = None \<or> secret = Some []) \<and> \<not> opted_out)"

definition strip_bearer :: "string \<Rightarrow> string" where
  "strip_bearer v = (if take 7 v = ''Bearer '' then drop 7 v else v)"

text \<open>Whether \<open>api_key_middleware\<close> lets a request through, on the \<open>Authorization\<close> header read as text.\<close>

definition api_key_passes :: "string option \<Rightarrow> string option \<Rightarrow> bool" where
  "api_key_passes secret authorization \<longleftrightarrow>
     (case secret of
        None \<Rightarrow> True
      | Some expected \<Rightarrow>
          expected = [] \<or>
          (case authorization of None \<Rightarrow> False | Some v \<Rightarrow> strip_bearer v = expected))"

definition contains_str :: "string \<Rightarrow> string \<Rightarrow> bool" where
  "contains_str pat s \<longleftrightarrow> list_ex (\<lambda>k. take (length pat) (drop k s) = pat) [0..<Suc (length s)]"

datatype share_path_error = Path_not_absolute string | Path_traversal string

definition validate_share_log_path :: "string \<Rightarrow> share_path_error + unit" where
  "validate_share_log_path path =
     (if \<not> (take 1 path = ''/'') then Err (Path_not_absolute path)
      else if contains_str ''..'' path then Err (Path_traversal path)
      else Ok ())"

section \<open>Lemmas\<close>

lemma check_signature_Ok:
  "check_signature C X to_vec secret s = Ok () \<longleftrightarrow>
     ss_gateway_signature_hex s \<noteq> [] \<and>
     (\<exists>sig event_id. hex_decode X (ss_gateway_signature_hex s) = Ok sig \<and>
        hex_decode X (ss_event_id_hex s) = Ok event_id \<and> length event_id = 32 \<and>
        hmac_sha256 C secret (event_id @ canonical_body_hash C to_vec s) = Some sig)"
  by (auto simp: check_signature_def verify_gateway_signature_def split: sum.splits option.splits if_splits)

lemma ingest_accepted:
  "ur_accepted (fst (ingest_share C X to_vec to_line secret path F s st)) \<longleftrightarrow>
     field_sizes_ok s \<and> (secret \<noteq> [] \<longrightarrow> check_signature C X to_vec secret s = Ok ())"
  by (auto simp: ingest_share_def Let_def rejection_def split: sum.splits)

lemma ingest_logs:
  "sv_share_log (snd (ingest_share C X to_vec to_line secret path F s st)) =
     (if ur_accepted (fst (ingest_share C X to_vec to_line secret path F s st))
      then push_share s (sv_share_log st) else sv_share_log st)"
  by (auto simp: ingest_share_def Let_def rejection_def append_share_line_def split: sum.splits option.splits)

lemma push_share_bound: "length entries \<le> 10000 \<Longrightarrow> length (push_share s entries) \<le> 10000"
  by (simp add: push_share_def Let_def)

lemma push_share_newest: "\<exists>k. push_share s entries = drop k entries @ [s]"
  by (auto simp: push_share_def Let_def intro: exI [of _ 0])

lemma share_log_bounded:
  "length (sv_share_log st) \<le> 10000 \<Longrightarrow>
    length (sv_share_log (snd (ingest_share C X to_vec to_line secret path F s st))) \<le> 10000"
  by (simp add: ingest_logs push_share_bound)

text \<open>A traversal is recognised by its two dots anywhere in the path, a component or not.\<close>

lemma share_log_path_Ok:
  "validate_share_log_path path = Ok () \<longleftrightarrow>
     (\<exists>rest. path = CHR ''/'' # rest) \<and> (\<nexists>before after. path = before @ ''..'' @ after)"
proof -
  have "take 1 path = ''/'' \<longleftrightarrow> (\<exists>rest. path = CHR ''/'' # rest)" by (cases path) auto
  moreover have "contains_str ''..'' path \<longleftrightarrow> (\<exists>before after. path = before @ ''..'' @ after)"
  proof
    assume "contains_str ''..'' path"
    then obtain k where "take 2 (drop k path) = ''..''" by (auto simp: contains_str_def list_ex_iff numeral_2_eq_2)
    then have "path = take k path @ ''..'' @ drop 2 (drop k path)"
      by (metis append_take_drop_id)
    then show "\<exists>before after. path = before @ ''..'' @ after" by blast
  next
    assume "\<exists>before after. path = before @ ''..'' @ after"
    then obtain before after where "path = before @ ''..'' @ after" by blast
    then show "contains_str ''..'' path"
      by (auto simp: contains_str_def list_ex_iff intro!: bexI [of _ "length before"])
  qed
  ultimately show ?thesis by (auto simp: validate_share_log_path_def)
qed

text \<open>
  What the two services agree on: the manager serializes a submission as the gateway does, the
  hash and the code have 32 bytes, and the code takes a key of any length.
\<close>

definition wire_agrees ::
  "crypto \<Rightarrow> (ShareSubmission \<Rightarrow> bytes option) \<Rightarrow> (ShareSubmissionRecord \<Rightarrow> bytes option) \<Rightarrow> bool" where
  "wire_agrees C gateway_to_vec manager_to_vec \<longleftrightarrow>
     (\<forall>s. \<exists>bs. gateway_to_vec s = Some bs \<and> manager_to_vec s = Some bs) \<and>
     (\<forall>key data. \<exists>mac. hmac_sha256 C key data = Some mac \<and> length mac = 32)"

lemma wire_agreesE:
  assumes "wire_agrees C gv mv"
  obtains bs where "gv s = Some bs" "mv s = Some bs"
  using assms unfolding wire_agrees_def by blast

lemma signed_checks:
  assumes "hex_crate_ok X" and "wire_agrees C gv mv" and "secret \<noteq> []"
    and "hex_decode X (ss_event_id_hex s) = Ok event_id" and "length event_id = 32"
  shows "check_signature C X mv secret (sign_submission C X gv secret s) = Ok ()"
    and "length (ss_gateway_signature_hex (sign_submission C X gv secret s)) = 64"
proof -
  let ?s = "s\<lparr>ss_gateway_signature_hex := []\<rparr>"
  obtain bs where bs: "gv ?s = Some bs" "mv ?s = Some bs" by (rule wire_agreesE [OF assms(2)])
  obtain mac where mac: "hmac_sha256 C secret (event_id @ sha256 C bs) = Some mac" "length mac = 32"
    using assms(2) unfolding wire_agrees_def by blast
  have signed: "sign_submission C X gv secret s = s\<lparr>ss_gateway_signature_hex := hex_encode X mac\<rparr>"
    using assms(3-5) bs mac by (simp add: sign_submission_def compute_gateway_signature_def Let_def)
  have hex: "length (hex_encode X mac) = 64" "hex_decode X (hex_encode X mac) = Ok mac"
    using assms(1) mac(2) by (simp_all add: hex_crate_ok_def)
  then have "hex_encode X mac \<noteq> []" by auto
  then show "check_signature C X mv secret (sign_submission C X gv secret s) = Ok ()"
    using hex(2) assms(4,5) mac(1) bs(2)
    by (simp add: check_signature_Ok signed canonical_body_hash_def Let_def)
  show "length (ss_gateway_signature_hex (sign_submission C X gv secret s)) = 64"
    using hex(1) by (simp add: signed)
qed

section \<open>Properties\<close>

text \<open>C16. A share the gateway signs is ingested, and with a secret nothing else is. The manager
  accepts the gateway's own submission, as it was signed, whenever its text fields are within
  256 bytes and its event identifier is one; and what it accepts always carries the code, under the shared
  secret, of its event identifier and its whole body, so that a signature moved to another
  submission is accepted only if the code is the same.\<close>

theorem gateway_share_ingested:
  assumes "hex_crate_ok X" and "wire_agrees C gv mv" and "secret \<noteq> []"
    and "hex_decode X (ss_event_id_hex s) = Ok event_id" and "length event_id = 32"
    and "field_sizes_ok (s\<lparr>ss_gateway_signature_hex := []\<rparr>)"
  shows "fst (ingest_share C X mv to_line secret path F (sign_submission C X gv secret s) st) =
      \<lparr>ur_accepted = True, ur_reason = None\<rparr> \<and>
    (\<forall>s'. ur_accepted (fst (ingest_share C X mv to_line secret path F s' st)) \<longrightarrow>
      (\<exists>mac event_id' body. hex_decode X (ss_gateway_signature_hex s') = Ok mac \<and>
        hex_decode X (ss_event_id_hex s') = Ok event_id' \<and>
        gv (s'\<lparr>ss_gateway_signature_hex := []\<rparr>) = Some body \<and>
        hmac_sha256 C secret (event_id' @ sha256 C body) = Some mac))"
proof (intro conjI allI impI)
  note signed = signed_checks [OF assms(1-5)]
  have "field_sizes_ok (sign_submission C X gv secret s)"
    using assms(6) signed(2)
    by (simp add: field_sizes_ok_def MAX_SHARE_HEX_FIELD_def sign_submission_def Let_def split: option.splits)
  then show "fst (ingest_share C X mv to_line secret path F (sign_submission C X gv secret s) st) =
      \<lparr>ur_accepted = True, ur_reason = None\<rparr>"
    using signed(1) assms(3) by (simp add: ingest_share_def Let_def)
next
  fix s'
  assume "ur_accepted (fst (ingest_share C X mv to_line secret path F s' st))"
  then have ok: "check_signature C X mv secret s' = Ok ()" using assms(3) by (simp add: ingest_accepted)
  obtain body where "gv (s'\<lparr>ss_gateway_signature_hex := []\<rparr>) = Some body"
      "mv (s'\<lparr>ss_gateway_signature_hex := []\<rparr>) = Some body"
    by (rule wire_agreesE [OF assms(2)])
  then show "\<exists>mac event_id' body. hex_decode X (ss_gateway_signature_hex s') = Ok mac \<and>
        hex_decode X (ss_event_id_hex s') = Ok event_id' \<and>
        gv (s'\<lparr>ss_gateway_signature_hex := []\<rparr>) = Some body \<and>
        hmac_sha256 C secret (event_id' @ sha256 C body) = Some mac"
    using ok by (auto simp: check_signature_Ok canonical_body_hash_def Let_def)
qed

definition sample_hash :: crypto where
  "sample_hash = \<lparr>sha256 = (\<lambda>data. take 32 (data @ replicate 32 0)),
     hmac_sha256 = (\<lambda>key data. Some (take 32 (key @ data @ replicate 32 0)))\<rparr>"

definition sample_signed :: ShareSubmission where
  "sample_signed = \<lparr>ss_share_id_hex = ''00'', ss_version = 4, ss_prev_hash_wire_hex = ''00'',
     ss_prev_hash_display_hex = ''00'', ss_merkle_root_wire_hex = ''00'', ss_merkle_root_display_hex = ''00'',
     ss_ntime = 1, ss_nbits = 2, ss_nonce = 3, ss_event_id_hex = hex_encode lower_hex (replicate 32 5),
     ss_worker_id = ''w'', ss_validation_level = ''full'', ss_gateway_instance_id = ''g'', ss_channel_id = 1,
     ss_sequence_number = 1, ss_job_id = 1, ss_template_id = 1, ss_block_height = 1, ss_pool_account_id = None,
     ss_timestamp_ms = 1, ss_difficulty_u64 = 1, ss_difficulty_display = F64 1, ss_source_instance_id = ''s'',
     ss_gateway_signature_hex = []\<rparr>"

theorem gateway_share_ingested_witness:
  "fst (ingest_share sample_hash lower_hex (\<lambda>s. Some [1]) (\<lambda>_. None) [7] None
      \<lparr>sf_opens = False, sf_line_written = False, sf_newline_written = False\<rparr>
      (sign_submission sample_hash lower_hex (\<lambda>s. Some [1]) [7] sample_signed)
      \<lparr>sv_share_log = [], sv_file = [], sv_shares_ingested_total = 0\<rparr>) = \<lparr>ur_accepted = True, ur_reason = None\<rparr>"
proof -
  have "wire_agrees sample_hash (\<lambda>s. Some [1]) (\<lambda>s. Some [1])"
    by (auto simp: wire_agrees_def sample_hash_def)
  moreover have "length (hex_encode lower_hex (replicate 32 5)) = 64"
      "hex_decode lower_hex (ss_event_id_hex sample_signed) = Ok (replicate 32 5)"
    using lower_hex_ok by (simp_all add: hex_crate_ok_def sample_signed_def)
  moreover from this have "field_sizes_ok (sample_signed\<lparr>ss_gateway_signature_hex := []\<rparr>)"
    by (simp add: field_sizes_ok_def sample_signed_def MAX_SHARE_HEX_FIELD_def MAX_SHARE_STRING_FIELD_def)
  ultimately show ?thesis
    using gateway_share_ingested [OF lower_hex_ok, of sample_hash "\<lambda>s. Some [1]" "\<lambda>s. Some [1]" "[7]" sample_signed]
    by simp
qed

end
