(* ===== verification/RG_TemplateManager.thy ===== *)
theory RG_TemplateManager
  imports RG_Policy RG_Jobs RG_ShareIngest "HOL-Library.List_Lexorder" "HOL-Library.Char_ord"
begin

text \<open>
  The template manager, \<open>services/template-manager/src/main.rs\<close> and \<open>config.rs\<close>: the coinbase
  halves, the merkle branch and the raw block built from an answer of \<open>getblocktemplate\<close>, the
  source that polls the node, the loop that proposes a template to the verifier and publishes it
  for the gateway, and the configuration. The node, the stream to the verifier, the hexadecimal
  crate, SHA-256, the hasher of the standard library and the \<open>bitcoin\<close> crate are parameters.
  Sums that Rust writes with \<open>sum()\<close> and \<open>+\<close> wrap, as they do in a release build.
\<close>

section \<open>Fingerprints\<close>

record GbtExtras =
  ge_block_version :: u32
  ge_nbits :: u32
  ge_min_ntime :: u32
  ge_curtime :: u32
  ge_coinbase_tx_prefix :: string
  ge_coinbase_tx_suffix :: string
  ge_merkle_path :: "string list"

record TemplateFingerprint =
  fp_height :: u64
  fp_prev_hash :: string
  fp_tx_count :: u32
  fp_total_fees :: u64
  fp_txids_hash :: u64

text \<open>What is fed to \<open>DefaultHasher\<close>, whose result on it is the parameter \<open>finish\<close>.\<close>

datatype hash_write = Hash_str string | Hash_u32 u32 | Hash_u64 u64

definition hash_txids :: "(hash_write list \<Rightarrow> u64) \<Rightarrow> string list \<Rightarrow> u64" where
  "hash_txids finish txids = finish (map Hash_str (sort txids))"

definition block_subsidy_sats :: "u32 \<Rightarrow> u64" where
  "block_subsidy_sats height =
     (let halvings = height div 210000 in
      if 64 \<le> halvings then 0 else drop_bit (unat halvings) (50 * 100000000))"

definition stable_template_id :: "(hash_write list \<Rightarrow> u64) \<Rightarrow> TemplateFingerprint \<Rightarrow> u64" where
  "stable_template_id finish fp =
     finish [Hash_u64 (fp_height fp), Hash_str (fp_prev_hash fp), Hash_u32 (fp_tx_count fp),
       Hash_u64 (fp_total_fees fp), Hash_u64 (fp_txids_hash fp)]"

section \<open>Coinbase and raw block\<close>

text \<open>\<open>while n > 0\<close>: the bytes of the height, lowest first.\<close>

function height_bytes :: "u32 \<Rightarrow> bytes" where
  "height_bytes n = (if n = 0 then [] else ucast (n AND 0xFF) # height_bytes (drop_bit 8 n))"
  by pat_completeness auto

termination height_bytes
proof (relation "measure unat")
  show "(drop_bit 8 n, n) \<in> measure unat" if "n \<noteq> 0" for n :: u32
    using that by (simp add: unat_drop_bit unat_gt_0)
qed simp

declare height_bytes.simps [simp del]

definition bip34_height_push :: "u32 \<Rightarrow> bytes" where
  "bip34_height_push height =
     (if height = 0 then [0x01, 0x00]
      else let v = height_bytes height;
               v = (if v \<noteq> [] \<and> last v AND 0x80 \<noteq> 0 then v @ [0x00] else v)
           in of_nat (length v) # v)"

definition display_hex_to_internal :: "hex_crate \<Rightarrow> string \<Rightarrow> hash32 option" where
  "display_hex_to_internal X display_hex =
     (case hex_decode X display_hex of
        Inl _ \<Rightarrow> None
      | Inr bs \<Rightarrow> if length bs = 32 then Some (rev bs) else None)"

definition assemble_raw_block_hex ::
  "bitcoin_api \<Rightarrow> hex_crate \<Rightarrow> u32 \<Rightarrow> u32 \<Rightarrow> u32 \<Rightarrow> string \<Rightarrow> bytes \<Rightarrow> bytes \<Rightarrow> nat \<Rightarrow> bytes list \<Rightarrow> string option" where
  "assemble_raw_block_hex B X block_version nbits curtime prev_hash_display cb_prefix cb_suffix
       extranonce_size txs_raw =
     (case display_hex_to_internal X prev_hash_display of
        None \<Rightarrow> None
      | Some prev_hash \<Rightarrow>
          let coinbase_legacy = cb_prefix @ replicate extranonce_size 0 @ cb_suffix;
              parts = \<lparr>pt_version = block_version, pt_prev_hash = prev_hash, pt_time = curtime,
                       pt_bits = nbits, pt_coinbase_legacy = coinbase_legacy, pt_txs_raw = txs_raw\<rparr>
          in case assemble_template_block B parts of
               Inr raw \<Rightarrow> Some (hex_encode X raw)
             | Inl _ \<Rightarrow> None)"

text \<open>The errors of building a template, and the panic of an \<open>assert\<close>.\<close>

datatype build_error =
    Script_sig_over_cap nat
  | Script_sig_over_varint nat
  | Commitment_over_varint nat
  | Txid_hex_invalid string
  | Txid_length nat string
  | Bridge_disconnected

datatype 'a build = Built 'a | Build_failed build_error | Build_panicked

fun build_next :: "'a build \<Rightarrow> ('a \<Rightarrow> 'b build) \<Rightarrow> 'b build" where
  "build_next (Built a) f = f a"
| "build_next (Build_failed e) f = Build_failed e"
| "build_next Build_panicked f = Build_panicked"

definition coinbase_prefix :: "nat \<Rightarrow> bytes \<Rightarrow> bytes \<Rightarrow> bytes" where
  "coinbase_prefix scriptsig_len push coinbase_aux =
     u32_to_le_bytes 2 @ [0x01] @ replicate 32 0 @ u32_to_le_bytes 0xFFFFFFFF @
     [of_nat scriptsig_len] @ push @ coinbase_aux"

definition build_coinbase_halves ::
  "u32 \<Rightarrow> u64 \<Rightarrow> bytes \<Rightarrow> nat \<Rightarrow> bytes \<Rightarrow> bytes option \<Rightarrow> (bytes \<times> bytes) build" where
  "build_coinbase_halves block_height coinbase_value coinbase_output_script extranonce_size coinbase_aux
       witness_commitment_script =
     (let push = bip34_height_push block_height;
          scriptsig_len = length push + length coinbase_aux + extranonce_size
      in if \<not> scriptsig_len \<le> 100 then Build_failed (Script_sig_over_cap scriptsig_len)
         else if \<not> scriptsig_len < 253 then Build_failed (Script_sig_over_varint scriptsig_len)
         else let prefix = coinbase_prefix scriptsig_len push coinbase_aux;
                  output_count = (if witness_commitment_script \<noteq> None then 2 else 1)
         in if \<not> length coinbase_output_script < 253 then Build_panicked
            else let payout = u32_to_le_bytes 0xFFFFFFFF @ [output_count] @ to_le 8 (unat coinbase_value) @
                       [of_nat (length coinbase_output_script)] @ coinbase_output_script
            in case witness_commitment_script of
                 None \<Rightarrow> Built (prefix, payout @ u32_to_le_bytes 0)
               | Some wc_script \<Rightarrow>
                   if \<not> length wc_script < 253 then Build_failed (Commitment_over_varint (length wc_script))
                   else Built (prefix, payout @ to_le 8 0 @ [of_nat (length wc_script)] @ wc_script @
                          u32_to_le_bytes 0))"

section \<open>Merkle branch\<close>

fun parse_txids :: "hex_crate \<Rightarrow> string list \<Rightarrow> hash32 list build" where
  "parse_txids X [] = Built []"
| "parse_txids X (hex_str # txids) =
     (case hex_decode X hex_str of
        Inl _ \<Rightarrow> Build_failed (Txid_hex_invalid hex_str)
      | Inr bs \<Rightarrow>
          if length bs \<noteq> 32 then Build_failed (Txid_length (length bs) hex_str)
          else build_next (parse_txids X txids) (\<lambda>level. Built (rev bs # level)))"

text \<open>The next level of the tree: \<open>for i in (0..level.len()).step_by(2)\<close> on a level of even length.\<close>

fun combine_pairs :: "crypto \<Rightarrow> hash32 list \<Rightarrow> hash32 list" where
  "combine_pairs C (a # b # level) = sha256d C (a @ b) # combine_pairs C level"
| "combine_pairs C _ = []"

definition pad_level :: "hash32 list \<Rightarrow> hash32 list" where
  "pad_level level = (if odd (length level) then level @ [last level] else level)"

lemma length_combine_pairs: "length (combine_pairs C level) = length level div 2"
  by (induction C level rule: combine_pairs.induct) simp_all

lemma length_pad_level: "1 < length level \<Longrightarrow> length (pad_level level) div 2 < length level"
  by (cases "odd (length level)") (auto simp: pad_level_def elim!: oddE)

function merkle_branch_loop :: "crypto \<Rightarrow> hex_crate \<Rightarrow> hash32 list \<Rightarrow> nat \<Rightarrow> string list" where
  "merkle_branch_loop C X level index =
     (if length level \<le> 1 then []
      else let level = pad_level level;
               sibling_idx = (if even index then index + 1 else index - 1)
           in hex_encode X (level ! sibling_idx) # merkle_branch_loop C X (combine_pairs C level) (index div 2))"
  by pat_completeness auto

termination merkle_branch_loop
  by (relation "measure (\<lambda>(C, X, level, index). length level)")
    (simp_all add: length_combine_pairs length_pad_level)

declare merkle_branch_loop.simps [simp del]

definition compute_merkle_branch :: "crypto \<Rightarrow> hex_crate \<Rightarrow> string list \<Rightarrow> string list build" where
  "compute_merkle_branch C X txid_hex_display =
     (if txid_hex_display = [] then Built []
      else build_next (parse_txids X txid_hex_display)
             (\<lambda>txids. Built (merkle_branch_loop C X (replicate 32 0 # txids) 0)))"
section \<open>Configuration\<close>

record BitcoindNested =
  bn_rpc_url :: string
  bn_rpc_user :: string
  bn_rpc_pass :: string

record StratumNested =
  sn_addr :: string
  sn_auth :: "string option"

record ManagerTable =
  mt_backend :: string
  mt_poll_interval_secs :: "u64 option"
  mt_verifier_tcp_addr :: "string option"
  mt_http_listen_addr :: "string option"
  mt_rpc_url :: "string option"
  mt_rpc_user :: "string option"
  mt_rpc_pass :: "string option"
  mt_coinbase_output_script_hex :: "string option"
  mt_extranonce_size :: "nat option"
  mt_stratum_addr :: "string option"
  mt_stratum_auth :: "string option"
  mt_bitcoind :: "BitcoindNested option"
  mt_stratum :: "StratumNested option"

record TemplateManagerConfig =
  tc_backend :: string
  tc_poll_interval_secs :: "u64 option"
  tc_verifier_tcp_addr :: "string option"
  tc_http_listen_addr :: "string option"
  tc_rpc_url :: "string option"
  tc_rpc_user :: "string option"
  tc_rpc_pass :: "string option"
  tc_stratum_addr :: "string option"
  tc_stratum_auth :: "string option"
  tc_coinbase_output_script_hex :: string
  tc_extranonce_size :: nat

definition normalize :: "ManagerTable \<Rightarrow> TemplateManagerConfig" where
  "normalize mgr =
     (let (rpc_url, rpc_user, rpc_pass) =
            (case mt_bitcoind mgr of
               None \<Rightarrow> (mt_rpc_url mgr, mt_rpc_user mgr, mt_rpc_pass mgr)
             | Some b \<Rightarrow> (Some (bn_rpc_url b), Some (bn_rpc_user b), Some (bn_rpc_pass b)));
          (stratum_addr, stratum_auth) =
            (case mt_stratum mgr of
               None \<Rightarrow> (mt_stratum_addr mgr, mt_stratum_auth mgr)
             | Some s \<Rightarrow> (Some (sn_addr s), sn_auth s))
      in \<lparr>tc_backend = mt_backend mgr, tc_poll_interval_secs = mt_poll_interval_secs mgr,
          tc_verifier_tcp_addr = mt_verifier_tcp_addr mgr, tc_http_listen_addr = mt_http_listen_addr mgr,
          tc_rpc_url = rpc_url, tc_rpc_user = rpc_user, tc_rpc_pass = rpc_pass,
          tc_stratum_addr = stratum_addr, tc_stratum_auth = stratum_auth,
          tc_coinbase_output_script_hex =
            (case mt_coinbase_output_script_hex mgr of None \<Rightarrow> ''51'' | Some h \<Rightarrow> h),
          tc_extranonce_size = (case mt_extranonce_size mgr of None \<Rightarrow> 4 | Some n \<Rightarrow> n)\<rparr>)"

datatype manager_config_error =
    Poll_interval_zero
  | Stratum_addr_missing
  | Unsupported_backend string
  | Output_script_not_hex string
  | Extranonce_size_out_of_range nat

definition validate_backend :: "TemplateManagerConfig \<Rightarrow> manager_config_error + unit" where
  "validate_backend cfg =
     (if tc_backend cfg = ''bitcoind''
      then (if tc_poll_interval_secs cfg = Some 0 then Err Poll_interval_zero else Ok ())
      else if tc_backend cfg = ''stratum''
      then (if trim (case tc_stratum_addr cfg of None \<Rightarrow> [] | Some s \<Rightarrow> s) = []
            then Err Stratum_addr_missing else Ok ())
      else Err (Unsupported_backend (tc_backend cfg)))"

definition validate_manager_config :: "hex_crate \<Rightarrow> TemplateManagerConfig \<Rightarrow> manager_config_error + unit" where
  "validate_manager_config X cfg =
     and_then (validate_backend cfg) (\<lambda>_.
       if isl (hex_decode X (tc_coinbase_output_script_hex cfg))
       then Err (Output_script_not_hex (tc_coinbase_output_script_hex cfg))
       else if tc_extranonce_size cfg = 0 \<or> 32 < tc_extranonce_size cfg
       then Err (Extranonce_size_out_of_range (tc_extranonce_size cfg))
       else Ok ())"

text \<open>\<open>from_path\<close> after the TOML reader, and the source \<open>main\<close> builds from it.\<close>

definition manager_config :: "hex_crate \<Rightarrow> ManagerTable \<Rightarrow> manager_config_error + TemplateManagerConfig" where
  "manager_config X mgr =
     (let cfg = normalize mgr in and_then (validate_manager_config X cfg) (\<lambda>_. Ok cfg))"

definition poll_secs :: "TemplateManagerConfig \<Rightarrow> u64" where
  "poll_secs cfg = max 1 (case tc_poll_interval_secs cfg of None \<Rightarrow> 5 | Some p \<Rightarrow> p)"

section \<open>Polling the node\<close>

record gbt_transaction =
  gt_txid :: string
  gt_raw_tx :: bytes
  gt_fee :: u64
  gt_sigops :: u32
  gt_weight :: u64

record GetBlockTemplateResult =
  gbt_version :: u32
  gbt_height :: u64
  gbt_previous_block_hash :: string
  gbt_transactions :: "gbt_transaction list"
  gbt_coinbase_value :: u64
  gbt_coinbaseaux :: "(string \<times> string) list"
  gbt_default_witness_commitment :: bytes
  gbt_bits :: bytes
  gbt_min_time :: u64
  gbt_current_time :: u64

text \<open>\<open>coinbasetxn.sigops\<close> of the raw answer, when it is there and a \<open>u64\<close>.\<close>

definition extract_coinbase_sigops :: "u64 option \<Rightarrow> u32 option" where
  "extract_coinbase_sigops sigops = map_option ucast sigops"

datatype 'a rpc_attempt = Rpc_answer 'a | Rpc_error | Join_error

text \<open>The loop of at most three attempts: \<open>calls k\<close> is what attempt \<open>k\<close> brings.\<close>

function rpc_with_retries :: "(nat \<Rightarrow> 'a rpc_attempt) \<Rightarrow> nat \<Rightarrow> 'a option" where
  "rpc_with_retries calls attempts =
     (case calls attempts of
        Rpc_answer a \<Rightarrow> Some a
      | _ \<Rightarrow> let attempts = attempts + 1 in
             if 3 \<le> attempts then None else rpc_with_retries calls attempts)"
  by pat_completeness auto

termination rpc_with_retries
  by (relation "measure (\<lambda>(calls, attempts). 3 - attempts)") auto

declare rpc_with_retries.simps [simp del]

definition bits_to_nbits :: "bytes \<Rightarrow> u32" where
  "bits_to_nbits bits = (if length bits = 4 then of_nat (le_val (rev bits)) else 0)"

definition coinbase_aux_bytes :: "hex_crate \<Rightarrow> (string \<times> string) list \<Rightarrow> bytes" where
  "coinbase_aux_bytes X aux =
     concat (map (\<lambda>key. case map_of aux key of
                          None \<Rightarrow> []
                        | Some hex_val \<Rightarrow> (case hex_decode X hex_val of Inr bs \<Rightarrow> bs | Inl _ \<Rightarrow> []))
                 (sort (map fst aux)))"

record manager_env =
  me_bitcoin :: bitcoin_api
  me_crypto :: crypto
  me_hex :: hex_crate
  me_finish :: "hash_write list \<Rightarrow> u64"
  me_instance_id :: string

record BitcoindTemplateSource =
  bs_last_fp :: "TemplateFingerprint option"
  bs_had_rpc_error :: bool
  bs_coinbase_output_script :: bytes
  bs_extranonce_size :: nat

definition template_source_new :: "bytes \<Rightarrow> nat \<Rightarrow> BitcoindTemplateSource" where
  "template_source_new script extranonce_size =
     \<lparr>bs_last_fp = None, bs_had_rpc_error = False, bs_coinbase_output_script = script,
      bs_extranonce_size = extranonce_size\<rparr>"

definition total_fees_of :: "GetBlockTemplateResult \<Rightarrow> u64" where
  "total_fees_of tpl = sum_list (map gt_fee (gbt_transactions tpl))"

definition coinbase_value_of :: "GetBlockTemplateResult \<Rightarrow> u64" where
  "coinbase_value_of tpl =
     (if gbt_coinbase_value tpl = 0
      then block_subsidy_sats (ucast (gbt_height tpl)) + total_fees_of tpl
      else gbt_coinbase_value tpl)"

definition fingerprint_of :: "manager_env \<Rightarrow> GetBlockTemplateResult \<Rightarrow> TemplateFingerprint" where
  "fingerprint_of E tpl =
     \<lparr>fp_height = ucast (ucast (gbt_height tpl) :: u32), fp_prev_hash = gbt_previous_block_hash tpl,
      fp_tx_count = of_nat (length (gbt_transactions tpl)), fp_total_fees = total_fees_of tpl,
      fp_txids_hash = hash_txids (me_finish E) (map gt_txid (gbt_transactions tpl))\<rparr>"

definition template_propose ::
  "u64 \<Rightarrow> GetBlockTemplateResult \<Rightarrow> u32 option \<Rightarrow> u64 \<Rightarrow> u64 \<Rightarrow> string option \<Rightarrow> TemplatePropose" where
  "template_propose template_id tpl cb_sigops coinbase_value now_ms raw_block_hex =
     (let template_weight = sum_list (map gt_weight (gbt_transactions tpl)) in
      \<lparr>tp_version = PROTOCOL_VERSION, tp_id = template_id, tp_block_height = ucast (gbt_height tpl),
       tp_prev_hash = gbt_previous_block_hash tpl, tp_coinbase_value = coinbase_value,
       tp_tx_count = of_nat (length (gbt_transactions tpl)), tp_total_fees = total_fees_of tpl,
       tp_observed_weight = Some template_weight, tp_created_at_unix_ms = Some now_ms,
       tp_total_sigops = Some (sum_list (map gt_sigops (gbt_transactions tpl))),
       tp_coinbase_sigops = cb_sigops, tp_template_weight = Some template_weight,
       tp_gateway_instance_id = None, tp_raw_block_hex = raw_block_hex\<rparr>)"

text \<open>From the answer of the node to the proposal and what the gateway needs beside it.\<close>

definition build_template ::
  "manager_env \<Rightarrow> bytes \<Rightarrow> nat \<Rightarrow> u64 \<Rightarrow> GetBlockTemplateResult \<Rightarrow> u32 option \<Rightarrow> u64
    \<Rightarrow> (TemplatePropose \<times> GbtExtras) build" where
  "build_template E output_script extranonce_size template_id tpl cb_sigops now_ms =
     (let wc_bytes = gbt_default_witness_commitment tpl;
          coinbase_value = coinbase_value_of tpl;
          witness_commitment = (if wc_bytes = [] then None else Some wc_bytes)
      in build_next (build_coinbase_halves (ucast (gbt_height tpl)) coinbase_value output_script extranonce_size
           (coinbase_aux_bytes (me_hex E) (gbt_coinbaseaux tpl)) witness_commitment) (\<lambda>(cb_prefix, cb_suffix).
         build_next (compute_merkle_branch (me_crypto E) (me_hex E) (map gt_txid (gbt_transactions tpl)))
           (\<lambda>merkle_branch.
             let raw_block_hex = assemble_raw_block_hex (me_bitcoin E) (me_hex E) (gbt_version tpl)
                   (bits_to_nbits (gbt_bits tpl)) (ucast (gbt_current_time tpl)) (gbt_previous_block_hash tpl)
                   cb_prefix cb_suffix extranonce_size (map gt_raw_tx (gbt_transactions tpl))
             in Built (template_propose template_id tpl cb_sigops coinbase_value now_ms raw_block_hex,
                  \<lparr>ge_block_version = gbt_version tpl, ge_nbits = bits_to_nbits (gbt_bits tpl),
                   ge_min_ntime = ucast (gbt_min_time tpl), ge_curtime = ucast (gbt_current_time tpl),
                   ge_coinbase_tx_prefix = hex_encode (me_hex E) cb_prefix,
                   ge_coinbase_tx_suffix = hex_encode (me_hex E) cb_suffix,
                   ge_merkle_path = merkle_branch\<rparr>))))"

type_synonym gbt_attempts = "nat \<Rightarrow> (GetBlockTemplateResult \<times> u32 option) rpc_attempt"

text \<open>
  \<open>next_template\<close> of the bitcoind source. The fingerprint is stored before the template is
  built, whether or not it can be.
\<close>

definition next_template_bitcoind ::
  "manager_env \<Rightarrow> gbt_attempts \<Rightarrow> u64 \<Rightarrow> BitcoindTemplateSource
    \<Rightarrow> (TemplatePropose \<times> GbtExtras option) option build \<times> BitcoindTemplateSource" where
  "next_template_bitcoind E calls now_ms src =
     (case rpc_with_retries calls 0 of
        None \<Rightarrow> (Built None, src\<lparr>bs_had_rpc_error := True\<rparr>)
      | Some (tpl, cb_sigops) \<Rightarrow>
          let src = src\<lparr>bs_had_rpc_error := False\<rparr>;
              fp = fingerprint_of E tpl
          in if bs_last_fp src = Some fp then (Built None, src)
             else let template_id = stable_template_id (me_finish E) fp;
                      src = src\<lparr>bs_last_fp := Some fp\<rparr>
             in (build_next (build_template E (bs_coinbase_output_script src) (bs_extranonce_size src)
                   template_id tpl cb_sigops now_ms) (\<lambda>(propose, extras). Built (Some (propose, Some extras))), src))"

text \<open>\<open>next_template\<close> of the Stratum source: what the channel from the bridge brings.\<close>

definition next_template_stratum ::
  "TemplatePropose option \<Rightarrow> (TemplatePropose \<times> GbtExtras option) option build" where
  "next_template_stratum received =
     (case received of
        Some tpl \<Rightarrow> Built (Some (tpl, None))
      | None \<Rightarrow> Build_failed Bridge_disconnected)"

section \<open>The manager loop\<close>

record LoggedTemplate =
  lt_id :: u64
  lt_height :: u32
  lt_total_fees :: u64
  lt_backend :: string
  lt_timestamp :: u64

text \<open>The fields of the gateway's response, and the rendering of \<open>nbits\<close> beside them.\<close>

record LatestTemplate = TemplateResponse +
  lt_nbits_hex :: u32

record MempoolStats =
  ms_loaded_from :: string
  ms_tx_count :: u64
  ms_bytes :: u64
  ms_usage :: u64
  ms_max :: u64
  ms_min_relay_fee :: u64
  ms_timestamp :: u64

record GetMempoolInfoResult =
  mpi_size :: u64
  mpi_bytes :: u64
  mpi_usage :: u64
  mpi_max_mempool :: u64
  mpi_mempool_min_fee :: u64

definition TEMPLATE_LOG_CAP :: nat where
  "TEMPLATE_LOG_CAP = 500"

record TemplateManagerMetrics =
  tm_templates_polled_total :: u64
  tm_templates_cached :: u64
  tm_shares_ingested_total :: u64
  tm_poll_errors_total :: u64

datatype TemplateSource = Bitcoind BitcoindTemplateSource | Stratum

record manager =
  mg_source :: TemplateSource
  mg_template_log :: "LoggedTemplate list"
  mg_latest :: "LatestTemplate option"
  mg_mempool :: "MempoolStats option"
  mg_mempool_had_rpc_error :: bool
  mg_metrics :: TemplateManagerMetrics
  mg_proposed :: "TemplatePropose list"

text \<open>What one turn of the loop finds: the node, the bridge, the verifier and the clock.\<close>

record manager_turn_input =
  tn_gbt :: gbt_attempts
  tn_received :: "TemplatePropose option"
  tn_verifier_reached :: bool
  tn_mempool :: "nat \<Rightarrow> GetMempoolInfoResult rpc_attempt"
  tn_now_ms :: u64
  tn_now_secs :: u64

definition next_template ::
  "manager_env \<Rightarrow> manager_turn_input \<Rightarrow> TemplateSource
    \<Rightarrow> (TemplatePropose \<times> GbtExtras option) option build \<times> TemplateSource" where
  "next_template E i source =
     (case source of
        Bitcoind src \<Rightarrow>
          (case next_template_bitcoind E (tn_gbt i) (tn_now_ms i) src of (r, src) \<Rightarrow> (r, Bitcoind src))
      | Stratum \<Rightarrow> (next_template_stratum (tn_received i), Stratum))"

definition backend_name :: "TemplateSource \<Rightarrow> string" where
  "backend_name source = (case source of Bitcoind _ \<Rightarrow> ''bitcoind'' | Stratum \<Rightarrow> ''stratum'')"

definition no_extras :: "u64 \<Rightarrow> GbtExtras" where
  "no_extras now_secs =
     \<lparr>ge_block_version = 0, ge_nbits = 0, ge_min_ntime = 0, ge_curtime = ucast now_secs,
      ge_coinbase_tx_prefix = [], ge_coinbase_tx_suffix = [], ge_merkle_path = []\<rparr>"

definition latest_template :: "manager_env \<Rightarrow> TemplatePropose \<Rightarrow> GbtExtras \<Rightarrow> LatestTemplate" where
  "latest_template E propose gbt =
     \<lparr>tr_template_id = tp_id propose, tr_block_height = tp_block_height propose,
      tr_block_version = ge_block_version gbt, tr_prev_hash = tp_prev_hash propose, tr_nbits = ge_nbits gbt,
      tr_min_ntime = ge_min_ntime gbt, tr_curtime = ge_curtime gbt,
      tr_coinbase_value = tp_coinbase_value propose, tr_coinbase_tx_prefix = ge_coinbase_tx_prefix gbt,
      tr_coinbase_tx_suffix = ge_coinbase_tx_suffix gbt, tr_merkle_path = ge_merkle_path gbt,
      tr_tx_count = tp_tx_count propose, tr_total_fees = tp_total_fees propose,
      tr_source_instance_id = me_instance_id E, tr_observed_weight = tp_observed_weight propose,
      tr_template_weight = tp_template_weight propose, tr_total_sigops = tp_total_sigops propose,
      tr_coinbase_sigops = tp_coinbase_sigops propose, tr_raw_block_hex = tp_raw_block_hex propose,
      lt_nbits_hex = ge_nbits gbt\<rparr>"

definition log_template :: "string \<Rightarrow> u64 \<Rightarrow> TemplatePropose \<Rightarrow> LoggedTemplate list \<Rightarrow> LoggedTemplate list" where
  "log_template backend now_secs propose entries =
     (let entries = entries @ [\<lparr>lt_id = tp_id propose, lt_height = tp_block_height propose,
            lt_total_fees = tp_total_fees propose, lt_backend = backend, lt_timestamp = now_secs\<rparr>]
      in if TEMPLATE_LOG_CAP < length entries then drop (length entries - TEMPLATE_LOG_CAP) entries else entries)"

text \<open>The template is proposed to the verifier when it can be reached, then logged and published.\<close>

definition publish_template ::
  "manager_env \<Rightarrow> manager_turn_input \<Rightarrow> TemplatePropose \<Rightarrow> GbtExtras option \<Rightarrow> manager \<Rightarrow> manager" where
  "publish_template E i propose extras mg =
     (let entries = log_template (backend_name (mg_source mg)) (tn_now_secs i) propose (mg_template_log mg);
          gbt = (case extras of Some g \<Rightarrow> g | None \<Rightarrow> no_extras (tn_now_secs i))
      in mg\<lparr>mg_proposed := mg_proposed mg @ (if tn_verifier_reached i then [propose] else []),
            mg_template_log := entries,
            mg_metrics := (mg_metrics mg)\<lparr>
              tm_templates_polled_total := tm_templates_polled_total (mg_metrics mg) + 1,
              tm_templates_cached := of_nat (length entries)\<rparr>,
            mg_latest := Some (latest_template E propose gbt)\<rparr>)"

text \<open>The snapshot of the mempool, with the flag that tells whether the last call gave up.\<close>

definition fetch_mempool_info_with_retries :: "(nat \<Rightarrow> GetMempoolInfoResult rpc_attempt) \<Rightarrow> GetMempoolInfoResult option \<times> bool" where
  "fetch_mempool_info_with_retries calls =
     (case rpc_with_retries calls 0 of Some info \<Rightarrow> (Some info, False) | None \<Rightarrow> (None, True))"

definition mempool_snapshot :: "manager_turn_input \<Rightarrow> manager \<Rightarrow> manager" where
  "mempool_snapshot i mg =
     (case mg_source mg of
        Stratum \<Rightarrow> mg
      | Bitcoind _ \<Rightarrow>
          (case fetch_mempool_info_with_retries (tn_mempool i) of
             (None, had_error) \<Rightarrow> mg\<lparr>mg_mempool_had_rpc_error := had_error\<rparr>
           | (Some info, had_error) \<Rightarrow>
               mg\<lparr>mg_mempool_had_rpc_error := had_error,
                  mg_mempool := Some \<lparr>ms_loaded_from = ''bitcoind'', ms_tx_count = mpi_size info,
                    ms_bytes = mpi_bytes info, ms_usage = mpi_usage info, ms_max = mpi_max_mempool info,
                    ms_min_relay_fee = mpi_mempool_min_fee info, ms_timestamp = tn_now_secs i\<rparr>\<rparr>))"

text \<open>One turn of \<open>run_manager_loop\<close>; \<open>None\<close> is the panic of the task.\<close>

definition manager_turn :: "manager_env \<Rightarrow> manager_turn_input \<Rightarrow> manager \<Rightarrow> manager option" where
  "manager_turn E i mg =
     (case next_template E i (mg_source mg) of (r, source) \<Rightarrow>
        let mg = mg\<lparr>mg_source := source\<rparr> in
        case r of
          Built (Some (propose, extras)) \<Rightarrow> Some (mempool_snapshot i (publish_template E i propose extras mg))
        | Built None \<Rightarrow> Some (mempool_snapshot i mg)
        | Build_failed e \<Rightarrow>
            Some (mempool_snapshot i (mg\<lparr>mg_metrics := (mg_metrics mg)\<lparr>
              tm_poll_errors_total := tm_poll_errors_total (mg_metrics mg) + 1\<rparr>\<rparr>))
        | Build_panicked \<Rightarrow> None)"

definition manager_init :: "TemplateSource \<Rightarrow> manager" where
  "manager_init source =
     \<lparr>mg_source = source, mg_template_log = [], mg_latest = None, mg_mempool = None,
      mg_mempool_had_rpc_error = False,
      mg_metrics = \<lparr>tm_templates_polled_total = 0, tm_templates_cached = 0,
                    tm_shares_ingested_total = 0, tm_poll_errors_total = 0\<rparr>,
      mg_proposed = []\<rparr>"

inductive manager_run :: "manager_env \<Rightarrow> TemplateSource \<Rightarrow> manager \<Rightarrow> bool"
  for E :: manager_env and source :: TemplateSource where
  run_start: "manager_run E source (manager_init source)"
| run_turn: "manager_run E source mg \<Longrightarrow> manager_turn E i mg = Some mg' \<Longrightarrow> manager_run E source mg'"

text \<open>\<open>GET /latest\<close>, as the poller of the gateway receives it.\<close>

definition get_latest_template :: "manager \<Rightarrow> TemplateResponse http_answer" where
  "get_latest_template mg =
     (case mg_latest mg of
        Some tpl \<Rightarrow> Response 200 (Inr (TemplateResponse.truncate tpl))
      | None \<Rightarrow> Response 404 (Inl ''no_template''))"

definition get_mempool :: "u64 \<Rightarrow> manager \<Rightarrow> MempoolStats" where
  "get_mempool now_secs mg =
     (case mg_mempool mg of
        Some stats \<Rightarrow> stats
      | None \<Rightarrow> \<lparr>ms_loaded_from = ''unknown'', ms_tx_count = 0, ms_bytes = 0, ms_usage = 0, ms_max = 0,
                  ms_min_relay_fee = 0, ms_timestamp = now_secs\<rparr>)"

section \<open>Heights and subsidy\<close>

lemma height_bytes_eq: "height_bytes n = le_min (unat n)"
proof (induction n rule: height_bytes.induct)
  case (1 n)
  have low: "(ucast (n AND 0xFF) :: u8) = of_nat (unat n mod 256)"
  proof (rule word_unat_eq_iff [THEN iffD2])
    have "n AND 0xFF = take_bit 8 n" by (simp add: take_bit_eq_mask mask_eq_exp_minus_1)
    then show "unat (ucast (n AND 0xFF) :: u8) = unat (of_nat (unat n mod 256) :: u8)"
      by (simp add: unsigned_ucast_eq unat_of_nat take_bit_eq_mod unsigned_take_bit_eq unat_mod)
  qed
  show ?case
  proof (cases "n = 0")
    case True
    then show ?thesis by (simp add: height_bytes.simps le_min.simps)
  next
    case False
    then show ?thesis
      using 1 [OF False] low
      by (subst height_bytes.simps, subst le_min.simps) (simp add: unat_drop_bit unat_gt_0 unat_eq_zero)
  qed
qed

lemma bip34_height_push_eq: "height \<noteq> 0 \<Longrightarrow> bip34_height_push height = height_push (unat height)"
  by (simp add: bip34_height_push_def height_push_def script_num_def height_bytes_eq Let_def)

lemma decode_bip34_height_push:
  assumes "unat height < 2 ^ 31"
  shows "decode_bip34_height (bip34_height_push height @ rest) = Some height"
proof (cases "height = 0")
  case True
  then show ?thesis by (simp add: bip34_height_push_def decode_bip34_height_def)
next
  case False
  then show ?thesis
    using decode_height_push [of "unat height" rest] assms
    by (simp add: bip34_height_push_eq unat_gt_0)
qed

lemma length_bip34_height_push: "2 \<le> length (bip34_height_push height)" "length (bip34_height_push height) \<le> 6"
proof -
  have "length (le_min (unat height)) \<le> 4"
    by (rule length_le_min) (use unsigned_less [of height] in simp)
  then show "length (bip34_height_push height) \<le> 6"
    by (auto simp: bip34_height_push_def height_bytes_eq Let_def)
  show "2 \<le> length (bip34_height_push height)"
  proof (cases "height = 0")
    case False
    then have "le_min (unat height) \<noteq> []" by (subst le_min.simps) (simp add: unat_eq_zero)
    then show ?thesis using False
      by (cases "le_min (unat height)") (auto simp: bip34_height_push_def height_bytes_eq Let_def)
  qed (simp add: bip34_height_push_def)
qed

lemma block_subsidy_value:
  "unat (block_subsidy_sats height) = 5000000000 div 2 ^ (unat height div 210000)"
proof (cases "64 \<le> height div 210000")
  case True
  then have "64 \<le> unat height div 210000" by (simp add: word_le_nat_alt unat_div)
  then have "(2::nat) ^ 64 \<le> 2 ^ (unat height div 210000)" by (rule power_increasing) simp
  then have "(5000000000::nat) < 2 ^ (unat height div 210000)" by (rule less_le_trans [rotated]) simp
  then show ?thesis using True by (simp add: block_subsidy_sats_def)
next
  case False
  then show ?thesis by (simp add: block_subsidy_sats_def Let_def unat_drop_bit unat_div)
qed

section \<open>Merkle branches\<close>

text \<open>The merkle root of a block, level by level, and the siblings on the way up from the first leaf.\<close>

function merkle_root :: "crypto \<Rightarrow> hash32 list \<Rightarrow> hash32" where
  "merkle_root C level =
     (case level of
        [] \<Rightarrow> []
      | [h] \<Rightarrow> h
      | _ \<Rightarrow> merkle_root C (combine_pairs C (pad_level level)))"
  by pat_completeness auto

termination merkle_root
  by (relation "measure (\<lambda>(C, level). length level)")
    (use length_pad_level [where level = "a # b # level" for a b level] in
      \<open>simp_all add: length_combine_pairs del: combine_pairs.simps\<close>)

declare merkle_root.simps [simp del]

lemma merkle_root_one [simp]: "merkle_root C [h] = h"
  by (simp add: merkle_root.simps)

lemma pad_level_Cons: "level \<noteq> [] \<Longrightarrow> \<exists>s rest. \<forall>h. pad_level (h # level) = h # s # rest"
  by (cases level) (auto simp: pad_level_def)

lemma merkle_root_step:
  "pad_level (h # level) = h # s # rest \<Longrightarrow> level \<noteq> [] \<Longrightarrow>
    merkle_root C (h # level) = merkle_root C (sha256d C (h @ s) # combine_pairs C rest)"
  by (subst merkle_root.simps) (auto split: list.splits)

lemma merkle_branch_step:
  "pad_level (h # level) = h # s # rest \<Longrightarrow> level \<noteq> [] \<Longrightarrow>
    merkle_branch_loop C X (h # level) 0 =
      hex_encode X s # merkle_branch_loop C X (sha256d C (h @ s) # combine_pairs C rest) 0"
  by (subst merkle_branch_loop.simps) (auto simp: Let_def)

lemma length_sha256d [simp]: "sha256_ok C \<Longrightarrow> length (sha256d C data) = 32"
  by (simp add: sha256d_def sha256_ok_def)

lemma combine_pairs_lengths: "sha256_ok C \<Longrightarrow> \<forall>h \<in> set (combine_pairs C level). length h = 32"
  by (induction C level rule: combine_pairs.induct) auto

text \<open>
  The branch does not depend on the placeholder of the coinbase, and folding the coinbase's hash
  along it gives the root of the tree with that hash in front.
\<close>

lemma merkle_branch_folds:
  assumes "sha256_ok C" and "\<forall>h \<in> set level. length h = 32"
  shows "\<exists>path. (\<forall>p. merkle_branch_loop C X (p # level) 0 = map (hex_encode X) path) \<and>
    (\<forall>h \<in> set path. length h = 32) \<and>
    (\<forall>h. foldl (\<lambda>current sibling. sha256d C (current @ sibling)) h path = merkle_root C (h # level))"
  using assms(2)
proof (induction "length level" arbitrary: level rule: less_induct)
  case less
  show ?case
  proof (cases "level = []")
    case True
    then show ?thesis by (intro exI [of _ "[]"]) (simp add: merkle_branch_loop.simps)
  next
    case False
    obtain s rest where pad: "\<And>h. pad_level (h # level) = h # s # rest"
      using pad_level_Cons [OF False] by blast
    have s: "length s = 32"
      using pad [of "[]"] less.prems False by (cases level) (auto simp: pad_level_def split: if_splits)
    have "length (combine_pairs C rest) < length level"
      using pad [of "[]"] False by (cases level) (auto simp: pad_level_def length_combine_pairs split: if_splits)
    from less.hyps [OF this combine_pairs_lengths [OF assms(1)]]
    obtain path where path: "\<And>p. merkle_branch_loop C X (p # combine_pairs C rest) 0 = map (hex_encode X) path"
      "\<forall>h \<in> set path. length h = 32"
      "\<And>h. foldl (\<lambda>current sibling. sha256d C (current @ sibling)) h path = merkle_root C (h # combine_pairs C rest)"
      by blast
    show ?thesis
      by (intro exI [of _ "s # path"])
        (simp add: path s merkle_branch_step [OF pad False] merkle_root_step [OF pad False])
  qed
qed

lemma parse_txids_Built:
  assumes "hex_crate_ok X" and "list_all2 (\<lambda>d h. d = hex_encode X (rev h) \<and> length h = 32) txids hashes"
  shows "parse_txids X txids = Built hashes"
  using assms(2) assms(1) by (induction rule: list_all2_induct) (auto simp: hex_crate_ok_def)

lemma merkle_branch_root:
  assumes "hex_crate_ok X" and "sha256_ok C"
    and "list_all2 (\<lambda>d h. d = hex_encode X (rev h) \<and> length h = 32) txids hashes"
  shows "\<exists>path. compute_merkle_branch C X txids = Built (map (hex_encode X) path) \<and>
    (\<forall>h \<in> set path. length h = 32) \<and>
    (\<forall>h. foldl (\<lambda>current sibling. sha256d C (current @ sibling)) h path = merkle_root C (h # hashes))"
proof (cases "txids = []")
  case True
  then have "hashes = []" using assms(3) by simp
  then show ?thesis using True by (intro exI [of _ "[]"]) (simp add: compute_merkle_branch_def)
next
  case False
  have "\<forall>h \<in> set hashes. length h = 32"
    using assms(3) by (auto simp: list_all2_conv_all_nth in_set_conv_nth)
  from merkle_branch_folds [OF assms(2) this, of X]
  obtain path where "\<And>p. merkle_branch_loop C X (p # hashes) 0 = map (hex_encode X) path"
      "\<forall>h \<in> set path. length h = 32"
      "\<forall>h. foldl (\<lambda>current sibling. sha256d C (current @ sibling)) h path = merkle_root C (h # hashes)"
    by blast
  then show ?thesis
    using False parse_txids_Built [OF assms(1,3)]
    by (intro exI [of _ path]) (simp add: compute_merkle_branch_def)
qed

section \<open>The coinbase transaction\<close>

text \<open>Bitcoin's serialization of a transaction without its witness.\<close>

definition compact_size :: "nat \<Rightarrow> bytes" where
  "compact_size n =
     (if n < 253 then [of_nat n] else if n < 2 ^ 16 then 0xFD # to_le 2 n
      else if n < 2 ^ 32 then 0xFE # to_le 4 n else 0xFF # to_le 8 n)"

definition txin_bytes :: "TxIn \<Rightarrow> bytes" where
  "txin_bytes i =
     op_txid (ti_previous_output i) @ u32_to_le_bytes (op_vout (ti_previous_output i)) @
     compact_size (length (ti_script_sig i)) @ ti_script_sig i @ u32_to_le_bytes (ti_sequence i)"

definition txout_bytes :: "TxOut \<Rightarrow> bytes" where
  "txout_bytes out =
     to_le 8 (unat (to_value out)) @ compact_size (length (to_script_pubkey out)) @ to_script_pubkey out"

definition tx_bytes :: "Transaction \<Rightarrow> bytes" where
  "tx_bytes tx =
     u32_to_le_bytes (tx_version tx) @ compact_size (length (tx_input tx)) @ concat (map txin_bytes (tx_input tx)) @
     compact_size (length (tx_output tx)) @ concat (map txout_bytes (tx_output tx)) @
     u32_to_le_bytes (tx_lock_time tx)"

definition coinbase_tx :: "bytes \<Rightarrow> u64 \<Rightarrow> bytes \<Rightarrow> bytes option \<Rightarrow> Transaction" where
  "coinbase_tx script_sig coinbase_value output_script commitment =
     \<lparr>tx_version = 2, tx_lock_time = 0,
      tx_input = [\<lparr>ti_previous_output = \<lparr>op_txid = zero32, op_vout = 0xFFFFFFFF\<rparr>,
                   ti_script_sig = script_sig, ti_sequence = 0xFFFFFFFF, ti_witness = []\<rparr>],
      tx_output = \<lparr>to_value = coinbase_value, to_script_pubkey = output_script\<rparr> #
                  (case commitment of None \<Rightarrow> [] | Some wc \<Rightarrow> [\<lparr>to_value = 0, to_script_pubkey = wc\<rparr>])\<rparr>"

lemma coinbase_halves_Built:
  "build_coinbase_halves h v s n aux wc = Built (pre, suf) \<longleftrightarrow>
     length (bip34_height_push h) + length aux + n \<le> 100 \<and> length s < 253 \<and>
     (\<forall>c. wc = Some c \<longrightarrow> length c < 253) \<and>
     pre = coinbase_prefix (length (bip34_height_push h) + length aux + n) (bip34_height_push h) aux \<and>
     suf = u32_to_le_bytes 0xFFFFFFFF @ [if wc = None then 1 else 2] @ to_le 8 (unat v) @ [of_nat (length s)] @ s @
       (case wc of None \<Rightarrow> [] | Some c \<Rightarrow> to_le 8 0 @ [of_nat (length c)] @ c) @ u32_to_le_bytes 0"
  by (cases wc) (auto simp: build_coinbase_halves_def Let_def)

lemma coinbase_halves_bytes:
  assumes "build_coinbase_halves h v s n aux wc = Built (pre, suf)" and "length xn = n"
  shows "tx_bytes (coinbase_tx (bip34_height_push h @ aux @ xn) v s wc) = pre @ xn @ suf"
  using assms
  by (cases wc) (auto simp: coinbase_halves_Built tx_bytes_def txin_bytes_def txout_bytes_def coinbase_tx_def
      compact_size_def coinbase_prefix_def zero32_def add.assoc)

lemma compact_size_small:
  assumes "compact_size L @ r = of_nat m # r'" and "m < 253"
  shows "L = m"
proof -
  have head: "hd (compact_size L) = (of_nat m :: u8)"
    using arg_cong [OF assms(1), of hd] by (simp add: compact_size_def split: if_splits)
  have m: "unat (of_nat m :: u8) = m" using assms(2) by (simp add: unat_of_nat)
  show ?thesis
  proof (cases "L < 253")
    case True
    then have "unat (of_nat L :: u8) = L" by (simp add: unat_of_nat)
    then show ?thesis using head m True by (simp add: compact_size_def)
  next
    case False
    then have "hd (compact_size L) \<in> {0xFD, 0xFE, 0xFF}" by (simp add: compact_size_def)
    then have "253 \<le> unat (hd (compact_size L))" by auto
    then show ?thesis using head m assms(2) by simp
  qed
qed

text \<open>
  Around an extranonce the halves are a coinbase whose script carries the whole extranonce
  exactly when the extranonce has the length the halves were built for.
\<close>

lemma extranonce_fits:
  assumes "build_coinbase_halves h v s n aux wc = Built (pre, suf)"
  shows "(\<exists>tx i. tx_bytes tx = pre @ xn @ suf \<and> tx_input tx = [i] \<and>
      length (op_txid (ti_previous_output i)) = 32 \<and> ti_script_sig i = bip34_height_push h @ aux @ xn)
    \<longleftrightarrow> length xn = n"
proof
  assume "\<exists>tx i. tx_bytes tx = pre @ xn @ suf \<and> tx_input tx = [i] \<and>
    length (op_txid (ti_previous_output i)) = 32 \<and> ti_script_sig i = bip34_height_push h @ aux @ xn"
  then obtain tx i where tx: "tx_bytes tx = pre @ xn @ suf" "tx_input tx = [i]"
    "length (op_txid (ti_previous_output i)) = 32" "ti_script_sig i = bip34_height_push h @ aux @ xn" by blast
  let ?m = "length (bip34_height_push h) + length aux + n"
  have m: "?m \<le> 100" and pre: "pre = coinbase_prefix ?m (bip34_height_push h) aux"
    using assms by (simp_all add: coinbase_halves_Built)
  have "drop 41 (tx_bytes tx) = compact_size (length (ti_script_sig i)) @ ti_script_sig i @
      u32_to_le_bytes (ti_sequence i) @ compact_size (length (tx_output tx)) @
      concat (map txout_bytes (tx_output tx)) @ u32_to_le_bytes (tx_lock_time tx)"
    using tx(2,3) by (simp add: tx_bytes_def txin_bytes_def compact_size_def [of "Suc 0"])
  moreover have "drop 41 (pre @ xn @ suf) = of_nat ?m # bip34_height_push h @ aux @ xn @ suf"
    by (simp add: pre coinbase_prefix_def)
  ultimately have "length (ti_script_sig i) = ?m"
    using tx(1) m by (intro compact_size_small) (simp_all add: tx(1))
  then show "length xn = n" using tx(4) by simp
next
  assume "length xn = n"
  from coinbase_halves_bytes [OF assms this]
  show "\<exists>tx i. tx_bytes tx = pre @ xn @ suf \<and> tx_input tx = [i] \<and>
    length (op_txid (ti_previous_output i)) = 32 \<and> ti_script_sig i = bip34_height_push h @ aux @ xn"
    by (intro exI) (auto simp: coinbase_tx_def zero32_def)
qed

section \<open>Templates of an honest node\<close>

text \<open>What the \<open>bitcoin\<close> crate documents of identifiers, merkle roots and null outpoints.\<close>

definition bitcoin_crate_ok :: "bitcoin_api \<Rightarrow> crypto \<Rightarrow> bool" where
  "bitcoin_crate_ok B C \<longleftrightarrow>
     (\<forall>tx. compute_txid B tx = sha256d C (tx_bytes tx)) \<and>
     (\<forall>b. bk_txdata b \<noteq> [] \<longrightarrow> block_merkle_root B b = Some (merkle_root C (map (compute_txid B) (bk_txdata b)))) \<and>
     (\<forall>p. outpoint_is_null B p \<longleftrightarrow> op_txid p = zero32 \<and> op_vout p = 0xFFFFFFFF)"

definition commitment_script :: "hash32 \<Rightarrow> bytes" where
  "commitment_script h = [OP_RETURN, OP_PUSHBYTES_36] @ MAGIC @ h"

text \<open>One entry of the answer describes the transaction it carries.\<close>

definition entry_honest :: "bitcoin_api \<Rightarrow> hex_crate \<Rightarrow> gbt_transaction \<Rightarrow> Transaction \<Rightarrow> bool" where
  "entry_honest B X t tx \<longleftrightarrow>
     deserialize_tx B (gt_raw_tx t) = Some tx \<and> gt_txid t = hex_encode X (rev (compute_txid B tx)) \<and>
     gt_weight t = tx_weight B tx \<and> 4 * tx_sigops B tx \<le> unat (gt_sigops t) \<and> \<not> tx_null_inputs B tx"

text \<open>
  The answer of the node: honest entries, a commitment to their witnesses when there is one to
  make, and the bounds of the chain.
\<close>

definition node_honest :: "bitcoin_api \<Rightarrow> hex_crate \<Rightarrow> GetBlockTemplateResult \<Rightarrow> Transaction list \<Rightarrow> bool" where
  "node_honest B X tpl txs \<longleftrightarrow>
     list_all2 (entry_honest B X) (gbt_transactions tpl) txs \<and>
     sum_list (map (unat \<circ> gt_sigops) (gbt_transactions tpl)) < 2 ^ 32 \<and>
     length txs < 2 ^ 32 - 1 \<and> unat (gbt_height tpl) < 2 ^ 31 \<and> 4 \<le> sint (gbt_version tpl) \<and>
     unat (coinbase_value_of tpl) \<le> 2100000000000000 \<and>
     (\<exists>prev. length prev = 32 \<and> gbt_previous_block_hash tpl = hex_encode X (rev prev)) \<and>
     distinct (map (compute_txid B) txs) \<and>
     (if gbt_default_witness_commitment tpl = [] then \<not> list_ex tx_has_witness txs
      else \<exists>r. (\<forall>b. bk_txdata b \<noteq> [] \<and> tl (bk_txdata b) = txs \<longrightarrow> block_witness_root B b = Some r) \<and>
             length (sha256d_hash B (r @ zero32)) = 32 \<and>
             gbt_default_witness_commitment tpl = commitment_script (sha256d_hash B (r @ zero32)))"

text \<open>The coinbase of a template with a zero extranonce, and the block it is assembled into.\<close>

definition template_coinbase :: "hex_crate \<Rightarrow> bytes \<Rightarrow> nat \<Rightarrow> GetBlockTemplateResult \<Rightarrow> Transaction" where
  "template_coinbase X script n tpl =
     coinbase_tx (bip34_height_push (ucast (gbt_height tpl)) @ coinbase_aux_bytes X (gbt_coinbaseaux tpl) @ replicate n 0)
       (coinbase_value_of tpl) script
       (if gbt_default_witness_commitment tpl = [] then None else Some (gbt_default_witness_commitment tpl))"

definition reserve_witness :: "GetBlockTemplateResult \<Rightarrow> Transaction \<Rightarrow> Transaction" where
  "reserve_witness tpl cb =
     (if gbt_default_witness_commitment tpl = [] then cb
      else cb\<lparr>tx_input := map (ti_witness_update (\<lambda>_. [zero32])) (tx_input cb)\<rparr>)"

definition honest_block :: "bitcoin_api \<Rightarrow> crypto \<Rightarrow> hex_crate \<Rightarrow> bytes \<Rightarrow> nat \<Rightarrow> GetBlockTemplateResult \<Rightarrow> Transaction list \<Rightarrow> Block" where
  "honest_block B C X script n tpl txs =
     (let cb = reserve_witness tpl (template_coinbase X script n tpl) in
      \<lparr>bk_header = \<lparr>hd_version = gbt_version tpl,
         hd_prev_blockhash = (case display_hex_to_internal X (gbt_previous_block_hash tpl) of None \<Rightarrow> [] | Some p \<Rightarrow> p),
         hd_merkle_root = merkle_root C (map (compute_txid B) (cb # txs)),
         hd_time = ucast (gbt_current_time tpl), hd_bits = bits_to_nbits (gbt_bits tpl), hd_nonce = 0\<rparr>,
       bk_txdata = cb # txs\<rparr>)"

text \<open>The room the node leaves for the coinbase, and the crate reading back what it wrote.\<close>

definition coinbase_fits :: "bitcoin_api \<Rightarrow> crypto \<Rightarrow> hex_crate \<Rightarrow> bytes \<Rightarrow> nat \<Rightarrow> GetBlockTemplateResult \<Rightarrow> Transaction list \<Rightarrow> bool" where
  "coinbase_fits B C X script n tpl txs \<longleftrightarrow>
     length (bip34_height_push (ucast (gbt_height tpl))) + length (coinbase_aux_bytes X (gbt_coinbaseaux tpl)) + n \<le> 100 \<and>
     length script < 253 \<and> \<not> is_commitment_script script \<and>
     unat (block_weight B (honest_block B C X script n tpl txs)) \<le> 4000000 \<and>
     4 * sum_list (map (tx_sigops B) (template_coinbase X script n tpl # txs)) \<le> 80000 \<and>
     compute_txid B (template_coinbase X script n tpl) \<notin> compute_txid B ` set txs"

definition reads_back :: "bitcoin_api \<Rightarrow> crypto \<Rightarrow> hex_crate \<Rightarrow> bytes \<Rightarrow> nat \<Rightarrow> GetBlockTemplateResult \<Rightarrow> Transaction list \<Rightarrow> bool" where
  "reads_back B C X script n tpl txs \<longleftrightarrow>
     (let cb = template_coinbase X script n tpl; block = honest_block B C X script n tpl txs in
      deserialize_tx B (tx_bytes cb) = Some cb \<and> deserialize_block B (serialize_block B block) = Some block)"

lemma template_coinbase_fields [simp]:
  "tx_input (template_coinbase X script n tpl) =
     [\<lparr>ti_previous_output = \<lparr>op_txid = zero32, op_vout = 0xFFFFFFFF\<rparr>,
       ti_script_sig = bip34_height_push (ucast (gbt_height tpl)) @ coinbase_aux_bytes X (gbt_coinbaseaux tpl) @ replicate n 0,
       ti_sequence = 0xFFFFFFFF, ti_witness = []\<rparr>]"
  "tx_output (template_coinbase X script n tpl) =
     \<lparr>to_value = coinbase_value_of tpl, to_script_pubkey = script\<rparr> #
     (if gbt_default_witness_commitment tpl = [] then []
      else [\<lparr>to_value = 0, to_script_pubkey = gbt_default_witness_commitment tpl\<rparr>])"
  by (simp_all add: template_coinbase_def coinbase_tx_def)

lemma reserve_witness_fields [simp]:
  "tx_output (reserve_witness tpl cb) = tx_output cb"
  "tx_bytes (reserve_witness tpl cb) = tx_bytes cb"
  "tx_sigops B (reserve_witness tpl cb) = tx_sigops B cb"
  by (simp_all add: reserve_witness_def tx_bytes_def txin_bytes_def [abs_def] tx_sigops_def comp_def)

lemma coinbase_commitment:
  assumes "node_honest B X tpl txs" and "\<not> is_commitment_script script"
  shows "extract_witness_commitment_from_coinbase (template_coinbase X script n tpl) =
    (if gbt_default_witness_commitment tpl = [] then None else Some (drop 6 (gbt_default_witness_commitment tpl)))"
proof (cases "gbt_default_witness_commitment tpl = []")
  case True
  then show ?thesis using assms(2) by (simp add: extract_witness_commitment_from_coinbase_def)
next
  case False
  then obtain h where h: "length h = 32" "gbt_default_witness_commitment tpl = commitment_script h"
    using assms(1) by (auto simp: node_honest_def)
  then show ?thesis
    by (simp add: extract_witness_commitment_from_coinbase_def is_commitment_script_def commitment_script_def MAGIC_def)
qed

lemma deserialize_entries:
  assumes "list_all2 (entry_honest B X) ts txs"
  shows "deserialize_txs B any (map gt_raw_tx ts) = Ok (any \<or> list_ex tx_has_witness txs, txs)"
  using assms by (induction arbitrary: any rule: list_all2_induct) (auto simp: entry_honest_def)

lemma honest_merkle_root:
  assumes "bitcoin_crate_ok B C" and "bk_txdata b = cb # txs"
  shows "block_merkle_root B b = Some (merkle_root C (map (compute_txid B) (cb # txs)))"
  using assms by (simp add: bitcoin_crate_ok_def)

lemma assembled_honest:
  assumes crate: "bitcoin_crate_ok B C" and hex: "hex_crate_ok X" and node: "node_honest B X tpl txs"
    and fits: "coinbase_fits B C X script n tpl txs" and reads: "reads_back B C X script n tpl txs"
    and halves: "build_coinbase_halves (ucast (gbt_height tpl)) (coinbase_value_of tpl) script n
      (coinbase_aux_bytes X (gbt_coinbaseaux tpl))
      (if gbt_default_witness_commitment tpl = [] then None else Some (gbt_default_witness_commitment tpl)) = Built (pre, suf)"
  shows "assemble_raw_block_hex B X (gbt_version tpl) (bits_to_nbits (gbt_bits tpl)) (ucast (gbt_current_time tpl))
    (gbt_previous_block_hash tpl) pre suf n (map gt_raw_tx (gbt_transactions tpl)) =
    Some (hex_encode X (serialize_block B (honest_block B C X script n tpl txs)))"
proof -
  let ?cb = "template_coinbase X script n tpl"
  have bytes: "pre @ replicate n 0 @ suf = tx_bytes ?cb"
    using coinbase_halves_bytes [OF halves, of "replicate n 0"] by (simp add: template_coinbase_def)
  obtain prev where prev: "length prev = 32" "gbt_previous_block_hash tpl = hex_encode X (rev prev)"
    using node by (auto simp: node_honest_def)
  have int: "display_hex_to_internal X (gbt_previous_block_hash tpl) = Some prev"
    using hex prev by (simp add: display_hex_to_internal_def hex_crate_ok_def)
  have txs: "deserialize_txs B False (map gt_raw_tx (gbt_transactions tpl)) = Ok (list_ex tx_has_witness txs, txs)"
    using deserialize_entries [of B X _ txs False] node by (simp add: node_honest_def)
  have commit: "extract_witness_commitment_from_coinbase ?cb =
      (if gbt_default_witness_commitment tpl = [] then None else Some (drop 6 (gbt_default_witness_commitment tpl)))"
    using coinbase_commitment [OF node] fits by (simp add: coinbase_fits_def)
  have needs: "list_ex tx_has_witness txs \<Longrightarrow> gbt_default_witness_commitment tpl \<noteq> []"
    using node by (auto simp: node_honest_def split: if_splits)
  have attach: "gbt_default_witness_commitment tpl \<noteq> [] \<Longrightarrow> attach_reserved_witness ?cb = Ok (reserve_witness tpl ?cb)"
    "gbt_default_witness_commitment tpl = [] \<Longrightarrow> reserve_witness tpl ?cb = ?cb"
    by (simp_all add: attach_reserved_witness_def reserve_witness_def)
  define parts where "parts = \<lparr>pt_version = gbt_version tpl, pt_prev_hash = prev,
    pt_time = ucast (gbt_current_time tpl), pt_bits = bits_to_nbits (gbt_bits tpl),
    pt_coinbase_legacy = tx_bytes ?cb, pt_txs_raw = map gt_raw_tx (gbt_transactions tpl)\<rparr>"
  have root: "block_merkle_root B (template_block parts (reserve_witness tpl ?cb # txs)) =
      Some (merkle_root C (map (compute_txid B) (reserve_witness tpl ?cb # txs)))"
    by (rule honest_merkle_root [OF crate]) (simp add: template_block_def)
  have cb: "deserialize_tx B (pt_coinbase_legacy parts) = Some ?cb"
    using reads by (simp add: parts_def reads_back_def Let_def)
  have raws: "deserialize_txs B False (pt_txs_raw parts) = Ok (list_ex tx_has_witness txs, txs)"
    using txs by (simp add: parts_def)
  have "assemble_template_block B parts = Ok (serialize_block B (honest_block B C X script n tpl txs))"
  proof -
    have built: "(template_block parts (reserve_witness tpl ?cb # txs))
        \<lparr>bk_header := (bk_header (template_block parts (reserve_witness tpl ?cb # txs)))
          \<lparr>hd_merkle_root := merkle_root C (map (compute_txid B) (reserve_witness tpl ?cb # txs))\<rparr>\<rparr>
        = honest_block B C X script n tpl txs"
      by (simp add: honest_block_def int template_block_def parts_def Let_def)
    show ?thesis
    proof (cases "gbt_default_witness_commitment tpl = []")
      case True
      then show ?thesis
        using needs root built attach(2) [OF True]
        by (auto simp: assemble_template_block_def cb raws Let_def commit)
    next
      case False
      then show ?thesis
        using root built attach(1) [OF False]
        by (auto simp: assemble_template_block_def cb raws Let_def commit)
    qed
  qed
  then show ?thesis by (simp add: assemble_raw_block_hex_def int bytes parts_def)
qed

lemma honest_block_fields [simp]:
  "bk_txdata (honest_block B C X script n tpl txs) = reserve_witness tpl (template_coinbase X script n tpl) # txs"
  "hd_version (bk_header (honest_block B C X script n tpl txs)) = gbt_version tpl"
  "hd_merkle_root (bk_header (honest_block B C X script n tpl txs)) =
     merkle_root C (map (compute_txid B) (reserve_witness tpl (template_coinbase X script n tpl) # txs))"
  by (simp_all add: honest_block_def Let_def)

lemma coinbase_total_template: "coinbase_total (reserve_witness tpl (template_coinbase X script n tpl)) = unat (coinbase_value_of tpl)"
  by (simp add: coinbase_total_def)

lemma honest_entries_null:
  "list_all2 (entry_honest B X) ts txs \<Longrightarrow> \<forall>tx \<in> set txs. \<not> tx_null_inputs B tx"
  by (induction rule: list_all2_induct) (simp_all add: entry_honest_def)

lemma honest_entries_sigops:
  "list_all2 (entry_honest B X) ts txs \<Longrightarrow>
    4 * sum_list (map (tx_sigops B) txs) \<le> sum_list (map (unat \<circ> gt_sigops) ts)"
  by (induction rule: list_all2_induct) (auto simp: entry_honest_def)

lemma honest_entries_weight:
  "list_all2 (entry_honest B X) ts txs \<Longrightarrow> map (tx_weight B) txs = map gt_weight ts"
  by (induction rule: list_all2_induct) (simp_all add: entry_honest_def)

lemma unat_sum_words:
  fixes ws :: "u32 list"
  shows "sum_list (map unat ws) < 2 ^ 32 \<Longrightarrow> unat (sum_list ws) = sum_list (map unat ws)"
  by (induction ws) (simp_all add: unat_add_if_fits)

lemma honest_witness:
  assumes node: "node_honest B X tpl txs" and "\<not> is_commitment_script script"
    and "has_witness (honest_block B C X script n tpl txs)"
  shows "\<exists>r. block_witness_root B (honest_block B C X script n tpl txs) = Some r \<and>
    extract_witness_commitment_from_coinbase (reserve_witness tpl (template_coinbase X script n tpl)) =
      Some (sha256d_hash B (r @ witness_reserved (reserve_witness tpl (template_coinbase X script n tpl))))"
proof -
  have wc: "gbt_default_witness_commitment tpl \<noteq> []"
    using assms by (auto simp: has_witness_def tx_has_witness_def reserve_witness_def node_honest_def)
  then obtain r where r: "\<And>b. bk_txdata b \<noteq> [] \<and> tl (bk_txdata b) = txs \<longrightarrow> block_witness_root B b = Some r"
      "gbt_default_witness_commitment tpl = commitment_script (sha256d_hash B (r @ zero32))"
    using node by (auto simp: node_honest_def)
  have "witness_reserved (reserve_witness tpl (template_coinbase X script n tpl)) = zero32"
    using wc by (simp add: witness_reserved_def reserve_witness_def zero32_def)
  moreover have "extract_witness_commitment_from_coinbase (reserve_witness tpl (template_coinbase X script n tpl)) =
      Some (sha256d_hash B (r @ zero32))"
    using coinbase_commitment [OF assms(1,2), of n] wc r(2)
    by (simp add: extract_cong_output [of "reserve_witness _ _" "template_coinbase X script n tpl"]
        commitment_script_def MAGIC_def)
  ultimately show ?thesis using r(1) [of "honest_block B C X script n tpl txs"] by simp
qed

lemma honest_consensus_valid:
  assumes crate: "bitcoin_crate_ok B C" and node: "node_honest B X tpl txs"
    and fits: "coinbase_fits B C X script n tpl txs"
  shows "consensus_valid B (honest_block B C X script n tpl txs)"
proof -
  let ?cb = "reserve_witness tpl (template_coinbase X script n tpl)"
  let ?i = "hd (tx_input ?cb)"
  have input: "tx_input ?cb = [?i]" "ti_previous_output ?i = \<lparr>op_txid = zero32, op_vout = 0xFFFFFFFF\<rparr>"
    "ti_script_sig ?i = bip34_height_push (ucast (gbt_height tpl)) @ coinbase_aux_bytes X (gbt_coinbaseaux tpl) @ replicate n 0"
    by (simp_all add: reserve_witness_def)
  have txid: "compute_txid B ?cb = compute_txid B (template_coinbase X script n tpl)"
    using crate by (simp add: bitcoin_crate_ok_def)
  have "\<exists>cb txs' i. bk_txdata (honest_block B C X script n tpl txs) = cb # txs' \<and> tx_input cb = [i] \<and>
        outpoint_is_null B (ti_previous_output i) \<and> (\<forall>tx \<in> set txs'. \<not> tx_null_inputs B tx) \<and>
        2 \<le> length (ti_script_sig i) \<and> length (ti_script_sig i) \<le> 100 \<and> tx_output cb \<noteq> [] \<and>
        coinbase_total cb \<le> 2100000000000000 \<and>
        (has_witness (honest_block B C X script n tpl txs) \<longrightarrow>
          (\<exists>root. block_witness_root B (honest_block B C X script n tpl txs) = Some root \<and>
             extract_witness_commitment_from_coinbase cb = Some (sha256d_hash B (root @ witness_reserved cb))))"
    using node fits crate input length_bip34_height_push(1) [of "ucast (gbt_height tpl)"]
      honest_entries_null [of B X "gbt_transactions tpl" txs] honest_witness [OF node, of script C n]
    by (intro exI [of _ ?cb] exI [of _ txs] exI [of _ ?i])
      (auto simp: coinbase_total_template node_honest_def coinbase_fits_def bitcoin_crate_ok_def)
  moreover have "block_merkle_root B (honest_block B C X script n tpl txs) =
      Some (hd_merkle_root (bk_header (honest_block B C X script n tpl txs)))"
    by (simp add: honest_merkle_root [OF crate])
  moreover have "distinct (map (compute_txid B) (bk_txdata (honest_block B C X script n tpl txs)))"
    using fits node txid by (simp add: coinbase_fits_def node_honest_def)
  ultimately show ?thesis
    using fits node by (simp add: consensus_valid_def coinbase_fits_def node_honest_def)
qed

lemma honest_declarations:
  assumes node: "node_honest B X tpl txs"
    and cb_sigops: "\<And>d. cb_sigops = Some d \<Longrightarrow> 4 * tx_sigops B (template_coinbase X script n tpl) \<le> unat d"
  shows "declarations_match B (template_propose tid tpl cb_sigops (coinbase_value_of tpl) now raw)
    (honest_block B C X script n tpl txs)"
proof -
  let ?cb = "reserve_witness tpl (template_coinbase X script n tpl)"
  have entries: "list_all2 (entry_honest B X) (gbt_transactions tpl) txs"
    and bounds: "length txs < 2 ^ 32 - 1" "unat (gbt_height tpl) < 2 ^ 31"
      "sum_list (map (unat \<circ> gt_sigops) (gbt_transactions tpl)) < 2 ^ 32"
    using node by (simp_all add: node_honest_def)
  have count: "min (length txs) (2 ^ 32 - 2) = unat (of_nat (length (gbt_transactions tpl)) :: u32)"
    using bounds(1) list_all2_lengthD [OF entries] by (simp add: unat_of_nat)
  have sigops: "unat (sum_list (map gt_sigops (gbt_transactions tpl))) = sum_list (map (unat \<circ> gt_sigops) (gbt_transactions tpl))"
    using unat_sum_words [of "map gt_sigops (gbt_transactions tpl)"] bounds(3) by simp
  have "unat (ucast (gbt_height tpl) :: u32) < 2 ^ 31"
    using bounds(2) by (simp add: unsigned_ucast_eq take_bit_nat_eq_self)
  then have height: "decode_bip34_height (ti_script_sig (hd (tx_input ?cb))) = Some (ucast (gbt_height tpl))"
    using decode_bip34_height_push by (simp add: reserve_witness_def)
  have inputs: "tx_input ?cb = hd (tx_input ?cb) # []" by (simp add: reserve_witness_def)
  have weight: "non_coinbase_tx_weight B (honest_block B C X script n tpl txs) = sum_list (map gt_weight (gbt_transactions tpl))"
    by (simp add: non_coinbase_tx_weight_def honest_entries_weight [OF entries])
  show ?thesis
    unfolding declarations_match_def
    using count sigops height inputs weight cb_sigops honest_entries_sigops [OF entries]
    by (intro conjI exI [of _ ?cb] exI [of _ txs] exI [of _ "hd (tx_input ?cb)"] exI [of _ "[]"])
      (simp_all add: template_propose_def Let_def coinbase_total_template)
qed

lemma honest_template_built:
  assumes crate: "bitcoin_crate_ok B C" and hex: "hex_crate_ok X" and sha: "sha256_ok C"
    and node: "node_honest B X tpl txs" and fits: "coinbase_fits B C X script n tpl txs"
    and reads: "reads_back B C X script n tpl txs"
    and env: "me_bitcoin E = B" "me_crypto E = C" "me_hex E = X"
  shows "\<exists>extras. build_template E script n tid tpl cb_sigops now =
    Built (template_propose tid tpl cb_sigops (coinbase_value_of tpl) now
      (Some (hex_encode X (serialize_block B (honest_block B C X script n tpl txs)))), extras)"
proof -
  let ?wc = "if gbt_default_witness_commitment tpl = [] then None else Some (gbt_default_witness_commitment tpl)"
  have "\<forall>c. ?wc = Some c \<longrightarrow> length c < 253"
    using node by (auto simp: node_honest_def commitment_script_def MAGIC_def split: if_splits)
  then obtain pre suf where halves: "build_coinbase_halves (ucast (gbt_height tpl)) (coinbase_value_of tpl) script n
      (coinbase_aux_bytes X (gbt_coinbaseaux tpl)) ?wc = Built (pre, suf)"
    using fits coinbase_halves_Built [of "ucast (gbt_height tpl)" "coinbase_value_of tpl" script n
        "coinbase_aux_bytes X (gbt_coinbaseaux tpl)" ?wc]
    by (auto simp: coinbase_fits_def)
  have "list_all2 (\<lambda>d h. d = hex_encode X (rev h) \<and> length h = 32) (map gt_txid (gbt_transactions tpl))
      (map (compute_txid B) txs)"
    using node crate sha
    by (auto simp: node_honest_def entry_honest_def bitcoin_crate_ok_def list_all2_map1 list_all2_map2 elim!: list_all2_mono)
  from merkle_branch_root [OF hex sha this]
  obtain path where "compute_merkle_branch C X (map gt_txid (gbt_transactions tpl)) = Built (map (hex_encode X) path)"
    by blast
  then show ?thesis
    using halves assembled_honest [OF crate hex node fits reads halves]
    by (auto simp: build_template_def env Let_def)
qed

lemma shield_agrees:
  assumes "hex_crate_ok X" and "deserialize_block B raw = Some block"
    and "consensus_valid B block" and "declarations_match B p block"
    and "tp_raw_block_hex p = Some (hex_encode X raw)"
  shows "check_invariant_shield X B p = SO_Agreed"
proof -
  have "shield_phase1 X B p (hex_encode X raw) = Ok block"
    using assms by (simp add: shield_phase1_Ok hex_crate_ok_def)
  from shield_inner_None [OF assms(5) this] show ?thesis by (simp add: check_invariant_shield_def)
qed

section \<open>The loop\<close>

text \<open>What is served is what was logged last, and the log keeps the newest 500 templates.\<close>

definition manager_inv :: "manager \<Rightarrow> bool" where
  "manager_inv mg \<longleftrightarrow>
     length (mg_template_log mg) \<le> TEMPLATE_LOG_CAP \<and>
     tm_templates_cached (mg_metrics mg) = of_nat (length (mg_template_log mg)) \<and>
     (case mg_latest mg of
        None \<Rightarrow> mg_template_log mg = [] \<and> mg_proposed mg = []
      | Some t \<Rightarrow> mg_template_log mg \<noteq> [] \<and>
          lt_id (last (mg_template_log mg)) = tr_template_id t \<and>
          lt_height (last (mg_template_log mg)) = tr_block_height t \<and>
          lt_total_fees (last (mg_template_log mg)) = tr_total_fees t \<and>
          lt_nbits_hex t = tr_nbits t)"

lemma last_drop_one: "last (drop k (xs @ [x])) = x \<and> drop k (xs @ [x]) \<noteq> []" if "k \<le> length xs"
  using that by simp

lemma log_template_spec:
  assumes "length entries \<le> TEMPLATE_LOG_CAP"
  shows "length (log_template b s p entries) \<le> TEMPLATE_LOG_CAP" and "log_template b s p entries \<noteq> []"
    and "lt_id (last (log_template b s p entries)) = tp_id p"
    and "lt_height (last (log_template b s p entries)) = tp_block_height p"
    and "lt_total_fees (last (log_template b s p entries)) = tp_total_fees p"
  using assms by (auto simp: log_template_def Let_def TEMPLATE_LOG_CAP_def)

lemma manager_inv_publish: "manager_inv mg \<Longrightarrow> manager_inv (publish_template E i p x mg)"
  using log_template_spec [of "mg_template_log mg" "backend_name (mg_source mg)" "tn_now_secs i" p]
  by (simp add: manager_inv_def publish_template_def Let_def latest_template_def)

lemma manager_inv_frame:
  "manager_inv (mempool_snapshot i mg) \<longleftrightarrow> manager_inv mg"
  "manager_inv (mg\<lparr>mg_source := s\<rparr>) \<longleftrightarrow> manager_inv mg"
  "manager_inv (mg\<lparr>mg_source := s, mg_metrics := (mg_metrics mg)\<lparr>tm_poll_errors_total := e\<rparr>\<rparr>) \<longleftrightarrow> manager_inv mg"
  by (auto simp: manager_inv_def mempool_snapshot_def split: TemplateSource.splits option.splits prod.splits)

lemma manager_inv_turn:
  assumes "manager_inv mg" and "manager_turn E i mg = Some mg'"
  shows "manager_inv mg'"
  using assms
  by (auto simp: manager_turn_def Let_def manager_inv_frame manager_inv_publish
      split: prod.splits build.splits option.splits)

lemma manager_run_inv: "manager_run E source mg \<Longrightarrow> manager_inv mg"
proof (induction rule: manager_run.induct)
  case run_start
  show ?case by (simp add: manager_inv_def manager_init_def TEMPLATE_LOG_CAP_def)
next
  case (run_turn mg i mg')
  then show ?case using manager_inv_turn by blast
qed

text \<open>
  A template that could not be built is not built again: the fingerprint was stored before, and the
  next answer with that fingerprint is taken for the same template even when its coinbase fields
  have changed.
\<close>

lemma failed_build_not_retried:
  assumes "rpc_with_retries calls 0 = Some (tpl, s)" and "bs_last_fp src \<noteq> Some (fingerprint_of E tpl)"
    and "build_template E (bs_coinbase_output_script src) (bs_extranonce_size src)
      (stable_template_id (me_finish E) (fingerprint_of E tpl)) tpl s now = Build_failed e"
    and "next_template_bitcoind E calls now src = (r, src')"
    and "rpc_with_retries calls' 0 = Some (tpl', s')" and "fingerprint_of E tpl' = fingerprint_of E tpl"
  shows "r = Build_failed e \<and> fst (next_template_bitcoind E calls' now' src') = Built None"
  using assms by (auto simp: next_template_bitcoind_def Let_def)

lemma fingerprint_omits_coinbase:
  "fingerprint_of E (tpl\<lparr>gbt_coinbaseaux := a, gbt_default_witness_commitment := w, gbt_coinbase_value := v,
     gbt_bits := b, gbt_current_time := c\<rparr>) = fingerprint_of E tpl"
  by (simp add: fingerprint_of_def total_fees_of_def)

text \<open>
  An output script of 253 bytes or more is valid in the configuration, and the first template makes
  the manager panic.
\<close>

lemma long_output_script_panics:
  assumes "hex_crate_ok X" and "253 \<le> length script"
    and "length (bip34_height_push (ucast (gbt_height tpl))) +
      length (coinbase_aux_bytes (me_hex E) (gbt_coinbaseaux tpl)) + 4 \<le> 100"
  shows "build_template E script 4 tid tpl s now = Build_panicked"
    and "manager_config X \<lparr>mt_backend = ''bitcoind'', mt_poll_interval_secs = None, mt_verifier_tcp_addr = None,
       mt_http_listen_addr = None, mt_rpc_url = None, mt_rpc_user = None, mt_rpc_pass = None,
       mt_coinbase_output_script_hex = Some (hex_encode X script), mt_extranonce_size = None,
       mt_stratum_addr = None, mt_stratum_auth = None, mt_bitcoind = None, mt_stratum = None\<rparr> =
     Ok \<lparr>tc_backend = ''bitcoind'', tc_poll_interval_secs = None, tc_verifier_tcp_addr = None,
       tc_http_listen_addr = None, tc_rpc_url = None, tc_rpc_user = None, tc_rpc_pass = None,
       tc_stratum_addr = None, tc_stratum_auth = None,
       tc_coinbase_output_script_hex = hex_encode X script, tc_extranonce_size = 4\<rparr>"
  using assms
  by (simp_all add: build_template_def build_coinbase_halves_def Let_def manager_config_def normalize_def
      validate_manager_config_def validate_backend_def hex_crate_ok_def)

section \<open>Properties\<close>

text \<open>A node with one transaction and a commitment, and a hash that keeps the first 32 bytes.\<close>

definition sample_spend :: Transaction where
  "sample_spend = \<lparr>tx_version = 1, tx_lock_time = 0,
     tx_input = [\<lparr>ti_previous_output = \<lparr>op_txid = replicate 32 7, op_vout = 0\<rparr>, ti_script_sig = [],
                  ti_sequence = 0, ti_witness = [[1]]\<rparr>],
     tx_output = [\<lparr>to_value = 5, to_script_pubkey = [0x51]\<rparr>]\<rparr>"

definition sample_gbt :: GetBlockTemplateResult where
  "sample_gbt = \<lparr>gbt_version = 0x20000000, gbt_height = 840000,
     gbt_previous_block_hash = hex_encode lower_hex (replicate 32 3),
     gbt_transactions = [\<lparr>gt_txid = hex_encode lower_hex (rev (sha256d sample_hash (tx_bytes sample_spend))),
       gt_raw_tx = [9], gt_fee = 10, gt_sigops = 4, gt_weight = 400\<rparr>],
     gbt_coinbase_value = 312500010, gbt_coinbaseaux = [], gbt_default_witness_commitment = commitment_script zero32,
     gbt_bits = [0x17, 1, 2, 3], gbt_min_time = 1700000000, gbt_current_time = 1700000600\<rparr>"

definition sample_api :: "Block \<Rightarrow> bitcoin_api" where
  "sample_api block =
     \<lparr>deserialize_block = (\<lambda>_. Some block),
      deserialize_tx = (\<lambda>raw. if raw = [9] then Some sample_spend else Some (template_coinbase lower_hex [0x51] 4 sample_gbt)),
      serialize_block = (\<lambda>b. [1]), block_weight = (\<lambda>_. 1000), tx_weight = (\<lambda>_. 400),
      block_merkle_root = (\<lambda>b. Some (merkle_root sample_hash (map (sha256d sample_hash \<circ> tx_bytes) (bk_txdata b)))),
      block_witness_root = (\<lambda>b. Some zero32), compute_txid = sha256d sample_hash \<circ> tx_bytes,
      count_sigops_legacy = (\<lambda>_. 0),
      outpoint_is_null = (\<lambda>p. op_txid p = zero32 \<and> op_vout p = 0xFFFFFFFF), sha256d_hash = (\<lambda>_. zero32)\<rparr>"

definition sample_block :: Block where
  "sample_block = honest_block (sample_api undefined) sample_hash lower_hex [0x51] 4 sample_gbt [sample_spend]"

definition sample_manager_env :: manager_env where
  "sample_manager_env = \<lparr>me_bitcoin = sample_api sample_block, me_crypto = sample_hash, me_hex = lower_hex,
     me_finish = (\<lambda>_. 0), me_instance_id = ''host-1''\<rparr>"

lemma sample_hash_ok: "sha256_ok sample_hash"
  by (auto simp: sha256_ok_def sample_hash_def)

lemma sample_crate_ok: "bitcoin_crate_ok (sample_api b) sample_hash"
  by (simp add: bitcoin_crate_ok_def sample_api_def)

lemma sample_block_eq: "honest_block (sample_api b) sample_hash lower_hex [0x51] 4 sample_gbt [sample_spend] = sample_block"
  by (simp add: sample_block_def honest_block_def sample_api_def Let_def)

lemma sample_reads_back: "reads_back (sample_api sample_block) sample_hash lower_hex [0x51] 4 sample_gbt [sample_spend]"
proof -
  have "4 \<le> length (tx_bytes tx)" for tx by (simp add: tx_bytes_def)
  from this [of "template_coinbase lower_hex [0x51] 4 sample_gbt"]
  have "tx_bytes (template_coinbase lower_hex [0x51] 4 sample_gbt) \<noteq> [9]" by auto
  then show ?thesis unfolding reads_back_def Let_def sample_block_eq by (simp add: sample_api_def)
qed

lemma sample_height: "bip34_height_push 840000 = [3, 0x40, 0xD1, 0x0C]"
  by (simp add: bip34_height_push_def height_bytes.simps drop_bit_eq_div Let_def)

lemma sample_node_honest: "node_honest (sample_api b) lower_hex sample_gbt [sample_spend]"
proof -
  have "\<exists>prev. length prev = 32 \<and> hex_encode lower_hex (replicate 32 3) = hex_encode lower_hex (rev prev)"
    by (intro exI [of _ "replicate 32 3"]) simp
  moreover have "entry_honest (sample_api b) lower_hex (hd (gbt_transactions sample_gbt)) sample_spend"
    by (simp add: entry_honest_def sample_api_def sample_gbt_def tx_sigops_def sample_spend_def tx_null_inputs_def
        zero32_def)
  ultimately show ?thesis
    by (simp add: node_honest_def sample_gbt_def coinbase_value_of_def commitment_script_def)
      (simp add: sample_api_def zero32_def)
qed

lemma sample_coinbase_fits: "coinbase_fits (sample_api sample_block) sample_hash lower_hex [0x51] 4 sample_gbt [sample_spend]"
proof -
  have "tx_sigops (sample_api b) tx = 0" for b tx by (simp add: tx_sigops_def sample_api_def)
  moreover have "take 4 (compute_txid (sample_api b) tx) = u32_to_le_bytes (tx_version tx)" for b tx
    by (simp add: sample_api_def sample_hash_def sha256d_def tx_bytes_def min_def)
  then have "compute_txid (sample_api b) tx \<noteq> compute_txid (sample_api b) tx'" if "tx_version tx \<noteq> tx_version tx'" for b tx tx'
    using that by (metis u32_to_le_bytes_inject)
  ultimately show ?thesis
    unfolding coinbase_fits_def sample_block_eq
    by (simp add: sample_height sample_spend_def sample_gbt_def coinbase_aux_bytes_def is_commitment_script_def)
      (simp add: sample_api_def template_coinbase_def coinbase_tx_def)
qed

text \<open>What the manager serves is the newest template it logged: over any run, a template is
  served exactly when one was logged, the last entry of the log is that template, the gateway's
  poller takes it, and the log never holds more than 500 entries.\<close>

theorem latest_is_newest:
  assumes "manager_run E source mg"
  shows "length (mg_template_log mg) \<le> 500 \<and>
    (case poll_tick (get_latest_template mg) reachable of
       (None, up) \<Rightarrow> \<not> up \<and> mg_template_log mg = [] \<and> mg_proposed mg = []
     | (Some t, up) \<Rightarrow> up \<and> mg_template_log mg \<noteq> [] \<and>
         lt_id (last (mg_template_log mg)) = tr_template_id t \<and>
         lt_height (last (mg_template_log mg)) = tr_block_height t \<and>
         lt_total_fees (last (mg_template_log mg)) = tr_total_fees t)"
  using manager_run_inv [OF assms]
  by (auto simp: manager_inv_def TEMPLATE_LOG_CAP_def get_latest_template_def poll_tick_def is_success_def
      TemplateResponse.defs split: option.splits)

definition sample_turn :: manager_turn_input where
  "sample_turn = \<lparr>tn_gbt = (\<lambda>_. Rpc_error), tn_received = Some (template_propose 7 sample_gbt None 9 1 None),
     tn_verifier_reached = False, tn_mempool = (\<lambda>_. Rpc_error), tn_now_ms = 1, tn_now_secs = 1\<rparr>"

definition sample_manager :: manager where
  "sample_manager = publish_template sample_manager_env sample_turn (template_propose 7 sample_gbt None 9 1 None) None
     (manager_init Stratum)"

lemma sample_manager_run: "manager_run sample_manager_env Stratum sample_manager"
  by (rule run_turn [OF run_start, of _ sample_turn])
    (simp add: manager_turn_def next_template_def next_template_stratum_def sample_turn_def sample_manager_def
      mempool_snapshot_def publish_template_def manager_init_def Let_def)

theorem latest_is_newest_witness:
  "length (mg_template_log sample_manager) \<le> 500 \<and> lt_id (last (mg_template_log sample_manager)) = 7"
  using latest_is_newest [OF sample_manager_run, of True]
  by (simp add: sample_manager_def publish_template_def get_latest_template_def poll_tick_def is_success_def Let_def
      TemplateResponse.defs latest_template_def template_propose_def manager_init_def)

end
