(* ===== verification/RG_GatewayConfig.thy ===== *)
theory RG_GatewayConfig
  imports RG_U256 RG_Shares RG_Allocators RG_Connections
begin

text \<open>
  The configuration of the gateway, \<open>services/sv2-gateway/src/config.rs\<close>: the sections, their
  defaults and \<open>validate\<close> with its checks in the order of the code. Reading TOML is the business
  of \<open>serde\<close>; the environment variables and the address parsers of the standard library that the
  checks consult are arguments. An error is a value with the numbers its message shows, a warning
  likewise.
\<close>

section \<open>Sections\<close>

datatype UpstreamFailurePolicy = FailClosed | FailOpen

datatype QueueDropPolicy = DropNew | DropOld

record PrefixMapping =
  pm_prefix :: string
  pm_account :: string

datatype MinerAuthMode = Open | Allowlist "string list" | PrefixMap "PrefixMapping list"

record GatewaySection =
  gs_listen_addr :: string
  gs_health_addr :: string
  gs_noise_keypair_path :: string
  gs_noise_cert_path :: string
  gs_authority_pubkey :: string
  gs_max_connections :: u32
  gs_max_connections_per_ip :: u32
  gs_max_channels_per_conn :: u32
  gs_channel_open_timeout_ms :: u64
  gs_max_worker_id_bytes :: nat
  gs_noise_cert_validity_secs :: u32
  gs_noise_handshake_timeout_ms :: u64
  gs_template_poll_interval_ms :: u64
  gs_max_template_age_ms :: u64
  gs_prevhash_verdict_timeout_ms :: u64
  gs_prevhash_stale_hold_ms :: u64
  gs_upstream_stale_max_ms :: u64
  gs_upstream_failure_policy :: UpstreamFailurePolicy
  gs_share_dedup_window_size :: nat
  gs_ntime_elapsed_slack_seconds :: u32
  gs_max_future_block_time_seconds :: u32
  gs_miner_auth :: MinerAuthMode
  gs_job_retention_ms :: u64
  gs_channel_target_hex :: "string option"
  gs_max_shares_per_second_per_channel :: u32
  gs_extranonce_prefix_len :: nat
  gs_extended_channels_enabled :: bool
  gs_vardiff_enabled :: bool
  gs_vardiff_target_shares_per_min :: f64
  gs_vardiff_retarget_interval_secs :: u64
  gs_vardiff_min_difficulty :: u64
  gs_vardiff_max_difficulty :: u64
  gs_vardiff_max_adjustment_factor :: f64
  gs_noise_keypair_reload_sighup :: bool
  gs_noise_keypair_poll_interval_secs :: u64
  gs_wal_path :: string
  gs_wal_compaction_threshold :: nat
  gs_gateway_instance_id :: string
  gs_template_url :: string
  gs_auto_degrade :: bool
  gs_auto_degrade_after_ms :: u64

record VerifierSection =
  vs_addr :: string
  vs_health_probe_staleness_ms :: u64
  vs_reconnect_delay_ms :: u64
  vs_heartbeat_interval_ms :: u64
  vs_tls_ca_cert :: "string option"
  vs_tls_client_cert :: "string option"
  vs_tls_client_key :: "string option"
  vs_tls_server_name :: string

record ShareUpstreamSection =
  su_url :: string
  su_secret :: "string option"
  su_retries :: u32
  su_forward_queue_size :: nat
  su_forward_max_in_flight :: nat
  su_forward_queue_drop_policy :: QueueDropPolicy
  su_rate_limit_per_conn_per_sec :: "u32 option"

record GatewayConfig =
  gc_mode :: GatewayMode
  gc_gateway :: GatewaySection
  gc_verifier :: VerifierSection
  gc_share_upstream :: "ShareUpstreamSection option"

definition tls_enabled :: "VerifierSection \<Rightarrow> bool" where
  "tls_enabled v \<longleftrightarrow> vs_tls_ca_cert v \<noteq> None"

section \<open>Defaults\<close>

text \<open>
  The sections a file with only the required keys gives. \<open>var\<close> is the environment, consulted for
  the instance identifier.
\<close>

definition default_gateway_instance_id :: "(string \<Rightarrow> string option) \<Rightarrow> string" where
  "default_gateway_instance_id var =
     (case var ''HOSTNAME'' of
        Some name \<Rightarrow> name
      | None \<Rightarrow> (case var ''VELDRA_GATEWAY_INSTANCE_ID'' of Some name \<Rightarrow> name | None \<Rightarrow> ''unknown''))"

definition default_gateway_section ::
  "(string \<Rightarrow> string option) \<Rightarrow> string \<Rightarrow> string \<Rightarrow> string \<Rightarrow> GatewaySection" where
  "default_gateway_section var listen_addr noise_keypair_path authority_pubkey =
     \<lparr>gs_listen_addr = listen_addr,
      gs_health_addr = ''127.0.0.1:8080'',
      gs_noise_keypair_path = noise_keypair_path,
      gs_noise_cert_path = [],
      gs_authority_pubkey = authority_pubkey,
      gs_max_connections = 1024,
      gs_max_connections_per_ip = 16,
      gs_max_channels_per_conn = 256,
      gs_channel_open_timeout_ms = 30000,
      gs_max_worker_id_bytes = 128,
      gs_noise_cert_validity_secs = 3600,
      gs_noise_handshake_timeout_ms = 5000,
      gs_template_poll_interval_ms = 3000,
      gs_max_template_age_ms = 30000,
      gs_prevhash_verdict_timeout_ms = 2000,
      gs_prevhash_stale_hold_ms = 5000,
      gs_upstream_stale_max_ms = 30000,
      gs_upstream_failure_policy = FailClosed,
      gs_share_dedup_window_size = 10000,
      gs_ntime_elapsed_slack_seconds = 2,
      gs_max_future_block_time_seconds = MAX_FUTURE_BLOCK_TIME_SECONDS,
      gs_miner_auth = Open,
      gs_job_retention_ms = 300000,
      gs_channel_target_hex = None,
      gs_max_shares_per_second_per_channel = 0,
      gs_extranonce_prefix_len = 4,
      gs_extended_channels_enabled = True,
      gs_vardiff_enabled = False,
      gs_vardiff_target_shares_per_min = F64 20,
      gs_vardiff_retarget_interval_secs = 90,
      gs_vardiff_min_difficulty = 1,
      gs_vardiff_max_difficulty = - 1,
      gs_vardiff_max_adjustment_factor = F64 4,
      gs_noise_keypair_reload_sighup = True,
      gs_noise_keypair_poll_interval_secs = 0,
      gs_wal_path = [],
      gs_wal_compaction_threshold = 1000,
      gs_gateway_instance_id = default_gateway_instance_id var,
      gs_template_url = [],
      gs_auto_degrade = True,
      gs_auto_degrade_after_ms = 10000\<rparr>"

definition default_verifier_section :: "string \<Rightarrow> VerifierSection" where
  "default_verifier_section addr =
     \<lparr>vs_addr = addr,
      vs_health_probe_staleness_ms = 10000,
      vs_reconnect_delay_ms = 2000,
      vs_heartbeat_interval_ms = 2000,
      vs_tls_ca_cert = None,
      vs_tls_client_cert = None,
      vs_tls_client_key = None,
      vs_tls_server_name = ''localhost''\<rparr>"

definition default_share_upstream_section :: "string \<Rightarrow> ShareUpstreamSection" where
  "default_share_upstream_section url =
     \<lparr>su_url = url,
      su_secret = None,
      su_retries = 2,
      su_forward_queue_size = 50000,
      su_forward_max_in_flight = 256,
      su_forward_queue_drop_policy = DropNew,
      su_rate_limit_per_conn_per_sec = None\<rparr>"

section \<open>Addresses\<close>

text \<open>
  \<open>SocketAddr\<close> and \<open>IpAddr\<close> parsing as the addresses they yield; \<open>rsplit_once\<close> at the last colon.
\<close>

fun is_loopback :: "IpAddr \<Rightarrow> bool" where
  "is_loopback (V4 a) \<longleftrightarrow> drop_bit 24 a = 127"
| "is_loopback (V6 a) \<longleftrightarrow> a = 1"

record config_env =
  ce_hex :: hex_crate
  ce_socket_addr :: "string \<Rightarrow> IpAddr option"
  ce_ip_addr :: "string \<Rightarrow> IpAddr option"
  ce_allow_insecure_verifier :: bool
  ce_allow_remote_verifier :: bool

definition before_last_colon :: "string \<Rightarrow> string" where
  "before_last_colon s =
     (if CHR '':'' \<in> set s then rev (tl (dropWhile (\<lambda>c. c \<noteq> CHR '':'') (rev s))) else s)"

definition is_loopback_addr :: "config_env \<Rightarrow> string \<Rightarrow> bool" where
  "is_loopback_addr V addr =
     (case ce_socket_addr V addr of
        Some ip \<Rightarrow> is_loopback ip
      | None \<Rightarrow>
          (case ce_ip_addr V addr of
             Some ip \<Rightarrow> is_loopback ip
           | None \<Rightarrow>
               let host = (if take 1 addr = ''['' then addr else before_last_colon addr)
               in host = ''localhost''))"

section \<open>Validation\<close>

datatype ConfigError =
    Drop_old_not_implemented
  | Inline_needs_share_upstream
  | Target_does_not_parse string
  | Target_is_zero
  | Target_too_hard
  | Target_missing GatewayMode
  | Noise_handshake_timeout_zero
  | Poll_interval_zero
  | Stale_hold_zero
  | Upstream_stale_too_low
  | Verdict_timeout_zero
  | Verdict_timeout_not_below_hold u64 u64
  | Hold_not_below_upstream_stale u64 u64
  | Retention_below_upstream_stale u64 u64
  | Probe_staleness_zero
  | Mtls_identity_missing
  | Verifier_remote_without_tls string
  | Degrade_below_heartbeat u64 u64

datatype ConfigWarning =
    Shadow_with_share_upstream
  | Nonstandard_future_time u32
  | Target_trivial
  | Vardiff_enabled
  | Handshake_timeout_high
  | Verdict_timeout_low u64
  | Insecure_verifier string
  | Degrade_not_below_template_age u64 u64

definition validate_timing_chain :: "GatewayConfig \<Rightarrow> ConfigWarning list \<Rightarrow> ConfigError + ConfigWarning list" where
  "validate_timing_chain config warnings =
     (let g = gc_gateway config in
      if gs_prevhash_verdict_timeout_ms g = 0 then Err Verdict_timeout_zero
      else if gs_prevhash_verdict_timeout_ms g \<ge> gs_prevhash_stale_hold_ms g
      then Err (Verdict_timeout_not_below_hold (gs_prevhash_verdict_timeout_ms g) (gs_prevhash_stale_hold_ms g))
      else if gs_prevhash_stale_hold_ms g \<ge> gs_upstream_stale_max_ms g
      then Err (Hold_not_below_upstream_stale (gs_prevhash_stale_hold_ms g) (gs_upstream_stale_max_ms g))
      else if gs_job_retention_ms g < gs_upstream_stale_max_ms g
      then Err (Retention_below_upstream_stale (gs_job_retention_ms g) (gs_upstream_stale_max_ms g))
      else if vs_health_probe_staleness_ms (gc_verifier config) = 0 then Err Probe_staleness_zero
      else Ok (if gs_prevhash_verdict_timeout_ms g < 1000
               then warnings @ [Verdict_timeout_low (gs_prevhash_verdict_timeout_ms g)] else warnings))"

definition validate_verifier_security ::
  "config_env \<Rightarrow> GatewayConfig \<Rightarrow> ConfigWarning list \<Rightarrow> ConfigError + ConfigWarning list" where
  "validate_verifier_security V config warnings =
     (let v = gc_verifier config in
      if vs_tls_ca_cert v \<noteq> None \<and> (vs_tls_client_cert v = None \<or> vs_tls_client_key v = None)
      then Err Mtls_identity_missing
      else if \<not> is_loopback_addr V (vs_addr v) then
        (if tls_enabled v then Ok warnings
         else if \<not> ce_allow_insecure_verifier V \<and> \<not> ce_allow_remote_verifier V
         then Err (Verifier_remote_without_tls (vs_addr v))
         else Ok (warnings @ [Insecure_verifier (vs_addr v)]))
      else Ok warnings)"

definition validate_channel_target ::
  "config_env \<Rightarrow> GatewayConfig \<Rightarrow> ConfigWarning list \<Rightarrow> ConfigError + ConfigWarning list" where
  "validate_channel_target V config warnings =
     and_then
       (case gs_channel_target_hex (gc_gateway config) of
          None \<Rightarrow> Ok warnings
        | Some hex \<Rightarrow>
            (case display_hex_to_wire_bytes (ce_hex V) hex of
               Err e \<Rightarrow> Err (Target_does_not_parse e)
             | Ok target \<Rightarrow>
                 if list_all (\<lambda>b. b = 0) target then Err Target_is_zero
                 else let d = target_to_difficulty_u64 target in
                   if d = - 1 then Err Target_too_hard
                   else if (d = 0 \<or> d = 1) \<and> accepts_miners (gc_mode config)
                   then Ok (warnings @ [Target_trivial])
                   else Ok warnings))
       (\<lambda>warnings.
         let warnings = (if accepts_miners (gc_mode config) \<and> gs_vardiff_enabled (gc_gateway config)
                         then warnings @ [Vardiff_enabled] else warnings)
         in if accepts_miners (gc_mode config) \<and> gs_channel_target_hex (gc_gateway config) = None
            then Err (Target_missing (gc_mode config)) else Ok warnings)"

definition early_warnings :: "GatewayConfig \<Rightarrow> ConfigWarning list" where
  "early_warnings config =
     (if gc_mode config = Shadow \<and> gc_share_upstream config \<noteq> None then [Shadow_with_share_upstream] else []) @
     (if gs_max_future_block_time_seconds (gc_gateway config) \<noteq> MAX_FUTURE_BLOCK_TIME_SECONDS
      then [Nonstandard_future_time (gs_max_future_block_time_seconds (gc_gateway config))] else [])"

definition validate_gateway_config :: "config_env \<Rightarrow> GatewayConfig \<Rightarrow> ConfigError + ConfigWarning list" where
  "validate_gateway_config V config =
     (let g = gc_gateway config;
          enforcing_degrade = (gs_auto_degrade g \<and> enforces_verdicts (gc_mode config))
      in if (\<exists>upstream \<in> set_option (gc_share_upstream config). su_forward_queue_drop_policy upstream = DropOld)
         then Err Drop_old_not_implemented
         else if gc_mode config = Inline \<and> gc_share_upstream config = None then Err Inline_needs_share_upstream
         else and_then (validate_channel_target V config (early_warnings config)) (\<lambda>warnings.
           if gs_noise_handshake_timeout_ms g = 0 then Err Noise_handshake_timeout_zero
           else if gs_template_poll_interval_ms g = 0 then Err Poll_interval_zero
           else if gs_prevhash_stale_hold_ms g = 0 then Err Stale_hold_zero
           else if gs_upstream_stale_max_ms g < 1000 then Err Upstream_stale_too_low
           else
             let warnings = (if gs_noise_handshake_timeout_ms g > 120000
                             then warnings @ [Handshake_timeout_high] else warnings) in
             and_then (validate_timing_chain config warnings) (\<lambda>warnings.
             and_then (validate_verifier_security V config warnings) (\<lambda>warnings.
               if enforcing_degrade \<and> gs_auto_degrade_after_ms g < vs_heartbeat_interval_ms (gc_verifier config)
               then Err (Degrade_below_heartbeat (gs_auto_degrade_after_ms g)
                           (vs_heartbeat_interval_ms (gc_verifier config)))
               else Ok (if enforcing_degrade \<and> gs_auto_degrade_after_ms g \<ge> gs_max_template_age_ms g
                        then warnings @ [Degrade_not_below_template_age (gs_auto_degrade_after_ms g)
                                           (gs_max_template_age_ms g)]
                        else warnings)))))"

section \<open>What a validated configuration guarantees\<close>

definition target_ok :: "config_env \<Rightarrow> GatewayConfig \<Rightarrow> bool" where
  "target_ok V config \<longleftrightarrow>
     (case gs_channel_target_hex (gc_gateway config) of
        None \<Rightarrow> \<not> accepts_miners (gc_mode config)
      | Some hex \<Rightarrow> \<exists>target. display_hex_to_wire_bytes (ce_hex V) hex = Ok target \<and> 2 ^ 160 \<le> le_val target)"

definition timing_ok :: "GatewayConfig \<Rightarrow> bool" where
  "timing_ok config \<longleftrightarrow>
     (let g = gc_gateway config in
      0 < gs_prevhash_verdict_timeout_ms g \<and>
      gs_prevhash_verdict_timeout_ms g < gs_prevhash_stale_hold_ms g \<and>
      gs_prevhash_stale_hold_ms g < gs_upstream_stale_max_ms g \<and>
      gs_upstream_stale_max_ms g \<le> gs_job_retention_ms g \<and>
      0 < vs_health_probe_staleness_ms (gc_verifier config))"

definition verifier_secure :: "config_env \<Rightarrow> GatewayConfig \<Rightarrow> bool" where
  "verifier_secure V config \<longleftrightarrow>
     (let v = gc_verifier config in
      (vs_tls_ca_cert v = None \<or> vs_tls_client_cert v \<noteq> None \<and> vs_tls_client_key v \<noteq> None) \<and>
      (is_loopback_addr V (vs_addr v) \<or> tls_enabled v \<or>
       ce_allow_insecure_verifier V \<or> ce_allow_remote_verifier V))"

lemma display_hex_length: "display_hex_to_wire_bytes X hex = Ok t \<Longrightarrow> length t = 32"
  by (auto simp: display_hex_to_wire_bytes_def split: sum.splits if_splits)

lemma le_val_zeros: "list_all (\<lambda>b. b = 0) t \<Longrightarrow> le_val t = 0"
  by (induction t) auto

text \<open>The two refusals of a parsed target are one bound on its value.\<close>

lemma target_refused_iff:
  assumes "length t = 32"
  shows "list_all (\<lambda>b. b = 0) t \<or> target_to_difficulty_u64 t = - 1 \<longleftrightarrow> le_val t < 2 ^ 160"
proof -
  have "target_to_difficulty_u64 t = - 1 \<longleftrightarrow> unat (target_to_difficulty_u64 t) = 2 ^ 64 - 1"
    by (simp add: word_unat_eq_iff unat_max_word)
  also have "\<dots> \<longleftrightarrow> le_val t < 2 ^ 160"
  proof (cases "le_val t < 2 ^ 160")
    case False
    then have "0xFFFF * 2 ^ 208 div le_val t \<le> 0xFFFF * 2 ^ 208 div 2 ^ 160"
      by (intro div_le_mono2) simp_all
    also have "\<dots> < 2 ^ 64 - 1" by simp
    finally have "0xFFFF * 2 ^ 208 div le_val t \<noteq> 2 ^ 64 - 1" by (rule less_imp_neq)
    then show ?thesis using False
      by (simp only: target_to_difficulty_value [OF assms] if_False simp_thms not_False_eq_True)
  qed (simp add: target_to_difficulty_value [OF assms])
  finally show ?thesis using le_val_zeros [of t] by auto
qed

lemma validate_channel_target_Ok:
  "(\<exists>w'. validate_channel_target V config w = Ok w') \<longleftrightarrow> target_ok V config"
proof (cases "gs_channel_target_hex (gc_gateway config)")
  case (Some hex)
  show ?thesis
  proof (cases "display_hex_to_wire_bytes (ce_hex V) hex")
    case (Inr t)
    have "le_val t < 2 ^ 160 \<longleftrightarrow> list_all (\<lambda>b. b = 0) t \<or> target_to_difficulty_u64 t = - 1"
      using target_refused_iff [OF display_hex_length [OF Inr]] by simp
    then have "target_ok V config \<longleftrightarrow> \<not> (list_all (\<lambda>b. b = 0) t \<or> target_to_difficulty_u64 t = - 1)"
      unfolding target_ok_def Some by (simp only: Inr option.case not_less [symmetric]) simp
    then show ?thesis using Some Inr
      by (simp only: validate_channel_target_def option.case sum.case Let_def) (auto simp: Let_def)
  qed (auto simp: Some validate_channel_target_def target_ok_def)
qed (auto simp: validate_channel_target_def target_ok_def)

lemma validate_timing_chain_Ok:
  "(\<exists>w'. validate_timing_chain config w = Ok w') \<longleftrightarrow> timing_ok config"
  by (auto simp: validate_timing_chain_def timing_ok_def Let_def not_le not_less word_gt_0)

lemma validate_verifier_security_Ok:
  "(\<exists>w'. validate_verifier_security V config w = Ok w') \<longleftrightarrow> verifier_secure V config"
  by (auto simp: validate_verifier_security_def verifier_secure_def Let_def)

text \<open>The checks after the first two, as a chain in which only the warnings are passed on.\<close>

lemma validate_chain_Ok:
  "(\<exists>y. and_then (validate_channel_target V config w) (\<lambda>w.
      if A then Err e1 else if B then Err e2 else if C then Err e3 else if D then Err e4
      else and_then (validate_timing_chain config (h w)) (\<lambda>w.
           and_then (validate_verifier_security V config w) (\<lambda>w. if P then Err e5 else Ok (k w)))) = Ok y) \<longleftrightarrow>
   target_ok V config \<and> \<not> A \<and> \<not> B \<and> \<not> C \<and> \<not> D \<and> timing_ok config \<and> verifier_secure V config \<and> \<not> P"
  (is "?lhs \<longleftrightarrow> ?rhs")
proof
  assume ?lhs
  then obtain w1 w2 w3 where "validate_channel_target V config w = Ok w1"
    "validate_timing_chain config (h w1) = Ok w2" "validate_verifier_security V config w2 = Ok w3"
    "\<not> A" "\<not> B" "\<not> C" "\<not> D" "\<not> P"
    by (auto simp: and_then_Ok_iff split: if_splits)
  then show ?rhs
    using validate_timing_chain_Ok validate_verifier_security_Ok validate_channel_target_Ok by blast
next
  assume r: ?rhs
  obtain w1 where "validate_channel_target V config w = Ok w1" using r validate_channel_target_Ok by blast
  moreover obtain w2 where "validate_timing_chain config (h w1) = Ok w2" using r validate_timing_chain_Ok by blast
  moreover obtain w3 where "validate_verifier_security V config w2 = Ok w3"
    using r validate_verifier_security_Ok by blast
  ultimately show ?lhs using r by simp
qed

lemma validate_gateway_config_Ok:
  "(\<exists>w. validate_gateway_config V config = Ok w) \<longleftrightarrow>
    (\<forall>u \<in> set_option (gc_share_upstream config). su_forward_queue_drop_policy u = DropNew) \<and>
    (gc_mode config = Inline \<longrightarrow> gc_share_upstream config \<noteq> None) \<and>
    target_ok V config \<and>
    0 < gs_noise_handshake_timeout_ms (gc_gateway config) \<and>
    0 < gs_template_poll_interval_ms (gc_gateway config) \<and>
    1000 \<le> gs_upstream_stale_max_ms (gc_gateway config) \<and>
    timing_ok config \<and> verifier_secure V config \<and>
    (gs_auto_degrade (gc_gateway config) \<and> enforces_verdicts (gc_mode config) \<longrightarrow>
       vs_heartbeat_interval_ms (gc_verifier config) \<le> gs_auto_degrade_after_ms (gc_gateway config))"
proof -
  let ?g = "gc_gateway config"
  have drop: "(\<exists>u \<in> set_option (gc_share_upstream config). su_forward_queue_drop_policy u = DropOld) \<longleftrightarrow>
      \<not> (\<forall>u \<in> set_option (gc_share_upstream config). su_forward_queue_drop_policy u = DropNew)"
    by (metis QueueDropPolicy.distinct(1) QueueDropPolicy.exhaust)
  have pos: "0 < x \<longleftrightarrow> x \<noteq> 0" for x :: u64 using word_gt_0 [of x] by blast
  have hold: "0 < gs_prevhash_stale_hold_ms ?g" if "timing_ok config"
    using that by (auto simp: timing_ok_def Let_def)
  show ?thesis
  proof (cases "(\<forall>u \<in> set_option (gc_share_upstream config). su_forward_queue_drop_policy u = DropNew) \<and>
      (gc_mode config = Inline \<longrightarrow> gc_share_upstream config \<noteq> None)")
    case True
    then have "(\<not> (\<forall>u \<in> set_option (gc_share_upstream config). su_forward_queue_drop_policy u = DropNew)) = False"
      "(gc_mode config = Inline \<and> gc_share_upstream config = None) = False" by blast+
    then have "(\<exists>w. validate_gateway_config V config = Ok w) \<longleftrightarrow>
      target_ok V config \<and> gs_noise_handshake_timeout_ms ?g \<noteq> 0 \<and> gs_template_poll_interval_ms ?g \<noteq> 0 \<and>
      gs_prevhash_stale_hold_ms ?g \<noteq> 0 \<and> \<not> gs_upstream_stale_max_ms ?g < 1000 \<and>
      timing_ok config \<and> verifier_secure V config \<and>
      \<not> ((gs_auto_degrade ?g \<and> enforces_verdicts (gc_mode config)) \<and>
         gs_auto_degrade_after_ms ?g < vs_heartbeat_interval_ms (gc_verifier config))"
      unfolding validate_gateway_config_def Let_def drop by (simp only: if_False validate_chain_Ok)
    then show ?thesis using True hold unfolding pos not_less [symmetric] by blast
  next
    case False
    then show ?thesis unfolding validate_gateway_config_def Let_def drop by auto
  qed
qed

text \<open>A configuration is accepted exactly when the queue policy is the implemented one, an
  inline gateway has a pool to relay to, a gateway that serves miners has a target some share can
  meet, the timing chain \<open>verdict timeout < stale hold < upstream staleness \<le> job retention\<close> is in
  order, a verifier that is not local is reached over mutual TLS or by an explicit override, and a
  heartbeat can arrive before the degrade threshold.\<close>

theorem config_accepted_iff:
  "(\<exists>w. validate_gateway_config V config = Ok w) \<longleftrightarrow>
    (\<forall>u \<in> set_option (gc_share_upstream config). su_forward_queue_drop_policy u = DropNew) \<and>
    (gc_mode config = Inline \<longrightarrow> gc_share_upstream config \<noteq> None) \<and>
    target_ok V config \<and>
    0 < gs_noise_handshake_timeout_ms (gc_gateway config) \<and>
    0 < gs_template_poll_interval_ms (gc_gateway config) \<and>
    1000 \<le> gs_upstream_stale_max_ms (gc_gateway config) \<and>
    timing_ok config \<and> verifier_secure V config \<and>
    (gs_auto_degrade (gc_gateway config) \<and> enforces_verdicts (gc_mode config) \<longrightarrow>
       vs_heartbeat_interval_ms (gc_verifier config) \<le> gs_auto_degrade_after_ms (gc_gateway config))"
  by (rule validate_gateway_config_Ok)

text \<open>The defaults with difficulty 1 as the target, a local verifier and a pool.\<close>

definition sample_config_env :: config_env where
  "sample_config_env =
     \<lparr>ce_hex = lower_hex,
      ce_socket_addr = (\<lambda>s. if s = ''127.0.0.1:9100'' then Some (V4 0x7F000001) else None),
      ce_ip_addr = (\<lambda>_. None),
      ce_allow_insecure_verifier = False, ce_allow_remote_verifier = False\<rparr>"

definition sample_target_hex :: string where
  "sample_target_hex = hex_encode lower_hex (rev diff1_le)"

definition sample_section :: GatewaySection where
  "sample_section = (default_gateway_section (\<lambda>_. None) ''0.0.0.0:3333'' ''k'' ''p'')
     \<lparr>gs_channel_target_hex := Some sample_target_hex\<rparr>"

definition sample_gateway_config :: GatewayConfig where
  "sample_gateway_config =
     \<lparr>gc_mode = Inline, gc_gateway = sample_section,
      gc_verifier = default_verifier_section ''127.0.0.1:9100'',
      gc_share_upstream = Some (default_share_upstream_section ''http://pool'')\<rparr>"

lemma sample_target: "display_hex_to_wire_bytes lower_hex sample_target_hex = Ok diff1_le"
  using lower_hex_ok
  by (simp add: display_hex_to_wire_bytes_def sample_target_hex_def hex_crate_ok_def length_diff1_le)

lemma sample_config_fields [simp]:
  "gc_mode sample_gateway_config = Inline" "gc_gateway sample_gateway_config = sample_section"
  "gc_verifier sample_gateway_config = default_verifier_section ''127.0.0.1:9100''"
  "gc_share_upstream sample_gateway_config = Some (default_share_upstream_section ''http://pool'')"
  "gs_channel_target_hex sample_section = Some sample_target_hex"
  "gs_noise_handshake_timeout_ms sample_section = 5000" "gs_template_poll_interval_ms sample_section = 3000"
  "gs_prevhash_verdict_timeout_ms sample_section = 2000" "gs_prevhash_stale_hold_ms sample_section = 5000"
  "gs_upstream_stale_max_ms sample_section = 30000" "gs_job_retention_ms sample_section = 300000"
  "gs_auto_degrade sample_section" "gs_auto_degrade_after_ms sample_section = 10000"
  by (simp_all add: sample_gateway_config_def sample_section_def default_gateway_section_def)

lemma sample_target_ok: "target_ok sample_config_env sample_gateway_config"
  by (simp add: target_ok_def sample_config_env_def sample_target le_val_diff1 [simplified])

lemma sample_verifier_secure: "verifier_secure sample_config_env sample_gateway_config"
  by (simp add: verifier_secure_def default_verifier_section_def sample_config_env_def
      is_loopback_addr_def drop_bit_eq_div)

theorem config_accepted_iff_witness:
  "\<exists>w. validate_gateway_config sample_config_env sample_gateway_config = Ok w"
  unfolding config_accepted_iff
  by (simp add: sample_target_ok sample_verifier_secure default_share_upstream_section_def
      timing_ok_def default_verifier_section_def)

text \<open>
  Two values the code later refuses by a panic pass validation: an extranonce prefix outside its
  range, on which the allocator asserts, and a heartbeat period of zero, on which the timer does.
\<close>

lemma bad_prefix_len_accepted:
  assumes "validate_gateway_config V config = Ok w"
  shows "\<exists>w'. validate_gateway_config V (config\<lparr>gc_gateway := (gc_gateway config)\<lparr>gs_extranonce_prefix_len := 9\<rparr>\<rparr>) = Ok w'"
    and "with_prefix_len 9 = None"
proof -
  have "\<exists>w. validate_gateway_config V config = Ok w" using assms by blast
  then show "\<exists>w'. validate_gateway_config V (config\<lparr>gc_gateway := (gc_gateway config)\<lparr>gs_extranonce_prefix_len := 9\<rparr>\<rparr>) = Ok w'"
    unfolding validate_gateway_config_Ok by (auto simp: target_ok_def timing_ok_def verifier_secure_def Let_def split: option.splits)
qed (simp add: with_prefix_len_def)

lemma zero_heartbeat_accepted:
  assumes "validate_gateway_config V config = Ok w"
  shows "\<exists>w'. validate_gateway_config V (config\<lparr>gc_verifier := (gc_verifier config)\<lparr>vs_heartbeat_interval_ms := 0\<rparr>\<rparr>) = Ok w'"
proof -
  have "\<exists>w. validate_gateway_config V config = Ok w" using assms by blast
  then show ?thesis unfolding validate_gateway_config_Ok
    by (auto simp: target_ok_def timing_ok_def verifier_secure_def tls_enabled_def Let_def split: option.splits)
qed

end
