(* ===== verification/RG_Gateway.thy ===== *)
theory RG_Gateway
  imports RG_GatewayConfig RG_Accounting RG_Handler "HOL-Library.AList"
begin

text \<open>
  The event loop of the gateway, \<open>run_gateway\<close> in \<open>services/sv2-gateway/src/main.rs\<close>, with its
  helpers: templates held until the verifier's verdict, jobs made from them and broadcast, the
  automatic degradation when the verifier stops answering and the recovery from it, the timers
  that stop the gateway, the two accounting arms and the drain after the loop. One turn of the
  \<open>select!\<close> is \<open>gateway_step\<close>: the arm that ran with what it received. Clocks are read once per
  turn; an \<open>Instant\<close> is its number of nanoseconds. The \<open>HashMap\<close> of pending templates is an
  association list with distinct keys.
\<close>

section \<open>Degradation\<close>

datatype DegradeTrigger = HeartbeatStale | VerdictStarved

fun degrade_trigger_as_str :: "DegradeTrigger \<Rightarrow> string" where
  "degrade_trigger_as_str HeartbeatStale = ''verifier_heartbeat_stale''"
| "degrade_trigger_as_str VerdictStarved = ''verifier_verdict_starved''"

definition degrade_trigger_for :: "nat \<Rightarrow> nat option \<Rightarrow> nat option \<Rightarrow> nat \<Rightarrow> DegradeTrigger option" where
  "degrade_trigger_for heartbeat_age oldest_pending_age verdict_starved_elapsed threshold =
     (if heartbeat_age > threshold then Some HeartbeatStale
      else if (\<exists>age \<in> set_option oldest_pending_age. age > threshold) \<or>
              (\<exists>e \<in> set_option verdict_starved_elapsed. e > threshold)
      then Some VerdictStarved
      else None)"

type_synonym StarvationClock = "nat option"

definition starvation_clock_new :: StarvationClock where
  "starvation_clock_new = None"

definition on_enqueue :: "bool \<Rightarrow> nat \<Rightarrow> StarvationClock \<Rightarrow> StarvationClock" where
  "on_enqueue pending_was_empty now c = (if pending_was_empty \<or> c = None then Some now else c)"

definition on_verdict :: "bool \<Rightarrow> nat \<Rightarrow> StarvationClock \<Rightarrow> StarvationClock" where
  "on_verdict pending_now_empty now c = (if pending_now_empty then None else Some now)"

definition on_flush :: "StarvationClock \<Rightarrow> StarvationClock" where
  "on_flush c = None"

definition elapsed_while_outstanding :: "bool \<Rightarrow> nat \<Rightarrow> StarvationClock \<Rightarrow> nat option" where
  "elapsed_while_outstanding pending_empty now c =
     (if pending_empty then None else map_option (\<lambda>anchor. now - anchor) c)"

definition heartbeat_recovery_allowed :: "DegradeTrigger option \<Rightarrow> bool" where
  "heartbeat_recovery_allowed trigger \<longleftrightarrow> trigger \<noteq> Some VerdictStarved"

section \<open>State\<close>

record PendingTemplate =
  pt_template :: TemplateResponse
  pt_received_at :: nat

record gateway_metrics =
  gm_templates_received_total :: u64
  gm_verdicts_total :: "bool \<Rightarrow> u64"
  gm_mode_transitions_total :: "string \<Rightarrow> u64"
  gm_share_forward_total :: "string \<Rightarrow> u64"
  gm_shares_total :: "string \<times> string \<Rightarrow> u64"

text \<open>
  The locals of the loop and what it shares with the tasks around it. \<open>gw_proposed\<close>,
  \<open>gw_broadcasts\<close> and \<open>gw_transitions\<close> are what was sent to the verifier, what was broadcast to
  the handlers and the mode transitions written to the accounting stream; a broadcast is kept with
  the template it was made from.
\<close>

record gateway =
  gw_dedup_cache :: TemplateDedupCache
  gw_job_alloc :: AtomicCounter
  gw_pending_templates :: "(u64 \<times> PendingTemplate) list"
  gw_pending_order :: "u64 list"
  gw_active_prev_hash :: "hash32 option"
  gw_last_template_received :: nat
  gw_stale_hold_deadline :: "nat option"
  gw_degraded :: bool
  gw_degraded_since :: "nat option"
  gw_unenforced_jobs :: u64
  gw_last_verifier_ack :: nat
  gw_verdict_starved :: StarvationClock
  gw_degrade_trigger :: "DegradeTrigger option"
  gw_job_table :: JobTable
  gw_latest_job :: "JobBroadcast option"
  gw_proposed :: "TemplatePropose list"
  gw_broadcasts :: "(TemplateResponse \<times> JobBroadcast) list"
  gw_transitions :: "ModeTransitionEvent list"
  gw_ready_degraded :: bool
  gw_draining :: bool
  gw_shutdown_sent :: bool
  gw_metrics :: gateway_metrics
  gw_event_rx :: "ShareAcceptedEvent list"
  gw_result_rx :: "ShareForwardResult list"
  gw_share_wal :: shared_wal
  gw_lines :: "share_line list"
  gw_channel_registry :: channel_registry

record gateway_env =
  ge_config :: GatewayConfig
  ge_hex :: hex_crate
  ge_wal_lib :: wal_lib

record gateway_clock =
  gk_now :: nat
  gk_unix_secs :: u32
  gk_unix_ms :: u64
  gk_outbound_open :: bool

definition from_millis :: "u64 \<Rightarrow> nat" where
  "from_millis ms = unat ms * 1000000"

definition elapsed_ms :: "nat \<Rightarrow> nat \<Rightarrow> u64" where
  "elapsed_ms since now = clamp_nat ((now - since) div 1000000)"

definition empty_metrics :: gateway_metrics where
  "empty_metrics = \<lparr>gm_templates_received_total = 0, gm_verdicts_total = (\<lambda>_. 0),
     gm_mode_transitions_total = (\<lambda>_. 0), gm_share_forward_total = (\<lambda>_. 0), gm_shares_total = (\<lambda>_. 0)\<rparr>"

definition gateway_init :: "gateway_env \<Rightarrow> nat \<Rightarrow> shared_wal \<Rightarrow> share_line list \<Rightarrow> gateway" where
  "gateway_init E now share_wal recovered =
     \<lparr>gw_dedup_cache = dedup_cache_new 256, gw_job_alloc = counter_new,
      gw_pending_templates = [], gw_pending_order = [], gw_active_prev_hash = None,
      gw_last_template_received = now, gw_stale_hold_deadline = None,
      gw_degraded = False, gw_degraded_since = None, gw_unenforced_jobs = 0,
      gw_last_verifier_ack = now, gw_verdict_starved = starvation_clock_new, gw_degrade_trigger = None,
      gw_job_table = job_table_new (gs_job_retention_ms (gc_gateway (ge_config E))) 10000,
      gw_latest_job = None, gw_proposed = [], gw_broadcasts = [], gw_transitions = [],
      gw_ready_degraded = False, gw_draining = False, gw_shutdown_sent = False,
      gw_metrics = empty_metrics, gw_event_rx = [], gw_result_rx = [],
      gw_share_wal = share_wal, gw_lines = recovered, gw_channel_registry = (\<lambda>_. None)\<rparr>"

section \<open>From a template to a job\<close>

definition is_prevhash_change :: "hex_crate \<Rightarrow> TemplateResponse \<Rightarrow> hash32 option \<Rightarrow> bool" where
  "is_prevhash_change X template active =
     (case active of
        None \<Rightarrow> True
      | Some active_hash \<Rightarrow>
          (case display_hex_to_wire_bytes X (tr_prev_hash template) of
             Ok wire \<Rightarrow> wire \<noteq> active_hash
           | Err _ \<Rightarrow> True))"

fun parse_merkle_path :: "hex_crate \<Rightarrow> string list \<Rightarrow> hash32 list option" where
  "parse_merkle_path X [] = Some []"
| "parse_merkle_path X (hex_str # hex_elements) =
     (case hex_decode X hex_str of
        Ok bs \<Rightarrow>
          if length bs = 32
          then (case parse_merkle_path X hex_elements of None \<Rightarrow> None | Some path \<Rightarrow> Some (bs # path))
          else None
      | Err _ \<Rightarrow> None)"

definition build_template_propose :: "TemplateResponse \<Rightarrow> string \<Rightarrow> TemplatePropose" where
  "build_template_propose template gateway_instance_id =
     \<lparr>tp_version = PROTOCOL_VERSION,
      tp_id = tr_template_id template,
      tp_block_height = tr_block_height template,
      tp_prev_hash = tr_prev_hash template,
      tp_coinbase_value = tr_coinbase_value template,
      tp_tx_count = tr_tx_count template,
      tp_total_fees = tr_total_fees template,
      tp_observed_weight = tr_observed_weight template,
      tp_created_at_unix_ms = Some (ucast (tr_curtime template) * 1000),
      tp_total_sigops = tr_total_sigops template,
      tp_coinbase_sigops = tr_coinbase_sigops template,
      tp_template_weight = tr_template_weight template,
      tp_gateway_instance_id = Some gateway_instance_id,
      tp_raw_block_hex = tr_raw_block_hex template\<rparr>"

definition job_record_for ::
  "gateway_clock \<Rightarrow> TemplateResponse \<Rightarrow> u32 \<Rightarrow> hash32 \<Rightarrow> hash32 list \<Rightarrow> bytes \<Rightarrow> bytes \<Rightarrow> u32 \<Rightarrow> bool \<Rightarrow> JobRecord" where
  "job_record_for c template job_id prev_hash_wire merkle_path coinbase_prefix coinbase_suffix activation is_new_prevhash =
     \<lparr>jr_job_id = job_id,
      jr_template_id = tr_template_id template,
      jr_block_height = tr_block_height template,
      jr_version = tr_block_version template,
      jr_prev_hash = prev_hash_wire,
      jr_nbits = tr_nbits template,
      jr_coinbase_tx_prefix = coinbase_prefix,
      jr_coinbase_tx_suffix = coinbase_suffix,
      jr_merkle_path = merkle_path,
      jr_activation_min_ntime = activation,
      jr_raw_min_ntime = tr_min_ntime template,
      jr_raw_curtime = tr_curtime template,
      jr_source_instance_id = tr_source_instance_id template,
      jr_activated = is_new_prevhash,
      jr_created_at = gk_now c\<rparr>"

definition job_broadcast_for :: "TemplateResponse \<Rightarrow> JobRecord \<Rightarrow> JobBroadcast" where
  "job_broadcast_for template job =
     \<lparr>jb_job_id = jr_job_id job,
      jb_version = tr_block_version template,
      jb_coinbase_tx_prefix = jr_coinbase_tx_prefix job,
      jb_coinbase_tx_suffix = jr_coinbase_tx_suffix job,
      jb_merkle_path = jr_merkle_path job,
      jb_prevhash_update =
        (if jr_activated job
         then Some \<lparr>pu_prev_hash = jr_prev_hash job, pu_min_ntime = jr_activation_min_ntime job,
                    pu_nbits = tr_nbits template\<rparr>
         else None),
      jb_min_ntime = (if jr_activated job then None else Some (jr_activation_min_ntime job))\<rparr>"

definition broadcast_job_from_template ::
  "hex_crate \<Rightarrow> gateway_clock \<Rightarrow> TemplateResponse \<Rightarrow> gateway \<Rightarrow> gateway" where
  "broadcast_job_from_template X c template st0 =
     (let (allocated, job_alloc) = job_id_allocate (gw_job_alloc st0);
          st = st0\<lparr>gw_job_alloc := job_alloc\<rparr>
      in case allocated of
        None \<Rightarrow> st
      | Some job_id \<Rightarrow>
          (case display_hex_to_wire_bytes X (tr_prev_hash template) of
             Err _ \<Rightarrow> st
           | Ok prev_hash_wire \<Rightarrow>
          (case parse_merkle_path X (tr_merkle_path template) of
             None \<Rightarrow> st
           | Some merkle_path \<Rightarrow>
          (case hex_decode X (tr_coinbase_tx_prefix template) of
             Err _ \<Rightarrow> st
           | Ok coinbase_prefix \<Rightarrow>
          (case hex_decode X (tr_coinbase_tx_suffix template) of
             Err _ \<Rightarrow> st
           | Ok coinbase_suffix \<Rightarrow>
               let activation = effective_min_ntime (tr_min_ntime template) (tr_curtime template) (gk_unix_secs c) 60;
                   is_new_prevhash = (gw_active_prev_hash st \<noteq> Some prev_hash_wire);
                   job = job_record_for c template job_id prev_hash_wire merkle_path coinbase_prefix coinbase_suffix
                           activation is_new_prevhash;
                   broadcast = job_broadcast_for template job
               in st\<lparr>gw_active_prev_hash := (if is_new_prevhash then Some prev_hash_wire else gw_active_prev_hash st),
                     gw_job_table := job_insert (gk_now c) job (gw_job_table st),
                     gw_latest_job := Some broadcast,
                     gw_broadcasts := gw_broadcasts st @ [(template, broadcast)]\<rparr>)))))"

section \<open>A template arrives\<close>

text \<open>The loop that makes room: it stops below two entries or at the end of the order queue.\<close>

fun evict_pending ::
  "string \<Rightarrow> u64 list \<Rightarrow> (u64 \<times> PendingTemplate) list \<Rightarrow> TemplateDedupCache
    \<Rightarrow> u64 list \<times> (u64 \<times> PendingTemplate) list \<times> TemplateDedupCache" where
  "evict_pending source_instance_id [] pending dedup = ([], pending, dedup)"
| "evict_pending source_instance_id (oldest_id # order) pending dedup =
     (if 2 \<le> length pending
      then (if map_of pending oldest_id \<noteq> None
            then evict_pending source_instance_id order (AList.delete oldest_id pending)
                   (dedup_cache_remove source_instance_id oldest_id dedup)
            else evict_pending source_instance_id order pending dedup)
      else (oldest_id # order, pending, dedup))"

definition hold_template :: "gateway_clock \<Rightarrow> TemplateResponse \<Rightarrow> gateway \<Rightarrow> gateway" where
  "hold_template c template st =
     (let pending_was_empty = (gw_pending_templates st = []);
          (order, pending, dedup) =
            evict_pending (tr_source_instance_id template) (gw_pending_order st)
              (gw_pending_templates st) (gw_dedup_cache st)
      in st\<lparr>gw_dedup_cache := dedup,
            gw_pending_order := order @ [tr_template_id template],
            gw_pending_templates := AList.update (tr_template_id template)
              \<lparr>pt_template = template, pt_received_at = gk_now c\<rparr> pending,
            gw_verdict_starved := on_enqueue pending_was_empty (gk_now c) (gw_verdict_starved st)\<rparr>)"

definition template_arm :: "gateway_env \<Rightarrow> gateway_clock \<Rightarrow> TemplateResponse \<Rightarrow> gateway \<Rightarrow> gateway" where
  "template_arm E c template st0 =
     (let (duplicate, dedup) = is_duplicate (tr_source_instance_id template) (tr_template_id template) (gw_dedup_cache st0);
          st1 = st0\<lparr>gw_last_template_received := gk_now c, gw_dedup_cache := dedup\<rparr>
      in if duplicate then st1
         else let propose = build_template_propose template (gs_gateway_instance_id (gc_gateway (ge_config E)));
                  st2 = st1\<lparr>gw_metrics := (gw_metrics st1)\<lparr>gm_templates_received_total :=
                                gm_templates_received_total (gw_metrics st1) + 1\<rparr>,
                            gw_proposed := (if gk_outbound_open c then gw_proposed st1 @ [propose]
                                            else gw_proposed st1)\<rparr>
           in if enforces_verdicts (gc_mode (ge_config E)) \<and> \<not> gw_degraded st2
              then hold_template c template st2
              else let st3 = broadcast_job_from_template (ge_hex E) c template st2
                in if gw_degraded st3 then st3\<lparr>gw_unenforced_jobs := gw_unenforced_jobs st3 + 1\<rparr> else st3)"

section \<open>A verdict or a heartbeat arrives\<close>

text \<open>The block the two arms share: the recovery event, and enforcement resumed.\<close>

definition count_transition :: "string \<Rightarrow> gateway_metrics \<Rightarrow> gateway_metrics" where
  "count_transition direction m =
     m\<lparr>gm_mode_transitions_total := (gm_mode_transitions_total m)(direction := gm_mode_transitions_total m direction + 1)\<rparr>"

definition resume_enforcement :: "gateway_clock \<Rightarrow> gateway \<Rightarrow> gateway" where
  "resume_enforcement c st =
     (let dur_ms = (case gw_degraded_since st of None \<Rightarrow> 0 | Some s \<Rightarrow> elapsed_ms s (gk_now c));
          recover_evt = \<lparr>mt_event_type = ''mode_transition'', mt_direction = ''recovered'',
            mt_timestamp_ms = gk_unix_ms c, mt_degraded_duration_ms = dur_ms,
            mt_unenforced_jobs = gw_unenforced_jobs st\<rparr>
      in st\<lparr>gw_transitions := gw_transitions st @ [recover_evt],
            gw_degraded := False, gw_degraded_since := None, gw_unenforced_jobs := 0,
            gw_degrade_trigger := None, gw_ready_degraded := False,
            gw_metrics := count_transition ''recovered'' (gw_metrics st)\<rparr>)"

definition settle_pending :: "gateway_env \<Rightarrow> gateway_clock \<Rightarrow> TemplateVerdict \<Rightarrow> gateway \<Rightarrow> gateway" where
  "settle_pending E c v st =
     (case map_of (gw_pending_templates st) (tv_id v) of
        None \<Rightarrow> st
      | Some pending \<Rightarrow>
          let st = st\<lparr>gw_pending_templates := AList.delete (tv_id v) (gw_pending_templates st),
                      gw_pending_order := filter (\<lambda>i. i \<noteq> tv_id v) (gw_pending_order st)\<rparr>
          in if tv_accepted v
             then broadcast_job_from_template (ge_hex E) c (pt_template pending) (st\<lparr>gw_stale_hold_deadline := None\<rparr>)
             else if gw_stale_hold_deadline st = None \<and>
                     is_prevhash_change (ge_hex E) (pt_template pending) (gw_active_prev_hash st)
             then st\<lparr>gw_stale_hold_deadline :=
                     Some (gk_now c + from_millis (gs_prevhash_stale_hold_ms (gc_gateway (ge_config E))))\<rparr>
             else st)"

definition verdict_arm :: "gateway_env \<Rightarrow> gateway_clock \<Rightarrow> TemplateVerdict \<Rightarrow> gateway \<Rightarrow> gateway" where
  "verdict_arm E c v st0 =
     (let st1 = st0\<lparr>gw_metrics := (gw_metrics st0)\<lparr>gm_verdicts_total :=
                  (gm_verdicts_total (gw_metrics st0))(tv_accepted v := gm_verdicts_total (gw_metrics st0) (tv_accepted v) + 1)\<rparr>\<rparr>;
          st2 = (if gw_degraded st1 \<and> gw_degrade_trigger st1 = Some VerdictStarved
                 then resume_enforcement c st1 else st1);
          st3 = (if enforces_verdicts (gc_mode (ge_config E)) then settle_pending E c v st2 else st2)
      in st3\<lparr>gw_verdict_starved := on_verdict (gw_pending_templates st3 = []) (gk_now c) (gw_verdict_starved st3)\<rparr>)"

definition heartbeat_arm :: "gateway_clock \<Rightarrow> gateway \<Rightarrow> gateway" where
  "heartbeat_arm c st0 =
     (let st = st0\<lparr>gw_last_verifier_ack := gk_now c\<rparr> in
      if gw_degraded st \<and> heartbeat_recovery_allowed (gw_degrade_trigger st)
      then (resume_enforcement c st)
             \<lparr>gw_stale_hold_deadline := None, gw_pending_templates := [], gw_pending_order := []\<rparr>
      else st)"

section \<open>Timers\<close>

definition sweep_stale_pending_templates :: "nat \<Rightarrow> nat \<Rightarrow> gateway \<Rightarrow> gateway" where
  "sweep_stale_pending_templates now max_age st =
     (let stale = (\<lambda>(tid, pt). now - pt_received_at pt > max_age);
          swept = map (\<lambda>(tid, pt). (tid, tr_source_instance_id (pt_template pt)))
                    (filter stale (gw_pending_templates st));
          pending = filter (\<lambda>e. \<not> stale e) (gw_pending_templates st)
      in if swept = [] then st\<lparr>gw_pending_templates := pending\<rparr>
         else st\<lparr>gw_pending_templates := pending,
                 gw_pending_order := filter (\<lambda>i. map_of pending i \<noteq> None) (gw_pending_order st),
                 gw_dedup_cache := fold (\<lambda>(tid, src). dedup_cache_remove src tid) swept (gw_dedup_cache st)\<rparr>)"

fun flush_pending :: "gateway_env \<Rightarrow> gateway_clock \<Rightarrow> u64 list \<Rightarrow> gateway \<Rightarrow> gateway" where
  "flush_pending E c [] st = st"
| "flush_pending E c (i # order) st =
     (case map_of (gw_pending_templates st) i of
        None \<Rightarrow> flush_pending E c order st
      | Some pt \<Rightarrow>
          let st' = broadcast_job_from_template (ge_hex E) c (pt_template pt)
                      (st\<lparr>gw_pending_templates := AList.delete i (gw_pending_templates st)\<rparr>)
          in flush_pending E c order (st'\<lparr>gw_unenforced_jobs := gw_unenforced_jobs st' + 1\<rparr>))"

definition current_trigger :: "gateway_env \<Rightarrow> gateway_clock \<Rightarrow> gateway \<Rightarrow> DegradeTrigger option" where
  "current_trigger E c st =
     (let oldest_pending_age =
            (case gw_pending_order st of
               [] \<Rightarrow> None
             | i # _ \<Rightarrow> map_option (\<lambda>pt. gk_now c - pt_received_at pt) (map_of (gw_pending_templates st) i));
          verdict_starved_elapsed =
            elapsed_while_outstanding (gw_pending_order st = []) (gk_now c) (gw_verdict_starved st)
      in degrade_trigger_for (gk_now c - gw_last_verifier_ack st) oldest_pending_age verdict_starved_elapsed
           (from_millis (gs_auto_degrade_after_ms (gc_gateway (ge_config E)))))"

definition auto_degrade_enabled :: "gateway_env \<Rightarrow> bool" where
  "auto_degrade_enabled E \<longleftrightarrow>
     gs_auto_degrade (gc_gateway (ge_config E)) \<and> enforces_verdicts (gc_mode (ge_config E))"

definition degrade_tick :: "gateway_env \<Rightarrow> gateway_clock \<Rightarrow> gateway \<Rightarrow> gateway" where
  "degrade_tick E c st0 =
     (let trigger = current_trigger E c st0 in
      if auto_degrade_enabled E \<and> \<not> gw_degraded st0 \<and> trigger \<noteq> None
      then let st1 = st0\<lparr>gw_degrade_trigger := trigger, gw_degraded := True, gw_degraded_since := Some (gk_now c),
                         gw_unenforced_jobs := 0, gw_ready_degraded := True, gw_pending_order := []\<rparr>;
               st2 = flush_pending E c (gw_pending_order st0) st1
           in st2\<lparr>gw_pending_templates := [], gw_stale_hold_deadline := None,
                  gw_verdict_starved := on_flush (gw_verdict_starved st2),
                  gw_metrics := count_transition ''degraded'' (gw_metrics st2),
                  gw_transitions := gw_transitions st2 @
                    [\<lparr>mt_event_type = ''mode_transition'', mt_direction = ''degraded'',
                      mt_timestamp_ms = gk_unix_ms c, mt_degraded_duration_ms = 0,
                      mt_unenforced_jobs = gw_unenforced_jobs st2\<rparr>]\<rparr>
      else st0)"

definition begin_shutdown :: "gateway \<Rightarrow> gateway" where
  "begin_shutdown st = st\<lparr>gw_draining := True, gw_shutdown_sent := True\<rparr>"

section \<open>Accounting\<close>

definition forward_label :: "ShareForwardResult \<Rightarrow> string" where
  "forward_label r = (if sf_forwarded r \<and> sf_upstream_accepted r = Some True then ''success'' else ''failed'')"

definition result_arm :: "gateway_env \<Rightarrow> batch_env \<Rightarrow> gateway \<Rightarrow> bool \<times> gateway" where
  "result_arm E be st =
     (case gw_result_rx st of
        [] \<Rightarrow> (True, st)
      | first_result # rx \<Rightarrow>
          let (results, rx', recorded, wal', lines) =
                record_forwarded (ge_wal_lib E) be rx first_result (gw_share_wal st) (gw_lines st);
              m = fold (\<lambda>r m. m\<lparr>gm_share_forward_total := (gm_share_forward_total m)
                    (forward_label r := gm_share_forward_total m (forward_label r) + 1)\<rparr>) results (gw_metrics st);
              st' = st\<lparr>gw_result_rx := rx', gw_share_wal := wal', gw_lines := lines, gw_metrics := m\<rparr>
          in if isl recorded then (False, begin_shutdown st') else (True, st'))"

definition share_label :: "ShareAcceptedEvent \<Rightarrow> string \<times> string" where
  "share_label evt =
     (if sa_sv2_response evt = ''success'' then ''accepted'' else ''rejected'',
      case sa_reason_code evt of None \<Rightarrow> ''ok'' | Some code \<Rightarrow> code)"

definition event_arm :: "gateway_env \<Rightarrow> batch_env \<Rightarrow> gateway \<Rightarrow> bool \<times> gateway" where
  "event_arm E be st =
     (case gw_event_rx st of
        [] \<Rightarrow> (True, st)
      | first_event # rx \<Rightarrow>
          let (events, rx', recorded, wal', lines) =
                record_accepted (ge_wal_lib E) be rx first_event (gw_share_wal st) (gw_lines st);
              m = fold (\<lambda>evt m. m\<lparr>gm_shares_total := (gm_shares_total m)
                    (share_label evt := gm_shares_total m (share_label evt) + 1)\<rparr>) events (gw_metrics st);
              registry = fold (\<lambda>evt. registry_update_share (be_now be) (sa_channel_id evt)
                    (sa_sv2_response evt = ''success'') (sa_difficulty_u64 evt)) events (gw_channel_registry st);
              st' = st\<lparr>gw_event_rx := rx', gw_share_wal := wal', gw_lines := lines, gw_metrics := m,
                       gw_channel_registry := registry\<rparr>
          in if isl recorded then (False, begin_shutdown st') else (True, st'))"

section \<open>One turn of the loop\<close>

datatype gateway_input =
    Template_received "TemplateResponse option"
  | Verdict_received TemplateVerdict
  | HeartbeatAck_received
  | Verdicts_lagged u64
  | Verdicts_closed
  | Results_received "ShareForwardResult list" batch_env
  | Events_received "ShareAcceptedEvent list" batch_env
  | Sweep_tick
  | Stale_hold_elapsed
  | Upstream_stale_tick
  | Degrade_tick
  | Stop_signal string

datatype gateway_exit =
    Template_channel_closed
  | Verdict_channel_closed
  | Wal_failed
  | Stale_hold_expired
  | Upstream_stale
  | Signalled string

fun gateway_step ::
  "gateway_env \<Rightarrow> gateway_clock \<Rightarrow> gateway_input \<Rightarrow> gateway \<Rightarrow> gateway_exit option \<times> gateway" where
  "gateway_step E c (Template_received None) st = (Some Template_channel_closed, st)"
| "gateway_step E c (Template_received (Some template)) st = (None, template_arm E c template st)"
| "gateway_step E c (Verdict_received v) st = (None, verdict_arm E c v st)"
| "gateway_step E c HeartbeatAck_received st = (None, heartbeat_arm c st)"
| "gateway_step E c (Verdicts_lagged n) st = (None, st)"
| "gateway_step E c Verdicts_closed st = (Some Verdict_channel_closed, st)"
| "gateway_step E c (Results_received new be) st =
     (let (ok, st') = result_arm E be (st\<lparr>gw_result_rx := gw_result_rx st @ new\<rparr>)
      in (if ok then None else Some Wal_failed, st'))"
| "gateway_step E c (Events_received new be) st =
     (let (ok, st') = event_arm E be (st\<lparr>gw_event_rx := gw_event_rx st @ new\<rparr>)
      in (if ok then None else Some Wal_failed, st'))"
| "gateway_step E c Sweep_tick st =
     (None, sweep_stale_pending_templates (gk_now c)
        (from_millis (gs_max_template_age_ms (gc_gateway (ge_config E)))) st)"
| "gateway_step E c Stale_hold_elapsed st =
     (if gw_degraded st then (None, st\<lparr>gw_stale_hold_deadline := None\<rparr>)
      else (Some Stale_hold_expired, begin_shutdown st))"
| "gateway_step E c Upstream_stale_tick st =
     (if gk_now c - gw_last_template_received st > from_millis (gs_upstream_stale_max_ms (gc_gateway (ge_config E)))
      then (case gs_upstream_failure_policy (gc_gateway (ge_config E)) of
              FailClosed \<Rightarrow> (Some Upstream_stale, begin_shutdown st)
            | FailOpen \<Rightarrow> (None, st))
      else (None, st))"
| "gateway_step E c Degrade_tick st = (None, degrade_tick E c st)"
| "gateway_step E c (Stop_signal name) st = (Some (Signalled name), begin_shutdown st)"

text \<open>The arm of the stale hold is armed only once its deadline has come; the others at any time.\<close>

fun input_enabled :: "gateway_clock \<Rightarrow> gateway_input \<Rightarrow> gateway \<Rightarrow> bool" where
  "input_enabled c Stale_hold_elapsed st \<longleftrightarrow>
     (case gw_stale_hold_deadline st of None \<Rightarrow> False | Some deadline \<Rightarrow> deadline \<le> gk_now c)"
| "input_enabled c _ st \<longleftrightarrow> True"

section \<open>The loop and what follows it\<close>

text \<open>
  \<open>gateway_loop\<close> runs the loop on a list of turns: the exit and the state it leaves, or \<open>None\<close> while
  it still runs. After the loop the accounting queues are drained, unless the log failed.
\<close>

fun gateway_loop ::
  "gateway_env \<Rightarrow> (gateway_clock \<times> gateway_input) list \<Rightarrow> gateway \<Rightarrow> gateway_exit option \<times> gateway" where
  "gateway_loop E [] st = (None, st)"
| "gateway_loop E ((c, i) # turns) st =
     (case gateway_step E c i st of
        (None, st') \<Rightarrow> gateway_loop E turns st'
      | (Some x, st') \<Rightarrow> (Some x, st'))"

datatype ExitCode = SUCCESS | FAILURE

definition gateway_finish ::
  "gateway_env \<Rightarrow> drain_pass list \<Rightarrow> gateway_exit \<Rightarrow> gateway \<Rightarrow> (ExitCode \<times> gateway) option" where
  "gateway_finish E passes x st =
     (if x = Wal_failed then Some (FAILURE, st)
      else let st = begin_shutdown st in
        (case drain_on_stop (ge_wal_lib E) passes
           \<lparr>ds_events = gw_event_rx st, ds_results = gw_result_rx st, ds_wal = gw_share_wal st,
            ds_emitted = gw_lines st, ds_drained_events = 0, ds_drained_results = 0\<rparr> of
           None \<Rightarrow> None
         | Some (drained, d) \<Rightarrow>
             Some (if isl drained then FAILURE else SUCCESS,
               st\<lparr>gw_event_rx := ds_events d, gw_result_rx := ds_results d, gw_share_wal := ds_wal d,
                  gw_lines := ds_emitted d\<rparr>)))"

definition trace_time :: "nat \<Rightarrow> (gateway_clock \<times> gateway_input) list \<Rightarrow> nat" where
  "trace_time t0 tr = (if tr = [] then t0 else gk_now (fst (last tr)))"

text \<open>The runs of the loop that have not ended, with the turns so far; clocks do not go back.\<close>

inductive gateway_run ::
  "gateway_env \<Rightarrow> nat \<Rightarrow> gateway \<Rightarrow> (gateway_clock \<times> gateway_input) list \<Rightarrow> gateway \<Rightarrow> bool" for E t0 st0 where
  started: "gateway_run E t0 st0 [] st0"
| turn: "gateway_run E t0 st0 tr st \<Longrightarrow> input_enabled c i st \<Longrightarrow> trace_time t0 tr \<le> gk_now c \<Longrightarrow>
    gateway_step E c i st = (None, st') \<Longrightarrow> gateway_run E t0 st0 (tr @ [(c, i)]) st'"

section \<open>What a broadcast does\<close>

text \<open>The parts of a template that have to decode for a job to be made from it.\<close>

definition usable_template :: "hex_crate \<Rightarrow> TemplateResponse \<Rightarrow> bool" where
  "usable_template X t \<longleftrightarrow>
     \<not> isl (display_hex_to_wire_bytes X (tr_prev_hash t)) \<and> parse_merkle_path X (tr_merkle_path t) \<noteq> None \<and>
     \<not> isl (hex_decode X (tr_coinbase_tx_prefix t)) \<and> \<not> isl (hex_decode X (tr_coinbase_tx_suffix t))"

definition job_matches :: "hex_crate \<Rightarrow> TemplateResponse \<Rightarrow> JobBroadcast \<Rightarrow> bool" where
  "job_matches X t jb \<longleftrightarrow>
     jb_version jb = tr_block_version t \<and>
     hex_decode X (tr_coinbase_tx_prefix t) = Ok (jb_coinbase_tx_prefix jb) \<and>
     hex_decode X (tr_coinbase_tx_suffix t) = Ok (jb_coinbase_tx_suffix jb) \<and>
     parse_merkle_path X (tr_merkle_path t) = Some (jb_merkle_path jb)"

lemma broadcast_frame [simp]:
  "gw_dedup_cache (broadcast_job_from_template X c t st) = gw_dedup_cache st"
  "gw_pending_templates (broadcast_job_from_template X c t st) = gw_pending_templates st"
  "gw_pending_order (broadcast_job_from_template X c t st) = gw_pending_order st"
  "gw_last_template_received (broadcast_job_from_template X c t st) = gw_last_template_received st"
  "gw_stale_hold_deadline (broadcast_job_from_template X c t st) = gw_stale_hold_deadline st"
  "gw_degraded (broadcast_job_from_template X c t st) = gw_degraded st"
  "gw_degraded_since (broadcast_job_from_template X c t st) = gw_degraded_since st"
  "gw_unenforced_jobs (broadcast_job_from_template X c t st) = gw_unenforced_jobs st"
  "gw_last_verifier_ack (broadcast_job_from_template X c t st) = gw_last_verifier_ack st"
  "gw_verdict_starved (broadcast_job_from_template X c t st) = gw_verdict_starved st"
  "gw_degrade_trigger (broadcast_job_from_template X c t st) = gw_degrade_trigger st"
  "gw_proposed (broadcast_job_from_template X c t st) = gw_proposed st"
  "gw_transitions (broadcast_job_from_template X c t st) = gw_transitions st"
  "gw_ready_degraded (broadcast_job_from_template X c t st) = gw_ready_degraded st"
  by (simp_all add: broadcast_job_from_template_def Let_def split: prod.split option.split sum.split)

lemma broadcast_refused:
  assumes "fst (job_id_allocate (gw_job_alloc st)) = None \<or> \<not> usable_template X t"
  shows "broadcast_job_from_template X c t st = st\<lparr>gw_job_alloc := snd (job_id_allocate (gw_job_alloc st))\<rparr>"
  using assms
  by (auto simp: broadcast_job_from_template_def usable_template_def split_beta Let_def split: option.splits sum.splits)

lemma broadcast_issued:
  assumes "fst (job_id_allocate (gw_job_alloc st)) = Some k" and "usable_template X t"
  obtains p job where
    "broadcast_job_from_template X c t st =
       st\<lparr>gw_job_alloc := snd (job_id_allocate (gw_job_alloc st)), gw_active_prev_hash := Some p,
          gw_job_table := job_insert (gk_now c) job (gw_job_table st),
          gw_latest_job := Some (job_broadcast_for t job),
          gw_broadcasts := gw_broadcasts st @ [(t, job_broadcast_for t job)]\<rparr>"
    "job_matches X t (job_broadcast_for t job)" "jr_job_id job = k" "jr_template_id job = tr_template_id t"
    "display_hex_to_wire_bytes X (tr_prev_hash t) = Ok p" "jr_prev_hash job = p"
    "jr_activated job \<longleftrightarrow> gw_active_prev_hash st \<noteq> Some p"
proof -
  obtain p path pre suf where
    parts: "display_hex_to_wire_bytes X (tr_prev_hash t) = Ok p" "parse_merkle_path X (tr_merkle_path t) = Some path"
      "hex_decode X (tr_coinbase_tx_prefix t) = Ok pre" "hex_decode X (tr_coinbase_tx_suffix t) = Ok suf"
    using assms(2) by (auto simp: usable_template_def isl_def) (metis sum.exhaust_sel)
  let ?job = "job_record_for c t k p path pre suf
    (effective_min_ntime (tr_min_ntime t) (tr_curtime t) (gk_unix_secs c) 60) (gw_active_prev_hash st \<noteq> Some p)"
  show thesis
  proof (rule that [of ?job p])
    show "broadcast_job_from_template X c t st =
       st\<lparr>gw_job_alloc := snd (job_id_allocate (gw_job_alloc st)), gw_active_prev_hash := Some p,
          gw_job_table := job_insert (gk_now c) ?job (gw_job_table st),
          gw_latest_job := Some (job_broadcast_for t ?job),
          gw_broadcasts := gw_broadcasts st @ [(t, job_broadcast_for t ?job)]\<rparr>"
      using assms(1) parts by (simp add: broadcast_job_from_template_def split_beta Let_def)
  qed (use parts in \<open>simp_all add: job_matches_def job_broadcast_for_def job_record_for_def\<close>)
qed

lemma broadcast_grows:
  obtains new where "gw_broadcasts (broadcast_job_from_template X c t st) = gw_broadcasts st @ new"
    "\<forall>(u, jb) \<in> set new. u = t \<and> job_matches X t jb" "length new \<le> 1"
    "new = [] \<longleftrightarrow> fst (job_id_allocate (gw_job_alloc st)) = None \<or> \<not> usable_template X t"
proof (cases "fst (job_id_allocate (gw_job_alloc st)) = None \<or> \<not> usable_template X t")
  case True
  then show thesis using that [of "[]"] by (simp add: broadcast_refused)
next
  case False
  then obtain k where "fst (job_id_allocate (gw_job_alloc st)) = Some k" "usable_template X t" by auto
  then obtain jb where "gw_broadcasts (broadcast_job_from_template X c t st) = gw_broadcasts st @ [(t, jb)]" "job_matches X t jb"
    by (rule broadcast_issued [of st k X t c]) auto
  then show thesis using that [of "[(t, jb)]"] False by auto
qed

section \<open>The pending set\<close>

definition keys :: "('k \<times> 'v) list \<Rightarrow> 'k set" where
  "keys m = fst ` set m"

lemma keys_simps [simp]:
  "keys [] = {}" "keys (AList.update k v m) = insert k (keys m)" "keys (AList.delete k m) = keys m - {k}"
  by (auto simp: keys_def dom_map_of_conv_image_fst [symmetric] AList.update_conv' AList.delete_conv' split: if_splits)

lemma keys_map_of: "k \<in> keys m \<longleftrightarrow> map_of m k \<noteq> None"
  by (simp add: keys_def map_of_eq_None_iff)

lemma keys_filter: "keys (filter P m) \<subseteq> keys m"
  by (auto simp: keys_def)

lemma length_delete_key:
  assumes "distinct (map fst m)" and "k \<in> keys m"
  shows "length (AList.delete k m) = length m - 1"
proof -
  have "card (keys (AList.delete k m)) = card (keys m - {k})" by simp
  moreover have "distinct (map fst (AList.delete k m))" using assms(1) by (rule AList.distinct_delete)
  ultimately show ?thesis
    using assms distinct_card [of "map fst m"] distinct_card [of "map fst (AList.delete k m)"]
    by (simp add: keys_def)
qed

lemma length_update: "length (AList.update k v m) \<le> Suc (length m)"
  by (induction m) auto

lemma set_update: "set (AList.update k v m) \<subseteq> insert (k, v) (set m)"
  by (induction m) auto

lemma set_update_distinct:
  "distinct (map fst m) \<Longrightarrow> e \<in> set (AList.update k v m) \<Longrightarrow> e = (k, v) \<or> e \<in> set m \<and> fst e \<noteq> k"
  by (induction m) (auto split: if_splits simp: rev_image_eqI)

text \<open>
  Every pending template is under its own identifier and in the order queue, at most two are held,
  and none while the gateway does not enforce.
\<close>

definition pending_inv :: "(u64 \<times> PendingTemplate) list \<Rightarrow> u64 list \<Rightarrow> bool" where
  "pending_inv pending order \<longleftrightarrow>
     distinct (map fst pending) \<and> length pending \<le> 2 \<and> keys pending \<subseteq> set order \<and>
     (\<forall>(i, pt) \<in> set pending. tr_template_id (pt_template pt) = i)"

lemma pending_inv_Nil [simp]: "pending_inv [] order"
  by (simp add: pending_inv_def)

lemma pending_inv_filter:
  assumes "pending_inv pending order" and "keys (filter P pending) \<subseteq> set order'"
  shows "pending_inv (filter P pending) order'"
  using assms le_trans [OF length_filter_le, of pending 2 P]
  by (auto simp: pending_inv_def distinct_map_filter)

lemma pending_inv_delete:
  assumes "pending_inv pending order" and "keys pending - {i} \<subseteq> set order'"
  shows "pending_inv (AList.delete i pending) order'"
proof -
  have "keys (filter (\<lambda>(k, _). i \<noteq> k) pending) \<subseteq> set order'"
    using assms(2) by (auto simp: keys_def)
  then show ?thesis using pending_inv_filter [OF assms(1)] by (simp add: AList.delete_eq)
qed

lemma evict_pending_spec:
  assumes "evict_pending src order pending dedup = (order', pending', dedup')" and "pending_inv pending order"
  shows "pending_inv pending' order' \<and> length pending' \<le> 1 \<and> set pending' \<subseteq> set pending \<and>
    (\<exists>gone. dedup' = fold (dedup_cache_remove src) gone dedup \<and> set gone = keys pending - keys pending')"
  using assms
proof (induction src order pending dedup arbitrary: order' pending' dedup' rule: evict_pending.induct)
  case (1 src pending dedup)
  then have "pending = []" by (simp add: pending_inv_def keys_def)
  then show ?case using 1 by (auto intro: exI [of _ "[]"])
next
  case (2 src oldest order pending dedup)
  consider (room) "length pending < 2"
    | (evict) "2 \<le> length pending" "oldest \<in> keys pending"
    | (skip) "2 \<le> length pending" "oldest \<notin> keys pending"
    by linarith
  then show ?case
  proof cases
    case room
    then show ?thesis using "2.prems" by (auto intro: exI [of _ "[]"])
  next
    case evict
    let ?p = "AList.delete oldest pending"
    have "keys pending - {oldest} \<subseteq> set order" using "2.prems"(2) by (auto simp: pending_inv_def)
    then have inv: "pending_inv ?p order" by (rule pending_inv_delete [OF "2.prems"(2)])
    have "evict_pending src order ?p (dedup_cache_remove src oldest dedup) = (order', pending', dedup')"
      using "2.prems"(1) evict by (simp add: keys_map_of)
    from "2.IH"(1) [OF evict(1) _ this inv] evict(2) obtain gone where
      "pending_inv pending' order'" "length pending' \<le> 1" "set pending' \<subseteq> set ?p"
      "dedup' = fold (dedup_cache_remove src) gone (dedup_cache_remove src oldest dedup)" "set gone = keys ?p - keys pending'"
      by (auto simp: keys_map_of)
    moreover from this(3) have "oldest \<notin> keys pending'" by (auto simp: keys_def AList.delete_eq)
    moreover have "set ?p \<subseteq> set pending" by (auto simp: AList.delete_eq)
    ultimately show ?thesis using evict(2)
      by (intro conjI exI [of _ "oldest # gone"]) auto
  next
    case skip
    have inv: "pending_inv pending order" using "2.prems"(2) skip(2) by (auto simp: pending_inv_def)
    show ?thesis using "2.IH"(2) [OF skip(1) _ _ inv] "2.prems"(1) skip by (simp add: keys_map_of)
  qed
qed

lemma pending_inv_insert:
  assumes "pending_inv pending order" and "length pending \<le> 1" and "tr_template_id t = i"
  shows "pending_inv (AList.update i \<lparr>pt_template = t, pt_received_at = now\<rparr> pending) (order @ [i])"
  using assms length_update [of i "\<lparr>pt_template = t, pt_received_at = now\<rparr>" pending]
    set_update [of i "\<lparr>pt_template = t, pt_received_at = now\<rparr>" pending]
  by (fastforce simp: pending_inv_def AList.distinct_update)

section \<open>The invariant of the loop\<close>

definition gateway_inv :: "gateway_env \<Rightarrow> gateway \<Rightarrow> bool" where
  "gateway_inv E st \<longleftrightarrow>
     pending_inv (gw_pending_templates st) (gw_pending_order st) \<and>
     (gw_degraded st \<or> \<not> enforces_verdicts (gc_mode (ge_config E)) \<longrightarrow>
        gw_pending_templates st = [] \<and> gw_pending_order st = [] \<and> gw_stale_hold_deadline st = None) \<and>
     (gw_degrade_trigger st \<noteq> None \<longleftrightarrow> gw_degraded st) \<and>
     (gw_degraded_since st \<noteq> None \<longleftrightarrow> gw_degraded st) \<and>
     gw_ready_degraded st = gw_degraded st \<and>
     (gw_degraded st \<longrightarrow> auto_degrade_enabled E) \<and>
     (gw_pending_templates st \<noteq> [] \<longrightarrow> gw_verdict_starved st \<noteq> None) \<and>
     (gw_pending_templates st = [] \<longrightarrow> gw_pending_order st = [] \<or> gw_verdict_starved st = None) \<and>
     dedup_cache_inv (gw_dedup_cache st) \<and> job_table_inv (gw_job_table st)"

lemma gateway_inv_init: "gateway_inv E (gateway_init E now w ls)"
  by (simp add: gateway_inv_def gateway_init_def dedup_cache_inv_def dedup_cache_new_def)

lemma dedup_cache_inv_remove [simp]:
  assumes "dedup_cache_inv c"
  shows "dedup_cache_inv (dedup_cache_remove s i c)"
proof -
  have "card (dc_seen c - {(s, i)}) \<le> card (dc_seen c)" by (rule card_Diff1_le)
  then show ?thesis using assms by (auto simp: dedup_cache_inv_def dedup_cache_remove_def)
qed

lemma dedup_cache_inv_removes:
  "dedup_cache_inv c \<Longrightarrow> dedup_cache_inv (fold (dedup_cache_remove s) is c)"
  "dedup_cache_inv c \<Longrightarrow> dedup_cache_inv (fold (\<lambda>(i, s). dedup_cache_remove s i) es c)"
  by (induction "is" arbitrary: c) (auto, induction es arbitrary: c, auto)

lemma job_table_inv_broadcast [simp]:
  assumes "job_table_inv (gw_job_table st)"
  shows "job_table_inv (gw_job_table (broadcast_job_from_template X c t st))"
proof (cases "fst (job_id_allocate (gw_job_alloc st)) = None \<or> \<not> usable_template X t")
  case True
  then show ?thesis using assms by (simp add: broadcast_refused)
next
  case False
  then obtain k where "fst (job_id_allocate (gw_job_alloc st)) = Some k" "usable_template X t" by auto
  then show ?thesis by (rule broadcast_issued [of st k X t c]) (simp add: assms job_table_inv_insert)
qed

lemma gateway_inv_broadcast [simp]:
  "gateway_inv E (broadcast_job_from_template X c t st) \<longleftrightarrow>
     gateway_inv E (st\<lparr>gw_job_table := gw_job_table (broadcast_job_from_template X c t st)\<rparr>)"
  by (simp add: gateway_inv_def)

lemma gateway_inv_hold:
  assumes inv: "gateway_inv E st" and "enforces_verdicts (gc_mode (ge_config E))" and "\<not> gw_degraded st"
  shows "gateway_inv E (hold_template c t st)"
proof -
  obtain order pending dedup where ev:
    "evict_pending (tr_source_instance_id t) (gw_pending_order st) (gw_pending_templates st) (gw_dedup_cache st)
      = (order, pending, dedup)" by (metis prod_cases3)
  have "pending_inv (gw_pending_templates st) (gw_pending_order st)" using inv by (simp add: gateway_inv_def)
  from evict_pending_spec [OF ev this] have "pending_inv pending order" "length pending \<le> 1"
    and "dedup_cache_inv (gw_dedup_cache st) \<Longrightarrow> dedup_cache_inv dedup"
    using dedup_cache_inv_removes(1) by auto
  then show ?thesis using inv assms(2,3) pending_inv_insert [of pending order t _ "gk_now c"]
    by (auto simp: gateway_inv_def hold_template_def ev on_enqueue_def)
qed

lemma gateway_inv_template:
  assumes "gateway_inv E st"
  shows "gateway_inv E (template_arm E c t st)"
proof -
  let ?d = "snd (is_duplicate (tr_source_instance_id t) (tr_template_id t) (gw_dedup_cache st))"
  have d: "dedup_cache_inv ?d" using assms is_duplicate_inv by (auto simp: gateway_inv_def)
  have "gateway_inv E (st\<lparr>gw_last_template_received := n, gw_dedup_cache := ?d, gw_metrics := m, gw_proposed := ps\<rparr>)"
    "gateway_inv E (st\<lparr>gw_last_template_received := n, gw_dedup_cache := ?d\<rparr>)" for n m ps
    using assms d by (simp_all add: gateway_inv_def)
  then show ?thesis
    by (auto simp: template_arm_def split_beta Let_def gateway_inv_hold) (auto simp: gateway_inv_def)
qed

lemma gateway_inv_resume:
  "gateway_inv E st \<Longrightarrow> gateway_inv E (resume_enforcement c st)"
  by (auto simp: gateway_inv_def resume_enforcement_def Let_def)

lemma gateway_inv_settle:
  assumes "gateway_inv E st" and "enforces_verdicts (gc_mode (ge_config E))"
  shows "gateway_inv E ((settle_pending E c v st)
     \<lparr>gw_verdict_starved := on_verdict (gw_pending_templates (settle_pending E c v st) = []) now clk\<rparr>)"
proof (cases "map_of (gw_pending_templates st) (tv_id v)")
  case None
  then show ?thesis using assms by (simp add: settle_pending_def gateway_inv_def on_verdict_def)
next
  case (Some pt)
  then have "gw_pending_templates st \<noteq> []" by auto
  then have run: "\<not> gw_degraded st" using assms(1) by (auto simp: gateway_inv_def)
  have "pending_inv (AList.delete (tv_id v) (gw_pending_templates st)) (filter (\<lambda>i. i \<noteq> tv_id v) (gw_pending_order st))"
    using assms(1) by (intro pending_inv_delete [of _ "gw_pending_order st"]) (auto simp: gateway_inv_def pending_inv_def)
  then show ?thesis using assms run Some
    by (auto simp: settle_pending_def gateway_inv_def on_verdict_def Let_def)
qed

lemma gateway_inv_clock:
  "gateway_inv E st \<Longrightarrow> gw_pending_templates st = [] \<Longrightarrow>
     gateway_inv E (st\<lparr>gw_verdict_starved := on_verdict True now clk\<rparr>)"
  by (simp add: gateway_inv_def on_verdict_def)

lemma gateway_inv_verdict:
  assumes "gateway_inv E st"
  shows "gateway_inv E (verdict_arm E c v st)"
proof -
  let ?st1 = "st\<lparr>gw_metrics := (gw_metrics st)\<lparr>gm_verdicts_total := (gm_verdicts_total (gw_metrics st))
    (tv_accepted v := gm_verdicts_total (gw_metrics st) (tv_accepted v) + 1)\<rparr>\<rparr>"
  let ?st2 = "if gw_degraded ?st1 \<and> gw_degrade_trigger ?st1 = Some VerdictStarved then resume_enforcement c ?st1 else ?st1"
  have st1: "gateway_inv E ?st1" using assms by (simp add: gateway_inv_def)
  have st2: "gateway_inv E ?st2" using st1 gateway_inv_resume [OF st1] by simp
  show ?thesis
  proof (cases "enforces_verdicts (gc_mode (ge_config E))")
    case True
    then show ?thesis using gateway_inv_settle [OF st2 True] by (simp add: verdict_arm_def Let_def)
  next
    case False
    then have "gw_pending_templates ?st2 = []" using st2 by (simp add: gateway_inv_def)
    then show ?thesis using False gateway_inv_clock [OF st2] by (simp add: verdict_arm_def Let_def)
  qed
qed

lemma gateway_inv_heartbeat:
  "gateway_inv E st \<Longrightarrow> gateway_inv E (heartbeat_arm c st)"
  by (auto simp: gateway_inv_def heartbeat_arm_def resume_enforcement_def Let_def)

lemma gateway_inv_sweep:
  assumes "gateway_inv E st"
  shows "gateway_inv E (sweep_stale_pending_templates now age st)"
proof -
  let ?stale = "\<lambda>(tid, pt). now - pt_received_at pt > age"
  let ?pending = "filter (\<lambda>e. \<not> ?stale e) (gw_pending_templates st)"
  have inv: "pending_inv (gw_pending_templates st) (gw_pending_order st)" using assms by (simp add: gateway_inv_def)
  show ?thesis
  proof (cases "filter ?stale (gw_pending_templates st) = []")
    case True
    then have "?pending = gw_pending_templates st" by (auto simp: filter_empty_conv filter_id_conv)
    then have "sweep_stale_pending_templates now age st = st"
      using True by (simp add: sweep_stale_pending_templates_def Let_def)
    then show ?thesis using assms by simp
  next
    case False
    let ?order = "filter (\<lambda>i. map_of ?pending i \<noteq> None) (gw_pending_order st)"
    have "keys ?pending \<subseteq> set (gw_pending_order st)"
      using inv keys_filter by (fastforce simp: pending_inv_def)
    then have pinv: "pending_inv ?pending ?order"
      by (intro pending_inv_filter [OF inv]) (auto simp: keys_map_of)
    have "?pending = [] \<longrightarrow> ?order = []" by simp
    moreover have "gw_pending_templates st = [] \<longrightarrow> ?pending = [] \<and> ?order = []" by simp
    moreover have "gw_pending_order st = [] \<longrightarrow> ?order = []" by simp
    ultimately show ?thesis using False pinv assms dedup_cache_inv_removes(2)
      unfolding gateway_inv_def sweep_stale_pending_templates_def Let_def by (auto simp del: filter_filter)
  qed
qed

lemma flush_pending_frame [simp]:
  "gw_dedup_cache (flush_pending E c order st) = gw_dedup_cache st"
  "gw_pending_order (flush_pending E c order st) = gw_pending_order st"
  "gw_degraded (flush_pending E c order st) = gw_degraded st"
  "gw_degraded_since (flush_pending E c order st) = gw_degraded_since st"
  "gw_degrade_trigger (flush_pending E c order st) = gw_degrade_trigger st"
  "gw_ready_degraded (flush_pending E c order st) = gw_ready_degraded st"
  "gw_transitions (flush_pending E c order st) = gw_transitions st"
  by (induction E c order st rule: flush_pending.induct) (simp_all add: Let_def split: option.split)

lemma job_table_inv_flush:
  "job_table_inv (gw_job_table st) \<Longrightarrow> job_table_inv (gw_job_table (flush_pending E c order st))"
  by (induction E c order st rule: flush_pending.induct) (simp_all add: Let_def split: option.split)

lemma gateway_inv_degrade:
  "gateway_inv E st \<Longrightarrow> gateway_inv E (degrade_tick E c st)"
  by (simp add: gateway_inv_def degrade_tick_def Let_def job_table_inv_flush)

text \<open>The accounting arms touch none of the fields the other arms decide on.\<close>

lemma gateway_inv_result: "gateway_inv E (snd (result_arm E be st)) = gateway_inv E st"
  by (simp add: gateway_inv_def result_arm_def begin_shutdown_def split_beta Let_def split: list.split)

lemma gateway_inv_event: "gateway_inv E (snd (event_arm E be st)) = gateway_inv E st"
  by (simp add: gateway_inv_def event_arm_def begin_shutdown_def split_beta Let_def split: list.split)

lemma gateway_inv_step:
  assumes "gateway_inv E st"
  shows "gateway_inv E (snd (gateway_step E c i st))"
proof (cases "(E, c, i, st)" rule: gateway_step.cases)
  case (7 E' c' new be st')
  have "gateway_inv E (st\<lparr>gw_result_rx := gw_result_rx st @ new\<rparr>)" using assms by (simp add: gateway_inv_def)
  then show ?thesis using 7 by (simp add: split_beta gateway_inv_result)
next
  case (8 E' c' new be st')
  have "gateway_inv E (st\<lparr>gw_event_rx := gw_event_rx st @ new\<rparr>)" using assms by (simp add: gateway_inv_def)
  then show ?thesis using 8 by (simp add: split_beta gateway_inv_event)
qed (use assms in \<open>auto simp: gateway_inv_template gateway_inv_verdict gateway_inv_heartbeat gateway_inv_sweep
       gateway_inv_degrade begin_shutdown_def split: UpstreamFailurePolicy.split\<close>, auto simp: gateway_inv_def)

lemma gateway_run_inv:
  assumes "gateway_run E t0 (gateway_init E t0 w ls) tr st"
  shows "gateway_inv E st"
  using assms
proof (induction rule: gateway_run.induct)
  case (turn tr st c i st')
  then show ?case using gateway_inv_step [of E st c i] by simp
qed (rule gateway_inv_init)

end
