(* ===== verification/RG_Gating.thy ===== *)
theory RG_Gating
  imports RG_Gateway
begin

text \<open>
  What the event loop of \<open>RG_Gateway\<close> guarantees over whole runs: which jobs reach the miners while
  verdicts are enforced, that no template is silently lost, when the gateway degrades and when it
  recovers, and what the miners know of the chain tip.
\<close>

section \<open>Steps\<close>

lemma flush_grows:
  obtains new where "gw_broadcasts (flush_pending E c order st) = gw_broadcasts st @ new"
    "\<forall>(t, jb) \<in> set new. job_matches (ge_hex E) t jb"
proof -
  have "\<exists>new. gw_broadcasts (flush_pending E c order st) = gw_broadcasts st @ new \<and>
      (\<forall>(t, jb) \<in> set new. job_matches (ge_hex E) t jb)"
  proof (induction E c order st rule: flush_pending.induct)
    case (2 E c i order st)
    show ?case
    proof (cases "map_of (gw_pending_templates st) i")
      case (Some pt)
      let ?st = "st\<lparr>gw_pending_templates := AList.delete i (gw_pending_templates st)\<rparr>"
      obtain new1 where "gw_broadcasts (broadcast_job_from_template (ge_hex E) c (pt_template pt) ?st) = gw_broadcasts ?st @ new1"
        "\<forall>(t, jb) \<in> set new1. t = pt_template pt \<and> job_matches (ge_hex E) (pt_template pt) jb"
        by (rule broadcast_grows [of "ge_hex E" c "pt_template pt" ?st])
      then show ?thesis using 2(2) [OF Some refl] Some by (fastforce simp: Let_def)
    qed (use 2(1) in simp)
  qed simp
  then show thesis using that by blast
qed

lemma accounting_arms_frame [simp]:
  "gw_broadcasts (snd (result_arm E be st)) = gw_broadcasts st"
  "gw_broadcasts (snd (event_arm E be st)) = gw_broadcasts st"
  "gw_pending_templates (snd (result_arm E be st)) = gw_pending_templates st"
  "gw_pending_templates (snd (event_arm E be st)) = gw_pending_templates st"
  "gw_proposed (snd (result_arm E be st)) = gw_proposed st"
  "gw_proposed (snd (event_arm E be st)) = gw_proposed st"
  "gw_dedup_cache (snd (result_arm E be st)) = gw_dedup_cache st"
  "gw_dedup_cache (snd (event_arm E be st)) = gw_dedup_cache st"
  "gw_verdict_starved (snd (result_arm E be st)) = gw_verdict_starved st"
  "gw_verdict_starved (snd (event_arm E be st)) = gw_verdict_starved st"
  "gw_degraded (snd (result_arm E be st)) = gw_degraded st"
  "gw_degraded (snd (event_arm E be st)) = gw_degraded st"
  "gw_degrade_trigger (snd (result_arm E be st)) = gw_degrade_trigger st"
  "gw_degrade_trigger (snd (event_arm E be st)) = gw_degrade_trigger st"
  by (simp_all add: result_arm_def event_arm_def begin_shutdown_def split_beta Let_def split: list.split)

text \<open>Where a turn's new jobs come from.\<close>

definition job_cause :: "gateway_env \<Rightarrow> gateway_input \<Rightarrow> gateway \<Rightarrow> gateway \<Rightarrow> TemplateResponse \<Rightarrow> bool" where
  "job_cause E i st st' t \<longleftrightarrow>
     gw_degraded st' \<or> \<not> enforces_verdicts (gc_mode (ge_config E)) \<or>
     (\<exists>v pt. i = Verdict_received v \<and> tv_accepted v \<and>
        map_of (gw_pending_templates st) (tv_id v) = Some pt \<and> pt_template pt = t)"

definition new_jobs_ok :: "gateway_env \<Rightarrow> gateway_input \<Rightarrow> gateway \<Rightarrow> gateway \<Rightarrow> bool" where
  "new_jobs_ok E i st st' \<longleftrightarrow>
     (\<exists>new. gw_broadcasts st' = gw_broadcasts st @ new \<and>
        (\<forall>(t, jb) \<in> set new. job_matches (ge_hex E) t jb \<and> job_cause E i st st' t))"

lemma new_jobs_none: "gw_broadcasts st' = gw_broadcasts st \<Longrightarrow> new_jobs_ok E i st st'"
  unfolding new_jobs_ok_def by (intro exI [of _ "[]"]) simp

lemma hold_template_frame [simp]:
  "gw_broadcasts (hold_template c t st) = gw_broadcasts st"
  "gw_proposed (hold_template c t st) = gw_proposed st"
  "gw_degraded (hold_template c t st) = gw_degraded st"
  "gw_degrade_trigger (hold_template c t st) = gw_degrade_trigger st"
  by (simp_all add: hold_template_def Let_def split_beta)

text \<open>The template arm up to its branch: the template is noted and proposed.\<close>

definition template_noted :: "gateway_env \<Rightarrow> gateway_clock \<Rightarrow> TemplateResponse \<Rightarrow> gateway \<Rightarrow> gateway" where
  "template_noted E c t st =
     st\<lparr>gw_last_template_received := gk_now c,
        gw_dedup_cache := snd (is_duplicate (tr_source_instance_id t) (tr_template_id t) (gw_dedup_cache st)),
        gw_metrics := (gw_metrics st)\<lparr>gm_templates_received_total := gm_templates_received_total (gw_metrics st) + 1\<rparr>,
        gw_proposed := (if gk_outbound_open c
          then gw_proposed st @ [build_template_propose t (gs_gateway_instance_id (gc_gateway (ge_config E)))]
          else gw_proposed st)\<rparr>"

definition duplicate_template :: "TemplateResponse \<Rightarrow> gateway \<Rightarrow> bool" where
  "duplicate_template t st \<longleftrightarrow> fst (is_duplicate (tr_source_instance_id t) (tr_template_id t) (gw_dedup_cache st))"

lemma template_arm_eq:
  "template_arm E c t st =
     (if duplicate_template t st
      then st\<lparr>gw_last_template_received := gk_now c,
              gw_dedup_cache := snd (is_duplicate (tr_source_instance_id t) (tr_template_id t) (gw_dedup_cache st))\<rparr>
      else if enforces_verdicts (gc_mode (ge_config E)) \<and> \<not> gw_degraded st
      then hold_template c t (template_noted E c t st)
      else let st3 = broadcast_job_from_template (ge_hex E) c t (template_noted E c t st)
        in if gw_degraded st then st3\<lparr>gw_unenforced_jobs := gw_unenforced_jobs st3 + 1\<rparr> else st3)"
  by (simp add: template_arm_def template_noted_def duplicate_template_def split_beta Let_def)

lemma template_noted_frame [simp]:
  "gw_broadcasts (template_noted E c t st) = gw_broadcasts st"
  "gw_pending_templates (template_noted E c t st) = gw_pending_templates st"
  "gw_pending_order (template_noted E c t st) = gw_pending_order st"
  "gw_degraded (template_noted E c t st) = gw_degraded st"
  "gw_degrade_trigger (template_noted E c t st) = gw_degrade_trigger st"
  "gw_verdict_starved (template_noted E c t st) = gw_verdict_starved st"
  by (simp_all add: template_noted_def)

lemma new_jobs_template: "new_jobs_ok E i st (template_arm E c t st)"
proof (cases "duplicate_template t st \<or> enforces_verdicts (gc_mode (ge_config E)) \<and> \<not> gw_degraded st")
  case True
  then show ?thesis by (intro new_jobs_none) (auto simp: template_arm_eq)
next
  case False
  then have "gw_broadcasts (template_arm E c t st) =
      gw_broadcasts (broadcast_job_from_template (ge_hex E) c t (template_noted E c t st))"
    "gw_degraded (template_arm E c t st) = gw_degraded st"
    by (auto simp: template_arm_eq Let_def)
  then show ?thesis using False
    by (rule_tac broadcast_grows [of "ge_hex E" c t "template_noted E c t st"])
      (auto simp: new_jobs_ok_def job_cause_def)
qed

lemma settle_pending_frame [simp]:
  "gw_degraded (settle_pending E c v st) = gw_degraded st"
  "gw_dedup_cache (settle_pending E c v st) = gw_dedup_cache st"
  "gw_proposed (settle_pending E c v st) = gw_proposed st"
  by (simp_all add: settle_pending_def Let_def split: option.split)

lemma settle_pending_grows:
  obtains new where "gw_broadcasts (settle_pending E c v st) = gw_broadcasts st @ new"
    "\<forall>(t, jb) \<in> set new. job_matches (ge_hex E) t jb \<and> tv_accepted v \<and>
       (\<exists>pt. map_of (gw_pending_templates st) (tv_id v) = Some pt \<and> pt_template pt = t)"
proof (cases "map_of (gw_pending_templates st) (tv_id v)")
  case None
  then show thesis using that [of "[]"] by (simp add: settle_pending_def)
next
  case (Some pt)
  show thesis
  proof (cases "tv_accepted v")
    case True
    obtain st2 where st2: "gw_broadcasts st2 = gw_broadcasts st"
      "settle_pending E c v st = broadcast_job_from_template (ge_hex E) c (pt_template pt) st2"
      by (rule that) (use Some True in \<open>simp_all add: settle_pending_def Let_def\<close>)
    show thesis
      by (rule broadcast_grows [of "ge_hex E" c "pt_template pt" st2], rule that)
        (use Some True st2 in auto)
  next
    case False
    then show thesis using that [of "[]"] Some by (simp add: settle_pending_def Let_def)
  qed
qed

lemma resume_frame [simp]:
  "gw_broadcasts (resume_enforcement c st) = gw_broadcasts st"
  "gw_pending_templates (resume_enforcement c st) = gw_pending_templates st"
  "gw_pending_order (resume_enforcement c st) = gw_pending_order st"
  "gw_proposed (resume_enforcement c st) = gw_proposed st"
  "gw_dedup_cache (resume_enforcement c st) = gw_dedup_cache st"
  "gw_degraded (resume_enforcement c st) = False"
  "gw_degrade_trigger (resume_enforcement c st) = None"
  "gw_verdict_starved (resume_enforcement c st) = gw_verdict_starved st"
  by (simp_all add: resume_enforcement_def Let_def)

text \<open>The verdict arm up to the pending template: it neither adds nor removes one, nor a job.\<close>

definition verdict_noted :: "gateway_clock \<Rightarrow> TemplateVerdict \<Rightarrow> gateway \<Rightarrow> gateway" where
  "verdict_noted c v st =
     (let st1 = st\<lparr>gw_metrics := (gw_metrics st)\<lparr>gm_verdicts_total := (gm_verdicts_total (gw_metrics st))
            (tv_accepted v := gm_verdicts_total (gw_metrics st) (tv_accepted v) + 1)\<rparr>\<rparr>
      in if gw_degraded st1 \<and> gw_degrade_trigger st1 = Some VerdictStarved
         then resume_enforcement c st1 else st1)"

lemma verdict_noted_frame [simp]:
  "gw_broadcasts (verdict_noted c v st) = gw_broadcasts st"
  "gw_pending_templates (verdict_noted c v st) = gw_pending_templates st"
  "gw_pending_order (verdict_noted c v st) = gw_pending_order st"
  "gw_proposed (verdict_noted c v st) = gw_proposed st"
  "gw_dedup_cache (verdict_noted c v st) = gw_dedup_cache st"
  by (simp_all add: verdict_noted_def Let_def)

lemma verdict_arm_eq:
  "verdict_arm E c v st =
     (let st3 = (if enforces_verdicts (gc_mode (ge_config E)) then settle_pending E c v (verdict_noted c v st)
                 else verdict_noted c v st)
      in st3\<lparr>gw_verdict_starved := on_verdict (gw_pending_templates st3 = []) (gk_now c) (gw_verdict_starved st3)\<rparr>)"
  by (simp add: verdict_arm_def verdict_noted_def Let_def)

lemma new_jobs_verdict: "new_jobs_ok E (Verdict_received v) st (verdict_arm E c v st)"
proof (cases "enforces_verdicts (gc_mode (ge_config E))")
  case True
  have "gw_broadcasts (verdict_arm E c v st) = gw_broadcasts (settle_pending E c v (verdict_noted c v st))"
    using True by (simp add: verdict_arm_eq Let_def)
  then show ?thesis
    by (rule_tac settle_pending_grows [of E c v "verdict_noted c v st"])
      (fastforce simp: new_jobs_ok_def job_cause_def)
qed (auto simp: verdict_arm_eq Let_def intro: new_jobs_none)

lemma new_jobs_degrade: "new_jobs_ok E i st (degrade_tick E c st)"
proof (cases "auto_degrade_enabled E \<and> \<not> gw_degraded st \<and> current_trigger E c st \<noteq> None")
  case True
  let ?st1 = "st\<lparr>gw_degrade_trigger := current_trigger E c st, gw_degraded := True, gw_degraded_since := Some (gk_now c),
                 gw_unenforced_jobs := 0, gw_ready_degraded := True, gw_pending_order := []\<rparr>"
  have "gw_broadcasts (degrade_tick E c st) = gw_broadcasts (flush_pending E c (gw_pending_order st) ?st1)"
    "gw_degraded (degrade_tick E c st)"
    using True by (simp_all add: degrade_tick_def Let_def)
  then show ?thesis
    by (rule_tac flush_grows [of E c "gw_pending_order st" ?st1]) (auto simp: new_jobs_ok_def job_cause_def)
qed (auto simp: degrade_tick_def Let_def intro: new_jobs_none)

lemma new_jobs_step: "new_jobs_ok E i st (snd (gateway_step E c i st))"
  by (cases "(E, c, i, st)" rule: gateway_step.cases)
    (auto simp: new_jobs_template new_jobs_verdict new_jobs_degrade split_beta heartbeat_arm_def begin_shutdown_def
       sweep_stale_pending_templates_def Let_def intro!: new_jobs_none split: UpstreamFailurePolicy.split)

section \<open>Where pending templates come from\<close>

lemma hold_template_pending:
  assumes "pending_inv (gw_pending_templates st) (gw_pending_order st)" and "e \<in> set (gw_pending_templates (hold_template c t st))"
  shows "e = (tr_template_id t, \<lparr>pt_template = t, pt_received_at = gk_now c\<rparr>) \<or>
    e \<in> set (gw_pending_templates st) \<and> fst e \<noteq> tr_template_id t"
proof -
  obtain order pending dedup where ev:
    "evict_pending (tr_source_instance_id t) (gw_pending_order st) (gw_pending_templates st) (gw_dedup_cache st)
      = (order, pending, dedup)" by (metis prod_cases3)
  from evict_pending_spec [OF ev assms(1)] have "distinct (map fst pending)" "set pending \<subseteq> set (gw_pending_templates st)"
    by (auto simp: pending_inv_def)
  then show ?thesis using assms(2) set_update_distinct [of pending e]
    by (auto simp: hold_template_def ev)
qed

lemma settle_pending_keys: "tv_id v \<notin> keys (gw_pending_templates (settle_pending E c v st))"
  by (auto simp: settle_pending_def Let_def keys_map_of split: option.split) (simp_all add: AList.delete_conv')

lemma settle_pending_subset: "set (gw_pending_templates (settle_pending E c v st)) \<subseteq> set (gw_pending_templates st)"
  by (auto simp: settle_pending_def Let_def AList.delete_eq split: option.split)

lemma step_pending:
  assumes inv: "gateway_inv E st" and e: "e \<in> set (gw_pending_templates (snd (gateway_step E c i st)))"
  shows "e \<in> set (gw_pending_templates st) \<and> (\<forall>v. i = Verdict_received v \<longrightarrow> tv_id v \<noteq> fst e) \<or>
    (\<exists>t. i = Template_received (Some t) \<and> e = (tr_template_id t, \<lparr>pt_template = t, pt_received_at = gk_now c\<rparr>))"
proof (cases "(E, c, i, st)" rule: gateway_step.cases)
  case (2 E' c' t st')
  have "pending_inv (gw_pending_templates (template_noted E c t st)) (gw_pending_order (template_noted E c t st))"
    using inv by (simp add: gateway_inv_def)
  from hold_template_pending [OF this, of e c t] show ?thesis using 2 e
    by (auto simp: template_arm_eq Let_def split: if_splits)
next
  case (3 E' c' v st')
  show ?thesis
  proof (cases "enforces_verdicts (gc_mode (ge_config E))")
    case True
    then have "e \<in> set (gw_pending_templates (settle_pending E c v (verdict_noted c v st)))"
      using 3 e by (simp add: verdict_arm_eq Let_def)
    moreover from this have "fst e \<noteq> tv_id v" using settle_pending_keys [of v E c "verdict_noted c v st"]
      unfolding keys_def by (metis image_eqI)
    ultimately show ?thesis using 3 settle_pending_subset [of E c v "verdict_noted c v st"] by auto
  next
    case False
    then show ?thesis using 3 e inv by (auto simp: verdict_arm_eq Let_def gateway_inv_def)
  qed
qed (use e in \<open>auto simp: heartbeat_arm_def sweep_stale_pending_templates_def degrade_tick_def begin_shutdown_def split_beta Let_def
      split: if_splits UpstreamFailurePolicy.splits\<close>)

definition no_verdict_for :: "u64 \<Rightarrow> (gateway_clock \<times> gateway_input) list \<Rightarrow> bool" where
  "no_verdict_for i tr \<longleftrightarrow> (\<forall>(c, x) \<in> set tr. \<forall>v. x = Verdict_received v \<longrightarrow> tv_id v \<noteq> i)"

definition pending_traced :: "(gateway_clock \<times> gateway_input) list \<Rightarrow> gateway \<Rightarrow> bool" where
  "pending_traced tr st \<longleftrightarrow>
     (\<forall>(i, pt) \<in> set (gw_pending_templates st). \<exists>tr1 c tr2.
        tr = tr1 @ (c, Template_received (Some (pt_template pt))) # tr2 \<and> gk_now c = pt_received_at pt \<and>
        tr_template_id (pt_template pt) = i \<and> no_verdict_for i tr2)"

lemma run_pending_traced:
  assumes "gateway_run E t0 (gateway_init E t0 w ls) tr st"
  shows "pending_traced tr st"
  using assms
proof (induction rule: gateway_run.induct)
  case started
  show ?case by (simp add: pending_traced_def gateway_init_def)
next
  case (turn tr st c i st')
  have inv: "gateway_inv E st" by (rule gateway_run_inv [OF turn.hyps(1)])
  show ?case unfolding pending_traced_def
  proof (intro ballI, clarify)
    fix k pt assume "(k, pt) \<in> set (gw_pending_templates st')"
    then have "(k, pt) \<in> set (gw_pending_templates (snd (gateway_step E c i st)))" by (simp add: turn.hyps)
    from step_pending [OF inv this] consider
      (old) "(k, pt) \<in> set (gw_pending_templates st)" "\<forall>v. i = Verdict_received v \<longrightarrow> tv_id v \<noteq> k"
      | (new) t where "i = Template_received (Some t)" "k = tr_template_id t" "pt = \<lparr>pt_template = t, pt_received_at = gk_now c\<rparr>"
      by auto
    then show "\<exists>tr1 c' tr2. tr @ [(c, i)] = tr1 @ (c', Template_received (Some (pt_template pt))) # tr2 \<and>
        gk_now c' = pt_received_at pt \<and> tr_template_id (pt_template pt) = k \<and> no_verdict_for k tr2"
    proof cases
      case old
      with turn.IH obtain tr1 c' tr2 where "tr = tr1 @ (c', Template_received (Some (pt_template pt))) # tr2"
        "gk_now c' = pt_received_at pt" "tr_template_id (pt_template pt) = k" "no_verdict_for k tr2"
        by (fastforce simp: pending_traced_def)
      then show ?thesis using old(2)
        by (intro exI [of _ tr1] exI [of _ c'] exI [of _ "tr2 @ [(c, i)]"]) (auto simp: no_verdict_for_def)
    next
      case new
      then show ?thesis by (intro exI [of _ tr] exI [of _ c] exI [of _ "[]"]) (simp add: no_verdict_for_def)
    qed
  qed
qed

lemma enforced_job:
  assumes "gateway_run E t0 (gateway_init E t0 w ls) tr st" and "gateway_step E c i st = (r, st')"
    and "enforces_verdicts (gc_mode (ge_config E))" and "\<not> gw_degraded st'"
    and "(t, jb) \<in> set (drop (length (gw_broadcasts st)) (gw_broadcasts st'))"
  shows "job_matches (ge_hex E) t jb \<and>
    (\<exists>v tr1 c' tr2. i = Verdict_received v \<and> tv_accepted v \<and> tv_id v = tr_template_id t \<and>
       tr = tr1 @ (c', Template_received (Some t)) # tr2 \<and> no_verdict_for (tr_template_id t) tr2)"
proof -
  have "new_jobs_ok E i st st'" using new_jobs_step [of E i st c] assms(2) by simp
  then have job: "job_matches (ge_hex E) t jb" "job_cause E i st st' t"
    using assms(5) by (auto simp: new_jobs_ok_def)
  from job(2) obtain v pt where v: "i = Verdict_received v" "tv_accepted v"
    "map_of (gw_pending_templates st) (tv_id v) = Some pt" "pt_template pt = t"
    using assms(3,4) by (auto simp: job_cause_def)
  from v(3) have "(tv_id v, pt) \<in> set (gw_pending_templates st)" by (rule map_of_SomeD)
  with run_pending_traced [OF assms(1)] v(4) obtain tr1 c' tr2 where
    "tr = tr1 @ (c', Template_received (Some t)) # tr2" "tr_template_id t = tv_id v" "no_verdict_for (tv_id v) tr2"
    by (fastforce simp: pending_traced_def)
  then show ?thesis using job(1) v by auto
qed

section \<open>No template is lost silently\<close>

lemma job_id_allocate_exhausted:
  "ac_exhausted c \<Longrightarrow> ac_exhausted (snd (job_id_allocate c))"
  "fst (job_id_allocate c) = None \<Longrightarrow> ac_exhausted (snd (job_id_allocate c))"
  by (auto simp: job_id_allocate_def Let_def split: if_splits)

lemma broadcast_alloc: "gw_job_alloc (broadcast_job_from_template X c t st) = snd (job_id_allocate (gw_job_alloc st))"
  by (simp add: broadcast_job_from_template_def split_beta Let_def split: option.split sum.split)

text \<open>A template was turned into a job, or cannot be: it does not decode or identifiers ran out.\<close>

definition issued_or_unusable :: "hex_crate \<Rightarrow> TemplateResponse \<Rightarrow> gateway \<Rightarrow> bool" where
  "issued_or_unusable X t st \<longleftrightarrow>
     t \<in> fst ` set (gw_broadcasts st) \<or> \<not> usable_template X t \<or> ac_exhausted (gw_job_alloc st)"

lemma broadcast_issues: "issued_or_unusable X t (broadcast_job_from_template X c t st)"
proof (cases "fst (job_id_allocate (gw_job_alloc st)) = None \<or> \<not> usable_template X t")
  case True
  then show ?thesis by (auto simp: issued_or_unusable_def broadcast_alloc job_id_allocate_exhausted)
next
  case False
  obtain new where new: "gw_broadcasts (broadcast_job_from_template X c t st) = gw_broadcasts st @ new"
    "\<forall>(u, jb) \<in> set new. u = t \<and> job_matches X t jb"
    "new = [] \<longleftrightarrow> fst (job_id_allocate (gw_job_alloc st)) = None \<or> \<not> usable_template X t"
    by (rule broadcast_grows [of X c t st])
  then obtain e where "e \<in> set new" using False by (cases new) auto
  then have "t \<in> fst ` set new" using new(2) by force
  then show ?thesis by (simp add: issued_or_unusable_def new(1) image_Un)
qed

text \<open>Jobs are never taken back and identifiers never return.\<close>

definition later :: "gateway \<Rightarrow> gateway \<Rightarrow> bool" where
  "later st st' \<longleftrightarrow> set (gw_broadcasts st) \<subseteq> set (gw_broadcasts st') \<and>
     (ac_exhausted (gw_job_alloc st) \<longrightarrow> ac_exhausted (gw_job_alloc st'))"

lemma later_trans: "later a b \<Longrightarrow> later b c \<Longrightarrow> later a c"
  by (auto simp: later_def)

lemma later_issued: "later st st' \<Longrightarrow> issued_or_unusable X t st \<Longrightarrow> issued_or_unusable X t st'"
  by (auto simp: later_def issued_or_unusable_def)

lemma later_same: "gw_broadcasts st' = gw_broadcasts st \<Longrightarrow> gw_job_alloc st' = gw_job_alloc st \<Longrightarrow> later st st'"
  by (simp add: later_def)

lemma later_broadcast: "later st (broadcast_job_from_template X c t st)"
proof -
  obtain new where "gw_broadcasts (broadcast_job_from_template X c t st) = gw_broadcasts st @ new"
    by (rule broadcast_grows [of X c t st])
  then show ?thesis by (simp add: later_def broadcast_alloc job_id_allocate_exhausted)
qed

lemma later_flush: "later st (flush_pending E c order st)"
proof (induction E c order st rule: flush_pending.induct)
  case (2 E c i order st)
  show ?case
  proof (cases "map_of (gw_pending_templates st) i")
    case (Some pt)
    let ?st = "st\<lparr>gw_pending_templates := AList.delete i (gw_pending_templates st)\<rparr>"
    let ?b = "broadcast_job_from_template (ge_hex E) c (pt_template pt) ?st"
    let ?b' = "?b\<lparr>gw_unenforced_jobs := gw_unenforced_jobs ?b + 1\<rparr>"
    have "later st ?b'" using later_broadcast [of ?st "ge_hex E" c "pt_template pt"] by (simp add: later_def)
    then have "later st (flush_pending E c order ?b')" by (rule later_trans [OF _ 2(2) [OF Some refl]])
    then show ?thesis using Some by (simp add: Let_def)
  qed (use 2(1) in simp)
qed (rule later_same, simp_all)

lemma flush_covers:
  assumes "map_of (gw_pending_templates st) k = Some pt" and "k \<in> set order"
  shows "issued_or_unusable (ge_hex E) (pt_template pt) (flush_pending E c order st)"
  using assms
proof (induction E c order st rule: flush_pending.induct)
  case (2 E c i order st)
  show ?case
  proof (cases "map_of (gw_pending_templates st) i")
    case None
    then show ?thesis using 2(1) 2(3,4) by auto
  next
    case (Some q)
    let ?st = "st\<lparr>gw_pending_templates := AList.delete i (gw_pending_templates st)\<rparr>"
    let ?b = "broadcast_job_from_template (ge_hex E) c (pt_template q) ?st"
    let ?b' = "?b\<lparr>gw_unenforced_jobs := gw_unenforced_jobs ?b + 1\<rparr>"
    show ?thesis
    proof (cases "k = i")
      case True
      then have "issued_or_unusable (ge_hex E) (pt_template pt) ?b'"
        using broadcast_issues [of "ge_hex E" "pt_template q" c ?st] Some 2(3) by (simp add: issued_or_unusable_def)
      then show ?thesis using later_issued [OF later_flush] Some by (simp add: Let_def)
    next
      case False
      then have "map_of (gw_pending_templates ?b') k = Some pt" "k \<in> set order"
        using 2(3,4) by (simp_all add: AList.delete_conv')
      then show ?thesis using 2(2) [OF Some refl] Some by (simp add: Let_def)
    qed
  qed
qed simp

definition answered :: "gateway_env \<Rightarrow> (gateway_clock \<times> gateway_input) list \<Rightarrow> gateway \<Rightarrow> u64 \<Rightarrow> bool" where
  "answered E tr st i \<longleftrightarrow>
     \<not> no_verdict_for i tr \<or>
     (\<exists>c t. (c, Template_received (Some t)) \<in> set tr \<and> tr_template_id t = i \<and> issued_or_unusable (ge_hex E) t st)"

lemma answered_later:
  assumes "answered E tr st i" and "later st st'"
  shows "answered E (tr @ tr') st' i"
proof -
  have "\<not> no_verdict_for i tr \<Longrightarrow> \<not> no_verdict_for i (tr @ tr')" by (auto simp: no_verdict_for_def)
  then show ?thesis using assms later_issued by (fastforce simp: answered_def)
qed

text \<open>
  The identifiers the dedup cache suppresses: each is still pending, from the source the cache names,
  or has been answered.
\<close>

definition suppressed_ok :: "gateway_env \<Rightarrow> (gateway_clock \<times> gateway_input) list \<Rightarrow> gateway \<Rightarrow> bool" where
  "suppressed_ok E tr st \<longleftrightarrow>
     (\<forall>(s, i) \<in> dc_seen (gw_dedup_cache st).
        case map_of (gw_pending_templates st) i of
          Some pt \<Rightarrow> tr_source_instance_id (pt_template pt) = s
        | None \<Rightarrow> answered E tr st i)"

lemma seen_removes: "dc_seen (fold (dedup_cache_remove s) is d) = dc_seen d - {s} \<times> set is"
  by (induction "is" arbitrary: d) (auto simp: dedup_cache_remove_def)

lemma seen_removes_pairs:
  "dc_seen (fold (\<lambda>(i, s). dedup_cache_remove s i) es d) = dc_seen d - {(s, i). (i, s) \<in> set es}"
  by (induction es arbitrary: d) (auto simp: dedup_cache_remove_def)

lemma is_duplicate_seen:
  assumes "dedup_cache_inv d"
  shows "dc_seen (snd (is_duplicate s i d)) \<subseteq> insert (s, i) (dc_seen d)"
    and "\<And>s' j. (s', j) \<in> dc_seen (snd (is_duplicate s i d)) \<Longrightarrow> s' = s"
  using assms by (auto simp: is_duplicate_def Let_def dedup_cache_inv_def split: if_splits)

lemma suppressed_hold:
  assumes ok: "suppressed_ok E tr st" and inv: "gateway_inv E st" and new: "\<not> duplicate_template t st"
  shows "suppressed_ok E (tr @ [(c, Template_received (Some t))]) (hold_template c t (template_noted E c t st))"
  unfolding suppressed_ok_def
proof (intro ballI, clarify)
  let ?s = "tr_source_instance_id t" and ?i = "tr_template_id t"
  let ?d = "snd (is_duplicate ?s ?i (gw_dedup_cache st))"
  let ?st' = "hold_template c t (template_noted E c t st)"
  obtain order pending dedup where ev:
    "evict_pending ?s (gw_pending_order st) (gw_pending_templates st) ?d = (order, pending, dedup)" by (metis prod_cases3)
  have pinv: "pending_inv (gw_pending_templates st) (gw_pending_order st)" using inv by (simp add: gateway_inv_def)
  from evict_pending_spec [OF ev pinv] obtain gone where sub: "set pending \<subseteq> set (gw_pending_templates st)"
    and gone: "dedup = fold (dedup_cache_remove ?s) gone ?d" "set gone = keys (gw_pending_templates st) - keys pending"
    and pinv': "pending_inv pending order" by blast
  have d: "dedup_cache_inv (gw_dedup_cache st)" using inv by (simp add: gateway_inv_def)
  fix s j assume sj: "(s, j) \<in> dc_seen (gw_dedup_cache ?st')"
  then have seen: "(s, j) \<in> dc_seen ?d" "j \<notin> set gone \<or> s \<noteq> ?s"
    by (auto simp: hold_template_def template_noted_def ev gone(1) seen_removes)
  have s: "s = ?s" using is_duplicate_seen(2) [OF d seen(1)] .
  have st': "gw_pending_templates ?st' = AList.update ?i \<lparr>pt_template = t, pt_received_at = gk_now c\<rparr> pending"
    by (simp add: hold_template_def template_noted_def ev)
  show "case map_of (gw_pending_templates ?st') j of
      None \<Rightarrow> answered E (tr @ [(c, Template_received (Some t))]) ?st' j
    | Some pt \<Rightarrow> tr_source_instance_id (pt_template pt) = s"
  proof (cases "j = ?i")
    case True
    then show ?thesis by (simp add: st' s AList.update_conv')
  next
    case False
    then have old: "(s, j) \<in> dc_seen (gw_dedup_cache st)" using is_duplicate_seen(1) [OF d] seen(1) by fastforce
    show ?thesis
    proof (cases "map_of (gw_pending_templates st) j")
      case None
      then have "map_of pending j = None" using sub by (auto simp: map_of_eq_None_iff)
      moreover have "answered E tr st j" using ok old None by (auto simp: suppressed_ok_def)
      moreover have "later st ?st'" by (rule later_same) (simp_all add: hold_template_def template_noted_def split_beta)
      ultimately show ?thesis using False answered_later by (simp add: st' AList.update_conv')
    next
      case (Some pt)
      then have "j \<in> keys pending" using seen(2) s gone(2) by (auto simp: keys_map_of)
      then obtain q where q: "map_of pending j = Some q" by (auto simp: keys_map_of)
      then have "(j, q) \<in> set (gw_pending_templates st)" using sub by (auto dest: map_of_SomeD)
      then have "q = pt" using Some pinv by (simp add: pending_inv_def)
      then show ?thesis using ok old Some q False by (auto simp: suppressed_ok_def st' AList.update_conv')
    qed
  qed
qed

lemma suppressed_mono:
  assumes "suppressed_ok E tr st" and "gw_pending_templates st' = gw_pending_templates st"
    and "dc_seen (gw_dedup_cache st') \<subseteq> dc_seen (gw_dedup_cache st)" and "later st st'"
  shows "suppressed_ok E (tr @ tr') st'"
  using assms answered_later [OF _ assms(4)]
  by (fastforce simp: suppressed_ok_def split: option.splits)

lemma suppressed_broadcast:
  assumes ok: "suppressed_ok E tr st" and inv: "gateway_inv E st" and empty: "gw_pending_templates st = []"
    and st': "st' = broadcast_job_from_template (ge_hex E) c t (template_noted E c t st)"
  shows "suppressed_ok E (tr @ [(c, Template_received (Some t))]) st'"
  unfolding suppressed_ok_def
proof (intro ballI, clarify)
  fix s j assume "(s, j) \<in> dc_seen (gw_dedup_cache st')"
  then have "(s, j) \<in> insert (tr_source_instance_id t, tr_template_id t) (dc_seen (gw_dedup_cache st))"
    using is_duplicate_seen(1) inv by (fastforce simp: st' template_noted_def gateway_inv_def)
  then consider "j = tr_template_id t" | "(s, j) \<in> dc_seen (gw_dedup_cache st)" by auto
  then have "answered E (tr @ [(c, Template_received (Some t))]) st' j"
  proof cases
    case 1
    then show ?thesis using broadcast_issues [of "ge_hex E" t c "template_noted E c t st"]
      by (auto simp: answered_def st')
  next
    case 2
    then have "answered E tr st j" using ok empty by (auto simp: suppressed_ok_def)
    moreover have "later st st'"
      using later_broadcast [of "template_noted E c t st" "ge_hex E" c t] by (simp add: st' later_def template_noted_def)
    ultimately show ?thesis by (rule answered_later)
  qed
  then show "case map_of (gw_pending_templates st') j of None \<Rightarrow> answered E (tr @ [(c, Template_received (Some t))]) st' j
      | Some pt \<Rightarrow> tr_source_instance_id (pt_template pt) = s" by (simp add: st' empty)
qed

lemma later_verdict: "later st (verdict_arm E c v st)"
proof -
  have "later (verdict_noted c v st) (settle_pending E c v (verdict_noted c v st))"
    by (rule settle_pending_grows [of E c v "verdict_noted c v st"])
      (auto simp: later_def settle_pending_def broadcast_alloc job_id_allocate_exhausted Let_def split: option.split)
  moreover have "later st (verdict_noted c v st)"
    by (rule later_same) (simp_all add: verdict_noted_def resume_enforcement_def Let_def)
  ultimately have "later st (settle_pending E c v (verdict_noted c v st))" "later st (verdict_noted c v st)"
    using later_trans by blast+
  then show ?thesis by (simp add: verdict_arm_eq Let_def later_def)
qed

lemma map_of_settle:
  "map_of (gw_pending_templates (settle_pending E c v st)) = (map_of (gw_pending_templates st))(tv_id v := None)"
  by (auto simp: settle_pending_def Let_def AList.delete_conv' split: option.split)

lemma suppressed_verdict:
  assumes ok: "suppressed_ok E tr st" and inv: "gateway_inv E st"
  shows "suppressed_ok E (tr @ [(c, Verdict_received v)]) (verdict_arm E c v st)"
proof -
  have "map_of (gw_pending_templates (verdict_arm E c v st)) = (map_of (gw_pending_templates st))(tv_id v := None)"
    using inv by (auto simp: verdict_arm_eq Let_def map_of_settle gateway_inv_def)
  moreover have "gw_dedup_cache (verdict_arm E c v st) = gw_dedup_cache st" by (simp add: verdict_arm_eq Let_def)
  moreover have "answered E (tr @ [(c, Verdict_received v)]) st' (tv_id v)" for st'
    by (auto simp: answered_def no_verdict_for_def)
  moreover have "answered E tr st j \<Longrightarrow> answered E (tr @ [(c, Verdict_received v)]) (verdict_arm E c v st) j" for j
    using answered_later later_verdict by blast
  ultimately show ?thesis using ok by (fastforce simp: suppressed_ok_def split: option.splits)
qed

lemma suppressed_sweep:
  assumes ok: "suppressed_ok E tr st" and inv: "gateway_inv E st"
  shows "suppressed_ok E (tr @ tr') (sweep_stale_pending_templates now age st)"
  unfolding suppressed_ok_def
proof (intro ballI, clarify)
  let ?st' = "sweep_stale_pending_templates now age st"
  let ?stale = "\<lambda>(tid, pt). now - pt_received_at pt > age"
  let ?pending = "filter (\<lambda>e. \<not> ?stale e) (gw_pending_templates st)"
  have st': "gw_pending_templates ?st' = ?pending"
    by (simp add: sweep_stale_pending_templates_def Let_def)
  fix s j assume "(s, j) \<in> dc_seen (gw_dedup_cache ?st')"
  then have seen: "(s, j) \<in> dc_seen (gw_dedup_cache st)"
    and kept: "\<And>pt. (j, pt) \<in> set (gw_pending_templates st) \<Longrightarrow> ?stale (j, pt) \<Longrightarrow> tr_source_instance_id (pt_template pt) \<noteq> s"
    by (force simp: sweep_stale_pending_templates_def Let_def seen_removes_pairs filter_empty_conv split: if_splits)+
  have dist: "distinct (map fst (gw_pending_templates st))" using inv by (simp add: gateway_inv_def pending_inv_def)
  show "case map_of (gw_pending_templates ?st') j of None \<Rightarrow> answered E (tr @ tr') ?st' j
      | Some pt \<Rightarrow> tr_source_instance_id (pt_template pt) = s"
  proof (cases "map_of (gw_pending_templates st) j")
    case None
    then have "answered E tr st j" using ok seen by (auto simp: suppressed_ok_def)
    moreover have "later st ?st'" by (rule later_same) (simp_all add: sweep_stale_pending_templates_def Let_def)
    moreover have "map_of ?pending j = None" using None by (auto simp: map_of_eq_None_iff)
    ultimately show ?thesis using answered_later by (simp add: st')
  next
    case (Some pt)
    then have src: "tr_source_instance_id (pt_template pt) = s" using ok seen by (auto simp: suppressed_ok_def)
    then have "\<not> ?stale (j, pt)" using kept [OF map_of_SomeD [OF Some]] by blast
    then have "(j, pt) \<in> set ?pending" using map_of_SomeD [OF Some] by auto
    then have "map_of ?pending j = Some pt" using dist by (intro map_of_is_SomeI) (simp_all add: distinct_map_filter)
    then show ?thesis using src by (simp only: st' option.case)
  qed
qed

lemma suppressed_degrade:
  assumes ok: "suppressed_ok E tr st" and inv: "gateway_inv E st" and traced: "pending_traced tr st"
  shows "suppressed_ok E (tr @ tr') (degrade_tick E c st)"
proof (cases "auto_degrade_enabled E \<and> \<not> gw_degraded st \<and> current_trigger E c st \<noteq> None")
  case False
  then show ?thesis using ok by (intro suppressed_mono [OF ok]) (auto simp: degrade_tick_def Let_def later_def)
next
  case True
  let ?st1 = "st\<lparr>gw_degrade_trigger := current_trigger E c st, gw_degraded := True, gw_degraded_since := Some (gk_now c),
                 gw_unenforced_jobs := 0, gw_ready_degraded := True, gw_pending_order := []\<rparr>"
  let ?st2 = "flush_pending E c (gw_pending_order st) ?st1"
  have st': "gw_broadcasts (degrade_tick E c st) = gw_broadcasts ?st2" "gw_job_alloc (degrade_tick E c st) = gw_job_alloc ?st2"
    "gw_pending_templates (degrade_tick E c st) = []" "gw_dedup_cache (degrade_tick E c st) = gw_dedup_cache st"
    using True by (simp_all add: degrade_tick_def Let_def)
  have later: "later st (degrade_tick E c st)" using later_flush [of ?st1 E c] by (simp add: later_def st')
  have "answered E (tr @ tr') (degrade_tick E c st) j" if "(s, j) \<in> dc_seen (gw_dedup_cache st)" for s j
  proof (cases "map_of (gw_pending_templates st) j")
    case None
    then have "answered E tr st j" using ok that by (auto simp: suppressed_ok_def)
    then show ?thesis using later by (rule answered_later)
  next
    case (Some pt)
    have "keys (gw_pending_templates st) \<subseteq> set (gw_pending_order st)" using inv by (simp add: gateway_inv_def pending_inv_def)
    then have "j \<in> set (gw_pending_order st)" using Some by (auto simp: keys_map_of)
    then have "issued_or_unusable (ge_hex E) (pt_template pt) ?st2" using Some by (intro flush_covers) simp_all
    then have "issued_or_unusable (ge_hex E) (pt_template pt) (degrade_tick E c st)" by (simp add: issued_or_unusable_def st')
    moreover obtain c' where "(c', Template_received (Some (pt_template pt))) \<in> set tr" "tr_template_id (pt_template pt) = j"
      using traced map_of_SomeD [OF Some] by (fastforce simp: pending_traced_def)
    ultimately show ?thesis by (auto simp: answered_def)
  qed
  then show ?thesis by (auto simp: suppressed_ok_def st')
qed

lemma suppressed_unenforced [simp]:
  "suppressed_ok E tr (st\<lparr>gw_unenforced_jobs := n\<rparr>) \<longleftrightarrow> suppressed_ok E tr st"
proof -
  have "answered E tr (st\<lparr>gw_unenforced_jobs := n\<rparr>) = answered E tr st"
    by (simp add: answered_def issued_or_unusable_def fun_eq_iff)
  then show ?thesis by (simp add: suppressed_ok_def cong: option.case_cong)
qed

lemma suppressed_template:
  assumes ok: "suppressed_ok E tr st" and inv: "gateway_inv E st"
  shows "suppressed_ok E (tr @ [(c, Template_received (Some t))]) (template_arm E c t st)"
proof -
  consider (dup) "duplicate_template t st"
    | (hold) "\<not> duplicate_template t st" "enforces_verdicts (gc_mode (ge_config E)) \<and> \<not> gw_degraded st"
    | (send) "\<not> duplicate_template t st" "\<not> (enforces_verdicts (gc_mode (ge_config E)) \<and> \<not> gw_degraded st)" by blast
  then show ?thesis
  proof cases
    case dup
    then have "(tr_source_instance_id t, tr_template_id t) \<in> dc_seen (gw_dedup_cache st)"
      using is_duplicate_spec(1) inv by (auto simp: duplicate_template_def gateway_inv_def)
    then show ?thesis using dup inv is_duplicate_seen(1) [of "gw_dedup_cache st" "tr_source_instance_id t" "tr_template_id t"]
      by (intro suppressed_mono [OF ok]) (auto simp: template_arm_eq later_def gateway_inv_def)
  next
    case hold
    then show ?thesis using suppressed_hold [OF ok inv] by (simp add: template_arm_eq)
  next
    case send
    then have "gw_pending_templates st = []" using inv by (auto simp: gateway_inv_def)
    from suppressed_broadcast [OF ok inv this refl, of c t] send show ?thesis
      by (auto simp: template_arm_eq Let_def)
  qed
qed

lemma suppressed_step:
  assumes ok: "suppressed_ok E tr st" and inv: "gateway_inv E st" and "pending_traced tr st"
  shows "suppressed_ok E (tr @ [(c, i)]) (snd (gateway_step E c i st))"
proof -
  have same: "suppressed_ok E (tr @ [x]) st'"
    if "gw_pending_templates st' = gw_pending_templates st" "gw_dedup_cache st' = gw_dedup_cache st"
      "gw_broadcasts st' = gw_broadcasts st" "gw_job_alloc st' = gw_job_alloc st" for st' x
    using that by (intro suppressed_mono [OF ok]) (simp_all add: later_def)
  show ?thesis
  proof (cases i)
    case (Template_received arrived)
    then show ?thesis using suppressed_template [OF ok inv] same by (cases arrived) simp_all
  next
    case HeartbeatAck_received
    have "gw_degraded st \<Longrightarrow> gw_pending_templates st = []" using inv by (simp add: gateway_inv_def)
    then show ?thesis using HeartbeatAck_received
      by (auto simp: heartbeat_arm_def resume_enforcement_def Let_def intro!: same)
  next
    case (Results_received new be)
    then show ?thesis
      by (auto simp: result_arm_def begin_shutdown_def split_beta Let_def intro!: same split: list.split)
  next
    case (Events_received new be)
    then show ?thesis
      by (auto simp: event_arm_def begin_shutdown_def split_beta Let_def intro!: same split: list.split)
  qed (use assms in \<open>auto simp: suppressed_verdict suppressed_sweep suppressed_degrade begin_shutdown_def
         intro!: same split: UpstreamFailurePolicy.split\<close>)
qed

lemma run_suppressed:
  assumes "gateway_run E t0 (gateway_init E t0 w ls) tr st"
  shows "suppressed_ok E tr st"
  using assms
proof (induction rule: gateway_run.induct)
  case started
  show ?case by (simp add: suppressed_ok_def gateway_init_def dedup_cache_new_def)
next
  case (turn tr st c i st')
  then show ?case
    using suppressed_step [OF turn.IH gateway_run_inv run_pending_traced, OF turn.hyps(1) turn.hyps(1), of c i] by simp
qed

section \<open>Degrading and recovering\<close>

lemma verdict_arm_degraded:
  "gw_degraded (verdict_arm E c v st) \<longleftrightarrow> gw_degraded st \<and> gw_degrade_trigger st \<noteq> Some VerdictStarved"
  by (auto simp: verdict_arm_eq verdict_noted_def Let_def)

lemma heartbeat_arm_degraded:
  "gw_degraded (heartbeat_arm c st) \<longleftrightarrow> gw_degraded st \<and> gw_degrade_trigger st = Some VerdictStarved"
  by (auto simp: heartbeat_arm_def heartbeat_recovery_allowed_def Let_def)

lemma degrade_tick_degraded:
  "gw_degraded (degrade_tick E c st) \<longleftrightarrow>
     gw_degraded st \<or> auto_degrade_enabled E \<and> current_trigger E c st \<noteq> None"
  by (auto simp: degrade_tick_def Let_def)

lemma template_arm_degraded: "gw_degraded (template_arm E c t st) = gw_degraded st"
  by (simp add: template_arm_eq Let_def)

lemma sweep_degraded: "gw_degraded (sweep_stale_pending_templates now age st) = gw_degraded st"
  by (simp add: sweep_stale_pending_templates_def Let_def)

lemma step_degraded:
  "gw_degraded (snd (gateway_step E c i st)) \<longleftrightarrow>
     (if gw_degraded st
      then \<not> (\<exists>v. i = Verdict_received v \<and> gw_degrade_trigger st = Some VerdictStarved) \<and>
           \<not> (i = HeartbeatAck_received \<and> gw_degrade_trigger st \<noteq> Some VerdictStarved)
      else i = Degrade_tick \<and> auto_degrade_enabled E \<and> current_trigger E c st \<noteq> None)"
proof (cases i)
  case (Template_received arrived)
  then show ?thesis by (cases arrived) (simp_all add: template_arm_degraded)
qed (auto simp: verdict_arm_degraded heartbeat_arm_degraded degrade_tick_degraded sweep_degraded begin_shutdown_def
       split_beta split: UpstreamFailurePolicy.split)

text \<open>The times the triggers are measured from, read off the turns.\<close>

fun last_ack :: "nat \<Rightarrow> (gateway_clock \<times> gateway_input) list \<Rightarrow> nat" where
  "last_ack t [] = t"
| "last_ack t ((c, i) # tr) = last_ack (if i = HeartbeatAck_received then gk_now c else t) tr"

lemma last_ack_snoc: "last_ack t (tr @ [(c, i)]) = (if i = HeartbeatAck_received then gk_now c else last_ack t tr)"
  by (induction t tr rule: last_ack.induct) auto

lemma step_last_ack:
  "gw_last_verifier_ack (snd (gateway_step E c i st)) =
     (if i = HeartbeatAck_received then gk_now c else gw_last_verifier_ack st)"
proof (cases i)
  case (Template_received arrived)
  then show ?thesis by (cases arrived) (simp_all add: template_arm_eq hold_template_def template_noted_def split_beta Let_def)
next
  case (Verdict_received v)
  have "gw_last_verifier_ack (settle_pending E c v s) = gw_last_verifier_ack s" for s
    by (simp add: settle_pending_def Let_def split: option.split)
  then show ?thesis using Verdict_received
    by (simp add: verdict_arm_eq verdict_noted_def resume_enforcement_def Let_def)
next
  case Degrade_tick
  have "gw_last_verifier_ack (flush_pending E c order s) = gw_last_verifier_ack s" for order s
    by (induction E c order s rule: flush_pending.induct) (simp_all add: Let_def split: option.split)
  then show ?thesis using Degrade_tick by (simp add: degrade_tick_def Let_def)
qed (simp_all add: heartbeat_arm_def resume_enforcement_def sweep_stale_pending_templates_def begin_shutdown_def
       result_arm_def event_arm_def split_beta Let_def split: UpstreamFailurePolicy.split list.split)

lemma run_last_ack:
  assumes "gateway_run E t0 (gateway_init E t0 w ls) tr st"
  shows "gw_last_verifier_ack st = last_ack t0 tr"
  using assms
proof (induction rule: gateway_run.induct)
  case (turn tr st c i st')
  then show ?case using step_last_ack [of E c i st] by (simp add: last_ack_snoc)
qed (simp add: gateway_init_def)

lemma run_times:
  assumes "gateway_run E t0 st0 tr st" and "(c, i) \<in> set tr"
  shows "gk_now c \<le> trace_time t0 tr"
  using assms
proof (induction arbitrary: c i rule: gateway_run.induct)
  case (turn tr st c' i' st')
  then show ?case by (auto simp: trace_time_def intro: order_trans)
qed simp

text \<open>
  The starvation clock: its anchor is no earlier than the last verdict, and it is set while anything
  is pending.
\<close>

definition verdicts_before :: "nat \<Rightarrow> (gateway_clock \<times> gateway_input) list \<Rightarrow> bool" where
  "verdicts_before a tr \<longleftrightarrow> (\<forall>(c, i) \<in> set tr. \<forall>v. i = Verdict_received v \<longrightarrow> gk_now c \<le> a)"

lemma step_clock:
  "gw_verdict_starved (snd (gateway_step E c i st)) \<in>
     (if \<exists>v. i = Verdict_received v then {None, Some (gk_now c)}
      else {None, Some (gk_now c), gw_verdict_starved st})"
proof (cases i)
  case (Template_received arrived)
  then show ?thesis
    by (cases arrived) (auto simp: template_arm_eq hold_template_def template_noted_def on_enqueue_def split_beta Let_def)
qed (auto simp: verdict_arm_def on_verdict_def heartbeat_arm_def resume_enforcement_def sweep_stale_pending_templates_def
       degrade_tick_def on_flush_def begin_shutdown_def split_beta Let_def split: UpstreamFailurePolicy.split)

lemma run_clock:
  assumes "gateway_run E t0 (gateway_init E t0 w ls) tr st"
  shows "gw_verdict_starved st = Some a \<Longrightarrow> verdicts_before a tr \<and> a \<le> trace_time t0 tr"
  using assms
proof (induction arbitrary: a rule: gateway_run.induct)
  case (turn tr st c i st')
  have now: "trace_time t0 (tr @ [(c, i)]) = gk_now c" by (simp add: trace_time_def)
  have "verdicts_before (gk_now c) (tr @ [(c, i)])"
    using run_times [OF turn.hyps(1)] turn.hyps(3) by (fastforce simp: verdicts_before_def)
  moreover have "verdicts_before a (tr @ [(c, i)]) \<and> a \<le> gk_now c"
    if "gw_verdict_starved st = Some a" "\<nexists>v. i = Verdict_received v"
    using turn.IH [OF that(1)] that(2) turn.hyps(3) by (auto simp: verdicts_before_def)
  moreover have "gw_verdict_starved st' = Some a" by (rule turn.prems)
  ultimately show ?case using step_clock [of E c i st] turn.hyps(4) by (auto simp: now split: if_splits)
qed (simp add: gateway_init_def starvation_clock_new_def)

definition threshold :: "gateway_env \<Rightarrow> nat" where
  "threshold E = from_millis (gs_auto_degrade_after_ms (gc_gateway (ge_config E)))"

text \<open>What each trigger says of the turns so far.\<close>

lemma trigger_sound:
  assumes run: "gateway_run E t0 (gateway_init E t0 w ls) tr st" and now: "trace_time t0 tr \<le> gk_now c"
    and trig: "current_trigger E c st = Some trigger"
  shows "case trigger of
      HeartbeatStale \<Rightarrow> threshold E < gk_now c - last_ack t0 tr
    | VerdictStarved \<Rightarrow>
        gk_now c - last_ack t0 tr \<le> threshold E \<and>
        ((\<exists>(i, pt) \<in> set (gw_pending_templates st). threshold E < gk_now c - pt_received_at pt) \<or>
         gw_pending_templates st \<noteq> [] \<and>
         (\<forall>(c', i) \<in> set tr. \<forall>v. i = Verdict_received v \<longrightarrow> threshold E < gk_now c - gk_now c'))"
proof (cases trigger)
  case HeartbeatStale
  then show ?thesis using trig run_last_ack [OF run]
    by (auto simp: current_trigger_def degrade_trigger_for_def threshold_def Let_def split: if_splits)
next
  case VerdictStarved
  let ?age = "case gw_pending_order st of [] \<Rightarrow> None
    | i # _ \<Rightarrow> map_option (\<lambda>pt. gk_now c - pt_received_at pt) (map_of (gw_pending_templates st) i)"
  let ?elapsed = "elapsed_while_outstanding (gw_pending_order st = []) (gk_now c) (gw_verdict_starved st)"
  have ack: "gk_now c - last_ack t0 tr \<le> threshold E"
    and "(\<exists>age \<in> set_option ?age. threshold E < age) \<or> (\<exists>e \<in> set_option ?elapsed. threshold E < e)"
    using trig VerdictStarved run_last_ack [OF run]
    by (auto simp: current_trigger_def degrade_trigger_for_def threshold_def Let_def split: if_splits)
  then consider (age) age where "?age = Some age" "threshold E < age"
    | (clock) e where "?elapsed = Some e" "threshold E < e" by auto
  then show ?thesis
  proof cases
    case age
    then obtain i pt where "(i, pt) \<in> set (gw_pending_templates st)" "age = gk_now c - pt_received_at pt"
      by (auto split: list.splits dest: map_of_SomeD)
    then show ?thesis using age(2) ack VerdictStarved by auto
  next
    case clock
    then obtain a where a: "gw_verdict_starved st = Some a" "e = gk_now c - a" "gw_pending_order st \<noteq> []"
      by (auto simp: elapsed_while_outstanding_def split: if_splits)
    have "gw_pending_templates st \<noteq> []"
      using gateway_run_inv [OF run] a by (auto simp: gateway_inv_def)
    moreover have "verdicts_before a tr" using run_clock [OF run a(1)] by simp
    ultimately show ?thesis using clock(2) a(2) ack VerdictStarved
      by (fastforce simp: verdicts_before_def)
  qed
qed

lemma mode_changes:
  assumes run: "gateway_run E t0 (gateway_init E t0 w ls) tr st" and now: "trace_time t0 tr \<le> gk_now c"
    and step: "gateway_step E c i st = (r, st')"
  shows "(\<not> gw_degraded st \<and> gw_degraded st' \<longleftrightarrow>
       \<not> gw_degraded st \<and> i = Degrade_tick \<and> auto_degrade_enabled E \<and> current_trigger E c st \<noteq> None) \<and>
    (\<not> gw_degraded st \<and> gw_degraded st' \<longrightarrow> gw_degrade_trigger st' = current_trigger E c st) \<and>
    (gw_degraded st \<and> \<not> gw_degraded st' \<longleftrightarrow>
       gw_degrade_trigger st = Some VerdictStarved \<and> (\<exists>v. i = Verdict_received v) \<or>
       gw_degrade_trigger st = Some HeartbeatStale \<and> i = HeartbeatAck_received)"
proof -
  have inv: "gateway_inv E st" by (rule gateway_run_inv [OF run])
  have st': "gw_degraded st' = gw_degraded (snd (gateway_step E c i st))" by (simp add: step)
  have "gw_degrade_trigger st \<noteq> None \<longleftrightarrow> gw_degraded st" using inv by (simp add: gateway_inv_def)
  then have trig: "gw_degraded st \<Longrightarrow> gw_degrade_trigger st \<noteq> Some VerdictStarved \<longleftrightarrow> gw_degrade_trigger st = Some HeartbeatStale"
    "\<not> gw_degraded st \<Longrightarrow> gw_degrade_trigger st = None"
    by (metis DegradeTrigger.exhaust DegradeTrigger.distinct(1) option.collapse option.inject, blast)
  have new: "gw_degrade_trigger st' = current_trigger E c st" if "\<not> gw_degraded st" "gw_degraded st'"
  proof -
    have "i = Degrade_tick" "auto_degrade_enabled E" "current_trigger E c st \<noteq> None"
      using that by (auto simp: st' step_degraded split: if_splits)
    then show ?thesis using that(1) step by (auto simp: degrade_tick_def Let_def)
  qed
  show ?thesis using trig new unfolding st' step_degraded by auto
qed

section \<open>A starved gateway degrades\<close>

text \<open>Turns without a verdict during which something stays pending.\<close>

inductive starving :: "gateway_env \<Rightarrow> gateway \<Rightarrow> gateway \<Rightarrow> bool" for E st where
  here: "starving E st st"
| turn: "starving E st st1 \<Longrightarrow> gateway_step E c i st1 = (None, st2) \<Longrightarrow> \<nexists>v. i = Verdict_received v \<Longrightarrow>
    gw_pending_templates st2 \<noteq> [] \<Longrightarrow> starving E st st2"

lemma step_keeps_anchor:
  assumes "gateway_inv E st" and "gw_pending_templates st \<noteq> []" and "\<nexists>v. i = Verdict_received v"
    and "gw_pending_templates (snd (gateway_step E c i st)) \<noteq> []"
  shows "gw_verdict_starved (snd (gateway_step E c i st)) = gw_verdict_starved st"
proof (cases i)
  case (Template_received arrived)
  have "gw_verdict_starved st \<noteq> None" using assms by (simp add: gateway_inv_def)
  then show ?thesis using Template_received assms(2)
    by (cases arrived) (simp_all add: template_arm_eq hold_template_def on_enqueue_def split_beta Let_def, auto simp: template_noted_def)
next
  case Degrade_tick
  then show ?thesis using assms(4) by (auto simp: degrade_tick_def Let_def split: if_splits)
qed (use assms in \<open>auto simp: heartbeat_arm_def sweep_stale_pending_templates_def begin_shutdown_def split_beta Let_def
       split: UpstreamFailurePolicy.split\<close>)

lemma starving_keeps_anchor:
  assumes "starving E st st'" and "gateway_inv E st" and "gw_pending_templates st \<noteq> []"
  shows "gateway_inv E st' \<and> gw_pending_templates st' \<noteq> [] \<and> gw_verdict_starved st' = gw_verdict_starved st"
  using assms
proof (induction rule: starving.induct)
  case (turn st1 c i st2)
  then have "gateway_inv E st1" "gw_pending_templates st1 \<noteq> []" "gw_verdict_starved st1 = gw_verdict_starved st" by auto
  then show ?case
    using gateway_inv_step [of E st1 c i] step_keeps_anchor [of E st1 i c] turn.hyps by simp
qed simp

lemma starved_degrades:
  assumes enabled: "auto_degrade_enabled E" and run: "gateway_run E t0 (gateway_init E t0 w ls) tr st"
    and "gw_pending_templates st \<noteq> []" and "starving E st st'"
    and late: "trace_time t0 tr + threshold E < gk_now c"
  shows "gw_degraded (degrade_tick E c st') \<and> gw_pending_templates (degrade_tick E c st') = [] \<and>
    (\<forall>(i, pt) \<in> set (gw_pending_templates st'). issued_or_unusable (ge_hex E) (pt_template pt) (degrade_tick E c st'))"
proof -
  have inv: "gateway_inv E st" by (rule gateway_run_inv [OF run])
  obtain a where a: "gw_verdict_starved st = Some a" using assms(3) inv by (auto simp: gateway_inv_def)
  have st': "gateway_inv E st'" "gw_pending_templates st' \<noteq> []" "gw_verdict_starved st' = Some a"
    using starving_keeps_anchor [OF assms(4) inv assms(3)] a by auto
  have pinv: "pending_inv (gw_pending_templates st') (gw_pending_order st')" using st'(1) by (simp add: gateway_inv_def)
  have order: "gw_pending_order st' \<noteq> []" using pinv st'(2) by (cases "gw_pending_templates st'") (auto simp: pending_inv_def keys_def)
  have "a \<le> trace_time t0 tr" using run_clock [OF run a] by simp
  then have "elapsed_while_outstanding False (gk_now c) (Some a) = Some (gk_now c - a)" "threshold E < gk_now c - a"
    using late by (auto simp: elapsed_while_outstanding_def)
  then have trig: "current_trigger E c st' \<noteq> None"
    using order st'(3) by (simp add: current_trigger_def degrade_trigger_for_def threshold_def Let_def)
  have run': "\<not> gw_degraded st'" using st'(1,2) by (auto simp: gateway_inv_def)
  let ?st1 = "st'\<lparr>gw_degrade_trigger := current_trigger E c st', gw_degraded := True, gw_degraded_since := Some (gk_now c),
                 gw_unenforced_jobs := 0, gw_ready_degraded := True, gw_pending_order := []\<rparr>"
  have tick: "gw_degraded (degrade_tick E c st')" "gw_pending_templates (degrade_tick E c st') = []"
    "gw_broadcasts (degrade_tick E c st') = gw_broadcasts (flush_pending E c (gw_pending_order st') ?st1)"
    "gw_job_alloc (degrade_tick E c st') = gw_job_alloc (flush_pending E c (gw_pending_order st') ?st1)"
    using enabled run' trig by (simp_all add: degrade_tick_def Let_def)
  have "issued_or_unusable (ge_hex E) (pt_template pt) (degrade_tick E c st')"
    if "(i, pt) \<in> set (gw_pending_templates st')" for i pt
  proof -
    have "map_of (gw_pending_templates ?st1) i = Some pt" "i \<in> set (gw_pending_order st')"
      using that pinv by (auto simp: pending_inv_def keys_def)
    from flush_covers [OF this, of E c] show ?thesis by (simp add: issued_or_unusable_def tick)
  qed
  then show ?thesis using tick by blast
qed

section \<open>What the miners know\<close>

text \<open>The chain tip after a sequence of broadcasts, for a miner that saw them all.\<close>

fun tip_step :: "hash32 option \<Rightarrow> TemplateResponse \<times> JobBroadcast \<Rightarrow> hash32 option" where
  "tip_step tip (t, jb) = (case jb_prevhash_update jb of None \<Rightarrow> tip | Some u \<Rightarrow> Some (pu_prev_hash u))"

definition tip_after :: "(TemplateResponse \<times> JobBroadcast) list \<Rightarrow> hash32 option" where
  "tip_after jobs = foldl tip_step None jobs"

text \<open>A job's template is on the tip its broadcast leaves, which it announces exactly when it is new.\<close>

definition tip_ok :: "hex_crate \<Rightarrow> (TemplateResponse \<times> JobBroadcast) list \<Rightarrow> TemplateResponse \<Rightarrow> JobBroadcast \<Rightarrow> bool" where
  "tip_ok X before t jb \<longleftrightarrow>
     map_option Ok (tip_after (before @ [(t, jb)])) = Some (display_hex_to_wire_bytes X (tr_prev_hash t)) \<and>
     (jb_prevhash_update jb = None \<longleftrightarrow> tip_after before = tip_after (before @ [(t, jb)]))"

definition tips_ok :: "hex_crate \<Rightarrow> (TemplateResponse \<times> JobBroadcast) list \<Rightarrow> bool" where
  "tips_ok X jobs \<longleftrightarrow> (\<forall>before t jb after. jobs = before @ (t, jb) # after \<longrightarrow> tip_ok X before t jb)"

lemma tips_ok_snoc: "tips_ok X (jobs @ [(t, jb)]) \<longleftrightarrow> tips_ok X jobs \<and> tip_ok X jobs t jb"
  (is "?l \<longleftrightarrow> ?r")
proof
  assume l: ?l
  have "tips_ok X jobs" unfolding tips_ok_def
  proof (intro allI impI)
    fix before u ub after assume "jobs = before @ (u, ub) # after"
    then have "jobs @ [(t, jb)] = before @ (u, ub) # (after @ [(t, jb)])" by simp
    then show "tip_ok X before u ub" using l unfolding tips_ok_def by blast
  qed
  then show ?r using l unfolding tips_ok_def by simp
next
  assume r: ?r
  show ?l unfolding tips_ok_def
  proof (intro allI impI)
    fix before u ub after assume eq: "jobs @ [(t, jb)] = before @ (u, ub) # after"
    show "tip_ok X before u ub"
    proof (cases after rule: rev_cases)
      case Nil
      then show ?thesis using eq r by simp
    next
      case (snoc rest e)
      then have "jobs = before @ (u, ub) # rest" using eq by simp
      then show ?thesis using r unfolding tips_ok_def by blast
    qed
  qed
qed

definition jobs_inv :: "hex_crate \<Rightarrow> gateway \<Rightarrow> bool" where
  "jobs_inv X st \<longleftrightarrow>
     tips_ok X (gw_broadcasts st) \<and> tip_after (gw_broadcasts st) = gw_active_prev_hash st \<and>
     sorted_wrt (<) (map (jb_job_id \<circ> snd) (gw_broadcasts st)) \<and>
     (\<not> ac_exhausted (gw_job_alloc st) \<longrightarrow> (\<forall>(t, jb) \<in> set (gw_broadcasts st). jb_job_id jb < ac_next (gw_job_alloc st))) \<and>
     gw_latest_job st = (if gw_broadcasts st = [] then None else Some (snd (last (gw_broadcasts st)))) \<and>
     (\<forall>jb. gw_latest_job st = Some jb \<longrightarrow>
        (\<exists>job. job_get (gw_job_table st) (jb_job_id jb) = Some job \<and> jb = job_broadcast_for (fst (last (gw_broadcasts st))) job)) \<and>
     job_table_inv (gw_job_table st)"

lemma job_id_allocate_Some:
  assumes "fst (job_id_allocate c) = Some k"
  shows "k = ac_next c" "\<not> ac_exhausted c" "\<not> ac_exhausted (snd (job_id_allocate c))" "k < ac_next (snd (job_id_allocate c))"
proof -
  show k: "k = ac_next c" "\<not> ac_exhausted c" "\<not> ac_exhausted (snd (job_id_allocate c))"
    using assms by (auto simp: job_id_allocate_def Let_def split: if_splits)
  have nxt: "ac_next (snd (job_id_allocate c)) = k + 1" and "k \<noteq> - 1"
    using assms by (auto simp: job_id_allocate_def Let_def split: if_splits)
  then have "unat k \<noteq> 2 ^ 32 - 1" using unat_max_u32 by (metis word_unat_eq_iff)
  moreover have "unat k < 2 ^ LENGTH(32)" by (rule unsigned_less)
  ultimately have "unat (k + 1) = unat k + 1" by (subst unat_add_if_fits) simp_all
  then show "k < ac_next (snd (job_id_allocate c))" by (simp add: nxt word_less_nat_alt)
qed

lemma jobs_inv_broadcast:
  assumes inv: "jobs_inv X st"
  shows "jobs_inv X (broadcast_job_from_template X c t st)"
proof (cases "fst (job_id_allocate (gw_job_alloc st)) = None \<or> \<not> usable_template X t")
  case True
  have "ac_exhausted (snd (job_id_allocate (gw_job_alloc st))) \<or>
      ac_next (gw_job_alloc st) \<le> ac_next (snd (job_id_allocate (gw_job_alloc st))) \<and> \<not> ac_exhausted (gw_job_alloc st)"
    using job_id_allocate_exhausted(2) [of "gw_job_alloc st"] job_id_allocate_Some [of "gw_job_alloc st"]
    by (cases "fst (job_id_allocate (gw_job_alloc st))") (auto simp: less_imp_le)
  then show ?thesis using inv
    unfolding broadcast_refused [OF True] jobs_inv_def by (fastforce intro: less_le_trans)
next
  case False
  then obtain k where k: "fst (job_id_allocate (gw_job_alloc st)) = Some k" and u: "usable_template X t" by auto
  obtain p job where st': "broadcast_job_from_template X c t st =
       st\<lparr>gw_job_alloc := snd (job_id_allocate (gw_job_alloc st)), gw_active_prev_hash := Some p,
          gw_job_table := job_insert (gk_now c) job (gw_job_table st),
          gw_latest_job := Some (job_broadcast_for t job),
          gw_broadcasts := gw_broadcasts st @ [(t, job_broadcast_for t job)]\<rparr>"
    and job: "jr_job_id job = k" "display_hex_to_wire_bytes X (tr_prev_hash t) = Ok p" "jr_prev_hash job = p"
      "jr_activated job \<longleftrightarrow> gw_active_prev_hash st \<noteq> Some p"
    by (rule broadcast_issued [OF k u])
  have tip: "tip_after (gw_broadcasts st @ [(t, job_broadcast_for t job)]) = Some p"
    using inv job(3,4) by (auto simp: jobs_inv_def tip_after_def job_broadcast_for_def)
  have "tip_after (gw_broadcasts st) = gw_active_prev_hash st" using inv by (simp add: jobs_inv_def)
  then have ok: "tip_ok X (gw_broadcasts st) t (job_broadcast_for t job)"
    using tip job(2,4) by (simp add: tip_ok_def job_broadcast_for_def)
  have lt: "\<forall>(t, jb) \<in> set (gw_broadcasts st). jb_job_id jb < k"
    using inv job_id_allocate_Some [OF k] by (auto simp: jobs_inv_def)
  have get: "job_get (job_insert (gk_now c) job (gw_job_table st)) (jb_job_id (job_broadcast_for t job)) = Some job"
    using job_get_insert [of "gw_job_table st" "gk_now c" job] inv by (simp add: jobs_inv_def job_broadcast_for_def)
  have "jb_job_id (job_broadcast_for t job) = k" by (simp add: job_broadcast_for_def job(1))
  then show ?thesis
    using inv tip ok lt get job_id_allocate_Some [OF k] job_table_inv_insert [of "gw_job_table st" "gk_now c" job]
    unfolding st' jobs_inv_def by (fastforce simp: tips_ok_snoc sorted_wrt_append intro: less_trans)
qed

text \<open>The invariant speaks of the jobs, the allocator and the table only.\<close>

definition jobs_core where
  "jobs_core st = (gw_broadcasts st, gw_active_prev_hash st, gw_latest_job st, gw_job_alloc st, gw_job_table st)"

lemma jobs_inv_core: "jobs_core st' = jobs_core st \<Longrightarrow> jobs_inv X st \<Longrightarrow> jobs_inv X st'"
  by (simp add: jobs_core_def jobs_inv_def)

lemma jobs_inv_flush: "jobs_inv (ge_hex E) st \<Longrightarrow> jobs_inv (ge_hex E) (flush_pending E c order st)"
proof (induction E c order st rule: flush_pending.induct)
  case (2 E c i order st)
  show ?case
  proof (cases "map_of (gw_pending_templates st) i")
    case (Some pt)
    let ?st = "st\<lparr>gw_pending_templates := AList.delete i (gw_pending_templates st)\<rparr>"
    let ?b = "broadcast_job_from_template (ge_hex E) c (pt_template pt) ?st"
    have "jobs_inv (ge_hex E) ?st" using "2.prems" by (rule jobs_inv_core [rotated]) (simp add: jobs_core_def)
    then have "jobs_inv (ge_hex E) ?b" by (rule jobs_inv_broadcast)
    then have "jobs_inv (ge_hex E) (?b\<lparr>gw_unenforced_jobs := gw_unenforced_jobs ?b + 1\<rparr>)"
      by (rule jobs_inv_core [rotated]) (simp add: jobs_core_def)
    then show ?thesis using 2(2) [OF Some refl] Some by (simp add: Let_def)
  qed (use 2 in simp)
qed simp

lemma jobs_inv_settle:
  assumes "jobs_inv (ge_hex E) st"
  shows "jobs_inv (ge_hex E) (settle_pending E c v st)"
proof (cases "map_of (gw_pending_templates st) (tv_id v)")
  case (Some pt)
  have same: "jobs_inv (ge_hex E) s" if "jobs_core s = jobs_core st" for s by (rule jobs_inv_core [OF that assms])
  show ?thesis
  proof (cases "tv_accepted v")
    case True
    then show ?thesis using Some
      by (simp add: settle_pending_def Let_def) (rule jobs_inv_broadcast, rule same, simp add: jobs_core_def)
  qed (use Some in \<open>auto simp: settle_pending_def Let_def jobs_core_def intro!: same\<close>)
qed (simp add: settle_pending_def assms)

lemma jobs_inv_step:
  assumes inv: "jobs_inv (ge_hex E) st"
  shows "jobs_inv (ge_hex E) (snd (gateway_step E c i st))"
proof -
  have same: "jobs_inv (ge_hex E) st'" if "jobs_core st' = jobs_core st" for st'
    by (rule jobs_inv_core [OF that inv])
  show ?thesis
  proof (cases i)
    case (Template_received arrived)
    have noted: "jobs_inv (ge_hex E) (template_noted E c t st)" for t
      by (rule same) (simp add: jobs_core_def template_noted_def)
    have "jobs_inv (ge_hex E) (hold_template c t (template_noted E c t st))" for t
      by (rule same) (simp add: jobs_core_def template_noted_def hold_template_def split_beta Let_def)
    moreover have "jobs_inv (ge_hex E) (s\<lparr>gw_unenforced_jobs := n\<rparr>)" if "jobs_inv (ge_hex E) s" for s n
      by (rule jobs_inv_core [OF _ that]) (simp add: jobs_core_def)
    ultimately show ?thesis using Template_received inv jobs_inv_broadcast [OF noted]
      by (cases arrived) (auto simp: template_arm_eq Let_def jobs_core_def intro!: same)
  next
    case (Verdict_received v)
    have noted: "jobs_inv (ge_hex E) (verdict_noted c v st)"
      by (rule same) (simp add: jobs_core_def verdict_noted_def resume_enforcement_def Let_def)
    have "jobs_inv (ge_hex E) (s\<lparr>gw_verdict_starved := n\<rparr>)" if "jobs_inv (ge_hex E) s" for s n
      by (rule jobs_inv_core [OF _ that]) (simp add: jobs_core_def)
    then show ?thesis using Verdict_received noted jobs_inv_settle [OF noted] by (simp add: verdict_arm_eq Let_def)
  next
    case Degrade_tick
    let ?st1 = "st\<lparr>gw_degrade_trigger := current_trigger E c st, gw_degraded := True, gw_degraded_since := Some (gk_now c),
                 gw_unenforced_jobs := 0, gw_ready_degraded := True, gw_pending_order := []\<rparr>"
    have "jobs_inv (ge_hex E) ?st1" by (rule same) (simp add: jobs_core_def)
    from jobs_inv_flush [OF this, of c "gw_pending_order st"] show ?thesis
      using Degrade_tick inv by (auto simp: degrade_tick_def Let_def jobs_core_def elim!: jobs_inv_core [rotated])
  qed (auto simp: heartbeat_arm_def resume_enforcement_def sweep_stale_pending_templates_def begin_shutdown_def
         result_arm_def event_arm_def jobs_core_def split_beta Let_def inv intro!: same
         split: UpstreamFailurePolicy.split list.split)
qed

lemma run_jobs_inv:
  assumes "gateway_run E t0 (gateway_init E t0 w ls) tr st"
  shows "jobs_inv (ge_hex E) st"
  using assms
proof (induction rule: gateway_run.induct)
  case started
  show ?case by (simp add: jobs_inv_def gateway_init_def tips_ok_def tip_after_def)
next
  case (turn tr st c i st')
  then show ?case using jobs_inv_step [OF turn.IH, of c i] by simp
qed

section \<open>A sample run\<close>

text \<open>An inline gateway with the default timing receives a template at time 1 and holds it.\<close>

definition sample_gw_env :: gateway_env where
  "sample_gw_env = \<lparr>ge_config = sample_gateway_config, ge_hex = lower_hex, ge_wal_lib = flat_lib\<rparr>"

definition at_time :: "nat \<Rightarrow> gateway_clock" where
  "at_time n = \<lparr>gk_now = n, gk_unix_secs = 100, gk_unix_ms = 100000, gk_outbound_open = True\<rparr>"

definition sample_template :: "u64 \<Rightarrow> TemplateResponse" where
  "sample_template i =
     \<lparr>tr_template_id = i, tr_block_height = 1, tr_block_version = 2,
      tr_prev_hash = replicate 64 (CHR ''a''), tr_nbits = 7, tr_min_ntime = 99, tr_curtime = 99,
      tr_coinbase_value = 50, tr_coinbase_tx_prefix = [], tr_coinbase_tx_suffix = [], tr_merkle_path = [],
      tr_tx_count = 1, tr_total_fees = 3000, tr_source_instance_id = ''tm'', tr_observed_weight = None,
      tr_template_weight = None, tr_total_sigops = None, tr_coinbase_sigops = None, tr_raw_block_hex = None\<rparr>"

definition sample_verdict :: TemplateVerdict where
  "sample_verdict = \<lparr>tv_version = 2, tv_id = 7, tv_accepted = True, tv_reason_code = None,
     tv_reason_detail = None, tv_policy_context = None\<rparr>"

definition sample_start :: gateway where
  "sample_start = gateway_init sample_gw_env 0 None []"

definition sample_held :: gateway where
  "sample_held = template_arm sample_gw_env (at_time 1) (sample_template 7) sample_start"

lemma sample_template_fields [simp]:
  "tr_template_id (sample_template i) = i" "tr_source_instance_id (sample_template i) = ''tm''"
  by (simp_all add: sample_template_def)

lemma sample_env_fields [simp]:
  "ge_config sample_gw_env = sample_gateway_config" "ge_hex sample_gw_env = lower_hex" "gk_now (at_time n) = n"
  by (simp_all add: sample_gw_env_def at_time_def)

lemma sample_template_usable: "usable_template lower_hex (sample_template i)"
proof -
  have "\<not> isl (display_hex_to_wire_bytes lower_hex (replicate 64 (CHR ''a'')))" by code_simp
  then show ?thesis by (simp add: usable_template_def sample_template_def) (simp add: lower_hex_def)
qed

lemma sample_held_run:
  "gateway_run sample_gw_env 0 (gateway_init sample_gw_env 0 None [])
     [(at_time 1, Template_received (Some (sample_template 7)))] sample_held"
  using gateway_run.turn [OF gateway_run.started, of "at_time 1" "Template_received (Some (sample_template 7))"
      "gateway_init sample_gw_env 0 None []" 0 sample_gw_env sample_held]
  by (simp add: trace_time_def sample_held_def sample_start_def)

lemma sample_held_state:
  "gw_pending_templates sample_held = [(7, \<lparr>pt_template = sample_template 7, pt_received_at = 1\<rparr>)]"
  "gw_pending_order sample_held = [7]" "\<not> gw_degraded sample_held" "gw_broadcasts sample_held = []"
  "gw_job_alloc sample_held = counter_new" "gw_last_verifier_ack sample_held = 0"
  "duplicate_template (sample_template 7) sample_held"
  by (simp_all add: sample_held_def sample_start_def gateway_init_def template_arm_eq duplicate_template_def is_duplicate_def
      dedup_cache_new_def hold_template_def template_noted_def)

lemma sample_threshold: "threshold sample_gw_env = 10000000000"
  by (simp add: threshold_def from_millis_def)

lemma sample_degrade_enabled: "auto_degrade_enabled sample_gw_env"
  by (simp add: auto_degrade_enabled_def)

lemma sample_issued:
  assumes "tv_id v = 7" and "tv_accepted v"
  shows "\<exists>jb. gw_broadcasts (verdict_arm sample_gw_env (at_time 2) v sample_held) = [(sample_template 7, jb)] \<and>
     \<not> gw_degraded (verdict_arm sample_gw_env (at_time 2) v sample_held)"
proof -
  let ?st = "(verdict_noted (at_time 2) v sample_held)
    \<lparr>gw_pending_templates := [], gw_pending_order := [], gw_stale_hold_deadline := None\<rparr>"
  have alloc: "fst (job_id_allocate (gw_job_alloc ?st)) = Some 1"
    by (simp add: verdict_noted_def sample_held_state job_id_allocate_def counter_new_def)
  have "gw_broadcasts (verdict_arm sample_gw_env (at_time 2) v sample_held) =
      gw_broadcasts (broadcast_job_from_template lower_hex (at_time 2) (sample_template 7) ?st)"
    by (simp add: verdict_arm_eq settle_pending_def sample_held_state assms Let_def)
  moreover obtain p job where "broadcast_job_from_template lower_hex (at_time 2) (sample_template 7) ?st =
       ?st\<lparr>gw_job_alloc := snd (job_id_allocate (gw_job_alloc ?st)), gw_active_prev_hash := Some p,
          gw_job_table := job_insert (gk_now (at_time 2)) job (gw_job_table ?st),
          gw_latest_job := Some (job_broadcast_for (sample_template 7) job),
          gw_broadcasts := gw_broadcasts ?st @ [(sample_template 7, job_broadcast_for (sample_template 7) job)]\<rparr>"
    by (rule broadcast_issued [OF alloc sample_template_usable])
  ultimately show ?thesis by (simp add: sample_held_state verdict_arm_degraded)
qed

lemma sample_starved: "current_trigger sample_gw_env (at_time 10000000002) sample_held = Some HeartbeatStale"
  by (simp add: current_trigger_def degrade_trigger_for_def sample_held_state from_millis_def)

section \<open>Guarantees\<close>

text \<open>While verdicts are enforced and the gateway is not degraded, the only jobs that reach the
  miners are made from templates the verifier accepted: a turn that leaves the gateway enforcing
  broadcasts a job only when it received an accepting verdict, for the identifier of a template that
  arrived before it and had no other verdict since, and the job carries that template's coinbase and
  merkle path.\<close>

theorem enforced_jobs_verified:
  assumes "gateway_run E t0 (gateway_init E t0 w ls) tr st" and "gateway_step E c i st = (r, st')"
    and "enforces_verdicts (gc_mode (ge_config E))" and "\<not> gw_degraded st'"
    and "(t, jb) \<in> set (drop (length (gw_broadcasts st)) (gw_broadcasts st'))"
  shows "job_matches (ge_hex E) t jb \<and>
    (\<exists>v tr1 c' tr2. i = Verdict_received v \<and> tv_accepted v \<and> tv_id v = tr_template_id t \<and>
       tr = tr1 @ (c', Template_received (Some t)) # tr2 \<and> no_verdict_for (tr_template_id t) tr2)"
  by (rule enforced_job [OF assms])

theorem enforced_jobs_verified_witness:
  "\<exists>jb. (sample_template 7, jb) \<in> set (gw_broadcasts (verdict_arm sample_gw_env (at_time 2) sample_verdict sample_held)) \<and>
     job_matches lower_hex (sample_template 7) jb"
proof -
  obtain jb where jb: "gw_broadcasts (verdict_arm sample_gw_env (at_time 2) sample_verdict sample_held) = [(sample_template 7, jb)]"
    "\<not> gw_degraded (verdict_arm sample_gw_env (at_time 2) sample_verdict sample_held)" using sample_issued [of sample_verdict] by (auto simp: sample_verdict_def)
  then have "job_matches lower_hex (sample_template 7) jb"
    using enforced_jobs_verified [OF sample_held_run gateway_step.simps(3) _ jb(2), of "sample_template 7" jb]
    by (simp add: sample_held_state)
  then show ?thesis using jb(1) by auto
qed

text \<open>At every moment at most two templates are held, each under its own identifier and in the
  order queue; a degraded gateway holds none, has no stale-hold deadline and says why and since when
  it is degraded; and while something is held the starvation clock runs.\<close>

theorem gateway_state_consistent:
  assumes "gateway_run E t0 (gateway_init E t0 w ls) tr st"
  shows "length (gw_pending_templates st) \<le> 2 \<and> distinct (map fst (gw_pending_templates st)) \<and>
    keys (gw_pending_templates st) \<subseteq> set (gw_pending_order st) \<and>
    (\<forall>(i, pt) \<in> set (gw_pending_templates st). tr_template_id (pt_template pt) = i) \<and>
    (gw_degraded st \<longrightarrow> gw_pending_templates st = [] \<and> gw_stale_hold_deadline st = None) \<and>
    (gw_degrade_trigger st \<noteq> None \<longleftrightarrow> gw_degraded st) \<and> (gw_degraded_since st \<noteq> None \<longleftrightarrow> gw_degraded st) \<and>
    gw_ready_degraded st = gw_degraded st \<and>
    (gw_pending_templates st \<noteq> [] \<longrightarrow> gw_verdict_starved st \<noteq> None)"
  using gateway_run_inv [OF assms] unfolding gateway_inv_def pending_inv_def by blast

theorem gateway_state_consistent_witness:
  "length (gw_pending_templates sample_held) \<le> 2 \<and> gw_verdict_starved sample_held \<noteq> None"
  using gateway_state_consistent [OF sample_held_run] by (simp add: sample_held_state)

text \<open>C6. No template is lost silently. A template the gateway drops as a duplicate is still held for
  its verdict, or a verdict for its identifier has arrived, or a template with its identifier was
  made into a job, or cannot be made into one: eviction, sweep and degradation all release what they
  drop.\<close>

theorem no_template_lost:
  assumes "gateway_run E t0 (gateway_init E t0 w ls) tr st" and "duplicate_template t st"
  shows "tr_template_id t \<in> keys (gw_pending_templates st) \<or> answered E tr st (tr_template_id t)"
proof -
  have "dedup_cache_inv (gw_dedup_cache st)" using gateway_run_inv [OF assms(1)] by (simp add: gateway_inv_def)
  then have "(tr_source_instance_id t, tr_template_id t) \<in> dc_seen (gw_dedup_cache st)"
    using assms(2) is_duplicate_spec(1) by (auto simp: duplicate_template_def)
  then show ?thesis using run_suppressed [OF assms(1)]
    by (fastforce simp: suppressed_ok_def keys_map_of split: option.splits)
qed

theorem no_template_lost_witness:
  "duplicate_template (sample_template 7) sample_held \<and>
    (7 \<in> keys (gw_pending_templates sample_held) \<or>
     answered sample_gw_env [(at_time 1, Template_received (Some (sample_template 7)))] sample_held 7)"
  using no_template_lost [OF sample_held_run sample_held_state(7)] by (simp add: sample_held_state)



text \<open>C8. A verifier that stops answering is noticed, however templates churn. If something is held
  and from then on no verdict arrives while something stays held, then a check made more than the
  threshold later finds the gateway degraded, with nothing held and every template that was held made
  into a job, unless it cannot be.\<close>

theorem starved_gateway_degrades:
  assumes "auto_degrade_enabled E" and "gateway_run E t0 (gateway_init E t0 w ls) tr st"
    and "gw_pending_templates st \<noteq> []" and "starving E st st'"
    and "trace_time t0 tr + threshold E < gk_now c"
  shows "gw_degraded (degrade_tick E c st') \<and> gw_pending_templates (degrade_tick E c st') = [] \<and>
    (\<forall>(i, pt) \<in> set (gw_pending_templates st'). issued_or_unusable (ge_hex E) (pt_template pt) (degrade_tick E c st'))"
  by (rule starved_degrades [OF assms])

theorem starved_gateway_degrades_witness:
  "gw_degraded (degrade_tick sample_gw_env (at_time 10000000002) sample_held)"
  using starved_gateway_degrades [OF sample_degrade_enabled sample_held_run _ starving.here, of "at_time 10000000002"]
  by (simp add: sample_held_state trace_time_def sample_threshold)

text \<open>C9. A miner that saw every broadcast is always on the right chain tip: after each job the last
  announced previous hash is the one of that job's template, a job announces it exactly when it is
  new, job identifiers only grow, and the latest
  job, which new channels are given, is the last one broadcast and is found in the job table under its
  identifier.\<close>

theorem miners_track_tip:
  assumes "gateway_run E t0 (gateway_init E t0 w ls) tr st"
  shows "tips_ok (ge_hex E) (gw_broadcasts st) \<and> tip_after (gw_broadcasts st) = gw_active_prev_hash st \<and>
    sorted_wrt (<) (map (jb_job_id \<circ> snd) (gw_broadcasts st)) \<and>
    gw_latest_job st = (if gw_broadcasts st = [] then None else Some (snd (last (gw_broadcasts st)))) \<and>
    (\<forall>jb. gw_latest_job st = Some jb \<longrightarrow>
       (\<exists>job. job_get (gw_job_table st) (jb_job_id jb) = Some job \<and> jb = job_broadcast_for (fst (last (gw_broadcasts st))) job))"
  using run_jobs_inv [OF assms] unfolding jobs_inv_def by blast

theorem miners_track_tip_witness:
  "gw_latest_job sample_held = None \<and> tip_after (gw_broadcasts sample_held) = gw_active_prev_hash sample_held"
  using miners_track_tip [OF sample_held_run] by (simp add: sample_held_state)

text \<open>
  The pending set is keyed by the template identifier alone. A template of another source under the
  same identifier takes the place of the held one, and the verdict on the first releases the second.
\<close>

lemma same_id_replaces_pending:
  assumes "t = (sample_template 7)\<lparr>tr_source_instance_id := ''other'', tr_coinbase_tx_prefix := ''00''\<rparr>"
    and "st = template_arm sample_gw_env (at_time 2) t sample_held"
  shows "gw_pending_templates st = [(7, \<lparr>pt_template = t, pt_received_at = 2\<rparr>)]"
    and "tv_id sample_verdict = tr_template_id t" and "t \<noteq> sample_template 7"
proof -
  have "\<not> duplicate_template t sample_held"
    by (simp add: assms(1) duplicate_template_def sample_held_def sample_start_def gateway_init_def template_arm_eq
        is_duplicate_def dedup_cache_new_def hold_template_def template_noted_def)
  then show "gw_pending_templates st = [(7, \<lparr>pt_template = t, pt_received_at = 2\<rparr>)]"
    by (simp add: assms template_arm_eq sample_held_state hold_template_def)
  show "tv_id sample_verdict = tr_template_id t" "t \<noteq> sample_template 7"
    by (simp_all add: assms(1) sample_verdict_def sample_template_def)
qed

text \<open>Everything proposed to the verifier is a template that arrived.\<close>

lemma step_proposed:
  "p \<in> set (gw_proposed (snd (gateway_step E c i st))) \<Longrightarrow> p \<in> set (gw_proposed st) \<or>
     (\<exists>t. i = Template_received (Some t) \<and> p = build_template_propose t (gs_gateway_instance_id (gc_gateway (ge_config E))))"
proof (cases i)
  case (Template_received arrived)
  assume "p \<in> set (gw_proposed (snd (gateway_step E c i st)))"
  then show ?thesis using Template_received
    by (cases arrived) (auto simp: template_arm_eq template_noted_def Let_def split: if_splits)
next
  case Degrade_tick
  have "gw_proposed (flush_pending E c order s) = gw_proposed s" for order s
    by (induction E c order s rule: flush_pending.induct) (simp_all add: Let_def split: option.split)
  moreover assume "p \<in> set (gw_proposed (snd (gateway_step E c i st)))"
  ultimately show ?thesis using Degrade_tick by (simp add: degrade_tick_def Let_def split: if_splits)
qed (auto simp: verdict_arm_eq heartbeat_arm_def sweep_stale_pending_templates_def begin_shutdown_def split_beta Let_def
       split: if_splits UpstreamFailurePolicy.splits)

lemma run_proposed:
  assumes "gateway_run E t0 (gateway_init E t0 w ls) tr st" and "p \<in> set (gw_proposed st)"
  shows "\<exists>c t. (c, Template_received (Some t)) \<in> set tr \<and>
    p = build_template_propose t (gs_gateway_instance_id (gc_gateway (ge_config E)))"
  using assms
proof (induction rule: gateway_run.induct)
  case (turn tr st c i st')
  then show ?case using step_proposed [of p E c i st] by auto
qed (simp add: gateway_init_def)

text \<open>An observing gateway that broadcast two templates on one tip.\<close>

definition observe_env :: gateway_env where
  "observe_env = sample_gw_env\<lparr>ge_config := sample_gateway_config\<lparr>gc_mode := Observe\<rparr>\<rparr>"

definition observe_start :: gateway where
  "observe_start = gateway_init observe_env 0 None []"

definition observed :: gateway where
  "observed = template_arm observe_env (at_time 3) (sample_template 8)
     (template_arm observe_env (at_time 2) (sample_template 7) observe_start)"

lemma observed_run:
  "gateway_run observe_env 0 (gateway_init observe_env 0 None [])
     [(at_time 2, Template_received (Some (sample_template 7))), (at_time 3, Template_received (Some (sample_template 8)))] observed"
proof -
  have "gateway_run observe_env 0 observe_start ([] @ [(at_time 2, Template_received (Some (sample_template 7)))])
      (template_arm observe_env (at_time 2) (sample_template 7) observe_start)"
    by (rule gateway_run.turn [OF gateway_run.started]) (simp_all add: trace_time_def)
  from gateway_run.turn [OF this, of "at_time 3" "Template_received (Some (sample_template 8))"] show ?thesis
    by (simp add: trace_time_def observed_def observe_start_def)
qed

lemma broadcast_one:
  assumes "gw_job_alloc st = \<lparr>ac_next = n, ac_exhausted = False\<rparr>" and "n \<noteq> - 1"
  shows "\<exists>jb. gw_broadcasts (broadcast_job_from_template lower_hex c (sample_template i) st) = gw_broadcasts st @ [(sample_template i, jb)] \<and>
    gw_job_alloc (broadcast_job_from_template lower_hex c (sample_template i) st) = \<lparr>ac_next = n + 1, ac_exhausted = False\<rparr>"
proof -
  have "fst (job_id_allocate (gw_job_alloc st)) = Some n" using assms by (simp add: job_id_allocate_def)
  then show ?thesis
    by (rule broadcast_issued [OF _ sample_template_usable [of i], where c = c])
      (use assms in \<open>auto simp: job_id_allocate_def\<close>)
qed

lemma observed_jobs: "\<exists>jb jb'. gw_broadcasts observed = [(sample_template 7, jb), (sample_template 8, jb')]"
proof -
  let ?st1 = "template_arm observe_env (at_time 2) (sample_template 7) observe_start"
  have mode: "gc_mode (ge_config observe_env) = Observe" "ge_hex observe_env = lower_hex" by (simp_all add: observe_env_def)
  have "\<not> duplicate_template (sample_template 7) observe_start"
    by (simp add: duplicate_template_def observe_start_def gateway_init_def is_duplicate_def dedup_cache_new_def)
  then have st1: "?st1 = broadcast_job_from_template lower_hex (at_time 2) (sample_template 7)
      (template_noted observe_env (at_time 2) (sample_template 7) observe_start)"
    by (simp add: template_arm_eq mode observe_start_def gateway_init_def Let_def)
  obtain jb where jb: "gw_broadcasts ?st1 = [(sample_template 7, jb)]" "gw_job_alloc ?st1 = \<lparr>ac_next = 2, ac_exhausted = False\<rparr>"
    using broadcast_one [of "template_noted observe_env (at_time 2) (sample_template 7) observe_start" 1 "at_time 2" 7]
    unfolding st1 by (auto simp: observe_start_def gateway_init_def template_noted_def counter_new_def)
  have "\<not> duplicate_template (sample_template 8) ?st1"
    unfolding st1
    by (simp add: duplicate_template_def observe_start_def gateway_init_def is_duplicate_def dedup_cache_new_def template_noted_def)
  moreover have "\<not> gw_degraded ?st1" unfolding st1 by (simp add: observe_start_def gateway_init_def)
  ultimately have "observed = broadcast_job_from_template lower_hex (at_time 3) (sample_template 8)
      (template_noted observe_env (at_time 3) (sample_template 8) ?st1)"
    by (simp add: observed_def template_arm_eq [of _ "at_time 3"] mode Let_def)
  then show ?thesis
    using jb broadcast_one [of "template_noted observe_env (at_time 3) (sample_template 8) ?st1" 2 "at_time 3" 8]
    by (auto simp: template_noted_def)
qed

end
