(* ===== verification/RG_Production.thy ===== *)
theory RG_Production
  imports RG_TemplateManager RG_Gating
begin

text \<open>
  From the node to the miner: what the template manager builds
  (\<open>services/template-manager/src/main.rs\<close>) meets what the gateway makes of it
  (\<open>services/sv2-gateway/src/main.rs\<close>, \<open>handler.rs\<close>). The template the manager serves at
  \<open>/latest\<close> is the one the gateway polls.
\<close>

definition served_template :: "manager_env \<Rightarrow> TemplatePropose \<Rightarrow> GbtExtras \<Rightarrow> TemplateResponse" where
  "served_template E p extras = TemplateResponse.truncate (latest_template E p extras)"

lemma served_template_fields [simp]:
  "tr_coinbase_tx_prefix (served_template E p x) = ge_coinbase_tx_prefix x"
  "tr_coinbase_tx_suffix (served_template E p x) = ge_coinbase_tx_suffix x"
  "tr_merkle_path (served_template E p x) = ge_merkle_path x"
  "tr_prev_hash (served_template E p x) = tp_prev_hash p"
  "tr_raw_block_hex (served_template E p x) = tp_raw_block_hex p"
  by (simp_all add: served_template_def latest_template_def TemplateResponse.defs)

text \<open>The proposal the gateway sends on is the manager's, under the gateway's name.\<close>

lemma gateway_proposes_same:
  "build_template_propose (served_template E (template_propose i tpl s v now raw) x) g =
    (template_propose i tpl s v now raw)\<lparr>tp_created_at_unix_ms := tp_created_at_unix_ms
       (build_template_propose (served_template E (template_propose i tpl s v now raw) x) g),
     tp_gateway_instance_id := Some g\<rparr>"
  by (simp add: build_template_propose_def served_template_def latest_template_def TemplateResponse.defs
      template_propose_def Let_def)

lemma template_propose_raw: "tp_raw_block_hex (template_propose i tpl s v now raw) = raw"
  by (simp add: template_propose_def Let_def)

lemma build_template_Built:
  assumes "build_template E script n tid tpl cb_sigops now = Built (p, x)"
  obtains pre suf path where
    "build_coinbase_halves (ucast (gbt_height tpl)) (coinbase_value_of tpl) script n
       (coinbase_aux_bytes (me_hex E) (gbt_coinbaseaux tpl))
       (if gbt_default_witness_commitment tpl = [] then None else Some (gbt_default_witness_commitment tpl)) = Built (pre, suf)"
    "compute_merkle_branch (me_crypto E) (me_hex E) (map gt_txid (gbt_transactions tpl)) = Built path"
    "ge_coinbase_tx_prefix x = hex_encode (me_hex E) pre" "ge_coinbase_tx_suffix x = hex_encode (me_hex E) suf"
    "ge_merkle_path x = path" "tp_prev_hash p = gbt_previous_block_hash tpl"
proof -
  let ?halves = "build_coinbase_halves (ucast (gbt_height tpl)) (coinbase_value_of tpl) script n
       (coinbase_aux_bytes (me_hex E) (gbt_coinbaseaux tpl))
       (if gbt_default_witness_commitment tpl = [] then None else Some (gbt_default_witness_commitment tpl))"
  let ?branch = "compute_merkle_branch (me_crypto E) (me_hex E) (map gt_txid (gbt_transactions tpl))"
  obtain pre suf where h: "?halves = Built (pre, suf)"
    using assms by (cases ?halves) (auto simp: build_template_def Let_def)
  obtain path where b: "?branch = Built path"
    using assms h by (cases ?branch) (auto simp: build_template_def Let_def)
  show thesis
    by (rule that [OF h b]) (use assms h b in \<open>auto simp: build_template_def Let_def template_propose_def\<close>)
qed

lemma parse_merkle_path_hex:
  "hex_crate_ok X \<Longrightarrow> \<forall>h \<in> set path. length h = 32 \<Longrightarrow> parse_merkle_path X (map (hex_encode X) path) = Some path"
  by (induction path) (simp_all add: hex_crate_ok_def)

text \<open>The coinbase a channel mines on, when its extranonce has the length the template was built for.\<close>

definition channel_coinbase :: "hex_crate \<Rightarrow> bytes \<Rightarrow> GetBlockTemplateResult \<Rightarrow> bytes \<Rightarrow> Transaction" where
  "channel_coinbase X script tpl xn =
     coinbase_tx (bip34_height_push (ucast (gbt_height tpl)) @ coinbase_aux_bytes X (gbt_coinbaseaux tpl) @ xn)
       (coinbase_value_of tpl) script
       (if gbt_default_witness_commitment tpl = [] then None else Some (gbt_default_witness_commitment tpl))"

definition txids_honest :: "bitcoin_api \<Rightarrow> hex_crate \<Rightarrow> GetBlockTemplateResult \<Rightarrow> Transaction list \<Rightarrow> bool" where
  "txids_honest B X tpl txs \<longleftrightarrow>
     list_all2 (\<lambda>t tx. gt_txid t = hex_encode X (rev (compute_txid B tx))) (gbt_transactions tpl) txs"

lemma served_job_root:
  assumes crate: "bitcoin_crate_ok B C" and hex: "hex_crate_ok X" and sha: "sha256_ok C"
    and txids: "txids_honest B X tpl txs" and env: "me_crypto E = C" "me_hex E = X"
    and built: "build_template E script n tid tpl cb_sigops now = Built (p, x)"
    and job: "job_matches X (served_template E p x) jb" and xn: "length xn = n"
    and b: "bk_txdata b = channel_coinbase X script tpl xn # txs"
  shows "tx_bytes (channel_coinbase X script tpl xn) = jb_coinbase_tx_prefix jb @ xn @ jb_coinbase_tx_suffix jb"
    and "block_merkle_root B b =
      Some (compute_merkle_root C (jb_coinbase_tx_prefix jb) xn (jb_coinbase_tx_suffix jb) (jb_merkle_path jb))"
proof -
  have hashes: "list_all2 (\<lambda>d h. d = hex_encode X (rev h) \<and> length h = 32) (map gt_txid (gbt_transactions tpl))
      (map (compute_txid B) txs)"
    using txids crate sha
    by (auto simp: txids_honest_def bitcoin_crate_ok_def list_all2_map1 list_all2_map2 elim!: list_all2_mono)
  obtain path where path: "compute_merkle_branch C X (map gt_txid (gbt_transactions tpl)) = Built (map (hex_encode X) path)"
    "\<forall>h \<in> set path. length h = 32"
    "\<And>h. foldl (\<lambda>current sibling. sha256d C (current @ sibling)) h path = merkle_root C (h # map (compute_txid B) txs)"
    using merkle_branch_root [OF hex sha hashes] by blast
  obtain pre suf where halves: "build_coinbase_halves (ucast (gbt_height tpl)) (coinbase_value_of tpl) script n
       (coinbase_aux_bytes X (gbt_coinbaseaux tpl))
       (if gbt_default_witness_commitment tpl = [] then None else Some (gbt_default_witness_commitment tpl)) = Built (pre, suf)"
    and x: "ge_coinbase_tx_prefix x = hex_encode X pre" "ge_coinbase_tx_suffix x = hex_encode X suf"
      "ge_merkle_path x = map (hex_encode X) path"
    by (rule build_template_Built [OF built]) (use path(1) in \<open>simp add: env\<close>)
  have parts: "jb_coinbase_tx_prefix jb = pre" "jb_coinbase_tx_suffix jb = suf" "jb_merkle_path jb = path"
    using job hex x parse_merkle_path_hex [OF hex path(2)] by (auto simp: job_matches_def hex_crate_ok_def)
  show bytes: "tx_bytes (channel_coinbase X script tpl xn) = jb_coinbase_tx_prefix jb @ xn @ jb_coinbase_tx_suffix jb"
    using coinbase_halves_bytes [OF halves xn] by (simp add: channel_coinbase_def parts)
  have "compute_txid B (channel_coinbase X script tpl xn) = sha256d C (pre @ xn @ suf)"
    using crate bytes parts by (simp add: bitcoin_crate_ok_def)
  then show "block_merkle_root B b =
      Some (compute_merkle_root C (jb_coinbase_tx_prefix jb) xn (jb_coinbase_tx_suffix jb) (jb_merkle_path jb))"
    using honest_merkle_root [OF crate b] path(3) by (simp add: compute_merkle_root_def parts Let_def)
qed

lemma served_usable:
  assumes "bitcoin_crate_ok B C" and "hex_crate_ok X" and "sha256_ok C"
    and "txids_honest B X tpl txs" and "me_crypto E = C" "me_hex E = X"
    and built: "build_template E script n tid tpl cb_sigops now = Built (p, x)"
    and "length prev = 32" and "gbt_previous_block_hash tpl = hex_encode X (rev prev)"
  shows "usable_template X (served_template E p x)"
proof -
  have hashes: "list_all2 (\<lambda>d h. d = hex_encode X (rev h) \<and> length h = 32) (map gt_txid (gbt_transactions tpl))
      (map (compute_txid B) txs)"
    using assms(1,3,4)
    by (auto simp: txids_honest_def bitcoin_crate_ok_def list_all2_map1 list_all2_map2 elim!: list_all2_mono)
  obtain path where path: "compute_merkle_branch C X (map gt_txid (gbt_transactions tpl)) = Built (map (hex_encode X) path)"
    "\<forall>h \<in> set path. length h = 32"
    using merkle_branch_root [OF assms(2,3) hashes] by blast
  show ?thesis
  proof (rule build_template_Built [OF built], unfold assms(5,6))
    fix pre suf path'
    assume "compute_merkle_branch C X (map gt_txid (gbt_transactions tpl)) = Built path'"
      and "ge_coinbase_tx_prefix x = hex_encode X pre" and "ge_coinbase_tx_suffix x = hex_encode X suf"
      and "ge_merkle_path x = path'" and "tp_prev_hash p = gbt_previous_block_hash tpl"
    then show ?thesis
      using assms(2,8,9) path parse_merkle_path_hex [OF assms(2) path(2)]
      by (simp add: usable_template_def display_hex_to_wire_bytes_def hex_crate_ok_def)
  qed
qed

lemma node_honest_txids: "node_honest B X tpl txs \<Longrightarrow> txids_honest B X tpl txs"
  by (auto simp: node_honest_def txids_honest_def entry_honest_def elim!: list_all2_mono)

lemma declarations_match_cong:
  "declarations_match B (p\<lparr>tp_created_at_unix_ms := a, tp_gateway_instance_id := g\<rparr>) block = declarations_match B p block"
  by (simp add: declarations_match_def)

section \<open>Properties\<close>

text \<open>C4. A template of an honest node always becomes work. When the node's answer describes the
  transactions it carries, commits to their witnesses and leaves room for the coinbase, the manager builds a
  template with its raw block; the shield of the verifier agrees to the manager's proposal and to the
  one the gateway sends on, because the height, the value, the counts, the weight, the signature
  operations, the merkle root and the witness commitment declared are those derived from the block; and
  the gateway can make a job of it.\<close>

theorem honest_template_agreed:
  assumes "bitcoin_crate_ok B C" and "hex_crate_ok X" and "sha256_ok C"
    and "node_honest B X tpl txs" and "coinbase_fits B C X script n tpl txs"
    and "reads_back B C X script n tpl txs"
    and "me_bitcoin E = B" and "me_crypto E = C" and "me_hex E = X"
    and "\<And>d. cb_sigops = Some d \<Longrightarrow> 4 * tx_sigops B (template_coinbase X script n tpl) \<le> unat d"
  shows "\<exists>p extras. build_template E script n tid tpl cb_sigops now = Built (p, extras) \<and>
    check_invariant_shield X B p = SO_Agreed \<and>
    check_invariant_shield X B (build_template_propose (served_template E p extras) g) = SO_Agreed \<and>
    usable_template X (served_template E p extras)"
proof -
  let ?block = "honest_block B C X script n tpl txs"
  let ?p = "template_propose tid tpl cb_sigops (coinbase_value_of tpl) now (Some (hex_encode X (serialize_block B ?block)))"
  from honest_template_built [OF assms(1-9)]
  obtain x where built: "build_template E script n tid tpl cb_sigops now = Built (?p, x)" by blast
  have reads: "deserialize_block B (serialize_block B ?block) = Some ?block"
    using assms(6) by (simp add: reads_back_def Let_def)
  note valid = honest_consensus_valid [OF assms(1,4,5)] and declared = honest_declarations [OF assms(4,10)]
  have "check_invariant_shield X B ?p = SO_Agreed"
    by (rule shield_agrees [OF assms(2) reads valid declared]) (simp_all add: template_propose_raw)
  moreover have "check_invariant_shield X B (build_template_propose (served_template E ?p x) g) = SO_Agreed"
    by (subst gateway_proposes_same, rule shield_agrees [OF assms(2) reads valid])
      (simp_all add: declarations_match_cong declared template_propose_raw)
  moreover have "usable_template X (served_template E ?p x)"
    using assms(4) served_usable [OF assms(1-3) node_honest_txids [OF assms(4)] assms(8,9) built]
    by (auto simp: node_honest_def)
  ultimately show ?thesis using built by blast
qed

theorem honest_template_agreed_witness:
  "\<exists>p extras. build_template sample_manager_env [0x51] 4 7 sample_gbt None 1 = Built (p, extras) \<and>
    check_invariant_shield lower_hex (sample_api sample_block) p = SO_Agreed \<and>
    check_invariant_shield lower_hex (sample_api sample_block)
      (build_template_propose (served_template sample_manager_env p extras) ''g'') = SO_Agreed \<and>
    usable_template lower_hex (served_template sample_manager_env p extras)"
  by (rule honest_template_agreed [OF sample_crate_ok lower_hex_ok sample_hash_ok sample_node_honest
        sample_coinbase_fits sample_reads_back]) (simp_all add: sample_manager_env_def)

text \<open>C5. A miner hashes the header of the block it would produce. Whatever the gateway broadcasts
  from the template it is served, prefix, extranonce and suffix are the serialization of a coinbase that
  pays the declared value, commits to the height and carries the miner's whole extranonce, and
  the merkle root the gateway checks a share against is the merkle root of the block with that
  coinbase in front of the node's transactions, provided that the extranonce has the length the
  manager was configured for.\<close>

theorem miner_root_is_block_root:
  assumes "bitcoin_crate_ok B C" and "hex_crate_ok X" and "sha256_ok C" and "txids_honest B X tpl txs"
    and "me_crypto E = C" and "me_hex E = X"
    and "build_template E script n tid tpl cb_sigops now = Built (p, x)"
    and "gw_broadcasts (broadcast_job_from_template X c (served_template E p x) st) = gw_broadcasts st @ [(t, jb)]"
    and "length xn = n" and "bk_txdata b = channel_coinbase X script tpl xn # txs"
  shows "tx_bytes (channel_coinbase X script tpl xn) = jb_coinbase_tx_prefix jb @ xn @ jb_coinbase_tx_suffix jb \<and>
    block_merkle_root B b =
      Some (compute_merkle_root C (jb_coinbase_tx_prefix jb) xn (jb_coinbase_tx_suffix jb) (jb_merkle_path jb))"
proof -
  have "job_matches X (served_template E p x) jb"
    by (rule broadcast_grows [of X c "served_template E p x" st]) (use assms(8) in auto)
  from served_job_root [OF assms(1-7) this assms(9,10)] show ?thesis by simp
qed

text \<open>C34. One template does not serve both kinds of channels. The coinbase script has room for an
  extranonce of one length only: a standard channel fills it with its prefix alone, an extended one
  with its prefix and at least four bytes of the miner, so for every configured length one of the
  two assembles bytes that are no coinbase carrying its extranonce, although its shares are
  checked against the root of those bytes.\<close>

theorem one_kind_of_channel:
  assumes "build_coinbase_halves h v script n aux wc = Built (pre, suf)"
    and "fst (extranonce_allocate a) = Some x"
    and "length y = unat (extranonce_size_granted (xa_prefix_len a) min_size)"
    and "xa_prefix_len a \<le> 8" and "min_size \<le> 8"
  shows "\<not> ((\<exists>tx i. tx_bytes tx = pre @ x @ suf \<and> tx_input tx = [i] \<and>
          length (op_txid (ti_previous_output i)) = 32 \<and> ti_script_sig i = bip34_height_push h @ aux @ x) \<and>
      (\<exists>tx i. tx_bytes tx = pre @ y @ suf \<and> tx_input tx = [i] \<and>
          length (op_txid (ti_previous_output i)) = 32 \<and> ti_script_sig i = bip34_height_push h @ aux @ y))"
proof -
  have "length x = xa_prefix_len a"
    using assms(2) by (auto simp: extranonce_allocate_eq split_beta Let_def length_extranonce_prefix)
  moreover have "unat min_size \<le> 8" using assms(5) by (simp add: word_le_nat_alt)
  then have "unat (extranonce_size_granted (xa_prefix_len a) min_size) = xa_prefix_len a + max (unat min_size) 4"
    using assms(4) by (simp add: extranonce_size_granted_def unat_of_nat del: of_nat_add)
  ultimately have "length x \<noteq> length y" using assms(3) by simp
  then show ?thesis unfolding extranonce_fits [OF assms(1)] by simp
qed

lemma sample_served:
  obtains p x where "build_template sample_manager_env [0x51] 4 7 sample_gbt None 1 = Built (p, x)"
    "usable_template lower_hex (served_template sample_manager_env p x)"
proof -
  have env: "me_bitcoin sample_manager_env = sample_api sample_block" "me_crypto sample_manager_env = sample_hash"
    "me_hex sample_manager_env = lower_hex" by (simp_all add: sample_manager_env_def)
  from honest_template_built [OF sample_crate_ok lower_hex_ok sample_hash_ok sample_node_honest
        sample_coinbase_fits sample_reads_back env]
  obtain p x where built: "build_template sample_manager_env [0x51] 4 7 sample_gbt None 1 = Built (p, x)" by blast
  have "gbt_previous_block_hash sample_gbt = hex_encode lower_hex (rev (replicate 32 3))" by (simp add: sample_gbt_def)
  from that [OF built served_usable [OF sample_crate_ok lower_hex_ok sample_hash_ok
        node_honest_txids [OF sample_node_honest] env(2,3) built _ this]]
  show thesis by simp
qed

theorem miner_root_is_block_root_witness:
  "\<exists>pre suf path. tx_bytes (channel_coinbase lower_hex [0x51] sample_gbt [1, 2, 3, 4]) = pre @ [1, 2, 3, 4] @ suf \<and>
     block_merkle_root (sample_api sample_block)
       (sample_block\<lparr>bk_txdata := [channel_coinbase lower_hex [0x51] sample_gbt [1, 2, 3, 4], sample_spend]\<rparr>) =
       Some (compute_merkle_root sample_hash pre [1, 2, 3, 4] suf path)"
proof -
  obtain p x where built: "build_template sample_manager_env [0x51] 4 7 sample_gbt None 1 = Built (p, x)"
    and usable: "usable_template lower_hex (served_template sample_manager_env p x)" by (rule sample_served)
  have "fst (job_id_allocate (gw_job_alloc sample_start)) \<noteq> None"
    by (simp add: sample_start_def gateway_init_def job_id_allocate_def counter_new_def)
  then obtain t jb where "gw_broadcasts (broadcast_job_from_template lower_hex (at_time 1) (served_template sample_manager_env p x) sample_start)
      = gw_broadcasts sample_start @ [(t, jb)]"
    using usable
    by (rule_tac broadcast_grows [of lower_hex "at_time 1" "served_template sample_manager_env p x" sample_start])
      (auto simp: length_Suc_conv le_Suc_eq)
  from miner_root_is_block_root [OF sample_crate_ok lower_hex_ok sample_hash_ok node_honest_txids [OF sample_node_honest]
      _ _ built this, of "[1, 2, 3, 4]"
        "sample_block\<lparr>bk_txdata := [channel_coinbase lower_hex [0x51] sample_gbt [1, 2, 3, 4], sample_spend]\<rparr>"]
  show ?thesis by (auto simp: sample_manager_env_def)
qed

theorem one_kind_of_channel_witness:
  "\<exists>pre suf. build_coinbase_halves 840000 1 [0x51] 4 [] None = Built (pre, suf) \<and>
     \<not> (\<exists>tx i. tx_bytes tx = pre @ replicate 8 7 @ suf \<and> tx_input tx = [i] \<and>
          length (op_txid (ti_previous_output i)) = 32 \<and>
          ti_script_sig i = bip34_height_push 840000 @ [] @ replicate 8 7)"
proof -
  obtain pre suf where halves: "build_coinbase_halves 840000 1 [0x51] 4 [] None = Built (pre, suf)"
    using coinbase_halves_Built [of 840000 1 "[0x51]" 4 "[]" None] by (auto simp: sample_height)
  have x: "fst (extranonce_allocate extranonce_new) = Some (extranonce_prefix 4 1)"
    by (simp add: extranonce_new_def with_prefix_len_def extranonce_allocate_eq channel_id_allocate_def counter_new_def)
  have y: "length (replicate 8 7) = unat (extranonce_size_granted (xa_prefix_len extranonce_new) 2)"
    by (simp add: extranonce_new_def with_prefix_len_def extranonce_size_granted_def)
  have "length (extranonce_prefix 4 1) = 4" by (rule length_extranonce_prefix)
  then show ?thesis
    using one_kind_of_channel [OF halves x y] extranonce_fits [OF halves, of "extranonce_prefix 4 1"] halves
    by (auto simp: extranonce_new_def with_prefix_len_def)
qed

end
