(* ===== verification/RG_VerifierStream.thy ===== *)
theory RG_VerifierStream
  imports RG_Ingress RG_Reasons "HOL-Library.Sublist"
begin

text \<open>
  The gateway's connection to the verifier, \<open>services/sv2-gateway/src/verifier_stream.rs\<close>, and the
  readiness it feeds, \<open>health.rs\<close>: bounded lines read across cancelled reads, the dispatch of
  messages, the select loop with its silence check, the writer that fails a stalled write, the
  reconnect loop, and the probes. Sockets are what arrives and when; JSON is a parameter. Instants and
  durations are natural numbers of nanoseconds.
\<close>

section \<open>Readiness\<close>

record ReadinessState =
  rs_verifier_connected :: bool
  rs_policy_loaded :: bool
  rs_upstream_reachable :: bool
  rs_noise_cert_loaded :: bool
  rs_listener_bound :: bool
  rs_share_upstream_reachable :: bool
  rs_draining :: bool
  rs_degraded :: bool

definition readiness_new :: ReadinessState where
  "readiness_new =
     \<lparr>rs_verifier_connected = False, rs_policy_loaded = False, rs_upstream_reachable = False,
      rs_noise_cert_loaded = False, rs_listener_bound = False, rs_share_upstream_reachable = False,
      rs_draining = False, rs_degraded = False\<rparr>"

definition is_ready :: "bool \<Rightarrow> ReadinessState \<Rightarrow> bool" where
  "is_ready requires_listener s =
     (if rs_draining s then False
      else let base = (rs_verifier_connected s \<and> rs_policy_loaded s \<and> rs_upstream_reachable s) in
        if requires_listener then base \<and> rs_noise_cert_loaded s \<and> rs_listener_bound s else base)"

definition set_draining :: "ReadinessState \<Rightarrow> ReadinessState" where
  "set_draining s = s\<lparr>rs_draining := True\<rparr>"

definition set_degraded :: "ReadinessState \<Rightarrow> ReadinessState" where
  "set_degraded s = s\<lparr>rs_degraded := True\<rparr>"

definition clear_degraded :: "ReadinessState \<Rightarrow> ReadinessState" where
  "clear_degraded s = s\<lparr>rs_degraded := False\<rparr>"

record HealthResponse =
  hr_http_status :: u16
  hr_status :: string
  hr_reason_code :: "string option"
  hr_degraded :: "bool option"

definition not_ready :: "GatewayReason \<Rightarrow> HealthResponse" where
  "not_ready reason =
     \<lparr>hr_http_status = 503, hr_status = ''not_ready'', hr_reason_code = Some (gateway_as_str reason),
      hr_degraded = None\<rparr>"

definition healthz :: HealthResponse where
  "healthz = \<lparr>hr_http_status = 200, hr_status = ''ok'', hr_reason_code = None, hr_degraded = None\<rparr>"

definition readyz :: "ReadinessState \<Rightarrow> HealthResponse" where
  "readyz s =
     (if rs_draining s then not_ready GR_ShutdownDrain
      else if is_ready True s \<or> rs_degraded s
      then \<lparr>hr_http_status = 200, hr_status = (if rs_degraded s then ''degraded'' else ''ok''),
            hr_reason_code = None, hr_degraded = Some (rs_degraded s)\<rparr>
      else not_ready GR_StartupPending)"

definition readyz_shadow :: "ReadinessState \<Rightarrow> HealthResponse" where
  "readyz_shadow s =
     (if is_ready False s
      then \<lparr>hr_http_status = 200, hr_status = ''ok'', hr_reason_code = None, hr_degraded = None\<rparr>
      else if rs_draining s then not_ready GR_ShutdownDrain
      else not_ready GR_StartupPending)"

section \<open>Messages\<close>

record 'v InternalMessage =
  im_msg_type :: string
  im_version :: u16
  im_payload :: 'v

definition TEMPLATE_VERDICT :: string where "TEMPLATE_VERDICT = ''template_verdict''"
definition HEARTBEAT_ACK :: string where "HEARTBEAT_ACK = ''heartbeat_ack''"

datatype VerifierOutbound = Out_TemplatePropose TemplatePropose | Out_Heartbeat

datatype VerifierInbound = In_TemplateVerdict TemplateVerdict | In_HeartbeatAck

text \<open>What is used of \<open>serde_json\<close>; \<open>None\<close> is its error.\<close>

record 'v json_crate =
  jc_message :: "bytes \<Rightarrow> 'v InternalMessage option"
  jc_verdict :: "'v \<Rightarrow> TemplateVerdict option"
  jc_propose :: "TemplatePropose \<Rightarrow> 'v option"
  jc_empty :: 'v
  jc_render :: "'v InternalMessage \<Rightarrow> string option"

definition serialize_outbound :: "'v json_crate \<Rightarrow> VerifierOutbound \<Rightarrow> string option" where
  "serialize_outbound J msg =
     (case (case msg of
              Out_TemplatePropose tp \<Rightarrow>
                (case jc_propose J tp of
                   None \<Rightarrow> None
                 | Some payload \<Rightarrow> Some \<lparr>im_msg_type = TEMPLATE_PROPOSE, im_version = PROTOCOL_VERSION, im_payload = payload\<rparr>)
            | Out_Heartbeat \<Rightarrow>
                Some \<lparr>im_msg_type = HEARTBEAT, im_version = PROTOCOL_VERSION, im_payload = jc_empty J\<rparr>) of
        None \<Rightarrow> None
      | Some internal \<Rightarrow> (case jc_render J internal of None \<Rightarrow> None | Some line \<Rightarrow> Some (line @ [CHR 0x0A])))"

section \<open>Log samples\<close>

definition LOG_SAMPLE_BYTES :: nat where
  "LOG_SAMPLE_BYTES = 512"

text \<open>Strings are their UTF-8 bytes: a boundary is a place where no continuation byte follows.\<close>

definition is_char_boundary :: "string \<Rightarrow> nat \<Rightarrow> bool" where
  "is_char_boundary s i \<longleftrightarrow>
     i = 0 \<or> i = length s \<or> i < length s \<and> (of_char (s ! i) :: u8) AND 0xC0 \<noteq> 0x80"

fun boundary_below :: "string \<Rightarrow> nat \<Rightarrow> nat" where
  "boundary_below s 0 = 0"
| "boundary_below s (Suc e) = (if \<not> is_char_boundary s (Suc e) then boundary_below s e else Suc e)"

definition truncation_mark :: "nat \<Rightarrow> string" where
  "truncation_mark n = '' (truncated, '' @ show_nat n @ '' bytes total)''"

definition log_sample :: "string \<Rightarrow> string" where
  "log_sample line =
     (if length line \<le> LOG_SAMPLE_BYTES then line
      else take (boundary_below line LOG_SAMPLE_BYTES) line @ truncation_mark (length line))"

text \<open>The capping sink of \<open>log_display\<close>: what it keeps, and how much it was offered.\<close>

definition capped_write_str :: "string \<Rightarrow> string \<times> nat \<Rightarrow> string \<times> nat" where
  "capped_write_str s sink =
     (case sink of (kept, offered) \<Rightarrow>
        let room = min (LOG_SAMPLE_BYTES - length kept) (length s)
        in (kept @ take (boundary_below s room) s, offered + length s))"

definition log_display :: "string list \<Rightarrow> string" where
  "log_display pieces =
     (case fold capped_write_str pieces ([], 0) of (kept, offered) \<Rightarrow>
        if length kept < offered then kept @ truncation_mark offered else kept)"

section \<open>Bounded lines\<close>

datatype BoundedLine = BL_Line | BL_Eof | BL_OverLimit

text \<open>\<open>take(remaining).read_until(b'\n')\<close> on the bytes at hand: what is appended, and what stays unread.\<close>

fun read_until :: "nat \<Rightarrow> bytes \<Rightarrow> bytes \<times> bytes" where
  "read_until 0 bs = ([], bs)"
| "read_until (Suc n) [] = ([], [])"
| "read_until (Suc n) (b # bs) =
     (if b = 0x0A then ([b], bs) else case read_until n bs of (got, rest) \<Rightarrow> (b # got, rest))"

definition ends_with_newline :: "bytes \<Rightarrow> bool" where
  "ends_with_newline bs \<longleftrightarrow> bs \<noteq> [] \<and> last bs = 0x0A"

text \<open>
  One poll of \<open>read_bounded_line\<close>: the unread bytes, whether the peer has closed, and the line buffer.
  \<open>None\<close> is a read still waiting; dropping it leaves the buffer as it is, which is what the next
  call goes on with.
\<close>

definition read_bounded_line :: "nat \<Rightarrow> bool \<Rightarrow> bytes \<Rightarrow> bytes \<Rightarrow> BoundedLine option \<times> bytes \<times> bytes" where
  "read_bounded_line max_bytes peer_closed unread buf =
     (let remaining = max_bytes - length buf in
      if remaining = 0 then (Some BL_OverLimit, unread, buf)
      else case read_until remaining unread of (got, rest) \<Rightarrow>
        let n = length got; buf = buf @ got in
        if \<not> (ends_with_newline got \<or> n = remaining \<or> peer_closed) then (None, rest, buf)
        else if n = 0 \<and> buf = [] then (Some BL_Eof, rest, buf)
        else if remaining \<le> n \<and> \<not> ends_with_newline buf then (Some BL_OverLimit, rest, buf)
        else (Some BL_Line, rest, buf))"

definition is_ascii_whitespace :: "u8 \<Rightarrow> bool" where
  "is_ascii_whitespace b \<longleftrightarrow> b \<in> {0x20, 0x09, 0x0A, 0x0C, 0x0D}"

definition trim_ascii :: "bytes \<Rightarrow> bytes" where
  "trim_ascii bs = rev (dropWhile is_ascii_whitespace (rev (dropWhile is_ascii_whitespace bs)))"

section \<open>The connection\<close>

text \<open>
  The loop's variables, with what it has done so far: the lines handled, the messages published to the
  event loop and the lines written.
\<close>

definition READ_DEADLINE_BEATS :: nat where
  "READ_DEADLINE_BEATS = 3"

datatype IoLoopOutcome = Disconnected | Shut_down

record io_loop =
  io_unread :: bytes
  io_line_buf :: bytes
  io_last_heard :: nat
  io_rechecking :: bool
  io_malformed_count :: nat
  io_lines :: "bytes list"
  io_published :: "VerifierInbound list"
  io_written :: "string list"
  io_readiness :: ReadinessState

definition dispatch_inbound :: "'v json_crate \<Rightarrow> 'v InternalMessage \<Rightarrow> io_loop \<Rightarrow> io_loop" where
  "dispatch_inbound J msg st =
     (if im_msg_type msg = TEMPLATE_VERDICT
      then (case jc_verdict J (im_payload msg) of
              Some verdict \<Rightarrow> st\<lparr>io_published := io_published st @ [In_TemplateVerdict verdict]\<rparr>
            | None \<Rightarrow> st)
      else if im_msg_type msg = HEARTBEAT_ACK
      then st\<lparr>io_readiness := (io_readiness st)\<lparr>rs_policy_loaded := True\<rparr>,
              io_published := io_published st @ [In_HeartbeatAck]\<rparr>
      else st)"

text \<open>A complete line: it is heard, parsed and dispatched, or counted as malformed, and cleared.\<close>

definition handle_verifier_line :: "'v json_crate \<Rightarrow> nat \<Rightarrow> io_loop \<Rightarrow> IoLoopOutcome option \<times> io_loop" where
  "handle_verifier_line J now st =
     (let line = io_line_buf st;
          st = st\<lparr>io_last_heard := now, io_lines := io_lines st @ [line]\<rparr>
      in case jc_message J (trim_ascii line) of
           Some msg \<Rightarrow> (None, (dispatch_inbound J msg st)\<lparr>io_line_buf := []\<rparr>)
         | None \<Rightarrow>
             let st = st\<lparr>io_malformed_count := io_malformed_count st + 1\<rparr>
             in if 3 \<le> io_malformed_count st then (Some Disconnected, st) else (None, st\<lparr>io_line_buf := []\<rparr>))"

text \<open>What becomes of a write: it takes some time, or it fails.\<close>

datatype write_result = Written nat | Write_failed

definition outbound_arm ::
  "'v json_crate \<Rightarrow> nat \<Rightarrow> VerifierOutbound \<Rightarrow> write_result \<Rightarrow> io_loop \<Rightarrow> IoLoopOutcome option \<times> io_loop" where
  "outbound_arm J now outbound result st =
     (case serialize_outbound J outbound of
        None \<Rightarrow> (None, st)
      | Some line \<Rightarrow>
          (case result of
             Write_failed \<Rightarrow> (Some Disconnected, st)
           | Written took \<Rightarrow>
               (None, st\<lparr>io_written := io_written st @ [line],
                         io_last_heard := min (io_last_heard st + took) (now + took)\<rparr>)))"

definition heartbeat_tick ::
  "'v json_crate \<Rightarrow> nat \<Rightarrow> nat \<Rightarrow> write_result \<Rightarrow> io_loop \<Rightarrow> IoLoopOutcome option \<times> io_loop" where
  "heartbeat_tick J read_deadline now result st =
     (let silent = now - io_last_heard st in
      if read_deadline < silent
      then (if \<not> io_rechecking st then (None, st\<lparr>io_rechecking := True\<rparr>) else (Some Disconnected, st))
      else let st = st\<lparr>io_rechecking := False\<rparr> in
        case serialize_outbound J Out_Heartbeat of
          None \<Rightarrow> (None, st)
        | Some hb \<Rightarrow>
            (case result of
               Write_failed \<Rightarrow> (Some Disconnected, st)
             | Written _ \<Rightarrow> (None, st\<lparr>io_written := io_written st @ [hb]\<rparr>)))"

text \<open>
  What a turn of the loop finds: the time, the bytes that have arrived since the last turn, whether
  the peer closed or the socket failed, and which of the other arms is ready.
\<close>

datatype socket_state = Sock_open | Sock_closed | Sock_failed

datatype io_arm =
    Arm_none
  | Arm_outbound VerifierOutbound write_result
  | Arm_outbound_closed
  | Arm_tick write_result
  | Arm_shutdown

record io_turn =
  it_now :: nat
  it_arrived :: bytes
  it_socket :: socket_state
  it_arm :: io_arm

definition other_arm :: "'v json_crate \<Rightarrow> nat \<Rightarrow> io_turn \<Rightarrow> io_loop \<Rightarrow> IoLoopOutcome option \<times> io_loop" where
  "other_arm J read_deadline t st =
     (case it_arm t of
        Arm_none \<Rightarrow> (None, st)
      | Arm_outbound msg result \<Rightarrow> outbound_arm J (it_now t) msg result st
      | Arm_outbound_closed \<Rightarrow> (Some Shut_down, st)
      | Arm_tick result \<Rightarrow> heartbeat_tick J read_deadline (it_now t) result st
      | Arm_shutdown \<Rightarrow> (Some Shut_down, st))"

text \<open>The biased select: the read is polled first, and an arm runs only when the read waits.\<close>

definition io_step :: "'v json_crate \<Rightarrow> nat \<Rightarrow> io_turn \<Rightarrow> io_loop \<Rightarrow> IoLoopOutcome option \<times> io_loop" where
  "io_step J read_deadline t st =
     (case read_bounded_line MAX_INTERNAL_LINE_BYTES (it_socket t = Sock_closed) (io_unread st @ it_arrived t)
             (io_line_buf st) of
        (r, unread, buf) \<Rightarrow>
          let st = st\<lparr>io_unread := unread, io_line_buf := buf\<rparr> in
          case r of
            Some BL_Eof \<Rightarrow> (Some Disconnected, st)
          | Some BL_OverLimit \<Rightarrow> (Some Disconnected, st)
          | Some BL_Line \<Rightarrow> handle_verifier_line J (it_now t) st
          | None \<Rightarrow>
              if it_socket t = Sock_failed then (Some Disconnected, st)
              else other_arm J read_deadline t st)"

definition io_start :: "nat \<Rightarrow> ReadinessState \<Rightarrow> io_loop" where
  "io_start now readiness =
     \<lparr>io_unread = [], io_line_buf = [], io_last_heard = now, io_rechecking = False, io_malformed_count = 0,
      io_lines = [], io_published = [], io_written = [], io_readiness = readiness\<rparr>"

definition read_deadline_of :: "nat \<Rightarrow> nat" where
  "read_deadline_of heartbeat_interval = heartbeat_interval * READ_DEADLINE_BEATS"

text \<open>
  A run of the loop: the turns so far, and the outcome once there is one. A turn starts after the
  earlier ones have ended, and a write it made is part of it.
\<close>

definition turn_end :: "io_turn \<Rightarrow> nat" where
  "turn_end t =
     it_now t + (case it_arm t of Arm_outbound _ (Written took) \<Rightarrow> took | Arm_tick (Written took) \<Rightarrow> took | _ \<Rightarrow> 0)"

inductive io_run ::
  "'v json_crate \<Rightarrow> nat \<Rightarrow> nat \<Rightarrow> ReadinessState \<Rightarrow> io_turn list \<Rightarrow> IoLoopOutcome option \<Rightarrow> io_loop \<Rightarrow> bool"
  for J d t0 rs where
  io_begin: "io_run J d t0 rs [] None (io_start t0 rs)"
| io_next: "io_run J d t0 rs ts None st \<Longrightarrow> (\<forall>u \<in> set ts. turn_end u \<le> it_now t) \<Longrightarrow> t0 \<le> it_now t \<Longrightarrow>
    io_step J d t st = (out, st') \<Longrightarrow> io_run J d t0 rs (ts @ [t]) out st'"

section \<open>The stalled write\<close>

record stall_guard =
  sg_stall :: nat
  sg_blocked_since :: "nat option"

datatype inner_poll = Inner_ready | Inner_pending

datatype stall_poll = Stall_ready | Stall_pending | Stall_timed_out

definition stall_guard_new :: "nat \<Rightarrow> stall_guard" where
  "stall_guard_new stall = \<lparr>sg_stall = stall, sg_blocked_since = None\<rparr>"

text \<open>\<open>poll_write\<close> and \<open>poll_flush\<close>: a sleep of \<open>stall\<close> starts with the first pending poll.\<close>

definition poll_guarded :: "nat \<Rightarrow> inner_poll \<Rightarrow> stall_guard \<Rightarrow> stall_poll \<times> stall_guard" where
  "poll_guarded now inner g =
     (case inner of
        Inner_ready \<Rightarrow> (Stall_ready, g\<lparr>sg_blocked_since := None\<rparr>)
      | Inner_pending \<Rightarrow>
          let since = (case sg_blocked_since g of None \<Rightarrow> now | Some s \<Rightarrow> s);
              g = g\<lparr>sg_blocked_since := Some since\<rparr>
          in if since + sg_stall g \<le> now then (Stall_timed_out, g) else (Stall_pending, g))"

section \<open>Reconnecting\<close>

definition reconnect_jitter_ms :: "nat \<Rightarrow> nat \<Rightarrow> nat" where
  "reconnect_jitter_ms reconnect_delay_ms hash =
     (let half = min (reconnect_delay_ms div 2) (2 ^ 64 - 1) in hash mod max half 1)"

text \<open>How a connect ends; a connection is what its loop makes of the readiness it is started with.\<close>

datatype connect_result =
    Connect_failed_tcp
  | Connect_failed_tls
  | Connected "ReadinessState \<Rightarrow> IoLoopOutcome \<times> ReadinessState"

text \<open>
  One round of \<open>run_verifier_stream\<close>: whether it goes on, and the readiness after it. A failed TCP
  connect skips the rest of the round.
\<close>

definition stream_round :: "connect_result \<Rightarrow> ReadinessState \<Rightarrow> bool \<times> ReadinessState" where
  "stream_round result rs =
     (let rs = rs\<lparr>rs_verifier_connected := False\<rparr>;
          lost = (\<lambda>rs. rs\<lparr>rs_verifier_connected := False, rs_policy_loaded := False\<rparr>)
      in case result of
           Connect_failed_tcp \<Rightarrow> (True, rs)
         | Connect_failed_tls \<Rightarrow> (True, lost rs)
         | Connected io_loop_of \<Rightarrow>
             (case io_loop_of (rs\<lparr>rs_verifier_connected := True\<rparr>) of
                (Shut_down, rs') \<Rightarrow> (False, rs')
              | (Disconnected, rs') \<Rightarrow> (True, lost rs')))"

section \<open>Reading lines\<close>

lemma read_until_append:
  "read_until n bs = (got, rest) \<Longrightarrow> got @ rest = bs"
  by (induction n bs arbitrary: got rule: read_until.induct) (auto split: if_splits prod.splits)

lemma read_until_length:
  "read_until n bs = (got, rest) \<Longrightarrow> length got \<le> n"
  by (induction n bs arbitrary: got rule: read_until.induct) (auto split: if_splits prod.splits)

text \<open>A newline is only ever the end of what one read appends, and a read that stops early drains the socket.\<close>

lemma read_until_newline:
  "read_until n bs = (got, rest) \<Longrightarrow> 0x0A \<notin> set (butlast got)"
  by (induction n bs arbitrary: got rule: read_until.induct) (auto split: if_splits prod.splits)

lemma read_until_drains:
  "read_until n bs = (got, rest) \<Longrightarrow> \<not> ends_with_newline got \<Longrightarrow> length got < n \<Longrightarrow> rest = []"
proof (induction n bs arbitrary: got rule: read_until.induct)
  case (3 n b bs)
  then show ?case
    by (cases "b = 0x0A"; cases "fst (read_until n bs) = []")
      (auto simp: ends_with_newline_def split: prod.splits)
qed auto

text \<open>The reference: the newline-terminated lines of a stream and the unterminated rest.\<close>

fun ndjson_split :: "bytes \<Rightarrow> bytes list \<times> bytes" where
  "ndjson_split [] = ([], [])"
| "ndjson_split (b # bs) =
     (case ndjson_split bs of (ls, rest) \<Rightarrow>
        if b = 0x0A then ([b] # ls, rest)
        else case ls of [] \<Rightarrow> ([], b # rest) | l # ls \<Rightarrow> ((b # l) # ls, rest))"

definition ndjson_line :: "bytes \<Rightarrow> bool" where
  "ndjson_line l \<longleftrightarrow> ends_with_newline l \<and> 0x0A \<notin> set (butlast l)"

lemma ndjson_split_line:
  "ndjson_line l \<Longrightarrow> ndjson_split (l @ bs) = (l # fst (ndjson_split bs), snd (ndjson_split bs))"
proof (induction l)
  case (Cons b l)
  show ?case
  proof (cases "l = []")
    case True
    then show ?thesis
      using Cons.prems by (simp add: ndjson_line_def ends_with_newline_def split: prod.split)
  next
    case False
    then have "ndjson_line l" "b \<noteq> 0x0A"
      using Cons.prems by (auto simp: ndjson_line_def ends_with_newline_def)
    then show ?thesis
      using Cons.IH by simp
  qed
qed (simp add: ndjson_line_def ends_with_newline_def)

lemma ndjson_split_lines:
  "\<forall>l \<in> set ls. ndjson_line l \<Longrightarrow>
   ndjson_split (concat ls @ bs) = (ls @ fst (ndjson_split bs), snd (ndjson_split bs))"
  by (induction ls) (simp_all add: ndjson_split_line)

lemma ndjson_split_partial:
  "0x0A \<notin> set bs \<Longrightarrow> ndjson_split bs = ([], bs)"
  by (induction bs) auto

lemma ends_with_newline_append:
  "ends_with_newline (buf @ got) \<longleftrightarrow> ends_with_newline got \<or> got = [] \<and> ends_with_newline buf"
  by (cases "got = []") (auto simp: ends_with_newline_def)

lemma no_newline_ends:
  "0x0A \<notin> set bs \<Longrightarrow> \<not> ends_with_newline bs"
  by (metis ends_with_newline_def last_in_set)

lemma no_newline_split:
  "0x0A \<notin> set (butlast bs) \<Longrightarrow> \<not> ends_with_newline bs \<Longrightarrow> 0x0A \<notin> set bs"
  by (cases bs rule: rev_cases) (auto simp: ends_with_newline_def)

text \<open>
  One poll loses nothing, keeps the budget, and hands over a line that ends in its only newline; while
  it waits it has taken everything there is.
\<close>

lemma read_bounded_line_poll:
  assumes poll: "read_bounded_line max_bytes peer_closed unread buf = (r, unread', buf')"
    and partial: "0x0A \<notin> set buf" "length buf \<le> max_bytes"
  shows read_bounded_line_append: "buf' @ unread' = buf @ unread"
    and read_bounded_line_budget: "length buf' \<le> max_bytes"
    and read_bounded_line_waits: "r = None \<Longrightarrow> 0x0A \<notin> set buf' \<and> unread' = []"
    and read_bounded_line_line: "r = Some BL_Line \<Longrightarrow> \<not> peer_closed \<Longrightarrow> ndjson_line buf'"
proof -
  obtain got rest where ru: "read_until (max_bytes - length buf) unread = (got, rest)"
    by (cases "read_until (max_bytes - length buf) unread") simp
  note facts = read_until_append [OF ru] read_until_length [OF ru] read_until_newline [OF ru]
  show "buf' @ unread' = buf @ unread" "length buf' \<le> max_bytes"
    using poll facts partial ru
    by (auto simp: read_bounded_line_def Let_def split: if_splits)
  have buf': "buf' = buf @ got" "unread' = rest" if "r \<noteq> Some BL_OverLimit"
    using poll ru that by (auto simp: read_bounded_line_def Let_def split: if_splits)
  have inner: "0x0A \<notin> set (butlast (buf @ got))"
    using facts(3) partial(1) by (auto simp: butlast_append dest: in_set_butlastD)
  show "0x0A \<notin> set buf' \<and> unread' = []" if "r = None"
  proof -
    have "\<not> ends_with_newline got" "length got < max_bytes - length buf"
      using poll ru that facts(2) by (auto simp: read_bounded_line_def Let_def split: if_splits)
    then show ?thesis
      using buf' that inner no_newline_split [of "buf @ got"] read_until_drains [OF ru] no_newline_ends [OF partial(1)]
      by (simp add: ends_with_newline_append)
  qed
  show "ndjson_line buf'" if "r = Some BL_Line" "\<not> peer_closed"
    using poll ru that inner no_newline_ends [OF partial(1)]
    by (auto simp: read_bounded_line_def ndjson_line_def Let_def ends_with_newline_append split: if_splits)
qed

section \<open>What reaches the event loop\<close>

text \<open>The reference: what one line is worth, whatever was read or written around it.\<close>

definition inbound_of :: "'v json_crate \<Rightarrow> bytes \<Rightarrow> VerifierInbound list" where
  "inbound_of J line =
     (case jc_message J (trim_ascii line) of
        None \<Rightarrow> []
      | Some msg \<Rightarrow>
          if im_msg_type msg = TEMPLATE_VERDICT
          then (case jc_verdict J (im_payload msg) of Some v \<Rightarrow> [In_TemplateVerdict v] | None \<Rightarrow> [])
          else if im_msg_type msg = HEARTBEAT_ACK then [In_HeartbeatAck] else [])"

lemma dispatch_inbound_frame [simp]:
  "io_unread (dispatch_inbound J msg st) = io_unread st"
  "io_line_buf (dispatch_inbound J msg st) = io_line_buf st"
  "io_lines (dispatch_inbound J msg st) = io_lines st"
  "io_last_heard (dispatch_inbound J msg st) = io_last_heard st"
  "io_rechecking (dispatch_inbound J msg st) = io_rechecking st"
  "io_malformed_count (dispatch_inbound J msg st) = io_malformed_count st"
  by (simp_all add: dispatch_inbound_def split: option.split)

lemma dispatch_inbound_published:
  "jc_message J (trim_ascii line) = Some msg \<Longrightarrow>
   io_published (dispatch_inbound J msg st) = io_published st @ inbound_of J line"
  by (auto simp: dispatch_inbound_def inbound_of_def split: option.split)

lemma handle_verifier_line_effect:
  assumes "handle_verifier_line J now st = (out, st')"
  shows "io_lines st' = io_lines st @ [io_line_buf st]" "io_unread st' = io_unread st"
    "io_published st' = io_published st @ inbound_of J (io_line_buf st)"
    "io_last_heard st' = now" "io_rechecking st' = io_rechecking st"
    "io_line_buf st' = (if out = None then [] else io_line_buf st)"
  using assms dispatch_inbound_published [of J "io_line_buf st"]
  by (auto simp: handle_verifier_line_def Let_def inbound_of_def split: option.splits if_splits)

lemma outbound_arm_frame:
  "outbound_arm J now msg result st = (out, st') \<Longrightarrow>
   io_unread st' = io_unread st \<and> io_line_buf st' = io_line_buf st \<and> io_lines st' = io_lines st \<and>
   io_published st' = io_published st \<and> io_rechecking st' = io_rechecking st"
  by (auto simp: outbound_arm_def split: option.splits write_result.splits)

lemma heartbeat_tick_frame:
  "heartbeat_tick J d now result st = (out, st') \<Longrightarrow>
   io_unread st' = io_unread st \<and> io_line_buf st' = io_line_buf st \<and> io_lines st' = io_lines st \<and>
   io_published st' = io_published st \<and> io_last_heard st' = io_last_heard st"
  by (auto simp: heartbeat_tick_def Let_def split: option.splits write_result.splits if_splits)

lemma other_arm_frame:
  assumes "other_arm J d t st = (out, st')"
  shows "io_unread st' = io_unread st" "io_line_buf st' = io_line_buf st" "io_lines st' = io_lines st"
    "io_published st' = io_published st"
  using assms
  by (auto simp: other_arm_def dest!: outbound_arm_frame heartbeat_tick_frame split: io_arm.splits)

text \<open>The three ways a turn goes: the read ends the connection, hands over a line, or lets another arm run.\<close>

lemma io_step_cases [consumes 1, case_names dropped line waiting]:
  assumes "io_step J d t st = (out, st')"
  obtains (dropped) r unread buf where
      "read_bounded_line MAX_INTERNAL_LINE_BYTES (it_socket t = Sock_closed) (io_unread st @ it_arrived t)
         (io_line_buf st) = (r, unread, buf)"
      "out = Some Disconnected" "st' = st\<lparr>io_unread := unread, io_line_buf := buf\<rparr>"
      "r = None \<longrightarrow> it_socket t = Sock_failed" "r \<noteq> Some BL_Line"
  | (line) unread buf where
      "read_bounded_line MAX_INTERNAL_LINE_BYTES (it_socket t = Sock_closed) (io_unread st @ it_arrived t)
         (io_line_buf st) = (Some BL_Line, unread, buf)"
      "handle_verifier_line J (it_now t) (st\<lparr>io_unread := unread, io_line_buf := buf\<rparr>) = (out, st')"
  | (waiting) unread buf where
      "read_bounded_line MAX_INTERNAL_LINE_BYTES (it_socket t = Sock_closed) (io_unread st @ it_arrived t)
         (io_line_buf st) = (None, unread, buf)"
      "it_socket t \<noteq> Sock_failed"
      "other_arm J d t (st\<lparr>io_unread := unread, io_line_buf := buf\<rparr>) = (out, st')"
  using assms
  by (auto simp: io_step_def Let_def split: prod.splits option.splits BoundedLine.splits if_splits)

definition io_framed :: "bytes \<Rightarrow> io_loop \<Rightarrow> bool" where
  "io_framed arrived st \<longleftrightarrow>
     concat (io_lines st) @ io_line_buf st @ io_unread st = arrived \<and>
     0x0A \<notin> set (io_line_buf st) \<and> length (io_line_buf st) \<le> MAX_INTERNAL_LINE_BYTES"

definition io_handled :: "'v json_crate \<Rightarrow> bytes \<Rightarrow> io_loop \<Rightarrow> bool" where
  "io_handled J arrived st \<longleftrightarrow>
     (\<exists>rest. concat (io_lines st) @ rest = arrived) \<and>
     (\<forall>l \<in> set (io_lines st). ndjson_line l \<and> length l \<le> MAX_INTERNAL_LINE_BYTES) \<and>
     length (io_line_buf st) \<le> MAX_INTERNAL_LINE_BYTES \<and>
     io_published st = concat (map (inbound_of J) (io_lines st))"

lemma io_step_framed:
  assumes step: "io_step J d t st = (out, st')" and "it_socket t \<noteq> Sock_closed"
    and framed: "io_framed arrived st" and handled: "io_handled J arrived st"
  shows "io_handled J (arrived @ it_arrived t) st' \<and> (out = None \<longrightarrow> io_framed (arrived @ it_arrived t) st')"
  using step
proof (cases rule: io_step_cases)
  case (dropped r unread buf)
  note poll = read_bounded_line_poll [OF dropped(1)]
  show ?thesis
    using dropped framed handled poll(1,2) by (auto simp: io_framed_def io_handled_def)
next
  case (line unread buf)
  note poll = read_bounded_line_poll [OF line(1)]
  note effect = handle_verifier_line_effect [OF line(2)]
  show ?thesis
    using framed handled poll effect assms(2) by (auto simp: io_framed_def io_handled_def)
next
  case (waiting unread buf)
  note poll = read_bounded_line_poll [OF waiting(1)]
  note effect = other_arm_frame [OF waiting(3)]
  show ?thesis
    using framed handled poll effect by (auto simp: io_framed_def io_handled_def)
qed

lemma io_run_framed:
  assumes "io_run J d t0 rs ts out st" and "\<forall>t \<in> set ts. it_socket t \<noteq> Sock_closed"
  shows "io_handled J (concat (map it_arrived ts)) st \<and> (out = None \<longrightarrow> io_framed (concat (map it_arrived ts)) st)"
  using assms
proof (induction rule: io_run.induct)
  case io_begin
  show ?case by (simp add: io_handled_def io_framed_def io_start_def)
next
  case (io_next ts st t out st')
  then show ?case
    using io_step_framed [OF io_next(4)] by simp
qed

lemma io_run_split:
  assumes "io_run J d t0 rs ts out st" and "\<forall>t \<in> set ts. it_socket t \<noteq> Sock_closed"
  obtains rest where
    "ndjson_split (concat (map it_arrived ts)) = (io_lines st @ fst (ndjson_split rest), snd (ndjson_split rest))"
    "out = None \<longrightarrow> rest = io_line_buf st @ io_unread st"
proof -
  note inv = io_run_framed [OF assms]
  obtain rest where rest: "concat (io_lines st) @ rest = concat (map it_arrived ts)"
    using inv by (auto simp: io_handled_def)
  then have "out = None \<longrightarrow> rest = io_line_buf st @ io_unread st"
    using inv by (metis io_framed_def same_append_eq)
  moreover have "ndjson_split (concat (map it_arrived ts)) = (io_lines st @ fst (ndjson_split rest), snd (ndjson_split rest))"
    using ndjson_split_lines [of "io_lines st" rest] inv rest by (simp add: io_handled_def)
  ultimately show ?thesis
    using that by blast
qed

text \<open>C10. Whatever arms of the select win, and however the bytes are cut into reads, the lines the loop has
  handled are the leading newline-terminated lines of what the verifier sent, in order; what it
  published is what those lines are worth, each once; no line and no buffer passes the budget; and a
  loop that waits with nothing unread has handled every complete line.
\<close>

theorem verdict_stream_framed:
  assumes "io_run J d t0 rs ts out st" and "\<forall>t \<in> set ts. it_socket t \<noteq> Sock_closed"
  shows "io_published st = concat (map (inbound_of J) (io_lines st)) \<and>
    prefix (io_lines st) (fst (ndjson_split (concat (map it_arrived ts)))) \<and>
    (\<forall>l \<in> set (io_line_buf st # io_lines st). length l \<le> MAX_INTERNAL_LINE_BYTES) \<and>
    (out = None \<and> io_unread st = [] \<longrightarrow>
       (io_lines st, io_line_buf st) = ndjson_split (concat (map it_arrived ts)))"
proof -
  note inv = io_run_framed [OF assms]
  obtain rest where
    split: "ndjson_split (concat (map it_arrived ts)) = (io_lines st @ fst (ndjson_split rest), snd (ndjson_split rest))"
    and open_rest: "out = None \<longrightarrow> rest = io_line_buf st @ io_unread st"
    using io_run_split [OF assms] by blast
  have "ndjson_split (io_line_buf st) = ([], io_line_buf st)" if "out = None"
    using inv that by (intro ndjson_split_partial) (simp add: io_framed_def)
  then show ?thesis
    using inv split open_rest by (auto simp: io_handled_def)
qed

section \<open>The silence check\<close>

lemma io_step_last_heard:
  assumes step: "io_step J d t st = (out, st')" and past: "io_last_heard st \<le> it_now t"
  shows "io_last_heard st \<le> io_last_heard st'" "io_last_heard st' \<le> turn_end t"
    "io_lines st' \<noteq> io_lines st \<Longrightarrow> io_last_heard st' = it_now t"
proof -
  have "io_last_heard st \<le> io_last_heard st' \<and> io_last_heard st' \<le> turn_end t \<and>
    (io_lines st' \<noteq> io_lines st \<longrightarrow> io_last_heard st' = it_now t)"
    using step
  proof (cases rule: io_step_cases)
    case (dropped r unread buf)
    then show ?thesis using past by (simp add: turn_end_def)
  next
    case (line unread buf)
    then show ?thesis
      using past handle_verifier_line_effect(4) [OF line(2)] by (simp add: turn_end_def)
  next
    case (waiting unread buf)
    then show ?thesis
      using past other_arm_frame(3) [OF waiting(3)]
      by (auto simp: other_arm_def turn_end_def outbound_arm_def
          dest!: heartbeat_tick_frame split: io_arm.splits option.splits write_result.splits)
  qed
  then show "io_last_heard st \<le> io_last_heard st'" "io_last_heard st' \<le> turn_end t"
    "io_lines st' \<noteq> io_lines st \<Longrightarrow> io_last_heard st' = it_now t"
    by simp_all
qed

text \<open>The verifier counts as heard from no later than the last turn, and no earlier than its last line.\<close>

lemma io_run_last_heard:
  assumes "io_run J d t0 rs ts out st" and "\<forall>u \<in> set ts. turn_end u \<le> now" "t0 \<le> now"
  shows "t0 \<le> io_last_heard st \<and> io_last_heard st \<le> now"
  using assms
proof (induction arbitrary: now rule: io_run.induct)
  case io_begin
  then show ?case by (simp add: io_start_def)
next
  case (io_next ts st t out st')
  have "t0 \<le> io_last_heard st \<and> io_last_heard st \<le> it_now t"
    using io_next.IH io_next.hyps by simp
  then show ?case
    using io_step_last_heard [OF io_next.hyps(4)] io_next.prems by fastforce
qed

lemma io_run_snocE:
  assumes "io_run J d t0 rs (ts @ [t]) out st"
  obtains st0 where "io_run J d t0 rs ts None st0" "io_step J d t st0 = (out, st)"
    "\<forall>u \<in> set ts. turn_end u \<le> it_now t" "t0 \<le> it_now t"
  using assms by (cases rule: io_run.cases) auto

lemma io_run_deterministic:
  "io_run J d t0 rs ts out st \<Longrightarrow> io_run J d t0 rs ts out' st' \<Longrightarrow> out = out' \<and> st = st'"
proof (induction arbitrary: out' st' rule: io_run.induct)
  case io_begin
  then show ?case by (cases rule: io_run.cases) auto
next
  case (io_next ts st t out st1)
  from io_next.prems obtain st0 where "io_run J d t0 rs ts None st0" "io_step J d t st0 = (out', st')"
    by (rule io_run_snocE)
  then show ?case
    using io_next by auto
qed

text \<open>The verifier is heard in a turn of a run when that turn hands over a line.\<close>

definition heard_in :: "'v json_crate \<Rightarrow> nat \<Rightarrow> nat \<Rightarrow> ReadinessState \<Rightarrow> io_turn list \<Rightarrow> io_turn \<Rightarrow> bool" where
  "heard_in J d t0 rs ts u \<longleftrightarrow>
     (\<exists>us vs s0 s1. ts = us @ u # vs \<and> io_run J d t0 rs us None s0 \<and>
        io_step J d u s0 = (None, s1) \<and> io_lines s1 \<noteq> io_lines s0)"

lemma heard_in_snoc:
  assumes "heard_in J d t0 rs (ts @ [t]) u"
  shows "heard_in J d t0 rs ts u \<or>
    u = t \<and> (\<exists>s0 s1. io_run J d t0 rs ts None s0 \<and> io_step J d t s0 = (None, s1) \<and> io_lines s1 \<noteq> io_lines s0)"
proof -
  obtain us vs s0 s1 where cut: "ts @ [t] = us @ u # vs" and run: "io_run J d t0 rs us None s0"
    "io_step J d u s0 = (None, s1)" "io_lines s1 \<noteq> io_lines s0"
    using assms by (auto simp: heard_in_def)
  show ?thesis
  proof (cases vs rule: rev_cases)
    case Nil
    then show ?thesis using cut run by auto
  next
    case (snoc vs' v)
    then have "ts = us @ u # vs'" using cut by simp
    then have "heard_in J d t0 rs ts u" using run unfolding heard_in_def by blast
    then show ?thesis ..
  qed
qed

lemma heard_in_last_heard:
  assumes "io_run J d t0 rs ts out st" and "heard_in J d t0 rs ts u"
  shows "it_now u \<le> io_last_heard st"
  using assms
proof (induction arbitrary: u rule: io_run.induct)
  case io_begin
  then show ?case by (simp add: heard_in_def)
next
  case (io_next ts st t out st')
  have past: "io_last_heard st \<le> it_now t"
    using io_run_last_heard [OF io_next.hyps(1-3)] by simp
  note heard = io_step_last_heard [OF io_next.hyps(4) past]
  from heard_in_snoc [OF io_next.prems] show ?case
  proof (elim disjE conjE exE)
    assume "heard_in J d t0 rs ts u"
    then show ?thesis using io_next.IH heard(1) by (meson le_trans)
  next
    fix s0 s1
    assume "u = t" "io_run J d t0 rs ts None s0" "io_step J d t s0 = (None, s1)" "io_lines s1 \<noteq> io_lines s0"
    then show ?thesis
      using io_run_deterministic [OF io_next.hyps(1)] io_next.hyps(4) heard(3) by auto
  qed
qed

text \<open>A turn in which no line is ready: the read takes what there is and waits, and another arm runs.\<close>

definition no_line_ready :: "io_turn \<Rightarrow> io_loop \<Rightarrow> bool" where
  "no_line_ready t st \<longleftrightarrow>
     it_socket t = Sock_open \<and> 0x0A \<notin> set (io_line_buf st @ io_unread st @ it_arrived t) \<and>
     length (io_line_buf st @ io_unread st @ it_arrived t) < MAX_INTERNAL_LINE_BYTES"

lemma read_until_all:
  "0x0A \<notin> set bs \<Longrightarrow> length bs \<le> n \<Longrightarrow> read_until n bs = (bs, [])"
  by (induction n bs rule: read_until.induct) auto

lemma io_step_waiting:
  assumes "no_line_ready t st"
  shows "io_step J d t st =
    other_arm J d t (st\<lparr>io_unread := [], io_line_buf := io_line_buf st @ io_unread st @ it_arrived t\<rparr>)"
proof -
  let ?bs = "io_unread st @ it_arrived t"
  have "read_until (MAX_INTERNAL_LINE_BYTES - length (io_line_buf st)) ?bs = (?bs, [])"
    using assms by (intro read_until_all) (auto simp: no_line_ready_def)
  moreover have "\<not> ends_with_newline ?bs"
    using assms by (intro no_newline_ends) (auto simp: no_line_ready_def)
  ultimately show ?thesis
    using assms by (auto simp: io_step_def read_bounded_line_def Let_def no_line_ready_def)
qed

text \<open>The silence check drops no verifier that was heard: when a tick whose write goes through ends the
  connection and no line was ready, the deadline has passed since the connection began and since every
  line that was handed over, and the loop was already rechecking after an earlier tick.
\<close>

theorem heard_verifier_kept:
  assumes run: "io_run J d t0 rs ts None st"
    and clock: "\<forall>u \<in> set ts. turn_end u \<le> it_now t" "t0 \<le> it_now t"
    and turn: "no_line_ready t st" "it_arm t = Arm_tick (Written took)"
    and drop: "fst (io_step J d t st) = Some Disconnected"
  shows "t0 + d < it_now t \<and> (\<forall>u. heard_in J d t0 rs ts u \<longrightarrow> it_now u + d < it_now t) \<and> io_rechecking st"
proof -
  have "d < it_now t - io_last_heard st \<and> io_rechecking st"
    using drop turn by (auto simp: io_step_waiting other_arm_def heartbeat_tick_def Let_def
        split: if_splits option.splits)
  then show ?thesis
    using io_run_last_heard [OF run clock] heard_in_last_heard [OF run] by fastforce
qed

lemma io_run_buffer:
  assumes "io_run J d t0 rs ts None st" and "\<forall>t \<in> set ts. it_socket t \<noteq> Sock_closed"
  shows "0x0A \<notin> set (io_line_buf st)"
  using io_run_framed [OF assms] by (simp add: io_framed_def)

definition quiet_tick :: "io_turn \<Rightarrow> bool" where
  "quiet_tick t \<longleftrightarrow> it_socket t = Sock_open \<and> it_arrived t = [] \<and> (\<exists>result. it_arm t = Arm_tick result)"

lemma quiet_tick_step:
  assumes "quiet_tick t" "no_line_ready t st" "d < it_now t - io_last_heard st"
  shows "io_step J d t st =
    (if io_rechecking st then (Some Disconnected, st\<lparr>io_unread := [], io_line_buf := io_line_buf st @ io_unread st\<rparr>)
     else (None, st\<lparr>io_unread := [], io_line_buf := io_line_buf st @ io_unread st, io_rechecking := True\<rparr>))"
  using assms by (auto simp: io_step_waiting quiet_tick_def other_arm_def heartbeat_tick_def)


section \<open>Stalled writes, logs and readiness\<close>

text \<open>The polls of one stretch of a write that is never ready, with the times they were made at.\<close>

fun poll_pending :: "nat list \<Rightarrow> stall_guard \<Rightarrow> stall_poll option \<times> stall_guard" where
  "poll_pending [] g = (None, g)"
| "poll_pending (now # nows) g =
     (case poll_guarded now Inner_pending g of (Stall_pending, g) \<Rightarrow> poll_pending nows g | (r, g) \<Rightarrow> (Some r, g))"

lemma poll_guarded_ready:
  "poll_guarded now Inner_ready g = (Stall_ready, g\<lparr>sg_blocked_since := None\<rparr>)"
  by (simp add: poll_guarded_def)

lemma poll_pending_blocked:
  assumes "sg_blocked_since g = Some since"
  shows "fst (poll_pending nows g) =
    (if \<exists>now \<in> set nows. since + sg_stall g \<le> now then Some Stall_timed_out else None)"
  using assms
  by (induction nows arbitrary: g) (auto simp: poll_guarded_def Let_def)

text \<open>
  A write fails exactly when some poll finds it \<open>stall\<close> after the first pending poll since the last byte
  moved: progress restarts the clock, and a write that never moves fails at the first poll after it.
\<close>

lemma stall_guard_fails_iff:
  assumes "0 < sg_stall g"
  shows "fst (poll_pending (began # nows) (snd (poll_guarded moved Inner_ready g))) =
    (if \<exists>now \<in> set nows. began + sg_stall g \<le> now then Some Stall_timed_out else None)"
  using assms by (simp add: poll_guarded_def poll_pending_blocked)

lemma boundary_below_le:
  "boundary_below s e \<le> e"
  by (induction e) auto

lemma boundary_below_boundary:
  "is_char_boundary s (boundary_below s e)"
  by (induction e) (auto simp: is_char_boundary_def)

text \<open>A rejected line reaches the log as at most 512 bytes of it, cut at a character boundary, and the mark.\<close>

lemma log_sample_bound:
  "length (log_sample line) \<le> LOG_SAMPLE_BYTES + length (truncation_mark (length line))"
  using boundary_below_le [of line LOG_SAMPLE_BYTES] by (simp add: log_sample_def)

lemma fold_capped_write_str:
  assumes "fold capped_write_str pieces (kept, offered) = (kept', offered')"
    and "length kept \<le> LOG_SAMPLE_BYTES" "length kept \<le> offered"
  shows "length kept' \<le> LOG_SAMPLE_BYTES \<and> length kept' \<le> offered' \<and> offered' = offered + length (concat pieces)"
  using assms
proof (induction pieces arbitrary: kept offered)
  case (Cons s pieces)
  let ?room = "min (LOG_SAMPLE_BYTES - length kept) (length s)"
  have "boundary_below s ?room \<le> ?room" by (rule boundary_below_le)
  then have "length (kept @ take (boundary_below s ?room) s) \<le> LOG_SAMPLE_BYTES"
    "length (kept @ take (boundary_below s ?room) s) \<le> offered + length s"
    using Cons.prems by auto
  then show ?case
    using Cons.IH [of "kept @ take (boundary_below s ?room) s" "offered + length s"] Cons.prems(1)
    by (simp add: capped_write_str_def)
qed simp

lemma log_display_bound:
  "length (log_display pieces) \<le> LOG_SAMPLE_BYTES + length (truncation_mark (length (concat pieces)))"
  using fold_capped_write_str [of pieces "[]" 0]
  by (cases "fold capped_write_str pieces ([], 0)") (auto simp: log_display_def)

lemma reconnect_jitter_bound:
  "1 < reconnect_delay_ms \<Longrightarrow> reconnect_jitter_ms reconnect_delay_ms hash < reconnect_delay_ms div 2 + (if reconnect_delay_ms < 4 then 1 else 0)"
  by (auto simp: reconnect_jitter_ms_def Let_def max_def min_def intro: less_le_trans [OF mod_less_divisor])

lemma draining_not_ready:
  "rs_draining s \<Longrightarrow> hr_http_status (readyz s) = 503 \<and> hr_http_status (readyz_shadow s) = 503"
  by (simp add: readyz_def readyz_shadow_def not_ready_def is_ready_def)

text \<open>
  Between connections the readiness never claims a verifier or a policy: the loop of a connection may
  set them, and losing the connection clears both.
\<close>

definition verifier_unknown :: "ReadinessState \<Rightarrow> bool" where
  "verifier_unknown rs \<longleftrightarrow> \<not> rs_verifier_connected rs \<and> \<not> rs_policy_loaded rs"

lemma stream_round_unknown:
  "stream_round result rs = (True, rs') \<Longrightarrow> verifier_unknown rs \<Longrightarrow> verifier_unknown rs'"
  by (auto simp: stream_round_def Let_def verifier_unknown_def
      split: connect_result.splits prod.splits IoLoopOutcome.splits)

lemma verifier_unknown_not_ready:
  "verifier_unknown rs \<Longrightarrow> \<not> rs_degraded rs \<Longrightarrow>
   hr_http_status (readyz rs) = 503 \<and> hr_http_status (readyz_shadow rs) = 503"
  by (simp add: verifier_unknown_def readyz_def readyz_shadow_def is_ready_def not_ready_def)

section \<open>Sample runs\<close>

lemma read_until_Nil:
  "read_until n [] = ([], [])"
  by (cases n) auto

lemma read_until_Cons:
  "0 < n \<Longrightarrow> read_until n (b # bs) =
     (if b = 0x0A then ([b], bs) else case read_until (n - 1) bs of (got, rest) \<Rightarrow> (b # got, rest))"
  by (cases n) auto

lemmas io_eval = io_step_def read_bounded_line_def ends_with_newline_def MAX_INTERNAL_LINE_BYTES_def
  read_until_Nil read_until_Cons handle_verifier_line_def other_arm_def outbound_arm_def heartbeat_tick_def
  turn_end_def io_start_def

text \<open>A JSON crate that reads the line \<open>a\<close> as an ack and writes every message as \<open>m\<close>.\<close>

definition sample_json :: "unit json_crate" where
  "sample_json =
     \<lparr>jc_message = (\<lambda>bs. if bs = [0x61] then Some \<lparr>im_msg_type = HEARTBEAT_ACK, im_version = 1, im_payload = ()\<rparr> else None),
      jc_verdict = (\<lambda>_. None), jc_propose = (\<lambda>_. None), jc_empty = (), jc_render = (\<lambda>_. Some ''m'')\<rparr>"

definition io_sample_turn :: "nat \<Rightarrow> bytes \<Rightarrow> io_arm \<Rightarrow> io_turn" where
  "io_sample_turn now arrived arm = \<lparr>it_now = now, it_arrived = arrived, it_socket = Sock_open, it_arm = arm\<rparr>"

lemma sample_line_dispatched:
  "dispatch_inbound sample_json \<lparr>im_msg_type = HEARTBEAT_ACK, im_version = 1, im_payload = ()\<rparr> st =
   st\<lparr>io_readiness := (io_readiness st)\<lparr>rs_policy_loaded := True\<rparr>, io_published := io_published st @ [In_HeartbeatAck]\<rparr>"
  by (simp add: dispatch_inbound_def HEARTBEAT_ACK_def TEMPLATE_VERDICT_def)

text \<open>An ack cut in two by a heartbeat tick that wins the select in between.\<close>

definition cut_ack_turns :: "io_turn list" where
  "cut_ack_turns = [io_sample_turn 1 [0x61] (Arm_tick (Written 0)), io_sample_turn 2 [0x0A] Arm_none]"

lemma cut_ack_run:
  "\<exists>st. io_run sample_json 6 0 readiness_new cut_ack_turns None st \<and> io_unread st = [] \<and>
     io_published st = [In_HeartbeatAck]"
proof -
  let ?t1 = "io_sample_turn 1 [0x61] (Arm_tick (Written 0))" and ?t2 = "io_sample_turn 2 [0x0A] Arm_none"
  obtain st1 where step1: "io_step sample_json 6 ?t1 (io_start 0 readiness_new) = (None, st1)"
    and st1: "io_line_buf st1 = [0x61]" "io_unread st1 = []" "io_published st1 = []"
    by (simp add: io_eval io_sample_turn_def serialize_outbound_def sample_json_def)
  obtain st2 where step2: "io_step sample_json 6 ?t2 st1 = (None, st2)"
    and st2: "io_unread st2 = []" "io_published st2 = [In_HeartbeatAck]"
    using st1 by (simp add: io_eval io_sample_turn_def sample_json_def trim_ascii_def is_ascii_whitespace_def
        sample_line_dispatched [unfolded sample_json_def])
  have "io_run sample_json 6 0 readiness_new ([] @ [?t1]) None st1"
    by (rule io_next [OF io_begin _ _ step1]) (simp_all add: io_sample_turn_def)
  then have "io_run sample_json 6 0 readiness_new (([] @ [?t1]) @ [?t2]) None st2"
    by (rule io_next [OF _ _ _ step2]) (simp_all add: io_sample_turn_def turn_end_def)
  then show ?thesis
    using st2 by (auto simp: cut_ack_turns_def)
qed

theorem verdict_stream_framed_witness:
  "\<exists>st. io_run sample_json 6 0 readiness_new cut_ack_turns None st \<and> io_published st = [In_HeartbeatAck] \<and>
     io_lines st = [[0x61, 0x0A]]"
proof -
  obtain st where st: "io_run sample_json 6 0 readiness_new cut_ack_turns None st" "io_unread st = []"
    "io_published st = [In_HeartbeatAck]"
    using cut_ack_run by blast
  moreover have "\<forall>t \<in> set cut_ack_turns. it_socket t \<noteq> Sock_closed"
    by (simp add: cut_ack_turns_def io_sample_turn_def)
  ultimately show ?thesis
    using verdict_stream_framed [OF st(1)] by (auto simp: cut_ack_turns_def io_sample_turn_def)
qed

definition sample_tick :: "nat \<Rightarrow> io_turn" where
  "sample_tick now = io_sample_turn now [] (Arm_tick (Written 0))"

lemma sample_tick_quiet: "quiet_tick (sample_tick now)"
  by (simp add: quiet_tick_def sample_tick_def io_sample_turn_def)

lemma sample_tick_ready:
  "io_line_buf st = [] \<Longrightarrow> io_unread st = [] \<Longrightarrow> no_line_ready (sample_tick now) st"
  by (simp add: no_line_ready_def sample_tick_def io_sample_turn_def MAX_INTERNAL_LINE_BYTES_def)

lemma first_late_tick:
  "io_step sample_json 6 (sample_tick 7) (io_start 0 readiness_new) =
   (None, (io_start 0 readiness_new)\<lparr>io_rechecking := True\<rparr>)"
  by (subst quiet_tick_step [OF sample_tick_quiet sample_tick_ready])
    (simp_all add: io_start_def sample_tick_def io_sample_turn_def)


theorem heard_verifier_kept_witness:
  "\<exists>st. io_run sample_json 6 0 readiness_new [sample_tick 7] None st \<and>
     fst (io_step sample_json 6 (sample_tick 8) st) = Some Disconnected \<and> io_rechecking st \<and>
     (\<forall>u. heard_in sample_json 6 0 readiness_new [sample_tick 7] u \<longrightarrow> it_now u < 2)"
proof -
  let ?st = "(io_start 0 readiness_new)\<lparr>io_rechecking := True\<rparr>"
  have run: "io_run sample_json 6 0 readiness_new ([] @ [sample_tick 7]) None ?st"
    by (rule io_next [OF io_begin _ _ first_late_tick]) (simp_all add: sample_tick_def io_sample_turn_def)
  have ready: "no_line_ready (sample_tick 8) ?st"
    by (rule sample_tick_ready) (simp_all add: io_start_def)
  have drop: "fst (io_step sample_json 6 (sample_tick 8) ?st) = Some Disconnected"
    by (subst quiet_tick_step [OF sample_tick_quiet ready]) (simp_all add: io_start_def sample_tick_def io_sample_turn_def)
  show ?thesis
    using heard_verifier_kept [OF run _ _ ready _ drop] run drop
    by (intro exI [of _ ?st]) (simp add: sample_tick_def io_sample_turn_def turn_end_def)
qed

end
