(* ===== verification/RG_RateLimit.thy ===== *)
theory RG_RateLimit
  imports RG_Prelude
begin

text \<open>
  The sliding windows of the services: the write throttles of the settings pages
  (\<open>template-manager/src/main.rs\<close>, \<open>pool-verifier/src/handlers.rs\<close>, \<open>sv2-gateway/src/main.rs\<close>) and the
  per-address limiter of \<open>reservegrid-common/src/rate_limit.rs\<close>. What they share is the locale
  \<open>sliding_window\<close>. Instants and durations are natural numbers of nanoseconds; as in the standard
  library, \<open>duration_since\<close> of a later instant is zero.
\<close>

section \<open>The throttles of the settings pages\<close>

definition WRITE_THROTTLE_WINDOW :: nat where
  "WRITE_THROTTLE_WINDOW = 60 * 1000000000"

definition WRITE_THROTTLE_MAX :: nat where
  "WRITE_THROTTLE_MAX = 10"

text \<open>Template manager and verifier: the front is popped while it is older than the window.\<close>

fun pop_older :: "nat \<Rightarrow> nat \<Rightarrow> nat list \<Rightarrow> nat list" where
  "pop_older window now [] = []"
| "pop_older window now (t # ts) = (if window < now - t then pop_older window now ts else t # ts)"

definition tm_check_write_throttle :: "nat \<Rightarrow> nat list \<Rightarrow> bool \<times> nat list" where
  "tm_check_write_throttle now ts =
     (let ts = pop_older WRITE_THROTTLE_WINDOW now ts
      in if WRITE_THROTTLE_MAX \<le> length ts then (False, ts) else (True, ts @ [now]))"

definition pv_check_write_throttle :: "nat \<Rightarrow> nat list \<Rightarrow> bool \<times> nat list" where
  "pv_check_write_throttle now guard =
     (let window = WRITE_THROTTLE_WINDOW;
          guard = pop_older window now guard
      in if WRITE_THROTTLE_MAX \<le> length guard then (False, guard) else (True, guard @ [now]))"

text \<open>
  Gateway: everything at or before the cutoff goes, wherever it stands; the clock may be too young for
  a cutoff, and it is read again for the entry.
\<close>

definition checked_sub :: "nat \<Rightarrow> nat \<Rightarrow> nat option" where
  "checked_sub now window = (if window \<le> now then Some (now - window) else None)"

definition gw_write_throttle :: "nat \<Rightarrow> nat \<Rightarrow> nat list \<Rightarrow> bool \<times> nat list" where
  "gw_write_throttle now now' timestamps =
     (let timestamps = (case checked_sub now WRITE_THROTTLE_WINDOW of
                          Some cutoff \<Rightarrow> filter (\<lambda>t. cutoff < t) timestamps
                        | None \<Rightarrow> timestamps)
      in if WRITE_THROTTLE_MAX \<le> length timestamps then (False, timestamps) else (True, timestamps @ [now']))"

section \<open>The limiter per address\<close>

record 'ip LimiterState =
  ls_ips :: "('ip \<times> nat list) list"
  ls_global_timestamps :: "nat list"
  ls_poisoned :: bool

record RateLimiter =
  rl_max_tracked_ips :: nat
  rl_global_ceiling :: "nat option"
  rl_window :: nat

definition with_config :: "nat \<Rightarrow> nat option \<Rightarrow> RateLimiter" where
  "with_config max_tracked_ips global_ceiling =
     \<lparr>rl_max_tracked_ips = max_tracked_ips, rl_global_ceiling = global_ceiling, rl_window = 60 * 1000000000\<rparr>"

definition limiter_new :: RateLimiter where
  "limiter_new = with_config 10000 None"

definition limiter_state_new :: "'ip LimiterState" where
  "limiter_state_new = \<lparr>ls_ips = [], ls_global_timestamps = [], ls_poisoned = False\<rparr>"

fun prune_window :: "nat \<Rightarrow> nat \<Rightarrow> nat list \<Rightarrow> nat list" where
  "prune_window window now [] = []"
| "prune_window window now (front # deque) =
     (if window \<le> now - front then prune_window window now deque else front # deque)"

definition until_front_expires :: "nat list \<Rightarrow> nat \<Rightarrow> nat \<Rightarrow> nat" where
  "until_front_expires deque now window =
     (case deque of [] \<Rightarrow> window | front # _ \<Rightarrow> window - (now - front))"

text \<open>
  The hash map of windows, as its entries in the order a scan visits them: \<open>min_by_key\<close> keeps the first
  of several least entries, the only place where that order shows.
\<close>

fun scan_oldest :: "('ip \<times> nat list) list \<Rightarrow> ('ip \<times> nat) option" where
  "scan_oldest [] = None"
| "scan_oldest ((ip, ts) # ips) =
     (if ts = [] then scan_oldest ips
      else case scan_oldest ips of
             None \<Rightarrow> Some (ip, List.last ts)
           | Some (ip', t') \<Rightarrow> if List.last ts \<le> t' then Some (ip, List.last ts) else Some (ip', t'))"

definition evict_oldest :: "('ip \<times> nat list) list \<Rightarrow> ('ip \<times> nat list) list" where
  "evict_oldest ips =
     (case scan_oldest ips of None \<Rightarrow> ips | Some (ip, _) \<Rightarrow> filter (\<lambda>e. fst e \<noteq> ip) ips)"

definition ip_window :: "('ip \<times> nat list) list \<Rightarrow> 'ip \<Rightarrow> nat list" where
  "ip_window ips ip = (case map_of ips ip of None \<Rightarrow> [] | Some ts \<Rightarrow> ts)"

text \<open>\<open>entry(ip).or_insert_with\<close> followed by a write through the entry.\<close>

fun put_window :: "'ip \<Rightarrow> nat list \<Rightarrow> ('ip \<times> nat list) list \<Rightarrow> ('ip \<times> nat list) list" where
  "put_window ip ts [] = [(ip, ts)]"
| "put_window ip ts ((k, v) # ips) = (if k = ip then (k, ts) # ips else (k, v) # put_window ip ts ips)"

definition admit :: "RateLimiter \<Rightarrow> nat \<Rightarrow> 'ip \<Rightarrow> nat \<Rightarrow> 'ip LimiterState \<Rightarrow> (nat + unit) \<times> 'ip LimiterState" where
  "admit L now ip max_per_window st =
     (if ls_poisoned st then (Inl (rl_window L), st)
      else
        let global = (case rl_global_ceiling L of
                        None \<Rightarrow> ls_global_timestamps st
                      | Some _ \<Rightarrow> prune_window (rl_window L) now (ls_global_timestamps st));
            st = st\<lparr>ls_global_timestamps := global\<rparr>
        in if (case rl_global_ceiling L of None \<Rightarrow> False | Some ceiling \<Rightarrow> ceiling \<le> length global)
           then (Inl (until_front_expires global now (rl_window L)), st)
           else
             let timestamps = prune_window (rl_window L) now (ip_window (ls_ips st) ip)
             in if max_per_window \<le> length timestamps
                then (Inl (until_front_expires timestamps now (rl_window L)),
                      st\<lparr>ls_ips := put_window ip timestamps (ls_ips st)\<rparr>)
                else
                  let st = st\<lparr>ls_ips := put_window ip (timestamps @ [now]) (ls_ips st)\<rparr>;
                      st = (if rl_global_ceiling L \<noteq> None
                            then st\<lparr>ls_global_timestamps := ls_global_timestamps st @ [now]\<rparr> else st);
                      st = (if rl_max_tracked_ips L < length (ls_ips st)
                            then st\<lparr>ls_ips := evict_oldest (ls_ips st)\<rparr> else st)
                  in (Inr (), st))"

definition check_limit :: "RateLimiter \<Rightarrow> nat \<Rightarrow> 'ip \<Rightarrow> nat \<Rightarrow> 'ip LimiterState \<Rightarrow> bool \<times> 'ip LimiterState" where
  "check_limit L now ip max_per_window st =
     (case admit L now ip max_per_window st of (r, st) \<Rightarrow> (r = Inr (), st))"

definition cleanup :: "RateLimiter \<Rightarrow> nat \<Rightarrow> 'ip LimiterState \<Rightarrow> 'ip LimiterState" where
  "cleanup L now st =
     (if ls_poisoned st then st
      else st\<lparr>ls_ips := filter (\<lambda>(_, ts). ts \<noteq> [] \<and> now - List.last ts < rl_window L * 2) (ls_ips st),
              ls_global_timestamps := prune_window (rl_window L) now (ls_global_timestamps st)\<rparr>)"

section \<open>What the windows share\<close>

text \<open>
  A window admits a request when fewer than \<open>limit\<close> of those it still holds are left, and stamps it. It
  tracks the admitted requests up to a clock when from then on the two agree on what is fresh.
\<close>

definition window_admit :: "(nat \<Rightarrow> nat list \<Rightarrow> nat list) \<Rightarrow> nat \<Rightarrow> nat \<Rightarrow> nat \<Rightarrow> nat list \<Rightarrow> bool \<times> nat list" where
  "window_admit prune limit now stamp ts =
     (let ts = prune now ts in if limit \<le> length ts then (False, ts) else (True, ts @ [stamp]))"

definition window_tracks :: "(nat \<Rightarrow> nat \<Rightarrow> bool) \<Rightarrow> nat \<Rightarrow> nat list \<Rightarrow> nat list \<Rightarrow> bool" where
  "window_tracks fresh clock ts admitted \<longleftrightarrow>
     sorted ts \<and> (\<forall>t \<in> set ts. t \<le> clock) \<and> (\<forall>x \<ge> clock. filter (fresh x) ts = filter (fresh x) admitted)"

definition window_bounded :: "(nat \<Rightarrow> nat \<Rightarrow> bool) \<Rightarrow> nat \<Rightarrow> nat list \<Rightarrow> bool" where
  "window_bounded fresh limit admitted \<longleftrightarrow>
     (\<forall>x. length (filter (\<lambda>t. fresh x t \<and> t \<le> x) admitted) \<le> limit)"

lemma window_tracks_start: "window_tracks fresh clock [] []"
  by (simp add: window_tracks_def)

lemma window_bounded_start: "window_bounded fresh limit []"
  by (simp add: window_bounded_def)

lemma window_tracks_later:
  "window_tracks fresh clock ts admitted \<Longrightarrow> clock \<le> clock' \<Longrightarrow> window_tracks fresh clock' ts admitted"
  by (auto simp: window_tracks_def)

locale sliding_window =
  fixes prune :: "nat \<Rightarrow> nat list \<Rightarrow> nat list" and fresh :: "nat \<Rightarrow> nat \<Rightarrow> bool"
  assumes prune_fresh: "sorted ts \<Longrightarrow> prune now ts = filter (fresh now) ts"
    and fresh_earlier: "now \<le> now' \<Longrightarrow> fresh now' t \<Longrightarrow> fresh now t"
begin

lemma prune_tracks:
  assumes "window_tracks fresh clock ts admitted" "clock \<le> now"
  shows "window_tracks fresh now (prune now ts) admitted"
proof -
  have again: "filter (fresh x) (filter (fresh now) ts) = filter (fresh x) ts" if "now \<le> x" for x
    using fresh_earlier [OF that] by (auto intro!: filter_cong simp: filter_filter)
  have ts: "sorted ts" "\<forall>t \<in> set ts. t \<le> now" "\<forall>x \<ge> now. filter (fresh x) ts = filter (fresh x) admitted"
    using assms by (auto simp: window_tracks_def)
  show ?thesis
    unfolding window_tracks_def prune_fresh [OF ts(1)]
  proof (intro conjI allI impI)
    show "sorted (filter (fresh now) ts)" using ts(1) by (rule sorted_wrt_filter)
    show "\<forall>t \<in> set (filter (fresh now) ts). t \<le> now" using ts(2) by simp
    show "filter (fresh x) (filter (fresh now) ts) = filter (fresh x) admitted" if "now \<le> x" for x
      unfolding again [OF that] using ts(3) that by blast
  qed
qed

lemma admit_tracks:
  assumes tracks: "window_tracks fresh clock ts admitted" and clock: "clock \<le> now" "now \<le> stamp"
    and step: "window_admit prune limit now stamp ts = (ok, ts')"
  shows "window_tracks fresh stamp ts' (if ok then admitted @ [stamp] else admitted)"
  using step window_tracks_later [OF prune_tracks [OF tracks clock(1)] clock(2)]
  by (auto simp: window_admit_def Let_def window_tracks_def sorted_append split: if_splits)

lemma admit_bounded:
  assumes tracks: "window_tracks fresh clock ts admitted" and clock: "clock \<le> now" "now \<le> stamp"
    and step: "window_admit prune limit now stamp ts = (ok, ts')"
    and bounded: "window_bounded fresh limit admitted"
  shows "window_bounded fresh limit (if ok then admitted @ [stamp] else admitted)"
proof (cases ok)
  case True
  then have room: "length (filter (fresh now) admitted) < limit"
    using step tracks clock(1)
    by (auto simp: window_admit_def window_tracks_def prune_fresh Let_def split: if_splits)
  have "length (filter (\<lambda>t. fresh x t \<and> t \<le> x) (admitted @ [stamp])) \<le> limit" for x
  proof (cases "stamp \<le> x")
    case True
    have "length (filter (\<lambda>t. fresh x t \<and> t \<le> x) admitted) \<le> length (filter (fresh now) admitted)"
      using fresh_earlier [of now x] True clock(2) by (induction admitted) auto
    then show ?thesis using room by simp
  next
    case False
    then show ?thesis using bounded by (simp add: window_bounded_def)
  qed
  then show ?thesis using True by (simp add: window_bounded_def)
next
  case False
  then show ?thesis using bounded by simp
qed

end

text \<open>Popping from the front of a sorted window is the filter.\<close>

lemma pop_older_fresh:
  "sorted ts \<Longrightarrow> pop_older window now ts = filter (\<lambda>t. now - t \<le> window) ts"
proof (induction ts)
  case (Cons t ts)
  then show ?case
    by (cases "window < now - t") (auto intro!: filter_True [symmetric])
qed simp

lemma prune_window_fresh:
  "sorted ts \<Longrightarrow> prune_window window now ts = filter (\<lambda>t. now - t < window) ts"
proof (induction ts)
  case (Cons t ts)
  then show ?case
    by (cases "window \<le> now - t") (auto intro!: filter_True [symmetric])
qed simp

interpretation popped: sliding_window "pop_older window" "\<lambda>now t. now - t \<le> window" for window
  by unfold_locales (auto simp: pop_older_fresh)

interpretation pruned: sliding_window "prune_window window" "\<lambda>now t. now - t < window" for window
  by unfold_locales (auto simp: prune_window_fresh)

definition retain_after_cutoff :: "nat \<Rightarrow> nat \<Rightarrow> nat list \<Rightarrow> nat list" where
  "retain_after_cutoff window now ts =
     (case checked_sub now window of Some cutoff \<Rightarrow> filter (\<lambda>t. cutoff < t) ts | None \<Rightarrow> ts)"

lemma retain_after_cutoff_fresh:
  assumes "0 < window"
  shows "retain_after_cutoff window now ts = filter (\<lambda>t. now - t < window) ts"
proof (cases "window \<le> now")
  case True
  then have "now - window < t \<longleftrightarrow> now - t < window" for t
    using assms by auto
  then show ?thesis
    using True by (simp add: retain_after_cutoff_def checked_sub_def cong: filter_cong)
next
  case False
  then have "now - t < window" for t by simp
  then show ?thesis using False by (simp add: retain_after_cutoff_def checked_sub_def)
qed

interpretation retained: sliding_window "retain_after_cutoff WRITE_THROTTLE_WINDOW" "\<lambda>now t. now - t < WRITE_THROTTLE_WINDOW"
  by unfold_locales (auto simp: retain_after_cutoff_fresh WRITE_THROTTLE_WINDOW_def)

lemma throttles_are_windows:
  "tm_check_write_throttle now ts = window_admit (pop_older WRITE_THROTTLE_WINDOW) WRITE_THROTTLE_MAX now now ts"
  "pv_check_write_throttle now ts = window_admit (pop_older WRITE_THROTTLE_WINDOW) WRITE_THROTTLE_MAX now now ts"
  "gw_write_throttle now now' ts =
     window_admit (retain_after_cutoff WRITE_THROTTLE_WINDOW) WRITE_THROTTLE_MAX now now' ts"
  by (simp_all add: tm_check_write_throttle_def pv_check_write_throttle_def gw_write_throttle_def
      window_admit_def retain_after_cutoff_def Let_def)

text \<open>A sequence of requests to a throttle, each with its two readings of the clock, and what it admits.\<close>

fun throttle_run :: "(nat \<Rightarrow> nat \<Rightarrow> nat list \<Rightarrow> bool \<times> nat list) \<Rightarrow> (nat \<times> nat) list \<Rightarrow> nat list \<Rightarrow> nat list" where
  "throttle_run throttle [] ts = []"
| "throttle_run throttle ((now, now') # reqs) ts =
     (case throttle now now' ts of (ok, ts') \<Rightarrow> (if ok then [now'] else []) @ throttle_run throttle reqs ts')"

fun clock_ordered :: "nat \<Rightarrow> (nat \<times> nat) list \<Rightarrow> bool" where
  "clock_ordered clock [] = True"
| "clock_ordered clock ((now, now') # reqs) \<longleftrightarrow> clock \<le> now \<and> now \<le> now' \<and> clock_ordered now' reqs"

context sliding_window
begin

lemma run_bounded:
  assumes "clock_ordered clock reqs" "window_tracks fresh clock ts admitted" "window_bounded fresh limit admitted"
  shows "window_bounded fresh limit (admitted @ throttle_run (window_admit prune limit) reqs ts)"
  using assms
proof (induction "window_admit prune limit" reqs ts arbitrary: clock admitted rule: throttle_run.induct)
  case (2 now now' reqs ts)
  obtain ok ts' where step: "window_admit prune limit now now' ts = (ok, ts')"
    by (cases "window_admit prune limit now now' ts") simp
  have clock: "clock \<le> now" "now \<le> now'" "clock_ordered now' reqs"
    using 2(2) by simp_all
  show ?case
    using 2(1) [OF step [symmetric] clock(3) admit_tracks [OF 2(3) clock(1,2) step]
        admit_bounded [OF 2(3) clock(1,2) step 2(4)]] step
    by (simp split: if_splits)
qed simp

lemma run_from_start:
  assumes "clock_ordered 0 reqs"
  shows "window_bounded fresh limit (throttle_run (window_admit prune limit) reqs [])"
  using run_bounded [OF assms window_tracks_start window_bounded_start] by simp

end

lemma clock_ordered_once:
  "sorted nows \<Longrightarrow> clock_ordered 0 (map (\<lambda>now. (now, now)) nows)"
proof -
  have "sorted nows \<Longrightarrow> \<forall>now \<in> set nows. clock \<le> now \<Longrightarrow> clock_ordered clock (map (\<lambda>now. (now, now)) nows)" for clock
    by (induction nows arbitrary: clock) auto
  then show "sorted nows \<Longrightarrow> clock_ordered 0 (map (\<lambda>now. (now, now)) nows)" by simp
qed

lemma throttle_runs:
  "throttle_run (\<lambda>now _. tm_check_write_throttle now) (map (\<lambda>now. (now, now)) nows) ts =
   throttle_run (window_admit (pop_older WRITE_THROTTLE_WINDOW) WRITE_THROTTLE_MAX) (map (\<lambda>now. (now, now)) nows) ts"
  "throttle_run (\<lambda>now _. pv_check_write_throttle now) (map (\<lambda>now. (now, now)) nows) ts =
   throttle_run (window_admit (pop_older WRITE_THROTTLE_WINDOW) WRITE_THROTTLE_MAX) (map (\<lambda>now. (now, now)) nows) ts"
  "throttle_run gw_write_throttle reqs ts =
   throttle_run (window_admit (retain_after_cutoff WRITE_THROTTLE_WINDOW) WRITE_THROTTLE_MAX) reqs ts"
  subgoal by (induction nows arbitrary: ts) (simp_all add: throttles_are_windows split: prod.split)
  subgoal by (induction nows arbitrary: ts) (simp_all add: throttles_are_windows split: prod.split)
  subgoal by (induction reqs arbitrary: ts) (auto simp: throttles_are_windows split: prod.split)
  done

lemma zero_less_window: "checked_sub 0 WRITE_THROTTLE_WINDOW = None" "0 < WRITE_THROTTLE_WINDOW"
  by (simp_all add: checked_sub_def WRITE_THROTTLE_WINDOW_def)

text \<open>However the requests come, each settings page lets through at most ten writes in any 60 seconds:
  the two that pop in 60 seconds with both ends, the one that retains after a cutoff in the half-open
  window.
\<close>

theorem settings_writes_throttled:
  assumes "sorted nows" "clock_ordered 0 reqs"
  shows "length (filter (\<lambda>t. x - t \<le> WRITE_THROTTLE_WINDOW \<and> t \<le> x)
        (throttle_run (\<lambda>now _. tm_check_write_throttle now) (map (\<lambda>now. (now, now)) nows) [])) \<le> WRITE_THROTTLE_MAX \<and>
    length (filter (\<lambda>t. x - t \<le> WRITE_THROTTLE_WINDOW \<and> t \<le> x)
        (throttle_run (\<lambda>now _. pv_check_write_throttle now) (map (\<lambda>now. (now, now)) nows) [])) \<le> WRITE_THROTTLE_MAX \<and>
    length (filter (\<lambda>t. x - t < WRITE_THROTTLE_WINDOW \<and> t \<le> x)
        (throttle_run gw_write_throttle reqs [])) \<le> WRITE_THROTTLE_MAX"
proof -
  have "clock_ordered 0 (map (\<lambda>now. (now, now)) nows)"
    using assms(1) by (rule clock_ordered_once)
  then show ?thesis
    using popped.run_from_start [of _ WRITE_THROTTLE_WINDOW WRITE_THROTTLE_MAX]
      retained.run_from_start [OF assms(2), of WRITE_THROTTLE_MAX]
    by (simp add: throttle_runs window_bounded_def)
qed

definition twelve_writes :: "(nat \<times> nat) list" where
  "twelve_writes = [(0, 0), (0, 0), (0, 0), (0, 0), (0, 0), (0, 0), (0, 0), (0, 0), (0, 0), (0, 0), (0, 0), (0, 0)]"

lemma twelve_writes_throttled:
  "throttle_run gw_write_throttle twelve_writes [] = [0, 0, 0, 0, 0, 0, 0, 0, 0, 0]"
  by (simp add: twelve_writes_def gw_write_throttle_def zero_less_window WRITE_THROTTLE_MAX_def)

theorem settings_writes_throttled_witness:
  "throttle_run gw_write_throttle twelve_writes [] = [0, 0, 0, 0, 0, 0, 0, 0, 0, 0] \<and>
   length (filter (\<lambda>t. 0 - t < WRITE_THROTTLE_WINDOW \<and> t \<le> 0) (throttle_run gw_write_throttle twelve_writes []))
     \<le> WRITE_THROTTLE_MAX"
proof -
  have "clock_ordered 0 twelve_writes"
    by (simp add: twelve_writes_def)
  then show ?thesis
    using settings_writes_throttled [of "[]" twelve_writes 0] twelve_writes_throttled by simp
qed

section \<open>Runs of the limiter\<close>

text \<open>The state after some requests and cleanups, the clock, and what was admitted when.\<close>

inductive limiter_run :: "RateLimiter \<Rightarrow> nat \<Rightarrow> nat \<Rightarrow> ('ip \<times> nat) list \<Rightarrow> 'ip LimiterState \<Rightarrow> bool" for L m where
  limiter_start: "limiter_run L m 0 [] limiter_state_new"
| limiter_admit: "limiter_run L m clock admitted st \<Longrightarrow> clock \<le> now \<Longrightarrow> admit L now ip m st = (r, st') \<Longrightarrow>
    limiter_run L m now (if r = Inr () then admitted @ [(ip, now)] else admitted) st'"
| limiter_cleanup: "limiter_run L m clock admitted st \<Longrightarrow> clock \<le> now \<Longrightarrow>
    limiter_run L m now admitted (cleanup L now st)"

lemma ip_window_put [simp]:
  "ip_window (put_window ip ts ips) ip' = (if ip' = ip then ts else ip_window ips ip')"
  by (induction ips) (auto simp: ip_window_def)

lemma put_window_keys [simp]:
  "fst ` set (put_window ip ts ips) = insert ip (fst ` set ips)"
proof (induction ips)
  case (Cons e ips)
  then show ?case by (cases e; cases "fst e = ip") (auto simp del: set_map)
qed simp

lemma put_window_distinct [simp]:
  "distinct (map fst (put_window ip ts ips)) = distinct (map fst ips)"
proof (induction ips)
  case (Cons e ips)
  then show ?case
    using put_window_keys [of ip ts ips] by (cases e) (auto simp: image_iff)
qed simp

lemma ip_window_filter:
  assumes "distinct (map fst ips)"
  shows "ip_window (filter P ips) ip = (if ip \<in> fst ` set ips \<and> P (ip, ip_window ips ip) then ip_window ips ip else [])"
  using assms
proof (induction ips)
  case (Cons e ips)
  have "map_of (filter P ips) (fst e) = None"
    using Cons.prems by (auto simp: map_of_eq_None_iff)
  then show ?case
    using Cons by (cases e) (auto simp: ip_window_def image_iff split: option.splits)
qed (simp add: ip_window_def)

text \<open>What one request does, by its three outcomes.\<close>

definition global_after :: "RateLimiter \<Rightarrow> nat \<Rightarrow> 'ip LimiterState \<Rightarrow> nat list" where
  "global_after L now st =
     (if rl_global_ceiling L = None then ls_global_timestamps st
      else prune_window (rl_window L) now (ls_global_timestamps st))"

lemma admit_cases [consumes 2, case_names ceiling full ok]:
  assumes "admit L now ip m st = (r, st')" and "\<not> ls_poisoned st"
  obtains
    (ceiling) c where "rl_global_ceiling L = Some c" "c \<le> length (global_after L now st)"
      "r = Inl (until_front_expires (global_after L now st) now (rl_window L))"
      "ls_ips st' = ls_ips st" "ls_global_timestamps st' = global_after L now st" "\<not> ls_poisoned st'"
  | (full) ts where "ts = prune_window (rl_window L) now (ip_window (ls_ips st) ip)" "m \<le> length ts"
      "r = Inl (until_front_expires ts now (rl_window L))"
      "ls_ips st' = put_window ip ts (ls_ips st)" "ls_global_timestamps st' = global_after L now st" "\<not> ls_poisoned st'"
      "\<forall>c. rl_global_ceiling L = Some c \<longrightarrow> length (global_after L now st) < c"
  | (ok) ts ips where "ts = prune_window (rl_window L) now (ip_window (ls_ips st) ip)" "length ts < m"
      "r = Inr ()" "ips = put_window ip (ts @ [now]) (ls_ips st)"
      "ls_ips st' = (if rl_max_tracked_ips L < length ips then evict_oldest ips else ips)"
      "ls_global_timestamps st' =
         (if rl_global_ceiling L = None then ls_global_timestamps st else global_after L now st @ [now])"
      "\<not> ls_poisoned st'"
      "\<forall>c. rl_global_ceiling L = Some c \<longrightarrow> length (global_after L now st) < c"
proof -
  let ?g = "global_after L now st" and ?ts = "prune_window (rl_window L) now (ip_window (ls_ips st) ip)"
  let ?over = "case rl_global_ceiling L of None \<Rightarrow> False | Some c \<Rightarrow> c \<le> length ?g"
  have g: "(case rl_global_ceiling L of None \<Rightarrow> ls_global_timestamps st
      | Some _ \<Rightarrow> prune_window (rl_window L) now (ls_global_timestamps st)) = ?g"
    by (simp add: global_after_def split: option.split)
  note eq = assms(1) [unfolded admit_def g Let_def]
  show thesis
  proof (cases ?over)
    case True
    then obtain c where "rl_global_ceiling L = Some c" "c \<le> length ?g"
      by (auto split: option.splits)
    then show thesis using ceiling [of c] eq assms(2) by fastforce
  next
    case under: False
    then have below: "\<forall>c. rl_global_ceiling L = Some c \<longrightarrow> length ?g < c"
      by (auto split: option.splits)
    show thesis
    proof (cases "m \<le> length ?ts")
      case True
      then show thesis using full [OF refl] eq assms(2) under below by fastforce
    next
      case False
      let ?ips = "put_window ip (?ts @ [now]) (ls_ips st)"
      have "r = Inr ()" "ls_ips st' = (if rl_max_tracked_ips L < length ?ips then evict_oldest ?ips else ?ips)"
        "ls_global_timestamps st' = (if rl_global_ceiling L = None then ls_global_timestamps st else ?g @ [now])"
        "\<not> ls_poisoned st'"
        using eq assms(2) under False
        by (cases "rl_global_ceiling L"; cases "rl_max_tracked_ips L < length ?ips"; auto simp: global_after_def)+
      then show thesis using ok [OF refl _ _ refl] False below by simp
    qed
  qed
qed

lemma limiter_not_poisoned:
  "limiter_run L m clock admitted st \<Longrightarrow> \<not> ls_poisoned st"
proof (induction rule: limiter_run.induct)
  case (limiter_admit clock admitted st now ip r st')
  from limiter_admit(3) limiter_admit.IH show ?case by (cases rule: admit_cases) auto
qed (simp_all add: limiter_state_new_def cleanup_def)

abbreviation limiter_fresh :: "RateLimiter \<Rightarrow> nat \<Rightarrow> nat \<Rightarrow> bool" where
  "limiter_fresh L \<equiv> (\<lambda>now t. now - t < rl_window L)"

text \<open>The aggregate window: it is never evicted, so it holds for every run.\<close>

lemma limiter_global:
  assumes "limiter_run L m clock admitted st" and "rl_global_ceiling L = Some c"
  shows "window_tracks (limiter_fresh L) clock (ls_global_timestamps st) (map snd admitted) \<and>
    window_bounded (limiter_fresh L) c (map snd admitted)"
  using assms
proof (induction rule: limiter_run.induct)
  case limiter_start
  then show ?case
    by (simp add: limiter_state_new_def window_tracks_start window_bounded_start)
next
  case (limiter_admit clock admitted st now ip r st')
  then have inv: "window_tracks (limiter_fresh L) clock (ls_global_timestamps st) (map snd admitted)"
    "window_bounded (limiter_fresh L) c (map snd admitted)" by simp_all
  note pruned = pruned.prune_tracks [OF inv(1) limiter_admit(2)]
  from limiter_admit(3) limiter_not_poisoned [OF limiter_admit(1)] show ?case
  proof (cases rule: admit_cases)
    case (ok ts ips)
    then have "window_admit (prune_window (rl_window L)) c now now (ls_global_timestamps st) =
      (True, ls_global_timestamps st')"
      using limiter_admit.prems by (auto simp: window_admit_def global_after_def)
    then show ?thesis
      using pruned.admit_tracks [OF inv(1) limiter_admit(2) order.refl]
        pruned.admit_bounded [OF inv(1) limiter_admit(2) order.refl _ inv(2)] ok(3) by fastforce
  qed (use pruned inv limiter_admit.prems in \<open>simp_all add: global_after_def\<close>)
next
  case (limiter_cleanup clock admitted st now)
  then show ?case
    using limiter_not_poisoned [OF limiter_cleanup(1)] pruned.prune_tracks [of "rl_window L" clock]
    by (simp add: cleanup_def)
qed

text \<open>Without evictions a window per address tracks what was admitted from it.\<close>

definition from_ip :: "'ip \<Rightarrow> ('ip \<times> nat) list \<Rightarrow> nat list" where
  "from_ip ip admitted = map snd (filter (\<lambda>e. fst e = ip) admitted)"

lemma from_ip_snoc:
  "from_ip ip (admitted @ [(ip', now)]) = from_ip ip admitted @ (if ip = ip' then [now] else [])"
  by (auto simp: from_ip_def)

definition admission_inv :: "RateLimiter \<Rightarrow> nat \<Rightarrow> nat \<Rightarrow> ('ip \<times> nat) list \<Rightarrow> 'ip LimiterState \<Rightarrow> bool" where
  "admission_inv L m clock admitted st \<longleftrightarrow>
     distinct (map fst (ls_ips st)) \<and> fst ` set (ls_ips st) \<subseteq> fst ` set admitted \<and>
     (\<forall>ip. window_tracks (limiter_fresh L) clock (ip_window (ls_ips st) ip) (from_ip ip admitted) \<and>
        window_bounded (limiter_fresh L) m (from_ip ip admitted))"

lemma ip_window_absent: "ip \<notin> fst ` set ips \<Longrightarrow> ip_window ips ip = []"
  by (simp add: ip_window_def map_of_eq_None_iff [THEN iffD2])

lemma admission_inv_ceiling:
  "admission_inv L m clock admitted st \<Longrightarrow> clock \<le> now \<Longrightarrow> ls_ips st' = ls_ips st \<Longrightarrow> admission_inv L m now admitted st'"
  by (auto simp: admission_inv_def intro: window_tracks_later)

lemma admission_inv_full:
  assumes inv: "admission_inv L m clock admitted st" and "clock \<le> now" "0 < m"
    and full: "ts = prune_window (rl_window L) now (ip_window (ls_ips st) ip)" "m \<le> length ts"
      "ls_ips st' = put_window ip ts (ls_ips st)"
  shows "admission_inv L m now admitted st'"
proof -
  have "ip \<in> fst ` set (ls_ips st)"
    using full(1,2) \<open>0 < m\<close> ip_window_absent [of ip "ls_ips st"] by fastforce
  moreover have "window_tracks (limiter_fresh L) now ts (from_ip ip admitted)"
    using pruned.prune_tracks [of "rl_window L" clock _ "from_ip ip admitted"] inv full(1) \<open>clock \<le> now\<close>
    by (simp add: admission_inv_def)
  ultimately show ?thesis
    using inv full(3) \<open>clock \<le> now\<close> by (auto simp: admission_inv_def intro: window_tracks_later)
qed

lemma admission_inv_ok:
  assumes inv: "admission_inv L m clock admitted st" and "clock \<le> now"
    and ok: "ts = prune_window (rl_window L) now (ip_window (ls_ips st) ip)" "length ts < m"
      "ls_ips st' = put_window ip (ts @ [now]) (ls_ips st)"
  shows "admission_inv L m now (admitted @ [(ip, now)]) st'"
proof -
  have step: "window_admit (prune_window (rl_window L)) m now now (ip_window (ls_ips st) ip) = (True, ts @ [now])"
    using ok by (simp add: window_admit_def)
  have tracks: "window_tracks (limiter_fresh L) clock (ip_window (ls_ips st) ip') (from_ip ip' admitted)"
    "window_bounded (limiter_fresh L) m (from_ip ip' admitted)" for ip'
    using inv by (simp_all add: admission_inv_def)
  have "window_tracks (limiter_fresh L) now (ts @ [now]) (from_ip ip admitted @ [now])"
    "window_bounded (limiter_fresh L) m (from_ip ip admitted @ [now])"
    using pruned.admit_tracks [OF tracks(1) \<open>clock \<le> now\<close> order.refl step]
      pruned.admit_bounded [OF tracks(1) \<open>clock \<le> now\<close> order.refl step tracks(2)] by simp_all
  then show ?thesis
    using inv ok(3) tracks window_tracks_later [OF tracks(1) \<open>clock \<le> now\<close>]
    by (auto simp: admission_inv_def from_ip_snoc)
qed

lemma admission_inv_cleanup:
  assumes inv: "admission_inv L m clock admitted st" and "clock \<le> now" "\<not> ls_poisoned st"
  shows "admission_inv L m now admitted (cleanup L now st)"
proof -
  let ?keep = "\<lambda>(ip :: 'a, ts). ts \<noteq> [] \<and> now - List.last ts < rl_window L * 2"
  have stale: "window_tracks (limiter_fresh L) now [] (from_ip ip admitted)"
    if "\<not> ?keep (ip, ip_window (ls_ips st) ip)" for ip
  proof -
    let ?ts = "ip_window (ls_ips st) ip"
    have tracks: "window_tracks (limiter_fresh L) now ?ts (from_ip ip admitted)"
      using inv \<open>clock \<le> now\<close> by (auto simp: admission_inv_def intro: window_tracks_later)
    have "t \<le> List.last ?ts" if "t \<in> set ?ts" for t
      using tracks that by (cases ?ts rule: rev_cases) (auto simp: window_tracks_def sorted_append)
    then have "rl_window L \<le> x - t" if "t \<in> set ?ts" "now \<le> x" for x t
      using \<open>\<not> ?keep (ip, ?ts)\<close> that by fastforce
    then have "filter (limiter_fresh L x) ?ts = []" if "now \<le> x" for x
      using that by (simp add: filter_empty_conv not_less)
    then show ?thesis using tracks by (simp add: window_tracks_def)
  qed
  have "window_tracks (limiter_fresh L) now (ip_window (filter ?keep (ls_ips st)) ip) (from_ip ip admitted)" for ip
    using stale [of ip] inv \<open>clock \<le> now\<close> ip_window_absent [of ip "ls_ips st"]
    by (auto simp: ip_window_filter admission_inv_def intro: window_tracks_later)
  then show ?thesis
    using inv assms(3) by (auto simp: admission_inv_def cleanup_def distinct_map_filter)
qed

lemma keys_bounded:
  assumes "distinct (map fst ips)" "fst ` set ips \<subseteq> A" "finite A" "card A \<le> n"
  shows "length ips \<le> n"
proof -
  have "length ips = card (fst ` set ips)"
    using distinct_card [OF assms(1)] by simp
  then show ?thesis
    using card_mono [OF assms(3,2)] assms(4) by simp
qed

lemma limiter_run_inv:
  assumes "limiter_run L m clock admitted st" and "0 < m" and "card (fst ` set admitted) \<le> rl_max_tracked_ips L"
  shows "admission_inv L m clock admitted st"
  using assms
proof (induction rule: limiter_run.induct)
  case limiter_start
  then show ?case
    by (simp add: admission_inv_def limiter_state_new_def ip_window_def from_ip_def window_tracks_start
        window_bounded_start)
next
  case (limiter_admit clock admitted st now ip r st')
  let ?admitted = "if r = Inr () then admitted @ [(ip, now)] else admitted"
  have "card (fst ` set admitted) \<le> card (fst ` set ?admitted)"
    by (intro card_mono) auto
  then have inv: "admission_inv L m clock admitted st"
    using limiter_admit.IH limiter_admit.prems by simp
  from limiter_admit(3) limiter_not_poisoned [OF limiter_admit(1)] show ?case
  proof (cases rule: admit_cases)
    case (ceiling c)
    then show ?thesis using admission_inv_ceiling [OF inv limiter_admit(2)] by simp
  next
    case (full ts)
    then show ?thesis
      using admission_inv_full [OF inv limiter_admit(2) limiter_admit.prems(1) full(1,2,4)] by simp
  next
    case (ok ts ips)
    have "length ips \<le> rl_max_tracked_ips L"
      using inv ok(3,4) limiter_admit.prems(2)
      by (intro keys_bounded [of _ "fst ` set ?admitted"]) (auto simp: admission_inv_def)
    then show ?thesis
      using admission_inv_ok [OF inv limiter_admit(2) ok(1,2)] ok(3-5) by simp
  qed
next
  case (limiter_cleanup clock admitted st now)
  then show ?case
    using admission_inv_cleanup limiter_not_poisoned by blast
qed

text \<open>C26. The limiter's two ceilings hold in every window, also across window edges: with an aggregate
  ceiling no window of the limiter's length sees more admissions than it, whatever was evicted; and
  while no more addresses were admitted than the limiter tracks, no window sees more admissions from
  one address than the limit.
\<close>

theorem limiter_ceilings:
  assumes "limiter_run L m clock admitted st" and "0 < m"
  shows "(\<forall>c x. rl_global_ceiling L = Some c \<longrightarrow>
        length (filter (\<lambda>(_, t). x - t < rl_window L \<and> t \<le> x) admitted) \<le> c) \<and>
    (card (fst ` set admitted) \<le> rl_max_tracked_ips L \<longrightarrow>
        (\<forall>ip x. length (filter (\<lambda>(ip', t). ip' = ip \<and> x - t < rl_window L \<and> t \<le> x) admitted) \<le> m))"
proof -
  have "length (filter (\<lambda>(_, t). x - t < rl_window L \<and> t \<le> x) admitted) =
    length (filter (\<lambda>t. x - t < rl_window L \<and> t \<le> x) (map snd admitted))" for x
    by (simp add: filter_map o_def case_prod_unfold)
  moreover have "length (filter (\<lambda>(ip', t). ip' = ip \<and> x - t < rl_window L \<and> t \<le> x) admitted) =
    length (filter (\<lambda>t. x - t < rl_window L \<and> t \<le> x) (from_ip ip admitted))" for ip x
    by (simp add: filter_map o_def case_prod_unfold from_ip_def conj_commute conj_left_commute)
  ultimately show ?thesis
    using limiter_global [OF assms(1)] limiter_run_inv [OF assms]
    by (simp add: window_bounded_def admission_inv_def)
qed

text \<open>What every state keeps, evictions or not.\<close>

definition windows_ok :: "nat \<Rightarrow> nat \<Rightarrow> 'ip LimiterState \<Rightarrow> bool" where
  "windows_ok m clock st \<longleftrightarrow>
     (\<forall>(ip, ts) \<in> set (ls_ips st). sorted ts \<and> (\<forall>t \<in> set ts. t \<le> clock) \<and> length ts \<le> m)"

lemma windows_ok_window:
  assumes "windows_ok m clock st"
  shows "sorted (ip_window (ls_ips st) ip)" "\<forall>t \<in> set (ip_window (ls_ips st) ip). t \<le> clock"
    "length (ip_window (ls_ips st) ip) \<le> m"
  using assms
  by (cases "map_of (ls_ips st) ip"; fastforce simp: windows_ok_def ip_window_def dest: map_of_SomeD)+

lemma windows_ok_subset:
  "windows_ok m clock st \<Longrightarrow> clock \<le> now \<Longrightarrow> set (ls_ips st') \<subseteq> set (ls_ips st) \<Longrightarrow> windows_ok m now st'"
  unfolding windows_ok_def by fastforce

lemma set_put_window: "set (put_window ip ts ips) \<subseteq> insert (ip, ts) (set ips)"
  by (induction ips) (auto split: if_splits)

lemma windows_ok_put:
  assumes "windows_ok m clock st" "clock \<le> now" "sorted ts" "\<forall>t \<in> set ts. t \<le> now" "length ts \<le> m"
    "set (ls_ips st') \<subseteq> set (put_window ip ts (ls_ips st))"
  shows "windows_ok m now st'"
  using assms set_put_window [of ip ts "ls_ips st"] unfolding windows_ok_def by fastforce

lemma evict_oldest_subset: "set (evict_oldest ips) \<subseteq> set ips"
  by (auto simp: evict_oldest_def split: option.splits)

lemma admit_windows_ok:
  assumes step: "admit L now ip m st = (r, st')" and "\<not> ls_poisoned st"
    and before: "windows_ok m clock st" "clock \<le> now"
  shows "windows_ok m now st'"
proof -
  let ?ts = "prune_window (rl_window L) now (ip_window (ls_ips st) ip)"
  have ts: "?ts = filter (limiter_fresh L now) (ip_window (ls_ips st) ip)"
    using windows_ok_window(1) [OF before(1)] by (rule prune_window_fresh)
  then have facts: "sorted ?ts" "\<forall>t \<in> set ?ts. t \<le> now" "length ?ts \<le> m"
    using windows_ok_window [OF before(1), of ip] before(2) order_trans [OF length_filter_le]
    by (auto simp: sorted_wrt_filter)
  from step \<open>\<not> ls_poisoned st\<close> show ?thesis
  proof (cases rule: admit_cases)
    case (ceiling c)
    then show ?thesis using windows_ok_subset [OF before] by simp
  next
    case (full ts)
    then show ?thesis using windows_ok_put [OF before facts, of st' ip] by simp
  next
    case (ok ts ips)
    then show ?thesis
      using windows_ok_put [OF before, of "?ts @ [now]" st' ip] facts evict_oldest_subset [of ips]
      by (simp add: sorted_append split: if_splits)
  qed
qed

lemma limiter_windows_ok:
  "limiter_run L m clock admitted st \<Longrightarrow> windows_ok m clock st"
proof (induction rule: limiter_run.induct)
  case (limiter_admit clock admitted st now ip r st')
  show ?case
    by (rule admit_windows_ok [OF limiter_admit(3) limiter_not_poisoned [OF limiter_admit(1)] limiter_admit.IH
          limiter_admit(2)])
next
  case (limiter_cleanup clock admitted st now)
  then show ?case
    by (elim windows_ok_subset) (auto simp: cleanup_def)
qed (simp add: windows_ok_def limiter_state_new_def)

lemma until_front_expires_bounds:
  assumes "\<forall>t \<in> set ts. now - t < window" "0 < window"
  shows "0 < until_front_expires ts now window \<and> until_front_expires ts now window \<le> window"
  using assms by (auto simp: until_front_expires_def split: list.split)

text \<open>
  A full window frees a place exactly when its wait has passed: before that every entry is still in it,
  and then the oldest is not.
\<close>

lemma wait_exact:
  assumes "sorted ts" "\<forall>t \<in> set ts. t \<le> now \<and> now - t < window" "length ts = m" "0 < m"
  shows "m \<le> length (prune_window window (now + w) ts) \<longleftrightarrow> w < until_front_expires ts now window"
proof -
  obtain front rest where ts: "ts = front # rest"
    using assms(3,4) by (cases ts) auto
  have front: "front \<le> now" "now - front < window" "\<forall>t \<in> set ts. front \<le> t"
    using assms(1,2) ts by auto
  show ?thesis
  proof (cases "w < until_front_expires ts now window")
    case True
    then have "now + w - front < window"
      using front ts by (simp add: until_front_expires_def)
    then have "\<forall>t \<in> set ts. now + w - t < window"
      using front(3) by fastforce
    then show ?thesis
      using True prune_window_fresh [OF assms(1), of window "now + w"] assms(3) by simp
  next
    case False
    then have "window \<le> now + w - front"
      using front ts by (simp add: until_front_expires_def)
    moreover have "length (prune_window window (now + w) rest) \<le> length rest"
      using assms(1) ts by (simp add: prune_window_fresh)
    ultimately show ?thesis using False ts assms(3) by simp
  qed
qed

text \<open>
  A refused caller is told the truth: the wait is positive and at most a window, and without an
  aggregate ceiling and with nothing in between, a request from the same address is refused at every
  moment before it has passed and admitted from then on.
\<close>

lemma admit_retry:
  assumes run: "limiter_run L m clock admitted st" and "clock \<le> now"
    and config: "0 < m" "0 < rl_window L" "rl_global_ceiling L = None"
    and denied: "admit L now ip m st = (Inl wait, st')"
  shows "0 < wait \<and> wait \<le> rl_window L \<and> (\<forall>w. fst (admit L (now + w) ip m st') = Inr () \<longleftrightarrow> wait \<le> w)"
proof -
  note before = windows_ok_window [OF limiter_windows_ok [OF run], of ip]
  from denied limiter_not_poisoned [OF run] show ?thesis
  proof (cases rule: admit_cases)
    case (full ts)
    have ts: "ts = filter (limiter_fresh L now) (ip_window (ls_ips st) ip)"
      unfolding full(1) by (rule prune_window_fresh [OF before(1)])
    then have "length ts \<le> m"
      using before(3) by (simp add: order_trans [OF length_filter_le])
    then have facts: "sorted ts" "\<forall>t \<in> set ts. t \<le> now \<and> now - t < rl_window L" "length ts = m"
      using before ts full(2) \<open>clock \<le> now\<close> by (auto simp: sorted_wrt_filter)
    have wait: "wait = until_front_expires ts now (rl_window L)"
      using full(3) by simp
    have "fst (admit L (now + w) ip m st') = Inr () \<longleftrightarrow> \<not> m \<le> length (prune_window (rl_window L) (now + w) ts)" for w
      using full(4,6) config(3) by (simp add: admit_def Let_def)
    then show ?thesis
      using wait_exact [OF facts config(1)] until_front_expires_bounds [of ts now "rl_window L"] facts(2) config(2) wait
      by (simp add: not_less)
  qed (use config in simp_all)
qed

section \<open>Sample runs\<close>

definition one_admitted :: "nat LimiterState" where
  "one_admitted = \<lparr>ls_ips = [(1, [7])], ls_global_timestamps = [], ls_poisoned = False\<rparr>"

lemma one_admitted_step:
  "admit limiter_new 7 1 1 limiter_state_new = (Inr (), one_admitted)"
  by (simp add: admit_def limiter_new_def with_config_def limiter_state_new_def ip_window_def one_admitted_def)

lemma one_admitted_run: "limiter_run limiter_new 1 7 [(1, 7)] one_admitted"
  using limiter_admit [OF limiter_start _ one_admitted_step] by simp

theorem limiter_ceilings_witness:
  "limiter_run limiter_new 1 7 [(1, 7)] one_admitted \<and>
   length (filter (\<lambda>(ip', t). ip' = 1 \<and> 9 - t < rl_window limiter_new \<and> t \<le> 9) [(1 :: nat, 7 :: nat)]) \<le> 1"
  using limiter_ceilings [OF one_admitted_run] one_admitted_run by (simp add: limiter_new_def with_config_def)

text \<open>An eviction forgets: a limiter that tracks one address admits two from an address within the window.\<close>

lemma eviction_forgets:
  "\<exists>st. limiter_run (with_config 1 None) 1 9 [(1 :: nat, 7), (2, 8), (1, 9)] st"
proof -
  let ?L = "with_config 1 None" and ?st = "\<lambda>ip t. \<lparr>ls_ips = [(ip :: nat, [t :: nat])], ls_global_timestamps = [], ls_poisoned = False\<rparr>"
  note eval = admit_def with_config_def limiter_state_new_def ip_window_def evict_oldest_def
  have "admit ?L 7 1 1 limiter_state_new = (Inr (), ?st 1 7)" "admit ?L 8 2 1 (?st 1 7) = (Inr (), ?st 2 8)"
    "admit ?L 9 1 1 (?st 2 8) = (Inr (), ?st 1 9)"
    by (simp_all add: eval)
  from limiter_admit [OF limiter_admit [OF limiter_admit [OF limiter_start _ this(1)] _ this(2)] _ this(3)]
  show ?thesis by auto
qed

end
