(* ===== verification/RG_HttpGuard.thy ===== *)
theory RG_HttpGuard
  imports RG_Shares RG_Reasons
begin

text \<open>
  The guards of the HTTP services in the \<open>reservegrid-gateway\<close> crate: the bearer and HMAC
  authentication of \<open>middleware/auth.rs\<close>, the replay cache of \<open>protocol/nonce.rs\<close>, the request bounds
  of \<open>middleware/input.rs\<close> and the delay of \<open>protocol/timing.rs\<close>. Headers are pairs of a lower-case name
  and the bytes of a value, in order; \<open>to_str\<close> of the \<open>http\<close> crate, HMAC and hexadecimal are parameters.
  Times are seconds since the epoch.
\<close>

section \<open>Requests\<close>

record http_request =
  rq_method :: string
  rq_path :: string
  rq_query :: string
  rq_headers :: "(string \<times> bytes) list"
  rq_body :: bytes

type_synonym header_reader = "bytes \<Rightarrow> string option"

definition header_str :: "header_reader \<Rightarrow> http_request \<Rightarrow> string \<Rightarrow> string option" where
  "header_str to_str req name = Option.bind (map_of (rq_headers req) name) to_str"

text \<open>\<open>str::parse::<u64>\<close>: an optional plus sign and decimal digits, within the type.\<close>

definition digit_value :: "char \<Rightarrow> nat option" where
  "digit_value c = (let n = of_char c :: nat in if 48 \<le> n \<and> n \<le> 57 then Some (n - 48) else None)"

fun parse_digits :: "nat \<Rightarrow> string \<Rightarrow> nat option" where
  "parse_digits acc [] = Some acc"
| "parse_digits acc (c # cs) =
     (case digit_value c of
        None \<Rightarrow> None
      | Some d \<Rightarrow> if acc * 10 + d < 2 ^ 64 then parse_digits (acc * 10 + d) cs else None)"

definition parse_u64 :: "string \<Rightarrow> nat option" where
  "parse_u64 s =
     (let cs = (case s of c # cs \<Rightarrow> if c = CHR ''+'' then cs else s | [] \<Rightarrow> [])
      in if cs = [] then None else parse_digits 0 cs)"

section \<open>The replay cache\<close>

definition MAX_NONCE_LENGTH :: nat where
  "MAX_NONCE_LENGTH = 256"

record NonceCache =
  nc_entries :: "(string \<times> nat) list"
  nc_max_entries :: nat
  nc_window_secs :: nat

datatype NonceResult = Nonce_Valid | Nonce_Expired | Nonce_Replayed

definition nonce_cache_new :: "nat \<Rightarrow> nat \<Rightarrow> NonceCache" where
  "nonce_cache_new max_entries window_secs =
     \<lparr>nc_entries = [], nc_max_entries = max_entries, nc_window_secs = window_secs\<rparr>"

definition abs_diff :: "nat \<Rightarrow> nat \<Rightarrow> nat" where
  "abs_diff a b = (if a < b then b - a else a - b)"

definition evict_expired :: "nat \<Rightarrow> NonceCache \<Rightarrow> NonceCache" where
  "evict_expired now nc =
     nc\<lparr>nc_entries := filter (\<lambda>(_, ts). now - ts \<le> nc_window_secs nc) (nc_entries nc)\<rparr>"

text \<open>
  The entries are listed in the order a scan of the hash map visits them, on which only the choice among
  several oldest depends.
\<close>

fun oldest_entry :: "(string \<times> nat) list \<Rightarrow> (string \<times> nat) option" where
  "oldest_entry [] = None"
| "oldest_entry (e # es) =
     (case oldest_entry es of None \<Rightarrow> Some e | Some e' \<Rightarrow> if snd e \<le> snd e' then Some e else Some e')"

definition nonce_evict_oldest :: "NonceCache \<Rightarrow> NonceCache" where
  "nonce_evict_oldest nc =
     (case oldest_entry (nc_entries nc) of
        None \<Rightarrow> nc
      | Some (k, _) \<Rightarrow> nc\<lparr>nc_entries := filter (\<lambda>e. fst e \<noteq> k) (nc_entries nc)\<rparr>)"

definition validate_nonce :: "nat \<Rightarrow> string \<Rightarrow> nat \<Rightarrow> NonceCache \<Rightarrow> NonceResult \<times> NonceCache" where
  "validate_nonce now nonce request_timestamp nc =
     (if MAX_NONCE_LENGTH < length nonce then (Nonce_Expired, nc)
      else if nc_window_secs nc < abs_diff now request_timestamp then (Nonce_Expired, nc)
      else
        let nc = evict_expired now nc in
        if nonce \<in> fst ` set (nc_entries nc) then (Nonce_Replayed, nc)
        else
          let nc = (if nc_max_entries nc \<le> length (nc_entries nc) then nonce_evict_oldest nc else nc)
          in (Nonce_Valid, nc\<lparr>nc_entries := nc_entries nc @ [(nonce, request_timestamp)]\<rparr>))"

section \<open>Authentication\<close>

datatype ApiAuthMode = BearerToken | HmacSha256

text \<open>The shared state; the cache with the poison flag of its mutex.\<close>

record AuthState =
  as_mode :: ApiAuthMode
  as_api_secret :: "string option"
  as_api_secret_previous :: "string option"
  as_hmac_key :: "bytes option"
  as_nonce_cache :: "(bool \<times> NonceCache) option"
  as_timestamp_max_age_secs :: nat

definition DEFAULT_TIMESTAMP_MAX_AGE_SECS :: nat where
  "DEFAULT_TIMESTAMP_MAX_AGE_SECS = 300"

definition timestamp_within_window :: "nat \<Rightarrow> nat \<Rightarrow> nat \<Rightarrow> bool" where
  "timestamp_within_window now ts max_age_secs =
     (if now + 60 < ts then False else if max_age_secs < now - ts then False else True)"

definition strip_prefix :: "string \<Rightarrow> string \<Rightarrow> string option" where
  "strip_prefix p s = (if take (length p) s = p then Some (drop (length p) s) else None)"

definition extract_bearer_token :: "header_reader \<Rightarrow> http_request \<Rightarrow> string option" where
  "extract_bearer_token to_str req =
     Option.bind (header_str to_str req ''authorization'') (\<lambda>hval.
     Option.bind (strip_prefix ''Bearer '' hval) (\<lambda>stripped.
       if stripped = [] then None else Some stripped))"

text \<open>The comparison takes a time that does not depend on where two strings of one length differ; its answer is equality.\<close>

definition constant_time_eq :: "bytes \<Rightarrow> bytes \<Rightarrow> bool" where
  "constant_time_eq a b = (if length a \<noteq> length b then False else a = b)"

definition verify_bearer :: "header_reader \<Rightarrow> AuthState \<Rightarrow> http_request \<Rightarrow> bool" where
  "verify_bearer to_str as req =
     (case extract_bearer_token to_str req of
        None \<Rightarrow> False
      | Some token \<Rightarrow>
          (let token_bytes = as_bytes token in
           if (case as_api_secret as of Some secret \<Rightarrow> constant_time_eq token_bytes (as_bytes secret) | None \<Rightarrow> False)
           then True
           else if (case as_api_secret_previous as of
                      Some prev \<Rightarrow> constant_time_eq token_bytes (as_bytes prev) | None \<Rightarrow> False)
           then True else False))"

definition signing_payload :: "string \<Rightarrow> string \<Rightarrow> string \<Rightarrow> string \<Rightarrow> string" where
  "signing_payload req_method path ts_str nonce =
     req_method @ [CHR 0x0A] @ path @ [CHR 0x0A] @ ts_str @ [CHR 0x0A] @ nonce"

definition nonce_check :: "nat \<Rightarrow> string \<Rightarrow> nat \<Rightarrow> AuthState \<Rightarrow> bool \<times> AuthState" where
  "nonce_check now nonce ts as =
     (case as_nonce_cache as of
        None \<Rightarrow> (True, as)
      | Some (poisoned, nc) \<Rightarrow>
          if poisoned then (False, as)
          else case validate_nonce now nonce ts nc of
                 (r, nc) \<Rightarrow> (r = Nonce_Valid, as\<lparr>as_nonce_cache := Some (poisoned, nc)\<rparr>))"

text \<open>The clock is read once per request for the age check and once for the cache.\<close>

definition verify_hmac ::
  "crypto \<Rightarrow> hex_crate \<Rightarrow> header_reader \<Rightarrow> nat \<Rightarrow> nat \<Rightarrow> http_request \<Rightarrow> AuthState \<Rightarrow> bool \<times> AuthState" where
  "verify_hmac C X to_str now now' req as =
     (case as_hmac_key as of
        None \<Rightarrow> (False, as)
      | Some hmac_key \<Rightarrow>
     (case header_str to_str req ''x-signature'' of
        None \<Rightarrow> (False, as)
      | Some sig_hex \<Rightarrow>
     (case header_str to_str req ''x-timestamp'' of
        None \<Rightarrow> (False, as)
      | Some ts_str \<Rightarrow>
     (case header_str to_str req ''x-nonce'' of
        None \<Rightarrow> (False, as)
      | Some nonce \<Rightarrow>
     (case parse_u64 ts_str of
        None \<Rightarrow> (False, as)
      | Some ts \<Rightarrow>
          if \<not> timestamp_within_window now ts (as_timestamp_max_age_secs as) then (False, as)
          else if length nonce < 8 then (False, as)
          else
            (case hex_decode X sig_hex of
               Inl _ \<Rightarrow> (False, as)
             | Inr sig_bytes \<Rightarrow>
                 if length sig_bytes \<noteq> 32 then (False, as)
                 else
                   let payload = signing_payload (rq_method req) (rq_path req) ts_str nonce in
                   (case hmac_sha256 C hmac_key (as_bytes payload) of
                      None \<Rightarrow> (False, as)
                    | Some expected \<Rightarrow>
                        if expected \<noteq> sig_bytes then (False, as) else nonce_check now' nonce ts as)))))))"

definition auth_layer ::
  "crypto \<Rightarrow> hex_crate \<Rightarrow> header_reader \<Rightarrow> nat \<Rightarrow> nat \<Rightarrow> http_request \<Rightarrow> AuthState \<Rightarrow> (u16 + unit) \<times> AuthState" where
  "auth_layer C X to_str now now' req as =
     (case as_mode as of
        BearerToken \<Rightarrow> (if \<not> verify_bearer to_str as req then (Inl 401, as) else (Inr (), as))
      | HmacSha256 \<Rightarrow>
          (case verify_hmac C X to_str now now' req as of
             (False, as) \<Rightarrow> (Inl 401, as) | (True, as) \<Rightarrow> (Inr (), as)))"

section \<open>Bounds on a request\<close>

definition MAX_HEADER_COUNT :: nat where "MAX_HEADER_COUNT = 64"
definition MAX_HEADER_VALUE_BYTES :: nat where "MAX_HEADER_VALUE_BYTES = 8192"
definition DEFAULT_MAX_BODY_BYTES :: nat where "DEFAULT_MAX_BODY_BYTES = 1048576"

definition reject_status :: "ReasonCode \<Rightarrow> u16" where
  "reject_status code =
     (case code of RC_PayloadTooLarge \<Rightarrow> 413 | RC_InvalidContentType \<Rightarrow> 415 | _ \<Rightarrow> 400)"

definition validate_request :: "header_reader \<Rightarrow> nat \<Rightarrow> http_request \<Rightarrow> ReasonCode + unit" where
  "validate_request to_str max_body_bytes req =
     (if MAX_HEADER_COUNT < length (rq_headers req) then Inl RC_PayloadTooLarge
      else if \<exists>(_, hval) \<in> set (rq_headers req). MAX_HEADER_VALUE_BYTES < length hval then Inl RC_PayloadTooLarge
      else if (case Option.bind (header_str to_str req ''content-length'') parse_u64 of
                 Some cl \<Rightarrow> max_body_bytes < cl | None \<Rightarrow> False)
      then Inl RC_PayloadTooLarge
      else if rq_method req \<in> {''POST'', ''PUT'', ''PATCH''} \<and>
              \<not> (case header_str to_str req ''content-type'' of
                   Some ct \<Rightarrow> take (length ''application/json'') ct = ''application/json'' | None \<Rightarrow> False)
      then Inl RC_InvalidContentType
      else Inr ())"

definition input_validation_layer :: "header_reader \<Rightarrow> http_request \<Rightarrow> ReasonCode + unit" where
  "input_validation_layer to_str req = validate_request to_str DEFAULT_MAX_BODY_BYTES req"

text \<open>How long a rejection is held back.\<close>

definition enforce_min_delay :: "nat \<Rightarrow> nat \<Rightarrow> nat" where
  "enforce_min_delay elapsed min_delay = (if elapsed \<le> min_delay then min_delay - elapsed else 0)"

section \<open>Replays\<close>

text \<open>
  The life of an authentication state under HMAC requests: the clock, the requests let through, with the
  nonce and the timestamp they carry, and the entries the full cache threw out while they were live.
\<close>

definition request_nonce :: "header_reader \<Rightarrow> http_request \<Rightarrow> (string \<times> nat) option" where
  "request_nonce to_str req =
     Option.bind (header_str to_str req ''x-nonce'') (\<lambda>nonce.
     Option.bind (Option.bind (header_str to_str req ''x-timestamp'') parse_u64) (\<lambda>ts. Some (nonce, ts)))"

definition cache_entries :: "AuthState \<Rightarrow> (string \<times> nat) list" where
  "cache_entries as = (case as_nonce_cache as of Some (_, nc) \<Rightarrow> nc_entries nc | None \<Rightarrow> [])"

definition live_entries :: "nat \<Rightarrow> AuthState \<Rightarrow> (string \<times> nat) set" where
  "live_entries now as =
     (case as_nonce_cache as of
        Some (_, nc) \<Rightarrow> {(k, ts) \<in> set (nc_entries nc). now - ts \<le> nc_window_secs nc} | None \<Rightarrow> {})"

inductive auth_run ::
  "crypto \<Rightarrow> hex_crate \<Rightarrow> header_reader \<Rightarrow> AuthState \<Rightarrow> nat \<Rightarrow> http_request list \<Rightarrow> (string \<times> nat) set \<Rightarrow> AuthState \<Rightarrow> bool"
  for C X to_str as0 where
  auth_start: "auth_run C X to_str as0 0 [] {} as0"
| auth_pass: "auth_run C X to_str as0 clock passed evicted as \<Longrightarrow> clock \<le> now \<Longrightarrow> now \<le> now' \<Longrightarrow>
    auth_layer C X to_str now now' req as = (Inr (), as') \<Longrightarrow>
    auth_run C X to_str as0 now' (passed @ [req])
      (evicted \<union> (live_entries now' as - set (cache_entries as'))) as'"
| auth_refuse: "auth_run C X to_str as0 clock passed evicted as \<Longrightarrow> clock \<le> now \<Longrightarrow> now \<le> now' \<Longrightarrow>
    auth_layer C X to_str now now' req as = (Inl status, as') \<Longrightarrow>
    auth_run C X to_str as0 now' passed evicted as'"

text \<open>What a validation leaves of the entries that are still live.\<close>

lemma validate_nonce_refused:
  assumes "validate_nonce now nonce ts nc = (r, nc')" "r \<noteq> Nonce_Valid"
  shows "nc_window_secs nc' = nc_window_secs nc"
    "{e \<in> set (nc_entries nc). now - snd e \<le> nc_window_secs nc} \<subseteq> set (nc_entries nc')"
  using assms
  by (auto simp: validate_nonce_def evict_expired_def Let_def nonce_evict_oldest_def split: if_splits)

lemma nonce_evict_oldest_window [simp]:
  "nc_window_secs (nonce_evict_oldest nc) = nc_window_secs nc"
  by (simp add: nonce_evict_oldest_def split: option.split)

lemma validate_nonce_valid:
  assumes "validate_nonce now nonce ts nc = (Nonce_Valid, nc')"
  shows "nc_window_secs nc' = nc_window_secs nc" "now - ts \<le> nc_window_secs nc"
    "(nonce, ts) \<in> set (nc_entries nc')"
    "\<forall>t. (nonce, t) \<in> set (nc_entries nc) \<longrightarrow> nc_window_secs nc < now - t"
  using assms
  by (auto simp: validate_nonce_def evict_expired_def Let_def abs_diff_def image_iff split: if_splits)

text \<open>A request gets past HMAC only signed, in time, and past the cache.\<close>

lemma verify_hmac_true:
  assumes "verify_hmac C X to_str now now' req as = (True, as')"
  obtains key sig_hex ts_str nonce ts mac where
    "as_hmac_key as = Some key" "header_str to_str req ''x-signature'' = Some sig_hex"
    "header_str to_str req ''x-timestamp'' = Some ts_str" "header_str to_str req ''x-nonce'' = Some nonce"
    "parse_u64 ts_str = Some ts" "timestamp_within_window now ts (as_timestamp_max_age_secs as)" "8 \<le> length nonce"
    "hex_decode X sig_hex = Inr mac" "length mac = 32"
    "hmac_sha256 C key (as_bytes (signing_payload (rq_method req) (rq_path req) ts_str nonce)) = Some mac"
    "nonce_check now' nonce ts as = (True, as')"
  using assms by (auto simp: verify_hmac_def Let_def split: option.splits sum.splits if_splits)

lemma verify_hmac_false:
  assumes "verify_hmac C X to_str now now' req as = (False, as')"
  shows "as' = as \<or> (\<exists>nonce ts. nonce_check now' nonce ts as = (False, as'))"
  using assms by (auto simp: verify_hmac_def Let_def split: option.splits sum.splits if_splits)

text \<open>The body and the query are no part of what is signed.\<close>

lemma hmac_leaves_body_open:
  "verify_hmac C X to_str now now' (req\<lparr>rq_body := body, rq_query := query\<rparr>) as = verify_hmac C X to_str now now' req as"
proof (cases req)
  case (fields req_method path query' headers body')
  show ?thesis unfolding fields verify_hmac_def header_str_def http_request.simps by (rule refl)
qed

definition hmac_guarded :: "nat \<Rightarrow> AuthState \<Rightarrow> bool" where
  "hmac_guarded w as \<longleftrightarrow>
     as_mode as = HmacSha256 \<and> (\<exists>nc. as_nonce_cache as = Some (False, nc) \<and> nc_window_secs nc = w)"

lemma nonce_check_valid:
  assumes "nonce_check now nonce ts as = (True, as')" "hmac_guarded w as"
  shows "hmac_guarded w as'" "now - ts \<le> w" "(nonce, ts) \<in> set (cache_entries as')"
    "(nonce, ts) \<notin> set (cache_entries as)"
proof -
  obtain nc nc' where nc: "as_nonce_cache as = Some (False, nc)" "nc_window_secs nc = w" "as_mode as = HmacSha256"
    and step: "validate_nonce now nonce ts nc = (Nonce_Valid, nc')" "as' = as\<lparr>as_nonce_cache := Some (False, nc')\<rparr>"
    using assms by (auto simp: nonce_check_def hmac_guarded_def split: prod.splits)
  then show "hmac_guarded w as'" "now - ts \<le> w" "(nonce, ts) \<in> set (cache_entries as')"
    "(nonce, ts) \<notin> set (cache_entries as)"
    using validate_nonce_valid [OF step(1)] by (auto simp: hmac_guarded_def cache_entries_def)
qed

lemma nonce_check_refused:
  assumes "nonce_check now nonce ts as = (False, as')" "hmac_guarded w as"
  shows "hmac_guarded w as'" "{e \<in> set (cache_entries as). now - snd e \<le> w} \<subseteq> set (cache_entries as')"
proof -
  obtain nc r nc' where nc: "as_nonce_cache as = Some (False, nc)" "nc_window_secs nc = w" "as_mode as = HmacSha256"
    and step: "validate_nonce now nonce ts nc = (r, nc')" "r \<noteq> Nonce_Valid" "as' = as\<lparr>as_nonce_cache := Some (False, nc')\<rparr>"
    using assms by (auto simp: nonce_check_def hmac_guarded_def split: prod.splits)
  then show "hmac_guarded w as'" "{e \<in> set (cache_entries as). now - snd e \<le> w} \<subseteq> set (cache_entries as')"
    using validate_nonce_refused [OF step(1,2)] by (auto simp: hmac_guarded_def cache_entries_def)
qed

lemma auth_layer_hmac:
  assumes "auth_layer C X to_str now now' req as = (r, as')" "hmac_guarded w as"
  obtains (passed) nonce ts where "r = Inr ()" "request_nonce to_str req = Some (nonce, ts)"
      "nonce_check now' nonce ts as = (True, as')"
  | (unchanged) "r = Inl 401" "as' = as"
  | (refused) nonce ts where "r = Inl 401" "nonce_check now' nonce ts as = (False, as')"
proof (cases "fst (verify_hmac C X to_str now now' req as)")
  case True
  then have ok: "verify_hmac C X to_str now now' req as = (True, as')" "r = Inr ()"
    using assms by (auto simp: auth_layer_def hmac_guarded_def split: prod.splits bool.splits)
  from ok(1) show thesis
    by (rule verify_hmac_true) (auto simp: request_nonce_def intro: passed ok(2))
next
  case False
  then have "verify_hmac C X to_str now now' req as = (False, as')" "r = Inl 401"
    using assms by (auto simp: auth_layer_def hmac_guarded_def split: prod.splits bool.splits)
  then show thesis
    using verify_hmac_false unchanged refused by blast
qed

text \<open>Every request let through is remembered, thrown out, or too old to be taken again.\<close>

definition passed_known :: "header_reader \<Rightarrow> nat \<Rightarrow> nat \<Rightarrow> http_request list \<Rightarrow> (string \<times> nat) set \<Rightarrow> AuthState \<Rightarrow> bool" where
  "passed_known to_str w clock passed evicted as \<longleftrightarrow>
     (\<forall>req \<in> set passed. \<exists>e. request_nonce to_str req = Some e \<and>
        (e \<in> set (cache_entries as) \<or> e \<in> evicted \<or> w < clock - snd e))"

lemma passed_known_step:
  assumes "passed_known to_str w clock passed evicted as" "clock \<le> now" "evicted \<subseteq> evicted'"
    and "{e \<in> set (cache_entries as). now - snd e \<le> w} \<subseteq> set (cache_entries as') \<union> evicted'"
  shows "passed_known to_str w now passed evicted' as'"
  unfolding passed_known_def
proof
  fix req
  assume "req \<in> set passed"
  then obtain e where "request_nonce to_str req = Some e"
    "e \<in> set (cache_entries as) \<or> e \<in> evicted \<or> w < clock - snd e"
    using assms(1) by (auto simp: passed_known_def)
  then show "\<exists>e. request_nonce to_str req = Some e \<and> (e \<in> set (cache_entries as') \<or> e \<in> evicted' \<or> w < now - snd e)"
    using assms(2-4) by (cases "w < now - snd e") fastforce+
qed

lemma live_entries_guarded:
  "hmac_guarded w as \<Longrightarrow> live_entries now as = {e \<in> set (cache_entries as). now - snd e \<le> w}"
  by (auto simp: hmac_guarded_def live_entries_def cache_entries_def)

lemma auth_run_known:
  assumes "auth_run C X to_str as0 clock passed evicted as" "hmac_guarded w as0"
  shows "hmac_guarded w as \<and> passed_known to_str w clock passed evicted as"
  using assms
proof (induction rule: auth_run.induct)
  case auth_start
  then show ?case by (simp add: passed_known_def)
next
  case (auth_pass clock passed evicted as now now' req as')
  then have inv: "hmac_guarded w as" "passed_known to_str w clock passed evicted as" "clock \<le> now'" by auto
  from auth_pass(4) inv(1) show ?case
  proof (cases rule: auth_layer_hmac)
    case (passed nonce ts)
    note check = nonce_check_valid [OF passed(3) inv(1)]
    have "passed_known to_str w now' passed (evicted \<union> (live_entries now' as - set (cache_entries as'))) as'"
      using inv by (intro passed_known_step [OF inv(2,3)]) (auto simp: live_entries_guarded)
    then show ?thesis
      using check passed(2) by (auto simp: passed_known_def)
  qed auto
next
  case (auth_refuse clock passed evicted as now now' req status as')
  then have inv: "hmac_guarded w as" "passed_known to_str w clock passed evicted as" "clock \<le> now'" by auto
  from auth_refuse(4) inv(1) show ?case
  proof (cases rule: auth_layer_hmac)
    case unchanged
    then show ?thesis using passed_known_step [OF inv(2,3), of evicted as] inv(1) by auto
  next
    case (refused nonce ts)
    then show ?thesis
      using nonce_check_refused [OF refused(2) inv(1)] passed_known_step [OF inv(2,3), of evicted as'] by auto
  qed auto
qed

text \<open>C25. No signed request is taken twice: once a request was let through, another with its nonce and its
  timestamp, a replay of it or one with another body, is answered with 401 at any later time, unless the
  full cache threw its entry out while it was live.
\<close>

theorem replay_refused:
  assumes run: "auth_run C X to_str as0 clock passed evicted as" and guarded: "hmac_guarded w as0"
    and replay: "req \<in> set passed" "request_nonce to_str req' = request_nonce to_str req"
    and kept: "the (request_nonce to_str req) \<notin> evicted"
    and clock: "clock \<le> now" "now \<le> now'"
  shows "fst (auth_layer C X to_str now now' req' as) = Inl 401"
proof -
  note inv = auth_run_known [OF run guarded]
  obtain e where e: "request_nonce to_str req = Some e" "e \<in> set (cache_entries as) \<or> w < clock - snd e"
    using inv replay(1) kept by (auto simp: passed_known_def)
  obtain r as' where step: "auth_layer C X to_str now now' req' as = (r, as')"
    by (cases "auth_layer C X to_str now now' req' as") simp
  from step conjunct1 [OF inv] show ?thesis
  proof (cases rule: auth_layer_hmac)
    case (passed nonce ts)
    then show ?thesis
      using nonce_check_valid [OF passed(3) conjunct1 [OF inv]] e replay(2) clock by auto
  qed (simp_all add: step)
qed

text \<open>The cache keeps to its capacity.\<close>

lemma oldest_entry_in: "oldest_entry es = Some e \<Longrightarrow> e \<in> set es"
  by (induction es arbitrary: e) (auto split: option.splits if_splits)

lemma oldest_entry_None: "oldest_entry es = None \<longleftrightarrow> es = []"
  by (cases es) (auto split: option.splits)

lemma nonce_evict_oldest_shrinks:
  assumes "nc_entries nc \<noteq> []"
  shows "length (nc_entries (nonce_evict_oldest nc)) < length (nc_entries nc)"
proof -
  obtain k t where "oldest_entry (nc_entries nc) = Some (k, t)"
    using assms oldest_entry_None by (cases "oldest_entry (nc_entries nc)") auto
  moreover from this have "(k, t) \<in> set (nc_entries nc)" by (rule oldest_entry_in)
  ultimately show ?thesis
    by (auto simp: nonce_evict_oldest_def intro!: length_filter_less)
qed

lemma validate_nonce_bounded:
  assumes "length (nc_entries nc) \<le> nc_max_entries nc" "0 < nc_max_entries nc"
  shows "length (nc_entries (snd (validate_nonce now nonce ts nc))) \<le> nc_max_entries nc"
proof -
  let ?nc = "evict_expired now nc"
  have "length (nc_entries ?nc) \<le> nc_max_entries nc"
    using assms(1) by (simp add: evict_expired_def order_trans [OF length_filter_le])
  moreover have "nc_entries ?nc \<noteq> [] \<Longrightarrow>
    length (nc_entries (nonce_evict_oldest ?nc)) < length (nc_entries ?nc)"
    by (rule nonce_evict_oldest_shrinks)
  moreover have "nc_max_entries ?nc = nc_max_entries nc"
    by (simp add: evict_expired_def)
  ultimately show ?thesis
    using assms by (cases "nc_entries ?nc = []") (auto simp: validate_nonce_def Let_def)
qed

text \<open>
  A live nonce can be thrown out: a cache of one entry takes the same nonce again within the window.
\<close>

lemma full_cache_forgets:
  "let (r1, nc) = validate_nonce 100 ''aaaaaaaa'' 100 (nonce_cache_new 1 300);
       (r2, nc) = validate_nonce 100 ''bbbbbbbb'' 101 nc;
       (r3, nc) = validate_nonce 100 ''aaaaaaaa'' 100 nc
   in r1 = Nonce_Valid \<and> r2 = Nonce_Valid \<and> r3 = Nonce_Valid"
  by code_simp

section \<open>A sample exchange\<close>

text \<open>A hash that answers 32 zero bytes, and a request signed with it.\<close>

definition sample_crypto :: crypto where
  "sample_crypto = \<lparr>sha256 = (\<lambda>_. replicate 32 0), hmac_sha256 = (\<lambda>_ _. Some (replicate 32 0))\<rparr>"

definition sample_hex :: hex_crate where
  "sample_hex = \<lparr>hex_encode = (\<lambda>_. []), hex_decode = (\<lambda>_. Inr (replicate 32 0))\<rparr>"

definition sample_request :: http_request where
  "sample_request =
     \<lparr>rq_method = ''GET'', rq_path = ''/'', rq_query = [],
      rq_headers = [(''x-signature'', as_bytes ''00''), (''x-timestamp'', as_bytes ''7''), (''x-nonce'', as_bytes ''aaaaaaaa'')],
      rq_body = []\<rparr>"

definition sample_auth :: "(string \<times> nat) list \<Rightarrow> AuthState" where
  "sample_auth entries =
     \<lparr>as_mode = HmacSha256, as_api_secret = None, as_api_secret_previous = None, as_hmac_key = Some [1],
      as_nonce_cache = Some (False, \<lparr>nc_entries = entries, nc_max_entries = 10, nc_window_secs = 300\<rparr>),
      as_timestamp_max_age_secs = DEFAULT_TIMESTAMP_MAX_AGE_SECS\<rparr>"

definition ascii_reader :: header_reader where
  "ascii_reader bs = Some (of_bytes bs)"

lemma sample_request_headers:
  "header_str ascii_reader sample_request ''x-signature'' = Some ''00''"
  "header_str ascii_reader sample_request ''x-timestamp'' = Some ''7''"
  "header_str ascii_reader sample_request ''x-nonce'' = Some ''aaaaaaaa''"
  by (simp_all add: header_str_def sample_request_def ascii_reader_def of_bytes_as_bytes)

lemma sample_timestamp: "parse_u64 ''7'' = Some 7"
  by (simp add: parse_u64_def digit_value_def)

lemma sample_pass:
  "auth_layer sample_crypto sample_hex ascii_reader 7 7 sample_request (sample_auth []) =
   (Inr (), sample_auth [(''aaaaaaaa'', 7)])"
  by (simp add: auth_layer_def verify_hmac_def sample_request_headers sample_timestamp sample_auth_def
      sample_crypto_def sample_hex_def timestamp_within_window_def DEFAULT_TIMESTAMP_MAX_AGE_SECS_def
      nonce_check_def validate_nonce_def evict_expired_def MAX_NONCE_LENGTH_def abs_diff_def)

theorem replay_refused_witness:
  "fst (auth_layer sample_crypto sample_hex ascii_reader 8 8 sample_request (sample_auth [(''aaaaaaaa'', 7)])) = Inl 401"
proof -
  have run: "auth_run sample_crypto sample_hex ascii_reader (sample_auth []) 7 ([] @ [sample_request])
    ({} \<union> (live_entries 7 (sample_auth []) - set (cache_entries (sample_auth [(''aaaaaaaa'', 7)]))))
    (sample_auth [(''aaaaaaaa'', 7)])"
    by (rule auth_pass [OF auth_start _ _ sample_pass]) simp_all
  have "hmac_guarded 300 (sample_auth [])"
    by (simp add: hmac_guarded_def sample_auth_def)
  then show ?thesis
    by (rule replay_refused [OF run _ _ refl]) (simp_all add: live_entries_def sample_auth_def)
qed

end
