(* ===== verification/RG_ClientLimit.thy ===== *)
theory RG_ClientLimit
  imports RG_RateLimit RG_HttpGuard RG_Connections
begin

text \<open>
  The clients of the limiter: the request limits of the dashboard (\<open>rg-dashboard/src/rate_limit.rs\<close>),
  with the client's address read through trusted proxies, and those of the feed adapter's JSON-RPC
  endpoint (\<open>rg-feed-adapter/src/rate_limit.rs\<close>). A parameter stands for trimming and parsing an
  address.
\<close>

unbundle bit_operations_syntax

section \<open>Addresses\<close>

text \<open>\<open>IpAddr::to_canonical\<close>: an IPv4-mapped address is the IPv4 address.\<close>

fun to_canonical :: "IpAddr \<Rightarrow> IpAddr" where
  "to_canonical (V4 a) = V4 a"
| "to_canonical (V6 a) = (if drop_bit 32 a = 0xFFFF then V4 (ucast a) else V6 a)"

definition bucket_key :: "IpAddr \<Rightarrow> IpAddr" where
  "bucket_key client =
     (case to_canonical client of V6 v6 \<Rightarrow> V6 (v6 AND push_bit 64 (NOT 0)) | V4 a \<Rightarrow> V4 a)"

datatype ClientIpHeader = CfConnectingIp | XForwardedFor

record Unattributed =
  ua_last_peer :: IpAddr
  ua_requests :: nat

record ClientAddr =
  ca_trusted_proxies :: "IpAddr list"
  ca_header :: "ClientIpHeader option"
  ca_unattributed :: "Unattributed option"

definition client_addr_from_config :: "IpAddr list \<Rightarrow> ClientIpHeader option \<Rightarrow> ClientAddr" where
  "client_addr_from_config trusted_proxies client_ip_header =
     \<lparr>ca_trusted_proxies = map to_canonical trusted_proxies, ca_header = client_ip_header, ca_unattributed = None\<rparr>"

type_synonym ip_parser = "string \<Rightarrow> IpAddr option"

fun split_on :: "char \<Rightarrow> string \<Rightarrow> string list" where
  "split_on sep [] = [[]]"
| "split_on sep (c # cs) =
     (if c = sep then [] # split_on sep cs
      else case split_on sep cs of [] \<Rightarrow> [[c]] | s # ss \<Rightarrow> (c # s) # ss)"

definition get_all :: "http_request \<Rightarrow> string \<Rightarrow> bytes list" where
  "get_all req name = map snd (filter (\<lambda>h. fst h = name) (rq_headers req))"

fun forwarded_entries :: "header_reader \<Rightarrow> bytes list \<Rightarrow> string list option" where
  "forwarded_entries to_str [] = Some []"
| "forwarded_entries to_str (line # ls) =
     (case to_str line of
        None \<Rightarrow> None
      | Some s \<Rightarrow> (case forwarded_entries to_str ls of None \<Rightarrow> None | Some es \<Rightarrow> Some (split_on CHR '','' s @ es)))"

text \<open>The walk over the entries, given from the right.\<close>

fun walk_untrusted :: "ip_parser \<Rightarrow> IpAddr list \<Rightarrow> string list \<Rightarrow> IpAddr option" where
  "walk_untrusted parse_ip trusted [] = None"
| "walk_untrusted parse_ip trusted (entry # es) =
     (case parse_ip entry of
        None \<Rightarrow> None
      | Some ip \<Rightarrow>
          let ip = to_canonical ip
          in if ip \<notin> set trusted then Some ip else walk_untrusted parse_ip trusted es)"

definition rightmost_untrusted :: "ip_parser \<Rightarrow> header_reader \<Rightarrow> ClientAddr \<Rightarrow> http_request \<Rightarrow> IpAddr option" where
  "rightmost_untrusted parse_ip to_str ca req =
     (case forwarded_entries to_str (get_all req ''x-forwarded-for'') of
        None \<Rightarrow> None
      | Some es \<Rightarrow> walk_untrusted parse_ip (ca_trusted_proxies ca) (rev es))"

definition resolve :: "ip_parser \<Rightarrow> header_reader \<Rightarrow> ClientAddr \<Rightarrow> IpAddr \<Rightarrow> http_request \<Rightarrow> IpAddr" where
  "resolve parse_ip to_str ca peer req =
     (case ca_header ca of
        None \<Rightarrow> peer
      | Some hdr \<Rightarrow>
          if to_canonical peer \<notin> set (ca_trusted_proxies ca) then peer
          else
            let named = (case hdr of
                           CfConnectingIp \<Rightarrow> Option.bind (header_str to_str req ''cf-connecting-ip'') parse_ip
                         | XForwardedFor \<Rightarrow> rightmost_untrusted parse_ip to_str ca req)
            in (case named of None \<Rightarrow> peer | Some ip \<Rightarrow> to_canonical ip))"

definition FORWARDING_HEADERS :: "string list" where
  "FORWARDING_HEADERS = [''x-forwarded-for'', ''cf-connecting-ip'', ''forwarded'']"

definition note_unattributed :: "IpAddr \<Rightarrow> IpAddr \<Rightarrow> http_request \<Rightarrow> ClientAddr \<Rightarrow> ClientAddr" where
  "note_unattributed peer client req ca =
     (if to_canonical client \<noteq> to_canonical peer \<or> \<not> list_ex (\<lambda>h. h \<in> fst ` set (rq_headers req)) FORWARDING_HEADERS
      then ca
      else
        let peer = to_canonical peer;
            seen = (case ca_unattributed ca of None \<Rightarrow> \<lparr>ua_last_peer = peer, ua_requests = 0\<rparr> | Some s \<Rightarrow> s)
        in ca\<lparr>ca_unattributed :=
                Some \<lparr>ua_last_peer = peer, ua_requests = min (ua_requests seen + 1) (2 ^ 64 - 1)\<rparr>\<rparr>)"

definition take_unattributed :: "ClientAddr \<Rightarrow> Unattributed option \<times> ClientAddr" where
  "take_unattributed ca = (ca_unattributed ca, ca\<lparr>ca_unattributed := None\<rparr>)"

section \<open>The limited routes\<close>

definition FANOUT_PER_MINUTE :: nat where "FANOUT_PER_MINUTE = 120"
definition MAX_TRACKED_CLIENTS :: nat where "MAX_TRACKED_CLIENTS = 10000"

text \<open>A class of routes with what its limiter holds.\<close>

record LimitClass =
  lc_limiter :: "IpAddr LimiterState"
  lc_per_minute :: nat
  lc_client :: ClientAddr
  lc_rejected :: u64

definition class_limiter :: RateLimiter where
  "class_limiter = with_config MAX_TRACKED_CLIENTS None"

definition limit_class_new :: "nat \<Rightarrow> ClientAddr \<Rightarrow> LimitClass" where
  "limit_class_new per_minute client =
     \<lparr>lc_limiter = limiter_state_new, lc_per_minute = per_minute, lc_client = client, lc_rejected = 0\<rparr>"

definition retry_after_secs :: "nat \<Rightarrow> nat" where
  "retry_after_secs wait =
     max 1 (min 60 (wait div 1000000000 + (if 0 < wait mod 1000000000 then 1 else 0)))"

datatype limit_answer = Next_handler | Too_many_requests nat

definition enforce ::
  "ip_parser \<Rightarrow> header_reader \<Rightarrow> nat \<Rightarrow> IpAddr \<Rightarrow> http_request \<Rightarrow> LimitClass \<Rightarrow> limit_answer \<times> LimitClass" where
  "enforce parse_ip to_str now peer req lc =
     (let client = resolve parse_ip to_str (lc_client lc) peer req;
          lc = lc\<lparr>lc_client := note_unattributed peer client req (lc_client lc)\<rparr>
      in case admit class_limiter now (bucket_key client) (lc_per_minute lc) (lc_limiter lc) of
           (Inr _, st) \<Rightarrow> (Next_handler, lc\<lparr>lc_limiter := st\<rparr>)
         | (Inl wait, st) \<Rightarrow>
             (Too_many_requests (retry_after_secs wait),
              lc\<lparr>lc_limiter := st, lc_rejected := lc_rejected lc + 1\<rparr>))"

definition sweep :: "nat \<Rightarrow> LimitClass \<Rightarrow> u64 \<times> LimitClass" where
  "sweep now lc =
     (lc_rejected lc,
      lc\<lparr>lc_rejected := 0, lc_client := snd (take_unattributed (lc_client lc)),
         lc_limiter := cleanup class_limiter now (lc_limiter lc)\<rparr>)"

text \<open>The feed adapter: the TCP peer and nothing else.\<close>

record RpcLimit =
  rp_limiter :: "IpAddr LimiterState"
  rp_per_minute :: nat
  rp_rejected :: u64

definition rpc_enforce :: "nat \<Rightarrow> IpAddr \<Rightarrow> RpcLimit \<Rightarrow> limit_answer \<times> RpcLimit" where
  "rpc_enforce now peer rp =
     (case admit class_limiter now (to_canonical peer) (rp_per_minute rp) (rp_limiter rp) of
        (Inr _, st) \<Rightarrow> (Next_handler, rp\<lparr>rp_limiter := st\<rparr>)
      | (Inl wait, st) \<Rightarrow>
          (Too_many_requests (retry_after_secs wait), rp\<lparr>rp_limiter := st, rp_rejected := rp_rejected rp + 1\<rparr>))"

definition rpc_sweep :: "nat \<Rightarrow> RpcLimit \<Rightarrow> u64 \<times> RpcLimit" where
  "rpc_sweep now rp =
     (rp_rejected rp, rp\<lparr>rp_rejected := 0, rp_limiter := cleanup class_limiter now (rp_limiter rp)\<rparr>)"

section \<open>Whose budget a request spends\<close>

lemma to_canonical_idem [simp]: "to_canonical (to_canonical ip) = to_canonical ip"
  by (cases ip) auto

lemma walk_untrusted_hops:
  assumes "\<forall>h \<in> set hops. \<exists>ip. parse_ip h = Some ip \<and> to_canonical ip \<in> set trusted"
  shows "walk_untrusted parse_ip trusted (hops @ es) = walk_untrusted parse_ip trusted es"
  using assms by (induction hops) auto


text \<open>Two addresses of one /64 share a budget, and an address with no proxy to vouch for it is its own.\<close>

lemma bucket_key_network:
  assumes "drop_bit 64 a = drop_bit 64 b" "drop_bit 32 a \<noteq> 0xFFFF" "drop_bit 32 b \<noteq> 0xFFFF"
  shows "bucket_key (V6 a) = bucket_key (V6 b)"
proof -
  have "x AND push_bit 64 (NOT 0) = push_bit 64 (drop_bit 64 x)" for x :: u128
    by (rule bit_word_eqI) (auto simp: bit_simps)
  then show ?thesis using assms by (simp add: bucket_key_def)
qed

lemma untrusted_peer_is_client:
  "to_canonical peer \<notin> set (ca_trusted_proxies ca) \<Longrightarrow> resolve parse_ip to_str ca peer req = peer"
  by (simp add: resolve_def split: option.split)

section \<open>When a refused client is served\<close>

inductive class_run :: "ip_parser \<Rightarrow> header_reader \<Rightarrow> LimitClass \<Rightarrow> nat \<Rightarrow> LimitClass \<Rightarrow> bool" for parse_ip to_str lc0 where
  class_start: "class_run parse_ip to_str lc0 0 lc0"
| class_request: "class_run parse_ip to_str lc0 clock lc \<Longrightarrow> clock \<le> now \<Longrightarrow>
    enforce parse_ip to_str now peer req lc = (answer, lc') \<Longrightarrow> class_run parse_ip to_str lc0 now lc'"
| class_sweep: "class_run parse_ip to_str lc0 clock lc \<Longrightarrow> clock \<le> now \<Longrightarrow>
    class_run parse_ip to_str lc0 now (snd (sweep now lc))"

lemma enforce_admit:
  assumes "enforce parse_ip to_str now peer req lc = (answer, lc')"
  obtains r st where
    "admit class_limiter now (bucket_key (resolve parse_ip to_str (lc_client lc) peer req)) (lc_per_minute lc) (lc_limiter lc) = (r, st)"
    "lc_limiter lc' = st" "lc_per_minute lc' = lc_per_minute lc"
    "answer = (case r of Inr _ \<Rightarrow> Next_handler | Inl wait \<Rightarrow> Too_many_requests (retry_after_secs wait))"
  using assms by (auto simp: enforce_def Let_def split: prod.splits sum.splits)

lemma class_run_limiter:
  assumes "class_run parse_ip to_str (limit_class_new m ca) clock lc"
  shows "lc_per_minute lc = m \<and> (\<exists>admitted. limiter_run class_limiter m clock admitted (lc_limiter lc))"
  using assms
proof (induction rule: class_run.induct)
  case class_start
  show ?case using limiter_start by (auto simp: limit_class_new_def)
next
  case (class_request clock lc now peer req answer lc')
  from class_request(3) show ?case
    by (rule enforce_admit) (use class_request in \<open>blast intro: limiter_admit\<close>)
next
  case (class_sweep clock lc now)
  then show ?case
    by (auto simp: sweep_def intro: limiter_cleanup)
qed

lemma retry_after_secs_covers:
  assumes "0 < wait" "wait \<le> 60 * 1000000000"
  shows "wait \<le> retry_after_secs wait * 1000000000" "1 \<le> retry_after_secs wait" "retry_after_secs wait \<le> 60"
proof -
  have split: "wait = wait div 1000000000 * 1000000000 + wait mod 1000000000"
    by simp
  have "wait mod 1000000000 < 1000000000" by simp
  then show "wait \<le> retry_after_secs wait * 1000000000"
    using split assms by (auto simp: retry_after_secs_def min_def max_def)
qed (simp_all add: retry_after_secs_def)


section \<open>Sample requests\<close>

text \<open>A proxy at 1 that forwards for the client 9, which wrote an entry of its own.\<close>

definition sample_parse :: ip_parser where
  "sample_parse s = (if s = ''9'' then Some (V4 9) else if s = ''1'' then Some (V4 1) else None)"

definition forged_request :: http_request where
  "forged_request =
     \<lparr>rq_method = ''GET'', rq_path = ''/api'', rq_query = [],
      rq_headers = [(''x-forwarded-for'', as_bytes ''8,9,1'')], rq_body = []\<rparr>"

definition sample_trust :: ClientAddr where
  "sample_trust = client_addr_from_config [V4 1] (Some XForwardedFor)"

lemma forged_entries:
  "forwarded_entries ascii_reader (get_all forged_request ''x-forwarded-for'') = Some ([''8''] @ ''9'' # [''1''])"
  by (simp add: get_all_def forged_request_def ascii_reader_def of_bytes_as_bytes)


text \<open>A class of one request a minute, without proxies, and two requests from one peer.\<close>

definition plain_request :: http_request where
  "plain_request = \<lparr>rq_method = ''GET'', rq_path = ''/api'', rq_query = [], rq_headers = [], rq_body = []\<rparr>"

definition sample_class :: "(IpAddr \<times> nat list) list \<Rightarrow> u64 \<Rightarrow> LimitClass" where
  "sample_class ips rejected =
     \<lparr>lc_limiter = \<lparr>ls_ips = ips, ls_global_timestamps = [], ls_poisoned = False\<rparr>, lc_per_minute = 1,
      lc_client = client_addr_from_config [] None, lc_rejected = rejected\<rparr>"

lemmas sample_class_eval = enforce_def resolve_def note_unattributed_def plain_request_def bucket_key_def
  admit_def class_limiter_def with_config_def MAX_TRACKED_CLIENTS_def ip_window_def sample_class_def
  client_addr_from_config_def FORWARDING_HEADERS_def until_front_expires_def retry_after_secs_def Let_def

lemma sample_class_served:
  "enforce sample_parse ascii_reader 7 (V4 2) plain_request (limit_class_new 1 (client_addr_from_config [] None)) =
   (Next_handler, sample_class [(V4 2, [7])] 0)"
  by (simp add: sample_class_eval limit_class_new_def limiter_state_new_def)

lemma sample_class_refused:
  "enforce sample_parse ascii_reader 9 (V4 2) plain_request (sample_class [(V4 2, [7])] 0) =
   (Too_many_requests 60, sample_class [(V4 2, [7])] 1)"
  by (simp add: sample_class_eval)


end
