(* ===== verification/RG_Auth.thy ===== *)
theory RG_Auth
  imports RG_ClientLimit
begin

text \<open>
  The authentication service, \<open>services/rg-auth/src\<close>: the tables and statements of \<open>db.rs\<close>, the
  handlers of \<open>handlers.rs\<close> with their rate limits, and the clean-up task of \<open>main.rs\<close>. A table is the
  list of its rows; \<open>datetime('now')\<close> is a number of seconds, the limiter's clock one of nanoseconds; a
  statement fails only on a uniqueness constraint. Password hashing, SHA-256, signatures and license
  payloads are parameters, and random tokens and salts are inputs. Mail is what is handed to the mailer.
\<close>

section \<open>Tables (db.rs)\<close>

definition PENDING_VERIFICATION :: string where "PENDING_VERIFICATION = ''pending_verification''"
definition PENDING_APPROVAL :: string where "PENDING_APPROVAL = ''pending_approval''"
definition APPROVED :: string where "APPROVED = ''approved''"
definition DENIED :: string where "DENIED = ''denied''"
definition TIER_SHADOW :: string where "TIER_SHADOW = ''shadow''"
definition TIER_OBSERVE_PAID :: string where "TIER_OBSERVE_PAID = ''observe_paid''"
definition TIER_INLINE_LICENSED :: string where "TIER_INLINE_LICENSED = ''inline_licensed''"
definition KEY_ACTIVE :: string where "KEY_ACTIVE = ''active''"
definition KEY_REVOKED :: string where "KEY_REVOKED = ''revoked''"

record User =
  u_id :: nat
  u_email :: string
  u_name :: string
  u_org :: string
  u_password :: string
  u_status :: string
  u_tier :: string
  u_created_at :: nat
  u_verified_at :: "nat option"
  u_approved_at :: "nat option"

record SessionRow =
  sr_token :: string
  sr_user_id :: nat
  sr_created_at :: nat
  sr_expires_at :: nat

record EmailToken =
  et_token :: string
  et_user_id :: nat
  et_kind :: string
  et_created_at :: nat
  et_used :: bool

record LicenseKey =
  lk_id :: nat
  lk_user_id :: nat
  lk_key_value :: string
  lk_label :: string
  lk_status :: string
  lk_created_at :: nat
  lk_revoked_at :: "nat option"

text \<open>The database, with the next identifiers of its two autoincrement columns.\<close>

record auth_db =
  db_users :: "User list"
  db_next_user :: nat
  db_sessions :: "SessionRow list"
  db_email_tokens :: "EmailToken list"
  db_license_keys :: "LicenseKey list"
  db_next_key :: nat

definition db_init :: auth_db where
  "db_init = \<lparr>db_users = [], db_next_user = 1, db_sessions = [], db_email_tokens = [], db_license_keys = [], db_next_key = 1\<rparr>"

definition insert_user :: "nat \<Rightarrow> string \<Rightarrow> string \<Rightarrow> string \<Rightarrow> string \<Rightarrow> auth_db \<Rightarrow> (nat \<times> auth_db) option" where
  "insert_user now email name org password_hash db =
     (if email \<in> u_email ` set (db_users db) then None
      else Some (db_next_user db,
        db\<lparr>db_users := db_users db @
             [\<lparr>u_id = db_next_user db, u_email = email, u_name = name, u_org = org, u_password = password_hash,
               u_status = PENDING_VERIFICATION, u_tier = TIER_SHADOW, u_created_at = now, u_verified_at = None,
               u_approved_at = None\<rparr>],
           db_next_user := db_next_user db + 1\<rparr>))"

definition get_user_by_email :: "auth_db \<Rightarrow> string \<Rightarrow> User option" where
  "get_user_by_email db email = find (\<lambda>u. u_email u = email) (db_users db)"

definition get_user_by_id :: "auth_db \<Rightarrow> nat \<Rightarrow> User option" where
  "get_user_by_id db uid = find (\<lambda>u. u_id u = uid) (db_users db)"

definition update_user :: "nat \<Rightarrow> (User \<Rightarrow> User) \<Rightarrow> auth_db \<Rightarrow> auth_db" where
  "update_user uid f db = db\<lparr>db_users := map (\<lambda>u. if u_id u = uid then f u else u) (db_users db)\<rparr>"

definition update_user_status :: "nat \<Rightarrow> nat \<Rightarrow> string \<Rightarrow> auth_db \<Rightarrow> auth_db" where
  "update_user_status now user_id new_status db =
     (if new_status = PENDING_APPROVAL then update_user user_id (\<lambda>u. u\<lparr>u_status := new_status, u_verified_at := Some now\<rparr>) db
      else if new_status = APPROVED then update_user user_id (\<lambda>u. u\<lparr>u_status := new_status, u_approved_at := Some now\<rparr>) db
      else update_user user_id (\<lambda>u. u\<lparr>u_status := new_status\<rparr>) db)"

definition update_password :: "nat \<Rightarrow> string \<Rightarrow> auth_db \<Rightarrow> auth_db" where
  "update_password user_id password_hash db = update_user user_id (\<lambda>u. u\<lparr>u_password := password_hash\<rparr>) db"

definition insert_email_token :: "nat \<Rightarrow> string \<Rightarrow> nat \<Rightarrow> string \<Rightarrow> auth_db \<Rightarrow> auth_db option" where
  "insert_email_token now token user_id kind db =
     (if token \<in> et_token ` set (db_email_tokens db) then None
      else Some (db\<lparr>db_email_tokens := db_email_tokens db @
             [\<lparr>et_token = token, et_user_id = user_id, et_kind = kind, et_created_at = now, et_used = False\<rparr>]\<rparr>))"

text \<open>The update that consumes a token, and the row it then reads; a lifetime in seconds.\<close>

definition consumable :: "nat \<Rightarrow> nat \<Rightarrow> string \<Rightarrow> string \<Rightarrow> EmailToken \<Rightarrow> bool" where
  "consumable now ttl token kind et \<longleftrightarrow>
     et_token et = token \<and> et_kind et = kind \<and> \<not> et_used et \<and> now < et_created_at et + ttl"

definition consume_token :: "nat \<Rightarrow> nat \<Rightarrow> string \<Rightarrow> string \<Rightarrow> auth_db \<Rightarrow> (nat \<times> auth_db) option" where
  "consume_token now ttl token expected_kind db =
     (let hit = consumable now ttl token expected_kind;
          db' = db\<lparr>db_email_tokens := map (\<lambda>et. if hit et then et\<lparr>et_used := True\<rparr> else et) (db_email_tokens db)\<rparr>
      in if \<not> list_ex hit (db_email_tokens db) then None
         else case find (\<lambda>et. et_token et = token) (db_email_tokens db') of
                None \<Rightarrow> None
              | Some et \<Rightarrow> Some (et_user_id et, db'))"

definition consume_email_token :: "nat \<Rightarrow> string \<Rightarrow> string \<Rightarrow> auth_db \<Rightarrow> (nat \<times> auth_db) option" where
  "consume_email_token now token expected_kind db = consume_token now (7 * 86400) token expected_kind db"

definition consume_email_token_ttl :: "nat \<Rightarrow> string \<Rightarrow> string \<Rightarrow> nat \<Rightarrow> auth_db \<Rightarrow> (nat \<times> auth_db) option" where
  "consume_email_token_ttl now token expected_kind ttl_hours db =
     consume_token now (ttl_hours * 3600) token expected_kind db"

definition insert_session :: "nat \<Rightarrow> string \<Rightarrow> nat \<Rightarrow> nat \<Rightarrow> auth_db \<Rightarrow> auth_db option" where
  "insert_session now token_hash user_id ttl_hours db =
     (if token_hash \<in> sr_token ` set (db_sessions db) then None
      else Some (db\<lparr>db_sessions := db_sessions db @
             [\<lparr>sr_token = token_hash, sr_user_id = user_id, sr_created_at = now, sr_expires_at = now + ttl_hours * 3600\<rparr>]\<rparr>))"

definition validate_session :: "nat \<Rightarrow> auth_db \<Rightarrow> string \<Rightarrow> nat option" where
  "validate_session now db token_hash =
     map_option sr_user_id (find (\<lambda>s. sr_token s = token_hash \<and> now < sr_expires_at s) (db_sessions db))"

definition delete_session :: "string \<Rightarrow> auth_db \<Rightarrow> auth_db" where
  "delete_session token_hash db = db\<lparr>db_sessions := filter (\<lambda>s. sr_token s \<noteq> token_hash) (db_sessions db)\<rparr>"

definition delete_sessions_for_user :: "nat \<Rightarrow> auth_db \<Rightarrow> auth_db" where
  "delete_sessions_for_user user_id db = db\<lparr>db_sessions := filter (\<lambda>s. sr_user_id s \<noteq> user_id) (db_sessions db)\<rparr>"

definition cleanup_expired_sessions :: "nat \<Rightarrow> auth_db \<Rightarrow> auth_db" where
  "cleanup_expired_sessions now db = db\<lparr>db_sessions := filter (\<lambda>s. \<not> sr_expires_at s \<le> now) (db_sessions db)\<rparr>"

definition cleanup_stale_email_tokens :: "nat \<Rightarrow> auth_db \<Rightarrow> auth_db" where
  "cleanup_stale_email_tokens now db =
     db\<lparr>db_email_tokens := filter (\<lambda>et. \<not> et_created_at et + 30 * 86400 \<le> now) (db_email_tokens db)\<rparr>"

definition MAX_ACTIVE_KEYS_PER_USER :: nat where
  "MAX_ACTIVE_KEYS_PER_USER = 5"

definition active_keys :: "nat \<Rightarrow> auth_db \<Rightarrow> LicenseKey list" where
  "active_keys user_id db = filter (\<lambda>k. lk_user_id k = user_id \<and> lk_status k = KEY_ACTIVE) (db_license_keys db)"

datatype key_error = Key_limit | Key_insert_failed

definition insert_license_key :: "nat \<Rightarrow> nat \<Rightarrow> string \<Rightarrow> string \<Rightarrow> auth_db \<Rightarrow> key_error + nat \<times> auth_db" where
  "insert_license_key now user_id key_value label db =
     (if MAX_ACTIVE_KEYS_PER_USER \<le> length (active_keys user_id db) then Inl Key_limit
      else if key_value \<in> lk_key_value ` set (db_license_keys db) then Inl Key_insert_failed
      else Inr (db_next_key db,
        db\<lparr>db_license_keys := db_license_keys db @
             [\<lparr>lk_id = db_next_key db, lk_user_id = user_id, lk_key_value = key_value, lk_label = label,
               lk_status = KEY_ACTIVE, lk_created_at = now, lk_revoked_at = None\<rparr>],
           db_next_key := db_next_key db + 1\<rparr>))"

definition get_license_keys_for_user :: "auth_db \<Rightarrow> nat \<Rightarrow> LicenseKey list" where
  "get_license_keys_for_user db user_id = filter (\<lambda>k. lk_user_id k = user_id) (db_license_keys db)"

definition validate_license_key :: "auth_db \<Rightarrow> string \<Rightarrow> nat option" where
  "validate_license_key db key_value =
     map_option lk_user_id
       (find (\<lambda>k. lk_key_value k = key_value \<and> lk_status k = KEY_ACTIVE \<and>
                list_ex (\<lambda>u. u_id u = lk_user_id k \<and> u_status u = APPROVED) (db_users db)) (db_license_keys db))"

definition revoke_license_key :: "nat \<Rightarrow> nat \<Rightarrow> nat \<Rightarrow> auth_db \<Rightarrow> bool \<times> auth_db" where
  "revoke_license_key now key_id user_id db =
     (let hit = (\<lambda>k. lk_id k = key_id \<and> lk_user_id k = user_id \<and> lk_status k = KEY_ACTIVE)
      in (list_ex hit (db_license_keys db),
          db\<lparr>db_license_keys := map (\<lambda>k. if hit k then k\<lparr>lk_status := KEY_REVOKED, lk_revoked_at := Some now\<rparr> else k)
               (db_license_keys db)\<rparr>))"

section \<open>The service (handlers.rs)\<close>

record LicensePayload =
  lp_org_id :: string
  lp_tier :: string
  lp_issued_at :: nat
  lp_expires_at :: nat
  lp_features :: "string list"

text \<open>Third-party cryptography: argon2 with its salt, the hash of a token, and license keys under the service's key.\<close>

record auth_crates =
  ac_hash :: "string \<Rightarrow> string \<Rightarrow> string option"
  ac_verify :: "string \<Rightarrow> string \<Rightarrow> bool option"
  ac_hash_token :: "string \<Rightarrow> string"
  ac_sign :: "LicensePayload \<Rightarrow> string"
  ac_open :: "string \<Rightarrow> LicensePayload option"
  ac_whitespace :: "string \<Rightarrow> bool"

datatype mail =
    Mail_duplicate string
  | Mail_verify string string
  | Mail_admin string nat string string
  | Mail_approved string
  | Mail_denied string
  | Mail_reset string string

record auth_config =
  cf_admin_email :: string
  cf_session_ttl_hours :: nat
  cf_rate_limit_multiplier :: nat
  cf_trust_proxy :: bool
  cf_limiter :: RateLimiter

record auth_service =
  sv_db :: auth_db
  sv_db_poisoned :: bool
  sv_limiter :: "IpAddr LimiterState"
  sv_mail :: "mail list"

datatype auth_response =
    Refused u16 string
  | Done u16
  | Logged_in string User
  | Session_of User
  | Keys "LicenseKey list"
  | New_key nat string string string
  | Key_valid string string
  | Settings

text \<open>What a request brings: the two clocks, the peer, and its headers.\<close>

record call_env =
  ce_instant :: nat
  ce_wall :: nat
  ce_peer :: IpAddr
  ce_request :: http_request

record auth_parsers =
  ap_parse_ip :: ip_parser
  ap_to_str :: header_reader

definition client_ip :: "auth_parsers \<Rightarrow> auth_config \<Rightarrow> call_env \<Rightarrow> IpAddr" where
  "client_ip P cfg env =
     (if cf_trust_proxy cfg
      then (case Option.bind (header_str (ap_to_str P) (ce_request env) ''x-forwarded-for'')
                   (\<lambda>v. ap_parse_ip P (hd (split_on CHR '','' v))) of
              Some ip \<Rightarrow> ip
            | None \<Rightarrow> ce_peer env)
      else ce_peer env)"

definition rate_limited ::
  "auth_parsers \<Rightarrow> auth_config \<Rightarrow> nat \<Rightarrow> call_env \<Rightarrow> auth_service \<Rightarrow> bool \<times> auth_service" where
  "rate_limited P cfg n env sv =
     (case check_limit (cf_limiter cfg) (ce_instant env) (client_ip P cfg env)
             (n * cf_rate_limit_multiplier cfg mod 2 ^ 32) (sv_limiter sv) of
        (ok, limiter) \<Rightarrow> (\<not> ok, sv\<lparr>sv_limiter := limiter\<rparr>))"

text \<open>\<open>split_once\<close> at the first separator, and the last piece of \<open>rsplit\<close>.\<close>

fun split_once :: "char \<Rightarrow> string \<Rightarrow> (string \<times> string) option" where
  "split_once sep [] = None"
| "split_once sep (c # cs) =
     (if c = sep then Some ([], cs) else map_option (\<lambda>(a, b). (c # a, b)) (split_once sep cs))"

definition is_valid_email :: "auth_crates \<Rightarrow> string \<Rightarrow> bool" where
  "is_valid_email A email =
     (if 254 < length email \<or> ac_whitespace A email then False
      else case split_once CHR ''@'' email of
             None \<Rightarrow> False
           | Some (local_part, domain) \<Rightarrow>
               if local_part = [] \<or> 64 < length local_part then False
               else if domain = [] \<or> CHR ''.'' \<notin> set domain then False
               else 2 \<le> length (List.last (split_on CHR ''.'' domain)))"

definition extract_bearer :: "auth_parsers \<Rightarrow> call_env \<Rightarrow> string option" where
  "extract_bearer P env =
     Option.bind (header_str (ap_to_str P) (ce_request env) ''authorization'') (strip_prefix ''Bearer '')"

definition put_db :: "auth_db \<Rightarrow> auth_service \<Rightarrow> auth_service" where
  "put_db db sv = sv\<lparr>sv_db := db\<rparr>"

definition send_mail :: "mail \<Rightarrow> auth_service \<Rightarrow> auth_service" where
  "send_mail m sv = sv\<lparr>sv_mail := sv_mail sv @ [m]\<rparr>"

text \<open>A token whose insertion fails is logged and mailed all the same.\<close>

definition try_email_token :: "nat \<Rightarrow> string \<Rightarrow> nat \<Rightarrow> string \<Rightarrow> auth_db \<Rightarrow> auth_db" where
  "try_email_token now token user_id kind db =
     (case insert_email_token now token user_id kind db of None \<Rightarrow> db | Some db' \<Rightarrow> db')"

definition register ::
  "auth_crates \<Rightarrow> auth_parsers \<Rightarrow> auth_config \<Rightarrow> call_env \<Rightarrow> string \<Rightarrow> string \<Rightarrow> string \<Rightarrow> string \<Rightarrow> string \<Rightarrow> string
    \<Rightarrow> auth_service \<Rightarrow> auth_response \<times> auth_service" where
  "register A P cfg env email name org password salt verify_token sv =
     (case rate_limited P cfg 5 env sv of
        (True, sv) \<Rightarrow> (Refused 429 ''rate_limited'', sv)
      | (False, sv) \<Rightarrow>
          if \<not> is_valid_email A email then (Refused 400 ''invalid_email'', sv)
          else if name = [] \<or> 200 < length name then (Refused 400 ''invalid_name'', sv)
          else if org = [] \<or> 200 < length org then (Refused 400 ''invalid_org'', sv)
          else if length password < 8 \<or> 1024 < length password then (Refused 400 ''weak_password'', sv)
          else case ac_hash A salt password of
                 None \<Rightarrow> (Refused 500 ''internal_error'', sv)
               | Some hash \<Rightarrow>
                   if sv_db_poisoned sv then (Refused 500 ''internal_error'', sv)
                   else if get_user_by_email (sv_db sv) email \<noteq> None then (Done 201, send_mail (Mail_duplicate email) sv)
                   else case insert_user (ce_wall env) email name org hash (sv_db sv) of
                          None \<Rightarrow> (Refused 500 ''internal_error'', sv)
                        | Some (user_id, db) \<Rightarrow>
                            (Done 201, send_mail (Mail_verify email verify_token)
                               (put_db (try_email_token (ce_wall env) verify_token user_id ''verify'' db) sv)))"

definition verify_email ::
  "auth_parsers \<Rightarrow> auth_config \<Rightarrow> call_env \<Rightarrow> string \<Rightarrow> string \<Rightarrow> string \<Rightarrow> auth_service \<Rightarrow> auth_response \<times> auth_service" where
  "verify_email P cfg env token approve_token deny_token sv =
     (case rate_limited P cfg 5 env sv of
        (True, sv) \<Rightarrow> (Refused 429 ''rate_limited'', sv)
      | (False, sv) \<Rightarrow>
          if sv_db_poisoned sv then (Refused 500 ''internal_error'', sv)
          else case consume_email_token (ce_wall env) token ''verify'' (sv_db sv) of
                 None \<Rightarrow> (Refused 400 ''invalid_token'', sv)
               | Some (user_id, db) \<Rightarrow>
                   let db = update_user_status (ce_wall env) user_id PENDING_APPROVAL db;
                       user = get_user_by_id db user_id;
                       db = try_email_token (ce_wall env) approve_token user_id ''approve'' db;
                       db = try_email_token (ce_wall env) deny_token user_id ''deny'' db;
                       sv = put_db db sv
                   in (Done 200, case user of None \<Rightarrow> sv
                                 | Some u \<Rightarrow> send_mail (Mail_admin (cf_admin_email cfg) user_id approve_token deny_token) sv))"

definition login ::
  "auth_crates \<Rightarrow> auth_parsers \<Rightarrow> auth_config \<Rightarrow> call_env \<Rightarrow> string \<Rightarrow> string \<Rightarrow> string \<Rightarrow> auth_service
    \<Rightarrow> auth_response \<times> auth_service" where
  "login A P cfg env email password token sv =
     (case rate_limited P cfg 10 env sv of
        (True, sv) \<Rightarrow> (Refused 429 ''rate_limited'', sv)
      | (False, sv) \<Rightarrow>
          if sv_db_poisoned sv then (Refused 500 ''internal_error'', sv)
          else case get_user_by_email (sv_db sv) email of
                 None \<Rightarrow> (Refused 401 ''invalid_credentials'', sv)
               | Some user \<Rightarrow>
                   if ac_verify A password (u_password user) \<noteq> Some True then (Refused 401 ''invalid_credentials'', sv)
                   else if u_status user = PENDING_VERIFICATION then (Refused 403 ''email_not_verified'', sv)
                   else if u_status user = PENDING_APPROVAL then (Refused 403 ''pending_approval'', sv)
                   else if u_status user = DENIED then (Refused 403 ''access_denied'', sv)
                   else if u_status user \<noteq> APPROVED then (Refused 500 ''internal_error'', sv)
                   else case insert_session (ce_wall env) (ac_hash_token A token) (u_id user) (cf_session_ttl_hours cfg) (sv_db sv) of
                          None \<Rightarrow> (Refused 500 ''internal_error'', sv)
                        | Some db \<Rightarrow> (Logged_in token user, put_db db sv))"

definition logout :: "auth_crates \<Rightarrow> auth_parsers \<Rightarrow> call_env \<Rightarrow> auth_service \<Rightarrow> auth_response \<times> auth_service" where
  "logout A P env sv =
     (Done 200,
      case extract_bearer P env of
        Some token \<Rightarrow> if sv_db_poisoned sv then sv else put_db (delete_session (ac_hash_token A token) (sv_db sv)) sv
      | None \<Rightarrow> sv)"

definition session_check :: "auth_crates \<Rightarrow> auth_parsers \<Rightarrow> call_env \<Rightarrow> auth_service \<Rightarrow> auth_response" where
  "session_check A P env sv =
     (case extract_bearer P env of
        None \<Rightarrow> Refused 401 ''invalid''
      | Some token \<Rightarrow>
          if sv_db_poisoned sv then Refused 500 ''invalid''
          else case validate_session (ce_wall env) (sv_db sv) (ac_hash_token A token) of
                 None \<Rightarrow> Refused 401 ''invalid''
               | Some user_id \<Rightarrow>
                   (case get_user_by_id (sv_db sv) user_id of
                      Some u \<Rightarrow> if u_status u = APPROVED then Session_of u else Refused 401 ''invalid''
                    | None \<Rightarrow> Refused 401 ''invalid''))"

text \<open>\<open>approve_confirm\<close> and \<open>deny_confirm\<close>: the same steps with their kind, status and mail.\<close>

definition confirm ::
  "string \<Rightarrow> string \<Rightarrow> (string \<Rightarrow> mail) \<Rightarrow> auth_parsers \<Rightarrow> auth_config \<Rightarrow> call_env \<Rightarrow> string \<Rightarrow> auth_service
    \<Rightarrow> auth_response \<times> auth_service" where
  "confirm kind new_status mail_of P cfg env token sv =
     (case rate_limited P cfg 3 env sv of
        (True, sv) \<Rightarrow> (Refused 429 ''rate_limited'', sv)
      | (False, sv) \<Rightarrow>
          if sv_db_poisoned sv then (Refused 500 ''internal_error'', sv)
          else case consume_email_token (ce_wall env) token kind (sv_db sv) of
                 None \<Rightarrow> (Refused 400 ''invalid_token'', sv)
               | Some (user_id, db) \<Rightarrow>
                   let db = update_user_status (ce_wall env) user_id new_status db
                   in (Done 200, case get_user_by_id db user_id of
                                   None \<Rightarrow> put_db db sv
                                 | Some u \<Rightarrow> send_mail (mail_of (u_email u)) (put_db db sv)))"

definition approve_confirm :: "auth_parsers \<Rightarrow> auth_config \<Rightarrow> call_env \<Rightarrow> string \<Rightarrow> auth_service \<Rightarrow> auth_response \<times> auth_service" where
  "approve_confirm = confirm ''approve'' APPROVED Mail_approved"

definition deny_confirm :: "auth_parsers \<Rightarrow> auth_config \<Rightarrow> call_env \<Rightarrow> string \<Rightarrow> auth_service \<Rightarrow> auth_response \<times> auth_service" where
  "deny_confirm = confirm ''deny'' DENIED Mail_denied"

definition forgot_password ::
  "auth_parsers \<Rightarrow> auth_config \<Rightarrow> call_env \<Rightarrow> string \<Rightarrow> string \<Rightarrow> auth_service \<Rightarrow> auth_response \<times> auth_service" where
  "forgot_password P cfg env email reset_token sv =
     (case rate_limited P cfg 3 env sv of
        (True, sv) \<Rightarrow> (Refused 429 ''rate_limited'', sv)
      | (False, sv) \<Rightarrow>
          if sv_db_poisoned sv then (Done 200, sv)
          else case get_user_by_email (sv_db sv) email of
                 None \<Rightarrow> (Done 200, sv)
               | Some user \<Rightarrow>
                   (case insert_email_token (ce_wall env) reset_token (u_id user) ''password_reset'' (sv_db sv) of
                      None \<Rightarrow> (Done 200, sv)
                    | Some db \<Rightarrow> (Done 200, send_mail (Mail_reset email reset_token) (put_db db sv))))"

definition reset_password ::
  "auth_crates \<Rightarrow> auth_parsers \<Rightarrow> auth_config \<Rightarrow> call_env \<Rightarrow> string \<Rightarrow> string \<Rightarrow> string \<Rightarrow> auth_service
    \<Rightarrow> auth_response \<times> auth_service" where
  "reset_password A P cfg env token password salt sv =
     (case rate_limited P cfg 5 env sv of
        (True, sv) \<Rightarrow> (Refused 429 ''rate_limited'', sv)
      | (False, sv) \<Rightarrow>
          if length password < 8 \<or> 1024 < length password then (Refused 400 ''weak_password'', sv)
          else if sv_db_poisoned sv then (Refused 500 ''internal_error'', sv)
          else case consume_email_token_ttl (ce_wall env) token ''password_reset'' 1 (sv_db sv) of
                 None \<Rightarrow> (Refused 400 ''invalid_token'', sv)
               | Some (user_id, db) \<Rightarrow>
                   (case ac_hash A salt password of
                      None \<Rightarrow> (Refused 500 ''internal_error'', put_db db sv)
                    | Some hash \<Rightarrow>
                        (Done 200, put_db (delete_sessions_for_user user_id (update_password user_id hash db)) sv)))"

section \<open>License keys\<close>

definition DEFAULT_LICENSE_DURATION_SECS :: nat where
  "DEFAULT_LICENSE_DURATION_SECS = 365 * 24 * 60 * 60"

definition tier_features :: "string \<Rightarrow> string list" where
  "tier_features tier =
     (if tier = TIER_OBSERVE_PAID then [''exporter'']
      else if tier = TIER_INLINE_LICENSED then [''gateway'', ''exporter''] else [])"

definition sign_license_key :: "auth_crates \<Rightarrow> nat \<Rightarrow> string \<Rightarrow> string \<Rightarrow> string list \<Rightarrow> string" where
  "sign_license_key A now org_id tier features =
     ac_sign A \<lparr>lp_org_id = org_id, lp_tier = tier, lp_issued_at = now,
                lp_expires_at = now + DEFAULT_LICENSE_DURATION_SECS, lp_features = features\<rparr>"

definition validate_key ::
  "auth_crates \<Rightarrow> auth_parsers \<Rightarrow> auth_config \<Rightarrow> call_env \<Rightarrow> string \<Rightarrow> auth_service \<Rightarrow> auth_response \<times> auth_service" where
  "validate_key A P cfg env key sv =
     (case rate_limited P cfg 20 env sv of
        (True, sv) \<Rightarrow> (Refused 429 ''rate_limited'', sv)
      | (False, sv) \<Rightarrow>
          if key = [] then (Refused 400 ''empty_key'', sv)
          else case ac_open A key of
                 None \<Rightarrow> (Refused 200 ''invalid_signature'', sv)
               | Some payload \<Rightarrow>
                   if lp_expires_at payload < ce_wall env then (Refused 200 ''key_expired'', sv)
                   else if sv_db_poisoned sv then (Refused 500 ''internal_error'', sv)
                   else case validate_license_key (sv_db sv) key of
                          Some _ \<Rightarrow> (Key_valid (lp_tier payload) (lp_org_id payload), sv)
                        | None \<Rightarrow> (Refused 200 ''revoked_or_unknown'', sv))"

text \<open>\<open>chars().take(n)\<close> on UTF-8 bytes: a continuation byte belongs to the character before it.\<close>

fun take_chars :: "nat \<Rightarrow> string \<Rightarrow> string" where
  "take_chars n [] = []"
| "take_chars n (c # cs) =
     (if (of_char c :: u8) AND 0xC0 = 0x80 then c # take_chars n cs
      else case n of 0 \<Rightarrow> [] | Suc m \<Rightarrow> c # take_chars m cs)"

text \<open>The prefix the account endpoints share: the user of a live session.\<close>

definition with_session ::
  "auth_crates \<Rightarrow> auth_parsers \<Rightarrow> call_env \<Rightarrow> auth_service \<Rightarrow> (nat \<Rightarrow> auth_response \<times> auth_service) \<Rightarrow> auth_response \<times> auth_service" where
  "with_session A P env sv k =
     (case extract_bearer P env of
        None \<Rightarrow> (Refused 401 ''unauthorized'', sv)
      | Some token \<Rightarrow>
          if sv_db_poisoned sv then (Refused 500 ''internal_error'', sv)
          else case validate_session (ce_wall env) (sv_db sv) (ac_hash_token A token) of
                 None \<Rightarrow> (Refused 401 ''unauthorized'', sv)
               | Some user_id \<Rightarrow> k user_id)"

definition list_keys :: "auth_crates \<Rightarrow> auth_parsers \<Rightarrow> call_env \<Rightarrow> auth_service \<Rightarrow> auth_response \<times> auth_service" where
  "list_keys A P env sv =
     with_session A P env sv (\<lambda>user_id. (Keys (get_license_keys_for_user (sv_db sv) user_id), sv))"

definition generate_key ::
  "auth_crates \<Rightarrow> auth_parsers \<Rightarrow> call_env \<Rightarrow> string \<Rightarrow> auth_service \<Rightarrow> auth_response \<times> auth_service" where
  "generate_key A P env label sv =
     with_session A P env sv (\<lambda>user_id.
       case get_user_by_id (sv_db sv) user_id of
         None \<Rightarrow> (Refused 401 ''unauthorized'', sv)
       | Some user \<Rightarrow>
           if u_status user \<noteq> APPROVED then (Refused 403 ''not_approved'', sv)
           else
             let tier = u_tier user;
                 key_value = sign_license_key A (ce_wall env) (u_org user) tier (tier_features tier);
                 label = (if label = [] then ''default'' else take_chars 100 label)
             in (case insert_license_key (ce_wall env) user_id key_value label (sv_db sv) of
                   Inr (key_id, db) \<Rightarrow> (New_key key_id key_value label tier, put_db db sv)
                 | Inl Key_limit \<Rightarrow> (Refused 409 ''key_limit_reached'', sv)
                 | Inl Key_insert_failed \<Rightarrow> (Refused 500 ''internal_error'', sv)))"

definition revoke_key ::
  "auth_crates \<Rightarrow> auth_parsers \<Rightarrow> call_env \<Rightarrow> nat \<Rightarrow> auth_service \<Rightarrow> auth_response \<times> auth_service" where
  "revoke_key A P env key_id sv =
     with_session A P env sv (\<lambda>user_id.
       case revoke_license_key (ce_wall env) key_id user_id (sv_db sv) of
         (True, db) \<Rightarrow> (Done 200, put_db db sv)
       | (False, db) \<Rightarrow> (Refused 404 ''key_not_found'', put_db db sv))"

definition admin_settings :: "auth_crates \<Rightarrow> auth_parsers \<Rightarrow> auth_config \<Rightarrow> call_env \<Rightarrow> auth_service \<Rightarrow> auth_response \<times> auth_service" where
  "admin_settings A P cfg env sv =
     with_session A P env sv (\<lambda>user_id.
       case get_user_by_id (sv_db sv) user_id of
         None \<Rightarrow> (Refused 401 ''unauthorized'', sv)
       | Some user \<Rightarrow> if u_email user \<noteq> cf_admin_email cfg then (Refused 403 ''forbidden'', sv) else (Settings, sv))"

definition TOKEN_HEX_LEN :: nat where
  "TOKEN_HEX_LEN = 32 * 2"

definition sanitize_admin_token :: "string \<Rightarrow> string option" where
  "sanitize_admin_token raw =
     (if length raw \<noteq> TOKEN_HEX_LEN then None
      else if \<not> list_all (\<lambda>c. c \<in> set ''0123456789abcdef'') raw then None
      else Some raw)"

definition mask_key :: "string \<Rightarrow> string" where
  "mask_key key =
     (if length key \<le> 12 then key
      else take 11 key @ ''...'' @ drop (length key - 4) key)"

text \<open>The clean-up task: the database every hour, the limiter every five minutes.\<close>

definition cleanup_task :: "nat \<Rightarrow> auth_service \<Rightarrow> auth_service" where
  "cleanup_task now sv =
     (if sv_db_poisoned sv then sv
      else put_db (cleanup_stale_email_tokens now (cleanup_expired_sessions now (sv_db sv))) sv)"

definition rate_limit_cleanup :: "auth_config \<Rightarrow> nat \<Rightarrow> auth_service \<Rightarrow> auth_service" where
  "rate_limit_cleanup cfg now sv = sv\<lparr>sv_limiter := cleanup (cf_limiter cfg) now (sv_limiter sv)\<rparr>"

section \<open>Histories\<close>

datatype auth_call =
    Call_register string string string string string string
  | Call_verify string string string
  | Call_login string string string
  | Call_logout
  | Call_session
  | Call_approve string
  | Call_deny string
  | Call_forgot string string
  | Call_reset string string string
  | Call_validate string
  | Call_list
  | Call_generate string
  | Call_revoke nat
  | Call_settings
  | Call_cleanup
  | Call_sweep

text \<open>The router, with the two loops of the clean-up task as calls of their own.\<close>

definition serve ::
  "auth_crates \<Rightarrow> auth_parsers \<Rightarrow> auth_config \<Rightarrow> call_env \<Rightarrow> auth_call \<Rightarrow> auth_service \<Rightarrow> auth_response \<times> auth_service" where
  "serve A P cfg env call sv =
     (case call of
        Call_register email name org password salt token \<Rightarrow> register A P cfg env email name org password salt token sv
      | Call_verify token approve_token deny_token \<Rightarrow> verify_email P cfg env token approve_token deny_token sv
      | Call_login email password token \<Rightarrow> login A P cfg env email password token sv
      | Call_logout \<Rightarrow> logout A P env sv
      | Call_session \<Rightarrow> (session_check A P env sv, sv)
      | Call_approve token \<Rightarrow> approve_confirm P cfg env token sv
      | Call_deny token \<Rightarrow> deny_confirm P cfg env token sv
      | Call_forgot email token \<Rightarrow> forgot_password P cfg env email token sv
      | Call_reset token password salt \<Rightarrow> reset_password A P cfg env token password salt sv
      | Call_validate key \<Rightarrow> validate_key A P cfg env key sv
      | Call_list \<Rightarrow> list_keys A P env sv
      | Call_generate label \<Rightarrow> generate_key A P env label sv
      | Call_revoke key_id \<Rightarrow> revoke_key A P env key_id sv
      | Call_settings \<Rightarrow> admin_settings A P cfg env sv
      | Call_cleanup \<Rightarrow> (Done 200, cleanup_task (ce_wall env) sv)
      | Call_sweep \<Rightarrow> (Done 200, rate_limit_cleanup cfg (ce_instant env) sv))"

type_synonym auth_log = "(call_env \<times> auth_call \<times> auth_response) list"

definition service_init :: auth_service where
  "service_init = \<lparr>sv_db = db_init, sv_db_poisoned = False, sv_limiter = limiter_state_new, sv_mail = []\<rparr>"

text \<open>The service from an empty database, with every call and its answer in order; the clocks may jump.\<close>

inductive auth_history :: "auth_crates \<Rightarrow> auth_parsers \<Rightarrow> auth_config \<Rightarrow> auth_log \<Rightarrow> auth_service \<Rightarrow> bool" for A P cfg where
  history_start: "auth_history A P cfg [] service_init"
| history_step: "auth_history A P cfg hist sv \<Longrightarrow> serve A P cfg env call sv = (r, sv') \<Longrightarrow>
    auth_history A P cfg (hist @ [(env, call, r)]) sv'"

text \<open>What a call does to the tables and the mail, whatever the limiter says.\<close>

inductive auth_effect ::
  "auth_crates \<Rightarrow> auth_parsers \<Rightarrow> auth_config \<Rightarrow> call_env \<Rightarrow> auth_call \<Rightarrow> auth_response \<Rightarrow> auth_db \<Rightarrow> mail list
    \<Rightarrow> auth_db \<Rightarrow> mail list \<Rightarrow> bool" for A P cfg env where
  eff_none: "call = Call_logout \<Longrightarrow> extract_bearer P env = None \<Longrightarrow> auth_effect A P cfg env call r db ms db ms"
| eff_quiet: "call \<noteq> Call_logout \<Longrightarrow> auth_effect A P cfg env call r db ms db (ms @ ms')"
| eff_register: "insert_user (ce_wall env) email name org hash db = Some (uid, db') \<Longrightarrow>
    auth_effect A P cfg env (Call_register email name org password salt token) (Done 201) db ms
      (try_email_token (ce_wall env) token uid ''verify'' db') (ms @ [Mail_verify email token])"
| eff_verify: "consume_email_token (ce_wall env) token ''verify'' db = Some (uid, db') \<Longrightarrow>
    get_user_by_id (update_user_status (ce_wall env) uid PENDING_APPROVAL db') uid = Some u \<Longrightarrow>
    auth_effect A P cfg env (Call_verify token atok dtok) (Done 200) db ms
      (try_email_token (ce_wall env) dtok uid ''deny''
        (try_email_token (ce_wall env) atok uid ''approve'' (update_user_status (ce_wall env) uid PENDING_APPROVAL db')))
      (ms @ [Mail_admin (cf_admin_email cfg) uid atok dtok])"
| eff_verify_lost: "consume_email_token (ce_wall env) token ''verify'' db = Some (uid, db') \<Longrightarrow>
    get_user_by_id (update_user_status (ce_wall env) uid PENDING_APPROVAL db') uid = None \<Longrightarrow>
    auth_effect A P cfg env (Call_verify token atok dtok) (Done 200) db ms
      (try_email_token (ce_wall env) dtok uid ''deny''
        (try_email_token (ce_wall env) atok uid ''approve'' (update_user_status (ce_wall env) uid PENDING_APPROVAL db'))) ms"
| eff_login: "get_user_by_email db email = Some u \<Longrightarrow> ac_verify A password (u_password u) = Some True \<Longrightarrow>
    u_status u = APPROVED \<Longrightarrow>
    insert_session (ce_wall env) (ac_hash_token A token) (u_id u) (cf_session_ttl_hours cfg) db = Some db' \<Longrightarrow>
    auth_effect A P cfg env (Call_login email password token) (Logged_in token u) db ms db' ms"
| eff_logout: "extract_bearer P env = Some token \<Longrightarrow>
    auth_effect A P cfg env Call_logout (Done 200) db ms (delete_session (ac_hash_token A token) db) ms"
| eff_approve: "consume_email_token (ce_wall env) token ''approve'' db = Some (uid, db') \<Longrightarrow>
    auth_effect A P cfg env (Call_approve token) (Done 200) db ms
      (update_user_status (ce_wall env) uid APPROVED db') (ms @ ms')"
| eff_deny: "consume_email_token (ce_wall env) token ''deny'' db = Some (uid, db') \<Longrightarrow>
    auth_effect A P cfg env (Call_deny token) (Done 200) db ms
      (update_user_status (ce_wall env) uid DENIED db') (ms @ ms')"
| eff_forgot: "get_user_by_email db email = Some u \<Longrightarrow>
    insert_email_token (ce_wall env) token (u_id u) ''password_reset'' db = Some db' \<Longrightarrow>
    auth_effect A P cfg env (Call_forgot email token) (Done 200) db ms db' (ms @ [Mail_reset email token])"
| eff_reset_failed: "consume_email_token_ttl (ce_wall env) token ''password_reset'' 1 db = Some (uid, db') \<Longrightarrow>
    auth_effect A P cfg env (Call_reset token password salt) (Refused 500 ''internal_error'') db ms db' ms"
| eff_reset: "consume_email_token_ttl (ce_wall env) token ''password_reset'' 1 db = Some (uid, db') \<Longrightarrow>
    ac_hash A salt password = Some hash \<Longrightarrow>
    auth_effect A P cfg env (Call_reset token password salt) (Done 200) db ms
      (delete_sessions_for_user uid (update_password uid hash db')) ms"
| eff_generate: "insert_license_key (ce_wall env) uid key label db = Inr (kid, db') \<Longrightarrow>
    auth_effect A P cfg env (Call_generate label') r db ms db' ms"
| eff_revoke: "auth_effect A P cfg env (Call_revoke key_id) r db ms (snd (revoke_license_key (ce_wall env) key_id uid db)) ms"
| eff_cleanup: "auth_effect A P cfg env Call_cleanup r db ms
    (cleanup_stale_email_tokens (ce_wall env) (cleanup_expired_sessions (ce_wall env) db)) ms"

lemma rate_limited_frame:
  "rate_limited P cfg n env sv = (b, sv') \<Longrightarrow>
   sv_db sv' = sv_db sv \<and> sv_db_poisoned sv' = sv_db_poisoned sv \<and> sv_mail sv' = sv_mail sv"
  by (auto simp: rate_limited_def split: prod.splits)

lemma service_fields [simp]:
  "sv_db (put_db db sv) = db" "sv_db_poisoned (put_db db sv) = sv_db_poisoned sv" "sv_mail (put_db db sv) = sv_mail sv"
  "sv_db (send_mail m sv) = sv_db sv" "sv_db_poisoned (send_mail m sv) = sv_db_poisoned sv"
  "sv_mail (send_mail m sv) = sv_mail sv @ [m]"
  by (simp_all add: put_db_def send_mail_def)

lemma eff_same: "call \<noteq> Call_logout \<Longrightarrow> auth_effect A P cfg env call r db ms db ms"
  using eff_quiet [of call A P cfg env r db ms "[]"] by simp

lemma register_effect:
  assumes "register A P cfg env email name org password salt token sv = (r, sv')" "\<not> sv_db_poisoned sv"
  shows "auth_effect A P cfg env (Call_register email name org password salt token) r (sv_db sv) (sv_mail sv) (sv_db sv') (sv_mail sv')
    \<and> \<not> sv_db_poisoned sv'"
  using assms
  by (auto simp: register_def split: prod.splits bool.splits if_splits option.splits dest!: rate_limited_frame
      intro: eff_register eff_same eff_quiet)

lemma verify_effect:
  assumes "verify_email P cfg env token atok dtok sv = (r, sv')" "\<not> sv_db_poisoned sv"
  shows "auth_effect A P cfg env (Call_verify token atok dtok) r (sv_db sv) (sv_mail sv) (sv_db sv') (sv_mail sv')
    \<and> \<not> sv_db_poisoned sv'"
  using assms
  by (auto simp: verify_email_def Let_def split: prod.splits bool.splits if_splits option.splits dest!: rate_limited_frame
      intro: eff_verify eff_verify_lost eff_same)

lemma login_effect:
  assumes "login A P cfg env email password token sv = (r, sv')" "\<not> sv_db_poisoned sv"
  shows "auth_effect A P cfg env (Call_login email password token) r (sv_db sv) (sv_mail sv) (sv_db sv') (sv_mail sv')
    \<and> \<not> sv_db_poisoned sv'"
  using assms
  by (auto simp: login_def split: prod.splits bool.splits if_splits option.splits dest!: rate_limited_frame
      intro: eff_login eff_same)

lemma confirm_effect:
  assumes "confirm kind new_status mail_of P cfg env token sv = (r, sv')" "\<not> sv_db_poisoned sv"
  shows "(sv_db sv' = sv_db sv \<and> sv_mail sv' = sv_mail sv \<or>
     (\<exists>uid db ms. r = Done 200 \<and> consume_email_token (ce_wall env) token kind (sv_db sv) = Some (uid, db) \<and>
        sv_db sv' = update_user_status (ce_wall env) uid new_status db \<and> sv_mail sv' = sv_mail sv @ ms)) \<and>
    \<not> sv_db_poisoned sv'"
  using assms
  by (auto simp: confirm_def Let_def split: prod.splits bool.splits if_splits option.splits dest!: rate_limited_frame)

lemma forgot_effect:
  assumes "forgot_password P cfg env email token sv = (r, sv')" "\<not> sv_db_poisoned sv"
  shows "auth_effect A P cfg env (Call_forgot email token) r (sv_db sv) (sv_mail sv) (sv_db sv') (sv_mail sv')
    \<and> \<not> sv_db_poisoned sv'"
  using assms
  by (auto simp: forgot_password_def split: prod.splits bool.splits if_splits option.splits dest!: rate_limited_frame
      intro: eff_forgot eff_same)

lemma reset_effect:
  assumes "reset_password A P cfg env token password salt sv = (r, sv')" "\<not> sv_db_poisoned sv"
  shows "auth_effect A P cfg env (Call_reset token password salt) r (sv_db sv) (sv_mail sv) (sv_db sv') (sv_mail sv')
    \<and> \<not> sv_db_poisoned sv'"
  using assms
  by (auto simp: reset_password_def simp del: One_nat_def split: prod.splits bool.splits if_splits option.splits dest!: rate_limited_frame
      intro: eff_reset eff_reset_failed eff_same)

lemma generate_effect:
  assumes "generate_key A P env label sv = (r, sv')" "\<not> sv_db_poisoned sv"
  shows "auth_effect A P cfg env (Call_generate label) r (sv_db sv) (sv_mail sv) (sv_db sv') (sv_mail sv')
    \<and> \<not> sv_db_poisoned sv'"
  using assms
  by (auto simp: generate_key_def with_session_def Let_def
      split: prod.splits if_splits option.splits sum.splits key_error.splits intro: eff_generate eff_same)

lemma revoke_effect:
  assumes "revoke_key A P env key_id sv = (r, sv')" "\<not> sv_db_poisoned sv"
  shows "auth_effect A P cfg env (Call_revoke key_id) r (sv_db sv) (sv_mail sv) (sv_db sv') (sv_mail sv')
    \<and> \<not> sv_db_poisoned sv'"
proof -
  have "sv_mail sv' = sv_mail sv \<and> \<not> sv_db_poisoned sv' \<and>
    (sv_db sv' = sv_db sv \<or> (\<exists>uid. sv_db sv' = snd (revoke_license_key (ce_wall env) key_id uid (sv_db sv))))"
    using assms
    by (auto simp: revoke_key_def with_session_def split: prod.splits if_splits option.splits bool.splits)
      (metis snd_conv)+
  then show ?thesis
    using eff_revoke eff_same by auto
qed

lemma serve_effect:
  assumes "serve A P cfg env call sv = (r, sv')" "\<not> sv_db_poisoned sv"
  shows "auth_effect A P cfg env call r (sv_db sv) (sv_mail sv) (sv_db sv') (sv_mail sv') \<and> \<not> sv_db_poisoned sv'"
proof (cases call)
  case (Call_approve token)
  then have "confirm ''approve'' APPROVED Mail_approved P cfg env token sv = (r, sv')"
    using assms(1) by (simp add: serve_def approve_confirm_def)
  from confirm_effect [OF this assms(2)] show ?thesis
    unfolding Call_approve by (auto intro: eff_approve eff_same)
next
  case (Call_deny token)
  then have "confirm ''deny'' DENIED Mail_denied P cfg env token sv = (r, sv')"
    using assms(1) by (simp add: serve_def deny_confirm_def)
  from confirm_effect [OF this assms(2)] show ?thesis
    unfolding Call_deny by (auto intro: eff_deny eff_same)
next
  case Call_logout
  then show ?thesis
    using assms by (auto simp: serve_def logout_def split: option.splits intro: eff_logout eff_none)
next
  case (Call_validate key)
  then show ?thesis
    using assms
    by (auto simp: serve_def validate_key_def split: prod.splits bool.splits if_splits option.splits
        dest!: rate_limited_frame intro: eff_same)
next
  case Call_cleanup
  then show ?thesis
    using assms by (auto simp: serve_def cleanup_task_def intro: eff_cleanup)
next
  case Call_sweep
  then show ?thesis
    using assms by (auto simp: serve_def rate_limit_cleanup_def intro: eff_same)
next
  case Call_settings
  then show ?thesis
    using assms by (auto simp: serve_def admin_settings_def with_session_def split: if_splits option.splits intro: eff_same)
next
  case Call_list
  then show ?thesis
    using assms by (auto simp: serve_def list_keys_def with_session_def split: if_splits option.splits intro: eff_same)
qed (use assms register_effect verify_effect login_effect forgot_effect reset_effect generate_effect revoke_effect
  in \<open>simp_all add: serve_def eff_same\<close>)

lemma history_not_poisoned:
  "auth_history A P cfg hist sv \<Longrightarrow> \<not> sv_db_poisoned sv"
  by (induction rule: auth_history.induct) (auto simp: service_init_def dest: serve_effect)

text \<open>Histories as sequences of effects.\<close>

lemma history_effect_induct [consumes 1, case_names init step]:
  assumes "auth_history A P cfg hist sv"
    and "R [] db_init []"
    and "\<And>hist db ms env call r db' ms'. R hist db ms \<Longrightarrow> auth_effect A P cfg env call r db ms db' ms' \<Longrightarrow>
      R (hist @ [(env, call, r)]) db' ms'"
  shows "R hist (sv_db sv) (sv_mail sv)"
  using assms(1)
proof (induction rule: auth_history.induct)
  case history_start
  then show ?case using assms(2) by (simp add: service_init_def)
next
  case (history_step hist sv env call r sv')
  then show ?case
    using assms(3) serve_effect [OF history_step(2) history_not_poisoned [OF history_step(1)]] by blast
qed

section \<open>Sessions\<close>

lemma consume_token_frame:
  "consume_token now ttl token kind db = Some (uid, db') \<Longrightarrow>
   db_users db' = db_users db \<and> db_sessions db' = db_sessions db \<and> db_license_keys db' = db_license_keys db \<and>
   db_next_user db' = db_next_user db \<and> db_next_key db' = db_next_key db"
  by (auto simp: consume_token_def Let_def split: if_splits option.splits)

lemma try_email_token_frame [simp]:
  "db_users (try_email_token now token uid kind db) = db_users db"
  "db_sessions (try_email_token now token uid kind db) = db_sessions db"
  "db_license_keys (try_email_token now token uid kind db) = db_license_keys db"
  "db_next_user (try_email_token now token uid kind db) = db_next_user db"
  "db_next_key (try_email_token now token uid kind db) = db_next_key db"
  by (simp_all add: try_email_token_def insert_email_token_def split: option.split)

lemma update_user_frame [simp]:
  "db_sessions (update_user uid f db) = db_sessions db"
  "db_license_keys (update_user uid f db) = db_license_keys db"
  "db_email_tokens (update_user uid f db) = db_email_tokens db"
  "db_next_user (update_user uid f db) = db_next_user db"
  "db_next_key (update_user uid f db) = db_next_key db"
  "db_users (update_user uid f db) = map (\<lambda>u. if u_id u = uid then f u else u) (db_users db)"
  by (simp_all add: update_user_def)

lemma status_is_update:
  obtains f where "update_user_status now uid st db = update_user uid f db" "\<And>u. u_id (f u) = u_id u"
    "\<And>u. u_password (f u) = u_password u" "\<And>u. u_email (f u) = u_email u" "\<And>u. u_status (f u) = st"
    "\<And>u. st \<noteq> PENDING_APPROVAL \<Longrightarrow> u_verified_at (f u) = u_verified_at u"
    "\<And>u. st = PENDING_APPROVAL \<Longrightarrow> u_verified_at (f u) = Some now"
proof (cases "st = PENDING_APPROVAL"; cases "st = APPROVED")
qed (auto intro!: that simp: update_user_status_def)

text \<open>The logins of a log, and what may follow one as long as its session lives.\<close>

definition bearer_hash :: "auth_crates \<Rightarrow> auth_parsers \<Rightarrow> call_env \<Rightarrow> string option" where
  "bearer_hash A P env = map_option (ac_hash_token A) (extract_bearer P env)"

definition opened_by ::
  "auth_crates \<Rightarrow> auth_parsers \<Rightarrow> auth_config \<Rightarrow> auth_log \<Rightarrow> string \<Rightarrow> nat \<Rightarrow> User \<Rightarrow> bool" where
  "opened_by A P cfg hist token_hash expires u0 \<longleftrightarrow>
     (\<exists>before env password token after.
        hist = before @ (env, Call_login (u_email u0) password token, Logged_in token u0) # after \<and>
        ac_hash_token A token = token_hash \<and> expires = ce_wall env + cf_session_ttl_hours cfg * 3600 \<and>
        ac_verify A password (u_password u0) = Some True \<and> u_status u0 = APPROVED \<and>
        (\<forall>(env', call', r') \<in> set after. call' = Call_logout \<longrightarrow> bearer_hash A P env' \<noteq> Some token_hash))"

lemma opened_by_later:
  assumes "opened_by A P cfg hist th ex u0" "call = Call_logout \<Longrightarrow> bearer_hash A P env \<noteq> Some th"
  shows "opened_by A P cfg (hist @ [(env, call, r)]) th ex u0"
proof -
  obtain before env0 password token after where
    "hist = before @ (env0, Call_login (u_email u0) password token, Logged_in token u0) # after"
    and rest: "ac_hash_token A token = th" "ex = ce_wall env0 + cf_session_ttl_hours cfg * 3600"
    "ac_verify A password (u_password u0) = Some True" "u_status u0 = APPROVED"
    "\<forall>(env', call', r') \<in> set after. call' = Call_logout \<longrightarrow> bearer_hash A P env' \<noteq> Some th"
    using assms(1) by (auto simp: opened_by_def)
  then have "hist @ [(env, call, r)] =
      before @ (env0, Call_login (u_email u0) password token, Logged_in token u0) # (after @ [(env, call, r)])"
    by simp
  moreover have "\<forall>(env', call', r') \<in> set (after @ [(env, call, r)]). call' = Call_logout \<longrightarrow> bearer_hash A P env' \<noteq> Some th"
    using rest(5) assms(2) by auto
  ultimately show ?thesis
    unfolding opened_by_def using rest(1-4) by blast
qed

definition sessions_opened ::
  "auth_crates \<Rightarrow> auth_parsers \<Rightarrow> auth_config \<Rightarrow> auth_log \<Rightarrow> auth_db \<Rightarrow> bool" where
  "sessions_opened A P cfg hist db \<longleftrightarrow>
     (\<forall>s \<in> set (db_sessions db). \<exists>u0. opened_by A P cfg hist (sr_token s) (sr_expires_at s) u0 \<and>
        u_id u0 = sr_user_id s \<and> (\<forall>u \<in> set (db_users db). u_id u = u_id u0 \<longrightarrow> u_password u = u_password u0))"

definition users_wf :: "auth_db \<Rightarrow> bool" where
  "users_wf db \<longleftrightarrow> distinct (map u_id (db_users db)) \<and> (\<forall>u \<in> set (db_users db). u_id u < db_next_user db) \<and>
     (\<forall>s \<in> set (db_sessions db). sr_user_id s < db_next_user db) \<and>
     (\<forall>et \<in> set (db_email_tokens db). et_user_id et < db_next_user db)"

lemma insert_user_Some:
  assumes "insert_user now email name org hash db = Some (uid, db')"
  obtains u where "uid = db_next_user db" "db_users db' = db_users db @ [u]" "u_id u = db_next_user db" "u_email u = email"
    "u_status u = PENDING_VERIFICATION" "u_verified_at u = None" "db_next_user db' = Suc (db_next_user db)"
    "db_sessions db' = db_sessions db" "db_email_tokens db' = db_email_tokens db" "db_license_keys db' = db_license_keys db"
  using assms by (auto simp: insert_user_def split: if_splits)

lemma consume_token_row:
  assumes "consume_token now ttl token kind db = Some (uid, db')" "distinct (map et_token (db_email_tokens db))"
  obtains et where "et \<in> set (db_email_tokens db)" "et_token et = token" "et_kind et = kind" "et_user_id et = uid"
    "\<not> et_used et" "now < et_created_at et + ttl"
proof -
  have some: "list_ex (consumable now ttl token kind) (db_email_tokens db)"
    using assms(1) by (auto simp: consume_token_def Let_def split: if_splits)
  then obtain et where et: "et \<in> set (db_email_tokens db)" "consumable now ttl token kind et"
    by (auto simp: list_ex_iff)
  let ?f = "\<lambda>et. if consumable now ttl token kind et then et\<lparr>et_used := True\<rparr> else et"
  obtain et' where et': "find (\<lambda>et. et_token et = token) (map ?f (db_email_tokens db)) = Some et'" "et_user_id et' = uid"
    using assms(1) some by (auto simp: consume_token_def Let_def split: option.splits)
  then obtain et'' where et'': "et'' \<in> set (db_email_tokens db)" "et' = ?f et''" "et_token et' = token"
    by (auto simp: find_Some_iff in_set_conv_nth) (metis nth_mem)
  then have "et_token et'' = et_token et"
    using et by (auto simp: consumable_def split: if_splits)
  then have "et'' = et"
    using assms(2) et(1) et''(1) by (auto simp: distinct_map dest: inj_onD)
  then show ?thesis
    using that [OF et(1)] et et' et'' by (auto simp: consumable_def split: if_splits)
qed

lemma consume_token_tokens:
  assumes "consume_token now ttl token kind db = Some (uid, db')"
  shows "map et_token (db_email_tokens db') = map et_token (db_email_tokens db)"
    "et' \<in> set (db_email_tokens db') \<Longrightarrow>
      \<exists>et \<in> set (db_email_tokens db). et_token et = et_token et' \<and> et_kind et = et_kind et' \<and> et_user_id et = et_user_id et'"
proof -
  let ?f = "\<lambda>et. if consumable now ttl token kind et then et\<lparr>et_used := True\<rparr> else et"
  have rows: "db_email_tokens db' = map ?f (db_email_tokens db)"
    using assms by (auto simp: consume_token_def Let_def split: if_splits option.splits)
  have same: "et_token (?f et) = et_token et" "et_kind (?f et) = et_kind et" "et_user_id (?f et) = et_user_id et" for et
    by simp_all
  show "map et_token (db_email_tokens db') = map et_token (db_email_tokens db)"
    unfolding rows by simp
  show "\<exists>et \<in> set (db_email_tokens db). et_token et = et_token et' \<and> et_kind et = et_kind et' \<and> et_user_id et = et_user_id et'"
    if "et' \<in> set (db_email_tokens db')"
  proof -
    have "et' \<in> ?f ` set (db_email_tokens db)"
      using that unfolding rows by (simp only: set_map)
    then obtain et where "et \<in> set (db_email_tokens db)" "et' = ?f et" by (rule imageE) blast
    then show ?thesis using same by (intro bexI [of _ et]) simp_all
  qed
qed

lemmas consume_frames = consume_email_token_def consume_email_token_ttl_def

text \<open>What every table keeps: identifiers and tokens are unique, and rows belong to users.\<close>

definition tokens_wf :: "auth_db \<Rightarrow> bool" where
  "tokens_wf db \<longleftrightarrow> distinct (map et_token (db_email_tokens db))"

lemma try_email_token_cases:
  obtains "try_email_token now token uid kind db = db"
  | "token \<notin> et_token ` set (db_email_tokens db)"
    "db_email_tokens (try_email_token now token uid kind db) =
       db_email_tokens db @ [\<lparr>et_token = token, et_user_id = uid, et_kind = kind, et_created_at = now, et_used = False\<rparr>]"
  by (cases "token \<in> et_token ` set (db_email_tokens db)") (simp_all add: try_email_token_def insert_email_token_def)

lemma tokens_wf_try [simp]: "tokens_wf db \<Longrightarrow> tokens_wf (try_email_token now token uid kind db)"
  by (cases rule: try_email_token_cases [of now token uid kind db]) (auto simp: tokens_wf_def)

lemma tokens_wf_step:
  "auth_effect A P cfg env call r db ms db' ms' \<Longrightarrow> tokens_wf db \<Longrightarrow> tokens_wf db'"
proof (induction rule: auth_effect.induct)
  case (eff_register email name org hash db uid db' password salt token ms)
  then have "tokens_wf db'" by (auto simp: tokens_wf_def elim: insert_user_Some)
  then show ?case by simp
next
  case (eff_forgot db email u token db' ms)
  then show ?case by (auto simp: tokens_wf_def insert_email_token_def split: if_splits)
next
  case (eff_login db email u password token db' ms)
  then show ?case by (auto simp: tokens_wf_def insert_session_def split: if_splits)
next
  case (eff_generate uid key label db kid db' label' r ms)
  then show ?case by (auto simp: tokens_wf_def insert_license_key_def split: if_splits)
qed (auto simp: tokens_wf_def consume_frames delete_session_def delete_sessions_for_user_def update_password_def
    revoke_license_key_def cleanup_expired_sessions_def cleanup_stale_email_tokens_def update_user_status_def Let_def
    distinct_map_filter dest: consume_token_tokens(1) intro!: tokens_wf_try [unfolded tokens_wf_def])

lemma find_SomeD: "find P xs = Some x \<Longrightarrow> x \<in> set xs \<and> P x"
  by (auto simp: find_Some_iff)

lemma found_user:
  "get_user_by_email db email = Some u \<Longrightarrow> u \<in> set (db_users db) \<and> u_email u = email"
  "get_user_by_id db uid = Some u \<Longrightarrow> u \<in> set (db_users db) \<and> u_id u = uid"
  by (auto simp: get_user_by_email_def get_user_by_id_def find_Some_iff)

definition rows_wf :: "auth_db \<Rightarrow> bool" where
  "rows_wf db \<longleftrightarrow> tokens_wf db \<and> users_wf db"

lemma consumed_user:
  assumes "consume_token now ttl token kind db = Some (uid, db')" "rows_wf db"
  shows "uid < db_next_user db"
proof -
  from assms obtain et where "et \<in> set (db_email_tokens db)" "et_user_id et = uid"
    using consume_token_row by (auto simp: rows_wf_def tokens_wf_def) metis
  then show ?thesis using assms(2) by (auto simp: rows_wf_def users_wf_def)
qed

lemma users_wf_consume:
  assumes "consume_token now ttl token kind db = Some (uid, db')" "users_wf db"
  shows "users_wf db'"
  using assms consume_token_frame [OF assms(1)] consume_token_tokens(2) [OF assms(1)]
  unfolding users_wf_def by (metis (no_types, lifting))

lemma users_wf_update:
  assumes "users_wf db" "\<And>u. u_id (f u) = u_id u"
  shows "users_wf (update_user uid f db)"
proof -
  have "u_id \<circ> (\<lambda>u. if u_id u = uid then f u else u) = u_id"
    using assms(2) by (intro ext) simp
  then show ?thesis
    using assms by (auto simp: users_wf_def)
qed

lemma users_wf_try:
  "users_wf db \<Longrightarrow> uid < db_next_user db \<Longrightarrow> users_wf (try_email_token now token uid kind db)"
  by (cases rule: try_email_token_cases [of now token uid kind db]) (auto simp: users_wf_def)

lemma users_wf_status: "users_wf db \<Longrightarrow> users_wf (update_user_status now uid st db)"
  by (rule status_is_update [of now uid st db]) (auto intro: users_wf_update)

lemma next_user_status [simp]: "db_next_user (update_user_status now uid st db) = db_next_user db"
  by (rule status_is_update [of now uid st db]) simp

lemma users_wf_step:
  assumes "auth_effect A P cfg env call r db ms db' ms'" "rows_wf db"
  shows "users_wf db'"
  using assms
proof (induction rule: auth_effect.induct)
  case (eff_register email name org hash db uid db' password salt token ms)
  obtain u where "db_users db' = db_users db @ [u]" "u_id u = db_next_user db" "uid = db_next_user db"
    "db_next_user db' = Suc (db_next_user db)" "db_sessions db' = db_sessions db" "db_email_tokens db' = db_email_tokens db"
    using eff_register(1) by (rule insert_user_Some)
  then have "users_wf db'" "uid < db_next_user db'"
    using eff_register(2) by (fastforce simp: rows_wf_def users_wf_def)+
  then show ?case by (rule users_wf_try)
next
  case (eff_verify token db uid db' u atok dtok ms)
  then show ?case
    using consumed_user users_wf_consume consume_token_frame
    by (auto simp: consume_frames rows_wf_def intro!: users_wf_try users_wf_status)
next
  case (eff_verify_lost token db uid db' atok dtok ms)
  then show ?case
    using consumed_user users_wf_consume consume_token_frame
    by (auto simp: consume_frames rows_wf_def intro!: users_wf_try users_wf_status)
next
  case (eff_login db email u password token db' ms)
  then show ?case
    using found_user(1) by (auto simp: rows_wf_def users_wf_def insert_session_def split: if_splits)
next
  case (eff_forgot db email u token db' ms)
  then show ?case
    using found_user(1) by (auto simp: rows_wf_def users_wf_def insert_email_token_def split: if_splits)
next
  case (eff_reset token db uid db' salt password hash ms)
  then have "users_wf db'" by (auto simp: consume_frames rows_wf_def intro: users_wf_consume)
  then have "users_wf (update_password uid hash db')"
    unfolding update_password_def by (rule users_wf_update) simp
  then show ?case by (auto simp: users_wf_def delete_sessions_for_user_def)
next
  case (eff_generate uid key label db kid db' label' r ms)
  then show ?case by (auto simp: rows_wf_def users_wf_def insert_license_key_def split: if_splits)
qed (auto simp: rows_wf_def consume_frames intro: users_wf_status users_wf_consume,
  auto simp: users_wf_def delete_session_def revoke_license_key_def cleanup_expired_sessions_def
    cleanup_stale_email_tokens_def Let_def)

lemma history_rows_wf:
  "auth_history A P cfg hist sv \<Longrightarrow> rows_wf (sv_db sv)"
proof (induction rule: history_effect_induct)
  case init
  show ?case by (simp add: rows_wf_def tokens_wf_def users_wf_def db_init_def)
next
  case (step hist db ms env call r db' ms')
  then show ?case
    using tokens_wf_step users_wf_step by (auto simp: rows_wf_def)
qed

text \<open>A session of a later state is an old one whose user's password stands and that was not logged out, or a new login.\<close>

lemma sessions_opened_keep:
  assumes "sessions_opened A P cfg hist db"
    and "\<And>s. s \<in> set (db_sessions db') \<Longrightarrow> s \<in> set (db_sessions db)"
    and "\<And>s. s \<in> set (db_sessions db') \<Longrightarrow> call = Call_logout \<Longrightarrow> bearer_hash A P env \<noteq> Some (sr_token s)"
    and "\<And>s u'. s \<in> set (db_sessions db') \<Longrightarrow> u' \<in> set (db_users db') \<Longrightarrow> u_id u' = sr_user_id s \<Longrightarrow>
      \<exists>u \<in> set (db_users db). u_id u = u_id u' \<and> u_password u = u_password u'"
  shows "sessions_opened A P cfg (hist @ [(env, call, r)]) db'"
  unfolding sessions_opened_def
proof
  fix s
  assume s: "s \<in> set (db_sessions db')"
  then obtain u0 where u0: "opened_by A P cfg hist (sr_token s) (sr_expires_at s) u0" "u_id u0 = sr_user_id s"
    "\<forall>u \<in> set (db_users db). u_id u = u_id u0 \<longrightarrow> u_password u = u_password u0"
    using assms(1,2) unfolding sessions_opened_def by blast
  have "opened_by A P cfg (hist @ [(env, call, r)]) (sr_token s) (sr_expires_at s) u0"
    using u0(1) assms(3) [OF s] by (rule opened_by_later)
  moreover have "\<forall>u \<in> set (db_users db'). u_id u = u_id u0 \<longrightarrow> u_password u = u_password u0"
    using u0(2,3) assms(4) [OF s] by fastforce
  ultimately show "\<exists>u0. opened_by A P cfg (hist @ [(env, call, r)]) (sr_token s) (sr_expires_at s) u0 \<and>
    u_id u0 = sr_user_id s \<and> (\<forall>u \<in> set (db_users db'). u_id u = u_id u0 \<longrightarrow> u_password u = u_password u0)"
    using u0(2) by blast
qed

lemma status_users:
  assumes "u' \<in> set (db_users (update_user_status now uid st db))"
  shows "\<exists>u \<in> set (db_users db). u_id u = u_id u' \<and> u_password u = u_password u' \<and> u_email u = u_email u'"
proof -
  obtain f where f: "update_user_status now uid st db = update_user uid f db" "\<And>u. u_id (f u) = u_id u"
    "\<And>u. u_password (f u) = u_password u" "\<And>u. u_email (f u) = u_email u"
    by (rule status_is_update [of now uid st db]) blast
  obtain u where u: "u \<in> set (db_users db)" "u' = (if u_id u = uid then f u else u)"
    using assms f(1) by auto
  then show ?thesis using f(2-4) by (intro bexI [OF _ u(1)]) simp
qed

lemma status_sessions [simp]: "db_sessions (update_user_status now uid st db) = db_sessions db"
  by (rule status_is_update [of now uid st db]) simp

lemma login_opens:
  assumes opened: "sessions_opened A P cfg hist db" and wf: "rows_wf db"
    and login: "get_user_by_email db email = Some u" "ac_verify A password (u_password u) = Some True"
      "u_status u = APPROVED"
      "insert_session (ce_wall env) (ac_hash_token A token) (u_id u) (cf_session_ttl_hours cfg) db = Some db'"
  shows "sessions_opened A P cfg (hist @ [(env, Call_login email password token, Logged_in token u)]) db'"
proof -
  let ?hist = "hist @ [(env, Call_login email password token, Logged_in token u)]"
  let ?s = "\<lparr>sr_token = ac_hash_token A token, sr_user_id = u_id u, sr_created_at = ce_wall env,
    sr_expires_at = ce_wall env + cf_session_ttl_hours cfg * 3600\<rparr>"
  have db': "db_users db' = db_users db" "db_sessions db' = db_sessions db @ [?s]"
    using login(4) by (auto simp: insert_session_def split: if_splits)
  have user: "u \<in> set (db_users db)" "u_email u = email"
    using found_user(1) [OF login(1)] by simp_all
  have "opened_by A P cfg ?hist (sr_token ?s) (sr_expires_at ?s) u"
    unfolding opened_by_def user(2) using login(2,3) by (intro exI [of _ hist] exI [of _ "[]"]) auto
  moreover have "\<forall>u' \<in> set (db_users db). u_id u' = u_id u \<longrightarrow> u_password u' = u_password u"
    using wf user(1) by (auto simp: rows_wf_def users_wf_def distinct_map dest: inj_onD)
  moreover have "sessions_opened A P cfg ?hist db"
    using opened by (rule sessions_opened_keep) auto
  ultimately show ?thesis
    using db' unfolding sessions_opened_def by auto
qed

lemma sessions_opened_step:
  assumes "auth_effect A P cfg env call r db ms db' ms'" "sessions_opened A P cfg hist db" "rows_wf db"
  shows "sessions_opened A P cfg (hist @ [(env, call, r)]) db'"
  using assms
proof (induction rule: auth_effect.induct)
  case (eff_register email name org hash db uid db' password salt token ms)
  obtain u where "db_users db' = db_users db @ [u]" "u_id u = db_next_user db" "db_sessions db' = db_sessions db"
    using eff_register(1) by (rule insert_user_Some)
  then show ?case
    using eff_register(2,3) by (intro sessions_opened_keep [of A P cfg hist db]) (auto simp: rows_wf_def users_wf_def)
next
  case (eff_login db email u password token db' ms)
  then show ?case by (intro login_opens)
next
  case (eff_reset token db uid db' salt password hash ms)
  have "db_users db' = db_users db" "db_sessions db' = db_sessions db"
    using eff_reset(1) consume_token_frame by (auto simp: consume_frames)
  then show ?case
    using eff_reset(3) by (intro sessions_opened_keep [of A P cfg hist db])
      (auto simp: delete_sessions_for_user_def update_password_def)
next
  case (eff_generate uid key label db kid db' label' r ms)
  then show ?case
    by (intro sessions_opened_keep [of A P cfg hist db]) (auto simp: insert_license_key_def split: if_splits)
next
  case (eff_forgot db email u token db' ms)
  then show ?case
    by (intro sessions_opened_keep [of A P cfg hist db]) (auto simp: insert_email_token_def split: if_splits)
qed (auto simp: consume_frames bearer_hash_def delete_session_def revoke_license_key_def Let_def
    cleanup_expired_sessions_def cleanup_stale_email_tokens_def dest!: consume_token_frame status_users
    intro!: sessions_opened_keep, blast+)

lemma history_sessions:
  "auth_history A P cfg hist sv \<Longrightarrow> rows_wf (sv_db sv) \<and> sessions_opened A P cfg hist (sv_db sv)"
proof (induction rule: history_effect_induct)
  case init
  show ?case
    by (simp add: rows_wf_def tokens_wf_def users_wf_def sessions_opened_def db_init_def)
next
  case (step hist db ms env call r db' ms')
  then show ?case
    using tokens_wf_step users_wf_step sessions_opened_step by (auto simp: rows_wf_def)
qed


section \<open>Approval\<close>

text \<open>
  The mail behind a token: the link that verifies an address went to that address, and the links that
  decide on an account went to the administrator, after the address was verified.
\<close>

definition verified_by :: "auth_log \<Rightarrow> mail list \<Rightarrow> string \<Rightarrow> bool" where
  "verified_by hist ms email \<longleftrightarrow>
     (\<exists>token env a d. Mail_verify email token \<in> set ms \<and> (env, Call_verify token a d, Done 200) \<in> set hist)"

definition approved_by :: "auth_config \<Rightarrow> auth_log \<Rightarrow> mail list \<Rightarrow> nat \<Rightarrow> bool" where
  "approved_by cfg hist ms uid \<longleftrightarrow>
     (\<exists>token dtok env. Mail_admin (cf_admin_email cfg) uid token dtok \<in> set ms \<and>
        (env, Call_approve token, Done 200) \<in> set hist)"

definition accounts_ok :: "auth_config \<Rightarrow> auth_log \<Rightarrow> auth_db \<Rightarrow> mail list \<Rightarrow> bool" where
  "accounts_ok cfg hist db ms \<longleftrightarrow>
     (\<forall>u \<in> set (db_users db).
        (u_verified_at u \<noteq> None \<longrightarrow> verified_by hist ms (u_email u)) \<and>
        (u_status u = APPROVED \<longrightarrow> u_verified_at u \<noteq> None \<and> approved_by cfg hist ms (u_id u))) \<and>
     (\<forall>et \<in> set (db_email_tokens db).
        (et_kind et = ''verify'' \<longrightarrow>
           (\<forall>u \<in> set (db_users db). u_id u = et_user_id et \<longrightarrow> Mail_verify (u_email u) (et_token et) \<in> set ms)) \<and>
        (et_kind et = ''approve'' \<longrightarrow>
           (\<exists>d. Mail_admin (cf_admin_email cfg) (et_user_id et) (et_token et) d \<in> set ms) \<and>
           (\<forall>u \<in> set (db_users db). u_id u = et_user_id et \<longrightarrow> u_verified_at u \<noteq> None)))"

lemma verified_by_mono:
  "verified_by hist ms email \<Longrightarrow> set hist \<subseteq> set hist' \<Longrightarrow> set ms \<subseteq> set ms' \<Longrightarrow> verified_by hist' ms' email"
  unfolding verified_by_def by blast

lemma approved_by_mono:
  "approved_by cfg hist ms uid \<Longrightarrow> set hist \<subseteq> set hist' \<Longrightarrow> set ms \<subseteq> set ms' \<Longrightarrow> approved_by cfg hist' ms' uid"
  unfolding approved_by_def by blast

lemma accounts_ok_mono:
  assumes "accounts_ok cfg hist db ms" "set hist \<subseteq> set hist'" "set ms \<subseteq> set ms'"
  shows "accounts_ok cfg hist' db ms'"
  using assms(1) verified_by_mono [OF _ assms(2,3)] approved_by_mono [OF _ assms(2,3)] assms(3)
  unfolding accounts_ok_def by (meson subsetD)

text \<open>Fewer rows, or rows with the same kind, token and user, keep it.\<close>

lemma accounts_ok_tokens:
  assumes "accounts_ok cfg hist db ms" "db_users db' = db_users db"
    and "\<And>et'. et' \<in> set (db_email_tokens db') \<Longrightarrow>
      \<exists>et \<in> set (db_email_tokens db). et_token et = et_token et' \<and> et_kind et = et_kind et' \<and> et_user_id et = et_user_id et'"
  shows "accounts_ok cfg hist db' ms"
  unfolding accounts_ok_def assms(2)
proof (intro conjI ballI)
  fix u assume "u \<in> set (db_users db)"
  then show "u_verified_at u \<noteq> None \<longrightarrow> verified_by hist ms (u_email u)"
    "u_status u = APPROVED \<longrightarrow> u_verified_at u \<noteq> None \<and> approved_by cfg hist ms (u_id u)"
    using assms(1) by (auto simp: accounts_ok_def)
next
  fix et' assume "et' \<in> set (db_email_tokens db')"
  then obtain et where "et \<in> set (db_email_tokens db)" "et_token et = et_token et'" "et_kind et = et_kind et'"
    "et_user_id et = et_user_id et'"
    using assms(3) by blast
  then show "et_kind et' = ''verify'' \<longrightarrow>
      (\<forall>u \<in> set (db_users db). u_id u = et_user_id et' \<longrightarrow> Mail_verify (u_email u) (et_token et') \<in> set ms)"
    "et_kind et' = ''approve'' \<longrightarrow>
      (\<exists>d. Mail_admin (cf_admin_email cfg) (et_user_id et') (et_token et') d \<in> set ms) \<and>
      (\<forall>u \<in> set (db_users db). u_id u = et_user_id et' \<longrightarrow> u_verified_at u \<noteq> None)"
    using assms(1) unfolding accounts_ok_def by metis+
qed

lemma accounts_ok_consume:
  "consume_token now ttl token kind db = Some (uid, db') \<Longrightarrow> accounts_ok cfg hist db ms \<Longrightarrow> accounts_ok cfg hist db' ms"
  by (rule accounts_ok_tokens [of cfg hist db]) (simp_all add: consume_token_frame consume_token_tokens(2))

lemma accounts_ok_try:
  assumes "accounts_ok cfg hist db ms"
    and "kind = ''verify'' \<Longrightarrow> \<forall>u \<in> set (db_users db). u_id u = uid \<longrightarrow> Mail_verify (u_email u) token \<in> set ms"
    and "kind = ''approve'' \<Longrightarrow> (\<exists>d. Mail_admin (cf_admin_email cfg) uid token d \<in> set ms) \<and>
      (\<forall>u \<in> set (db_users db). u_id u = uid \<longrightarrow> u_verified_at u \<noteq> None)"
  shows "accounts_ok cfg hist (try_email_token now token uid kind db) ms"
  using assms
  by (cases rule: try_email_token_cases [of now token uid kind db]) (simp_all add: accounts_ok_def)

text \<open>Setting a user's status: to pending once verified, to approved once decided, to denied always.\<close>

lemma accounts_ok_status:
  assumes ok: "accounts_ok cfg hist db ms"
    and verify: "st = PENDING_APPROVAL \<Longrightarrow> \<forall>u \<in> set (db_users db). u_id u = uid \<longrightarrow> verified_by hist ms (u_email u)"
    and approve: "st = APPROVED \<Longrightarrow> approved_by cfg hist ms uid \<and> (\<forall>u \<in> set (db_users db). u_id u = uid \<longrightarrow> u_verified_at u \<noteq> None)"
  shows "accounts_ok cfg hist (update_user_status now uid st db) ms"
proof -
  obtain f where f: "update_user_status now uid st db = update_user uid f db" "\<And>u. u_id (f u) = u_id u"
    "\<And>u. u_email (f u) = u_email u" "\<And>u. u_status (f u) = st"
    "\<And>u. st \<noteq> PENDING_APPROVAL \<Longrightarrow> u_verified_at (f u) = u_verified_at u"
    "\<And>u. st = PENDING_APPROVAL \<Longrightarrow> u_verified_at (f u) = Some now"
    by (rule status_is_update [of now uid st db]) blast
  have kept: "u_verified_at (f u) \<noteq> None" if "u_verified_at u \<noteq> None" for u
    using that f(5,6) by (cases "st = PENDING_APPROVAL") auto
  have distinct_status: "PENDING_APPROVAL \<noteq> APPROVED"
    by (simp add: PENDING_APPROVAL_def APPROVED_def)
  have user: "(u_verified_at (f u) \<noteq> None \<longrightarrow> verified_by hist ms (u_email (f u))) \<and>
      (u_status (f u) = APPROVED \<longrightarrow> u_verified_at (f u) \<noteq> None \<and> approved_by cfg hist ms (u_id (f u)))"
    if "u \<in> set (db_users db)" "u_id u = uid" for u
    using ok that f verify approve distinct_status
    by (cases "st = PENDING_APPROVAL"; cases "st = APPROVED") (auto simp: accounts_ok_def)
  show ?thesis
    unfolding accounts_ok_def f(1)
  proof (intro conjI ballI)
    fix u' assume "u' \<in> set (db_users (update_user uid f db))"
    then show "u_verified_at u' \<noteq> None \<longrightarrow> verified_by hist ms (u_email u')"
      "u_status u' = APPROVED \<longrightarrow> u_verified_at u' \<noteq> None \<and> approved_by cfg hist ms (u_id u')"
      using user ok by (auto simp: accounts_ok_def split: if_splits)
  next
    fix et assume "et \<in> set (db_email_tokens (update_user uid f db))"
    then show "et_kind et = ''verify'' \<longrightarrow> (\<forall>u \<in> set (db_users (update_user uid f db)). u_id u = et_user_id et \<longrightarrow>
        Mail_verify (u_email u) (et_token et) \<in> set ms)"
      "et_kind et = ''approve'' \<longrightarrow> (\<exists>d. Mail_admin (cf_admin_email cfg) (et_user_id et) (et_token et) d \<in> set ms) \<and>
        (\<forall>u \<in> set (db_users (update_user uid f db)). u_id u = et_user_id et \<longrightarrow> u_verified_at u \<noteq> None)"
      using ok f(2,3) kept by (auto simp: accounts_ok_def split: if_splits)
  qed
qed

text \<open>Every token belongs to a user in the table: users are never deleted.\<close>

definition tokens_owned :: "auth_db \<Rightarrow> bool" where
  "tokens_owned db \<longleftrightarrow> (\<forall>et \<in> set (db_email_tokens db). et_user_id et \<in> u_id ` set (db_users db))"

lemma update_ids:
  assumes "\<And>u. u_id (f u) = u_id u"
  shows "u_id ` set (db_users (update_user uid f db)) = u_id ` set (db_users db)"
proof -
  have "u_id \<circ> (\<lambda>u. if u_id u = uid then f u else u) = u_id"
    using assms by (intro ext) simp
  then show ?thesis
    unfolding update_user_frame(6) set_map image_comp by (simp only:)
qed

lemma status_ids [simp]: "u_id ` set (db_users (update_user_status now uid st db)) = u_id ` set (db_users db)"
  by (rule status_is_update [of now uid st db]) (simp only: update_ids)

lemma status_tokens [simp]: "db_email_tokens (update_user_status now uid st db) = db_email_tokens db"
  by (rule status_is_update [of now uid st db]) simp

lemma consumed_owner:
  assumes "consume_token now ttl token kind db = Some (uid, db')" "tokens_wf db" "tokens_owned db"
  shows "uid \<in> u_id ` set (db_users db')" "tokens_owned db'"
proof -
  obtain et where "et \<in> set (db_email_tokens db)" "et_user_id et = uid"
    by (rule consume_token_row [OF assms(1) assms(2) [unfolded tokens_wf_def]])
  then show "uid \<in> u_id ` set (db_users db')"
    using assms(3) consume_token_frame [OF assms(1)] by (auto simp: tokens_owned_def)
  show "tokens_owned db'"
    unfolding tokens_owned_def
  proof
    fix et'
    assume "et' \<in> set (db_email_tokens db')"
    then obtain et where "et \<in> set (db_email_tokens db)" "et_user_id et = et_user_id et'"
      using consume_token_tokens(2) [OF assms(1)] by blast
    then show "et_user_id et' \<in> u_id ` set (db_users db')"
      using assms(3) consume_token_frame [OF assms(1)] unfolding tokens_owned_def by force
  qed
qed

lemma tokens_owned_try:
  "tokens_owned db \<Longrightarrow> uid \<in> u_id ` set (db_users db) \<Longrightarrow> tokens_owned (try_email_token now token uid kind db)"
  by (cases rule: try_email_token_cases [of now token uid kind db]) (auto simp: tokens_owned_def)

lemma tokens_owned_status: "tokens_owned (update_user_status now uid st db) = tokens_owned db"
  unfolding tokens_owned_def status_ids status_tokens ..

lemma tokens_owned_step:
  assumes "auth_effect A P cfg env call r db ms db' ms'" "tokens_wf db" "tokens_owned db"
  shows "tokens_owned db'"
  using assms
proof (induction rule: auth_effect.induct)
  case (eff_register email name org hash db uid db' password salt token ms)
  obtain u where "db_users db' = db_users db @ [u]" "u_id u = uid" "db_email_tokens db' = db_email_tokens db"
    using eff_register(1) by (rule insert_user_Some) blast
  then show ?case
    using eff_register(3) by (intro tokens_owned_try) (auto simp: tokens_owned_def)
next
  case (eff_forgot db email u token db' ms)
  then show ?case
    using found_user(1) by (auto simp: tokens_owned_def insert_email_token_def split: if_splits)
next
  case (eff_login db email u password token db' ms)
  then show ?case by (auto simp: tokens_owned_def insert_session_def split: if_splits)
next
  case (eff_generate uid key label db kid db' label' r ms)
  then show ?case by (auto simp: tokens_owned_def insert_license_key_def split: if_splits)
next
  case (eff_reset token db uid db' salt password hash ms)
  then have "tokens_owned db'" by (auto simp: consume_frames intro: consumed_owner)
  moreover have "u_id ` set (db_users (update_password uid hash db')) = u_id ` set (db_users db')"
    unfolding update_password_def by (rule update_ids) simp
  ultimately show ?case
    by (simp add: tokens_owned_def delete_sessions_for_user_def update_password_def del: update_user_frame(6))
qed (auto simp: consume_frames tokens_owned_status intro!: tokens_owned_try intro: consumed_owner,
  auto simp: tokens_owned_def delete_session_def revoke_license_key_def Let_def cleanup_expired_sessions_def
    cleanup_stale_email_tokens_def)

lemma status_verified:
  assumes "u' \<in> set (db_users (update_user_status now uid PENDING_APPROVAL db))" "u_id u' = uid"
  shows "u_verified_at u' \<noteq> None"
proof -
  obtain f where f: "update_user_status now uid PENDING_APPROVAL db = update_user uid f db" "\<And>u. u_id (f u) = u_id u"
    "\<And>u. u_verified_at (f u) = Some now"
    by (rule status_is_update [of now uid PENDING_APPROVAL db]) blast
  obtain u where u: "u' = (if u_id u = uid then f u else u)"
    using assms(1) unfolding f(1) update_user_frame(6) set_map by blast
  then have "u_id u = uid" using assms(2) f(2) by (cases "u_id u = uid") simp_all
  then show ?thesis using u f(3) by simp
qed

lemma accounts_ok_token:
  assumes "accounts_ok cfg hist db ms" "et \<in> set (db_email_tokens db)"
  shows "et_kind et = ''verify'' \<Longrightarrow>
      \<forall>u \<in> set (db_users db). u_id u = et_user_id et \<longrightarrow> Mail_verify (u_email u) (et_token et) \<in> set ms"
    "et_kind et = ''approve'' \<Longrightarrow> (\<exists>d. Mail_admin (cf_admin_email cfg) (et_user_id et) (et_token et) d \<in> set ms) \<and>
      (\<forall>u \<in> set (db_users db). u_id u = et_user_id et \<longrightarrow> u_verified_at u \<noteq> None)"
  using assms by (simp_all add: accounts_ok_def)

definition account_inv :: "auth_config \<Rightarrow> auth_log \<Rightarrow> auth_db \<Rightarrow> mail list \<Rightarrow> bool" where
  "account_inv cfg hist db ms \<longleftrightarrow> rows_wf db \<and> tokens_owned db \<and> accounts_ok cfg hist db ms"

lemma register_accounts:
  assumes inv: "account_inv cfg hist db ms"
    and ins: "insert_user now email name org hash db = Some (uid, db')"
    and mailed: "Mail_verify email token \<in> set ms"
  shows "accounts_ok cfg hist (try_email_token now' token uid ''verify'' db') ms"
proof -
  obtain u where u: "uid = db_next_user db" "db_users db' = db_users db @ [u]" "u_id u = db_next_user db" "u_email u = email"
    "u_status u = PENDING_VERIFICATION" "u_verified_at u = None" "db_email_tokens db' = db_email_tokens db"
    using ins by (rule insert_user_Some)
  have ids: "\<forall>et \<in> set (db_email_tokens db). et_user_id et \<noteq> db_next_user db" "\<forall>u \<in> set (db_users db). u_id u \<noteq> db_next_user db"
    using inv by (auto simp: account_inv_def rows_wf_def users_wf_def)
  have "u_status u \<noteq> APPROVED"
    using u(5) by (simp add: PENDING_VERIFICATION_def APPROVED_def)
  then have "accounts_ok cfg hist db' ms"
    using inv u ids by (auto simp: account_inv_def accounts_ok_def)
  then show ?thesis
    using u ids mailed by (intro accounts_ok_try) auto
qed

lemma verify_accounts:
  assumes inv: "account_inv cfg hist db ms"
    and used: "consume_token now ttl token ''verify'' db = Some (uid, db')"
    and logged: "(env, Call_verify token atok dtok, Done 200) \<in> set hist"
    and mailed: "Mail_admin (cf_admin_email cfg) uid atok dtok \<in> set ms"
  shows "accounts_ok cfg hist (try_email_token n1 dtok uid ''deny''
    (try_email_token n2 atok uid ''approve'' (update_user_status n3 uid PENDING_APPROVAL db'))) ms"
proof -
  have wf: "tokens_wf db" "accounts_ok cfg hist db ms"
    using inv by (simp_all add: account_inv_def rows_wf_def)
  obtain et where et: "et \<in> set (db_email_tokens db)" "et_token et = token" "et_kind et = ''verify''" "et_user_id et = uid"
    by (rule consume_token_row [OF used wf(1) [unfolded tokens_wf_def]])
  have users: "db_users db' = db_users db"
    using consume_token_frame [OF used] by simp
  have "\<forall>u \<in> set (db_users db). u_id u = uid \<longrightarrow> Mail_verify (u_email u) token \<in> set ms"
    using accounts_ok_token(1) [OF wf(2) et(1,3)] et(2,4) by simp
  then have "\<forall>u \<in> set (db_users db'). u_id u = uid \<longrightarrow> verified_by hist ms (u_email u)"
    using users logged unfolding verified_by_def by auto
  then have ok: "accounts_ok cfg hist (update_user_status n3 uid PENDING_APPROVAL db') ms"
    using accounts_ok_consume [OF used wf(2)]
    by (intro accounts_ok_status) (auto simp: PENDING_APPROVAL_def APPROVED_def)
  have "\<forall>u \<in> set (db_users (update_user_status n3 uid PENDING_APPROVAL db')). u_id u = uid \<longrightarrow> u_verified_at u \<noteq> None"
    using status_verified by blast
  then show ?thesis
    using ok mailed by (intro accounts_ok_try) auto
qed

lemma approve_accounts:
  assumes inv: "account_inv cfg hist db ms"
    and used: "consume_token now ttl token ''approve'' db = Some (uid, db')"
    and logged: "(env, Call_approve token, Done 200) \<in> set hist"
  shows "accounts_ok cfg hist (update_user_status n uid APPROVED db') ms"
proof -
  have wf: "tokens_wf db" "accounts_ok cfg hist db ms"
    using inv by (simp_all add: account_inv_def rows_wf_def)
  obtain et where et: "et \<in> set (db_email_tokens db)" "et_token et = token" "et_kind et = ''approve''" "et_user_id et = uid"
    by (rule consume_token_row [OF used wf(1) [unfolded tokens_wf_def]])
  obtain d where "Mail_admin (cf_admin_email cfg) uid token d \<in> set ms"
    and verified: "\<forall>u \<in> set (db_users db). u_id u = uid \<longrightarrow> u_verified_at u \<noteq> None"
    using accounts_ok_token(2) [OF wf(2) et(1,3)] et(2,4) by auto
  then have "approved_by cfg hist ms uid"
    using logged unfolding approved_by_def by blast
  then show ?thesis
    using accounts_ok_consume [OF used wf(2)] verified consume_token_frame [OF used]
    by (intro accounts_ok_status) (auto simp: PENDING_APPROVAL_def APPROVED_def)
qed

lemma accounts_ok_same:
  assumes "accounts_ok cfg hist db ms" "db_users db' = db_users db" "set (db_email_tokens db') \<subseteq> set (db_email_tokens db)"
  shows "accounts_ok cfg hist db' ms"
  by (rule accounts_ok_tokens [OF assms(1,2)]) (use assms(3) in blast)

lemma accounts_ok_password:
  assumes "accounts_ok cfg hist db ms"
  shows "accounts_ok cfg hist (update_password uid hash db) ms"
proof -
  have like: "\<exists>u \<in> set (db_users db). u_id u = u_id u' \<and> u_email u = u_email u' \<and> u_status u = u_status u' \<and>
      u_verified_at u = u_verified_at u'"
    if "u' \<in> set (db_users (update_password uid hash db))" for u'
    using that unfolding update_password_def update_user_frame(6) set_map by (elim imageE) (auto split: if_splits)
  show ?thesis
    unfolding accounts_ok_def
  proof (intro conjI ballI)
    fix u' assume "u' \<in> set (db_users (update_password uid hash db))"
    then obtain u where "u \<in> set (db_users db)" "u_id u = u_id u'" "u_email u = u_email u'" "u_status u = u_status u'"
      "u_verified_at u = u_verified_at u'"
      using like by blast
    then show "u_verified_at u' \<noteq> None \<longrightarrow> verified_by hist ms (u_email u')"
      "u_status u' = APPROVED \<longrightarrow> u_verified_at u' \<noteq> None \<and> approved_by cfg hist ms (u_id u')"
      using assms unfolding accounts_ok_def by metis+
  next
    fix et assume "et \<in> set (db_email_tokens (update_password uid hash db))"
    then have et: "et \<in> set (db_email_tokens db)" by (simp add: update_password_def)
    show "et_kind et = ''verify'' \<longrightarrow> (\<forall>u \<in> set (db_users (update_password uid hash db)). u_id u = et_user_id et \<longrightarrow>
        Mail_verify (u_email u) (et_token et) \<in> set ms)"
      using accounts_ok_token(1) [OF assms et] like by metis
    show "et_kind et = ''approve'' \<longrightarrow> (\<exists>d. Mail_admin (cf_admin_email cfg) (et_user_id et) (et_token et) d \<in> set ms) \<and>
        (\<forall>u \<in> set (db_users (update_password uid hash db)). u_id u = et_user_id et \<longrightarrow> u_verified_at u \<noteq> None)"
      using accounts_ok_token(2) [OF assms et] like by metis
  qed
qed

lemma accounts_ok_step:
  assumes "auth_effect A P cfg env call r db ms db' ms'" "account_inv cfg hist db ms"
  shows "accounts_ok cfg (hist @ [(env, call, r)]) db' ms'"
  using assms
proof (induction rule: auth_effect.induct)
  case (eff_register email name org hash db uid db' password salt token ms)
  then have "account_inv cfg (hist @ [(env, Call_register email name org password salt token, Done 201)]) db
      (ms @ [Mail_verify email token])"
    by (auto simp: account_inv_def intro: accounts_ok_mono)
  then show ?case using eff_register(1) by (rule register_accounts) simp
next
  case (eff_verify token db uid db' u atok dtok ms)
  then have "account_inv cfg (hist @ [(env, Call_verify token atok dtok, Done 200)]) db
      (ms @ [Mail_admin (cf_admin_email cfg) uid atok dtok])"
    by (auto simp: account_inv_def intro: accounts_ok_mono)
  then show ?case
    using eff_verify(1) unfolding consume_frames by (rule verify_accounts [where env = env]) simp_all
next
  case (eff_verify_lost token db uid db' atok dtok ms)
  then have "uid \<in> u_id ` set (db_users db')"
    using consumed_owner(1) by (auto simp: consume_frames account_inv_def rows_wf_def)
  then have "uid \<in> u_id ` set (db_users (update_user_status (ce_wall env) uid PENDING_APPROVAL db'))"
    by (simp only: status_ids)
  then obtain u where "u \<in> set (db_users (update_user_status (ce_wall env) uid PENDING_APPROVAL db'))" "u_id u = uid"
    by (elim imageE) simp
  then show ?case
    using eff_verify_lost(2) unfolding get_user_by_id_def find_None_iff by blast
next
  case (eff_approve token db uid db' ms ms')
  then have "account_inv cfg (hist @ [(env, Call_approve token, Done 200)]) db (ms @ ms')"
    by (auto simp: account_inv_def intro: accounts_ok_mono)
  then show ?case
    using eff_approve(1) unfolding consume_frames by (rule approve_accounts [where env = env]) simp
next
  case (eff_deny token db uid db' ms ms')
  then have "accounts_ok cfg (hist @ [(env, Call_deny token, Done 200)]) db' (ms @ ms')"
    by (auto simp: account_inv_def consume_frames intro: accounts_ok_mono accounts_ok_consume)
  then show ?case
    by (rule accounts_ok_status) (simp_all add: DENIED_def PENDING_APPROVAL_def APPROVED_def)
next
  case (eff_forgot db email u token db' ms)
  then have db': "db' = try_email_token (ce_wall env) token (u_id u) ''password_reset'' db"
    by (simp add: try_email_token_def)
  have "accounts_ok cfg (hist @ [(env, Call_forgot email token, Done 200)]) db (ms @ [Mail_reset email token])"
    using eff_forgot(3) by (auto simp: account_inv_def intro: accounts_ok_mono)
  then show ?case
    unfolding db' by (rule accounts_ok_try) simp_all
next
  case (eff_reset token db uid db' salt password hash ms)
  then have "accounts_ok cfg (hist @ [(env, Call_reset token password salt, Done 200)]) db' ms"
    by (auto simp: account_inv_def consume_frames intro: accounts_ok_mono accounts_ok_consume)
  from accounts_ok_password [OF this] show ?case
    by (rule accounts_ok_same) (auto simp: delete_sessions_for_user_def)
next
  case (eff_reset_failed token db uid db' password salt ms)
  then show ?case
    by (auto simp: account_inv_def consume_frames intro: accounts_ok_mono accounts_ok_consume)
next
  case (eff_login db email u password token db' ms)
  then have "accounts_ok cfg (hist @ [(env, Call_login email password token, Logged_in token u)]) db ms"
    by (auto simp: account_inv_def intro: accounts_ok_mono)
  then show ?case
    by (rule accounts_ok_same) (use eff_login(4) in \<open>auto simp: insert_session_def split: if_splits\<close>)
next
  case (eff_generate uid key label db kid db' label' r ms)
  then have "accounts_ok cfg (hist @ [(env, Call_generate label', r)]) db ms"
    by (auto simp: account_inv_def intro: accounts_ok_mono)
  then show ?case
    by (rule accounts_ok_same) (use eff_generate(1) in \<open>auto simp: insert_license_key_def split: if_splits\<close>)
next
  case (eff_logout token db ms)
  then have "accounts_ok cfg (hist @ [(env, Call_logout, Done 200)]) db ms"
    by (auto simp: account_inv_def intro: accounts_ok_mono)
  then show ?case by (rule accounts_ok_same) (simp_all add: delete_session_def)
next
  case (eff_revoke key_id r db ms uid)
  then have "accounts_ok cfg (hist @ [(env, Call_revoke key_id, r)]) db ms"
    by (auto simp: account_inv_def intro: accounts_ok_mono)
  then show ?case by (rule accounts_ok_same) (simp_all add: revoke_license_key_def Let_def)
next
  case (eff_cleanup r db ms)
  then have "accounts_ok cfg (hist @ [(env, Call_cleanup, r)]) db ms"
    by (auto simp: account_inv_def intro: accounts_ok_mono)
  then show ?case
    by (rule accounts_ok_same) (auto simp: cleanup_stale_email_tokens_def cleanup_expired_sessions_def)
qed (auto simp: account_inv_def intro: accounts_ok_mono)

lemma history_accounts:
  "auth_history A P cfg hist sv \<Longrightarrow> account_inv cfg hist (sv_db sv) (sv_mail sv)"
proof (induction rule: history_effect_induct)
  case init
  show ?case
    by (simp add: account_inv_def rows_wf_def tokens_wf_def users_wf_def tokens_owned_def accounts_ok_def db_init_def)
next
  case (step hist db ms env call r db' ms')
  then show ?case
    using tokens_wf_step users_wf_step tokens_owned_step accounts_ok_step by (auto simp: account_inv_def rows_wf_def)
qed

text \<open>C23. Nobody gets in without the two confirmations: an account that is approved had the link mailed to its
  own address followed, and a link mailed to the administrator for that account confirmed, and therefore
  the same holds for every account that logs in.
\<close>

theorem approval_chain:
  assumes "auth_history A P cfg hist sv" and "u \<in> set (db_users (sv_db sv))" and "u_status u = APPROVED"
  shows "verified_by hist (sv_mail sv) (u_email u) \<and> approved_by cfg hist (sv_mail sv) (u_id u)"
  using history_accounts [OF assms(1)] assms(2,3) by (simp add: account_inv_def accounts_ok_def)

section \<open>License keys\<close>

definition keys_ok :: "auth_db \<Rightarrow> bool" where
  "keys_ok db \<longleftrightarrow>
     distinct (map lk_key_value (db_license_keys db)) \<and> distinct (map lk_id (db_license_keys db)) \<and>
     (\<forall>k \<in> set (db_license_keys db). lk_id k < db_next_key db) \<and>
     (\<forall>uid. length (active_keys uid db) \<le> MAX_ACTIVE_KEYS_PER_USER)"

lemma keys_ok_same: "keys_ok db \<Longrightarrow> db_license_keys db' = db_license_keys db \<Longrightarrow> db_next_key db' = db_next_key db \<Longrightarrow> keys_ok db'"
  by (simp add: keys_ok_def active_keys_def)

lemma status_keys [simp]:
  "db_license_keys (update_user_status now uid st db) = db_license_keys db"
  "db_next_key (update_user_status now uid st db) = db_next_key db"
  by (rule status_is_update [of now uid st db], simp)+

text \<open>What becomes of a key: it stays, with its value and owner, and a revoked one stays revoked.\<close>

definition keys_kept :: "auth_db \<Rightarrow> auth_db \<Rightarrow> bool" where
  "keys_kept db db' \<longleftrightarrow>
     (\<forall>k \<in> set (db_license_keys db). \<exists>k' \<in> set (db_license_keys db'). lk_key_value k' = lk_key_value k \<and>
        lk_user_id k' = lk_user_id k \<and> (lk_status k \<noteq> KEY_ACTIVE \<longrightarrow> lk_status k' \<noteq> KEY_ACTIVE))"

lemma keys_kept_same: "db_license_keys db' = db_license_keys db \<Longrightarrow> keys_kept db db'"
  by (auto simp: keys_kept_def)

lemma length_filter_mono:
  "(\<And>x. x \<in> set xs \<Longrightarrow> Q (f x) \<Longrightarrow> R x) \<Longrightarrow> length (filter Q (map f xs)) \<le> length (filter R xs)"
  by (induction xs) (auto intro: le_SucI)

lemma revoke_keys:
  assumes "keys_ok db"
  shows "keys_ok (snd (revoke_license_key now key_id uid db)) \<and> keys_kept db (snd (revoke_license_key now key_id uid db))"
proof -
  let ?hit = "\<lambda>k. lk_id k = key_id \<and> lk_user_id k = uid \<and> lk_status k = KEY_ACTIVE"
  let ?f = "\<lambda>k. if ?hit k then k\<lparr>lk_status := KEY_REVOKED, lk_revoked_at := Some now\<rparr> else k"
  let ?db = "snd (revoke_license_key now key_id uid db)"
  have rows: "db_license_keys ?db = map ?f (db_license_keys db)" "db_next_key ?db = db_next_key db"
    by (simp_all add: revoke_license_key_def Let_def)
  have f: "lk_key_value \<circ> ?f = lk_key_value" "lk_id \<circ> ?f = lk_id" "lk_user_id (?f k) = lk_user_id k"
    "lk_status (?f k) = KEY_ACTIVE \<Longrightarrow> lk_status k = KEY_ACTIVE" for k
    by (auto simp: KEY_ACTIVE_def KEY_REVOKED_def split: if_splits)
  have "length (active_keys u ?db) \<le> length (active_keys u db)" for u
    unfolding active_keys_def rows(1) using f(3,4) by (intro length_filter_mono) auto
  then have "length (active_keys u ?db) \<le> MAX_ACTIVE_KEYS_PER_USER" for u
    using assms by (meson keys_ok_def order_trans)
  moreover have "map lk_key_value (db_license_keys ?db) = map lk_key_value (db_license_keys db)"
    "map lk_id (db_license_keys ?db) = map lk_id (db_license_keys db)"
    unfolding rows(1) map_map by (simp_all only: f(1,2))
  moreover have "\<forall>k \<in> set (db_license_keys ?db). lk_id k < db_next_key db"
    unfolding rows(1) using assms by (auto simp: keys_ok_def split: if_splits)
  ultimately have "keys_ok ?db"
    using assms unfolding keys_ok_def by (simp only: rows(2), blast)
  moreover have "keys_kept db ?db"
    unfolding keys_kept_def rows(1)
  proof
    fix k assume k: "k \<in> set (db_license_keys db)"
    have "lk_key_value (?f k) = lk_key_value k" using fun_cong [OF f(1), of k] by simp
    then show "\<exists>k' \<in> set (map ?f (db_license_keys db)). lk_key_value k' = lk_key_value k \<and>
        lk_user_id k' = lk_user_id k \<and> (lk_status k \<noteq> KEY_ACTIVE \<longrightarrow> lk_status k' \<noteq> KEY_ACTIVE)"
      using k f(3,4) by (intro bexI [of _ "?f k"]) auto
  qed
  ultimately show ?thesis ..
qed

lemma insert_keys:
  assumes "keys_ok db" "insert_license_key now uid key label db = Inr (kid, db')"
  shows "keys_ok db' \<and> keys_kept db db'"
proof -
  obtain k where k: "db_license_keys db' = db_license_keys db @ [k]" "lk_id k = db_next_key db" "lk_key_value k = key"
    "lk_user_id k = uid" "db_next_key db' = Suc (db_next_key db)"
    and room: "length (active_keys uid db) < MAX_ACTIVE_KEYS_PER_USER" "key \<notin> lk_key_value ` set (db_license_keys db)"
    using assms(2) by (auto simp: insert_license_key_def split: if_splits)
  have "length (active_keys u db') \<le> MAX_ACTIVE_KEYS_PER_USER" for u
    using assms(1) room(1) k(1,4) by (cases "u = uid") (auto simp: keys_ok_def active_keys_def)
  then have "keys_ok db'"
    using assms(1) k room(2) unfolding keys_ok_def by fastforce
  then show ?thesis using k(1) by (auto simp: keys_kept_def)
qed

lemma keys_step:
  assumes "auth_effect A P cfg env call r db ms db' ms'" "keys_ok db"
  shows "keys_ok db' \<and> keys_kept db db'"
  using assms
proof (induction rule: auth_effect.induct)
  case (eff_revoke key_id r db ms uid)
  then show ?case by (intro revoke_keys)
next
  case (eff_generate uid key label db kid db' label' r ms)
  then show ?case by (intro insert_keys)
next
  case (eff_register email name org hash db uid db' password salt token ms)
  then have "db_license_keys db' = db_license_keys db" "db_next_key db' = db_next_key db"
    by (auto simp: insert_user_def split: if_splits)
  then show ?case
    using eff_register(2) by (auto intro: keys_ok_same keys_kept_same)
next
  case (eff_login db email u password token db' ms)
  then have "db_license_keys db' = db_license_keys db" "db_next_key db' = db_next_key db"
    by (auto simp: insert_session_def split: if_splits)
  then show ?case using eff_login(5) by (auto intro: keys_ok_same keys_kept_same)
next
  case (eff_forgot db email u token db' ms)
  then have "db_license_keys db' = db_license_keys db" "db_next_key db' = db_next_key db"
    by (auto simp: insert_email_token_def split: if_splits)
  then show ?case using eff_forgot(3) by (auto intro: keys_ok_same keys_kept_same)
qed (auto simp: consume_frames delete_session_def delete_sessions_for_user_def update_password_def
    cleanup_expired_sessions_def cleanup_stale_email_tokens_def dest!: consume_token_frame
    intro: keys_ok_same keys_kept_same)

lemma history_keys_ok:
  "auth_history A P cfg hist sv \<Longrightarrow> keys_ok (sv_db sv)"
proof (induction rule: history_effect_induct)
  case init
  show ?case by (simp add: keys_ok_def active_keys_def db_init_def)
next
  case (step hist db ms env call r db' ms')
  then show ?case using keys_step by blast
qed

text \<open>A history that goes on from another.\<close>

inductive auth_continues :: "auth_crates \<Rightarrow> auth_parsers \<Rightarrow> auth_config \<Rightarrow> auth_service \<Rightarrow> auth_service \<Rightarrow> bool" for A P cfg where
  continues_refl: "auth_continues A P cfg sv sv"
| continues_step: "auth_continues A P cfg sv sv1 \<Longrightarrow> serve A P cfg env call sv1 = (r, sv2) \<Longrightarrow> auth_continues A P cfg sv sv2"

lemma continues_history:
  assumes "auth_continues A P cfg sv sv'" "auth_history A P cfg hist sv"
  shows "\<exists>hist'. auth_history A P cfg hist' sv'"
  using assms by (induction rule: auth_continues.induct) (blast intro: history_step)+

lemma keys_kept_trans: "keys_kept db db1 \<Longrightarrow> keys_kept db1 db2 \<Longrightarrow> keys_kept db db2"
  unfolding keys_kept_def by metis

lemma continues_keys:
  assumes "auth_continues A P cfg sv sv'" "auth_history A P cfg hist sv"
  shows "keys_kept (sv_db sv) (sv_db sv')"
  using assms
proof (induction rule: auth_continues.induct)
  case (continues_step sv sv1 env call r sv2)
  obtain hist' where hist': "auth_history A P cfg hist' sv1"
    using continues_history [OF continues_step(1,4)] by blast
  have "auth_effect A P cfg env call r (sv_db sv1) (sv_mail sv1) (sv_db sv2) (sv_mail sv2)"
    using serve_effect [OF continues_step(2) history_not_poisoned [OF hist']] by blast
  then have "keys_kept (sv_db sv1) (sv_db sv2)"
    using keys_step history_keys_ok [OF hist'] by blast
  then show ?case
    using continues_step.IH [OF continues_step(4)] keys_kept_trans by blast
qed (simp add: keys_kept_same)

text \<open>C24. License keys: a user never has more than five active keys; a key is found valid only while its
  signature opens, it has not expired, and its owner is approved; and a key that is in the table and not
  active is never valid again, however the service goes on.
\<close>

theorem license_keys_sound:
  assumes history: "auth_history A P cfg hist sv" and later: "auth_continues A P cfg sv sv'"
  shows "length (active_keys uid (sv_db sv')) \<le> MAX_ACTIVE_KEYS_PER_USER \<and>
    (fst (validate_key A P cfg env key sv') = Key_valid tier org \<longrightarrow>
       (\<exists>payload. ac_open A key = Some payload \<and> lp_tier payload = tier \<and> ce_wall env \<le> lp_expires_at payload) \<and>
       (\<exists>k \<in> set (db_license_keys (sv_db sv')). lk_key_value k = key \<and> lk_status k = KEY_ACTIVE \<and>
          (\<exists>u \<in> set (db_users (sv_db sv')). u_id u = lk_user_id k \<and> u_status u = APPROVED)) \<and>
       (\<forall>k \<in> set (db_license_keys (sv_db sv)). lk_key_value k = key \<longrightarrow> lk_status k = KEY_ACTIVE))"
proof -
  obtain hist' where "auth_history A P cfg hist' sv'"
    using continues_history [OF later history] by blast
  then have keys: "keys_ok (sv_db sv')" by (rule history_keys_ok)
  have kept: "keys_kept (sv_db sv) (sv_db sv')"
    using continues_keys [OF later history] .
  have valid: "(\<exists>payload. ac_open A key = Some payload \<and> lp_tier payload = tier \<and> ce_wall env \<le> lp_expires_at payload) \<and>
      (\<exists>k \<in> set (db_license_keys (sv_db sv')). lk_key_value k = key \<and> lk_status k = KEY_ACTIVE \<and>
        (\<exists>u \<in> set (db_users (sv_db sv')). u_id u = lk_user_id k \<and> u_status u = APPROVED))"
    if "fst (validate_key A P cfg env key sv') = Key_valid tier org"
    using that
    by (auto simp: validate_key_def validate_license_key_def list_ex_iff split: prod.splits bool.splits if_splits option.splits
        dest!: rate_limited_frame find_SomeD) blast
  have "lk_status k = KEY_ACTIVE"
    if old: "k \<in> set (db_license_keys (sv_db sv))" "lk_key_value k = key"
      and active: "k' \<in> set (db_license_keys (sv_db sv'))" "lk_key_value k' = key" "lk_status k' = KEY_ACTIVE" for k k'
  proof -
    obtain k2 where k2: "k2 \<in> set (db_license_keys (sv_db sv'))" "lk_key_value k2 = key"
      "lk_status k \<noteq> KEY_ACTIVE \<longrightarrow> lk_status k2 \<noteq> KEY_ACTIVE"
      using kept old unfolding keys_kept_def by blast
    then have "k2 = k'"
      using keys active by (auto simp: keys_ok_def distinct_map dest: inj_onD)
    then show ?thesis using k2(3) active(3) by blast
  qed
  then show ?thesis
    using keys valid unfolding keys_ok_def by blast
qed

section \<open>Observations\<close>

text \<open>An address with two at-signs passes for one.\<close>

lemma two_at_signs_valid:
  "ac_whitespace A ''a@b@c.de'' = False \<Longrightarrow> is_valid_email A ''a@b@c.de''"
  by (simp add: is_valid_email_def)

text \<open>
  Behind a proxy that appends to \<open>x-forwarded-for\<close>, the entry the limiter counts is the leftmost, which
  the client wrote.
\<close>

lemma split_on_first:
  "sep \<notin> set s \<Longrightarrow> hd (split_on sep (s @ sep # t)) = s"
proof (induction s)
  case (Cons c s)
  moreover have "split_on sep (s @ sep # t) \<noteq> []"
    by (cases s) (auto split: list.split)
  ultimately show ?case
    by (cases "split_on sep (s @ sep # t)") auto
qed simp

lemma auth_ip_chosen_by_client:
  assumes "cf_trust_proxy cfg" "header_str (ap_to_str P) (ce_request env) ''x-forwarded-for'' = Some (chosen @ CHR '','' # rest)"
    and "CHR '','' \<notin> set chosen" "ap_parse_ip P chosen = Some ip"
  shows "client_ip P cfg env = ip"
  using assms by (simp add: client_ip_def split_on_first)

text \<open>The endpoints share one window per address: three logins use up the budget of the password reset.\<close>

lemma endpoints_share_budget:
  "fst (check_limit limiter_new 4 (V4 2) 3
     (snd (check_limit limiter_new 3 (V4 2) 10 (snd (check_limit limiter_new 2 (V4 2) 10
       (snd (check_limit limiter_new 1 (V4 2) 10 limiter_state_new))))))) = False"
  by (simp add: check_limit_def admit_def limiter_new_def with_config_def limiter_state_new_def ip_window_def
      until_front_expires_def Let_def)

section \<open>A sample history\<close>

definition s_crates :: auth_crates where
  "s_crates =
     \<lparr>ac_hash = (\<lambda>_ pw. Some pw), ac_verify = (\<lambda>pw h. Some (pw = h)), ac_hash_token = (\<lambda>t. t),
      ac_sign = (\<lambda>_. ''k''),
      ac_open = (\<lambda>_. Some \<lparr>lp_org_id = ''o'', lp_tier = ''shadow'', lp_issued_at = 0, lp_expires_at = 100, lp_features = []\<rparr>),
      ac_whitespace = (\<lambda>_. False)\<rparr>"

definition s_parsers :: auth_parsers where
  "s_parsers = \<lparr>ap_parse_ip = (\<lambda>_. None), ap_to_str = ascii_reader\<rparr>"

definition s_config :: auth_config where
  "s_config =
     \<lparr>cf_admin_email = ''admin'', cf_session_ttl_hours = 1, cf_rate_limit_multiplier = 1, cf_trust_proxy = False,
      cf_limiter = \<lparr>rl_max_tracked_ips = 10, rl_global_ceiling = None, rl_window = 5\<rparr>\<rparr>"

definition s_env :: "nat \<Rightarrow> call_env" where
  "s_env t =
     \<lparr>ce_instant = 10 * t, ce_wall = t, ce_peer = V4 2,
      ce_request = \<lparr>rq_method = ''POST'', rq_path = ''/'', rq_query = [],
        rq_headers = [(''authorization'', as_bytes ''Bearer tok'')], rq_body = []\<rparr>\<rparr>"

definition s_state :: "(IpAddr \<times> nat list) list \<Rightarrow> auth_db \<Rightarrow> mail list \<Rightarrow> auth_service" where
  "s_state ips db ms =
     \<lparr>sv_db = db, sv_db_poisoned = False, sv_limiter = \<lparr>ls_ips = ips, ls_global_timestamps = [], ls_poisoned = False\<rparr>,
      sv_mail = ms\<rparr>"

lemma s_rate:
  "rate_limited s_parsers s_config 5 (s_env (Suc 0)) (s_state [] db ms) = (False, s_state [(V4 2, [10])] db ms)"
  "rate_limited s_parsers s_config 5 (s_env 2) (s_state [(V4 2, [10])] db ms) = (False, s_state [(V4 2, [20])] db ms)"
  "rate_limited s_parsers s_config 3 (s_env 3) (s_state [(V4 2, [20])] db ms) = (False, s_state [(V4 2, [30])] db ms)"
  "rate_limited s_parsers s_config 10 (s_env 4) (s_state [(V4 2, [30])] db ms) = (False, s_state [(V4 2, [40])] db ms)"
  by (simp_all add: rate_limited_def check_limit_def admit_def s_config_def s_env_def s_state_def client_ip_def
      ip_window_def Let_def)

definition s_user :: "string \<Rightarrow> nat option \<Rightarrow> nat option \<Rightarrow> User" where
  "s_user status verified approved =
     \<lparr>u_id = 1, u_email = ''a@b.de'', u_name = ''n'', u_org = ''o'', u_password = ''password'', u_status = status,
      u_tier = TIER_SHADOW, u_created_at = 1, u_verified_at = verified, u_approved_at = approved\<rparr>"

definition s_token :: "string \<Rightarrow> string \<Rightarrow> nat \<Rightarrow> bool \<Rightarrow> EmailToken" where
  "s_token token kind created used =
     \<lparr>et_token = token, et_user_id = 1, et_kind = kind, et_created_at = created, et_used = used\<rparr>"

definition s_db :: "User \<Rightarrow> SessionRow list \<Rightarrow> EmailToken list \<Rightarrow> auth_db" where
  "s_db u ss ts =
     \<lparr>db_users = [u], db_next_user = 2, db_sessions = ss, db_email_tokens = ts, db_license_keys = [], db_next_key = 1\<rparr>"

definition s_mail :: "mail list" where
  "s_mail = [Mail_verify ''a@b.de'' ''v'', Mail_admin ''admin'' 1 ''y'' ''n'']"

lemmas s_defs = s_crates_def s_user_def s_token_def s_db_def s_mail_def s_state_def s_env_def
  PENDING_VERIFICATION_def PENDING_APPROVAL_def APPROVED_def DENIED_def

lemma s_registered:
  "serve s_crates s_parsers s_config (s_env 1) (Call_register ''a@b.de'' ''n'' ''o'' ''password'' ''s'' ''v'') service_init =
   (Done 201, s_state [(V4 2, [10])] (s_db (s_user PENDING_VERIFICATION None None) [] [s_token ''v'' ''verify'' 1 False])
      [Mail_verify ''a@b.de'' ''v''])"
proof -
  have start: "service_init = s_state [] db_init []"
    by (simp add: service_init_def s_state_def limiter_state_new_def)
  show ?thesis
    unfolding start
    by (simp add: serve_def register_def s_rate(1), simp add: s_defs is_valid_email_def get_user_by_email_def db_init_def
        insert_user_def try_email_token_def insert_email_token_def put_db_def send_mail_def)
qed

lemma s_verified:
  "serve s_crates s_parsers s_config (s_env 2) (Call_verify ''v'' ''y'' ''n'')
     (s_state [(V4 2, [10])] (s_db (s_user PENDING_VERIFICATION None None) [] [s_token ''v'' ''verify'' 1 False]) [Mail_verify ''a@b.de'' ''v'']) =
   (Done 200, s_state [(V4 2, [20])]
      (s_db (s_user PENDING_APPROVAL (Some 2) None) []
        [s_token ''v'' ''verify'' 1 True, s_token ''y'' ''approve'' 2 False, s_token ''n'' ''deny'' 2 False]) s_mail)"
  by (simp add: serve_def verify_email_def s_rate(2), simp add: s_defs consume_email_token_def consume_token_def
      consumable_def update_user_status_def update_user_def get_user_by_id_def try_email_token_def
      insert_email_token_def put_db_def send_mail_def s_config_def)

lemma s_approve_consumed:
  "consume_email_token 3 ''y'' ''approve'' (s_db u []
        [s_token ''v'' ''verify'' 1 True, s_token ''y'' ''approve'' 2 False, s_token ''n'' ''deny'' 2 False]) =
   Some (1, s_db u [] [s_token ''v'' ''verify'' 1 True, s_token ''y'' ''approve'' 2 True, s_token ''n'' ''deny'' 2 False])"
  by (simp add: consume_email_token_def consume_token_def consumable_def s_db_def s_token_def)

lemma s_status:
  "update_user_status 3 1 APPROVED (s_db (s_user PENDING_APPROVAL (Some 2) None) [] ts) = s_db (s_user APPROVED (Some 2) (Some 3)) [] ts"
  "get_user_by_id (s_db u ss ts) 1 = (if u_id u = 1 then Some u else None)"
  by (simp_all add: update_user_status_def update_user_def get_user_by_id_def s_db_def s_user_def PENDING_APPROVAL_def APPROVED_def)

lemma s_parts:
  "ce_wall (s_env n) = n" "sv_db_poisoned (s_state ips db ms) = False" "sv_db (s_state ips db ms) = db"
  "send_mail m (put_db db' (s_state ips db ms)) = s_state ips db' (ms @ [m])"
  by (simp_all add: s_env_def s_state_def send_mail_def put_db_def)

lemma s_approved:
  "serve s_crates s_parsers s_config (s_env 3) (Call_approve ''y'')
     (s_state [(V4 2, [20])] (s_db (s_user PENDING_APPROVAL (Some 2) None) []
        [s_token ''v'' ''verify'' 1 True, s_token ''y'' ''approve'' 2 False, s_token ''n'' ''deny'' 2 False]) s_mail) =
   (Done 200, s_state [(V4 2, [30])] (s_db (s_user APPROVED (Some 2) (Some 3)) []
        [s_token ''v'' ''verify'' 1 True, s_token ''y'' ''approve'' 2 True, s_token ''n'' ''deny'' 2 False])
      (s_mail @ [Mail_approved ''a@b.de'']))"
  by (simp only: serve_def auth_call.case approve_confirm_def confirm_def s_rate(3) prod.case bool.case s_parts(1-3) if_False
      s_approve_consumed option.case Let_def s_status) (simp add: s_parts s_user_def)

lemma s_logged_in:
  "serve s_crates s_parsers s_config (s_env 4) (Call_login ''a@b.de'' ''password'' ''tok'')
     (s_state [(V4 2, [30])] (s_db (s_user APPROVED (Some 2) (Some 3)) [] ts) ms) =
   (Logged_in ''tok'' (s_user APPROVED (Some 2) (Some 3)),
    s_state [(V4 2, [40])] (s_db (s_user APPROVED (Some 2) (Some 3))
      [\<lparr>sr_token = ''tok'', sr_user_id = 1, sr_created_at = 4, sr_expires_at = 3604\<rparr>] ts) ms)"
  by (simp add: serve_def login_def s_rate(4), simp add: s_defs get_user_by_email_def insert_session_def put_db_def s_config_def)

definition s_log :: auth_log where
  "s_log =
     [(s_env 1, Call_register ''a@b.de'' ''n'' ''o'' ''password'' ''s'' ''v'', Done 201),
      (s_env 2, Call_verify ''v'' ''y'' ''n'', Done 200),
      (s_env 3, Call_approve ''y'', Done 200),
      (s_env 4, Call_login ''a@b.de'' ''password'' ''tok'', Logged_in ''tok'' (s_user APPROVED (Some 2) (Some 3)))]"

definition s_final :: auth_service where
  "s_final = s_state [(V4 2, [40])]
     (s_db (s_user APPROVED (Some 2) (Some 3)) [\<lparr>sr_token = ''tok'', sr_user_id = 1, sr_created_at = 4, sr_expires_at = 3604\<rparr>]
        [s_token ''v'' ''verify'' 1 True, s_token ''y'' ''approve'' 2 True, s_token ''n'' ''deny'' 2 False])
     (s_mail @ [Mail_approved ''a@b.de''])"

lemma s_history: "auth_history s_crates s_parsers s_config s_log s_final"
  using history_step [OF history_step [OF history_step [OF history_step [OF history_start s_registered] s_verified] s_approved] s_logged_in]
  by (simp add: s_log_def s_final_def del: One_nat_def)

text \<open>A valid session generates a key, which the service then finds valid.\<close>

definition s_keyed :: auth_service where
  "s_keyed = put_db ((sv_db s_final)
     \<lparr>db_license_keys := [\<lparr>lk_id = 1, lk_user_id = 1, lk_key_value = ''k'', lk_label = ''default'', lk_status = KEY_ACTIVE,
                           lk_created_at = 5, lk_revoked_at = None\<rparr>], db_next_key := 2\<rparr>) s_final"

lemma s_bearer: "extract_bearer s_parsers (s_env 5) = Some ''tok''"
  by code_simp

lemma s_live: "validate_session 5 (sv_db s_final) ''tok'' = Some 1"
  by (simp add: validate_session_def s_final_def s_parts s_db_def)

lemma s_session: "session_check s_crates s_parsers (s_env 5) s_final = Session_of (s_user APPROVED (Some 2) (Some 3))"
  using s_live
  by (simp add: session_check_def s_bearer s_parts(1) s_crates_def s_final_def s_parts(2,3) s_status(2) s_user_def del: One_nat_def)

lemma s_generated:
  "serve s_crates s_parsers s_config (s_env 5) (Call_generate []) s_final = (New_key 1 ''k'' ''default'' TIER_SHADOW, s_keyed)"
proof -
  have key: "sign_license_key s_crates now org tier features = ''k''" for now org tier features
    by (simp add: sign_license_key_def s_crates_def)
  have inserted: "insert_license_key 5 1 ''k'' ''default'' (sv_db s_final) = Inr (1, sv_db s_keyed)"
    by (simp add: insert_license_key_def active_keys_def MAX_ACTIVE_KEYS_PER_USER_def s_keyed_def put_db_def s_final_def s_parts s_db_def)
  have user: "get_user_by_id (sv_db s_final) 1 = Some (s_user APPROVED (Some 2) (Some 3))"
    by (simp add: s_final_def s_parts s_status(2) s_user_def del: One_nat_def)
  have parts: "ac_hash_token s_crates t = t" "sv_db_poisoned s_final = False" "u_status (s_user st v a) = st" "u_tier (s_user st v a) = TIER_SHADOW" for t st v a
    by (simp_all add: s_crates_def s_final_def s_parts s_user_def)
  have put: "put_db (sv_db s_keyed) s_final = s_keyed"
    by (simp add: s_keyed_def put_db_def)
  show ?thesis
    by (simp add: serve_def generate_key_def with_session_def s_bearer parts s_parts(1) s_live user key inserted put Let_def del: One_nat_def)
qed

lemma s_key_valid: "fst (validate_key s_crates s_parsers s_config (s_env 5) ''k'' s_keyed) = Key_valid ''shadow'' ''o''"
proof -
  have "validate_license_key (sv_db s_keyed) ''k'' = Some 1"
    by (simp add: validate_license_key_def s_keyed_def s_final_def put_db_def s_state_def s_db_def s_user_def)
  moreover have "rate_limited s_parsers s_config 20 (s_env 5) s_keyed = (False, s_state [(V4 2, [50])] (sv_db s_keyed) (sv_mail s_keyed))"
    by (simp add: rate_limited_def check_limit_def admit_def s_config_def s_env_def s_state_def client_ip_def
        ip_window_def Let_def s_keyed_def s_final_def put_db_def)
  ultimately show ?thesis
    by (simp add: validate_key_def s_crates_def s_parts)
qed

section \<open>The theorems on the sample history\<close>


theorem approval_chain_witness:
  "s_user APPROVED (Some 2) (Some 3) \<in> set (db_users (sv_db s_final)) \<and>
   verified_by s_log (sv_mail s_final) ''a@b.de'' \<and> approved_by s_config s_log (sv_mail s_final) 1"
proof -
  let ?u = "s_user APPROVED (Some 2) (Some 3)"
  have parts: "?u \<in> set (db_users (sv_db s_final))" "u_status ?u = APPROVED" "u_email ?u = ''a@b.de''" "u_id ?u = 1"
    by (simp_all add: s_final_def s_parts s_db_def s_user_def)
  show ?thesis
    using approval_chain [OF s_history parts(1,2), unfolded parts(3,4)] parts(1) by blast
qed

theorem license_keys_sound_witness:
  "fst (validate_key s_crates s_parsers s_config (s_env 5) ''k'' s_keyed) = Key_valid ''shadow'' ''o'' \<and>
   length (active_keys 1 (sv_db s_keyed)) \<le> MAX_ACTIVE_KEYS_PER_USER \<and>
   (\<exists>k \<in> set (db_license_keys (sv_db s_keyed)). lk_key_value k = ''k'' \<and> lk_status k = KEY_ACTIVE)"
  using license_keys_sound [OF history_step [OF s_history s_generated] continues_refl, of 1 "s_env 5" "''k''" "''shadow''" "''o''"]
    s_key_valid by blast

end
