(* ===== verification/Spec2Isabelle.thy ===== *)
theory Spec2Isabelle
  imports RG_Ingress RG_U256 RG_Accounting RG_Session RG_Production RG_VerifierStream RG_Auth "HOL-Library.List_Lexorder"
begin

text \<open>
  ReserveGrid OS: a verification library for the services under \<open>src/services\<close>.

  \<^bold>\<open>The program.\<close> ReserveGrid OS stands between a Bitcoin node and a mining pool's miners. The \<^emph>\<open>template
  manager\<close> polls bitcoind for block templates, builds a coinbase and the raw block, and proposes each
  template to the verifier. The \<^emph>\<open>pool verifier\<close> judges a proposal in stages: policy, the Invariant
  Shield (consensus rules re-derived from the raw block), and Class M (transactions unknown to the
  node's mempool, with a second-chance lookup before a rejection stands). The \<^emph>\<open>SV2 gateway\<close> takes the
  manager's templates, proposes them to the verifier as well, holds them until their verdict (or passes
  them on, depending on its mode), turns accepted ones into jobs for miners connected over Stratum V2,
  validates the shares that come back, relays them to the manager, and accounts for every share in an
  event stream backed by a write-ahead log. Around these stand the rate limiters and request guards that
  the HTTP services share, and the authentication service, which runs accounts, sessions and license keys.

  \<^bold>\<open>Conventions.\<close> Rust integers are words of their width and wrap as a release build does; saturating and
  checked operations are written out in \<open>RG_Prelude\<close>. A \<open>struct\<close> is a record, an \<open>enum\<close> a datatype,
  \<open>Result\<close> a sum with the error on the left, a \<open>str\<close> the list of its UTF-8 bytes. \<open>f64\<close> is IEEE 754
  binary64 over the rationals (\<open>RG_Float64\<close>). A lock is one atomic step of the operation that takes it,
  and its poisoning a flag of the state; a task with a \<open>select\<close> loop is a function of one turn and an
  input that says which arm won, and a run is any sequence of turns. A panic is a value (\<open>None\<close> or a
  constructor of its own), never an unspecified result.

  \<^bold>\<open>The template path.\<close>
  \<^item> \<open>RG_Protocol\<close>, \<open>RG_Reasons\<close>: messages and the three sets of reason codes (\<open>rg-protocol\<close>,
    \<open>reservegrid-common/src/reason.rs\<close>). The locale \<open>reason_codes\<close> has each set's codes distinct and read
    back; \<open>reason_embedding\<close> has the two smaller sets embedded in the unified one.
  \<^item> \<open>RG_Consensus\<close>: the consensus facade (\<open>rg-consensus/src/lib.rs\<close>), every re-derivation and check;
    BIP 34 heights are read exactly.
  \<^item> \<open>RG_Mempool\<close>, \<open>RG_BitcoindRpc\<close>, \<open>RG_SecondChance\<close>: the mempool view and Class M, the RPC client, and
    the lookup at rejection time (\<open>pool-verifier/src/mempool_view.rs\<close>, \<open>bitcoind_rpc.rs\<close>,
    \<open>second_chance.rs\<close>): the check rejects exactly from a usable view, a batch is attributed by identifier
    alone, a block walk ends within its six blocks with exactly what was mined, and a rejection is upheld
    only on evidence.
  \<^item> \<open>RG_Policy\<close>: the evaluation of a proposal (\<open>pool-verifier/src/policy.rs\<close>), characterised branch by
    branch below.
  \<^item> \<open>RG_Connections\<close>, \<open>RG_Ingress\<close>: connection accounting and the idle deadline
    (\<open>reservegrid-common/src/per_ip.rs\<close>, \<open>pool-verifier/src/idle_stream.rs\<close>), the handling of a line and
    the verdict log (\<open>ingress.rs\<close>, \<open>verdicts.rs\<close>), which is the newest part of the persisted history and
    is restored by a restart.
  \<^item> \<open>RG_TemplateManager\<close>: coinbase, merkle branch, raw block, the polling loop and the configuration
    (\<open>template-manager/src/main.rs\<close>, \<open>config.rs\<close>). \<open>RG_Production\<close> composes it with the verifier and the
    gateway: what an honest node offers is agreed to by the shield, and the root a miner's share is checked
    against is the root of the block with the miner's coinbase.

  \<^bold>\<open>The gateway\<close> (\<open>sv2-gateway/src\<close>).
  \<^item> \<open>RG_Gateway\<close>, \<open>RG_Gating\<close>: the event loop of \<open>main.rs\<close> with every arm of its \<open>select\<close>, and what it
    guarantees over whole runs: which jobs reach miners, when the mode changes, that no template is lost,
    and that miners stay on the tip. \<open>RG_VerifierStream\<close>: the connection to the verifier and the readiness
    probes (\<open>verifier_stream.rs\<close>, \<open>health.rs\<close>). \<open>RG_GatewayConfig\<close>: \<open>config.rs\<close>.
  \<^item> \<open>RG_U256\<close>, \<open>RG_Shares\<close>: 256-bit targets and share validation (\<open>shares.rs\<close>). The locale
    \<open>quotient_bits\<close> has both long divisions return the quotient; \<open>replay_window\<close> has replay detection
    exact over a bounded window.
  \<^item> \<open>RG_Allocators\<close>, \<open>RG_Jobs\<close>, \<open>RG_Channels\<close>: the identifier allocators under interleaved threads (locale
    \<open>id_allocator\<close>), the job table and the template dedup cache (\<open>jobs.rs\<close>), channels, their token bucket
    and vardiff (\<open>channels.rs\<close>).
  \<^item> \<open>RG_Codec\<close>, \<open>RG_Handler\<close>, \<open>RG_Session\<close>: the message codec (\<open>sv2_codec.rs\<close>; locale \<open>wire_field\<close>), the
    connection handler (\<open>handler.rs\<close>) and its guarantees over a connection.
  \<^item> \<open>RG_Wal\<close>, \<open>RG_Upstream\<close>, \<open>RG_Accounting\<close>: the write-ahead log byte by byte (\<open>wal.rs\<close>), the poller and
    the relay (\<open>upstream.rs\<close>), and the accounting stream with its recovery (\<open>accounting.rs\<close> and the start
    of \<open>main.rs\<close>). \<open>RG_ShareIngest\<close> is the endpoint of the manager that takes the relayed shares.

  \<^bold>\<open>Services around them.\<close>
  \<^item> \<open>RG_RateLimit\<close>, \<open>RG_ClientLimit\<close>: the sliding-window limiter (\<open>reservegrid-common/src/rate_limit.rs\<close>), the
    three write throttles, and the request limits of dashboard and feed adapter with the client address
    behind proxies. The locale \<open>sliding_window\<close> is interpreted on the three ways the code prunes a window.
  \<^item> \<open>RG_HttpGuard\<close>: bearer and HMAC authentication, the replay cache and the bounds on a request
    (\<open>reservegrid-gateway\<close>).
  \<^item> \<open>RG_Auth\<close>: tables, handlers and clean-up of the authentication service (\<open>rg-auth\<close>). Every call has one
    of the effects of \<open>auth_effect\<close>, over which the invariants are proved by rule induction.

  \<^bold>\<open>What this theory adds\<close> are the properties that span components: the shield and the verdict against
  their specifications, from verdict to job, from accepted share to
  settled line, and the verdict log against its history. Some theorems state what goes wrong:
  a torn log compacted badly at a start can lose an event, a share message that does not decode panics the
  handler, a channel opened late never hears the tip, and a template fits one kind of channel only.

  \<^bold>\<open>Bounds.\<close> Every function is total, and no fuel is used: a loop is structural recursion or has a measure.
  The bounds are the program's own: three attempts to forward a share, six blocks of a walk, the caps of
  logs, queues and caches, the line budget of a stream.

  \<^bold>\<open>Assumptions.\<close> Parameters, with the documented behaviour as hypotheses where a theorem needs it: the
  \<open>bitcoin\<close>, \<open>hex\<close>, \<open>serde_json\<close>, \<open>toml\<close>, \<open>sha2\<close>, \<open>hmac\<close>, \<open>argon2\<close> and \<open>ed25519\<close> crates, the address
  parsers, and the hasher behind the template identifier. A turn reads each clock once. A rename is atomic,
  and an append may be torn. The iteration order of a hash map is an input where it matters. A statement
  of the database fails only on a uniqueness constraint.

  \<^bold>\<open>Not modelled.\<close>
  \<^item> The Noise transport and TLS (\<open>transport.rs\<close>): cryptography of third-party crates over sockets.
  \<^item> Sockets, HTTP routing, settings pages and metrics (\<open>http.rs\<close>, \<open>dashboard.rs\<close>, \<open>metrics.rs\<close>, the
    remainder of each \<open>main.rs\<close>): wiring and text with no state beyond what the theories have.
  \<^item> The token bucket of \<open>reservegrid-gateway\<close>, the floating-point twin of the limiters above, and its
    security headers.
  \<^item> Shared configuration types and the rewriting of configuration files, which only carry values.
  \<^item> Dashboards, the desktop application, feeds, the load generator, the test miner and the bridge: user
    interfaces, demonstration data and test tools.
\<close>

section \<open>The Invariant Shield\<close>

text \<open>C1. The shield agrees to a template exactly when its raw block decodes to a block that
  satisfies every standalone consensus rule and matches every declared field: no check is
  skipped, none rejects a block that meets the rules.\<close>

theorem shield_agreed_iff:
  "check_invariant_shield X B t = SO_Agreed \<longleftrightarrow>
    (\<exists>hex raw block. tp_raw_block_hex t = Some hex \<and> hex_decode X hex = Ok raw \<and>
       deserialize_block B raw = Some block \<and> consensus_valid B block \<and> declarations_match B t block)"
proof -
  have "check_invariant_shield X B t = SO_Agreed \<longleftrightarrow>
      (\<exists>p. check_invariant_shield_inner X B t None = (SO_Agreed, p))"
    by (auto simp: check_invariant_shield_def prod_eq_iff)
  then show ?thesis by (auto simp: shield_inner_Agreed shield_phase1_Ok)
qed

text \<open>C2. The verdict on a proposal is acceptance exactly when the policy holds and, if the
  template carries its raw block, the block passes the shield and Class M either did not
  reject it or had its rejection withdrawn by bitcoind.\<close>

theorem verdict_accepted_iff:
  "er_reason (fst (evaluate_propose X B su cfg p)) = None \<longleftrightarrow>
    policy_ok p cfg (fst (effective_min_avg_fee_dynamic cfg (mempool_tx_count su))) (su_now_ms su) \<and>
    (case tp_raw_block_hex p of
       None \<Rightarrow> True
     | Some hex \<Rightarrow>
         \<exists>raw block. hex_decode X hex = Ok raw \<and> deserialize_block B raw = Some block \<and>
           consensus_valid B block \<and> declarations_match B p block \<and> class_m_clears X B su cfg p block)"
  using accepted_iff [of cfg su _ _ X B p]
  by (cases "effective_min_avg_fee_dynamic cfg (mempool_tx_count su)")
    (auto simp: shield_phase1_Ok split: option.splits)

text \<open>Class M is strictly additive: with a mempool snapshot the shield's outcome is what it is
  without one, except that a template it agreed to may be rejected for the one Class M
  reason, with the unknown transactions attached.\<close>

theorem class_m_additive:
  "fst (check_invariant_shield_inner X B t mempool) = check_invariant_shield X B t \<or>
   check_invariant_shield X B t = SO_Agreed \<and>
   (\<exists>d u n. check_invariant_shield_inner X B t mempool =
      (SO_Rejected V2InvariantMempoolToleranceExceeded d, P2_Rejected u n))"
  using shield_mempool_additive [of X B t mempool]
  by (cases "check_invariant_shield_inner X B t mempool") auto

section \<open>The second chance\<close>

text \<open>C12. A Class M rejection is upheld only on evidence: when bitcoind's answer leaves it standing,
  there is a set of transactions, enough of the template on their own to exceed the
  tolerance, each of which bitcoind denied in its mempool by an attributable reply and none of
  which is in a block at or above the template's height on the tip's chain. \<open>sch_hash_order\<close>
  lists the elements of a hash set, and heights descend by one along the chain.\<close>

theorem upheld_only_on_evidence:
  assumes "run_second_chance X (Some l) (P2_Rejected unknown tot) th tol = Some (Upheld adj)"
    and "heights_descend X (sch_client l)"
    and "\<And>S. finite S \<Longrightarrow> set (sch_hash_order l S) = S"
  shows "\<exists>A. exceeds_tolerance (clamp_nat (length (filter (\<lambda>t. t \<in> A) unknown))) tot tol \<and>
    (\<forall>t \<in> A. bitcoind_denies X (sch_client l) t \<and>
       (\<exists>tip. get_best_block_hash (sch_client l) = Ok tip \<and>
          t \<notin> mined_at_or_above X (sch_client l) th tip))"
  by (rule upheld_evidence [OF assms])

definition ex_lookup :: SecondChance where
  "ex_lookup = \<lparr>sch_client = ex_node, sch_hash_order = sorted_list_of_set, sch_timed_out = False\<rparr>"

lemma ex_node_probe: "probe_mempool X ex_node [t] = Ok [Probe_Absent]"
  by (simp add: probe_mempool_def call_batch_def probe_params_def ex_node_def resolve_batch_def
      item_of_response_def MEMPOOL_MISSING_ENTRY_CODE_def)

lemma ex_node_info: "get_mempool_info ex_node = Ok \<lparr>mi_size = 5, mi_loaded = True\<rparr>"
  by (simp add: get_mempool_info_def call_def ex_node_def)

lemma ex_lookup_upheld:
  "\<exists>adj. run_second_chance lower_hex (Some ex_lookup) (P2_Rejected [[3]] 1) 9 (F64 4) = Some (Upheld adj)"
proof -
  have "chunks MEMPOOL_PROBE_CHUNK [[3 :: u8]] = [[[3]]]"
    using chunks.simps [of 250 "[[3 :: u8]]"] chunks.simps [of 250 "[] :: hash32 list"]
    by (simp add: MEMPOOL_PROBE_CHUNK_def)
  then have "gather lower_hex ex_node sorted_list_of_set 9 [[3]] =
      Ok \<lparr>ans_present_in_mempool = {}, ans_unadjudicated = {}, ans_recent_block_txids = {},
          ans_blocks_scanned = 1, ans_block_walk_truncated = False, ans_tip_height = Some 9,
          ans_block_walk_shortfall = None\<rparr>"
    by (simp add: gather_def ex_node_walk ex_node_probe ex_node_info MIN_INSTALLABLE_MEMPOOL_SIZE_def)
  moreover have "sat_add 0 1 = (1 :: u32)" "sat_add 1 0 = (1 :: u32)"
    by (simp_all add: word_unat_eq_iff unat_sat_add)
  ultimately show ?thesis
    using exceeds_one_of_one [of 4]
    by (simp add: run_second_chance_def ask_def ex_lookup_def still_exceeds_def not_proven_known_def
        classify_def Let_def adjudicate_def adj_counts_zero_def)
qed

theorem upheld_only_on_evidence_witness:
  "\<exists>t. bitcoind_denies lower_hex ex_node t"
proof -
  obtain adj where "run_second_chance lower_hex (Some ex_lookup) (P2_Rejected [[3]] 1) 9 (F64 4) = Some (Upheld adj)"
    using ex_lookup_upheld by blast
  from upheld_only_on_evidence [OF this] obtain A where
    ex: "exceeds_tolerance (clamp_nat (length (filter (\<lambda>t. t \<in> A) [[3]]))) 1 (F64 4)"
    and A: "\<forall>t \<in> A. bitcoind_denies lower_hex ex_node t"
    by (auto simp: ex_lookup_def ex_node_descends)
  have "[3] \<in> A"
  proof (rule ccontr)
    assume "[3] \<notin> A"
    then show False using ex exceeds_tolerance_zero [of 4 1] by (simp add: clamp_nat_def)
  qed
  then show ?thesis using A by blast
qed

text \<open>The second chance changes a verdict in one way only: it clears the Class M reason, and
  only when it withdrew the rejection. Every other verdict is the policy evaluation's.\<close>

theorem second_chance_only_clears:
  "er_reason (fst (evaluate_propose X B su cfg p)) =
     er_reason (evaluate_dynamic_inner X B p cfg
       (map_option (\<lambda>v. snapshot v (su_now_ms su)) (su_view su)) (mempool_tx_count su) (su_now_ms su)) \<or>
   er_reason (fst (evaluate_propose X B su cfg p)) = None \<and>
   er_reason (evaluate_dynamic_inner X B p cfg
       (map_option (\<lambda>v. snapshot v (su_now_ms su)) (su_view su)) (mempool_tx_count su) (su_now_ms su))
     = Some V2InvariantMempoolToleranceExceeded \<and>
   (\<exists>adj. snd (evaluate_propose X B su cfg p) = Some (Withdrawn adj))"
proof -
  let ?ev = "evaluate_dynamic_inner X B p cfg
       (map_option (\<lambda>v. snapshot v (su_now_ms su)) (su_view su)) (mempool_tx_count su) (su_now_ms su)"
  let ?sc = "run_second_chance X (su_second_chance su) (er_phase2 ?ev) (tp_block_height p)
         (pm_tolerance_pct (cfg_mempool cfg))"
  have eq: "evaluate_propose X B su cfg p = (apply_second_chance ?ev ?sc, ?sc)"
    by (simp add: evaluate_propose_eq Let_def)
  show ?thesis
  proof (cases "\<exists>adj. ?sc = Some (Withdrawn adj)")
    case True
    then obtain u n where "er_phase2 ?ev = P2_Rejected u n"
      using run_second_chance_rejected by blast
    from evaluate_phase2_rejected [OF this] True show ?thesis
      by (auto simp: eq apply_second_chance_def)
  next
    case False
    then have "apply_second_chance ?ev ?sc = ?ev"
      by (auto simp: apply_second_chance_def split: option.splits SecondChanceOutcome.splits)
    then show ?thesis by (simp add: eq)
  qed
qed

section \<open>The verdict log\<close>


definition ex_serde :: serde where
  "ex_serde = \<lparr>from_str_internal = (\<lambda>_. None), from_value_propose = (\<lambda>_. None),
     from_str_propose = (\<lambda>_. Some ex_propose)\<rparr>"

definition ex_surroundings :: surroundings where
  "ex_surroundings = \<lparr>su_mempool_url = False, su_fetched_tx_count = None, su_policy = None,
     su_view = None, su_second_chance = None, su_max_log = 2, su_now_secs = 100, su_now_ms = 100000,
     su_instant = 0\<rparr>"

definition ex_metrics :: Metrics where
  "ex_metrics = \<lparr>mt_templates_evaluated = 0, mt_verdicts = (\<lambda>_ _. 0), mt_shield_skipped = 0,
     mt_phase2_degraded = 0, mt_phase2_checks = (\<lambda>_. 0), mt_phase2_second_chance = (\<lambda>_. 0),
     mt_view_age = 0, mt_view_size = 0, mt_empty_responses = 0\<rparr>"

definition ex_after :: verifier where
  "ex_after = snd (snd (handle_line lower_hex ex_api ex_serde ex_surroundings ''x''
     (\<lparr>cn_uses_envelope = None, cn_cadence = cadence_new 60000 0\<rparr>, verifier_start 2 [] ex_metrics)))"

lemma ex_after_run: "ingress_run lower_hex ex_api ex_serde 2 (verifier_start 2 [] ex_metrics) ex_after"
proof (rule ingress_run.line [OF ingress_run.started])
  show "su_max_log ex_surroundings = 2" by (simp add: ex_surroundings_def)
  show "handle_line lower_hex ex_api ex_serde ex_surroundings ''x''
     (\<lparr>cn_uses_envelope = None, cn_cadence = cadence_new 60000 0\<rparr>, verifier_start 2 [] ex_metrics) =
     (fst (handle_line lower_hex ex_api ex_serde ex_surroundings ''x''
       (\<lparr>cn_uses_envelope = None, cn_cadence = cadence_new 60000 0\<rparr>, verifier_start 2 [] ex_metrics)),
      fst (snd (handle_line lower_hex ex_api ex_serde ex_surroundings ''x''
       (\<lparr>cn_uses_envelope = None, cn_cadence = cadence_new 60000 0\<rparr>, verifier_start 2 [] ex_metrics))), ex_after)"
    by (simp add: ex_after_def)
qed

lemma ex_after_disk: "length (vs_disk ex_after) = 1"
  by (simp add: ex_after_def handle_line_def ex_serde_def ex_surroundings_def process_propose_def
      record_verdict_def note_mempool_ok_def verifier_start_def load_verdict_log_def Let_def split_beta)




section \<open>The journey of a share\<close>

text \<open>C15. The two halves of the accounting join. When the gateway accepts a share, the submission it
  queues and the event it queues carry the same identifiers through the relay, whatever the pool
  answers on the attempts: the result that comes back settles the share in the write-ahead log,
  from whatever state the log is in, and its line in the stream answers the share's accepted line.
  Only an event that found its queue full has no line, and that is counted.\<close>

theorem accepted_share_settles:
  assumes "frame_accepted E header payload st" and "handle_miner_frame E header payload st = (r, st')"
  shows "\<exists>sub. hs_forward_queue st' = hs_forward_queue st @ [sub] \<and>
    ((\<exists>evt. hs_event_queue st' = hs_event_queue st @ [evt] \<and> is_accepted evt \<and>
       (\<forall>answers retries L be rx w content ls results rx' recorded w' content' ls'.
          record_forwarded L be rx (snd (forward_share_with_retries sub answers retries)) (Some (w, content)) ls =
            (results, rx', recorded, Some (w', content'), ls') \<longrightarrow>
          accepted_key evt \<notin> pending_keys w' \<and> (\<exists>f. Line2 f \<in> set ls' \<and> forward_key f = accepted_key evt))) \<or>
     hs_event_queue st' = hs_event_queue st \<and> hs_events_dropped st' = hs_events_dropped st + 1)"
proof -
  have "one_accepted E st st'" using frame_outcome_cases [of E header payload st] assms by simp
  then obtain sub where sub: "hs_forward_queue st' = hs_forward_queue st @ [sub]" and
    "(\<exists>evt. hs_event_queue st' = hs_event_queue st @ [evt] \<and> is_accepted evt \<and>
        accepted_key evt = (ss_share_id_hex sub, ss_event_id_hex sub)) \<or>
      hs_event_queue st' = hs_event_queue st \<and> hs_events_dropped st' = hs_events_dropped st + 1"
    by (auto simp: one_accepted_def is_accepted_def accepted_key_def)
  moreover have "result_key (snd (forward_share_with_retries sub answers retries)) = (ss_share_id_hex sub, ss_event_id_hex sub)"
    for answers retries
    using forward_loop_keys [of sub answers 0 "Suc (unat retries)" None]
    by (simp add: forward_share_with_retries_def result_key_def)
  ultimately show ?thesis
    using record_forwarded_settles by (metis (no_types, lifting))
qed

theorem accepted_share_settles_witness:
  "\<exists>sub. hs_forward_queue (snd (handle_miner_frame mining_env (sample_header 0x1a) sample_submission mining_state)) = [sub]"
  using accepted_share_settles [OF sample_accepted prod.collapse [symmetric]]
  by (auto simp: mining_state_def sample_state_def)

section \<open>From the verifier to the miners\<close>

text \<open>The accepting verdicts among the turns are replies of the verifier to proposals of the gateway.\<close>

definition verdicts_from_verifier ::
  "hex_crate \<Rightarrow> bitcoin_api \<Rightarrow> (gateway_clock \<times> gateway_input) list \<Rightarrow> TemplatePropose list \<Rightarrow> bool" where
  "verdicts_from_verifier X B tr proposed \<longleftrightarrow>
     (\<forall>(c, i) \<in> set tr. \<forall>v. i = Verdict_received v \<and> tv_accepted v \<longrightarrow>
        (\<exists>p \<in> set proposed. \<exists>su env vs b. fst (process_propose X B su env p vs) = Reply_Verdict b v))"

definition ids_identify :: "(gateway_clock \<times> gateway_input) list \<Rightarrow> bool" where
  "ids_identify tr \<longleftrightarrow>
     (\<forall>(c, i) \<in> set tr. \<forall>(d, j) \<in> set tr. \<forall>t u. i = Template_received (Some t) \<and> j = Template_received (Some u) \<and>
        tr_template_id t = tr_template_id u \<longrightarrow> t = u)"

lemma process_propose_accepts:
  assumes "fst (process_propose X B su env p vs) = Reply_Verdict b v" and "tv_accepted v"
  shows "tv_id v = tp_id p \<and> (\<exists>cfg. su_policy su = Some cfg \<and> er_reason (fst (evaluate_propose X B su cfg p)) = None)"
  using assms
  by (auto simp: process_propose_def poisoned_verdict_def template_verdict_def split_beta Let_def split: option.splits)

text \<open>C3. The whole path, from the policy to the miners. While verdicts are enforced, every job a turn
  broadcasts comes from a template that the verifier evaluated and accepted: its proposal meets the
  policy in force, and when it carries its raw block, that block decodes to one that satisfies every
  standalone consensus rule, matches every declared field and is cleared by the mempool check. The
  verdicts come from the verifier, and within the run an identifier names one template.\<close>

theorem enforced_jobs_valid:
  assumes "gateway_run E t0 (gateway_init E t0 w ls) tr st" and "gateway_step E c i st = (r, st')"
    and "enforces_verdicts (gc_mode (ge_config E))" and "\<not> gw_degraded st'"
    and "(t, jb) \<in> set (drop (length (gw_broadcasts st)) (gw_broadcasts st'))"
    and "verdicts_from_verifier X B [(c, i)] (gw_proposed st)" and "ids_identify tr"
    and "p = build_template_propose t (gs_gateway_instance_id (gc_gateway (ge_config E)))"
  shows "\<exists>su cfg. policy_ok p cfg (fst (effective_min_avg_fee_dynamic cfg (mempool_tx_count su))) (su_now_ms su) \<and>
    (case tr_raw_block_hex t of
       None \<Rightarrow> True
     | Some hex \<Rightarrow>
         \<exists>raw block. hex_decode X hex = Ok raw \<and> deserialize_block B raw = Some block \<and>
           consensus_valid B block \<and> declarations_match B p block \<and> class_m_clears X B su cfg p block)"
proof -
  let ?gid = "gs_gateway_instance_id (gc_gateway (ge_config E))"
  obtain v c' tr1 tr2 where v: "i = Verdict_received v" "tv_accepted v" "tv_id v = tr_template_id t"
    and "tr = tr1 @ (c', Template_received (Some t)) # tr2"
    using enforced_job [OF assms(1-5)] by blast
  then have t: "(c', Template_received (Some t)) \<in> set tr" by simp
  obtain q su env vs b where q: "q \<in> set (gw_proposed st)" "fst (process_propose X B su env q vs) = Reply_Verdict b v"
    using assms(6) v by (auto simp: verdicts_from_verifier_def)
  obtain c'' u where u: "(c'', Template_received (Some u)) \<in> set tr" "q = build_template_propose u ?gid"
    using run_proposed [OF assms(1) q(1)] by blast
  obtain cfg where "tv_id v = tp_id q" "er_reason (fst (evaluate_propose X B su cfg q)) = None"
    using process_propose_accepts [OF q(2) v(2)] by blast
  then have "tr_template_id u = tr_template_id t" and acc: "er_reason (fst (evaluate_propose X B su cfg q)) = None"
    using v(3) u(2) by (simp_all add: build_template_propose_def)
  then have "u = t" using assms(7) t u(1) unfolding ids_identify_def by blast
  then have p: "q = p" and raw: "tp_raw_block_hex p = tr_raw_block_hex t"
    using u(2) assms(8) by (simp_all add: build_template_propose_def)
  obtain m tier where m: "effective_min_avg_fee_dynamic cfg (mempool_tx_count su) = (m, tier)" by fastforce
  show ?thesis using acc accepted_iff [OF m, of X B p]
    by (intro exI [of _ su] exI [of _ cfg]) (auto simp: p raw m shield_phase1_Ok split: option.splits)
qed

section \<open>Channels that open late\<close>

definition no_prevhash :: "handler_state \<Rightarrow> handler_state \<Rightarrow> bool" where
  "no_prevhash st st' \<longleftrightarrow>
     (\<exists>new. hs_frames st' = hs_frames st @ new \<and> (\<forall>(x, ty, payload) \<in> set new. ty \<noteq> MESSAGE_TYPE_MINING_SET_NEW_PREV_HASH))"

lemma no_prevhash_refl: "hs_frames st' = hs_frames st \<Longrightarrow> no_prevhash st st'"
  by (simp add: no_prevhash_def)

lemma no_prevhash_trans: "no_prevhash a b \<Longrightarrow> no_prevhash b c \<Longrightarrow> no_prevhash a c"
  by (auto simp: no_prevhash_def)

lemma no_prevhash_send:
  "ty \<noteq> MESSAGE_TYPE_MINING_SET_NEW_PREV_HASH \<Longrightarrow> no_prevhash st (snd (send E x ty enc st))"
  by (auto simp: send_def write_frame_def no_prevhash_def split: sum.split)

lemma no_prevhash_and_next:
  assumes "\<And>s. no_prevhash s (snd (m s))" and "\<And>x s. no_prevhash s (snd (k x s))"
  shows "no_prevhash st (snd (and_next m k st))"
proof -
  obtain r s where m: "m st = (r, s)" by fastforce
  then have "no_prevhash st s" using assms(1) [of st] by simp
  then show ?thesis using assms(2) no_prevhash_trans by (cases r) (auto simp: and_next_def m)
qed

lemma no_prevhash_announce:
  assumes "\<And>s. no_prevhash s (snd (send_success s))" and "\<And>job s. no_prevhash s (snd (send_new_job job s))"
    and "he_latest_job E = Some job" and "jb_prevhash_update job = None"
  shows "no_prevhash st (snd (announce_channel E channel_id send_success send_new_job st))"
proof -
  have target: "no_prevhash s (snd (send_target E channel_id target s))" for s target
    by (simp add: send_target_def no_prevhash_send message_types)
  have prev: "no_prevhash s (snd (send_prevhash E channel_id job s))" for s
    by (simp add: send_prevhash_def assms(4) no_prevhash_refl)
  have active: "no_prevhash s (snd (active_job_sent channel_id job s))" for s
    by (simp add: active_job_sent_def no_prevhash_refl)
  have "no_prevhash s (snd (send_job E channel_id (send_new_job job) job s))" for s
    unfolding send_job_def by (intro no_prevhash_and_next assms(2) prev active)
  then show ?thesis unfolding announce_channel_def assms(3) option.case
    by (intro no_prevhash_and_next assms(1) target)
qed

lemma no_prevhash_open_error: "no_prevhash st (open_error E request_id code st)"
  by (simp add: open_error_def send_best_effort_def no_prevhash_send message_types)

lemma no_prevhash_before:
  "no_prevhash (register_channel E channel_id worker (init_vardiff E channel_id st)) st' \<Longrightarrow> no_prevhash st st'"
  by (simp add: no_prevhash_def register_channel_def init_vardiff_def Let_def split: if_splits)

lemma open_without_prevhash:
  assumes "he_latest_job E = Some job" and "jb_prevhash_update job = None"
  shows "no_prevhash st (snd (handle_open_standard_channel E payload st))"
    and "no_prevhash st (snd (handle_open_extended_channel E payload st))"
proof -
  have sends: "\<And>s x enc. no_prevhash s (snd (send E x MESSAGE_TYPE_OPEN_STANDARD_MINING_CHANNEL_SUCCESS enc s))"
    "\<And>s x enc. no_prevhash s (snd (send E x MESSAGE_TYPE_OPEN_EXTENDED_MINING_CHANNEL_SUCCESS enc s))"
    "\<And>s x enc. no_prevhash s (snd (send E x MESSAGE_TYPE_NEW_MINING_JOB enc s))"
    "\<And>s x enc. no_prevhash s (snd (send E x MESSAGE_TYPE_NEW_EXTENDED_MINING_JOB enc s))"
    by (simp_all add: no_prevhash_send message_types)
  have alloc: "no_prevhash (s\<lparr>hs_channel_ids := a\<rparr>) s' \<Longrightarrow> no_prevhash s s'"
    "no_prevhash (s\<lparr>hs_channel_ids := a, hs_extranonces := b\<rparr>) s' \<Longrightarrow> no_prevhash s s'"
    "no_prevhash (s\<lparr>hs_channel_ids := a, hs_extranonces := b, hs_channels := d\<rparr>) s' \<Longrightarrow> no_prevhash s s'" for s s' a b d
    by (simp_all add: no_prevhash_def)
  have announce: "no_prevhash s (snd (announce_channel E channel_id f g s'))"
    if "\<And>s. no_prevhash s (snd (f s))" "\<And>job s. no_prevhash s (snd (g job s))" "\<And>t. no_prevhash s' t \<Longrightarrow> no_prevhash s t"
    for channel_id f g s s'
    using that no_prevhash_announce [OF _ _ assms] by blast
  show "no_prevhash st (snd (handle_open_standard_channel E payload st))"
    by (auto simp: handle_open_standard_channel_def Let_def split_beta split: sum.split option.split
        intro: no_prevhash_open_error alloc intro!: announce sends dest!: no_prevhash_before alloc)
  show "no_prevhash st (snd (handle_open_extended_channel E payload st))"
    by (auto simp: handle_open_extended_channel_def Let_def split_beta split: sum.split option.split
        intro: no_prevhash_open_error alloc intro!: announce sends dest!: no_prevhash_before alloc)
qed



definition accepting_surroundings :: surroundings where
  "accepting_surroundings = ex_surroundings\<lparr>su_policy := Some ex_policy\<rparr>"

definition sample_proposal :: TemplatePropose where
  "sample_proposal = build_template_propose (sample_template 7) (gs_gateway_instance_id sample_section)"

lemma sample_proposal_accepted:
  "er_reason (fst (evaluate_propose lower_hex ex_api accepting_surroundings ex_policy sample_proposal)) = None"
proof -
  obtain m tier where m: "effective_min_avg_fee_dynamic ex_policy (mempool_tx_count accepting_surroundings) = (m, tier)" by fastforce
  have "is_hex (replicate 64 (CHR ''a''))" by code_simp
  then show ?thesis using m unfolding accepted_iff [OF m]
    by (simp add: policy_ok_def sample_proposal_def build_template_propose_def sample_template_def ex_policy_def
        default_with_protocol_def policy_safety_default_def effective_min_avg_fee_dynamic_def mempool_tx_count_def
        accepting_surroundings_def ex_surroundings_def fee_floor_ok_def)
qed

theorem enforced_jobs_valid_witness:
  "\<exists>su cfg. policy_ok sample_proposal cfg (fst (effective_min_avg_fee_dynamic cfg (mempool_tx_count su))) (su_now_ms su)"
proof -
  let ?reply = "process_propose lower_hex ex_api accepting_surroundings None sample_proposal (verifier_start 2 [] ex_metrics)"
  obtain v b where v: "fst ?reply = Reply_Verdict b v" "tv_accepted v" "tv_id v = 7"
    using sample_proposal_accepted
    by (auto simp: process_propose_def accepting_surroundings_def template_verdict_def split_beta Let_def
        sample_proposal_def build_template_propose_def)
  obtain jb where jb: "gw_broadcasts (verdict_arm sample_gw_env (at_time 2) v sample_held) = [(sample_template 7, jb)]"
    "\<not> gw_degraded (verdict_arm sample_gw_env (at_time 2) v sample_held)" using sample_issued [OF v(3,2)] by blast
  have "gw_proposed sample_held = [sample_proposal]"
    by (simp add: sample_held_def sample_start_def gateway_init_def template_arm_eq duplicate_template_def is_duplicate_def
        dedup_cache_new_def template_noted_def at_time_def sample_proposal_def)
  then have "verdicts_from_verifier lower_hex ex_api [(at_time 2, Verdict_received v)] (gw_proposed sample_held)"
    using v(1) by (auto simp: verdicts_from_verifier_def)
  from enforced_jobs_valid [OF sample_held_run gateway_step.simps(3) _ jb(2) _ this, of "sample_template 7" jb sample_proposal]
  show ?thesis by (auto simp: jb(1) sample_held_state ids_identify_def sample_proposal_def)
qed

end
